(* ===== verification/Xul_Prelude.thy ===== *)
theory Xul_Prelude
  imports Main "HOL-Library.Word" "HOL-Library.List_Lexorder" "HOL-Library.Char_ord"
begin

text \<open>
  Shared vocabulary of the development: the machine types of the library (fixed width
  unsigned integers as words, byte strings as byte lists, text as HOL strings), the
  theorem collections the component theories fill, generic list and byte lemmas, and the
  byte codec interface every serialisation component meets.
\<close>

unbundle bit_operations_syntax

subsection \<open>Machine types\<close>

type_synonym u8 = "8 word"
type_synonym u16 = "16 word"
type_synonym u32 = "32 word"
type_synonym u64 = "64 word"
type_synonym bytes = "8 word list"

text \<open>Theorem collections: functional behaviour of stream operations, and preserved invariants.\<close>

named_theorems stream_simps \<open>behaviour of stream operations on available input\<close>
named_theorems invar_intros \<open>operations keep their invariant\<close>

subsection \<open>Faults\<close>

text \<open>
  The ways an operation can leave the ordinary control flow: a memory access outside a buffer
  (undefined in the source), and the exceptions the sources throw or let the standard
  library throw, or an assertion that fails. An operation that can fault returns a sum. \<open>Out_Of_Fuel\<close> belongs to the model:
  a loop that is given too little fuel ends with it.
\<close>

datatype fault =
  Out_Of_Bounds | Overflow_Error | Length_Error | Out_Of_Range | Logic_Error | Out_Of_Fuel | Assertion_Failed
| Overlapping_Copy

fun sbind :: "'e + 'a \<Rightarrow> ('a \<Rightarrow> 'e + 'b) \<Rightarrow> 'e + 'b" where
  "sbind (Inl e) f = Inl e"
| "sbind (Inr x) f = f x"

lemma sbind_Inr_iff: "sbind m f = Inr y \<longleftrightarrow> (\<exists>x. m = Inr x \<and> f x = Inr y)"
  by (cases m) auto

lemma sbind_cong [fundef_cong]:
  "m = m' \<Longrightarrow> (\<And>x. m' = Inr x \<Longrightarrow> f x = g x) \<Longrightarrow> sbind m f = sbind m' g"
  by (cases m') auto

subsection \<open>Searching a sequence\<close>

text \<open>\<open>std::search\<close>: the first position of a pattern.\<close>

fun search :: "'a list \<Rightarrow> 'a list \<Rightarrow> nat option" where
  "search pat [] = (if pat = [] then Some 0 else None)"
| "search pat (x # xs) =
     (if take (length pat) (x # xs) = pat then Some 0 else map_option Suc (search pat xs))"

lemma search_bound: "search pat xs = Some i \<Longrightarrow> i + length pat \<le> length xs \<and> take (length pat) (drop i xs) = pat"
proof (induction xs arbitrary: i)
  case (Cons x xs)
  show ?case
  proof (cases "take (length pat) (x # xs) = pat")
    case True
    then have "i = 0" using Cons.prems by simp
    moreover have "length pat \<le> length (x # xs)" using arg_cong[OF True, of length] by simp
    ultimately show ?thesis using True by simp
  next
    case False
    then show ?thesis using Cons by (auto split: if_splits)
  qed
qed (simp split: if_splits)

lemma search_append: "search pat xs = Some i \<Longrightarrow> search pat (xs @ ys) = Some i"
proof (induction xs arbitrary: i)
  case Nil
  then show ?case by (cases ys) (auto split: if_splits)
next
  case (Cons x xs)
  show ?case
  proof (cases "take (length pat) (x # xs) = pat")
    case True
    have "length pat \<le> length (x # xs)" using arg_cong[OF True, of length] by simp
    then have "take (length pat) ((x # xs) @ ys) = pat" using True by (simp del: append_Cons)
    then show ?thesis using Cons.prems True by simp
  next
    case False
    then obtain j where j: "search pat xs = Some j" "i = Suc j" using Cons.prems by auto
    have "length pat \<le> length xs" using search_bound[OF j(1)] by simp
    then have "take (length pat) (x # xs @ ys) = take (length pat) (x # xs)"
      by (cases "length pat") simp_all
    then show ?thesis using j Cons.IH False by simp
  qed
qed

text \<open>A delimiter does not start later than where the search found it.\<close>

lemma search_first: "search pat xs = Some i \<Longrightarrow> j < i \<Longrightarrow> take (length pat) (drop j xs) \<noteq> pat"
proof (induction xs arbitrary: i j)
  case (Cons x xs)
  then show ?case by (cases j) (auto split: if_splits)
qed (simp split: if_splits)

lemma search_None: "search pat xs = None \<Longrightarrow> take (length pat) (drop j xs) \<noteq> pat"
proof (induction xs arbitrary: j)
  case (Cons x xs)
  then show ?case by (cases j) (auto split: if_splits)
qed (simp split: if_splits)

subsection \<open>Conversions between a 64 bit size and a signed 64 bit integer\<close>

text \<open>A \<open>size_t\<close> that is passed where an \<open>int64_t\<close> is expected is read in two's complement.\<close>

definition int64_of_size :: "nat \<Rightarrow> int" where
  "int64_of_size n = (let m = n mod 2 ^ 64 in if m < 2 ^ 63 then int m else int m - 2 ^ 64)"

lemma int64_of_size_small: "n < 2 ^ 63 \<Longrightarrow> int64_of_size n = int n"
  by (simp add: int64_of_size_def)

text \<open>An \<open>int64_t\<close> that is compared with a \<open>size_t\<close> is converted to unsigned first.\<close>

definition size_of_int64 :: "int \<Rightarrow> int" where
  "size_of_int64 x = x mod 2 ^ 64"

lemma size_of_int64_nonneg: "0 \<le> x \<Longrightarrow> x < 2 ^ 64 \<Longrightarrow> size_of_int64 x = x"
  by (simp add: size_of_int64_def)

lemma size_of_int64_neg: "- (2 ^ 63) \<le> x \<Longrightarrow> x < 0 \<Longrightarrow> 2 ^ 63 \<le> size_of_int64 x"
proof -
  assume a: "- (2 ^ 63) \<le> x" "x < 0"
  have "x mod 2 ^ 64 = (x + 2 ^ 64) mod 2 ^ 64" by simp
  also have "\<dots> = x + 2 ^ 64" using a by (intro mod_pos_pos_trivial) auto
  finally show ?thesis using a by (simp add: size_of_int64_def)
qed

subsection \<open>Signed integers of the machine\<close>

text \<open>
  The value an \<open>int\<close> or \<open>int64_t\<close> holds after an operation whose mathematical result is the
  argument. Leaving the range is undefined in C++; the model wraps around, as the machines do, and a
  theorem about such a value bounds it so that this does not happen.
\<close>

definition c_int :: "int \<Rightarrow> int" where
  "c_int x = signed_take_bit 31 x"

definition c_int64 :: "int \<Rightarrow> int" where
  "c_int64 x = signed_take_bit 63 x"

lemma c_int_id: "- (2 ^ 31) \<le> x \<Longrightarrow> x < 2 ^ 31 \<Longrightarrow> c_int x = x"
  by (simp add: c_int_def signed_take_bit_int_eq_self)

lemma c_int64_id: "- (2 ^ 63) \<le> x \<Longrightarrow> x < 2 ^ 63 \<Longrightarrow> c_int64 x = x"
  by (simp add: c_int64_def signed_take_bit_int_eq_self)

lemma c_int_wraps [simp]:
  "c_int 0 = 0" "c_int (c_int x) = c_int x" "c_int (c_int x + y) = c_int (x + y)" "c_int (x + c_int y) = c_int (x + y)"
  "c_int (c_int x - y) = c_int (x - y)" "c_int (x - c_int y) = c_int (x - y)"
proof -
  have add: "c_int (c_int a + c_int b) = c_int (a + b)" for a b by (simp add: c_int_def signed_take_bit_add)
  have diff: "c_int (c_int a - c_int b) = c_int (a - b)" for a b by (simp add: c_int_def signed_take_bit_diff)
  show idem: "c_int (c_int x) = c_int x" by (simp add: c_int_def)
  show "c_int (c_int x + y) = c_int (x + y)" "c_int (x + c_int y) = c_int (x + y)"
    using add[of "c_int x" y] add[of x "c_int y"] add[of x y] idem by (simp_all add: c_int_def)
  show "c_int (c_int x - y) = c_int (x - y)" "c_int (x - c_int y) = c_int (x - y)"
    using diff[of "c_int x" y] diff[of x "c_int y"] diff[of x y] idem by (simp_all add: c_int_def)
qed (simp add: c_int_def)

lemma c_int64_wraps [simp]:
  "c_int64 0 = 0" "c_int64 (c_int64 x) = c_int64 x" "c_int64 (c_int64 x + y) = c_int64 (x + y)"
  "c_int64 (x + c_int64 y) = c_int64 (x + y)"
proof -
  have add: "c_int64 (c_int64 a + c_int64 b) = c_int64 (a + b)" for a b by (simp add: c_int64_def signed_take_bit_add)
  show idem: "c_int64 (c_int64 x) = c_int64 x" by (simp add: c_int64_def)
  show "c_int64 (c_int64 x + y) = c_int64 (x + y)" "c_int64 (x + c_int64 y) = c_int64 (x + y)"
    using add[of "c_int64 x" y] add[of x "c_int64 y"] add[of x y] idem by (simp_all add: c_int64_def)
qed (simp add: c_int64_def)

text \<open>A value behind the range of \<open>int\<close> wraps to a negative one.\<close>

lemma c_int_shift:
  assumes "2 ^ 31 \<le> x" and "x < 2 ^ 32 + 2 ^ 31"
  shows "c_int x = x - 2 ^ 32"
proof -
  have "c_int x = c_int (x - 2 ^ 32)"
    unfolding c_int_def signed_take_bit_eq_iff_take_bit_eq by (simp add: take_bit_eq_mod mod_diff_right_eq[symmetric])
  then show ?thesis using assms c_int_id[of "x - 2 ^ 32"] by simp
qed

lemma c_int_nat: "n < 2 ^ 31 \<Longrightarrow> c_int (int n) = int n"
  by (rule c_int_id) auto

lemma c_int64_nat: "n < 2 ^ 63 \<Longrightarrow> c_int64 (int n) = int n"
  by (rule c_int64_id) auto

subsection \<open>Lists\<close>

lemma take_append_drop_prefix: "length xs = n \<Longrightarrow> take n (xs @ ys) = xs"
  by simp

lemma drop_eq_mono:
  assumes "drop m xs = drop m ys" and "m \<le> n"
  shows "drop n xs = drop n ys"
proof -
  have "drop (n - m) (drop m xs) = drop (n - m) (drop m ys)" using assms(1) by simp
  then show ?thesis using assms(2) by simp
qed

lemma drop_append_drop: "p \<le> length d \<Longrightarrow> drop q (drop p d @ t) = drop (p + q) (d @ t)"
proof -
  assume "p \<le> length d"
  then have "drop p d @ t = drop p (d @ t)" by simp
  then show ?thesis by (simp only: drop_drop add.commute)
qed

lemma list_of_length_8:
  "length xs = 8 \<Longrightarrow> \<exists>a b c d e f g h. xs = [a, b, c, d, e, f, g, h]"
  by (auto simp: numeral_eq_Suc length_Suc_conv)

lemma list_of_length_4: "length xs = 4 \<Longrightarrow> \<exists>a b c d. xs = [a, b, c, d]"
  by (auto simp: numeral_eq_Suc length_Suc_conv)

lemma list_of_length_2: "length xs = 2 \<Longrightarrow> \<exists>a b. xs = [a, b]"
  by (auto simp: numeral_eq_Suc length_Suc_conv)

subsection \<open>Ordered maps\<close>

text \<open>
  \<open>std::map\<close> as the list of its entries in key order: \<open>insert\<close> keeps an entry that is there,
  \<open>operator[]\<close> with an assignment replaces it.
\<close>

fun std_map_insert :: "'k :: linorder \<Rightarrow> 'v \<Rightarrow> ('k \<times> 'v) list \<Rightarrow> ('k \<times> 'v) list" where
  "std_map_insert k v [] = [(k, v)]"
| "std_map_insert k v ((k', v') # m) =
     (if k < k' then (k, v) # (k', v') # m
      else if k = k' then (k', v') # m
      else (k', v') # std_map_insert k v m)"

fun std_map_set :: "'k :: linorder \<Rightarrow> 'v \<Rightarrow> ('k \<times> 'v) list \<Rightarrow> ('k \<times> 'v) list" where
  "std_map_set k v [] = [(k, v)]"
| "std_map_set k v ((k', v') # m) =
     (if k < k' then (k, v) # (k', v') # m
      else if k = k' then (k, v) # m
      else (k', v') # std_map_set k v m)"

text \<open>The keys of a map ascend strictly.\<close>

fun std_map_ok :: "('k :: linorder \<times> 'v) list \<Rightarrow> bool" where
  "std_map_ok [] = True"
| "std_map_ok (e # m) = (list_all (\<lambda>x. fst e < fst x) m \<and> std_map_ok m)"

lemma std_map_ok_append:
  "std_map_ok (m @ [e] @ n) \<Longrightarrow> list_all (\<lambda>x. fst x < fst e) m"
  by (induction m) (auto simp: list_all_iff)

lemma std_map_insert_last:
  "list_all (\<lambda>x. fst x < k) m \<Longrightarrow> std_map_insert k v m = m @ [(k, v)]"
  by (induction m) auto

lemma map_of_below: "list_all (\<lambda>x. (c :: 'k :: linorder) < fst x) m \<Longrightarrow> k \<le> c \<Longrightarrow> map_of m k = None"
  by (induction m) (auto dest: leD)

lemma map_of_std_map_insert:
  "std_map_ok m \<Longrightarrow>
    map_of (std_map_insert k v m) = (case map_of m k of None \<Rightarrow> (map_of m)(k \<mapsto> v) | Some _ \<Rightarrow> map_of m)"
  by (induction k v m rule: std_map_insert.induct)
    (auto simp: map_of_below fun_eq_iff split: option.splits)

lemma map_of_std_map_set [simp]: "map_of (std_map_set k v m) = (map_of m)(k \<mapsto> v)"
  by (induction k v m rule: std_map_set.induct) (auto simp: fun_eq_iff)

lemma std_map_insert_above:
  "list_all (\<lambda>x. c < fst x) m \<Longrightarrow> c < k \<Longrightarrow> list_all (\<lambda>x. c < fst x) (std_map_insert k v m)"
  by (induction k v m rule: std_map_insert.induct) auto

lemma std_map_set_above:
  "list_all (\<lambda>x. c < fst x) m \<Longrightarrow> c < k \<Longrightarrow> list_all (\<lambda>x. c < fst x) (std_map_set k v m)"
  by (induction k v m rule: std_map_set.induct) auto

lemma list_all_less_trans: "list_all (\<lambda>x. b < f x) m \<Longrightarrow> (a :: 'a :: order) < b \<Longrightarrow> list_all (\<lambda>x. a < f x) m"
  by (induction m) auto

lemma std_map_insert_ok [invar_intros]: "std_map_ok m \<Longrightarrow> std_map_ok (std_map_insert k v m)"
  by (induction k v m rule: std_map_insert.induct)
    (auto simp: std_map_insert_above list_all_less_trans)

lemma std_map_set_ok [invar_intros]: "std_map_ok m \<Longrightarrow> std_map_ok (std_map_set k v m)"
  by (induction k v m rule: std_map_set.induct)
    (auto simp: std_map_set_above list_all_less_trans)

subsection \<open>The byte codec interface\<close>

text \<open>
  A serialisation component offers an encoder into bytes or characters and a decoder that leaves the rest of the input.
  The contract is the round trip in front of any further input that fits a buffer, on the values
  the encoder supports. It makes the code prefix free, so sequences of encodings decode uniquely.
\<close>

locale byte_codec =
  fixes enc :: "'a \<Rightarrow> 'b list"
    and dec :: "'b list \<Rightarrow> ('a \<times> 'b list) option"
    and valid :: "'a \<Rightarrow> bool"
  assumes dec_enc:
    "valid x \<Longrightarrow> length (enc x @ rest) < 2 ^ 63 \<Longrightarrow> dec (enc x @ rest) = Some (x, rest)"
begin

lemma enc_unique:
  assumes "valid x" and "valid y" and "enc x @ r = enc y @ s" and "length (enc x @ r) < 2 ^ 63"
  shows "x = y \<and> r = s"
proof -
  have "Some (x, r) = dec (enc y @ s)"
    using dec_enc[OF assms(1,4)] unfolding assms(3) by (rule sym)
  also have "\<dots> = Some (y, s)"
    using assms(4) unfolding assms(3) by (rule dec_enc[OF assms(2)])
  finally show ?thesis by blast
qed

lemma enc_inj:
  assumes "valid x" and "valid y" and "enc x = enc y" and "length (enc x) < 2 ^ 63"
  shows "x = y"
proof -
  have "enc x @ [] = enc y @ []" unfolding assms(3) by (rule refl)
  moreover have "length (enc x @ []) < 2 ^ 63" using assms(4) by simp
  ultimately have "x = y \<and> ([] :: 'b list) = []" by (rule enc_unique[OF assms(1,2)])
  then show ?thesis by blast
qed

lemma concat_unique:
  assumes "list_all valid xs" and "list_all valid ys" and "length xs = length ys"
    and "concat (map enc xs) @ r = concat (map enc ys) @ s"
    and "length (concat (map enc xs) @ r) < 2 ^ 63"
  shows "xs = ys \<and> r = s"
  using assms(3,1,2,4,5)
proof (induction xs ys rule: list_induct2)
  case Nil
  then show ?case by simp
next
  case (Cons x xs y ys)
  have "enc x @ (concat (map enc xs) @ r) = enc y @ (concat (map enc ys) @ s)"
    using Cons.prems(3) by simp
  then have "x = y \<and> concat (map enc xs) @ r = concat (map enc ys) @ s"
    using Cons.prems(1,2,4) by (intro enc_unique) simp_all
  then show ?case using Cons.IH Cons.prems(1,2,4) by simp
qed

end

end
