(* ===== verification/Bit_Converter.thy ===== *)
theory Bit_Converter
  imports Xul_Prelude
begin

text \<open>
  \<^verbatim>\<open>include/xul/data/bit_converter.hpp\<close> and \<^verbatim>\<open>include/xul/data/byte_order.hpp\<close>: composing and
  splitting fixed width integers, conversions between integers and byte buffers in either
  byte order, and byte swapping. Buffers are byte lists; \<open>to_*\<close> reads the first bytes of the
  buffer (a shorter buffer is outside the code's contract), \<open>from_*\<close> gives the bytes it stores.
\<close>

subsection \<open>Composing and splitting\<close>

definition make_word :: "u8 \<Rightarrow> u8 \<Rightarrow> u16" where
  "make_word high low = push_bit 8 (ucast high) OR ucast low"

definition high_byte :: "u16 \<Rightarrow> u8" where
  "high_byte x = ucast (drop_bit 8 x)"

definition low_byte :: "u16 \<Rightarrow> u8" where
  "low_byte x = ucast x"

definition make_dword :: "u16 \<Rightarrow> u16 \<Rightarrow> u32" where
  "make_dword high low = push_bit 16 (ucast high) OR ucast low"

definition high_word :: "u32 \<Rightarrow> u16" where
  "high_word x = ucast (drop_bit 16 x)"

definition low_word :: "u32 \<Rightarrow> u16" where
  "low_word x = ucast x"

definition make_qword :: "u32 \<Rightarrow> u32 \<Rightarrow> u64" where
  "make_qword high low = push_bit 32 (ucast high) OR ucast low"

definition high_dword :: "u64 \<Rightarrow> u32" where
  "high_dword x = ucast (drop_bit 32 x)"

definition low_dword :: "u64 \<Rightarrow> u32" where
  "low_dword x = ucast x"

lemmas split_defs = make_word_def high_byte_def low_byte_def make_dword_def high_word_def
  low_word_def make_qword_def high_dword_def low_dword_def

subsection \<open>Reading integers from buffers\<close>

definition to_word :: "bool \<Rightarrow> bytes \<Rightarrow> u16" where
  "to_word big d =
     (if big then push_bit 8 (ucast (d ! 0)) OR ucast (d ! 1)
      else push_bit 8 (ucast (d ! 1)) OR ucast (d ! 0))"

definition to_dword :: "bool \<Rightarrow> bytes \<Rightarrow> u32" where
  "to_dword big d =
     (if big then push_bit 24 (ucast (d ! 0)) OR push_bit 16 (ucast (d ! 1))
        OR push_bit 8 (ucast (d ! 2)) OR ucast (d ! 3)
      else push_bit 24 (ucast (d ! 3)) OR push_bit 16 (ucast (d ! 2))
        OR push_bit 8 (ucast (d ! 1)) OR ucast (d ! 0))"

definition to_qword :: "bool \<Rightarrow> bytes \<Rightarrow> u64" where
  "to_qword big d =
     (if big then push_bit 56 (ucast (d ! 0)) OR push_bit 48 (ucast (d ! 1))
        OR push_bit 40 (ucast (d ! 2)) OR push_bit 32 (ucast (d ! 3))
        OR push_bit 24 (ucast (d ! 4)) OR push_bit 16 (ucast (d ! 5))
        OR push_bit 8 (ucast (d ! 6)) OR ucast (d ! 7)
      else push_bit 56 (ucast (d ! 7)) OR push_bit 48 (ucast (d ! 6))
        OR push_bit 40 (ucast (d ! 5)) OR push_bit 32 (ucast (d ! 4))
        OR push_bit 24 (ucast (d ! 3)) OR push_bit 16 (ucast (d ! 2))
        OR push_bit 8 (ucast (d ! 1)) OR ucast (d ! 0))"

subsection \<open>Storing integers into buffers\<close>

definition from_word :: "bool \<Rightarrow> u16 \<Rightarrow> bytes" where
  "from_word big x = (if big then [high_byte x, low_byte x] else [low_byte x, high_byte x])"

definition from_dword :: "bool \<Rightarrow> u32 \<Rightarrow> bytes" where
  "from_dword big x =
     (let b0 = ucast (drop_bit 24 (x AND 0xFF000000)); b1 = ucast (drop_bit 16 (x AND 0xFF0000));
          b2 = ucast (drop_bit 8 (x AND 0xFF00)); b3 = ucast (x AND 0xFF)
      in if big then [b0, b1, b2, b3] else [b3, b2, b1, b0])"

definition from_qword :: "bool \<Rightarrow> u64 \<Rightarrow> bytes" where
  "from_qword big x =
     (let h = high_dword x; l = low_dword x;
          b0 = ucast (drop_bit 24 (h AND 0xFF000000)); b1 = ucast (drop_bit 16 (h AND 0xFF0000));
          b2 = ucast (drop_bit 8 (h AND 0xFF00)); b3 = ucast (h AND 0xFF);
          b4 = ucast (drop_bit 24 (l AND 0xFF000000)); b5 = ucast (drop_bit 16 (l AND 0xFF0000));
          b6 = ucast (drop_bit 8 (l AND 0xFF00)); b7 = ucast (l AND 0xFF)
      in if big then [b0, b1, b2, b3, b4, b5, b6, b7] else [b7, b6, b5, b4, b3, b2, b1, b0])"

lemma length_from_word [simp]: "length (from_word big x) = 2"
  by (simp add: from_word_def)

lemma length_from_dword [simp]: "length (from_dword big x) = 4"
  by (simp add: from_dword_def Let_def)

lemma length_from_qword [simp]: "length (from_qword big x) = 8"
  by (simp add: from_qword_def Let_def)

subsection \<open>Byte swapping\<close>

definition reverse_word :: "u16 \<Rightarrow> u16" where
  "reverse_word val = push_bit 8 (val AND 0xFF) OR drop_bit 8 (val AND 0xFF00)"

definition reverse_dword :: "u32 \<Rightarrow> u32" where
  "reverse_dword n =
     push_bit 24 (n AND 0xFF) OR push_bit 8 (n AND 0xFF00)
     OR drop_bit 8 (n AND 0xFF0000) OR drop_bit 24 (n AND 0xFF000000)"

definition reverse_qword :: "u64 \<Rightarrow> u64" where
  "reverse_qword x =
     (let low = reverse_dword (high_dword x); high = reverse_dword (low_dword x)
      in make_qword high low)"

subsection \<open>Bit positions\<close>

lemma byte_masks:
  "(0xFF :: u32) = mask 8" "(0xFF00 :: u32) = push_bit 8 (mask 8)"
  "(0xFF0000 :: u32) = push_bit 16 (mask 8)" "(0xFF000000 :: u32) = push_bit 24 (mask 8)"
  "(0xFF :: u16) = mask 8" "(0xFF00 :: u16) = push_bit 8 (mask 8)"
  by (simp_all add: mask_eq_exp_minus_1 push_bit_eq_mult)

lemma byte_of_dword:
  fixes x :: u32
  shows "ucast (drop_bit 24 (x AND 0xFF000000)) = (ucast (drop_bit 24 x) :: u8)"
    and "ucast (drop_bit 16 (x AND 0xFF0000)) = (ucast (drop_bit 16 x) :: u8)"
    and "ucast (drop_bit 8 (x AND 0xFF00)) = (ucast (drop_bit 8 x) :: u8)"
    and "ucast (x AND 0xFF) = (ucast x :: u8)"
  unfolding byte_masks by (auto simp: bit_eq_iff bit_simps)

lemma octet_cases:
  fixes n :: nat
  assumes "n < 64"
  shows "n < 8 \<or> 8 \<le> n \<and> n < 16 \<or> 16 \<le> n \<and> n < 24 \<or> 24 \<le> n \<and> n < 32
    \<or> 32 \<le> n \<and> n < 40 \<or> 40 \<le> n \<and> n < 48 \<or> 48 \<le> n \<and> n < 56 \<or> 56 \<le> n \<and> n < 64"
  using assms by linarith

lemma bit_above: "8 \<le> n \<Longrightarrow> \<not> bit (w :: u8) n" "32 \<le> n \<Longrightarrow> \<not> bit (v :: u32) n"
  using bit_imp_le_length[of w n] bit_imp_le_length[of v n] by auto

lemma bit_above_diff: "k + 8 \<le> n \<Longrightarrow> \<not> bit (w :: u8) (n - k)"
  by (rule bit_above) simp

lemmas octet_simps =
  bit_simps byte_of_dword Let_def less_diff_conv2 le_diff_conv2 bit_above bit_above_diff

subsection \<open>Reading what was stored, and storing what was read\<close>

lemma to_from_word [simp]: "to_word big (from_word big x @ r) = x"
  by (cases big)
    (auto simp: to_word_def from_word_def high_byte_def low_byte_def bit_eq_iff bit_simps)

lemma to_from_dword [simp]: "to_dword big (from_dword big x @ r) = x"
proof (rule bit_word_eqI)
  fix n
  assume n: "n < LENGTH(32)"
  then have "n < 64" by simp
  with n show "bit (to_dword big (from_dword big x @ r)) n = bit x n"
    by - (drule octet_cases, elim disjE;
        cases big; simp add: to_dword_def from_dword_def octet_simps)
qed

lemma to_from_qword [simp]: "to_qword big (from_qword big x @ r) = x"
proof (rule bit_word_eqI)
  fix n
  assume n: "n < LENGTH(64)"
  then have "n < 64" by simp
  with n show "bit (to_qword big (from_qword big x @ r)) n = bit x n"
    by - (drule octet_cases, elim disjE; cases big;
        simp add: to_qword_def from_qword_def high_dword_def low_dword_def octet_simps)
qed

lemma from_to_word: "from_word big (to_word big (a # b # r)) = [a, b]"
  by (cases big)
    (auto simp: to_word_def from_word_def high_byte_def low_byte_def bit_eq_iff bit_simps bit_above)

lemma from_to_dword: "from_dword big (to_dword big (a # b # c # d # r)) = [a, b, c, d]"
  by (cases big) (simp_all add: to_dword_def from_dword_def bit_eq_iff octet_simps)

lemma from_to_qword:
  "from_qword big (to_qword big (a # b # c # d # e # f # g # h # r)) = [a, b, c, d, e, f, g, h]"
  by (cases big)
    (simp_all add: to_qword_def from_qword_def high_dword_def low_dword_def bit_eq_iff octet_simps)

subsection \<open>Swapping bytes is reading in the other byte order\<close>

lemma reverse_to_word: "reverse_word (to_word big (a # b # r)) = to_word (\<not> big) (a # b # r)"
proof (rule bit_word_eqI)
  fix n
  assume n: "n < LENGTH(16)"
  then have "n < 64" by simp
  with n show "bit (reverse_word (to_word big (a # b # r))) n = bit (to_word (\<not> big) (a # b # r)) n"
    unfolding reverse_word_def byte_masks
    by - (drule octet_cases, elim disjE; cases big; simp add: to_word_def octet_simps)
qed

lemma reverse_to_dword:
  "reverse_dword (to_dword big (a # b # c # d # r)) = to_dword (\<not> big) (a # b # c # d # r)"
proof (rule bit_word_eqI)
  fix n
  assume n: "n < LENGTH(32)"
  then have "n < 64" by simp
  with n show "bit (reverse_dword (to_dword big (a # b # c # d # r))) n
      = bit (to_dword (\<not> big) (a # b # c # d # r)) n"
    unfolding reverse_dword_def byte_masks
    by - (drule octet_cases, elim disjE; cases big; simp add: to_dword_def octet_simps)
qed

lemma to_qword_halves:
  "to_qword big (a # b # c # d # e # f # g # h # r) =
     (if big then make_qword (to_dword big [a, b, c, d]) (to_dword big [e, f, g, h])
      else make_qword (to_dword big [e, f, g, h]) (to_dword big [a, b, c, d]))"
  (is "?l = ?r")
proof (rule bit_word_eqI)
  fix n
  assume n: "n < LENGTH(64)"
  then have "n < 64" by simp
  with n show "bit ?l n = bit ?r n"
    by - (drule octet_cases, elim disjE; cases big;
        simp add: to_qword_def to_dword_def make_qword_def octet_simps)
qed

lemma make_split [simp]:
  "high_byte (make_word h8 l8) = h8" "low_byte (make_word h8 l8) = l8"
  "high_word (make_dword h16 l16) = h16" "low_word (make_dword h16 l16) = l16"
  "high_dword (make_qword h32 l32) = h32" "low_dword (make_qword h32 l32) = l32"
  by (auto simp: split_defs bit_eq_iff bit_simps dest: bit_imp_le_length)

lemma split_make [simp]:
  "make_word (high_byte x) (low_byte x) = x"
  "make_dword (high_word y) (low_word y) = y"
  "make_qword (high_dword z) (low_dword z) = z"
  by (auto simp: split_defs bit_eq_iff bit_simps)

lemma reverse_to_qword:
  "reverse_qword (to_qword big (a # b # c # d # e # f # g # h # r))
     = to_qword (\<not> big) (a # b # c # d # e # f # g # h # r)"
  by (cases big) (simp_all add: to_qword_halves reverse_qword_def reverse_to_dword)

subsection \<open>Byte order conversion\<close>

text \<open>The converter of a \<open>byte_order\<close> object on a host of the byte order \<open>host\<close>.\<close>

definition convert_word :: "bool \<Rightarrow> bool \<Rightarrow> u16 \<Rightarrow> u16" where
  "convert_word host big val = (if host = big then val else reverse_word val)"

definition convert_dword :: "bool \<Rightarrow> bool \<Rightarrow> u32 \<Rightarrow> u32" where
  "convert_dword host big val = (if host = big then val else reverse_dword val)"

definition convert_qword :: "bool \<Rightarrow> bool \<Rightarrow> u64 \<Rightarrow> u64" where
  "convert_qword host big val = (if host = big then val else reverse_qword val)"

text \<open>A double is its eight bytes in memory: converting reverses them.\<close>

definition convert_double_bytes :: "bool \<Rightarrow> bool \<Rightarrow> bytes \<Rightarrow> bytes" where
  "convert_double_bytes host big val = (if host = big then val else rev val)"

lemma word_from_bytes: "\<exists>a b. x = to_word big [a, b]"
  using to_from_word[of big x "[]"] list_of_length_2[OF length_from_word[of big x]]
  by (metis append_Nil2)

lemma dword_from_bytes: "\<exists>a b c d. x = to_dword big [a, b, c, d]"
  using to_from_dword[of big x "[]"] list_of_length_4[OF length_from_dword[of big x]]
  by (metis append_Nil2)

lemma qword_from_bytes: "\<exists>a b c d e f g h. x = to_qword big [a, b, c, d, e, f, g, h]"
  using to_from_qword[of big x "[]"] list_of_length_8[OF length_from_qword[of big x]]
  by (metis append_Nil2)

lemma from_word_flip: "from_word (\<not> big) x = rev (from_word big x)"
  by (cases big) (simp_all add: from_word_def)

lemma from_dword_flip: "from_dword (\<not> big) x = rev (from_dword big x)"
  by (cases big) (simp_all add: from_dword_def Let_def)

lemma from_qword_flip: "from_qword (\<not> big) x = rev (from_qword big x)"
  by (cases big) (simp_all add: from_qword_def Let_def)

lemma from_reverse_word: "from_word big (reverse_word x) = rev (from_word big x)"
proof -
  obtain a b where x: "x = to_word big [a, b]" using word_from_bytes by blast
  have "from_word (\<not> big) (reverse_word x) = from_word big x"
    using from_to_word[of "\<not> big" a b "[]"] by (simp add: x reverse_to_word from_to_word)
  then show ?thesis using from_word_flip[of big "reverse_word x"] by (metis rev_rev_ident)
qed

lemma from_reverse_dword: "from_dword big (reverse_dword x) = rev (from_dword big x)"
proof -
  obtain a b c d where x: "x = to_dword big [a, b, c, d]" using dword_from_bytes by blast
  have "from_dword (\<not> big) (reverse_dword x) = from_dword big x"
    using from_to_dword[of "\<not> big" a b c d "[]"] by (simp add: x reverse_to_dword from_to_dword)
  then show ?thesis using from_dword_flip[of big "reverse_dword x"] by (metis rev_rev_ident)
qed

lemma from_reverse_qword: "from_qword big (reverse_qword x) = rev (from_qword big x)"
proof -
  obtain a b c d e f g h where x: "x = to_qword big [a, b, c, d, e, f, g, h]"
    using qword_from_bytes by blast
  have "from_qword (\<not> big) (reverse_qword x) = from_qword big x"
    using from_to_qword[of "\<not> big" a b c d e f g h "[]"]
    by (simp add: x reverse_to_qword from_to_qword)
  then show ?thesis using from_qword_flip[of big "reverse_qword x"] by (metis rev_rev_ident)
qed

lemma from_convert_word: "from_word host (convert_word host big w) = from_word big w"
  using from_word_flip[of True w]
  by (cases host; cases big) (simp_all add: convert_word_def from_reverse_word)

lemma from_convert_dword: "from_dword host (convert_dword host big w) = from_dword big w"
  using from_dword_flip[of True w]
  by (cases host; cases big) (simp_all add: convert_dword_def from_reverse_dword)

lemma from_convert_qword: "from_qword host (convert_qword host big w) = from_qword big w"
  using from_qword_flip[of True w]
  by (cases host; cases big) (simp_all add: convert_qword_def from_reverse_qword)

text \<open>
  Writing an integer in a byte order and reading it back gives the integer, whatever follows
  in the buffer, at every width; and a converted integer has, in the memory of the host, exactly
  the bytes of the original in the byte order asked for.
\<close>

theorem byte_order_conversion:
  "to_word big (from_word big w @ r) = w \<and> to_dword big (from_dword big d @ r) = d
   \<and> to_qword big (from_qword big q @ r) = q
   \<and> from_word host (convert_word host big w) = from_word big w
   \<and> from_dword host (convert_dword host big d) = from_dword big d
   \<and> from_qword host (convert_qword host big q) = from_qword big q"
  by (simp add: from_convert_word from_convert_dword from_convert_qword)

lemma convert_to_word: "convert_word host big (to_word host (a # b # r)) = to_word big (a # b # r)"
  by (cases host; cases big) (simp_all add: convert_word_def reverse_to_word)

lemma convert_to_dword:
  "convert_dword host big (to_dword host (a # b # c # d # r)) = to_dword big (a # b # c # d # r)"
  by (cases host; cases big) (simp_all add: convert_dword_def reverse_to_dword)

lemma convert_to_qword:
  "convert_qword host big (to_qword host (a # b # c # d # e # f # g # h # r))
     = to_qword big (a # b # c # d # e # f # g # h # r)"
  by (cases host; cases big) (simp_all add: convert_qword_def reverse_to_qword)

end
