(* ===== verification/Memory_Streams.thy ===== *)
theory Memory_Streams
  imports Bit_Converter
begin

text \<open>
  \<^verbatim>\<open>include/xul/io/memory_input_stream.hpp\<close> and
  \<^verbatim>\<open>include/xul/io/memory_output_stream.hpp\<close>: streams over a caller supplied
  buffer. Positions are \<open>int64_t\<close>, sizes \<open>size_t\<close>; a comparison of the two is unsigned, which is
  what keeps a negative position out. An assertion of the source is compiled out.
\<close>

subsection \<open>memory_input_stream\<close>

record mem_in =
  in_buffer :: bytes
  in_position :: int

definition attach_buffer :: "bytes \<Rightarrow> mem_in" where
  "attach_buffer buf = \<lparr>in_buffer = buf, in_position = 0\<rparr>"

definition in_size :: "mem_in \<Rightarrow> nat" where
  "in_size s = length (in_buffer s)"

definition in_available :: "mem_in \<Rightarrow> int" where
  "in_available s =
     (if int (in_size s) \<ge> size_of_int64 (in_position s) then int (in_size s) - in_position s else 0)"

definition in_is_available :: "int \<Rightarrow> mem_in \<Rightarrow> bool" where
  "in_is_available n s = (size_of_int64 (in_position s + n) \<le> int (in_size s))"

text \<open>The copy from the position: outside the buffer it is undefined.\<close>

definition in_copy :: "nat \<Rightarrow> mem_in \<Rightarrow> fault + bytes" where
  "in_copy n s =
     (if 0 \<le> in_position s \<and> in_position s + int n \<le> int (in_size s)
      then Inr (take n (drop (nat (in_position s)) (in_buffer s))) else Inl Out_Of_Bounds)"

definition in_read :: "nat \<Rightarrow> mem_in \<Rightarrow> fault + bytes \<times> mem_in" where
  "in_read n s =
     (if \<not> in_is_available (int64_of_size n) s then Inr ([], s)
      else if n > 0 then
        sbind (in_copy n s) (\<lambda>d. Inr (d, s\<lparr>in_position := in_position s + int n\<rparr>))
      else Inr ([], s))"

text \<open>
  \<open>read_n\<close> and \<open>read_memory\<close> of \<^verbatim>\<open>include/xul/io/input_stream.hpp\<close>: all or
  nothing.
\<close>

definition in_read_n :: "nat \<Rightarrow> mem_in \<Rightarrow> fault + bytes option \<times> mem_in" where
  "in_read_n n s =
     sbind (in_read n s) (\<lambda>(d, s'). Inr (if length d = n then Some d else None, s'))"

definition in_peek_byte :: "mem_in \<Rightarrow> int" where
  "in_peek_byte s =
     (if size_of_int64 (in_position s) \<ge> int (in_size s) then - 1
      else uint (in_buffer s ! nat (in_position s)))"

definition in_read_byte :: "mem_in \<Rightarrow> int \<times> mem_in" where
  "in_read_byte s =
     (if \<not> in_is_available 1 s then (- 1, s)
      else (uint (in_buffer s ! nat (in_position s)), s\<lparr>in_position := in_position s + 1\<rparr>))"

definition in_skip :: "int \<Rightarrow> mem_in \<Rightarrow> bool \<times> mem_in" where
  "in_skip n s =
     (if \<not> in_is_available n s then (False, s)
      else (True, s\<lparr>in_position := in_position s + n\<rparr>))"

definition in_seek :: "int \<Rightarrow> mem_in \<Rightarrow> bool \<times> mem_in" where
  "in_seek pos s =
     (if size_of_int64 pos > int (in_size s) then (False, s) else (True, s\<lparr>in_position := pos\<rparr>))"

text \<open>
  The templates over the element type are given by the element's size: \<open>read_value\<close> reads one,
  \<open>read_array\<close> and \<open>read_vector\<close> a count of them, the product being a \<open>size_t\<close>.
\<close>

definition in_read_value :: "nat \<Rightarrow> mem_in \<Rightarrow> fault + bytes option \<times> mem_in" where
  "in_read_value sz s =
     (if \<not> in_is_available (int64_of_size sz) s then Inr (None, s)
      else sbind (in_copy sz s) (\<lambda>d. Inr (Some d, s\<lparr>in_position := in_position s + int sz\<rparr>)))"

definition in_read_array :: "nat \<Rightarrow> nat \<Rightarrow> mem_in \<Rightarrow> fault + bytes option \<times> mem_in" where
  "in_read_array sz cnt s =
     (if cnt = 0 then Inr (Some [], s) else in_read_n (sz * cnt mod 2 ^ 64) s)"

definition in_read_vector :: "nat \<Rightarrow> nat \<Rightarrow> mem_in \<Rightarrow> fault + bytes option \<times> mem_in" where
  "in_read_vector sz cnt s =
     (if cnt = 0 then Inr (Some [], s)
      else if \<not> in_is_available (int64_of_size (sz * cnt)) s then Inr (None, s)
      else in_read_array sz cnt s)"

definition in_read_string :: "nat \<Rightarrow> nat \<Rightarrow> mem_in \<Rightarrow> fault + bytes option \<times> mem_in" where
  "in_read_string sz cnt s =
     (if cnt = 0 then Inr (Some [], s)
      else if \<not> in_is_available (int64_of_size (cnt * sz)) s then Inr (None, s)
      else in_read_array sz cnt s)"

text \<open>Invariant: the position stays in the buffer; a buffer has fewer than \<open>2^63\<close> bytes.\<close>

definition mem_in_ok :: "mem_in \<Rightarrow> bool" where
  "mem_in_ok s = (0 \<le> in_position s \<and> in_position s \<le> int (length (in_buffer s))
     \<and> length (in_buffer s) < 2 ^ 63)"

text \<open>What is left to read, the abstract value of a stream.\<close>

definition in_rest :: "mem_in \<Rightarrow> bytes" where
  "in_rest s = drop (nat (in_position s)) (in_buffer s)"

lemma attach_ok [invar_intros]: "length buf < 2 ^ 63 \<Longrightarrow> mem_in_ok (attach_buffer buf)"
  by (simp add: mem_in_ok_def attach_buffer_def)

lemma rest_attach [simp]: "in_rest (attach_buffer buf) = buf"
  by (simp add: in_rest_def attach_buffer_def)

lemma length_rest: "mem_in_ok s \<Longrightarrow> int (length (in_rest s)) = int (in_size s) - in_position s"
  by (auto simp: mem_in_ok_def in_rest_def in_size_def)

lemma length_rest_less: "mem_in_ok s \<Longrightarrow> length (in_rest s) < 2 ^ 63"
  by (auto simp: mem_in_ok_def in_rest_def)

lemma size_of_int64_id_iff:
  assumes "- (2 ^ 63) \<le> x" and "x < 2 ^ 64" and "b < 2 ^ 63"
  shows "size_of_int64 x \<le> b \<longleftrightarrow> 0 \<le> x \<and> x \<le> b"
  using assms size_of_int64_nonneg[of x] size_of_int64_neg[of x] by (cases "0 \<le> x") auto

lemma is_available_iff:
  assumes "mem_in_ok s" and "- (2 ^ 63) \<le> n" and "n < 2 ^ 63"
  shows "in_is_available n s \<longleftrightarrow> 0 \<le> in_position s + n \<and> n \<le> int (length (in_rest s))"
proof -
  have "size_of_int64 (in_position s + n) \<le> int (in_size s)
      \<longleftrightarrow> 0 \<le> in_position s + n \<and> in_position s + n \<le> int (in_size s)"
    using assms by (intro size_of_int64_id_iff) (auto simp: mem_in_ok_def in_size_def)
  then show ?thesis using length_rest[OF assms(1)] by (auto simp: in_is_available_def)
qed

text \<open>A \<open>size_t\<close> of \<open>2^63\<close> or more reads as a negative size that leads before the buffer.\<close>

lemma is_available_size:
  assumes "mem_in_ok s" and "n < 2 ^ 64"
  shows "in_is_available (int64_of_size n) s \<longleftrightarrow> n \<le> length (in_rest s)
    \<or> (2 ^ 63 \<le> n \<and> 2 ^ 64 \<le> in_position s + int n)"
proof (cases "n < 2 ^ 63")
  case True
  then show ?thesis
    using is_available_iff[OF assms(1), of "int n"] assms(1)
    by (auto simp: int64_of_size_small mem_in_ok_def)
next
  case False
  then have "int64_of_size n = int n - 2 ^ 64" using assms(2) by (simp add: int64_of_size_def)
  then show ?thesis
    using is_available_iff[OF assms(1), of "int n - 2 ^ 64"] False assms length_rest_less[OF assms(1)]
    by auto
qed

lemma in_copy_ok:
  "mem_in_ok s \<Longrightarrow> n \<le> length (in_rest s) \<Longrightarrow> in_copy n s = Inr (take n (in_rest s))"
  using length_rest[of s] by (simp add: in_copy_def in_rest_def mem_in_ok_def)

lemma ok_advance:
  assumes "mem_in_ok s" and "n \<le> length (in_rest s)"
  shows "mem_in_ok (s\<lparr>in_position := in_position s + int n\<rparr>)"
    and "in_rest (s\<lparr>in_position := in_position s + int n\<rparr>) = drop n (in_rest s)"
  using assms length_rest[OF assms(1)]
  by (auto simp: mem_in_ok_def in_size_def in_rest_def nat_add_distrib add.commute)

text \<open>Reading is splitting the rest of the input, all of the request or nothing.\<close>

definition in_advance :: "nat \<Rightarrow> mem_in \<Rightarrow> mem_in" where
  "in_advance n s = s\<lparr>in_position := in_position s + int n\<rparr>"

lemma advance_ok [invar_intros]:
  "mem_in_ok s \<Longrightarrow> n \<le> length (in_rest s) \<Longrightarrow> mem_in_ok (in_advance n s)"
  unfolding in_advance_def by (rule ok_advance(1))

lemma rest_advance [stream_simps]:
  "mem_in_ok s \<Longrightarrow> n \<le> length (in_rest s) \<Longrightarrow> in_rest (in_advance n s) = drop n (in_rest s)"
  unfolding in_advance_def by (rule ok_advance(2))

lemma in_advance_0 [simp]: "in_advance 0 s = s"
  by (simp add: in_advance_def)

lemma in_read_enough:
  assumes "mem_in_ok s" and "n \<le> length (in_rest s)"
  shows "in_read n s = Inr (take n (in_rest s), in_advance n s)"
proof -
  have "n < 2 ^ 64" using assms length_rest_less[OF assms(1)] by simp
  then have "in_is_available (int64_of_size n) s" using assms is_available_size by simp
  then show ?thesis using assms by (simp add: in_read_def in_copy_ok in_advance_def)
qed

lemma in_read_short:
  assumes "mem_in_ok s" and "length (in_rest s) < n" and "n < 2 ^ 63"
  shows "in_read n s = Inr ([], s)"
proof -
  have "\<not> in_is_available (int64_of_size n) s" using assms is_available_size[of s n] by simp
  then show ?thesis by (simp add: in_read_def)
qed

lemma in_read_n_enough [stream_simps]:
  "mem_in_ok s \<Longrightarrow> n \<le> length (in_rest s)
    \<Longrightarrow> in_read_n n s = Inr (Some (take n (in_rest s)), in_advance n s)"
  by (simp add: in_read_n_def in_read_enough)

lemma in_read_n_short [stream_simps]:
  "mem_in_ok s \<Longrightarrow> length (in_rest s) < n \<Longrightarrow> n < 2 ^ 63 \<Longrightarrow> in_read_n n s = Inr (None, s)"
  by (auto simp: in_read_n_def in_read_short)

lemma in_read_byte_Cons [stream_simps]:
  assumes "mem_in_ok s" and "in_rest s = b # r"
  shows "in_read_byte s = (uint b, in_advance 1 s)"
proof -
  have lt: "nat (in_position s) < length (in_buffer s)"
    using assms(2) by (metis drop_eq_Nil in_rest_def linorder_not_le list.distinct(1))
  then have "in_buffer s ! nat (in_position s) = b"
    using assms(2) Cons_nth_drop_Suc[OF lt] by (simp add: in_rest_def)
  moreover have "in_is_available 1 s"
    using is_available_iff[OF assms(1), of 1] assms by (simp add: mem_in_ok_def)
  ultimately show ?thesis by (simp add: in_read_byte_def in_advance_def)
qed

lemma in_read_byte_Nil [stream_simps]:
  "mem_in_ok s \<Longrightarrow> in_rest s = [] \<Longrightarrow> in_read_byte s = (- 1, s)"
  using is_available_iff[of s 1] by (simp add: in_read_byte_def)

lemma in_skip_ok:
  assumes "mem_in_ok s" and "- (2 ^ 63) \<le> n" and "n < 2 ^ 63"
  shows "mem_in_ok (snd (in_skip n s))"
    and "fst (in_skip n s) \<longleftrightarrow> 0 \<le> in_position s + n \<and> n \<le> int (length (in_rest s))"
  using is_available_iff[OF assms] length_rest[OF assms(1)] assms(1)
  by (auto simp: in_skip_def mem_in_ok_def in_size_def)

lemma in_seek_ok:
  assumes "mem_in_ok s" and "- (2 ^ 63) \<le> p" and "p < 2 ^ 63"
  shows "mem_in_ok (snd (in_seek p s))"
    and "fst (in_seek p s) \<longleftrightarrow> 0 \<le> p \<and> p \<le> int (length (in_buffer s))"
proof -
  have "size_of_int64 p \<le> int (in_size s) \<longleftrightarrow> 0 \<le> p \<and> p \<le> int (in_size s)"
    using assms by (intro size_of_int64_id_iff) (auto simp: mem_in_ok_def in_size_def)
  then show "mem_in_ok (snd (in_seek p s))"
    and "fst (in_seek p s) \<longleftrightarrow> 0 \<le> p \<and> p \<le> int (length (in_buffer s))"
    using assms(1) by (auto simp: in_seek_def mem_in_ok_def in_size_def)
qed

lemma in_available_rest: "mem_in_ok s \<Longrightarrow> in_available s = int (length (in_rest s))"
  using length_rest[of s]
  by (auto simp: in_available_def mem_in_ok_def in_size_def size_of_int64_nonneg)

lemma in_read_huge:
  assumes "mem_in_ok s" and "2 ^ 63 \<le> n" and "n < 2 ^ 64" and "2 ^ 64 \<le> in_position s + int n"
  shows "in_read n s = Inl Out_Of_Bounds"
proof -
  have "in_is_available (int64_of_size n) s" using assms is_available_size by blast
  moreover have "\<not> in_position s + int n \<le> int (in_size s)"
    using assms length_rest_less[OF assms(1)] by (auto simp: mem_in_ok_def in_size_def)
  ultimately show ?thesis using assms(2) by (simp add: in_read_def in_copy_def)
qed

text \<open>The operations of a client, and the run of a sequence of them.\<close>

datatype in_op = Op_Read nat | Op_Read_Byte | Op_Skip int | Op_Seek int

fun in_step :: "in_op \<Rightarrow> mem_in \<Rightarrow> fault + mem_in" where
  "in_step (Op_Read n) s = sbind (in_read n s) (\<lambda>(_, s'). Inr s')"
| "in_step Op_Read_Byte s = Inr (snd (in_read_byte s))"
| "in_step (Op_Skip n) s = Inr (snd (in_skip n s))"
| "in_step (Op_Seek p) s = Inr (snd (in_seek p s))"

fun in_run :: "in_op list \<Rightarrow> mem_in \<Rightarrow> fault + mem_in" where
  "in_run [] s = Inr s"
| "in_run (op # ops) s = sbind (in_step op s) (in_run ops)"

fun in_op_ok :: "in_op \<Rightarrow> bool" where
  "in_op_ok (Op_Read n) = (n < 2 ^ 63)"
| "in_op_ok Op_Read_Byte = True"
| "in_op_ok (Op_Skip n) = (- (2 ^ 63) \<le> n \<and> n < 2 ^ 63)"
| "in_op_ok (Op_Seek p) = (- (2 ^ 63) \<le> p \<and> p < 2 ^ 63)"

lemma in_step_ok:
  assumes "mem_in_ok s" and "in_op_ok op"
  shows "\<exists>s'. in_step op s = Inr s' \<and> mem_in_ok s' \<and> in_buffer s' = in_buffer s"
proof (cases op)
  case (Op_Read n)
  then show ?thesis
    using assms in_read_enough[of s n] in_read_short[of s n] advance_ok[of s n]
    by (cases "n \<le> length (in_rest s)") (auto simp: in_advance_def)
next
  case Op_Read_Byte
  then show ?thesis
    using assms in_read_byte_Nil[of s] in_read_byte_Cons[of s] advance_ok[of s 1]
    by (cases "in_rest s") (auto simp: in_advance_def)
next
  case (Op_Skip n)
  then show ?thesis using assms in_skip_ok[of s n] by (auto simp: in_skip_def)
next
  case (Op_Seek p)
  then show ?thesis using assms in_seek_ok[of s p] by (auto simp: in_seek_def)
qed

text \<open>
  C1. A memory input stream never reads outside its buffer: whatever sequence of reads, byte
  reads, skips (backwards too) and seeks (to negative positions too) a client makes, with sizes a
  signed 64 bit integer can hold, the run finishes without a fault, the position is in
  the buffer and the buffer is untouched.
\<close>

theorem memory_input_stream_safe:
  assumes "length buf < 2 ^ 63" and "list_all in_op_ok ops"
  shows "\<exists>s. in_run ops (attach_buffer buf) = Inr s \<and> in_buffer s = buf
    \<and> 0 \<le> in_position s \<and> in_position s \<le> int (length buf)"
proof -
  have "\<exists>s'. in_run ops s = Inr s' \<and> mem_in_ok s' \<and> in_buffer s' = in_buffer s"
    if "mem_in_ok s" for s
    using assms(2) that
  proof (induction ops arbitrary: s)
    case (Cons op ops)
    then obtain s1 where s1: "in_step op s = Inr s1" "mem_in_ok s1" "in_buffer s1 = in_buffer s"
      using in_step_ok[of s op] by auto
    with Cons.IH[of s1] Cons.prems show ?case by simp
  qed simp
  from this[OF attach_ok[OF assms(1)]] show ?thesis
    by (auto simp: mem_in_ok_def attach_buffer_def)
qed

theorem memory_input_stream_safe_witness:
  "\<exists>s. in_run [Op_Read 2, Op_Skip (- 1), Op_Seek (- 5), Op_Read 7, Op_Read_Byte] (attach_buffer [1, 2, 3])
     = Inr s \<and> in_buffer s = [1, 2, 3] \<and> 0 \<le> in_position s \<and> in_position s \<le> int (length [1, 2, 3 :: u8])"
  by (rule memory_input_stream_safe) simp_all

text \<open>
  A read request with a size of \<open>2^63\<close> or more (a negative length converted to \<open>size_t\<close>) that
  leads back into the consumed part passes the availability test, and the copy leaves the buffer.
\<close>

theorem memory_input_stream_huge_read:
  assumes "mem_in_ok s" and "0 < k" and "int k \<le> in_position s"
  shows "in_read (2 ^ 64 - k) s = Inl Out_Of_Bounds"
proof (rule in_read_huge[OF assms(1)])
  have "k < 2 ^ 63" using assms by (auto simp: mem_in_ok_def)
  then show "2 ^ 63 \<le> 2 ^ 64 - k" "2 ^ 64 - k < 2 ^ 64"
    and "2 ^ 64 \<le> in_position s + int (2 ^ 64 - k)"
    using assms by (auto simp: of_nat_diff)
qed

theorem memory_input_stream_huge_read_witness:
  "in_read (2 ^ 64 - 1) \<lparr>in_buffer = [7, 8], in_position = 1\<rparr> = Inl Out_Of_Bounds"
  using memory_input_stream_huge_read[of "\<lparr>in_buffer = [7, 8], in_position = 1\<rparr>" 1]
  by (simp add: mem_in_ok_def)

subsection \<open>memory_output_stream\<close>

record mem_out =
  out_buffer :: bytes
  out_capacity :: int
  out_position :: int

definition mem_out_init :: "bytes \<Rightarrow> int \<Rightarrow> mem_out" where
  "mem_out_init buf cap = \<lparr>out_buffer = buf, out_capacity = cap, out_position = 0\<rparr>"

definition out_is_available :: "int \<Rightarrow> mem_out \<Rightarrow> bool" where
  "out_is_available n s = (out_position s + n \<le> out_capacity s)"

definition out_check_available :: "int \<Rightarrow> mem_out \<Rightarrow> fault + unit" where
  "out_check_available n s = (if \<not> out_is_available n s then Inl Overflow_Error else Inr ())"

text \<open>The copy to the position: outside the buffer it is undefined.\<close>

definition out_copy :: "bytes \<Rightarrow> mem_out \<Rightarrow> fault + mem_out" where
  "out_copy d s =
     (let p = out_position s in
      if 0 \<le> p \<and> p + int (length d) \<le> int (length (out_buffer s))
      then Inr (s\<lparr>out_buffer := take (nat p) (out_buffer s) @ d
             @ drop (nat p + length d) (out_buffer s)\<rparr>)
      else Inl Out_Of_Bounds)"

definition out_write_bytes :: "bytes \<Rightarrow> mem_out \<Rightarrow> fault + mem_out" where
  "out_write_bytes d s =
     sbind (out_check_available (int (length d)) s) (\<lambda>_.
       if length d > 0 then
         sbind (out_copy d s) (\<lambda>s. Inr (s\<lparr>out_position := out_position s + int (length d)\<rparr>))
       else Inr s)"

definition out_write_byte :: "u8 \<Rightarrow> mem_out \<Rightarrow> fault + mem_out" where
  "out_write_byte b s =
     sbind (out_check_available 1 s) (\<lambda>_.
       sbind (out_copy [b] s) (\<lambda>s. Inr (s\<lparr>out_position := out_position s + 1\<rparr>)))"

definition out_write_value :: "bytes \<Rightarrow> mem_out \<Rightarrow> fault + mem_out" where
  "out_write_value v s =
     sbind (out_check_available (int (length v)) s) (\<lambda>_.
       sbind (out_copy v s) (\<lambda>s. Inr (s\<lparr>out_position := out_position s + int (length v)\<rparr>)))"

definition out_seek :: "int \<Rightarrow> mem_out \<Rightarrow> bool \<times> mem_out" where
  "out_seek pos s = (if pos \<ge> out_capacity s then (False, s) else (True, s\<lparr>out_position := pos\<rparr>))"

text \<open>Invariant: the capacity is that of the buffer and the position is in it.\<close>

definition mem_out_ok :: "mem_out \<Rightarrow> bool" where
  "mem_out_ok s = (out_capacity s = int (length (out_buffer s))
     \<and> 0 \<le> out_position s \<and> out_position s \<le> out_capacity s)"

definition out_written :: "mem_out \<Rightarrow> bytes" where
  "out_written s = take (nat (out_position s)) (out_buffer s)"

lemma mem_out_init_ok [invar_intros]: "mem_out_ok (mem_out_init buf (int (length buf)))"
  by (simp add: mem_out_ok_def mem_out_init_def)

lemma out_written_init [simp]: "out_written (mem_out_init buf cap) = []"
  by (simp add: out_written_def mem_out_init_def)

lemma out_write_bytes_ok:
  assumes "mem_out_ok s" and "out_position s + int (length d) \<le> out_capacity s"
  shows "\<exists>s'. out_write_bytes d s = Inr s' \<and> mem_out_ok s' \<and> out_written s' = out_written s @ d
    \<and> out_capacity s' = out_capacity s
    \<and> drop (nat (out_position s')) (out_buffer s') = drop (nat (out_position s')) (out_buffer s)"
proof (cases "d = []")
  case True
  then show ?thesis
    using assms by (simp add: out_write_bytes_def out_check_available_def out_is_available_def)
next
  case False
  obtain p where p: "out_position s = int p"
    using assms(1) nonneg_eq_int unfolding mem_out_ok_def by blast
  have n: "nat (int p + int (length d)) = p + length d" by simp
  show ?thesis
    using assms False p
    by (auto simp: out_write_bytes_def out_check_available_def out_is_available_def out_copy_def
        mem_out_ok_def out_written_def Let_def n)
qed

lemma out_write_bytes_full:
  "out_capacity s < out_position s + int (length d) \<Longrightarrow> out_write_bytes d s = Inl Overflow_Error"
  by (simp add: out_write_bytes_def out_check_available_def out_is_available_def)

lemma out_write_byte_bytes: "out_write_byte b s = out_write_bytes [b] s"
  by (simp add: out_write_byte_def out_write_bytes_def)

lemma out_write_value_bytes: "v \<noteq> [] \<Longrightarrow> out_write_value v s = out_write_bytes v s"
  by (simp add: out_write_value_def out_write_bytes_def)

lemma length_out_written: "mem_out_ok s \<Longrightarrow> int (length (out_written s)) = out_position s"
  by (auto simp: mem_out_ok_def out_written_def)

lemma out_position_written:
  assumes "mem_out_ok s" and "mem_out_ok s'" and "out_written s' = out_written s @ d"
  shows "out_position s' = out_position s + int (length d)"
  using length_out_written[OF assms(1)] length_out_written[OF assms(2)] assms(3) by simp

fun out_write_all :: "bytes list \<Rightarrow> mem_out \<Rightarrow> fault + mem_out" where
  "out_write_all [] s = Inr s"
| "out_write_all (d # ds) s = sbind (out_write_bytes d s) (out_write_all ds)"

lemma out_write_all_ok:
  "mem_out_ok s \<Longrightarrow> out_position s + int (length (concat ds)) \<le> out_capacity s \<Longrightarrow>
    \<exists>s'. out_write_all ds s = Inr s' \<and> mem_out_ok s' \<and> out_written s' = out_written s @ concat ds
      \<and> out_capacity s' = out_capacity s
      \<and> drop (nat (out_position s')) (out_buffer s') = drop (nat (out_position s')) (out_buffer s)"
proof (induction ds arbitrary: s)
  case Nil
  then show ?case by simp
next
  case (Cons d ds)
  have fits: "out_position s + int (length d) \<le> out_capacity s" using Cons.prems by simp
  obtain s1 where s1: "out_write_bytes d s = Inr s1" "mem_out_ok s1"
      "out_written s1 = out_written s @ d" "out_capacity s1 = out_capacity s"
      "drop (nat (out_position s1)) (out_buffer s1) = drop (nat (out_position s1)) (out_buffer s)"
    using out_write_bytes_ok[OF Cons.prems(1) fits] by blast
  have pos: "out_position s1 = out_position s + int (length d)"
    by (rule out_position_written[OF Cons.prems(1) s1(2,3)])
  then obtain s2 where s2: "out_write_all ds s1 = Inr s2" "mem_out_ok s2"
      "out_written s2 = out_written s1 @ concat ds" "out_capacity s2 = out_capacity s1"
      "drop (nat (out_position s2)) (out_buffer s2) = drop (nat (out_position s2)) (out_buffer s1)"
    using Cons.IH[OF s1(2)] Cons.prems(2) s1(4) by auto
  have "out_position s1 \<le> out_position s2"
    using out_position_written[OF s1(2) s2(2,3)] by simp
  then have "drop (nat (out_position s2)) (out_buffer s1) = drop (nat (out_position s2)) (out_buffer s)"
    by (intro drop_eq_mono[OF s1(5)] nat_mono)
  then show ?case using s1 s2 by simp
qed

lemma out_write_all_full:
  "mem_out_ok s \<Longrightarrow> out_capacity s < out_position s + int (length (concat ds)) \<Longrightarrow>
    out_write_all ds s = Inl Overflow_Error"
proof (induction ds arbitrary: s)
  case Nil
  then show ?case by (simp add: mem_out_ok_def)
next
  case (Cons d ds)
  show ?case
  proof (cases "out_position s + int (length d) \<le> out_capacity s")
    case True
    obtain s1 where s1: "out_write_bytes d s = Inr s1" "mem_out_ok s1"
        "out_written s1 = out_written s @ d" "out_capacity s1 = out_capacity s"
      using out_write_bytes_ok[OF Cons.prems(1) True] by blast
    have "out_position s1 = out_position s + int (length d)"
      by (rule out_position_written[OF Cons.prems(1) s1(2,3)])
    then show ?thesis using Cons.IH[OF s1(2)] Cons.prems(2) s1 by simp
  next
    case False
    then show ?thesis by (simp add: out_write_bytes_full)
  qed
qed

text \<open>
  Writing chunks to a memory output stream either stores exactly their concatenation at the
  start of the buffer and leaves the bytes behind it as they were, or throws the overflow
  error, and it throws just when the chunks exceed the capacity; it never writes outside.
\<close>

theorem memory_output_stream_writes:
  "case out_write_all ds (mem_out_init buf (int (length buf))) of
     Inr s \<Rightarrow> length (concat ds) \<le> length buf
       \<and> out_buffer s = concat ds @ drop (length (concat ds)) buf
       \<and> out_position s = int (length (concat ds))
   | Inl e \<Rightarrow> e = Overflow_Error \<and> length buf < length (concat ds)"
proof (cases "length (concat ds) \<le> length buf")
  case True
  let ?s = "mem_out_init buf (int (length buf))"
  have "out_position ?s + int (length (concat ds)) \<le> out_capacity ?s"
    using True by (simp add: mem_out_init_def)
  from out_write_all_ok[OF mem_out_init_ok this]
  obtain s where s: "out_write_all ds ?s = Inr s" "mem_out_ok s" "out_written s = concat ds"
      "drop (nat (out_position s)) (out_buffer s) = drop (nat (out_position s)) buf"
    by (auto simp: mem_out_init_def out_written_def)
  have pos: "out_position s = int (length (concat ds))"
    using s(2) arg_cong[OF s(3), of length] by (auto simp: out_written_def mem_out_ok_def)
  have "out_buffer s = out_written s @ drop (nat (out_position s)) (out_buffer s)"
    by (simp add: out_written_def)
  then show ?thesis using s pos True by simp
next
  case False
  then show ?thesis
    using out_write_all_full[OF mem_out_init_ok, of buf ds] by (simp add: mem_out_init_def)
qed

text \<open>
  \<open>seek\<close> of the output stream accepts every position below the capacity, the negative ones
  too, and the next byte is then stored in front of the buffer.
\<close>

theorem memory_output_stream_negative_seek:
  assumes "mem_out_ok s" and "p < 0"
  shows "out_seek p s = (True, s\<lparr>out_position := p\<rparr>)
    \<and> out_write_byte b (s\<lparr>out_position := p\<rparr>) = Inl Out_Of_Bounds"
  using assms
  by (auto simp: out_seek_def out_write_byte_def out_check_available_def out_is_available_def
      out_copy_def mem_out_ok_def)

theorem memory_output_stream_negative_seek_witness:
  "out_seek (- 1) (mem_out_init [0] 1) = (True, (mem_out_init [0] 1)\<lparr>out_position := - 1\<rparr>)
   \<and> out_write_byte 65 ((mem_out_init [0] 1)\<lparr>out_position := - 1\<rparr>) = Inl Out_Of_Bounds"
  by (rule memory_output_stream_negative_seek) (simp_all add: mem_out_ok_def mem_out_init_def)

end
