(* ===== verification/Data_Streams.thy ===== *)
theory Data_Streams
  imports Memory_Streams
begin

text \<open>
  \<^verbatim>\<open>include/xul/io/data_input_stream.hpp\<close>,
  \<^verbatim>\<open>include/xul/io/data_output_stream.hpp\<close> and
  \<^verbatim>\<open>include/xul/io/data_encoding.hpp\<close>: typed reading over a memory input
  stream, typed writing over any output stream, and the encoder and decoder of argument packs.
  The parameter \<open>host\<close> is the byte order of the machine. A \<open>double\<close> is its 64 bit pattern.
\<close>

subsection \<open>data_input_stream\<close>

record data_in =
  din_in :: mem_in
  din_big_endian :: bool
  din_good :: bool
  din_bit_offset :: nat

definition memory_data_input_stream :: "bytes \<Rightarrow> bool \<Rightarrow> data_in" where
  "memory_data_input_stream buf big =
     \<lparr>din_in = attach_buffer buf, din_big_endian = big, din_good = True, din_bit_offset = 0\<rparr>"

definition set_bad :: "data_in \<Rightarrow> data_in" where
  "set_bad s = s\<lparr>din_good := False\<rparr>"

definition din_available :: "data_in \<Rightarrow> int" where
  "din_available s = (if \<not> din_good s then 0 else in_available (din_in s))"

definition din_is_available :: "int \<Rightarrow> data_in \<Rightarrow> bool" where
  "din_is_available n s = (din_good s \<and> in_is_available n (din_in s))"

definition din_skip :: "int \<Rightarrow> data_in \<Rightarrow> bool \<times> data_in" where
  "din_skip n s =
     (if \<not> din_good s then (False, s)
      else if n = 0 then (True, s)
      else let (ok, i) = in_skip n (din_in s)
           in (ok, s\<lparr>din_in := i, din_good := ok, din_bit_offset := 0\<rparr>))"

definition din_seek :: "int \<Rightarrow> data_in \<Rightarrow> bool \<times> data_in" where
  "din_seek pos s =
     (let (ok, i) = in_seek pos (din_in s)
      in if \<not> ok then (False, s\<lparr>din_in := i\<rparr>)
         else (True, s\<lparr>din_in := i, din_good := True, din_bit_offset := 0\<rparr>))"

definition try_read_bytes :: "nat \<Rightarrow> data_in \<Rightarrow> bool \<times> data_in" where
  "try_read_bytes n s =
     (if din_is_available (int64_of_size n) s then (True, s) else (False, s\<lparr>din_good := False\<rparr>))"

definition din_peek_byte :: "data_in \<Rightarrow> int" where
  "din_peek_byte s = (if \<not> din_good s then - 1 else in_peek_byte (din_in s))"

text \<open>The two overloads of \<open>read_byte\<close>: the byte as an \<open>int\<close>, and the byte into a reference.\<close>

definition din_read_byte_int :: "data_in \<Rightarrow> int \<times> data_in" where
  "din_read_byte_int s =
     (if \<not> din_good s then (- 1, s)
      else let (ch, i) = in_read_byte (din_in s); s = s\<lparr>din_in := i\<rparr>
           in if ch < 0 then (- 1, set_bad s)
              else (ch, s\<lparr>din_bit_offset := 0, din_good := (ch \<ge> 0)\<rparr>))"

definition din_read_byte :: "data_in \<Rightarrow> u8 option \<times> data_in" where
  "din_read_byte s =
     (if \<not> din_good s then (None, s)
      else let (ch, i) = in_read_byte (din_in s)
           in (if ch \<ge> 0 then Some (word_of_int ch) else None,
               s\<lparr>din_in := i, din_bit_offset := 0, din_good := (ch \<ge> 0)\<rparr>))"

definition din_read :: "nat \<Rightarrow> data_in \<Rightarrow> fault + bytes \<times> data_in" where
  "din_read n s =
     (if \<not> din_good s \<or> n = 0 then Inr ([], s)
      else sbind (in_read n (din_in s)) (\<lambda>(d, i).
        if length d = 0 then Inr ([], s\<lparr>din_in := i, din_good := False\<rparr>)
        else Inr (d, s\<lparr>din_in := i, din_bit_offset := 0\<rparr>)))"

definition din_read_n :: "nat \<Rightarrow> data_in \<Rightarrow> fault + bytes option \<times> data_in" where
  "din_read_n n s =
     (if \<not> din_good s then Inr (None, s)
      else if n = 0 then Inr (Some [], s)
      else sbind (in_read_n n (din_in s)) (\<lambda>(d, i).
        Inr (d, s\<lparr>din_in := i, din_good := (d \<noteq> None), din_bit_offset := 0\<rparr>)))"

text \<open>
  \<open>read_string\<close> and \<open>read_buffer\<close> (the same code): a container cannot be resized to \<open>2^63\<close>
  bytes or more.
\<close>

definition din_read_string :: "nat \<Rightarrow> data_in \<Rightarrow> fault + bytes option \<times> data_in" where
  "din_read_string n s =
     (let (ok, s) = try_read_bytes n s
      in if \<not> ok then Inr (None, s)
         else if n = 0 then Inr (Some [], s)
         else if n \<ge> 2 ^ 63 then Inl Length_Error
         else din_read_n n s)"

subsubsection \<open>Integers\<close>

definition read_uint16 :: "bool \<Rightarrow> data_in \<Rightarrow> fault + u16 option \<times> data_in" where
  "read_uint16 host s =
     sbind (din_read_n 2 s) (\<lambda>(d, s).
       Inr (map_option (\<lambda>x. convert_word host (din_big_endian s) (to_word host x)) d, s))"

definition read_uint32 :: "bool \<Rightarrow> data_in \<Rightarrow> fault + u32 option \<times> data_in" where
  "read_uint32 host s =
     sbind (din_read_n 4 s) (\<lambda>(d, s).
       Inr (map_option (\<lambda>x. convert_dword host (din_big_endian s) (to_dword host x)) d, s))"

definition read_uint64 :: "bool \<Rightarrow> data_in \<Rightarrow> fault + u64 option \<times> data_in" where
  "read_uint64 host s =
     sbind (din_read_n 8 s) (\<lambda>(d, s).
       Inr (map_option (\<lambda>x. convert_qword host (din_big_endian s) (to_qword host x)) d, s))"

definition read_double :: "bool \<Rightarrow> data_in \<Rightarrow> fault + u64 option \<times> data_in" where
  "read_double host s =
     sbind (din_read_n 8 s) (\<lambda>(d, s).
       Inr (map_option (\<lambda>x. to_qword host (convert_double_bytes host (din_big_endian s) x)) d, s))"

definition read_bool :: "data_in \<Rightarrow> bool option \<times> data_in" where
  "read_bool s = (let (b, s) = din_read_byte s in (map_option (\<lambda>x. x \<noteq> 0) b, s))"

subsubsection \<open>Behaviour\<close>

definition data_in_ok :: "data_in \<Rightarrow> bool" where
  "data_in_ok s = mem_in_ok (din_in s)"

definition din_rest :: "data_in \<Rightarrow> bytes" where
  "din_rest s = in_rest (din_in s)"

text \<open>The state after \<open>n\<close> bytes were consumed.\<close>

definition din_advance :: "nat \<Rightarrow> data_in \<Rightarrow> data_in" where
  "din_advance n s = s\<lparr>din_in := in_advance n (din_in s), din_bit_offset := 0\<rparr>"

lemma din_advance_fields [simp]:
  "din_good (din_advance n s) = din_good s"
  "din_big_endian (din_advance n s) = din_big_endian s"
  by (simp_all add: din_advance_def)

lemma din_advance_ok [invar_intros]:
  "data_in_ok s \<Longrightarrow> n \<le> length (din_rest s) \<Longrightarrow> data_in_ok (din_advance n s)"
  by (simp add: data_in_ok_def din_rest_def din_advance_def advance_ok)

lemma din_rest_advance [stream_simps]:
  "data_in_ok s \<Longrightarrow> n \<le> length (din_rest s) \<Longrightarrow> din_rest (din_advance n s) = drop n (din_rest s)"
  by (simp add: data_in_ok_def din_rest_def din_advance_def rest_advance)

lemma memory_data_input_stream_props [simp]:
  "din_rest (memory_data_input_stream buf big) = buf"
  "din_good (memory_data_input_stream buf big)"
  "din_big_endian (memory_data_input_stream buf big) = big"
  by (simp_all add: memory_data_input_stream_def din_rest_def)

lemma memory_data_input_stream_ok [invar_intros]:
  "length buf < 2 ^ 63 \<Longrightarrow> data_in_ok (memory_data_input_stream buf big)"
  by (simp add: memory_data_input_stream_def data_in_ok_def attach_ok)

lemma in_advance_add:
  "in_advance m (in_advance n s) = in_advance (n + m) s"
  by (simp add: in_advance_def)

lemma din_advance_add: "din_advance m (din_advance n s) = din_advance (n + m) s"
  by (simp add: din_advance_def in_advance_add)

lemma din_read_n_enough [stream_simps]:
  "data_in_ok s \<Longrightarrow> din_good s \<Longrightarrow> 0 < n \<Longrightarrow> n \<le> length (din_rest s)
    \<Longrightarrow> din_read_n n s = Inr (Some (take n (din_rest s)), din_advance n s)"
  by (simp add: din_read_n_def data_in_ok_def din_rest_def in_read_n_enough din_advance_def)

lemma din_read_n_short [stream_simps]:
  "data_in_ok s \<Longrightarrow> length (din_rest s) < n \<Longrightarrow> n < 2 ^ 63
    \<Longrightarrow> din_read_n n s = Inr (None, if din_good s then s\<lparr>din_good := False, din_bit_offset := 0\<rparr> else s)"
  by (auto simp: din_read_n_def data_in_ok_def din_rest_def in_read_n_short)

lemma din_read_n_bad [stream_simps]: "\<not> din_good s \<Longrightarrow> din_read_n n s = Inr (None, s)"
  by (simp add: din_read_n_def)

lemma din_read_byte_Cons [stream_simps]:
  "data_in_ok s \<Longrightarrow> din_good s \<Longrightarrow> din_rest s = b # r
    \<Longrightarrow> din_read_byte s = (Some b, din_advance 1 s)"
  by (simp add: din_read_byte_def data_in_ok_def din_rest_def in_read_byte_Cons din_advance_def)

lemma din_read_byte_Nil [stream_simps]:
  "data_in_ok s \<Longrightarrow> din_good s \<Longrightarrow> din_rest s = []
    \<Longrightarrow> din_read_byte s = (None, s\<lparr>din_bit_offset := 0, din_good := False\<rparr>)"
  by (simp add: din_read_byte_def data_in_ok_def din_rest_def in_read_byte_Nil)

lemma din_read_byte_bad [stream_simps]: "\<not> din_good s \<Longrightarrow> din_read_byte s = (None, s)"
  by (simp add: din_read_byte_def)

lemma din_read_string_enough [stream_simps]:
  assumes "data_in_ok s" and "din_good s" and "n \<le> length (din_rest s)"
  shows "din_read_string n s
    = Inr (Some (take n (din_rest s)), if n = 0 then s else din_advance n s)"
proof -
  have lt: "n < 2 ^ 63"
    using assms length_rest_less[of "din_in s"] by (simp add: data_in_ok_def din_rest_def)
  then have "din_is_available (int64_of_size n) s"
    using assms is_available_size[of "din_in s" n]
    by (simp add: din_is_available_def data_in_ok_def din_rest_def)
  then show ?thesis
    using assms lt by (simp add: din_read_string_def try_read_bytes_def din_read_n_enough)
qed

lemma read_uint16_cons [stream_simps]:
  assumes "data_in_ok s" and "din_good s" and "din_rest s = from_word (din_big_endian s) x @ r"
  shows "read_uint16 host s = Inr (Some x, din_advance 2 s)"
proof -
  obtain a b where "from_word (din_big_endian s) x = [a, b]"
    using list_of_length_2[OF length_from_word] by blast
  then show ?thesis
    using assms to_from_word[of "din_big_endian s" x "[]"]
    by (simp add: read_uint16_def din_read_n_enough convert_to_word numeral_eq_Suc)
qed

lemma read_uint32_cons [stream_simps]:
  assumes "data_in_ok s" and "din_good s" and "din_rest s = from_dword (din_big_endian s) x @ r"
  shows "read_uint32 host s = Inr (Some x, din_advance 4 s)"
proof -
  obtain a b c d where "from_dword (din_big_endian s) x = [a, b, c, d]"
    using list_of_length_4[OF length_from_dword] by blast
  then show ?thesis
    using assms to_from_dword[of "din_big_endian s" x "[]"]
    by (simp add: read_uint32_def din_read_n_enough convert_to_dword)
qed

lemma read_uint64_cons [stream_simps]:
  assumes "data_in_ok s" and "din_good s" and "din_rest s = from_qword (din_big_endian s) x @ r"
  shows "read_uint64 host s = Inr (Some x, din_advance 8 s)"
proof -
  obtain a b c d e f g h where "from_qword (din_big_endian s) x = [a, b, c, d, e, f, g, h]"
    using list_of_length_8[OF length_from_qword] by blast
  then show ?thesis
    using assms to_from_qword[of "din_big_endian s" x "[]"]
    by (simp add: read_uint64_def din_read_n_enough convert_to_qword)
qed

lemma read_double_cons [stream_simps]:
  assumes "data_in_ok s" and "din_good s" and "din_rest s = from_qword (din_big_endian s) x @ r"
  shows "read_double host s = Inr (Some x, din_advance 8 s)"
proof -
  have "to_qword host (convert_double_bytes host (din_big_endian s) (from_qword (din_big_endian s) x)) = x"
    using to_from_qword[of host x "[]"] from_qword_flip[of host x]
    by (cases "host = din_big_endian s") (auto simp: convert_double_bytes_def)
  then show ?thesis using assms by (simp add: read_double_def din_read_n_enough)
qed

lemma read_bool_Cons [stream_simps]:
  "data_in_ok s \<Longrightarrow> din_good s \<Longrightarrow> din_rest s = b # r
    \<Longrightarrow> read_bool s = (Some (b \<noteq> 0), din_advance 1 s)"
  by (simp add: read_bool_def din_read_byte_Cons)

subsection \<open>data_output_stream\<close>

text \<open>
  The writer forwards the bytes of each value to the \<open>write_bytes\<close> of its output stream, a
  virtual function: the parameter \<open>put\<close>.
\<close>

definition write_byte :: "(bytes \<Rightarrow> 's \<Rightarrow> fault + 's) \<Rightarrow> u8 \<Rightarrow> 's \<Rightarrow> fault + 's" where
  "write_byte put x = put [x]"

definition write_bool :: "(bytes \<Rightarrow> 's \<Rightarrow> fault + 's) \<Rightarrow> bool \<Rightarrow> 's \<Rightarrow> fault + 's" where
  "write_bool put x = write_byte put (if x then 1 else 0)"

definition write_uint16 ::
    "bool \<Rightarrow> bool \<Rightarrow> (bytes \<Rightarrow> 's \<Rightarrow> fault + 's) \<Rightarrow> u16 \<Rightarrow> 's \<Rightarrow> fault + 's" where
  "write_uint16 host big put x = put (from_word host (convert_word host big x))"

definition write_uint32 ::
    "bool \<Rightarrow> bool \<Rightarrow> (bytes \<Rightarrow> 's \<Rightarrow> fault + 's) \<Rightarrow> u32 \<Rightarrow> 's \<Rightarrow> fault + 's" where
  "write_uint32 host big put x = put (from_dword host (convert_dword host big x))"

definition write_uint64 ::
    "bool \<Rightarrow> bool \<Rightarrow> (bytes \<Rightarrow> 's \<Rightarrow> fault + 's) \<Rightarrow> u64 \<Rightarrow> 's \<Rightarrow> fault + 's" where
  "write_uint64 host big put x = put (from_qword host (convert_qword host big x))"

definition write_double ::
    "bool \<Rightarrow> bool \<Rightarrow> (bytes \<Rightarrow> 's \<Rightarrow> fault + 's) \<Rightarrow> u64 \<Rightarrow> 's \<Rightarrow> fault + 's" where
  "write_double host big put x = put (convert_double_bytes host big (from_qword host x))"

definition write_string :: "(bytes \<Rightarrow> 's \<Rightarrow> fault + 's) \<Rightarrow> bytes \<Rightarrow> 's \<Rightarrow> fault + 's" where
  "write_string put d = put d"

text \<open>
  The contract of an output stream: a write that succeeds appends its bytes to what was
  written. The stream's state may refuse a write.
\<close>

locale output_stream =
  fixes put :: "bytes \<Rightarrow> 's \<Rightarrow> fault + 's"
    and written :: "'s \<Rightarrow> bytes"
    and invar :: "'s \<Rightarrow> bool"
  assumes put_appends: "invar s \<Longrightarrow> put d s = Inr s' \<Longrightarrow> invar s' \<and> written s' = written s @ d"
begin

lemma write_uint16_appends:
  "invar s \<Longrightarrow> write_uint16 host big put x s = Inr s'
    \<Longrightarrow> invar s' \<and> written s' = written s @ from_word big x"
  unfolding write_uint16_def from_convert_word by (rule put_appends)

lemma write_uint32_appends:
  "invar s \<Longrightarrow> write_uint32 host big put x s = Inr s'
    \<Longrightarrow> invar s' \<and> written s' = written s @ from_dword big x"
  unfolding write_uint32_def from_convert_dword by (rule put_appends)

lemma write_uint64_appends:
  "invar s \<Longrightarrow> write_uint64 host big put x s = Inr s'
    \<Longrightarrow> invar s' \<and> written s' = written s @ from_qword big x"
  unfolding write_uint64_def from_convert_qword by (rule put_appends)

lemma write_bool_appends:
  "invar s \<Longrightarrow> write_bool put x s = Inr s'
    \<Longrightarrow> invar s' \<and> written s' = written s @ [if x then 1 else 0]"
  unfolding write_bool_def write_byte_def by (rule put_appends)

end

text \<open>A string stream (\<open>std::ostringstream\<close>) accepts every write.\<close>

definition string_put :: "bytes \<Rightarrow> bytes \<Rightarrow> fault + bytes" where
  "string_put d s = Inr (s @ d)"

interpretation string_out: output_stream string_put "\<lambda>s. s" "\<lambda>_. True"
  by unfold_locales (simp add: string_put_def)

interpretation memory_out: output_stream out_write_bytes out_written mem_out_ok
proof
  fix s d s'
  assume a: "mem_out_ok s" "out_write_bytes d s = Inr s'"
  then have "out_position s + int (length d) \<le> out_capacity s"
    using out_write_bytes_full[of s d] by (cases "out_position s + int (length d) \<le> out_capacity s") auto
  from out_write_bytes_ok[OF a(1) this] a(2)
  show "mem_out_ok s' \<and> out_written s' = out_written s @ d" by auto
qed

subsection \<open>data_encoding\<close>

text \<open>
  The arguments of the templates \<open>encode\<close> and \<open>decode\<close>: signed integers share the code of the
  unsigned ones of their width.
\<close>

datatype data_arg = Arg_Bool bool | Arg_U8 u8 | Arg_U16 u16 | Arg_U32 u32 | Arg_U64 u64

datatype data_type = Ty_Bool | Ty_U8 | Ty_U16 | Ty_U32 | Ty_U64

fun type_of :: "data_arg \<Rightarrow> data_type" where
  "type_of (Arg_Bool _) = Ty_Bool"
| "type_of (Arg_U8 _) = Ty_U8"
| "type_of (Arg_U16 _) = Ty_U16"
| "type_of (Arg_U32 _) = Ty_U32"
| "type_of (Arg_U64 _) = Ty_U64"

text \<open>The overloads of \<open>operator<<\<close> and \<open>operator>>\<close>.\<close>

fun write_arg ::
    "bool \<Rightarrow> bool \<Rightarrow> (bytes \<Rightarrow> 's \<Rightarrow> fault + 's) \<Rightarrow> data_arg \<Rightarrow> 's \<Rightarrow> fault + 's" where
  "write_arg host big put (Arg_Bool b) = write_bool put b"
| "write_arg host big put (Arg_U8 x) = write_byte put x"
| "write_arg host big put (Arg_U16 x) = write_uint16 host big put x"
| "write_arg host big put (Arg_U32 x) = write_uint32 host big put x"
| "write_arg host big put (Arg_U64 x) = write_uint64 host big put x"

fun read_arg :: "bool \<Rightarrow> data_type \<Rightarrow> data_in \<Rightarrow> fault + data_arg option \<times> data_in" where
  "read_arg host Ty_Bool s = (let (v, s) = read_bool s in Inr (map_option Arg_Bool v, s))"
| "read_arg host Ty_U8 s = (let (v, s) = din_read_byte s in Inr (map_option Arg_U8 v, s))"
| "read_arg host Ty_U16 s = sbind (read_uint16 host s) (\<lambda>(v, s). Inr (map_option Arg_U16 v, s))"
| "read_arg host Ty_U32 s = sbind (read_uint32 host s) (\<lambda>(v, s). Inr (map_option Arg_U32 v, s))"
| "read_arg host Ty_U64 s = sbind (read_uint64 host s) (\<lambda>(v, s). Inr (map_option Arg_U64 v, s))"

fun do_encode ::
    "bool \<Rightarrow> bool \<Rightarrow> (bytes \<Rightarrow> 's \<Rightarrow> fault + 's) \<Rightarrow> data_arg list \<Rightarrow> 's \<Rightarrow> fault + 's" where
  "do_encode host big put [] s = Inr s"
| "do_encode host big put (x # xs) s = sbind (write_arg host big put x s) (do_encode host big put xs)"

text \<open>Decoding goes on after a failed read, whose argument keeps its old value (here \<open>None\<close>).\<close>

fun do_decode ::
    "bool \<Rightarrow> data_type list \<Rightarrow> data_in \<Rightarrow> fault + data_arg option list \<times> data_in" where
  "do_decode host [] s = Inr ([], s)"
| "do_decode host (t # ts) s =
     sbind (read_arg host t s) (\<lambda>(v, s).
       sbind (do_decode host ts s) (\<lambda>(vs, s). Inr (v # vs, s)))"

definition encode :: "bool \<Rightarrow> bool \<Rightarrow> data_arg list \<Rightarrow> fault + bytes" where
  "encode host big args = do_encode host big string_put args []"

definition decode ::
    "bool \<Rightarrow> bool \<Rightarrow> data_type list \<Rightarrow> bytes \<Rightarrow> fault + data_arg option list \<times> bool" where
  "decode host big ts d =
     sbind (do_decode host ts (memory_data_input_stream d big)) (\<lambda>(vs, s). Inr (vs, din_good s))"

text \<open>The wire format.\<close>

fun arg_bytes :: "bool \<Rightarrow> data_arg \<Rightarrow> bytes" where
  "arg_bytes big (Arg_Bool b) = [if b then 1 else 0]"
| "arg_bytes big (Arg_U8 x) = [x]"
| "arg_bytes big (Arg_U16 x) = from_word big x"
| "arg_bytes big (Arg_U32 x) = from_dword big x"
| "arg_bytes big (Arg_U64 x) = from_qword big x"

fun type_size :: "data_type \<Rightarrow> nat" where
  "type_size Ty_Bool = 1"
| "type_size Ty_U8 = 1"
| "type_size Ty_U16 = 2"
| "type_size Ty_U32 = 4"
| "type_size Ty_U64 = 8"

lemma length_arg_bytes [simp]: "length (arg_bytes big x) = type_size (type_of x)"
  by (cases x) simp_all

lemma do_encode_put:
  "do_encode host big string_put xs s = Inr (s @ concat (map (arg_bytes big) xs))"
proof (induction xs arbitrary: s)
  case (Cons x xs)
  then show ?case
    by (cases x) (simp_all add: string_put_def write_bool_def write_byte_def write_uint16_def
        write_uint32_def write_uint64_def from_convert_word from_convert_dword from_convert_qword)
qed simp

lemma read_arg_cons:
  assumes "data_in_ok s" and "din_good s" and "din_rest s = arg_bytes (din_big_endian s) x @ r"
  shows "read_arg host (type_of x) s = Inr (Some x, din_advance (type_size (type_of x)) s)"
  using assms
  by (cases x) (auto simp: din_read_byte_Cons read_bool_Cons read_uint16_cons read_uint32_cons
      read_uint64_cons)

lemma do_decode_concat:
  assumes "data_in_ok s" and "din_good s"
    and "din_rest s = concat (map (arg_bytes (din_big_endian s)) xs) @ r"
  shows "\<exists>s'. do_decode host (map type_of xs) s = Inr (map Some xs, s') \<and> din_good s'
    \<and> din_rest s' = r"
  using assms
proof (induction xs arbitrary: s)
  case Nil
  then show ?case by simp
next
  case (Cons x xs)
  let ?s = "din_advance (type_size (type_of x)) s"
  have rest: "din_rest s = arg_bytes (din_big_endian s) x
      @ (concat (map (arg_bytes (din_big_endian s)) xs) @ r)"
    using Cons.prems(3) by simp
  have le: "type_size (type_of x) \<le> length (din_rest s)" by (simp add: rest)
  have "\<exists>s'. do_decode host (map type_of xs) ?s = Inr (map Some xs, s') \<and> din_good s'
      \<and> din_rest s' = r"
    by (rule Cons.IH)
      (use Cons.prems le in \<open>simp_all add: din_advance_ok din_rest_advance rest\<close>)
  then show ?case using read_arg_cons[OF Cons.prems(1,2) rest] by auto
qed

text \<open>Reading one value off a buffer, and the values of a pack as a codec.\<close>

definition take_arg :: "bool \<Rightarrow> bool \<Rightarrow> data_type \<Rightarrow> bytes \<Rightarrow> (data_arg \<times> bytes) option" where
  "take_arg host big t d =
     (case read_arg host t (memory_data_input_stream d big) of
        Inr (Some v, s) \<Rightarrow> Some (v, din_rest s)
      | _ \<Rightarrow> None)"

interpretation arg_codec: byte_codec "arg_bytes big" "take_arg host big t" "\<lambda>x. type_of x = t"
  for host big t
proof
  fix x rest
  assume a: "type_of x = t" "length (arg_bytes big x @ rest) < 2 ^ 63"
  let ?s = "memory_data_input_stream (arg_bytes big x @ rest) big"
  have ok: "data_in_ok ?s" using a(2) by (rule memory_data_input_stream_ok)
  have "read_arg host t ?s = Inr (Some x, din_advance (type_size t) ?s)"
    using read_arg_cons[OF ok, of x rest host] a(1) by simp
  moreover have "din_rest (din_advance (type_size t) ?s) = rest"
    using din_rest_advance[OF ok, of "type_size t"] a(1) by simp
  ultimately show "take_arg host big t (arg_bytes big x @ rest) = Some (x, rest)"
    by (simp add: take_arg_def)
qed

text \<open>
  Encoding a pack of booleans and integers and decoding it with the same types, in either
  byte order and on machines of any two byte orders, gives back every argument with the
  stream still good; the encoding has the sum of the sizes of the types.
\<close>

theorem data_encoding_roundtrip:
  assumes "length xs < 2 ^ 60"
  shows "\<exists>d. encode host1 big xs = Inr d \<and> length d = sum_list (map (type_size \<circ> type_of) xs)
    \<and> decode host2 big (map type_of xs) d = Inr (map Some xs, True)"
proof -
  let ?d = "concat (map (arg_bytes big) xs)"
  have "type_size t \<le> 8" for t by (cases t) simp_all
  then have "sum_list (map (type_size \<circ> type_of) xs) \<le> 8 * length xs"
    by (induction xs) (auto intro: add_mono)
  moreover have len: "length ?d = sum_list (map (type_size \<circ> type_of) xs)"
    by (induction xs) simp_all
  ultimately have "length ?d < 2 ^ 63" using assms by simp
  then have "data_in_ok (memory_data_input_stream ?d big)" by (rule memory_data_input_stream_ok)
  from do_decode_concat[OF this, of xs "[]" host2] show ?thesis
    using len by (auto simp: encode_def decode_def do_encode_put)
qed

theorem data_encoding_roundtrip_witness:
  "\<exists>d. encode True False [Arg_U16 513, Arg_Bool True, Arg_U32 7] = Inr d \<and> length d = 7
    \<and> decode False False [Ty_U16, Ty_Bool, Ty_U32] d
        = Inr (map Some [Arg_U16 513, Arg_Bool True, Arg_U32 7], True)"
  using data_encoding_roundtrip[of "[Arg_U16 513, Arg_Bool True, Arg_U32 7]" True False False]
  by simp

end
