(* ===== verification/Bmf_Integer.thy ===== *)
theory Bmf_Integer
  imports Data_Streams
begin

text \<open>
  \<^verbatim>\<open>include/xul/io/bmf_integer_encoding.hpp\<close>: the variable length integers of the binary
  message format. A value is a sign and a magnitude; the magnitude's high bits sit in the first
  byte below a flag that tells how many bytes follow, most significant first.
\<close>

subsection \<open>Tables and encoder\<close>

definition get_flag_bytes :: "u8 list" where
  "get_flag_bytes = [0x0, 0x40, 0x60, 0x70, 0x78, 0x7C, 0x7D, 0x7E, 0x7F]"

definition get_byte_limits :: "nat list" where
  "get_byte_limits = [63, 31, 15, 7, 3, 0, 0, 0, 0]"

text \<open>
  The encoder's loop over \<open>i\<close>; \<open>buf\<close> is the part of its buffer filled from the end. Leaving the
  loop without a position would hand out the byte before the buffer.
\<close>

fun bmf_encode_loop :: "nat list \<Rightarrow> nat \<Rightarrow> u8 \<Rightarrow> bytes \<Rightarrow> fault + bytes" where
  "bmf_encode_loop [] remaining sign_flag buf = Inl Out_Of_Bounds"
| "bmf_encode_loop (i # is) remaining sign_flag buf =
     (if remaining = 0 \<or> remaining \<le> get_byte_limits ! i
      then Inr ((sign_flag OR of_nat remaining OR get_flag_bytes ! i) # buf)
      else bmf_encode_loop is (remaining div 256) sign_flag (of_nat (remaining mod 256) # buf))"

definition bmf_encode :: "int \<Rightarrow> fault + bytes" where
  "bmf_encode val =
     (if val \<ge> 0 then bmf_encode_loop [0..<9] (nat val) 0x80 []
      else bmf_encode_loop [0..<9] (nat (- val)) 0 [])"

subsection \<open>Decoder\<close>

text \<open>The number of bytes that follow a first byte, and their accumulation in an \<open>int64_t\<close>.\<close>

definition bmf_pos :: "u8 \<Rightarrow> nat" where
  "bmf_pos flag_byte = length (takeWhile (\<lambda>pos. \<not> flag_byte < get_flag_bytes ! (pos + 1)) [0..<8])"

definition int64_of_bits :: "int \<Rightarrow> int" where
  "int64_of_bits x = signed_take_bit 63 x"

definition bmf_accumulate :: "int \<Rightarrow> bytes \<Rightarrow> int" where
  "bmf_accumulate = foldl (\<lambda>result b. int64_of_bits (result * 256) OR uint b)"

definition bmf_decode :: "mem_in \<Rightarrow> fault + int option \<times> mem_in" where
  "bmf_decode s =
     (if \<not> in_is_available 1 s then Inr (None, s)
      else let (ch, s) = in_read_byte s;
               first_byte = word_of_int ch :: u8;
               flag_byte = first_byte AND 0x7F;
               pos = bmf_pos flag_byte;
               result = uint (flag_byte AND of_nat (get_byte_limits ! pos));
               finish = (\<lambda>r. if first_byte AND 0x80 \<noteq> 0 then r else int64_of_bits (- r))
           in if pos > 0 then
                sbind (in_read_n pos s) (\<lambda>(d, s). case d of
                  None \<Rightarrow> Inr (None, s)
                | Some buf \<Rightarrow> Inr (Some (finish (bmf_accumulate result buf)), s))
              else Inr (Some (finish result), s))"

subsection \<open>The first byte\<close>

definition bmf_head :: "bool \<Rightarrow> nat \<Rightarrow> nat \<Rightarrow> u8" where
  "bmf_head nonneg i r = (if nonneg then 0x80 else 0) OR of_nat r OR get_flag_bytes ! i"

definition bmf_head_ok :: "bool \<Rightarrow> nat \<Rightarrow> nat \<Rightarrow> bool" where
  "bmf_head_ok nonneg i r =
     (let h = bmf_head nonneg i r; f = h AND 0x7F
      in bmf_pos f = i \<and> uint (f AND of_nat (get_byte_limits ! i)) = int r
         \<and> (h AND 0x80 \<noteq> 0) = nonneg)"

lemma bmf_heads_ok:
  "list_all (\<lambda>i. list_all (\<lambda>r. bmf_head_ok True i r \<and> bmf_head_ok False i r)
     [0..<Suc (get_byte_limits ! i)]) [0..<9]"
  by code_simp

lemma bmf_head_decodes:
  assumes "i \<le> 8" and "r \<le> get_byte_limits ! i"
  shows "bmf_pos (bmf_head nonneg i r AND 0x7F) = i"
    and "uint ((bmf_head nonneg i r AND 0x7F) AND of_nat (get_byte_limits ! i)) = int r"
    and "(bmf_head nonneg i r AND 0x80 \<noteq> 0) = nonneg"
proof -
  have "bmf_head_ok nonneg i r"
    using bspec[OF bmf_heads_ok[unfolded list_all_iff], of i] assms
    by (cases nonneg) (simp_all add: less_Suc_eq_le del: upt_Suc)
  then show "bmf_pos (bmf_head nonneg i r AND 0x7F) = i"
    and "uint ((bmf_head nonneg i r AND 0x7F) AND of_nat (get_byte_limits ! i)) = int r"
    and "(bmf_head nonneg i r AND 0x80 \<noteq> 0) = nonneg"
    unfolding bmf_head_ok_def Let_def by blast+
qed

subsection \<open>The bytes that follow\<close>

fun be_bytes :: "nat \<Rightarrow> nat \<Rightarrow> bytes" where
  "be_bytes 0 n = []"
| "be_bytes (Suc m) n = be_bytes m (n div 256) @ [of_nat (n mod 256)]"

lemma length_be_bytes [simp]: "length (be_bytes m n) = m"
  by (induction m n rule: be_bytes.induct) simp_all

lemma bmf_encode_loop_result:
  assumes "k \<le> 8" and "remaining < 256 ^ (8 - k)"
  shows "\<exists>m. k + m \<le> 8 \<and> remaining div 256 ^ m \<le> get_byte_limits ! (k + m)
    \<and> (\<forall>m' < m. get_byte_limits ! (k + m') < remaining div 256 ^ m')
    \<and> bmf_encode_loop [k..<9] remaining sg buf
        = Inr ((sg OR of_nat (remaining div 256 ^ m) OR get_flag_bytes ! (k + m))
            # be_bytes m remaining @ buf)"
  using assms
proof (induction "8 - k" arbitrary: k remaining buf)
  case 0
  then show ?case by (intro exI[of _ 0]) (simp add: upt_conv_Cons)
next
  case (Suc n)
  show ?case
  proof (cases "remaining \<le> get_byte_limits ! k")
    case True
    then show ?thesis using Suc.prems by (intro exI[of _ 0]) (simp add: upt_conv_Cons)
  next
    case False
    have k: "n = 8 - Suc k" "Suc k \<le> 8" using Suc.hyps(2) by auto
    have "256 ^ (8 - k) = 256 * (256 :: nat) ^ (8 - Suc k)"
      using Suc.hyps(2) k(1) by (metis power_Suc)
    then have "remaining div 256 < 256 ^ (8 - Suc k)"
      using Suc.prems(2) by (simp add: less_mult_imp_div_less mult.commute)
    from Suc.hyps(1)[OF k this, of "of_nat (remaining mod 256) # buf"] obtain m where m:
      "Suc k + m \<le> 8" "remaining div 256 div 256 ^ m \<le> get_byte_limits ! (Suc k + m)"
      "\<forall>m' < m. get_byte_limits ! (Suc k + m') < remaining div 256 div 256 ^ m'"
      "bmf_encode_loop [Suc k..<9] (remaining div 256) sg (of_nat (remaining mod 256) # buf)
        = Inr ((sg OR of_nat (remaining div 256 div 256 ^ m) OR get_flag_bytes ! (Suc k + m))
            # be_bytes m (remaining div 256) @ of_nat (remaining mod 256) # buf)"
      by blast
    have "\<forall>m' < Suc m. get_byte_limits ! (k + m') < remaining div 256 ^ m'"
      using m(3) False by (auto simp: less_Suc_eq_0_disj div_mult2_eq)
    then show ?thesis
      using m False k(2)
      by (intro exI[of _ "Suc m"]) (simp add: upt_conv_Cons div_mult2_eq)
  qed
qed

lemma int64_of_bits_id: "- (2 ^ 63) \<le> x \<Longrightarrow> x < 2 ^ 63 \<Longrightarrow> int64_of_bits x = x"
  unfolding int64_of_bits_def by (rule signed_take_bit_int_eq_self) simp_all

lemma shifted_or_byte:
  assumes "0 \<le> b" and "b < 256"
  shows "(q * 256) OR b = q * 256 + (b :: int)"
proof -
  have "(q * 256) OR b = push_bit 8 q OR take_bit 8 b"
    using assms by (simp add: push_bit_eq_mult take_bit_int_eq_self)
  also have "\<dots> = push_bit 8 q + take_bit 8 b"
    by (rule disjunctive_add_eq_or[symmetric]) (auto simp: bit_eq_iff bit_simps)
  finally show ?thesis using assms by (simp add: push_bit_eq_mult take_bit_int_eq_self)
qed

lemma bmf_accumulate_be_bytes:
  assumes "0 \<le> r" and "r * 256 ^ m + int (n mod 256 ^ m) < 2 ^ 63"
  shows "bmf_accumulate r (be_bytes m n) = r * 256 ^ m + int (n mod 256 ^ m)"
  using assms(2)
proof (induction m n rule: be_bytes.induct)
  case (1 n)
  then show ?case by (simp add: bmf_accumulate_def)
next
  case (2 m n)
  let ?q = "r * 256 ^ m + int (n div 256 mod 256 ^ m)"
  have split: "r * 256 ^ Suc m + int (n mod 256 ^ Suc m) = ?q * 256 + int (n mod 256)"
    by (simp add: mod_mult2_eq algebra_simps)
  have q: "0 \<le> ?q" using assms(1) by simp
  have IH: "bmf_accumulate r (be_bytes m (n div 256)) = ?q"
    using 2 q unfolding split by simp
  have "int64_of_bits (?q * 256) = ?q * 256"
    using 2(2) q unfolding split by (intro int64_of_bits_id) simp_all
  moreover have "uint (of_nat (n mod 256) :: u8) = int (n mod 256)"
    by (simp add: uint_nat unat_of_nat)
  moreover have "bmf_accumulate r (be_bytes (Suc m) n)
      = int64_of_bits (bmf_accumulate r (be_bytes m (n div 256)) * 256)
          OR uint (of_nat (n mod 256) :: u8)"
    by (simp add: bmf_accumulate_def)
  ultimately show ?case
    unfolding IH split using shifted_or_byte[of "int (n mod 256)" ?q] by simp
qed

subsection \<open>Round trip\<close>

lemma bmf_encode_shape:
  assumes "nat \<bar>v\<bar> < 2 ^ 64"
  shows "\<exists>m. m \<le> 8 \<and> nat \<bar>v\<bar> div 256 ^ m \<le> get_byte_limits ! m
    \<and> (\<forall>m' < m. get_byte_limits ! m' < nat \<bar>v\<bar> div 256 ^ m')
    \<and> bmf_encode v = Inr (bmf_head (v \<ge> 0) m (nat \<bar>v\<bar> div 256 ^ m) # be_bytes m (nat \<bar>v\<bar>))"
  using assms bmf_encode_loop_result[of 0 "nat \<bar>v\<bar>" "if v \<ge> 0 then 0x80 else 0" "[]"]
  by (auto simp: bmf_encode_def bmf_head_def split: if_splits)

lemma bmf_decode_encoded:
  assumes s: "mem_in_ok s" and v: "- (2 ^ 63) < v" "v < 2 ^ 63"
    and enc: "bmf_encode v = Inr d" and rest: "in_rest s = d @ r"
  shows "bmf_decode s = Inr (Some v, in_advance (length d) s)"
proof -
  define n where "n = nat \<bar>v\<bar>"
  have n: "n < 2 ^ 63" using v by (simp add: n_def)
  then have "nat \<bar>v\<bar> < 2 ^ 64" by (simp add: n_def)
  then obtain m where m: "m \<le> 8" "n div 256 ^ m \<le> get_byte_limits ! m"
      and d': "d = bmf_head (v \<ge> 0) m (n div 256 ^ m) # be_bytes m n"
    using bmf_encode_shape[of v] enc unfolding n_def by auto
  define r' where "r' = int (n div 256 ^ m)"
  define h where "h = bmf_head (v \<ge> 0) m (n div 256 ^ m)"
  note head = bmf_head_decodes[OF m, of "v \<ge> 0", folded h_def r'_def]
  note d = d'[folded h_def]
  have sum: "r' * 256 ^ m + int (n mod 256 ^ m) = int n"
  proof -
    have "int (n div 256 ^ m * 256 ^ m + n mod 256 ^ m) = int n" by (simp only: div_mult_mod_eq)
    then show ?thesis by (simp only: r'_def of_nat_add of_nat_mult of_nat_power of_nat_numeral)
  qed
  have acc: "bmf_accumulate r' (be_bytes m n) = int n"
    using bmf_accumulate_be_bytes[of r' m n] sum n by (simp add: r'_def)
  have fin: "(if h AND 0x80 \<noteq> 0 then int n else int64_of_bits (- int n)) = v"
    using v int64_of_bits_id[of v] by (auto simp: head(3) n_def)
  have avail: "in_is_available 1 s"
    using is_available_iff[OF s, of 1] s rest d by (simp add: mem_in_ok_def)
  have byte: "in_read_byte s = (uint h, in_advance 1 s)"
    using in_read_byte_Cons[OF s] rest d by simp
  have ok1: "mem_in_ok (in_advance 1 s)" and rest1: "in_rest (in_advance 1 s) = be_bytes m n @ r"
    using advance_ok[OF s, of 1] rest_advance[OF s, of 1] rest d by simp_all
  have read: "in_read_n m (in_advance 1 s) = Inr (Some (be_bytes m n), in_advance (Suc m) s)"
    using in_read_n_enough[OF ok1, of m] rest1 by (simp add: in_advance_add)
  have len: "length d = Suc m" by (simp add: d)
  show ?thesis
  proof (cases "m = 0")
    case True
    then have "r' = int n" by (simp add: r'_def)
    then show ?thesis
      using avail byte fin head len True
      by (auto simp: bmf_decode_def Let_def split: if_splits)
  next
    case False
    then show ?thesis
      using avail byte acc fin head read len
      by (auto simp: bmf_decode_def Let_def split: if_splits)
  qed
qed

lemma bmf_encode_total:
  assumes "- (2 ^ 64) < v" and "v < 2 ^ 64"
  shows "\<exists>d. bmf_encode v = Inr d \<and> 0 < length d \<and> length d \<le> 9"
proof -
  have "nat \<bar>v\<bar> < 2 ^ 64" using assms by auto
  from bmf_encode_shape[OF this] show ?thesis by auto
qed

text \<open>
  C2. Every 64 bit integer other than the least one is encoded in at most nine bytes, and the
  decoder run on a stream that continues with the encoding returns the integer and stops
  right behind it.
\<close>

theorem bmf_integer_roundtrip:
  assumes "mem_in_ok s" and "- (2 ^ 63) < v" and "v < 2 ^ 63"
    and "in_rest s = projr (bmf_encode v) @ r"
  shows "length (projr (bmf_encode v)) \<le> 9
    \<and> (\<exists>s'. bmf_decode s = Inr (Some v, s') \<and> mem_in_ok s' \<and> in_rest s' = r)"
proof -
  obtain d where d: "bmf_encode v = Inr d" "length d \<le> 9"
    using bmf_encode_total[of v] assms by auto
  then show ?thesis
    using bmf_decode_encoded[OF assms(1-3) d(1)] assms(4)
      advance_ok[OF assms(1), of "length d"] rest_advance[OF assms(1), of "length d"] by simp
qed

theorem bmf_integer_roundtrip_witness:
  "length (projr (bmf_encode (- 70000))) \<le> 9
   \<and> (\<exists>s'. bmf_decode (attach_buffer [0x61, 0x11, 0x70, 0xFF]) = Inr (Some (- 70000), s')
        \<and> mem_in_ok s' \<and> in_rest s' = [0xFF])"
proof (rule bmf_integer_roundtrip)
  have "bmf_encode (- 70000) = Inr [0x61, 0x11, 0x70]"
    by (simp add: bmf_encode_def upt_conv_Cons get_byte_limits_def get_flag_bytes_def)
  then show "in_rest (attach_buffer [0x61, 0x11, 0x70, 0xFF]) = projr (bmf_encode (- 70000)) @ [0xFF]"
    by simp
qed (simp_all add: attach_ok)

text \<open>The encoded size, as the format's description gives it.\<close>

definition bmf_size :: "nat \<Rightarrow> nat" where
  "bmf_size n =
     (if n < 2 ^ 6 then 1 else if n < 2 ^ 13 then 2 else if n < 2 ^ 20 then 3
      else if n < 2 ^ 27 then 4 else if n < 2 ^ 34 then 5 else if n < 2 ^ 40 then 6
      else if n < 2 ^ 48 then 7 else if n < 2 ^ 56 then 8 else 9)"

text \<open>
  The sizes of the format's description: six bits of magnitude in one byte, seven more per
  byte up to five bytes, then whole bytes.
\<close>

theorem bmf_encoded_size:
  assumes "- (2 ^ 64) < v" and "v < 2 ^ 64"
  shows "length (projr (bmf_encode v)) = bmf_size (nat \<bar>v\<bar>)"
proof -
  let ?n = "nat \<bar>v\<bar>"
  have n: "?n < 2 ^ 64" using assms by auto
  obtain m where m: "m \<le> 8" "?n div 256 ^ m \<le> get_byte_limits ! m"
      "\<forall>m' < m. get_byte_limits ! m' < ?n div 256 ^ m'"
      "bmf_encode v = Inr (bmf_head (v \<ge> 0) m (?n div 256 ^ m) # be_bytes m ?n)"
    using bmf_encode_shape[OF n] by blast
  have "m = 0 \<or> m = 1 \<or> m = 2 \<or> m = 3 \<or> m = 4 \<or> m = 5 \<or> m = 6 \<or> m = 7 \<or> m = 8"
    using m(1) by linarith
  moreover have "?n < Suc (get_byte_limits ! m) * 256 ^ m"
    using m(2) by (simp add: div_less_iff_less_mult[symmetric] del: mult_Suc)
  moreover have "0 < m \<Longrightarrow> Suc (get_byte_limits ! (m - 1)) * 256 ^ (m - 1) \<le> ?n"
    using m(3) by (simp add: less_eq_div_iff_mult_less_eq[symmetric] Suc_le_eq del: mult_Suc)
  ultimately have "Suc m = bmf_size ?n"
    by (elim disjE) (simp_all add: get_byte_limits_def bmf_size_def)
  then show ?thesis using m(4) by simp
qed

theorem bmf_encoded_size_witness:
  "length (projr (bmf_encode (- 8192))) = bmf_size (nat \<bar>- 8192\<bar>)"
  by (rule bmf_encoded_size) simp_all

subsection \<open>Behaviour on any input\<close>

lemma bmf_pos_le: "bmf_pos f \<le> 8"
  unfolding bmf_pos_def by (rule order_trans[OF length_takeWhile_le]) simp

text \<open>Decoding never faults; it consumes a non-empty part of the rest, or fails.\<close>

definition in_suffix :: "mem_in \<Rightarrow> mem_in \<Rightarrow> bool" where
  "in_suffix s' s = (mem_in_ok s' \<and> in_buffer s' = in_buffer s
     \<and> length (in_rest s') \<le> length (in_rest s))"

lemma in_suffix_refl: "mem_in_ok s \<Longrightarrow> in_suffix s s"
  by (simp add: in_suffix_def)

lemma in_suffix_trans: "in_suffix s2 s1 \<Longrightarrow> in_suffix s1 s \<Longrightarrow> in_suffix s2 s"
  by (simp add: in_suffix_def)

lemma in_suffix_advance:
  "mem_in_ok s \<Longrightarrow> n \<le> length (in_rest s) \<Longrightarrow> in_suffix (in_advance n s) s"
  by (simp add: in_suffix_def advance_ok rest_advance) (simp add: in_advance_def)

lemma in_read_n_suffix:
  assumes "mem_in_ok s" and "n < 2 ^ 63"
  obtains d s' where "in_read_n n s = Inr (d, s')" "in_suffix s' s"
    "\<And>x. d = Some x \<Longrightarrow> x = take n (in_rest s) \<and> n \<le> length (in_rest s)"
  using in_read_n_enough[OF assms(1), of n] in_read_n_short[OF assms(1), of n] assms
    in_suffix_refl[OF assms(1)] in_suffix_advance[OF assms(1), of n]
  by (cases "n \<le> length (in_rest s)") auto

lemma in_available_1: "mem_in_ok s \<Longrightarrow> in_is_available 1 s \<longleftrightarrow> in_rest s \<noteq> []"
  using is_available_iff[of s 1] by (cases "in_rest s") (auto simp: mem_in_ok_def)

lemma bmf_decode_total:
  assumes ok: "mem_in_ok s"
  shows "\<exists>v s'. bmf_decode s = Inr (v, s') \<and> in_suffix s' s
    \<and> (v \<noteq> None \<longrightarrow> length (in_rest s') < length (in_rest s))"
proof (cases "in_rest s")
  case Nil
  then show ?thesis using in_available_1[OF ok] in_suffix_refl[OF ok] by (simp add: bmf_decode_def)
next
  case (Cons b r)
  let ?s = "in_advance 1 s"
  have byte: "in_read_byte s = (uint b, ?s)" by (rule in_read_byte_Cons[OF ok Cons])
  have suf: "in_suffix ?s s" using in_suffix_advance[OF ok, of 1] Cons by simp
  have rest: "length (in_rest ?s) < length (in_rest s)"
    using rest_advance[OF ok, of 1] Cons by simp
  let ?p = "bmf_pos (b AND 0x7F)"
  have ok1: "mem_in_ok ?s" using suf by (simp add: in_suffix_def)
  have "?p < 2 ^ 63" using bmf_pos_le[of "b AND 0x7F"] by simp
  then obtain d s' where d: "in_read_n ?p ?s = Inr (d, s')" "in_suffix s' ?s"
    using in_read_n_suffix[OF ok1] by metis
  have rest': "length (in_rest s') < length (in_rest s)" "in_suffix s' s"
    using d(2) rest suf in_suffix_trans by (auto simp: in_suffix_def)
  have avail: "in_is_available 1 s" using in_available_1[OF ok] Cons by simp
  show ?thesis
    using byte suf rest d rest' avail
    by (cases "?p > 0"; cases d) (simp_all add: bmf_decode_def Let_def)
qed

text \<open>The decoder as a codec on byte lists.\<close>

definition bmf_take :: "bytes \<Rightarrow> (int \<times> bytes) option" where
  "bmf_take d = (case bmf_decode (attach_buffer d) of Inr (Some v, s) \<Rightarrow> Some (v, in_rest s) | _ \<Rightarrow> None)"

interpretation bmf_codec:
  byte_codec "\<lambda>v. projr (bmf_encode v)" bmf_take "\<lambda>v. - (2 ^ 63) < v \<and> v < 2 ^ 63"
proof
  fix v :: int and rest
  assume v: "- (2 ^ 63) < v \<and> v < 2 ^ 63" and len: "length (projr (bmf_encode v) @ rest) < 2 ^ 63"
  have ok: "mem_in_ok (attach_buffer (projr (bmf_encode v) @ rest))" by (rule attach_ok[OF len])
  obtain d where d: "bmf_encode v = Inr d" using bmf_encode_total[of v] v by auto
  then show "bmf_take (projr (bmf_encode v) @ rest) = Some (v, rest)"
    using bmf_decode_encoded[OF ok _ _ d, of rest] rest_advance[OF ok, of "length d"] v
    by (simp add: bmf_take_def)
qed

end
