(* ===== verification/Bmf.thy ===== *)
theory Bmf
  imports Bmf_Integer
begin

text \<open>
  \<^verbatim>\<open>include/xul/io/bmf_format.hpp\<close>, \<^verbatim>\<open>bmf_writer.hpp\<close>
  and \<^verbatim>\<open>bmf_reader.hpp\<close>: the binary message format, tagged integers, strings,
  lists and dictionaries. The reader gives a \<open>boost::any\<close>, here a value tree whose \<open>Bmf_Empty\<close> is
  the empty \<open>any\<close>.
\<close>

subsection \<open>Tags and values\<close>

definition integer_tag :: u8 where "integer_tag = 1"
definition string_tag :: u8 where "string_tag = 7"
definition list_tag :: u8 where "list_tag = 10"
definition dict_tag :: u8 where "dict_tag = 13"
definition end_tag :: u8 where "end_tag = 17"

lemmas bmf_tags = integer_tag_def string_tag_def list_tag_def dict_tag_def end_tag_def

datatype bmf_value =
    Bmf_Empty
  | Bmf_Integer int
  | Bmf_String bytes
  | Bmf_List "bmf_value list"
  | Bmf_Dict "(bytes \<times> bmf_value) list"

subsection \<open>Writer\<close>

text \<open>The writer's operations over the \<open>write_bytes\<close> of its output stream.\<close>

definition bmf_encode_to :: "(bytes \<Rightarrow> 's \<Rightarrow> fault + 's) \<Rightarrow> int \<Rightarrow> 's \<Rightarrow> fault + 's" where
  "bmf_encode_to put v s = sbind (bmf_encode v) (\<lambda>d. put d s)"

definition bmf_write_integer :: "(bytes \<Rightarrow> 's \<Rightarrow> fault + 's) \<Rightarrow> int \<Rightarrow> 's \<Rightarrow> fault + 's" where
  "bmf_write_integer put v s = sbind (put [integer_tag] s) (bmf_encode_to put v)"

definition bmf_start_bytes :: "(bytes \<Rightarrow> 's \<Rightarrow> fault + 's) \<Rightarrow> nat \<Rightarrow> 's \<Rightarrow> fault + 's" where
  "bmf_start_bytes put n s = sbind (put [string_tag] s) (bmf_encode_to put (int64_of_size n))"

definition bmf_write_string :: "(bytes \<Rightarrow> 's \<Rightarrow> fault + 's) \<Rightarrow> bytes \<Rightarrow> 's \<Rightarrow> fault + 's" where
  "bmf_write_string put d s = sbind (bmf_start_bytes put (length d) s) (put d)"

definition bmf_write_key :: "(bytes \<Rightarrow> 's \<Rightarrow> fault + 's) \<Rightarrow> bytes \<Rightarrow> 's \<Rightarrow> fault + 's" where
  "bmf_write_key put d s = bmf_write_string put d s"

definition bmf_write_integer_element ::
    "(bytes \<Rightarrow> 's \<Rightarrow> fault + 's) \<Rightarrow> bytes \<Rightarrow> int \<Rightarrow> 's \<Rightarrow> fault + 's" where
  "bmf_write_integer_element put k v s = sbind (bmf_write_key put k s) (bmf_write_integer put v)"

definition bmf_write_string_element ::
    "(bytes \<Rightarrow> 's \<Rightarrow> fault + 's) \<Rightarrow> bytes \<Rightarrow> bytes \<Rightarrow> 's \<Rightarrow> fault + 's" where
  "bmf_write_string_element put k v s = sbind (bmf_write_key put k s) (bmf_write_string put v)"

definition bmf_start_list :: "(bytes \<Rightarrow> 's \<Rightarrow> fault + 's) \<Rightarrow> 's \<Rightarrow> fault + 's" where
  "bmf_start_list put s = put [list_tag] s"

definition bmf_end_list :: "(bytes \<Rightarrow> 's \<Rightarrow> fault + 's) \<Rightarrow> 's \<Rightarrow> fault + 's" where
  "bmf_end_list put s = put [end_tag] s"

definition bmf_start_dict :: "(bytes \<Rightarrow> 's \<Rightarrow> fault + 's) \<Rightarrow> 's \<Rightarrow> fault + 's" where
  "bmf_start_dict put s = put [dict_tag] s"

definition bmf_end_dict :: "(bytes \<Rightarrow> 's \<Rightarrow> fault + 's) \<Rightarrow> 's \<Rightarrow> fault + 's" where
  "bmf_end_dict put s = put [end_tag] s"

text \<open>A client's calls for a whole value, and for the items and entries of a container.\<close>

fun bmf_write_value :: "(bytes \<Rightarrow> 's \<Rightarrow> fault + 's) \<Rightarrow> bmf_value \<Rightarrow> 's \<Rightarrow> fault + 's"
  and bmf_write_items :: "(bytes \<Rightarrow> 's \<Rightarrow> fault + 's) \<Rightarrow> bmf_value list \<Rightarrow> 's \<Rightarrow> fault + 's"
  and bmf_write_entries ::
    "(bytes \<Rightarrow> 's \<Rightarrow> fault + 's) \<Rightarrow> (bytes \<times> bmf_value) list \<Rightarrow> 's \<Rightarrow> fault + 's" where
  "bmf_write_value put Bmf_Empty s = Inr s"
| "bmf_write_value put (Bmf_Integer v) s = bmf_write_integer put v s"
| "bmf_write_value put (Bmf_String d) s = bmf_write_string put d s"
| "bmf_write_value put (Bmf_List xs) s =
     sbind (bmf_start_list put s) (\<lambda>s. sbind (bmf_write_items put xs s) (bmf_end_list put))"
| "bmf_write_value put (Bmf_Dict es) s =
     sbind (bmf_start_dict put s) (\<lambda>s. sbind (bmf_write_entries put es s) (bmf_end_dict put))"
| "bmf_write_items put [] s = Inr s"
| "bmf_write_items put (x # xs) s = sbind (bmf_write_value put x s) (bmf_write_items put xs)"
| "bmf_write_entries put [] s = Inr s"
| "bmf_write_entries put ((k, x) # es) s =
     sbind (bmf_write_key put k s) (\<lambda>s.
       sbind (bmf_write_value put x s) (bmf_write_entries put es))"

subsection \<open>Reader\<close>

text \<open>A negative length is converted to \<open>size_t\<close>: no string can be resized to it.\<close>

definition try_read_string :: "mem_in \<Rightarrow> fault + bytes option \<times> mem_in" where
  "try_read_string s =
     sbind (bmf_decode s) (\<lambda>(v, s). case v of
       None \<Rightarrow> Inr (None, s)
     | Some val \<Rightarrow>
         if val > 128 * 1024 then Inr (None, s)
         else if val < 0 then Inl Length_Error
         else in_read_n (nat val) s)"

fun bmf_read_item :: "nat \<Rightarrow> u8 \<Rightarrow> mem_in \<Rightarrow> fault + bmf_value \<times> mem_in"
  and bmf_read_list :: "nat \<Rightarrow> bmf_value list \<Rightarrow> mem_in \<Rightarrow> fault + bmf_value \<times> mem_in"
  and bmf_read_dict :: "nat \<Rightarrow> (bytes \<times> bmf_value) list \<Rightarrow> mem_in \<Rightarrow> fault + bmf_value \<times> mem_in"
where
  "bmf_read_item 0 tag s = Inl Out_Of_Fuel"
| "bmf_read_item (Suc fuel) tag s =
     (if tag = integer_tag then
        sbind (bmf_decode s) (\<lambda>(v, s).
          Inr (case v of None \<Rightarrow> Bmf_Empty | Some val \<Rightarrow> Bmf_Integer val, s))
      else if tag = string_tag then
        sbind (try_read_string s) (\<lambda>(v, s).
          Inr (case v of None \<Rightarrow> Bmf_Empty | Some d \<Rightarrow> Bmf_String d, s))
      else if tag = list_tag then bmf_read_list fuel [] s
      else if tag = dict_tag then bmf_read_dict fuel [] s
      else Inr (Bmf_Empty, s))"
| "bmf_read_list 0 items s = Inl Out_Of_Fuel"
| "bmf_read_list (Suc fuel) items s =
     (if \<not> in_is_available 1 s then Inr (Bmf_Empty, s)
      else let (ch, s) = in_read_byte s; tag = word_of_int ch :: u8
           in if tag = end_tag then Inr (Bmf_List items, s)
              else sbind (bmf_read_item fuel tag s) (\<lambda>(x, s). bmf_read_list fuel (items @ [x]) s))"
| "bmf_read_dict 0 items s = Inl Out_Of_Fuel"
| "bmf_read_dict (Suc fuel) items s =
     (if \<not> in_is_available 1 s then Inr (Bmf_Empty, s)
      else let (ch, s) = in_read_byte s; tag = word_of_int ch :: u8
           in if tag = end_tag then Inr (Bmf_Dict items, s)
              else if tag \<noteq> string_tag then Inr (Bmf_Empty, s)
              else sbind (try_read_string s) (\<lambda>(k, s). case k of
                None \<Rightarrow> Inr (Bmf_Empty, s)
              | Some key \<Rightarrow>
                  if \<not> in_is_available 1 s
                  then bmf_read_dict fuel (std_map_insert key Bmf_Empty items) s
                  else let (ch, s) = in_read_byte s
                       in sbind (bmf_read_item fuel (word_of_int ch) s) (\<lambda>(x, s).
                            bmf_read_dict fuel (std_map_insert key x items) s)))"

text \<open>\<open>read()\<close>; the fuel is twice the length of the input, one call per byte and container.\<close>

definition bmf_read :: "mem_in \<Rightarrow> fault + bmf_value \<times> mem_in" where
  "bmf_read s =
     (if \<not> in_is_available 1 s then Inr (Bmf_Empty, s)
      else let (ch, s') = in_read_byte s
           in bmf_read_item (2 * length (in_rest s)) (word_of_int ch) s')"

definition extract_integer :: "bmf_value \<Rightarrow> int \<Rightarrow> fault + int" where
  "extract_integer item default_val =
     (case item of Bmf_Empty \<Rightarrow> Inr default_val | Bmf_Integer v \<Rightarrow> Inr v | _ \<Rightarrow> Inl Logic_Error)"

definition extract_string :: "bmf_value \<Rightarrow> bytes \<Rightarrow> fault + bytes" where
  "extract_string item default_val =
     (case item of Bmf_Empty \<Rightarrow> Inr default_val | Bmf_String v \<Rightarrow> Inr v | _ \<Rightarrow> Inl Logic_Error)"

definition extract_dict_integer :: "(bytes \<times> bmf_value) list \<Rightarrow> bytes \<Rightarrow> int \<Rightarrow> fault + int" where
  "extract_dict_integer dict key default_val =
     extract_integer (case map_of dict key of None \<Rightarrow> Bmf_Empty | Some v \<Rightarrow> v) default_val"

definition extract_dict_string :: "(bytes \<times> bmf_value) list \<Rightarrow> bytes \<Rightarrow> bytes \<Rightarrow> fault + bytes" where
  "extract_dict_string dict key default_val =
     extract_string (case map_of dict key of None \<Rightarrow> Bmf_Empty | Some v \<Rightarrow> v) default_val"

subsection \<open>Termination and faults of the reader\<close>

lemma in_read_byte_suffix:
  assumes "mem_in_ok s" and "in_is_available 1 s"
  obtains b s' where "in_read_byte s = (uint b, s')" "in_suffix s' s"
    "length (in_rest s) = Suc (length (in_rest s'))" "in_rest s = b # in_rest s'"
proof -
  obtain b r where r: "in_rest s = b # r"
    using in_available_1[OF assms(1)] assms(2) by (cases "in_rest s") auto
  then show ?thesis
    using that[of b "in_advance 1 s"] in_read_byte_Cons[OF assms(1) r]
      in_suffix_advance[OF assms(1), of 1] rest_advance[OF assms(1), of 1] by simp
qed

lemma try_read_string_total:
  assumes "mem_in_ok s"
  shows "try_read_string s = Inl Length_Error
    \<or> (\<exists>v s'. try_read_string s = Inr (v, s') \<and> in_suffix s' s
        \<and> (v \<noteq> None \<longrightarrow> length (in_rest s') < length (in_rest s)))"
proof -
  obtain v s1 where d: "bmf_decode s = Inr (v, s1)" "in_suffix s1 s"
      "v \<noteq> None \<longrightarrow> length (in_rest s1) < length (in_rest s)"
    using bmf_decode_total[OF assms] by blast
  show ?thesis
  proof (cases "\<exists>val. v = Some val \<and> 0 \<le> val \<and> val \<le> 128 * 1024")
    case True
    then obtain val where val: "v = Some val" "0 \<le> val" "val \<le> 128 * 1024" by blast
    have "nat val < 2 ^ 63" "mem_in_ok s1" using val d(2) by (auto simp: in_suffix_def)
    then obtain x s2 where "in_read_n (nat val) s1 = Inr (x, s2)" "in_suffix s2 s1"
      using in_read_n_suffix by metis
    then show ?thesis
      using d val in_suffix_trans[of s2 s1 s] by (auto simp: try_read_string_def in_suffix_def)
  next
    case False
    then show ?thesis using d by (cases v) (auto simp: try_read_string_def)
  qed
qed

definition bmf_result_ok :: "mem_in \<Rightarrow> fault + bmf_value \<times> mem_in \<Rightarrow> bool" where
  "bmf_result_ok s r = (case r of Inl e \<Rightarrow> e = Length_Error | Inr (_, s') \<Rightarrow> in_suffix s' s)"

lemma bmf_result_ok_mono: "bmf_result_ok s1 r \<Longrightarrow> in_suffix s1 s \<Longrightarrow> bmf_result_ok s r"
  by (auto simp: bmf_result_ok_def in_suffix_trans split: sum.splits)

lemma bmf_result_ok_cases:
  "bmf_result_ok s r \<longleftrightarrow> r = Inl Length_Error \<or> (\<exists>x s'. r = Inr (x, s') \<and> in_suffix s' s)"
  by (auto simp: bmf_result_ok_def split: sum.splits)

lemma bmf_reader_total:
  shows "mem_in_ok s \<Longrightarrow> 2 * length (in_rest s) + 2 \<le> fuel
      \<Longrightarrow> bmf_result_ok s (bmf_read_item fuel tag s)"
    and "mem_in_ok s \<Longrightarrow> 2 * length (in_rest s) + 1 \<le> fuel
      \<Longrightarrow> bmf_result_ok s (bmf_read_list fuel items s)"
    and "mem_in_ok s \<Longrightarrow> 2 * length (in_rest s) + 1 \<le> fuel
      \<Longrightarrow> bmf_result_ok s (bmf_read_dict fuel entries s)"
proof (induction fuel arbitrary: s tag items entries)
  case 0
  {
    case 1
    then show ?case by simp
  next
    case 2
    then show ?case by simp
  next
    case 3
    then show ?case by simp
  }
next
  case (Suc fuel)
  {
    case 1
    obtain v s1 where d: "bmf_decode s = Inr (v, s1)" "in_suffix s1 s"
      using bmf_decode_total[OF 1(1)] by blast
    show ?case
      using d try_read_string_total[OF 1(1)] Suc.IH(2)[OF 1(1), of "[]"] Suc.IH(3)[OF 1(1), of "[]"] 1
        in_suffix_refl[OF 1(1)]
      by (auto simp: bmf_result_ok_def)
  next
    case 2
    show ?case
    proof (cases "in_is_available 1 s")
      case False
      then show ?thesis using in_suffix_refl[OF 2(1)] by (simp add: bmf_result_ok_def)
    next
      case True
      obtain b s1 where b: "in_read_byte s = (uint b, s1)" "in_suffix s1 s"
        "length (in_rest s) = Suc (length (in_rest s1))" "in_rest s = b # in_rest s1"
        by (rule in_read_byte_suffix[OF 2(1) True])
      have ok1: "mem_in_ok s1" using b(2) by (simp add: in_suffix_def)
      have fuel: "2 * length (in_rest s1) + 2 \<le> fuel" using b(3) 2(2) by simp
      note item = Suc.IH(1)[OF ok1 fuel, of b]
      have loop: "bmf_result_ok s (bmf_read_list fuel (items @ [x]) s2)" if s2: "in_suffix s2 s1" for x s2
      proof -
        have "mem_in_ok s2" "2 * length (in_rest s2) + 1 \<le> fuel"
          using s2 fuel by (auto simp: in_suffix_def)
        from Suc.IH(2)[OF this] show ?thesis
          using bmf_result_ok_mono in_suffix_trans[OF s2 b(2)] by blast
      qed
      have stop: "bmf_result_ok s (Inr (x, s1))" for x
        using b(2) by (simp add: bmf_result_ok_def)
      from item consider "bmf_read_item fuel b s1 = Inl Length_Error"
        | x s2 where "bmf_read_item fuel b s1 = Inr (x, s2)" "in_suffix s2 s1"
        unfolding bmf_result_ok_cases by blast
      then show ?thesis
      proof cases
        case 1
        then show ?thesis using b(1) stop True by (simp add: bmf_result_ok_def[of s "Inl _"])
      next
        case 2
        then show ?thesis using b(1) stop True loop by simp
      qed
    qed
  next
    case 3
    show ?case
    proof (cases "in_is_available 1 s")
      case False
      then show ?thesis using in_suffix_refl[OF 3(1)] by (simp add: bmf_result_ok_def)
    next
      case True
      obtain b s1 where b: "in_read_byte s = (uint b, s1)" "in_suffix s1 s"
        "length (in_rest s) = Suc (length (in_rest s1))" "in_rest s = b # in_rest s1"
        by (rule in_read_byte_suffix[OF 3(1) True])
      have ok1: "mem_in_ok s1" using b(2) by (simp add: in_suffix_def)
      have fuel: "2 * length (in_rest s1) + 2 \<le> fuel" using b(3) 3(2) by simp
      have loop: "bmf_result_ok s (bmf_read_dict fuel es s2)" if s2: "in_suffix s2 s1" for es s2
      proof -
        have "mem_in_ok s2" "2 * length (in_rest s2) + 1 \<le> fuel"
          using s2 fuel by (auto simp: in_suffix_def)
        from Suc.IH(3)[OF this] show ?thesis
          using bmf_result_ok_mono in_suffix_trans[OF s2 b(2)] by blast
      qed
      have entry: "bmf_result_ok s (bmf_read_dict (Suc fuel) entries s)"
        if key: "try_read_string s1 = Inr (Some k, s2)" "in_suffix s2 s1" and more: "in_is_available 1 s2"
          and tag: "b = string_tag" for k s2
      proof -
        have ok2: "mem_in_ok s2" using key(2) by (simp add: in_suffix_def)
        obtain c s3 where c: "in_read_byte s2 = (uint c, s3)" "in_suffix s3 s2"
          "length (in_rest s2) = Suc (length (in_rest s3))" "in_rest s2 = c # in_rest s3"
          by (rule in_read_byte_suffix[OF ok2 more])
        have s3: "in_suffix s3 s1" using c(2) key(2) in_suffix_trans by blast
        then have ok3: "mem_in_ok s3" and fuel3: "2 * length (in_rest s3) + 2 \<le> fuel"
          using fuel by (auto simp: in_suffix_def)
        have loop3: "bmf_result_ok s (bmf_read_dict fuel es s4)" if "in_suffix s4 s3" for es s4
          using loop in_suffix_trans[OF that s3] by blast
        show ?thesis
          using Suc.IH(1)[OF ok3 fuel3, of c] loop3 b c key True more tag
          by (cases "bmf_read_item fuel c s3")
            (auto simp: bmf_tags bmf_result_ok_def[of s3] bmf_result_ok_def[of s "Inl _"])
      qed
      have any: "bmf_result_ok s (Inr (x, s2))" if "in_suffix s2 s1" for x s2
        using in_suffix_trans[OF that b(2)] by (simp add: bmf_result_ok_def)
      from try_read_string_total[OF ok1] show ?thesis
      proof (elim disjE exE conjE)
        assume "try_read_string s1 = Inl Length_Error"
        then show ?thesis using b True any in_suffix_refl[OF ok1]
          by (simp add: bmf_result_ok_def[of s "Inl _"])
      next
        fix k s2
        assume key: "try_read_string s1 = Inr (k, s2)" "in_suffix s2 s1"
        show ?thesis
        proof (cases "b = string_tag \<and> k \<noteq> None \<and> in_is_available 1 s2")
          case True
          then show ?thesis using entry[of _ s2] key by auto
        next
          case False
          then show ?thesis
            using b \<open>in_is_available 1 s\<close> any key loop[OF key(2)] in_suffix_refl[OF ok1]
            by (auto split: option.splits)
        qed
      qed
    qed
  }
qed

subsection \<open>Round trip\<close>

text \<open>The wire format: the tag and the payload of each value, and what a message can carry.\<close>

fun bmf_tag :: "bmf_value \<Rightarrow> u8" where
  "bmf_tag Bmf_Empty = 0"
| "bmf_tag (Bmf_Integer _) = integer_tag"
| "bmf_tag (Bmf_String _) = string_tag"
| "bmf_tag (Bmf_List _) = list_tag"
| "bmf_tag (Bmf_Dict _) = dict_tag"

definition bmf_string_payload :: "bytes \<Rightarrow> bytes" where
  "bmf_string_payload d = projr (bmf_encode (int64_of_size (length d))) @ d"

fun bmf_payload :: "bmf_value \<Rightarrow> bytes"
  and bmf_items_bytes :: "bmf_value list \<Rightarrow> bytes"
  and bmf_entries_bytes :: "(bytes \<times> bmf_value) list \<Rightarrow> bytes" where
  "bmf_payload Bmf_Empty = []"
| "bmf_payload (Bmf_Integer v) = projr (bmf_encode v)"
| "bmf_payload (Bmf_String d) = bmf_string_payload d"
| "bmf_payload (Bmf_List xs) = bmf_items_bytes xs @ [end_tag]"
| "bmf_payload (Bmf_Dict es) = bmf_entries_bytes es @ [end_tag]"
| "bmf_items_bytes [] = []"
| "bmf_items_bytes (x # xs) = bmf_tag x # bmf_payload x @ bmf_items_bytes xs"
| "bmf_entries_bytes [] = []"
| "bmf_entries_bytes ((k, x) # es) =
     string_tag # bmf_string_payload k @ bmf_tag x # bmf_payload x @ bmf_entries_bytes es"

definition bmf_bytes :: "bmf_value \<Rightarrow> bytes" where
  "bmf_bytes x = bmf_tag x # bmf_payload x"

fun bmf_ok :: "bmf_value \<Rightarrow> bool"
  and bmf_items_ok :: "bmf_value list \<Rightarrow> bool"
  and bmf_entries_ok :: "(bytes \<times> bmf_value) list \<Rightarrow> bool" where
  "bmf_ok Bmf_Empty = False"
| "bmf_ok (Bmf_Integer v) = (- (2 ^ 63) < v \<and> v < 2 ^ 63)"
| "bmf_ok (Bmf_String d) = (length d \<le> 128 * 1024)"
| "bmf_ok (Bmf_List xs) = bmf_items_ok xs"
| "bmf_ok (Bmf_Dict es) = (std_map_ok es \<and> bmf_entries_ok es)"
| "bmf_items_ok [] = True"
| "bmf_items_ok (x # xs) = (bmf_ok x \<and> bmf_items_ok xs)"
| "bmf_entries_ok [] = True"
| "bmf_entries_ok ((k, x) # es) = (length k \<le> 128 * 1024 \<and> bmf_ok x \<and> bmf_entries_ok es)"

lemma bmf_tag_not_end: "bmf_ok x \<Longrightarrow> bmf_tag x \<noteq> end_tag"
  by (cases x) (simp_all add: bmf_tags)

lemma in_peel:
  assumes "mem_in_ok s" and "in_rest s = b # r"
  shows "in_is_available 1 s" and "in_read_byte s = (uint b, in_advance 1 s)"
    and "mem_in_ok (in_advance 1 s)" and "in_rest (in_advance 1 s) = r"
  using assms in_available_1[OF assms(1)] in_read_byte_Cons[OF assms] advance_ok[OF assms(1), of 1]
    rest_advance[OF assms(1), of 1] by simp_all

lemma bmf_decode_front:
  assumes "mem_in_ok s" and "- (2 ^ 63) < v" and "v < 2 ^ 63"
    and "in_rest s = projr (bmf_encode v) @ r"
  obtains s' where "bmf_decode s = Inr (Some v, s')" "mem_in_ok s'" "in_rest s' = r"
proof -
  obtain d where d: "bmf_encode v = Inr d" using bmf_encode_total[of v] assms(2,3) by auto
  with assms show ?thesis
    using bmf_decode_encoded[OF assms(1-3) d] advance_ok[OF assms(1), of "length d"]
      rest_advance[OF assms(1), of "length d"] that by simp
qed

lemma try_read_string_front:
  assumes "mem_in_ok s" and "length d \<le> 128 * 1024" and "in_rest s = bmf_string_payload d @ r"
  obtains s' where "try_read_string s = Inr (Some d, s')" "mem_in_ok s'" "in_rest s' = r"
proof -
  have len: "int64_of_size (length d) = int (length d)" using assms(2) by (intro int64_of_size_small) simp
  obtain s1 where s1: "bmf_decode s = Inr (Some (int (length d)), s1)" "mem_in_ok s1" "in_rest s1 = d @ r"
    using assms by (auto simp: bmf_string_payload_def len intro: bmf_decode_front[of s "int (length d)" "d @ r"])
  have "in_read_n (length d) s1 = Inr (Some d, in_advance (length d) s1)"
    using in_read_n_enough[OF s1(2), of "length d"] s1(3) by simp
  then show ?thesis
    using that[of "in_advance (length d) s1"] s1 assms(2) advance_ok[OF s1(2), of "length d"]
      rest_advance[OF s1(2), of "length d"]
    by (simp add: try_read_string_def)
qed

lemma bmf_read_front:
  shows "bmf_ok x \<Longrightarrow> mem_in_ok s \<Longrightarrow> in_rest s = bmf_payload x @ r
      \<Longrightarrow> 2 * length (in_rest s) + 2 \<le> fuel
      \<Longrightarrow> \<exists>s'. bmf_read_item fuel (bmf_tag x) s = Inr (x, s') \<and> mem_in_ok s' \<and> in_rest s' = r"
    and "bmf_items_ok xs \<Longrightarrow> mem_in_ok s \<Longrightarrow> in_rest s = bmf_items_bytes xs @ end_tag # r
      \<Longrightarrow> 2 * length (in_rest s) + 1 \<le> fuel
      \<Longrightarrow> \<exists>s'. bmf_read_list fuel acc s = Inr (Bmf_List (acc @ xs), s') \<and> mem_in_ok s' \<and> in_rest s' = r"
    and "bmf_entries_ok es \<Longrightarrow> mem_in_ok s \<Longrightarrow> in_rest s = bmf_entries_bytes es @ end_tag # r
      \<Longrightarrow> 2 * length (in_rest s) + 1 \<le> fuel \<Longrightarrow> std_map_ok (done' @ es)
      \<Longrightarrow> \<exists>s'. bmf_read_dict fuel done' s = Inr (Bmf_Dict (done' @ es), s') \<and> mem_in_ok s' \<and> in_rest s' = r"
proof (induction x and xs and es arbitrary: s r fuel and s r fuel acc and s r fuel done'
    rule: bmf_ok_bmf_items_ok_bmf_entries_ok.induct)
  case 1
  then show ?case by simp
next
  case (2 v)
  then obtain fuel' where fuel: "fuel = Suc fuel'" by (cases fuel) auto
  have "- (2 ^ 63) < v" "v < 2 ^ 63" "in_rest s = projr (bmf_encode v) @ r" using 2 by simp_all
  from bmf_decode_front[OF 2(2) this] obtain s' where
    "bmf_decode s = Inr (Some v, s')" "mem_in_ok s'" "in_rest s' = r" by metis
  then show ?case by (simp add: fuel)
next
  case (3 d)
  then obtain fuel' where fuel: "fuel = Suc fuel'" by (cases fuel) auto
  have "length d \<le> 128 * 1024" "in_rest s = bmf_string_payload d @ r" using 3 by simp_all
  from try_read_string_front[OF 3(2) this] obtain s' where
    "try_read_string s = Inr (Some d, s')" "mem_in_ok s'" "in_rest s' = r" by metis
  then show ?case by (simp add: fuel bmf_tags)
next
  case (4 xs)
  then obtain fuel' where fuel: "fuel = Suc fuel'" by (cases fuel) auto
  have "\<exists>s'. bmf_read_list fuel' [] s = Inr (Bmf_List ([] @ xs), s') \<and> mem_in_ok s' \<and> in_rest s' = r"
    by (rule 4(1)) (use 4(2-) fuel in simp_all)
  then show ?case by (simp add: fuel bmf_tags)
next
  case (5 es)
  then obtain fuel' where fuel: "fuel = Suc fuel'" by (cases fuel) auto
  have "\<exists>s'. bmf_read_dict fuel' [] s = Inr (Bmf_Dict ([] @ es), s') \<and> mem_in_ok s' \<and> in_rest s' = r"
    by (rule 5(1)) (use 5(2-) fuel in simp_all)
  then show ?case by (simp add: fuel bmf_tags)
next
  case 6
  then obtain fuel' where fuel: "fuel = Suc fuel'" by (cases fuel) auto
  have "in_rest s = end_tag # r" using 6 by simp
  from in_peel[OF 6(2) this] show ?case by (simp add: fuel)
next
  case (7 x xs)
  then obtain fuel' where fuel: "fuel = Suc fuel'" by (cases fuel) auto
  have "in_rest s = bmf_tag x # (bmf_payload x @ bmf_items_bytes xs @ end_tag # r)" using 7(5) by simp
  note s1 = in_peel[OF 7(4) this]
  have "\<exists>s'. bmf_read_item fuel' (bmf_tag x) (in_advance 1 s) = Inr (x, s') \<and> mem_in_ok s'
      \<and> in_rest s' = bmf_items_bytes xs @ end_tag # r"
    by (rule 7(1)) (use 7(3-) s1 fuel in simp_all)
  then obtain s2 where s2: "bmf_read_item fuel' (bmf_tag x) (in_advance 1 s) = Inr (x, s2)"
    "mem_in_ok s2" "in_rest s2 = bmf_items_bytes xs @ end_tag # r" by blast
  have "\<exists>s'. bmf_read_list fuel' (acc @ [x]) s2 = Inr (Bmf_List ((acc @ [x]) @ xs), s') \<and> mem_in_ok s'
      \<and> in_rest s' = r"
    by (rule 7(2)) (use 7(3-) s2 fuel in simp_all)
  then show ?case using s1 s2 bmf_tag_not_end[of x] 7(3) by (simp add: fuel)
next
  case 8
  then obtain fuel' where fuel: "fuel = Suc fuel'" by (cases fuel) auto
  have "in_rest s = end_tag # r" using 8 by simp
  from in_peel[OF 8(2) this] show ?case by (simp add: fuel)
next
  case (9 k x es)
  then obtain fuel' where fuel: "fuel = Suc fuel'" by (cases fuel) auto
  let ?rest = "bmf_payload x @ bmf_entries_bytes es @ end_tag # r"
  have "in_rest s = string_tag # (bmf_string_payload k @ bmf_tag x # ?rest)" using 9(5) by simp
  note s1 = in_peel[OF 9(4) this]
  have "length k \<le> 128 * 1024" using 9(3) by simp
  from try_read_string_front[OF s1(3) this s1(4)] obtain s2 where
    s2: "try_read_string (in_advance 1 s) = Inr (Some k, s2)" "mem_in_ok s2" "in_rest s2 = bmf_tag x # ?rest"
    by metis
  note s3 = in_peel[OF s2(2,3)]
  have "\<exists>s'. bmf_read_item fuel' (bmf_tag x) (in_advance 1 s2) = Inr (x, s') \<and> mem_in_ok s'
      \<and> in_rest s' = bmf_entries_bytes es @ end_tag # r"
    by (rule 9(1)) (use 9(3-) s3 fuel in simp_all)
  then obtain s4 where s4: "bmf_read_item fuel' (bmf_tag x) (in_advance 1 s2) = Inr (x, s4)"
    "mem_in_ok s4" "in_rest s4 = bmf_entries_bytes es @ end_tag # r" by blast
  have ins: "std_map_insert k x done' = done' @ [(k, x)]"
    using 9(7) std_map_ok_append[of done' "(k, x)" es] by (intro std_map_insert_last) simp
  have "\<exists>s'. bmf_read_dict fuel' (done' @ [(k, x)]) s4 = Inr (Bmf_Dict ((done' @ [(k, x)]) @ es), s')
      \<and> mem_in_ok s' \<and> in_rest s' = r"
    by (rule 9(2)) (use 9(3-) s4 fuel in simp_all)
  then show ?case using s1 s2 s3 s4 ins by (simp add: fuel bmf_tags)
qed

text \<open>The writer emits the wire format.\<close>

lemma int64_of_size_bounds: "- (2 ^ 63) \<le> int64_of_size n" "int64_of_size n < 2 ^ 63"
  unfolding int64_of_size_def Let_def
  using mod_less_divisor[of "2 ^ 64" n] by (auto simp: zless_nat_eq_int_zless simp flip: zmod_int)

lemma bmf_encode_to_string:
  assumes "- (2 ^ 64) < v" and "v < 2 ^ 64"
  shows "bmf_encode_to string_put v s = Inr (s @ projr (bmf_encode v))"
  using bmf_encode_total[OF assms] by (auto simp: bmf_encode_to_def string_put_def)

lemma bmf_write_string_bytes:
  "bmf_write_string string_put d s = Inr (s @ string_tag # bmf_string_payload d)"
proof -
  have "- (2 ^ 64) < int64_of_size (length d)" "int64_of_size (length d) < 2 ^ 64"
    using int64_of_size_bounds[of "length d"] by simp_all
  from bmf_encode_to_string[OF this] show ?thesis
    by (simp add: bmf_write_string_def bmf_start_bytes_def bmf_string_payload_def string_put_def)
qed

lemma bmf_write_bytes:
  shows "bmf_ok x \<Longrightarrow> bmf_write_value string_put x s = Inr (s @ bmf_tag x # bmf_payload x)"
    and "bmf_items_ok xs \<Longrightarrow> bmf_write_items string_put xs s = Inr (s @ bmf_items_bytes xs)"
    and "bmf_entries_ok es \<Longrightarrow> bmf_write_entries string_put es s = Inr (s @ bmf_entries_bytes es)"
proof (induction x and xs and es arbitrary: s and s and s rule: bmf_ok_bmf_items_ok_bmf_entries_ok.induct)
  case (2 v)
  then show ?case
    using bmf_encode_to_string[of v]
    by (simp add: bmf_write_integer_def string_put_def[of "[integer_tag]"])
qed (simp_all add: bmf_write_string_bytes bmf_write_key_def bmf_start_list_def bmf_end_list_def
    bmf_start_dict_def bmf_end_dict_def string_put_def)

lemma bmf_read_bytes:
  assumes "bmf_ok x" and "length (bmf_bytes x @ r) < 2 ^ 63"
  shows "\<exists>s. bmf_read (attach_buffer (bmf_bytes x @ r)) = Inr (x, s) \<and> in_rest s = r"
proof -
  let ?s = "attach_buffer (bmf_bytes x @ r)"
  have "in_rest ?s = bmf_tag x # (bmf_payload x @ r)" by (simp add: bmf_bytes_def)
  note s1 = in_peel[OF attach_ok[OF assms(2)] this]
  have "\<exists>s'. bmf_read_item (2 * length (in_rest ?s)) (bmf_tag x) (in_advance 1 ?s) = Inr (x, s')
      \<and> mem_in_ok s' \<and> in_rest s' = r"
    by (rule bmf_read_front(1)) (use assms s1 in \<open>simp_all add: bmf_bytes_def\<close>)
  then show ?thesis using s1 by (auto simp: bmf_read_def)
qed

text \<open>The value codec: sequences of values are decoded in one way only.\<close>

definition bmf_take_value :: "bytes \<Rightarrow> (bmf_value \<times> bytes) option" where
  "bmf_take_value d =
     (case bmf_read (attach_buffer d) of Inr (x, s) \<Rightarrow> Some (x, in_rest s) | Inl _ \<Rightarrow> None)"

interpretation bmf_value_codec: byte_codec bmf_bytes bmf_take_value bmf_ok
proof
  fix x rest
  assume "bmf_ok x" and "length (bmf_bytes x @ rest) < 2 ^ 63"
  then obtain s where "bmf_read (attach_buffer (bmf_bytes x @ rest)) = Inr (x, s)" "in_rest s = rest"
    using bmf_read_bytes by blast
  then show "bmf_take_value (bmf_bytes x @ rest) = Some (x, rest)"
    by (simp add: bmf_take_value_def)
qed

text \<open>
  C20. A value tree of integers (other than the least 64 bit one), strings of up to 128 KiB, lists
  and dictionaries with keys of up to 128 KiB in the order of the map, the whole text below \<open>2^63\<close> bytes, written with the writer's operations and followed by anything, is
  read back as the same tree, nested as it was, and the reader stops right behind it.
\<close>

theorem bmf_value_roundtrip:
  assumes "bmf_ok x" and "length (bmf_bytes x @ r) < 2 ^ 63"
  shows "bmf_write_value string_put x [] = Inr (bmf_bytes x)
    \<and> (\<exists>s. bmf_read (attach_buffer (bmf_bytes x @ r)) = Inr (x, s) \<and> in_rest s = r)"
  using bmf_read_bytes[OF assms] bmf_write_bytes(1)[OF assms(1), of "[]"]
  by (simp add: bmf_bytes_def)

theorem bmf_value_roundtrip_witness:
  "bmf_write_value string_put (Bmf_Dict [([65], Bmf_List [Bmf_Integer 5, Bmf_String []])]) []
     = Inr (bmf_bytes (Bmf_Dict [([65], Bmf_List [Bmf_Integer 5, Bmf_String []])]))
   \<and> (\<exists>s. bmf_read (attach_buffer
        (bmf_bytes (Bmf_Dict [([65], Bmf_List [Bmf_Integer 5, Bmf_String []])]) @ [9]))
        = Inr (Bmf_Dict [([65], Bmf_List [Bmf_Integer 5, Bmf_String []])], s) \<and> in_rest s = [9])"
  by (rule bmf_value_roundtrip)
    (simp_all add: bmf_bytes_def bmf_string_payload_def bmf_encode_def upt_conv_Cons
      get_byte_limits_def int64_of_size_def)

text \<open>
  C21. On any input the reader finishes: the fuel of the model is never exhausted, the stream stays
  in its buffer, and the only exception is the length error of a string length.
\<close>

theorem bmf_reader_safe:
  assumes "length d < 2 ^ 63"
  shows "case bmf_read (attach_buffer d) of
      Inl e \<Rightarrow> e = Length_Error
    | Inr (_, s) \<Rightarrow> in_buffer s = d \<and> 0 \<le> in_position s \<and> in_position s \<le> int (length d)"
proof -
  let ?s = "attach_buffer d"
  have ok: "mem_in_ok ?s" by (rule attach_ok[OF assms])
  have "bmf_result_ok ?s (bmf_read ?s)"
  proof (cases "in_is_available 1 ?s")
    case False
    then show ?thesis using in_suffix_refl[OF ok] by (simp add: bmf_read_def bmf_result_ok_def)
  next
    case True
    obtain b s1 where b: "in_read_byte ?s = (uint b, s1)" "in_suffix s1 ?s"
      "length (in_rest ?s) = Suc (length (in_rest s1))" "in_rest ?s = b # in_rest s1"
      by (rule in_read_byte_suffix[OF ok True])
    have "mem_in_ok s1" "2 * length (in_rest s1) + 2 \<le> 2 * length (in_rest ?s)"
      using b by (auto simp: in_suffix_def)
    from bmf_result_ok_mono[OF bmf_reader_total(1)[OF this] b(2)] show ?thesis
      using b(1) True by (simp add: bmf_read_def)
  qed
  then show ?thesis
    by (auto simp: bmf_result_ok_cases in_suffix_def mem_in_ok_def attach_buffer_def)
qed

theorem bmf_reader_safe_witness:
  "case bmf_read (attach_buffer [7, 1, 0]) of
      Inl e \<Rightarrow> e = Length_Error
    | Inr (_, s) \<Rightarrow> in_buffer s = [7, 1, 0] \<and> 0 \<le> in_position s
        \<and> in_position s \<le> int (length [7, 1, 0 :: u8])"
  by (rule bmf_reader_safe) simp

text \<open>
  A string whose encoded length is negative passes the reader's limit of 128 KiB and makes
  it throw a length error instead of giving the empty value.
\<close>

theorem bmf_reader_negative_length:
  assumes "- (2 ^ 63) < v" and "v < 0" and "length d < 2 ^ 63"
    and "d = string_tag # projr (bmf_encode v) @ r"
  shows "bmf_read (attach_buffer d) = Inl Length_Error"
proof -
  let ?s = "attach_buffer d"
  have "in_rest ?s = string_tag # (projr (bmf_encode v) @ r)" using assms(4) by simp
  note s1 = in_peel[OF attach_ok[OF assms(3)] this]
  have "v < 2 ^ 63" using assms(2) by simp
  then obtain s2 where "bmf_decode (in_advance 1 ?s) = Inr (Some v, s2)"
    by (rule bmf_decode_front[OF s1(3) assms(1) _ s1(4)])
  then have "try_read_string (in_advance 1 ?s) = Inl Length_Error"
    using assms(2) by (simp add: try_read_string_def)
  then show ?thesis using s1 assms(4) by (simp add: bmf_read_def bmf_tags)
qed

theorem bmf_reader_negative_length_witness:
  "bmf_read (attach_buffer [7, 1, 0]) = Inl Length_Error"
  by (rule bmf_reader_negative_length[of "- 1" _ "[0]"])
    (simp_all add: bmf_tags bmf_encode_def upt_conv_Cons get_byte_limits_def get_flag_bytes_def)

end
