(* ===== verification/Text_Encodings.thy ===== *)
theory Text_Encodings
  imports Xul_Prelude
begin

text \<open>
  \<^verbatim>\<open>include/xul/text/hex_encoding.hpp\<close>,
  \<^verbatim>\<open>include/xul/text/base64_encoding.hpp\<close>,
  \<^verbatim>\<open>include/xul/net/url_encoding.hpp\<close> and
  \<^verbatim>\<open>include/xul/text/xml_escape_sequence.hpp\<close>. Binary data is a byte list, text a
  string; the character classes are those of the C locale.
\<close>

subsection \<open>Character classes\<close>

definition code_of :: "char \<Rightarrow> nat" where "code_of c = of_char c"

definition byte_of :: "char \<Rightarrow> u8" where "byte_of c = of_nat (code_of c)"

definition char_of_byte :: "u8 \<Rightarrow> char" where "char_of_byte b = char_of (unat b)"

definition is_digit :: "char \<Rightarrow> bool" where "is_digit c = (48 \<le> code_of c \<and> code_of c \<le> 57)"

definition is_upper :: "char \<Rightarrow> bool" where "is_upper c = (65 \<le> code_of c \<and> code_of c \<le> 90)"

definition is_lower :: "char \<Rightarrow> bool" where "is_lower c = (97 \<le> code_of c \<and> code_of c \<le> 122)"

definition is_alnum :: "char \<Rightarrow> bool" where "is_alnum c = (is_digit c \<or> is_upper c \<or> is_lower c)"

definition is_xdigit :: "char \<Rightarrow> bool" where
  "is_xdigit c = (is_digit c \<or> (65 \<le> code_of c \<and> code_of c \<le> 70)
     \<or> (97 \<le> code_of c \<and> code_of c \<le> 102))"

definition to_lower :: "char \<Rightarrow> char" where
  "to_lower c = (if is_upper c then char_of (code_of c + 32) else c)"

lemma unat_byte: "unat (b :: u8) < 256"
  using unsigned_less[of b] by simp

lemma byte_of_char_of_byte [simp]: "byte_of (char_of_byte b) = b"
  using unat_byte[of b] by (simp add: byte_of_def code_of_def char_of_byte_def)

lemma char_of_byte_byte_of [simp]: "char_of_byte (byte_of c) = c"
  by (simp add: char_of_byte_def byte_of_def code_of_def unat_of_nat)

lemma all_bytes: "(\<forall>n \<in> set [0..<256]. P (of_nat n)) \<Longrightarrow> P (b :: u8)"
proof -
  assume a: "\<forall>n \<in> set [0..<256]. P (of_nat n)"
  have "unat b \<in> set [0..<256]" using unat_byte[of b] by simp
  with a have "P (of_nat (unat b))" by blast
  then show "P b" by simp
qed

lemma all_chars: "(\<forall>n \<in> set [0..<256]. P (char_of n)) \<Longrightarrow> P (c :: char)"
proof -
  assume a: "\<forall>n \<in> set [0..<256]. P (char_of n)"
  have "of_char c \<in> set [0..<256 :: nat]" by simp
  with a have "P (char_of (of_char c :: nat))" by blast
  then show "P c" by simp
qed

subsection \<open>hex_encoding\<close>

definition get_lower_hex_letters :: string where
  "get_lower_hex_letters = ''0123456789abcdef''"

definition get_upper_hex_letters :: string where
  "get_upper_hex_letters = ''0123456789ABCDEF''"

definition hex_letters :: "bool \<Rightarrow> string" where
  "hex_letters upper = (if upper then get_upper_hex_letters else get_lower_hex_letters)"

definition do_encode_bit :: "bool \<Rightarrow> u8 \<Rightarrow> char" where
  "do_encode_bit upper b = hex_letters upper ! unat b"

fun hex_encode :: "bool \<Rightarrow> bytes \<Rightarrow> string" where
  "hex_encode upper [] = []"
| "hex_encode upper (ch # rest) =
     do_encode_bit upper (drop_bit 4 ch) # do_encode_bit upper (ch AND 0x0F) # hex_encode upper rest"

definition decode_hex_byte :: "char \<Rightarrow> u8" where
  "decode_hex_byte ch =
     (if is_digit ch then byte_of ch - 48
      else if is_upper ch then byte_of ch - 65 + 10
      else byte_of ch - 97 + 10)"

definition do_decode_byte :: "char \<Rightarrow> char \<Rightarrow> u8" where
  "do_decode_byte ch1 ch2 = push_bit 4 (decode_hex_byte ch1) OR decode_hex_byte ch2"

text \<open>The decoding loop: the bytes written so far, and whether it got to the end.\<close>

fun hex_decode_loop :: "string \<Rightarrow> bytes \<times> bool" where
  "hex_decode_loop (ch1 # ch2 # rest) =
     (if \<not> is_xdigit ch1 \<or> \<not> is_xdigit ch2 then ([], False)
      else let (d, ok) = hex_decode_loop rest in (do_decode_byte ch1 ch2 # d, ok))"
| "hex_decode_loop _ = ([], True)"

definition hex_decode :: "string \<Rightarrow> bytes option" where
  "hex_decode str =
     (if length str mod 2 \<noteq> 0 then None
      else let (d, ok) = hex_decode_loop str in if ok then Some d else None)"

text \<open>Decoding into a buffer, which keeps what was written before a bad digit.\<close>

definition hex_decode_to :: "bytes \<Rightarrow> string \<Rightarrow> bool \<times> bytes" where
  "hex_decode_to buf str =
     (if length str = 0 \<or> length str mod 2 \<noteq> 0 then (False, buf)
      else if length buf < length str div 2 then (False, buf)
      else let (d, ok) = hex_decode_loop str in (ok, d @ drop (length d) buf))"

lemma hex_digit_roundtrip:
  "\<forall>n \<in> set [0..<16]. is_xdigit (do_encode_bit True (of_nat n)) \<and> is_xdigit (do_encode_bit False (of_nat n))
    \<and> decode_hex_byte (do_encode_bit True (of_nat n)) = of_nat n
    \<and> decode_hex_byte (do_encode_bit False (of_nat n)) = of_nat n"
  unfolding Ball_set by code_simp

lemma hex_digit:
  assumes "b < 16"
  shows "is_xdigit (do_encode_bit upper b)" and "decode_hex_byte (do_encode_bit upper b) = b"
proof -
  have "unat b \<in> set [0..<16]" using assms by (simp add: word_less_nat_alt)
  from bspec[OF hex_digit_roundtrip this] show "is_xdigit (do_encode_bit upper b)"
    and "decode_hex_byte (do_encode_bit upper b) = b"
    by (cases upper; simp)+
qed

lemma nibbles: "drop_bit 4 b < 16" "b AND 0x0F < 16" "push_bit 4 (drop_bit 4 b) OR (b AND 0x0F) = (b :: u8)"
proof -
  have m: "(0x0F :: u8) = mask 4" by (simp add: mask_eq_exp_minus_1)
  show "b AND 0x0F < 16" unfolding m by (simp add: word_less_nat_alt unsigned_and_eq unsigned_take_bit_eq flip: take_bit_eq_mask) (simp add: take_bit_eq_mod)
  show "drop_bit 4 b < 16"
    using unat_byte[of b] by (simp add: word_less_nat_alt drop_bit_eq_div unat_div)
  show "push_bit 4 (drop_bit 4 b) OR (b AND 0x0F) = b"
    unfolding m by (auto simp: bit_eq_iff bit_simps)
qed

lemma hex_decode_loop_encode: "hex_decode_loop (hex_encode upper d) = (d, True)"
  by (induction d) (simp_all add: hex_digit nibbles do_decode_byte_def)

lemma length_hex_encode [simp]: "length (hex_encode upper d) = 2 * length d"
  by (induction d) simp_all

text \<open>
  Hexadecimal text has two digits per byte and decodes to the bytes it was made of, in
  either letter case.
\<close>

theorem hex_roundtrip:
  "length (hex_encode upper d) = 2 * length d \<and> hex_decode (hex_encode upper d) = Some d"
  by (simp add: hex_decode_def hex_decode_loop_encode)

subsection \<open>url_encoding\<close>

definition from_hex :: "char \<Rightarrow> u8" where
  "from_hex ch = (if is_digit ch then byte_of ch - 48 else byte_of (to_lower ch) - 97 + 10)"

text \<open>The two tables of the source have each other's letters.\<close>

definition to_hex :: "bool \<Rightarrow> u8 \<Rightarrow> char" where
  "to_hex upper_case code =
     (let upper_hex = ''0123456789abcdef''; lower_hex = ''0123456789ABCDEF''
      in if upper_case then upper_hex ! unat (code AND 15) else lower_hex ! unat (code AND 15))"

definition url_plain :: "char \<Rightarrow> bool" where
  "url_plain ch = (is_alnum ch \<or> ch \<in> {CHR ''-'', CHR ''_'', CHR ''.'', CHR ''~'', CHR '','', CHR '';''})"

text \<open>Encoding runs up to the first zero character, as on a C string.\<close>

fun url_encode :: "bool \<Rightarrow> string \<Rightarrow> string" where
  "url_encode upper [] = []"
| "url_encode upper (ch # rest) =
     (if code_of ch = 0 then []
      else if url_plain ch then ch # url_encode upper rest
      else CHR ''%'' # to_hex upper (drop_bit 4 (byte_of ch)) # to_hex upper (byte_of ch AND 15)
        # url_encode upper rest)"

text \<open>A percent sign without two characters behind it is dropped.\<close>

fun url_decode :: "string \<Rightarrow> string" where
  "url_decode [] = []"
| "url_decode (ch # rest) =
     (if code_of ch = 0 then []
      else if ch = CHR ''%'' then
        (case rest of
           h # l # rest' \<Rightarrow>
             if code_of h \<noteq> 0 \<and> code_of l \<noteq> 0
             then char_of_byte (push_bit 4 (from_hex h) OR from_hex l) # url_decode rest'
             else url_decode rest
         | _ \<Rightarrow> url_decode rest)
      else (if ch = CHR ''+'' then CHR '' '' else ch) # url_decode rest)"

definition url_safe :: "char \<Rightarrow> bool" where
  "url_safe ch = (url_plain ch \<or> ch = CHR ''%'')"

lemma url_hex_digits:
  "\<forall>n \<in> set [0..<16]. list_all (\<lambda>u. code_of (to_hex u (of_nat n)) \<noteq> 0
      \<and> from_hex (to_hex u (of_nat n)) = of_nat n \<and> url_plain (to_hex u (of_nat n))) [True, False]"
  unfolding Ball_set by code_simp

lemma url_hex_digit:
  assumes "b < 16"
  shows "code_of (to_hex u b) \<noteq> 0" and "from_hex (to_hex u b) = b" and "url_plain (to_hex u b)"
proof -
  have "unat b \<in> set [0..<16]" using assms by (simp add: word_less_nat_alt)
  from bspec[OF url_hex_digits this] show "code_of (to_hex u b) \<noteq> 0"
    and "from_hex (to_hex u b) = b" and "url_plain (to_hex u b)"
    by (cases u; simp)+
qed

lemma url_plain_not_special: "url_plain ch \<Longrightarrow> ch \<noteq> CHR ''%'' \<and> ch \<noteq> CHR ''+''"
  by (auto simp: url_plain_def is_alnum_def is_digit_def is_upper_def is_lower_def code_of_def)

lemma url_decode_encode:
  "list_all (\<lambda>ch. code_of ch \<noteq> 0) s \<Longrightarrow> url_decode (url_encode upper s) = s"
proof (induction s)
  case (Cons ch s)
  have pct: "code_of (CHR ''%'') \<noteq> 0" by (simp add: code_of_def)
  show ?case
    using Cons url_plain_not_special[of ch] nibbles[of "byte_of ch"]
    by (auto simp: url_hex_digit pct)
qed simp

lemma url_encode_safe: "list_all url_safe (url_encode upper s)"
  using nibbles by (induction s) (auto simp: url_safe_def url_hex_digit)

text \<open>
  Text without zero characters survives encoding and decoding in a URL, and the encoded text
  has no characters but letters, digits, the marks left plain and percent signs.
\<close>

theorem url_roundtrip:
  assumes "list_all (\<lambda>ch. code_of ch \<noteq> 0) s"
  shows "url_decode (url_encode upper s) = s \<and> list_all url_safe (url_encode upper s)"
  using url_decode_encode[OF assms] url_encode_safe by blast

theorem url_roundtrip_witness:
  "url_decode (url_encode True ''a b+c'') = ''a b+c'' \<and> list_all url_safe (url_encode True ''a b+c'')"
  by (rule url_roundtrip) (simp add: code_of_def)

subsection \<open>xml_escape_sequence\<close>

definition escape_characters :: string where
  "escape_characters = [CHR ''<'', CHR ''>'', CHR ''&'', CHR 0x27, CHR 0x22]"

definition escape_of :: "char \<Rightarrow> string" where
  "escape_of ch =
     (if ch = CHR ''<'' then ''&lt;'' else if ch = CHR ''>'' then ''&gt;''
      else if ch = CHR ''&'' then ''&amp;'' else if ch = CHR 0x27 then ''&apos;''
      else if ch = CHR 0x22 then ''&quot;'' else [])"

text \<open>
  The writer's loop on the text from its offset: \<open>find_first_of\<close> splits off the plain prefix, the
  character behind it is escaped.
\<close>

function xml_escape :: "string \<Rightarrow> string" where
  "xml_escape val =
     (let plain = takeWhile (\<lambda>ch. ch \<notin> set escape_characters) val
      in case drop (length plain) val of
           [] \<Rightarrow> val
         | ch # rest \<Rightarrow> plain @ escape_of ch @ xml_escape rest)"
  by pat_completeness auto
termination
proof (relation "measure length")
  fix val :: string and plain ch rest
  assume "plain = takeWhile (\<lambda>ch. ch \<notin> set escape_characters) val"
    and "drop (length plain) val = ch # rest"
  then show "(rest, val) \<in> measure length"
    using length_drop[of "length plain" val] by simp
qed simp

declare xml_escape.simps [simp del]

definition xml_escape_char :: "char \<Rightarrow> string" where
  "xml_escape_char ch = (if ch \<in> set escape_characters then escape_of ch else [ch])"

lemma xml_escape_plain: "list_all (\<lambda>ch. ch \<notin> set escape_characters) val \<Longrightarrow> xml_escape val = val"
  by (subst xml_escape.simps) (auto simp: Let_def takeWhile_eq_all_conv[THEN iffD2] list_all_iff)

lemma xml_escape_special:
  "list_all (\<lambda>ch. ch \<notin> set escape_characters) p \<Longrightarrow> ch \<in> set escape_characters
    \<Longrightarrow> xml_escape (p @ ch # rest) = p @ escape_of ch @ xml_escape rest"
  by (subst xml_escape.simps) (auto simp: Let_def list_all_iff takeWhile_append2)

lemma xml_escape_concat: "xml_escape val = concat (map xml_escape_char val)"
proof (induction val rule: length_induct)
  case (1 val)
  let ?P = "\<lambda>ch. ch \<notin> set escape_characters"
  have plain: "concat (map xml_escape_char p) = p" if "list_all ?P p" for p
    using that by (induction p) (simp_all add: xml_escape_char_def)
  have takes: "list_all ?P (takeWhile ?P val)" by (auto simp: list_all_iff dest: set_takeWhileD)
  show ?case
  proof (cases "dropWhile ?P val")
    case Nil
    then have "list_all ?P val" by (simp add: list_all_iff)
    then show ?thesis by (simp add: xml_escape_plain plain)
  next
    case (Cons ch rest)
    have val: "val = takeWhile ?P val @ ch # rest" using takeWhile_dropWhile_id[of ?P val] Cons by simp
    have ch: "ch \<in> set escape_characters" using hd_dropWhile[of ?P val] Cons by auto
    have "length rest < length val" by (subst val) simp
    then have IH: "xml_escape rest = concat (map xml_escape_char rest)" using 1 by blast
    show ?thesis
      by (subst (1 2) val)
        (simp add: xml_escape_special[OF takes ch] plain[OF takes] IH ch xml_escape_char_def)
  qed
qed

text \<open>A reader of the five entities, to state that escaping loses nothing.\<close>

definition xml_take_char :: "string \<Rightarrow> (char \<times> string) option" where
  "xml_take_char s =
     (if s = [] then None
      else if hd s \<noteq> CHR ''&'' then Some (hd s, tl s)
      else if take 4 s = ''&lt;'' then Some (CHR ''<'', drop 4 s)
      else if take 4 s = ''&gt;'' then Some (CHR ''>'', drop 4 s)
      else if take 5 s = ''&amp;'' then Some (CHR ''&'', drop 5 s)
      else if take 6 s = ''&apos;'' then Some (CHR 0x27, drop 6 s)
      else if take 6 s = ''&quot;'' then Some (CHR 0x22, drop 6 s)
      else None)"

function xml_unescape :: "string \<Rightarrow> string" where
  "xml_unescape s = (case xml_take_char s of None \<Rightarrow> [] | Some (ch, rest) \<Rightarrow> ch # xml_unescape rest)"
  by pat_completeness auto
termination
  by (relation "measure length") (auto simp: xml_take_char_def split: if_splits)

declare xml_unescape.simps [simp del]

interpretation xml_codec: byte_codec xml_escape_char xml_take_char "\<lambda>_. True"
  by unfold_locales
    (auto simp: xml_escape_char_def escape_characters_def escape_of_def xml_take_char_def)

lemma xml_unescape_concat:
  "length (concat (map xml_escape_char val)) < 2 ^ 63
    \<Longrightarrow> xml_unescape (concat (map xml_escape_char val)) = val"
proof (induction val)
  case Nil
  then show ?case by (subst xml_unescape.simps) (simp add: xml_take_char_def)
next
  case (Cons ch val)
  then show ?case
    using xml_codec.dec_enc[of ch "concat (map xml_escape_char val)"]
    by (subst xml_unescape.simps) simp
qed

lemma xml_escape_clean:
  "list_all (\<lambda>ch. ch \<notin> {CHR ''<'', CHR ''>'', CHR 0x27, CHR 0x22}) (xml_escape val)"
  unfolding xml_escape_concat
  by (induction val) (auto simp: xml_escape_char_def escape_characters_def escape_of_def)

text \<open>
  Escaping replaces each of the five markup characters by its entity and nothing else: the
  result has no angle brackets or quotes, and reading its entities gives back the text.
\<close>

theorem xml_escape_correct:
  assumes "length (xml_escape val) < 2 ^ 63"
  shows "xml_escape val = concat (map xml_escape_char val)
    \<and> xml_unescape (xml_escape val) = val
    \<and> list_all (\<lambda>ch. ch \<notin> {CHR ''<'', CHR ''>'', CHR 0x27, CHR 0x22}) (xml_escape val)"
  using xml_unescape_concat[of val] assms xml_escape_clean[of val] by (simp add: xml_escape_concat)

theorem xml_escape_correct_witness:
  "xml_escape ''a&b'' = concat (map xml_escape_char ''a&b'')
    \<and> xml_unescape (xml_escape ''a&b'') = ''a&b''
    \<and> list_all (\<lambda>ch. ch \<notin> {CHR ''<'', CHR ''>'', CHR 0x27, CHR 0x22}) (xml_escape ''a&b'')"
  by (rule xml_escape_correct)
    (simp add: xml_escape_concat xml_escape_char_def escape_characters_def escape_of_def)

end
