(* ===== verification/Base64.thy ===== *)
theory Base64
  imports Text_Encodings
begin

text \<open>
  \<^verbatim>\<open>include/xul/text/base64_encoding.hpp\<close>. The line delimiter is the empty string
  the source sets it to. The decoder walks the characters of a string, whose terminating zero
  it may still read; a character of 128 or more is a negative index into its table.
\<close>

subsection \<open>Tables\<close>

definition get_encoding_table :: string where
  "get_encoding_table = ''ABCDEFGHIJKLMNOPQRSTUVWXYZabcdefghijklmnopqrstuvwxyz0123456789+/''"

definition get_decoding_table :: "nat list" where
  "get_decoding_table =
     replicate 43 0 @ [62, 0, 62, 0, 63] @ [52..<62] @ replicate 7 0 @ [0..<26]
     @ [0, 0, 0, 0, 63, 0] @ [26..<52] @ replicate 133 0"

subsection \<open>Encoder\<close>

definition b64_letter :: "u8 \<Rightarrow> char" where
  "b64_letter b = get_encoding_table ! unat b"

fun b64_encode :: "bytes \<Rightarrow> string" where
  "b64_encode (c1 # c2 # c3 # rest) =
     b64_letter (drop_bit 2 c1)
     # b64_letter ((push_bit 4 c1 OR drop_bit 4 c2) AND 0x3f)
     # b64_letter ((push_bit 2 c2 OR drop_bit 6 c3) AND 0x3f)
     # b64_letter (c3 AND 0x3f)
     # b64_encode rest"
| "b64_encode [c1] =
     [b64_letter (drop_bit 2 (c1 AND 0xfc)), b64_letter (push_bit 4 (c1 AND 0x03)), CHR ''='', CHR ''='']"
| "b64_encode [c1, c2] =
     [b64_letter (drop_bit 2 (c1 AND 0xfc)),
      b64_letter (push_bit 4 (c1 AND 0x03) OR drop_bit 4 (c2 AND 0xf0)),
      b64_letter (push_bit 2 (c2 AND 0x0f)), CHR ''='']"
| "b64_encode [] = []"

subsection \<open>Decoder\<close>

definition b64_peek :: "string \<Rightarrow> nat \<Rightarrow> fault + char" where
  "b64_peek s p =
     (if p < length s then Inr (s ! p) else if p = length s then Inr (char_of (0 :: nat))
      else Inl Out_Of_Bounds)"

definition b64_value :: "string \<Rightarrow> nat \<Rightarrow> fault + u64" where
  "b64_value s p =
     sbind (b64_peek s p) (\<lambda>c.
       if code_of c < 128 then Inr (of_nat (get_decoding_table ! code_of c)) else Inl Out_Of_Bounds)"

text \<open>The destination was resized to \<open>cap\<close> characters.\<close>

definition b64_store :: "nat \<Rightarrow> u8 \<Rightarrow> bytes \<Rightarrow> fault + bytes" where
  "b64_store cap b dst = (if length dst < cap then Inr (dst @ [b]) else Inl Out_Of_Bounds)"

text \<open>One round of the loop for a character that is no line break: the new source position.\<close>

definition b64_group :: "string \<Rightarrow> nat \<Rightarrow> nat \<Rightarrow> bytes \<Rightarrow> fault + nat \<times> bytes" where
  "b64_group s cap p dst =
     sbind (b64_value s p) (\<lambda>t1. sbind (b64_value s (p + 1)) (\<lambda>t2.
       let v = push_bit 18 t1 + push_bit 12 t2
       in sbind (b64_store cap (ucast (drop_bit 16 (v AND 0x00ff0000))) dst) (\<lambda>dst.
          sbind (b64_peek s (p + 2)) (\<lambda>c.
            if c = CHR ''='' then Inr (p + 2, dst)
            else sbind (b64_value s (p + 2)) (\<lambda>t3.
              let v = v + push_bit 6 t3
              in sbind (b64_store cap (ucast (drop_bit 8 (v AND 0x0000ff00))) dst) (\<lambda>dst.
                 sbind (b64_peek s (p + 3)) (\<lambda>c.
                   if c = CHR ''='' then Inr (p + 3, dst)
                   else sbind (b64_value s (p + 3)) (\<lambda>t4.
                     sbind (b64_store cap (ucast ((v + t4) AND 0x000000ff)) dst) (\<lambda>dst.
                       Inr (p + 4, dst))))))))))"

function b64_decode_loop :: "string \<Rightarrow> nat \<Rightarrow> nat \<Rightarrow> nat \<Rightarrow> bytes \<Rightarrow> fault + bytes" where
  "b64_decode_loop s cap p i dst =
     (if i < length s then
        sbind (b64_peek s p) (\<lambda>c.
          if c \<noteq> CHR 0x0D \<and> c \<noteq> CHR 0x0A
          then sbind (b64_group s cap p dst) (\<lambda>(p', dst'). b64_decode_loop s cap p' (i + 4) dst')
          else b64_decode_loop s cap (p + 1) (i + 1) dst)
      else Inr dst)"
  by pat_completeness auto
termination
  by (relation "measure (\<lambda>(s, cap, p, i, dst). length s - i)") auto

declare b64_decode_loop.simps [simp del]

definition b64_decode :: "string \<Rightarrow> fault + bytes" where
  "b64_decode s = b64_decode_loop s (length s) 0 0 []"

subsection \<open>Letters\<close>

definition b64_table_ok :: "nat \<Rightarrow> bool" where
  "b64_table_ok n =
     (let c = b64_letter (of_nat n)
      in code_of c < 128 \<and> get_decoding_table ! code_of c = n \<and> c \<noteq> CHR ''='' \<and> c \<noteq> CHR 0x0D
         \<and> c \<noteq> CHR 0x0A)"

lemma b64_tables: "list_all b64_table_ok [0..<64]"
  by code_simp

lemma b64_letter_ok:
  assumes "b < 64"
  shows "code_of (b64_letter b) < 128" and "get_decoding_table ! code_of (b64_letter b) = unat b"
    and "b64_letter b \<noteq> CHR ''=''" and "b64_letter b \<noteq> CHR 0x0D" and "b64_letter b \<noteq> CHR 0x0A"
proof -
  have "unat b \<in> set [0..<64]" using assms by (simp add: word_less_nat_alt)
  then have "b64_table_ok (unat b)" using b64_tables unfolding list_all_iff by blast
  then show "code_of (b64_letter b) < 128" and "get_decoding_table ! code_of (b64_letter b) = unat b"
    and "b64_letter b \<noteq> CHR ''=''" and "b64_letter b \<noteq> CHR 0x0D" and "b64_letter b \<noteq> CHR 0x0A"
    by (simp_all add: b64_table_ok_def Let_def)
qed

lemma b64_value_letter:
  assumes "b < 64" and "p < length s" and "s ! p = b64_letter b"
  shows "b64_value s p = Inr (ucast b)"
  using b64_letter_ok[OF assms(1)] assms(2,3)
  by (simp add: b64_value_def b64_peek_def)

subsection \<open>Bits of a group\<close>

lemma mask_bytes:
  "(0x3f :: u8) = mask 6" "(0xfc :: u8) = push_bit 2 (mask 6)" "(0x03 :: u8) = mask 2"
  "(0xf0 :: u8) = push_bit 4 (mask 4)" "(0x0f :: u8) = mask 4"
  "(0x00ff0000 :: u64) = push_bit 16 (mask 8)" "(0x0000ff00 :: u64) = push_bit 8 (mask 8)"
  "(0x000000ff :: u64) = mask 8"
  by (simp_all add: mask_eq_exp_minus_1 push_bit_eq_mult)

lemma low_byte_bits: "64 \<le> n \<Longrightarrow> \<not> bit (w :: u64) n" "8 \<le> n \<Longrightarrow> \<not> bit (b :: u8) n"
  using bit_imp_le_length[of w n] bit_imp_le_length[of b n] by auto

lemma Suc_Suc_diff: "Suc (Suc (n - 2)) = (if 2 \<le> n then n else 2)"
  by arith

lemma six_bits:
  fixes c1 c2 c3 :: u8
  shows "drop_bit 2 c1 < 64" "(w AND 0x3f :: u8) < 64" "drop_bit 2 (c1 AND 0xfc) = drop_bit 2 c1"
    and "push_bit 4 (c1 AND 0x03) = push_bit 4 c1 AND 0x3f"
    and "push_bit 4 (c1 AND 0x03) OR drop_bit 4 (c2 AND 0xf0) = (push_bit 4 c1 OR drop_bit 4 c2) AND 0x3f"
    and "push_bit 2 (c2 AND 0x0f) = push_bit 2 c2 AND 0x3f"
proof -
  show "drop_bit 2 c1 < 64"
    using unat_byte[of c1] by (simp add: word_less_nat_alt drop_bit_eq_div unat_div)
  show "(w AND 0x3f :: u8) < 64" unfolding mask_bytes
    by (simp add: word_less_nat_alt unsigned_and_eq unsigned_take_bit_eq flip: take_bit_eq_mask)
      (simp add: take_bit_eq_mod)
  show "drop_bit 2 (c1 AND 0xfc) = drop_bit 2 c1"
    and "push_bit 4 (c1 AND 0x03) = push_bit 4 c1 AND 0x3f"
    and "push_bit 4 (c1 AND 0x03) OR drop_bit 4 (c2 AND 0xf0) = (push_bit 4 c1 OR drop_bit 4 c2) AND 0x3f"
    and "push_bit 2 (c2 AND 0x0f) = push_bit 2 c2 AND 0x3f"
    unfolding mask_bytes by (auto simp: bit_eq_iff bit_simps low_byte_bits) (auto simp: low_byte_bits intro: ccontr)
qed

lemma group_sum:
  fixes c1 c2 c3 :: u8
  defines "t1 \<equiv> ucast (drop_bit 2 c1) :: u64"
    and "t2 \<equiv> ucast ((push_bit 4 c1 OR drop_bit 4 c2) AND 0x3f) :: u64"
    and "t3 \<equiv> ucast ((push_bit 2 c2 OR drop_bit 6 c3) AND 0x3f) :: u64"
    and "t4 \<equiv> ucast (c3 AND 0x3f) :: u64"
  shows "push_bit 18 t1 + push_bit 12 t2 = push_bit 18 t1 OR push_bit 12 t2"
    and "(push_bit 18 t1 OR push_bit 12 t2) + push_bit 6 t3
      = push_bit 18 t1 OR push_bit 12 t2 OR push_bit 6 t3"
    and "(push_bit 18 t1 OR push_bit 12 t2 OR push_bit 6 t3) + t4
      = push_bit 18 t1 OR push_bit 12 t2 OR push_bit 6 t3 OR t4"
  unfolding t1_def t2_def t3_def t4_def mask_bytes
  by (subst disjunctive_add_eq_or; auto simp: bit_eq_iff bit_simps low_byte_bits or.assoc)+

lemma group_bytes:
  fixes c1 c2 c3 :: u8
  defines "t1 \<equiv> ucast (drop_bit 2 c1) :: u64"
    and "t2 \<equiv> ucast ((push_bit 4 c1 OR drop_bit 4 c2) AND 0x3f) :: u64"
    and "t3 \<equiv> ucast ((push_bit 2 c2 OR drop_bit 6 c3) AND 0x3f) :: u64"
    and "t4 \<equiv> ucast (c3 AND 0x3f) :: u64"
  shows "ucast (drop_bit 16 ((push_bit 18 t1 + push_bit 12 t2) AND 0x00ff0000)) = c1"
    and "ucast (drop_bit 8 ((push_bit 18 t1 + push_bit 12 t2 + push_bit 6 t3) AND 0x0000ff00)) = c2"
    and "ucast ((push_bit 18 t1 + push_bit 12 t2 + push_bit 6 t3 + t4) AND 0x000000ff) = c3"
  unfolding t1_def t2_def t3_def t4_def group_sum unfolding mask_bytes
  by (auto simp: bit_eq_iff bit_simps low_byte_bits Suc_Suc_diff split: if_splits)

subsection \<open>Round trip\<close>

lemma b64_step:
  assumes "i < length s" and "p < length s" and "s ! p = b64_letter b" and "b < 64"
    and "b64_group s cap p dst = Inr (p', dst')"
  shows "b64_decode_loop s cap p i dst = b64_decode_loop s cap p' (i + 4) dst'"
  using assms b64_letter_ok(4,5)[OF assms(4)]
  by (subst b64_decode_loop.simps) (simp add: b64_peek_def)

text \<open>The padded groups with the letters of a full group of zero bytes.\<close>

lemma b64_encode_padded:
  "b64_encode [c1] = [b64_letter (drop_bit 2 c1), b64_letter (push_bit 4 c1 AND 0x3f), CHR ''='', CHR ''='']"
  "b64_encode [c1, c2] =
     [b64_letter (drop_bit 2 c1), b64_letter ((push_bit 4 c1 OR drop_bit 4 c2) AND 0x3f),
      b64_letter (push_bit 2 c2 AND 0x3f), CHR ''='']"
  by (simp only: b64_encode.simps six_bits(3,4)) (simp only: b64_encode.simps six_bits(3,5,6))

lemma next_group: "(5 + n) div 3 = Suc (Suc (Suc n) div (3 :: nat))"
  by presburger

lemma length_b64_encode: "length (b64_encode d) = 4 * ((length d + 2) div 3)"
  by (induction d rule: b64_encode.induct) (simp_all add: next_group)

lemma b64_decode_loop_encode:
  "length dst \<le> length pre \<Longrightarrow> cap = length (pre @ b64_encode d)
    \<Longrightarrow> b64_decode_loop (pre @ b64_encode d) cap (length pre) (length pre) dst = Inr (dst @ d)"
proof (induction d arbitrary: pre dst rule: b64_encode.induct)
  case (1 c1 c2 c3 rest)
  let ?t = "[b64_letter (drop_bit 2 c1), b64_letter ((push_bit 4 c1 OR drop_bit 4 c2) AND 0x3f),
    b64_letter ((push_bit 2 c2 OR drop_bit 6 c3) AND 0x3f), b64_letter (c3 AND 0x3f)]"
  have s: "pre @ b64_encode (c1 # c2 # c3 # rest) = (pre @ ?t) @ b64_encode rest" by simp
  let ?s = "pre @ b64_encode (c1 # c2 # c3 # rest)"
  have "b64_group ?s cap (length pre) dst = Inr (length pre + 4, dst @ [c1, c2, c3])"
    using 1(2,3) b64_value_letter[of _ "length pre" ?s] b64_value_letter[of _ "length pre + 1" ?s]
      b64_value_letter[of _ "length pre + 2" ?s] b64_value_letter[of _ "length pre + 3" ?s]
      b64_letter_ok(3) group_bytes(1)[of c1 c2] group_bytes(2)[of c1 c2 c3]
      group_bytes(3)[of c1 c2 c3]
    by (simp add: b64_group_def b64_peek_def b64_store_def nth_append six_bits Let_def)
  then have "b64_decode_loop ?s cap (length pre) (length pre) dst
      = b64_decode_loop ?s cap (length pre + 4) (length pre + 4) (dst @ [c1, c2, c3])"
    by (intro b64_step[where b = "drop_bit 2 c1"]) (simp_all add: six_bits)
  moreover have "b64_decode_loop ?s cap (length (pre @ ?t)) (length (pre @ ?t)) (dst @ [c1, c2, c3])
      = Inr (dst @ c1 # c2 # c3 # rest)"
    using 1(1)[of "dst @ [c1, c2, c3]" "pre @ ?t"] 1(2,3) by simp
  moreover have "length (pre @ ?t) = length pre + 4" by simp
  ultimately show ?case by (simp only:)
next
  case (2 c1)
  let ?s = "pre @ b64_encode [c1]"
  have "b64_group ?s cap (length pre) dst = Inr (length pre + 2, dst @ [c1])"
    using 2 b64_value_letter[of _ "length pre" ?s] b64_value_letter[of _ "length pre + 1" ?s]
      group_bytes(1)[of c1 0]
    by (simp add: b64_group_def b64_peek_def b64_store_def nth_append six_bits Let_def b64_encode_padded del: b64_encode.simps)
  then have "b64_decode_loop ?s cap (length pre) (length pre) dst
      = b64_decode_loop ?s cap (length pre + 2) (length pre + 4) (dst @ [c1])"
    by (intro b64_step[where b = "drop_bit 2 c1"]) (simp_all add: six_bits b64_encode_padded del: b64_encode.simps)
  then show ?case by (subst (asm) (2) b64_decode_loop.simps) simp
next
  case (3 c1 c2)
  let ?s = "pre @ b64_encode [c1, c2]"
  have "b64_group ?s cap (length pre) dst = Inr (length pre + 3, dst @ [c1, c2])"
    using 3 b64_value_letter[of _ "length pre" ?s] b64_value_letter[of _ "length pre + 1" ?s]
      b64_value_letter[of _ "length pre + 2" ?s] group_bytes(1)[of c1 c2] group_bytes(2)[of c1 c2 0]
      b64_letter_ok(3)
    by (simp add: b64_group_def b64_peek_def b64_store_def nth_append six_bits Let_def b64_encode_padded del: b64_encode.simps)
  then have "b64_decode_loop ?s cap (length pre) (length pre) dst
      = b64_decode_loop ?s cap (length pre + 3) (length pre + 4) (dst @ [c1, c2])"
    by (intro b64_step[where b = "drop_bit 2 c1"]) (simp_all add: six_bits b64_encode_padded del: b64_encode.simps)
  then show ?case by (subst (asm) (2) b64_decode_loop.simps) simp
next
  case 4
  then show ?case by (subst b64_decode_loop.simps) simp
qed

text \<open>
  C32. Base 64 text of any bytes has four characters per started group of three and decodes,
  without reading or writing outside its strings, to the bytes.
\<close>

theorem base64_roundtrip:
  "b64_decode (b64_encode d) = Inr d \<and> length (b64_encode d) = 4 * ((length d + 2) div 3)"
  using b64_decode_loop_encode[of "[]" "[]" _ d] by (simp add: b64_decode_def length_b64_encode)

subsection \<open>Any input\<close>

definition b64_plain :: "char \<Rightarrow> bool" where
  "b64_plain c = (code_of c < 128 \<and> c \<noteq> CHR 0x0D \<and> c \<noteq> CHR 0x0A)"

lemma b64_group_safe:
  assumes "list_all b64_plain s" and "p + 3 < length s" and "length dst \<le> p" and "cap = length s"
  shows "\<exists>p' dst'. b64_group s cap p dst = Inr (p', dst') \<and> p' \<le> p + 4 \<and> length dst' \<le> p'"
proof -
  have "\<exists>v. b64_value s q = Inr v" if "q < length s" for q
  proof -
    have "b64_plain (s ! q)" using assms(1) that by (simp add: list_all_length)
    then show ?thesis using that by (simp add: b64_value_def b64_peek_def b64_plain_def)
  qed
  moreover have "p < length s" "p + 1 < length s" "p + 2 < length s" using assms(2) by simp_all
  ultimately obtain v0 v1 v2 v3 where "b64_value s p = Inr v0" "b64_value s (p + 1) = Inr v1"
      "b64_value s (p + 2) = Inr v2" "b64_value s (p + 3) = Inr v3"
    using assms(2) by metis
  then show ?thesis
    using assms by (simp add: b64_group_def b64_peek_def b64_store_def Let_def)
qed

lemma b64_decode_loop_safe:
  assumes "list_all b64_plain s" and "4 dvd length s" and "cap = length s"
  shows "4 dvd i \<Longrightarrow> p \<le> i \<Longrightarrow> length dst \<le> p \<Longrightarrow> \<exists>d. b64_decode_loop s cap p i dst = Inr d"
proof (induction "length s - i" arbitrary: i p dst rule: less_induct)
  case less
  show ?case
  proof (cases "i < length s")
    case True
    then have i: "i + 3 < length s" using assms(2) less.prems(1) by (auto elim!: dvdE)
    have p: "p + 3 < length s" using i less.prems(2) by simp
    have "b64_plain (s ! p)" using assms(1) p by (simp add: list_all_length)
    obtain p' dst' where g: "b64_group s cap p dst = Inr (p', dst')" "p' \<le> p + 4" "length dst' \<le> p'"
      using b64_group_safe[OF assms(1) p less.prems(3) assms(3)] by blast
    have "\<exists>d. b64_decode_loop s cap p' (i + 4) dst' = Inr d"
      using less.hyps[of "i + 4" p' dst'] less.prems g True by simp
    then show ?thesis
      using True p g(1) \<open>b64_plain (s ! p)\<close>
      by (subst b64_decode_loop.simps) (simp add: b64_peek_def b64_plain_def)
  next
    case False
    then show ?thesis by (subst b64_decode_loop.simps) simp
  qed
qed

text \<open>
  C33. Decoding any text of ASCII characters without line breaks whose length is a multiple of four
  stays inside its strings and gives a result, padding characters in odd places included; a
  single letter makes the decoder read behind the terminating zero.
\<close>

theorem base64_decode_safe:
  assumes "list_all b64_plain s" and "4 dvd length s"
  shows "(\<exists>d. b64_decode s = Inr d) \<and> b64_decode ''A'' = Inl Out_Of_Bounds"
proof
  show "\<exists>d. b64_decode s = Inr d"
    using b64_decode_loop_safe[OF assms refl, of 0 0 "[]"] by (simp add: b64_decode_def)
  show "b64_decode ''A'' = Inl Out_Of_Bounds"
    by code_simp
qed

theorem base64_decode_safe_witness:
  "(\<exists>d. b64_decode ''Z=h='' = Inr d) \<and> b64_decode ''A'' = Inl Out_Of_Bounds"
proof (rule base64_decode_safe)
  show "list_all b64_plain ''Z=h=''" by (simp add: b64_plain_def code_of_def)
  show "4 dvd length ''Z=h=''" by (rule dvdI[of _ _ 1]) simp
qed

end
