(* ===== verification/Big_Number.thy ===== *)
theory Big_Number
  imports Bit_Converter Text_Encodings
begin

text \<open>
  \<^verbatim>\<open>include/xul/data/big_number.hpp\<close>: unsigned numbers of a fixed number of
  bytes, least significant byte first. A number of the class template is a byte list of the
  template's length, its mathematical value is \<open>bn_val\<close>. This theory has everything but the
  shifts and the division.
\<close>

subsection \<open>Value\<close>

fun bn_val :: "bytes \<Rightarrow> nat" where
  "bn_val [] = 0"
| "bn_val (b # bs) = unat b + 256 * bn_val bs"

lemma bn_val_less: "bn_val x < 256 ^ length x"
proof (induction x)
  case (Cons b bs)
  then show ?case using unat_byte[of b] by simp
qed simp

lemma bn_val_append: "bn_val (xs @ ys) = bn_val xs + 256 ^ length xs * bn_val ys"
  by (induction xs) (simp_all add: algebra_simps)

lemma bn_val_zeros [simp]: "bn_val (replicate n 0) = 0"
  by (induction n) simp_all

lemma bn_val_inj: "length x = length y \<Longrightarrow> bn_val x = bn_val y \<Longrightarrow> x = y"
proof (induction x y rule: list_induct2)
  case (Cons a x b y)
  have "unat a mod 256 = unat b mod 256 \<and> bn_val x = bn_val y"
    using Cons.prems unat_byte[of a] unat_byte[of b]
    by (metis bn_val.simps(2) mod_mult_self2 mult.commute div_mult_self2 add.commute
        div_less mod_less zero_neq_numeral add_0)
  then show ?case
    using Cons.IH unat_byte[of a] unat_byte[of b] by (simp add: word_unat_eq_iff)
qed simp

text \<open>Adding a digit in front of a residue.\<close>

lemma digit_mod: "d + 256 * (v mod 256 ^ n) = (d + 256 * v) mod 256 ^ Suc n" if "d < 256" for d v n :: nat
proof -
  have "(d + 256 * v) mod (256 * 256 ^ n) = 256 * ((d + 256 * v) div 256 mod 256 ^ n) + (d + 256 * v) mod 256"
    by (rule mod_mult2_eq)
  then show ?thesis using that by simp
qed

subsection \<open>Counting and negation\<close>

fun bn_increment :: "bytes \<Rightarrow> bytes" where
  "bn_increment [] = []"
| "bn_increment (b # bs) = (let b' = b + 1 in if b' = 0 then b' # bn_increment bs else b' # bs)"

fun bn_decrement :: "bytes \<Rightarrow> bytes" where
  "bn_decrement [] = []"
| "bn_decrement (b # bs) = (let b' = b - 1 in if b' = 0xFF then b' # bn_decrement bs else b' # bs)"

definition bn_flip :: "bytes \<Rightarrow> bytes" where
  "bn_flip x = map not x"

definition bn_negate :: "bytes \<Rightarrow> bytes" where
  "bn_negate x = bn_increment (bn_flip x)"

lemma length_bn_increment [simp]: "length (bn_increment x) = length x"
  by (induction x) (simp_all add: Let_def)

lemma length_bn_decrement [simp]: "length (bn_decrement x) = length x"
  by (induction x) (simp_all add: Let_def)

lemma length_bn_flip [simp]: "length (bn_flip x) = length x"
  by (simp add: bn_flip_def)

lemma length_bn_negate [simp]: "length (bn_negate x) = length x"
  by (simp add: bn_negate_def)

lemma unat_byte_plus1: "unat (b + 1 :: u8) = (if b = 0xFF then 0 else unat b + 1)"
proof -
  have "b = 0xFF \<longleftrightarrow> unat b = 255" by (simp add: word_unat_eq_iff)
  then show ?thesis using unat_byte[of b] by (simp add: unat_word_ariths) 
qed

lemma byte_plus1_eq_0: "b + 1 = 0 \<longleftrightarrow> b = (0xFF :: u8)"
  using unat_byte_plus1[of b] by (auto simp: word_unat_eq_iff split: if_splits)

lemma bn_val_increment: "bn_val (bn_increment x) = (bn_val x + 1) mod 256 ^ length x"
proof (induction x)
  case (Cons b bs)
  show ?case
  proof (cases "b = 0xFF")
    case True
    then show ?thesis
      using Cons digit_mod[of 0 "bn_val bs + 1" "length bs"] by (simp add: Let_def)
  next
    case False
    have "b + 1 \<noteq> 0" using False unat_byte_plus1[of b] by (metis Suc_eq_plus1 nat.distinct(1) unat_0)
    moreover have "bn_val (b # bs) + 1 < 256 ^ length (b # bs)"
      using bn_val_less[of "(b + 1) # bs"] False by (simp add: unat_byte_plus1)
    ultimately show ?thesis using False by (simp add: Let_def unat_byte_plus1)
  qed
qed simp

lemma bn_increment_decrement: "bn_increment (bn_decrement x) = x"
  by (induction x) (auto simp: Let_def)

lemma bn_decrement_increment: "bn_decrement (bn_increment x) = x"
  by (induction x) (auto simp: Let_def byte_plus1_eq_0)

lemma unat_byte_not: "unat (not b) = 255 - unat (b :: u8)"
proof (rule all_bytes)
  show "\<forall>n \<in> set [0..<256]. unat (not (of_nat n :: u8)) = 255 - unat (of_nat n :: u8)"
    unfolding Ball_set by code_simp
qed

lemma bn_val_flip: "bn_val (bn_flip x) + bn_val x + 1 = 256 ^ length x"
proof (induction x)
  case (Cons b bs)
  show ?case using Cons unat_byte[of b] unat_byte_not[of b] by (simp add: bn_flip_def algebra_simps)
qed (simp add: bn_flip_def)

lemma bn_val_negate: "bn_val (bn_negate x) = (256 ^ length x - bn_val x) mod 256 ^ length x"
proof -
  have "bn_val (bn_flip x) + 1 = 256 ^ length x - bn_val x" using bn_val_flip[of x] by linarith
  then show ?thesis by (simp only: bn_negate_def bn_val_increment length_bn_flip)
qed

subsection \<open>Assignment and comparison\<close>

text \<open>\<open>assign\<close> of an integer copies its bytes, as a little endian machine has them, over zeros.\<close>

definition bn_assign_bytes :: "nat \<Rightarrow> bytes \<Rightarrow> fault + bytes" where
  "bn_assign_bytes n d =
     (if length d \<le> n then Inr (d @ replicate (n - length d) 0) else Inl Out_Of_Bounds)"

definition bn_assign_uint32 :: "nat \<Rightarrow> u32 \<Rightarrow> fault + bytes" where
  "bn_assign_uint32 n v = bn_assign_bytes n (from_dword False v)"

definition bn_assign_uint64 :: "nat \<Rightarrow> u64 \<Rightarrow> fault + bytes" where
  "bn_assign_uint64 n v = bn_assign_bytes n (from_qword False v)"

definition bn_assign_int32 :: "nat \<Rightarrow> int \<Rightarrow> fault + bytes" where
  "bn_assign_int32 n v =
     (if v \<ge> 0 then bn_assign_uint32 n (word_of_int v)
      else sbind (bn_assign_uint32 n (word_of_int (- v))) (\<lambda>x. Inr (bn_negate x)))"

definition bn_assign_int64 :: "nat \<Rightarrow> int \<Rightarrow> fault + bytes" where
  "bn_assign_int64 n v =
     (if v \<ge> 0 then bn_assign_uint64 n (word_of_int v)
      else sbind (bn_assign_uint64 n (word_of_int (- v))) (\<lambda>x. Inr (bn_negate x)))"

definition bn_is_null :: "bytes \<Rightarrow> bool" where
  "bn_is_null x = list_all (\<lambda>b. b = 0) x"

text \<open>The loop of \<open>compare\<close> from the most significant byte down.\<close>

fun bn_compare_from :: "nat \<Rightarrow> bytes \<Rightarrow> bytes \<Rightarrow> int" where
  "bn_compare_from 0 x y = 0"
| "bn_compare_from (Suc i) x y =
     (if x ! i < y ! i then - 1 else if x ! i > y ! i then 1 else bn_compare_from i x y)"

definition bn_compare :: "bytes \<Rightarrow> bytes \<Rightarrow> int" where
  "bn_compare x y = bn_compare_from (length x) x y"

definition bn_less :: "bytes \<Rightarrow> bytes \<Rightarrow> bool" where "bn_less x y = (bn_compare x y < 0)"
definition bn_eq :: "bytes \<Rightarrow> bytes \<Rightarrow> bool" where "bn_eq x y = (bn_compare x y = 0)"
definition bn_ge :: "bytes \<Rightarrow> bytes \<Rightarrow> bool" where "bn_ge x y = (bn_compare x y \<ge> 0)"

lemma bn_is_null_iff: "bn_is_null x \<longleftrightarrow> bn_val x = 0"
  by (induction x) (auto simp: bn_is_null_def unat_eq_0)

lemma bn_val_take_Suc:
  "i < length x \<Longrightarrow> bn_val (take (Suc i) x) = bn_val (take i x) + 256 ^ i * unat (x ! i)"
  by (simp add: take_Suc_conv_app_nth bn_val_append)

lemma bn_compare_from_sgn:
  "i \<le> length x \<Longrightarrow> i \<le> length y \<Longrightarrow>
    bn_compare_from i x y = sgn (int (bn_val (take i x)) - int (bn_val (take i y)))"
proof (induction i)
  case (Suc i)
  let ?a = "bn_val (take i x)" and ?b = "bn_val (take i y)"
  have less: "u + 256 ^ i * m < v + 256 ^ i * k" if "m < k" "u < 256 ^ i" for u v m k :: nat
  proof -
    have "u + 256 ^ i * m < 256 ^ i * (m + 1)" using that by simp
    also have "\<dots> \<le> 256 ^ i * k" using that(1) by (intro mult_le_mono2) simp
    finally show ?thesis by simp
  qed
  have a: "?a < 256 ^ i" and b: "?b < 256 ^ i"
    using bn_val_less[of "take i x"] bn_val_less[of "take i y"] Suc.prems by simp_all
  note parts = bn_val_take_Suc[of i x] bn_val_take_Suc[of i y]
  consider "x ! i < y ! i" | "x ! i > y ! i" | "x ! i = y ! i" by (rule linorder_cases)
  then show ?case
  proof cases
    case 1
    then have "bn_val (take (Suc i) x) < bn_val (take (Suc i) y)"
      using parts Suc.prems less[OF _ a] by (simp add: word_less_nat_alt)
    then show ?thesis using 1 by (simp add: sgn_if)
  next
    case 2
    then have "bn_val (take (Suc i) y) < bn_val (take (Suc i) x)"
      using parts Suc.prems less[OF _ b] by (simp add: word_less_nat_alt)
    then show ?thesis using 2 by (simp add: sgn_if)
  next
    case 3
    then show ?thesis using parts Suc by simp
  qed
qed simp

lemma bn_compare_sgn: "length x = length y \<Longrightarrow> bn_compare x y = sgn (int (bn_val x) - int (bn_val y))"
  by (simp add: bn_compare_def bn_compare_from_sgn)

lemma bn_ge_iff: "length x = length y \<Longrightarrow> bn_ge x y \<longleftrightarrow> bn_val y \<le> bn_val x"
  by (simp add: bn_ge_def bn_compare_sgn sgn_if)

subsection \<open>Bit length\<close>

text \<open>The loops of \<open>bits\<close>: bits of a byte from the seventh down, bytes from the last down.\<close>

fun bn_high_bit :: "nat \<Rightarrow> u8 \<Rightarrow> nat" where
  "bn_high_bit 0 b = 0"
| "bn_high_bit (Suc n) b = (if b AND push_bit (Suc n) 1 \<noteq> 0 then Suc n else bn_high_bit n b)"

fun bn_bits_from :: "nat \<Rightarrow> bytes \<Rightarrow> nat" where
  "bn_bits_from 0 x = 0"
| "bn_bits_from (Suc pos) x =
     (if x ! pos \<noteq> 0 then 8 * pos + bn_high_bit 7 (x ! pos) + 1 else bn_bits_from pos x)"

definition bn_bits :: "bytes \<Rightarrow> nat" where
  "bn_bits x = bn_bits_from (length x) x"

lemma bn_high_bit_below:
  "n < 8 \<Longrightarrow> b \<noteq> 0 \<Longrightarrow> unat b < 2 ^ (n + 1)
    \<Longrightarrow> 2 ^ bn_high_bit n b \<le> unat b \<and> unat b < 2 ^ (bn_high_bit n b + 1)"
proof (induction n)
  case 0
  then show ?case using unat_eq_0[of b] by simp
next
  case (Suc n)
  have test: "b AND push_bit (Suc n) 1 \<noteq> 0 \<longleftrightarrow> odd (unat b div 2 ^ Suc n)"
    by (simp only: bit_iff_and_push_bit_not_eq_0[symmetric] bit_iff_odd[of "unat b", symmetric] bit_unsigned_iff)
      (use Suc.prems(1) in simp)
  have "unat b div 2 ^ Suc n < 2"
    using Suc.prems(3) by (intro less_mult_imp_div_less) simp
  then consider "unat b div 2 ^ Suc n = 0" | "unat b div 2 ^ Suc n = 1" by linarith
  then show ?case
  proof cases
    case 1
    then have "unat b < 2 ^ (n + 1)" by (simp add: div_eq_0_iff)
    then show ?thesis using 1 test Suc by simp
  next
    case 2
    then have "2 ^ Suc n \<le> unat b" using div_less[of "unat b" "2 ^ Suc n"] by linarith
    then show ?thesis using 2 test Suc.prems(3) by simp
  qed
qed

lemma bn_high_bit_bounds:
  "b \<noteq> 0 \<Longrightarrow> 2 ^ bn_high_bit 7 b \<le> unat b \<and> unat b < 2 ^ (bn_high_bit 7 b + 1)"
  using unat_byte[of b] by (intro bn_high_bit_below) simp_all

lemma bn_bits_from_bounds:
  "pos \<le> length x \<Longrightarrow>
    (if bn_val (take pos x) = 0 then bn_bits_from pos x = 0
     else 0 < bn_bits_from pos x \<and> 2 ^ (bn_bits_from pos x - 1) \<le> bn_val (take pos x)
       \<and> bn_val (take pos x) < 2 ^ bn_bits_from pos x)"
proof (induction pos)
  case (Suc pos)
  let ?b = "x ! pos" and ?v = "bn_val (take pos x)"
  have parts: "bn_val (take (Suc pos) x) = ?v + 256 ^ pos * unat ?b"
    using Suc.prems by (intro bn_val_take_Suc) simp
  have v: "?v < 256 ^ pos" using bn_val_less[of "take pos x"] Suc.prems by simp
  have pow: "256 ^ pos = (2 :: nat) ^ (8 * pos)" by (simp add: power_mult)
  show ?case
  proof (cases "?b = 0")
    case True
    then show ?thesis using Suc parts by (simp split: if_splits)
  next
    case False
    let ?h = "bn_high_bit 7 ?b"
    have h: "2 ^ ?h \<le> unat ?b" "unat ?b < 2 ^ (?h + 1)" using bn_high_bit_bounds[OF False] by simp_all
    have "2 ^ (8 * pos + ?h) = 256 ^ pos * (2 :: nat) ^ ?h" by (simp add: power_add pow)
    also have "\<dots> \<le> 256 ^ pos * unat ?b" using h(1) by (rule mult_le_mono2)
    finally have low: "2 ^ (8 * pos + ?h) \<le> bn_val (take (Suc pos) x)" using parts by simp
    have "bn_val (take (Suc pos) x) < 256 ^ pos * (unat ?b + 1)" using parts v by simp
    also have "\<dots> \<le> 256 ^ pos * 2 ^ (?h + 1)" using h(2) by (intro mult_le_mono2) simp
    also have "\<dots> = 2 ^ (8 * pos + ?h + 1)" by (simp add: power_add pow)
    finally have high: "bn_val (take (Suc pos) x) < 2 ^ (8 * pos + ?h + 1)" .
    have "0 < bn_val (take (Suc pos) x)" using low by (rule less_le_trans[rotated]) simp
    then show ?thesis using low high False by simp
  qed
qed simp

lemma bn_bits_zero: "bn_bits x = 0 \<longleftrightarrow> bn_val x = 0"
  using bn_bits_from_bounds[of "length x" x] by (auto simp: bn_bits_def split: if_splits)

lemma bn_bits_bounds:
  "0 < bn_val x \<Longrightarrow> 2 ^ (bn_bits x - 1) \<le> bn_val x \<and> bn_val x < 2 ^ bn_bits x"
  using bn_bits_from_bounds[of "length x" x] by (simp add: bn_bits_def split: if_splits)

subsection \<open>Addition, subtraction and multiplication\<close>

text \<open>The loops carry in a 16 bit integer.\<close>

fun bn_add_loop :: "u16 \<Rightarrow> bytes \<Rightarrow> bytes \<Rightarrow> bytes" where
  "bn_add_loop carry (x # xs) (y # ys) =
     (let n = carry + ucast x + ucast y
      in ucast (n AND 0xFF) # bn_add_loop (drop_bit 8 n) xs ys)"
| "bn_add_loop carry _ _ = []"

definition bn_add :: "bytes \<Rightarrow> bytes \<Rightarrow> bytes" where
  "bn_add x y = bn_add_loop 0 x y"

definition bn_sub :: "bytes \<Rightarrow> bytes \<Rightarrow> bytes" where
  "bn_sub x y = bn_add x (bn_negate y)"

text \<open>One row of the product: digit \<open>d\<close> times the bytes of \<open>b\<close>, added to the result from its place on.\<close>

fun bn_mul_row :: "u16 \<Rightarrow> u8 \<Rightarrow> bytes \<Rightarrow> bytes \<Rightarrow> bytes" where
  "bn_mul_row carry d (r # rs) (b # bs) =
     (let n = carry + ucast r + ucast d * ucast b
      in ucast (n AND 0xFF) # bn_mul_row (drop_bit 8 n) d rs bs)"
| "bn_mul_row carry d rs _ = rs"

definition bn_mul :: "bytes \<Rightarrow> bytes \<Rightarrow> bytes" where
  "bn_mul a b =
     foldl (\<lambda>r j. take j r @ bn_mul_row 0 (a ! j) (drop j r) b)
       (replicate (length a) 0) [0..<length a]"

lemma length_bn_add_loop: "length x = length y \<Longrightarrow> length (bn_add_loop c x y) = length x"
  by (induction c x y rule: bn_add_loop.induct) (simp_all add: Let_def)

lemma length_bn_add [simp]: "length x = length y \<Longrightarrow> length (bn_add x y) = length x"
  by (simp add: bn_add_def length_bn_add_loop)

lemma length_bn_sub [simp]: "length x = length y \<Longrightarrow> length (bn_sub x y) = length x"
  by (simp add: bn_sub_def)

lemma length_bn_mul_row [simp]: "length (bn_mul_row c d r b) = length r"
  by (induction c d r b rule: bn_mul_row.induct) (simp_all add: Let_def)

lemma unat_low_high:
  fixes n :: u16
  shows "unat (ucast (n AND 0xFF) :: u8) = unat n mod 256" and "unat (drop_bit 8 n) = unat n div 256"
proof -
  have m: "(0xFF :: u16) = mask 8" by (simp add: mask_eq_exp_minus_1)
  show "unat (ucast (n AND 0xFF) :: u8) = unat n mod 256"
    unfolding m
    by (simp add: unsigned_ucast_eq unsigned_take_bit_eq flip: take_bit_eq_mask)
      (simp add: take_bit_eq_mod)
  show "unat (drop_bit 8 n) = unat n div 256"
    by (simp add: drop_bit_eq_div unat_div)
qed

lemma unat_ucast_byte: "unat (ucast (b :: u8) :: u16) = unat b"
  using unat_byte[of b] by (simp add: unsigned_ucast_eq take_bit_eq_mod)

text \<open>No row overflows 16 bits: a carry of 255, a digit of 255 and \<open>255 * 255\<close> make \<open>2^16 - 1\<close>.\<close>

lemma unat_mul_step:
  fixes r d b :: u8
  assumes "unat c \<le> 255"
  shows "unat (c + ucast r + ucast d * ucast b :: u16) = unat c + unat r + unat d * unat b"
    and "unat (drop_bit 8 (c + ucast r + ucast d * ucast b :: u16)) \<le> 255"
proof -
  have "unat d * unat b \<le> 255 * 255"
    using unat_byte[of d] unat_byte[of b] by (intro mult_le_mono) simp_all
  then have "unat c + unat r + unat d * unat b \<le> 65535" using assms unat_byte[of r] by simp
  then show "unat (c + ucast r + ucast d * ucast b :: u16) = unat c + unat r + unat d * unat b"
    by (simp add: unat_word_ariths unat_ucast_byte)
  then show "unat (drop_bit 8 (c + ucast r + ucast d * ucast b :: u16)) \<le> 255"
    using \<open>unat c + unat r + unat d * unat b \<le> 65535\<close> by (simp add: unat_low_high)
qed

lemma bn_val_add_loop:
  "length x = length y \<Longrightarrow> unat c \<le> 255 \<Longrightarrow>
    bn_val (bn_add_loop c x y) = (bn_val x + bn_val y + unat c) mod 256 ^ length x"
proof (induction c x y rule: bn_add_loop.induct)
  case (1 c a x b y)
  let ?n = "c + ucast a + ucast b :: u16"
  have n: "unat ?n = unat c + unat a + unat b"
    using unat_mul_step(1)[OF 1(3), of a b 1] by simp
  have "unat (drop_bit 8 ?n) \<le> 255" using unat_mul_step(2)[OF 1(3), of a b 1] by simp
  then have IH: "bn_val (bn_add_loop (drop_bit 8 ?n) x y)
      = (bn_val x + bn_val y + unat ?n div 256) mod 256 ^ length x"
    using 1(1)[OF refl] 1(2) by (simp add: unat_low_high)
  have "bn_val (bn_add_loop c (a # x) (b # y))
      = unat ?n mod 256 + 256 * ((bn_val x + bn_val y + unat ?n div 256) mod 256 ^ length x)"
    using IH by (simp add: Let_def unat_low_high)
  also have "\<dots> = (unat ?n mod 256 + 256 * (bn_val x + bn_val y + unat ?n div 256)) mod 256 ^ Suc (length x)"
    by (rule digit_mod) simp
  also have "unat ?n mod 256 + 256 * (bn_val x + bn_val y + unat ?n div 256)
      = unat ?n + 256 * (bn_val x + bn_val y)" by simp
  finally have "bn_val (bn_add_loop c (a # x) (b # y))
      = (unat ?n + 256 * (bn_val x + bn_val y)) mod 256 ^ Suc (length x)" .
  then show ?case unfolding n by (simp add: algebra_simps)
qed simp_all

lemma bn_val_add: "length x = length y \<Longrightarrow> bn_val (bn_add x y) = (bn_val x + bn_val y) mod 256 ^ length x"
  by (simp add: bn_add_def bn_val_add_loop)

lemma bn_val_sub:
  assumes "length x = length y"
  shows "bn_val (bn_sub x y) = (bn_val x + (256 ^ length x - bn_val y)) mod 256 ^ length x"
  using assms by (simp add: bn_sub_def bn_val_add bn_val_negate mod_add_right_eq)

lemma bn_val_mul_row:
  "length r \<le> length b \<Longrightarrow> unat c \<le> 255 \<Longrightarrow>
    bn_val (bn_mul_row c d r b) = (bn_val r + unat d * bn_val b + unat c) mod 256 ^ length r"
proof (induction c d r b rule: bn_mul_row.induct)
  case (1 c d a r b bs)
  let ?n = "c + ucast a + ucast d * ucast b :: u16"
  note step = unat_mul_step[OF 1(3), of a d b]
  have IH: "bn_val (bn_mul_row (drop_bit 8 ?n) d r bs)
      = (bn_val r + unat d * bn_val bs + unat ?n div 256) mod 256 ^ length r"
    using 1(1)[OF refl] 1(2) step(2) by (simp add: unat_low_high)
  have "bn_val (bn_mul_row c d (a # r) (b # bs))
      = unat ?n mod 256 + 256 * ((bn_val r + unat d * bn_val bs + unat ?n div 256) mod 256 ^ length r)"
    using IH by (simp add: Let_def unat_low_high)
  also have "\<dots> = (unat ?n mod 256 + 256 * (bn_val r + unat d * bn_val bs + unat ?n div 256))
      mod 256 ^ Suc (length r)"
    by (rule digit_mod) simp
  also have "unat ?n mod 256 + 256 * (bn_val r + unat d * bn_val bs + unat ?n div 256)
      = unat ?n + 256 * (bn_val r + unat d * bn_val bs)" by simp
  finally show ?case using step(1) by (simp add: algebra_simps)
qed simp_all

lemma bn_mul_prefix:
  assumes "length b = length a" and "k \<le> length a"
  defines "r \<equiv> \<lambda>k. foldl (\<lambda>r j. take j r @ bn_mul_row 0 (a ! j) (drop j r) b)
    (replicate (length a) 0) [0..<k]"
  shows "length (r k) = length a \<and> bn_val (r k) = bn_val (take k a) * bn_val b mod 256 ^ length a"
  using assms(2)
proof (induction k)
  case 0
  then show ?case by (simp add: r_def)
next
  case (Suc k)
  let ?n = "length a" and ?d = "unat (a ! k)"
  have len: "length (r k) = ?n" and val: "bn_val (r k) = bn_val (take k a) * bn_val b mod 256 ^ ?n"
    using Suc by simp_all
  have step: "r (Suc k) = take k (r k) @ bn_mul_row 0 (a ! k) (drop k (r k)) b" by (simp add: r_def)
  have "bn_val (bn_mul_row 0 (a ! k) (drop k (r k)) b)
      = (bn_val (drop k (r k)) + ?d * bn_val b) mod 256 ^ (?n - k)"
    using bn_val_mul_row[of "drop k (r k)" b 0 "a ! k"] len assms(1) by simp
  moreover have "256 ^ ?n = (256 :: nat) ^ k * 256 ^ (?n - k)"
    using Suc.prems by (simp flip: power_add)
  moreover have "bn_val (take k (r k)) < 256 ^ k"
    using bn_val_less[of "take k (r k)"] len Suc.prems by simp
  ultimately have "bn_val (r (Suc k)) = (bn_val (take k (r k)) + 256 ^ k * (bn_val (drop k (r k)) + ?d * bn_val b)) mod 256 ^ ?n"
    using len Suc.prems
    by (simp add: step bn_val_append mod_mult2_eq[of _ "256 ^ k"])
  also have "bn_val (take k (r k)) + 256 ^ k * (bn_val (drop k (r k)) + ?d * bn_val b)
      = bn_val (r k) + 256 ^ k * ?d * bn_val b"
    using bn_val_append[of "take k (r k)" "drop k (r k)"] len Suc.prems by (simp add: algebra_simps)
  also have "\<dots> mod 256 ^ ?n = (bn_val (take k a) * bn_val b + 256 ^ k * ?d * bn_val b) mod 256 ^ ?n"
    unfolding val by (rule mod_add_left_eq)
  also have "bn_val (take k a) * bn_val b + 256 ^ k * ?d * bn_val b = bn_val (take (Suc k) a) * bn_val b"
    using Suc.prems by (simp add: bn_val_take_Suc algebra_simps)
  finally show ?case using len step Suc.prems by simp
qed

lemma length_bn_mul: "length b = length a \<Longrightarrow> length (bn_mul a b) = length a"
  using bn_mul_prefix[of b a "length a"] by (simp add: bn_mul_def)

lemma bn_val_mul: "length b = length a \<Longrightarrow> bn_val (bn_mul a b) = bn_val a * bn_val b mod 256 ^ length a"
  using bn_mul_prefix[of b a "length a"] by (simp add: bn_mul_def)

text \<open>
  C34. The arithmetic of numbers of \<open>n\<close> bytes is arithmetic modulo \<open>256^n\<close>: sum, difference,
  product, negation and the steps by one; \<open>compare\<close> orders the values and \<open>bits\<close> is the
  least number of bits that holds the value.
\<close>

theorem big_number_arithmetic:
  assumes "length x = n" and "length y = n"
  shows "bn_val (bn_add x y) = (bn_val x + bn_val y) mod 256 ^ n
    \<and> int (bn_val (bn_sub x y)) = (int (bn_val x) - int (bn_val y)) mod 256 ^ n
    \<and> bn_val (bn_mul x y) = bn_val x * bn_val y mod 256 ^ n
    \<and> int (bn_val (bn_negate x)) = - int (bn_val x) mod 256 ^ n
    \<and> bn_val (bn_increment x) = (bn_val x + 1) mod 256 ^ n
    \<and> int (bn_val (bn_decrement x)) = (int (bn_val x) - 1) mod 256 ^ n
    \<and> bn_compare x y = sgn (int (bn_val x) - int (bn_val y))
    \<and> bn_val x < 2 ^ bn_bits x \<and> (bn_bits x = 0 \<or> 2 ^ (bn_bits x - 1) \<le> bn_val x)"
proof (intro conjI)
  have less: "bn_val z < 256 ^ n" if "length z = n" for z using bn_val_less[of z] that by simp
  have int_diff: "int (u + (256 ^ n - v)) mod 256 ^ n = (int u - int v) mod 256 ^ n" if "v < 256 ^ n" for u v
  proof -
    have "int (u + (256 ^ n - v)) = int u - int v + 256 ^ n" using that by (simp add: of_nat_diff)
    then show ?thesis by (simp only: mod_add_self2)
  qed
  show "bn_val (bn_add x y) = (bn_val x + bn_val y) mod 256 ^ n"
    using assms by (simp add: bn_val_add)
  show "int (bn_val (bn_sub x y)) = (int (bn_val x) - int (bn_val y)) mod 256 ^ n"
    using assms int_diff[OF less[OF assms(2)]] by (simp add: bn_val_sub zmod_int)
  show "bn_val (bn_mul x y) = bn_val x * bn_val y mod 256 ^ n"
    using assms by (simp add: bn_val_mul)
  show "int (bn_val (bn_negate x)) = - int (bn_val x) mod 256 ^ n"
    using assms(1) int_diff[OF less[OF assms(1)], of 0] by (simp add: bn_val_negate zmod_int)
  show "bn_val (bn_increment x) = (bn_val x + 1) mod 256 ^ n"
    using assms(1) by (simp only: bn_val_increment)
  have "bn_val x = (bn_val (bn_decrement x) + 1) mod 256 ^ n"
    using bn_val_increment[of "bn_decrement x"] assms(1) by (simp add: bn_increment_decrement)
  then have "(int (bn_val x) - 1) mod 256 ^ n = (int (bn_val (bn_decrement x)) + 1 - 1) mod 256 ^ n"
    by (simp only: zmod_int of_nat_add of_nat_1 of_nat_power of_nat_numeral mod_diff_left_eq)
  moreover have "int (bn_val (bn_decrement x)) < 256 ^ n"
    using less[of "bn_decrement x"] assms(1)
    by (metis length_bn_decrement of_nat_less_iff of_nat_numeral of_nat_power)
  then have "int (bn_val (bn_decrement x)) mod 256 ^ n = int (bn_val (bn_decrement x))" by simp
  ultimately show "int (bn_val (bn_decrement x)) = (int (bn_val x) - 1) mod 256 ^ n" by simp
  show "bn_compare x y = sgn (int (bn_val x) - int (bn_val y))"
    using assms by (simp add: bn_compare_sgn)
  show "bn_val x < 2 ^ bn_bits x" and "bn_bits x = 0 \<or> 2 ^ (bn_bits x - 1) \<le> bn_val x"
    using bn_bits_bounds[of x] bn_bits_zero[of x] by (cases "bn_val x = 0"; simp)+
qed

theorem big_number_arithmetic_witness:
  "bn_val (bn_add [255, 1] [2, 255]) = (bn_val [255, 1] + bn_val [2, 255]) mod 256 ^ 2
    \<and> int (bn_val (bn_sub [255, 1] [2, 255])) = (int (bn_val [255, 1]) - int (bn_val [2, 255])) mod 256 ^ 2
    \<and> bn_val (bn_mul [255, 1] [2, 255]) = bn_val [255, 1] * bn_val [2, 255] mod 256 ^ 2
    \<and> int (bn_val (bn_negate [255, 1])) = - int (bn_val [255, 1]) mod 256 ^ 2
    \<and> bn_val (bn_increment [255, 1]) = (bn_val [255, 1] + 1) mod 256 ^ 2
    \<and> int (bn_val (bn_decrement [255, 1])) = (int (bn_val [255, 1]) - 1) mod 256 ^ 2
    \<and> bn_compare [255, 1] [2, 255] = sgn (int (bn_val [255, 1]) - int (bn_val [2, 255]))
    \<and> bn_val [255, 1] < 2 ^ bn_bits [255, 1]
    \<and> (bn_bits [255, 1] = 0 \<or> 2 ^ (bn_bits [255, 1] - 1) \<le> bn_val [255, 1])"
  by (rule big_number_arithmetic) simp_all

subsection \<open>Multiplying a number by itself in place\<close>

text \<open>
  In \<open>x *= x\<close> the right operand is the object that was cleared: its bytes are read from the
  result under construction.
\<close>

definition bn_mul_self_row :: "nat \<Rightarrow> u8 \<Rightarrow> bytes \<Rightarrow> bytes" where
  "bn_mul_self_row j d r =
     snd (foldl (\<lambda>(carry, r) i.
         let n = carry + ucast (r ! (i + j)) + ucast d * ucast (r ! i) :: u16
         in (drop_bit 8 n, r[i + j := ucast (n AND 0xFF)]))
       (0, r) [0..<length r - j])"

definition bn_mul_self :: "bytes \<Rightarrow> bytes" where
  "bn_mul_self a = foldl (\<lambda>r j. bn_mul_self_row j (a ! j) r) (replicate (length a) 0) [0..<length a]"

lemma bn_mul_self_row_zeros: "j \<le> n \<Longrightarrow> bn_mul_self_row j d (replicate n 0) = replicate n 0"
proof -
  assume "j \<le> n"
  have "foldl (\<lambda>(carry, r) i. let m = carry + ucast (r ! (i + j)) + ucast d * ucast (r ! i) :: u16
      in (drop_bit 8 m, r[i + j := ucast (m AND 0xFF)])) (0, replicate n 0) [0..<k]
      = (0, replicate n (0 :: u8))" if "k \<le> n - j" for k
    using that by (induction k) (simp_all add: list_update_same_conv)
  from this[of "n - j"] show ?thesis by (simp add: bn_mul_self_row_def)
qed

text \<open>
  Squaring in place with \<open>x *= x\<close> gives zero for every number, where the product of two
  objects with that value does not.
\<close>

theorem big_number_square_in_place:
  "bn_mul_self a = replicate (length a) 0 \<and> bn_val (bn_mul a a) = (bn_val a)\<^sup>2 mod 256 ^ length a"
proof
  have "foldl (\<lambda>r j. bn_mul_self_row j (a ! j) r) (replicate (length a) 0) [0..<k] = replicate (length a) 0"
    if "k \<le> length a" for k
    using that by (induction k) (simp_all add: bn_mul_self_row_zeros)
  then show "bn_mul_self a = replicate (length a) 0" by (simp add: bn_mul_self_def)
  show "bn_val (bn_mul a a) = (bn_val a)\<^sup>2 mod 256 ^ length a"
    by (simp add: bn_val_mul power2_eq_square)
qed

subsection \<open>Text\<close>

definition bn_format :: "bool \<Rightarrow> bytes \<Rightarrow> string" where
  "bn_format upper x = hex_encode upper (rev x)"

definition bn_try_parse :: "bytes \<Rightarrow> string \<Rightarrow> bool \<times> bytes" where
  "bn_try_parse x s =
     (if length s \<noteq> length x * 2 then (False, x)
      else let (ok, x) = hex_decode_to x s in if \<not> ok then (False, x) else (True, rev x))"

definition bn_parse :: "nat \<Rightarrow> string \<Rightarrow> bytes" where
  "bn_parse n s = (let (ok, x) = bn_try_parse (replicate n 0) s in if ok then x else replicate n 0)"

text \<open>
  The text of a number, its digits from the most significant byte on, parses to the number in
  either letter case.
\<close>

theorem big_number_text_roundtrip: "bn_parse (length x) (bn_format upper x) = x"
  by (cases x) (simp_all add: bn_parse_def bn_try_parse_def bn_format_def hex_decode_to_def
      hex_decode_loop_encode)

end
