(* ===== verification/Big_Number_Division.thy ===== *)
theory Big_Number_Division
  imports Big_Number
begin

text \<open>
  The shifts and the division of \<^verbatim>\<open>include/xul/data/big_number.hpp\<close>: in place
  loops over the bytes, and the restoring division built on them.
\<close>

subsection \<open>Bits of a number\<close>

lemma bit_bn_val: "bit (bn_val x) k \<longleftrightarrow> k < 8 * length x \<and> bit (x ! (k div 8)) (k mod 8)"
proof (induction x arbitrary: k)
  case (Cons b bs)
  have "unat b + 256 * bn_val bs = take_bit 8 (unat b) + push_bit 8 (bn_val bs)"
    using unat_byte[of b] by (simp add: push_bit_eq_mult take_bit_eq_mod)
  also have "\<dots> = take_bit 8 (unat b) OR push_bit 8 (bn_val bs)"
    by (rule disjunctive_add_eq_or) (auto simp: bit_eq_iff bit_simps)
  finally have or: "bn_val (b # bs) = take_bit 8 (unat b) OR push_bit 8 (bn_val bs)" by simp
  show ?case
  proof (cases "k < 8")
    case True
    then show ?thesis unfolding or by (simp add: bit_simps)
  next
    case False
    then obtain j where k: "k = 8 + j" by (metis le_Suc_ex linorder_not_less)
    have "(8 + j) div 8 = Suc (j div 8)" "(8 + j) mod 8 = j mod 8" by simp_all
    then show ?thesis using Cons[of j] unfolding k or by (simp add: bit_simps)
  qed
qed simp

lemma bn_val_eqI:
  assumes "\<And>k. k < 8 * length x \<Longrightarrow> bit (x ! (k div 8)) (k mod 8) = bit v k" and "v < 256 ^ length x"
  shows "bn_val x = v"
proof (rule bit_eqI)
  fix k
  have "256 ^ length x = (2 :: nat) ^ (8 * length x)" by (simp add: power_mult)
  then have "take_bit (8 * length x) v = v" using assms(2) by (simp add: take_bit_nat_eq_self)
  then have "bit v k \<Longrightarrow> k < 8 * length x" by (metis bit_take_bit_iff)
  then show "bit (bn_val x) k = bit v k" using assms(1)[of k] by (auto simp: bit_bn_val)
qed

subsection \<open>Bitwise operators\<close>

definition bn_and :: "bytes \<Rightarrow> bytes \<Rightarrow> bytes" where "bn_and x y = map2 (AND) x y"
definition bn_or :: "bytes \<Rightarrow> bytes \<Rightarrow> bytes" where "bn_or x y = map2 (OR) x y"
definition bn_xor :: "bytes \<Rightarrow> bytes \<Rightarrow> bytes" where "bn_xor x y = map2 (XOR) x y"

lemma nth_octet: "k < 8 * length x \<Longrightarrow> k div 8 < length x"
  by (simp add: less_mult_imp_div_less mult.commute)

lemma bn_val_bitwise:
  assumes "length x = length y"
  shows "bn_val (bn_and x y) = bn_val x AND bn_val y" and "bn_val (bn_or x y) = bn_val x OR bn_val y"
    and "bn_val (bn_xor x y) = bn_val x XOR bn_val y"
  using assms
  by (intro bit_eqI; auto simp: bn_and_def bn_or_def bn_xor_def bit_bn_val bit_simps nth_octet)+

subsection \<open>Shifts\<close>

definition bn_shift_left :: "bytes \<Rightarrow> nat \<Rightarrow> bytes" where
  "bn_shift_left x shift =
     (let n = length x in
      if shift = 0 then x
      else if shift \<ge> 8 * n then replicate n 0
      else let byte_shift = shift div 8; bit_shift = shift mod 8;
               m = (if bit_shift = 0
                    then foldl (\<lambda>m i. m[i + byte_shift := m ! i]) x (rev [0..<n - byte_shift])
                    else let high_bit_shift = 8 - bit_shift;
                             m = foldl (\<lambda>m i. m[i + byte_shift :=
                                   push_bit bit_shift (m ! i) OR drop_bit high_bit_shift (m ! (i - 1))])
                                 x (rev [1..<n - byte_shift])
                         in m[byte_shift := push_bit bit_shift (m ! 0)])
           in foldl (\<lambda>m i. m[i := 0]) m [0..<byte_shift])"

definition bn_shift_right :: "bytes \<Rightarrow> nat \<Rightarrow> bytes" where
  "bn_shift_right x shift =
     (let n = length x in
      if shift = 0 then x
      else if shift \<ge> 8 * n then replicate n 0
      else let byte_shift = shift div 8; bit_shift = shift mod 8;
               m = (if bit_shift = 0
                    then foldl (\<lambda>m i. m[i := m ! (i + byte_shift)]) x [0..<n - byte_shift]
                    else let high_bit_shift = 8 - bit_shift; right_most_byte = n - byte_shift - 1;
                             m = foldl (\<lambda>m i. m[i :=
                                   drop_bit bit_shift (m ! (i + byte_shift))
                                   OR push_bit high_bit_shift (m ! (i + byte_shift + 1))])
                                 x [0..<right_most_byte]
                         in m[right_most_byte := drop_bit bit_shift (m ! (n - 1))])
           in foldl (\<lambda>m i. m[i := 0]) m [n - byte_shift..<n])"

text \<open>In place loops that read only what they have not written yet.\<close>

lemma length_foldl_update [simp]:
  "length (foldl (\<lambda>m i. m[f i := g m i]) x is) = length x"
  by (induction "is" arbitrary: x) simp_all

lemma descending_update:
  assumes "b + s \<le> length x" and "k < length x"
    and "\<And>m i. length m = length x \<Longrightarrow> i < b \<Longrightarrow> (\<And>q. q \<le> i \<Longrightarrow> m ! q = x ! q) \<Longrightarrow> f m i = f x i"
  shows "foldl (\<lambda>m i. m[i + s := f m i]) x (rev [a..<b]) ! k
    = (if a + s \<le> k \<and> k < b + s then f x (k - s) else x ! k)"
  using assms
proof (induction b arbitrary: x)
  case (Suc b)
  show ?case
  proof (cases "a \<le> b")
    case True
    let ?x = "x[b + s := f x b]"
    have same: "f m i = f x i" if "length m = length x" "i < b" "\<And>q. q \<le> i \<Longrightarrow> m ! q = ?x ! q" for m i
    proof (rule Suc.prems(3))
      show "length m = length x" and "i < Suc b" using that(1,2) by simp_all
      show "m ! q = x ! q" if "q \<le> i" for q using \<open>i < b\<close> that \<open>\<And>q. q \<le> i \<Longrightarrow> m ! q = ?x ! q\<close> by simp
    qed
    have fx: "f ?x (k - s) = f x (k - s)" if "k < b + s" "s \<le> k" using that by (intro same) auto
    have "foldl (\<lambda>m i. m[i + s := f m i]) ?x (rev [a..<b]) ! k
      = (if a + s \<le> k \<and> k < b + s then f ?x (k - s) else ?x ! k)"
    proof (rule Suc.IH)
      show "b + s \<le> length ?x" and "k < length ?x" using Suc.prems(1,2) by simp_all
      fix m i
      assume "length m = length ?x" and "i < b" and "\<And>q. q \<le> i \<Longrightarrow> m ! q = ?x ! q"
      then have "f m i = f x i" by (intro same) simp_all
      moreover have "f ?x i = f x i" using \<open>i < b\<close> by (intro same) simp_all
      ultimately show "f m i = f ?x i" by simp
    qed
    then have eq: "foldl (\<lambda>m i. m[i + s := f m i]) x (rev [a..<Suc b]) ! k
      = (if a + s \<le> k \<and> k < b + s then f ?x (k - s) else ?x ! k)" using True by simp
    have "k = b + s \<or> k \<noteq> b + s" by blast
    then show ?thesis
      unfolding eq using True Suc.prems(2) fx
      by (elim disjE) (simp_all add: nth_list_update_neq)
  next
    case False
    then show ?thesis by auto
  qed
qed auto

lemma ascending_update:
  assumes "b \<le> length x" and "k < length x"
    and "\<And>m i. length m = length x \<Longrightarrow> i < b \<Longrightarrow>
      (\<And>q. i \<le> q \<Longrightarrow> q < length x \<Longrightarrow> m ! q = x ! q) \<Longrightarrow> f m i = f x i"
  shows "foldl (\<lambda>m i. m[i := f m i]) x [0..<b] ! k = (if k < b then f x k else x ! k)"
  using assms
proof (induction b arbitrary: k)
  case (Suc b)
  let ?m = "foldl (\<lambda>m i. m[i := f m i]) x [0..<b]"
  have IH: "?m ! q = (if q < b then f x q else x ! q)" if "q < length x" for q
  proof (rule Suc.IH)
    show "f m i = f x i"
      if "length m = length x" "i < b" "\<And>p. i \<le> p \<Longrightarrow> p < length x \<Longrightarrow> m ! p = x ! p" for m i
      using that by (intro Suc.prems(3)) simp_all
  qed (use Suc.prems(1) that in simp_all)
  have len: "length ?m = length x" by (rule length_foldl_update)
  have "f ?m b = f x b"
  proof (rule Suc.prems(3)[OF len])
    show "?m ! q = x ! q" if "b \<le> q" "q < length x" for q using IH[OF that(2)] that(1) by simp
  qed simp
  then show ?case
    using IH[OF Suc.prems(2)] Suc.prems(1,2) len by (cases "k = b") (simp_all add: nth_list_update_neq)
qed simp

lemma clear_range:
  "k < length m \<Longrightarrow> foldl (\<lambda>m i. m[i := 0]) m [a..<b] ! k = (if a \<le> k \<and> k < b then 0 else m ! k)"
proof (induction b)
  case (Suc b)
  have len: "length (foldl (\<lambda>m i. m[i := 0]) m [a..<b]) = length m" by (rule length_foldl_update)
  show ?case using Suc len by (cases "k = b") (auto simp: upt_Suc)
qed simp

text \<open>The bytes after a shift.\<close>

lemma bn_shift_left_nth:
  assumes "0 < shift" and "shift < 8 * length x" and "k < length x"
  defines "bs \<equiv> shift div 8" and "b \<equiv> shift mod 8"
  shows "bn_shift_left x shift ! k =
    (if k < bs then 0
     else if b = 0 then x ! (k - bs)
     else if k = bs then push_bit b (x ! 0)
     else push_bit b (x ! (k - bs)) OR drop_bit (8 - b) (x ! (k - bs - 1)))"
proof -
  have bs: "bs < length x" using assms(2) by (simp add: bs_def less_mult_imp_div_less mult.commute)
  show ?thesis
  proof (cases "b = 0")
    case True
    have "foldl (\<lambda>m i. m[i + bs := m ! i]) x (rev [0..<length x - bs]) ! k
        = (if 0 + bs \<le> k \<and> k < length x - bs + bs then x ! (k - bs) else x ! k)"
      by (rule descending_update[where f = "\<lambda>m i. m ! i"]) (use bs assms(3) in auto)
    then show ?thesis
      using True assms(1-3) bs by (simp add: bn_shift_left_def Let_def clear_range flip: bs_def b_def)
  next
    case False
    let ?f = "\<lambda>m i. push_bit b (m ! i) OR drop_bit (8 - b) (m ! (i - 1))"
    let ?m = "foldl (\<lambda>m i. m[i + bs := ?f m i]) x (rev [1..<length x - bs])"
    have m: "?m ! q = (if 1 + bs \<le> q \<and> q < length x - bs + bs then ?f x (q - bs) else x ! q)"
      if "q < length x" for q
      by (rule descending_update[where f = ?f]) (use bs that in auto)
    have "0 < length x" using bs by linarith
    from m[OF this] have "?m ! 0 = x ! 0" by simp
    then show ?thesis
      using False assms(1-3) bs m[OF assms(3)]
      by (auto simp add: bn_shift_left_def Let_def clear_range nth_list_update simp flip: bs_def b_def)
  qed
qed

lemma bn_shift_right_nth:
  assumes "0 < shift" and "shift < 8 * length x" and "k < length x"
  defines "bs \<equiv> shift div 8" and "b \<equiv> shift mod 8"
  shows "bn_shift_right x shift ! k =
    (if length x - bs \<le> k then 0
     else if b = 0 then x ! (k + bs)
     else if k = length x - bs - 1 then drop_bit b (x ! (length x - 1))
     else drop_bit b (x ! (k + bs)) OR push_bit (8 - b) (x ! (k + bs + 1)))"
proof -
  have bs: "bs < length x" using assms(2) by (simp add: bs_def less_mult_imp_div_less mult.commute)
  show ?thesis
  proof (cases "b = 0")
    case True
    have "foldl (\<lambda>m i. m[i := m ! (i + bs)]) x [0..<length x - bs] ! k
        = (if k < length x - bs then x ! (k + bs) else x ! k)"
      by (rule ascending_update[where f = "\<lambda>m i. m ! (i + bs)"]) (use bs assms(3) in auto)
    then show ?thesis
      using True assms(1-3) bs by (simp add: bn_shift_right_def Let_def clear_range flip: bs_def b_def)
  next
    case False
    let ?f = "\<lambda>m i. drop_bit b (m ! (i + bs)) OR push_bit (8 - b) (m ! (i + bs + 1))"
    let ?m = "foldl (\<lambda>m i. m[i := ?f m i]) x [0..<length x - bs - 1]"
    have m: "?m ! q = (if q < length x - bs - 1 then ?f x q else x ! q)" if "q < length x" for q
      by (rule ascending_update[where f = ?f]) (use bs that in auto)
    have last: "length x - 1 < length x" "\<not> length x - 1 < length x - bs - 1" using bs by linarith+
    have "?m ! (length x - 1) = x ! (length x - 1)" using m[OF last(1)] last(2) by (simp only: if_False)
    then show ?thesis
      using False assms(1-3) bs m[OF assms(3)]
      by (auto simp add: bn_shift_right_def Let_def clear_range nth_list_update simp flip: bs_def b_def)
  qed
qed

lemma length_bn_shift_left [simp]: "length (bn_shift_left x s) = length x"
  by (simp add: bn_shift_left_def Let_def)

lemma length_bn_shift_right [simp]: "length (bn_shift_right x s) = length x"
  by (simp add: bn_shift_right_def Let_def)

lemma pow_256: "(256 :: nat) ^ n = 2 ^ (8 * n)"
  by (simp add: power_mult)

text \<open>Bit \<open>j\<close> of byte \<open>i\<close> after a shift, for a shift of \<open>bs\<close> bytes and \<open>b\<close> bits.\<close>

lemma byte_bit_less: "bit (w :: u8) p \<Longrightarrow> p < 8"
  using bit_imp_le_length[of w p] by simp

lemma octet_div_mod: "c < 8 \<Longrightarrow> (8 * m + c) div 8 = m" "c < 8 \<Longrightarrow> (8 * m + c) mod 8 = (c :: nat)"
  by simp_all

lemma bit_shift_left:
  assumes "0 < s" and "s < 8 * length x" and "i < length x" and "j < 8"
  shows "bit (bn_shift_left x s ! i) j
    \<longleftrightarrow> s \<le> 8 * i + j \<and> bit (x ! ((8 * i + j - s) div 8)) ((8 * i + j - s) mod 8)"
proof -
  define bs where "bs = s div 8"
  define b where "b = s mod 8"
  have s: "s = 8 * bs + b" "b < 8" by (simp_all add: bs_def b_def)
  note nth = bn_shift_left_nth[OF assms(1-3), folded bs_def b_def]
  consider "i < bs" | "bs \<le> i" "b \<le> j" | "i = bs" "j < b" | "bs < i" "j < b" by linarith
  then show ?thesis
  proof cases
    case 1
    then have "8 * i + j < s" using s assms(4) by linarith
    then show ?thesis using nth 1 by simp
  next
    case 2
    have ks: "8 * i + j - s = 8 * (i - bs) + (j - b)" and le: "s \<le> 8 * i + j" using s 2 by linarith+
    have dm: "(8 * i + j - s) div 8 = i - bs" "(8 * i + j - s) mod 8 = j - b"
      using assms(4) unfolding ks by simp_all
    have high: "\<not> bit (x ! q) (8 - b + j)" if "0 < b" for q
      using byte_bit_less[of "x ! q" "8 - b + j"] 2(2) s(2) by auto
    show ?thesis unfolding dm using nth 2 le high assms(4) by (auto simp: bit_simps)
  next
    case 3
    then have "\<not> s \<le> 8 * i + j" using s by linarith
    then show ?thesis using nth 3 by (auto simp: bit_simps)
  next
    case 4
    have ks: "8 * i + j - s = 8 * (i - bs - 1) + (8 - b + j)" and le: "s \<le> 8 * i + j"
      using s 4 by linarith+
    have dm: "(8 * i + j - s) div 8 = i - bs - 1" "(8 * i + j - s) mod 8 = 8 - b + j"
      unfolding ks by (rule octet_div_mod; use 4(2) s(2) in linarith)+
    show ?thesis unfolding dm using nth 4 le assms(4) by (auto simp: bit_simps)
  qed
qed

lemma bit_shift_right:
  assumes "0 < s" and "s < 8 * length x" and "i < length x" and "j < 8"
  shows "bit (bn_shift_right x s ! i) j
    \<longleftrightarrow> s + 8 * i + j < 8 * length x \<and> bit (x ! ((s + 8 * i + j) div 8)) ((s + 8 * i + j) mod 8)"
proof -
  define bs where "bs = s div 8"
  define b where "b = s mod 8"
  have s: "s = 8 * bs + b" "b < 8" by (simp_all add: bs_def b_def)
  have bs: "bs < length x" using assms(2) s by linarith
  note nth = bn_shift_right_nth[OF assms(1-3), folded bs_def b_def]
  consider "length x - bs \<le> i" | "i < length x - bs" "b + j < 8"
    | "i = length x - bs - 1" "8 \<le> b + j" | "i < length x - bs - 1" "8 \<le> b + j" by linarith
  then show ?thesis
  proof cases
    case 1
    then have "\<not> s + 8 * i + j < 8 * length x" using s by linarith
    then show ?thesis using nth 1 by simp
  next
    case 2
    have ks: "s + 8 * i + j = 8 * (i + bs) + (b + j)" by (simp add: s(1))
    have "i + bs < length x" using 2(1) by linarith
    then have "8 * Suc (i + bs) \<le> 8 * length x" by (intro mult_le_mono2) simp
    then have le: "s + 8 * i + j < 8 * length x" using 2(2) unfolding ks by simp
    have dm: "(s + 8 * i + j) div 8 = i + bs" "(s + 8 * i + j) mod 8 = b + j"
      unfolding ks by (rule octet_div_mod; use 2(2) in simp)+
    have "i = length x - bs - 1 \<Longrightarrow> length x - 1 = i + bs" using bs by linarith
    then show ?thesis unfolding dm using nth 2 le assms(4) by (auto simp: bit_simps)
  next
    case 3
    then have "\<not> s + 8 * i + j < 8 * length x" using s bs by linarith
    moreover have "\<not> bit (x ! q) (b + j)" for q using byte_bit_less[of "x ! q" "b + j"] 3(2) by auto
    ultimately show ?thesis using nth 3 bs assms(4) by (auto simp: bit_simps)
  next
    case 4
    have ks: "s + 8 * i + j = 8 * (i + bs + 1) + (b + j - 8)" using 4(2) by (simp add: s(1))
    have "8 * Suc (i + bs + 1) \<le> 8 * length x" using 4(1) by (intro mult_le_mono2) simp
    then have le: "s + 8 * i + j < 8 * length x" using s(2) assms(4) unfolding ks by simp
    have dm: "(s + 8 * i + j) div 8 = i + bs + 1" "(s + 8 * i + j) mod 8 = b + j - 8"
      unfolding ks by (rule octet_div_mod; use 4(2) s(2) assms(4) in linarith)+
    have sh: "j - (8 - b) = b + j - 8" "8 - b \<le> j" using 4(2) s(2) by linarith+
    have "\<not> bit (x ! q) (b + j)" for q using byte_bit_less[of "x ! q" "b + j"] 4(2) by auto
    then show ?thesis unfolding dm using nth 4 le sh assms(4) by (auto simp: bit_simps)
  qed
qed

lemma bn_val_shift_left: "bn_val (bn_shift_left x s) = bn_val x * 2 ^ s mod 256 ^ length x"
proof -
  consider "s = 0" | "8 * length x \<le> s" | "0 < s" "s < 8 * length x" by linarith
  then show ?thesis
  proof cases
    case 1
    then show ?thesis using bn_val_less[of x] by (simp add: bn_shift_left_def Let_def)
  next
    case 2
    have "(256 :: nat) ^ length x dvd 2 ^ s" using 2 by (simp add: pow_256 le_imp_power_dvd)
    then have "bn_val x * 2 ^ s mod 256 ^ length x = 0" by (simp add: mod_eq_0_iff_dvd)
    moreover have "length x = 0 \<or> s \<noteq> 0" using 2 by linarith
    ultimately show ?thesis using 2 by (auto simp: bn_shift_left_def Let_def)
  next
    case 3
    let ?v = "take_bit (8 * length x) (push_bit s (bn_val x))"
    have v: "?v = bn_val x * 2 ^ s mod 256 ^ length x"
      by (simp add: take_bit_eq_mod push_bit_eq_mult pow_256)
    have "bn_val (bn_shift_left x s) = ?v"
    proof (rule bn_val_eqI)
      show "?v < 256 ^ length (bn_shift_left x s)" unfolding v by simp
      fix k
      assume "k < 8 * length (bn_shift_left x s)"
      then have k: "k < 8 * length x" by simp
      have "k div 8 < length x" using k by (simp add: less_mult_imp_div_less mult.commute)
      then have "bit (bn_shift_left x s ! (k div 8)) (k mod 8)
          \<longleftrightarrow> s \<le> k \<and> bit (x ! ((k - s) div 8)) ((k - s) mod 8)"
        using bit_shift_left[OF 3, of "k div 8" "k mod 8"] by simp
      then show "bit (bn_shift_left x s ! (k div 8)) (k mod 8) = bit ?v k"
        using k by (auto simp: bit_simps bit_bn_val)
    qed
    then show ?thesis by (simp only: v)
  qed
qed

lemma bn_val_shift_right: "bn_val (bn_shift_right x s) = bn_val x div 2 ^ s"
proof -
  consider "s = 0" | "8 * length x \<le> s" | "0 < s" "s < 8 * length x" by linarith
  then show ?thesis
  proof cases
    case 1
    then show ?thesis by (simp add: bn_shift_right_def Let_def)
  next
    case 2
    have "bn_val x < 2 ^ s"
      using bn_val_less[of x] power_increasing[OF 2, of "2 :: nat"] unfolding pow_256 by linarith
    moreover have "length x = 0 \<or> s \<noteq> 0" using 2 by linarith
    ultimately show ?thesis using 2 by (auto simp: bn_shift_right_def Let_def)
  next
    case 3
    let ?v = "drop_bit s (bn_val x)"
    have v: "?v = bn_val x div 2 ^ s" by (simp add: drop_bit_eq_div)
    have "bn_val (bn_shift_right x s) = ?v"
    proof (rule bn_val_eqI)
      show "?v < 256 ^ length (bn_shift_right x s)"
        unfolding v using le_less_trans[OF div_le_dividend bn_val_less[of x]] by simp
      fix k
      assume "k < 8 * length (bn_shift_right x s)"
      then have "k div 8 < length x" by (simp add: less_mult_imp_div_less mult.commute)
      moreover have "s + 8 * (k div 8) + k mod 8 = s + k" by simp
      ultimately have "bit (bn_shift_right x s ! (k div 8)) (k mod 8)
          \<longleftrightarrow> s + k < 8 * length x \<and> bit (x ! ((s + k) div 8)) ((s + k) mod 8)"
        using bit_shift_right[OF 3, of "k div 8" "k mod 8"] by (simp only: mod_less_divisor zero_less_numeral)
      then show "bit (bn_shift_right x s ! (k div 8)) (k mod 8) = bit ?v k"
        by (auto simp: bit_simps bit_bn_val)
    qed
    then show ?thesis by (simp only: v)
  qed
qed

subsection \<open>Division\<close>

text \<open>
  The loop of \<open>operator/=\<close> with \<open>shift + 1\<close> rounds to go: the remainder, the shifted divisor and
  the quotient under construction.
\<close>

fun bn_div_loop :: "nat \<Rightarrow> bytes \<Rightarrow> bytes \<Rightarrow> bytes \<Rightarrow> bytes \<times> bytes" where
  "bn_div_loop 0 num d q = (q, num)"
| "bn_div_loop (Suc shift) num d q =
     (let (num, q) = (if bn_ge num d
                      then (bn_sub num d, q[shift div 8 := q ! (shift div 8) OR push_bit (shift mod 8) 1])
                      else (num, q))
      in bn_div_loop shift num (bn_shift_right d 1) q)"

definition bn_div :: "bytes \<Rightarrow> bytes \<Rightarrow> fault + bytes" where
  "bn_div a b =
     (let num_bits = bn_bits a; div_bits = bn_bits b; q = replicate (length a) 0
      in if div_bits = 0 then Inl Logic_Error
         else if div_bits > num_bits then Inr q
         else let shift = num_bits - div_bits
              in Inr (fst (bn_div_loop (shift + 1) a (bn_shift_left b shift) q)))"

lemma bn_val_set_bit:
  assumes "s < 8 * length q" and "2 ^ Suc s dvd bn_val q"
  shows "bn_val (q[s div 8 := q ! (s div 8) OR push_bit (s mod 8) 1]) = bn_val q + 2 ^ s"
proof -
  let ?q = "q[s div 8 := q ! (s div 8) OR push_bit (s mod 8) (1 :: u8)]"
  have sd: "s div 8 < length q" using assms(1) by (simp add: less_mult_imp_div_less mult.commute)
  have bits: "bit (bn_val ?q) k \<longleftrightarrow> bit (bn_val q) k \<or> k = s" for k
  proof (cases "k div 8 = s div 8")
    case True
    have "k = s \<longleftrightarrow> k mod 8 = s mod 8" using True by (metis div_mult_mod_eq)
    then show ?thesis using True sd assms(1) by (auto simp: bit_bn_val bit_simps)
  next
    case False
    then show ?thesis by (auto simp: bit_bn_val)
  qed
  have "\<not> bit (bn_val q) s" using assms(2) by (auto simp: bit_iff_odd elim!: dvdE)
  then have "bn_val q AND push_bit s 1 = 0" by (intro bit_eqI) (auto simp: bit_simps)
  then have "bn_val q + push_bit s 1 = bn_val q OR push_bit s 1" by (rule disjunctive_add_eq_or)
  moreover have "bn_val ?q = bn_val q OR push_bit s 1"
  proof (rule bit_eqI)
    fix k
    have "bit (bn_val q OR push_bit s 1) k \<longleftrightarrow> bit (bn_val q) k \<or> k = s" by (auto simp: bit_simps)
    then show "bit (bn_val ?q) k = bit (bn_val q OR push_bit s 1) k" using bits[of k] by (simp only:)
  qed
  ultimately show ?thesis by (simp add: push_bit_eq_mult)
qed

lemma bn_div_loop_correct:
  assumes "length num = n" and "length d = n" and "length q = n" and "c \<le> 8 * n" and "0 < D"
    and "bn_val num < D * 2 ^ c" and "0 < c \<Longrightarrow> bn_val d = D * 2 ^ (c - 1)" and "2 ^ c dvd bn_val q"
  shows "bn_val (fst (bn_div_loop c num d q)) = bn_val q + bn_val num div D
    \<and> bn_val (snd (bn_div_loop c num d q)) = bn_val num mod D"
  using assms
proof (induction c arbitrary: num d q)
  case 0
  then show ?case by simp
next
  case (Suc c)
  let ?d = "bn_shift_right d 1"
  have d: "bn_val d = D * 2 ^ c" using Suc.prems(7) by simp
  have d': "0 < c \<Longrightarrow> bn_val ?d = D * 2 ^ (c - 1)"
    using d by (cases c) (simp_all add: bn_val_shift_right)
  have cn: "c \<le> 8 * n" "c < 8 * length q" using Suc.prems(3,4) by simp_all
  show ?case
  proof (cases "bn_ge num d")
    case False
    have "bn_val num < D * 2 ^ c" using False Suc.prems(1,2) d by (simp add: bn_ge_iff)
    moreover have "2 ^ c dvd bn_val q" using Suc.prems(8) by (metis dvd_trans le_imp_power_dvd lessI less_imp_le)
    ultimately show ?thesis
      using Suc.IH[of num ?d q] Suc.prems d' cn False by simp
  next
    case True
    let ?num = "bn_sub num d" and ?q = "q[c div 8 := q ! (c div 8) OR push_bit (c mod 8) 1]"
    have ge: "D * 2 ^ c \<le> bn_val num" using True Suc.prems(1,2) d by (simp add: bn_ge_iff)
    have less: "bn_val num < 256 ^ n" "bn_val d < 256 ^ n"
      using bn_val_less[of num] bn_val_less[of d] Suc.prems(1,2) by simp_all
    have "bn_val ?num = (bn_val num - bn_val d + 256 ^ n) mod 256 ^ n"
      using Suc.prems(1,2) ge less(2) d by (simp add: bn_val_sub)
    then have num: "bn_val ?num = bn_val num - D * 2 ^ c"
      using less(1) d by simp
    have q: "bn_val ?q = bn_val q + 2 ^ c" by (rule bn_val_set_bit[OF cn(2) Suc.prems(8)])
    have "2 ^ c dvd bn_val ?q"
      unfolding q using Suc.prems(8) by (metis dvd_add dvd_refl dvd_trans le_imp_power_dvd lessI less_imp_le)
    moreover have "bn_val ?num < D * 2 ^ c" using num Suc.prems(6) by simp
    ultimately have IH: "bn_val (fst (bn_div_loop c ?num ?d ?q)) = bn_val ?q + bn_val ?num div D"
      "bn_val (snd (bn_div_loop c ?num ?d ?q)) = bn_val ?num mod D"
      using Suc.IH[of ?num ?d ?q] Suc.prems d' cn by simp_all
    have split: "bn_val num = bn_val ?num + 2 ^ c * D" using num ge by (simp add: mult.commute)
    then have "bn_val num div D = bn_val ?num div D + 2 ^ c" "bn_val num mod D = bn_val ?num mod D"
      using Suc.prems(5) by simp_all
    then show ?thesis using IH q True by simp
  qed
qed

text \<open>
  C3. The in place division gives the quotient of the values; the remainder it leaves behind is
  the remainder, and dividing by zero throws. The shifts multiply and divide by powers of two.
\<close>

theorem big_number_division:
  assumes "length x = n" and "length y = n"
  shows "bn_val (bn_shift_left x s) = bn_val x * 2 ^ s mod 256 ^ n
    \<and> bn_val (bn_shift_right x s) = bn_val x div 2 ^ s
    \<and> (case bn_div x y of Inl e \<Rightarrow> e = Logic_Error \<and> bn_val y = 0
        | Inr q \<Rightarrow> bn_val y > 0 \<and> bn_val q = bn_val x div bn_val y)"
proof (intro conjI)
  show "bn_val (bn_shift_left x s) = bn_val x * 2 ^ s mod 256 ^ n"
    and "bn_val (bn_shift_right x s) = bn_val x div 2 ^ s"
    using assms by (simp_all add: bn_val_shift_left bn_val_shift_right)
  let ?X = "bn_val x" and ?Y = "bn_val y" and ?nb = "bn_bits x" and ?db = "bn_bits y"
  show "case bn_div x y of Inl e \<Rightarrow> e = Logic_Error \<and> bn_val y = 0
        | Inr q \<Rightarrow> bn_val y > 0 \<and> bn_val q = bn_val x div bn_val y"
  proof (cases "?Y = 0")
    case True
    then show ?thesis using bn_bits_zero[of y] by (simp add: bn_div_def Let_def)
  next
    case False
    then have Y: "2 ^ (?db - 1) \<le> ?Y" "?Y < 2 ^ ?db" and db: "0 < ?db"
      using bn_bits_bounds[of y] bn_bits_zero[of y] by simp_all
    have X: "?X < 2 ^ ?nb" using bn_bits_bounds[of x] bn_bits_zero[of x] by (cases "?X = 0") simp_all
    show ?thesis
    proof (cases "?nb < ?db")
      case True
      have "(2 :: nat) ^ ?nb \<le> 2 ^ (?db - 1)" using True by (intro power_increasing) auto
      then have "?X < ?Y" using X Y(1) by linarith
      then show ?thesis using True False db by (simp add: bn_div_def Let_def)
    next
      case nb: False
      define s where "s = ?nb - ?db"
      have X0: "0 < ?X" using nb db bn_bits_zero[of x] by (cases "?X = 0") simp_all
      have "2 ^ (?nb - 1) < (2 :: nat) ^ (8 * n)"
        using conjunct1[OF bn_bits_bounds[OF X0]] bn_val_less[of x] unfolding pow_256 assms(1)
        by (rule le_less_trans)
      then have nbn: "?nb \<le> 8 * n" using power_strict_increasing_iff[of "2 :: nat" "?nb - 1" "8 * n"] by simp
      have pow: "(2 :: nat) ^ ?nb = 2 ^ ?db * 2 ^ s" "(2 :: nat) ^ ?db = 2 * 2 ^ (?db - 1)"
        using nb db by (simp_all add: s_def flip: power_add power_Suc)
      have "?Y * 2 ^ s < 2 ^ ?nb" unfolding pow(1) using Y(2) by simp
      also have "\<dots> \<le> 2 ^ (8 * n)" using nbn by (intro power_increasing) simp_all
      finally have shl: "bn_val (bn_shift_left y s) = ?Y * 2 ^ s"
        using assms(2) by (simp add: bn_val_shift_left pow_256)
      have "2 ^ ?nb \<le> ?Y * 2 ^ (s + 1)" unfolding pow using Y(1) by simp
      then have lt: "?X < ?Y * 2 ^ (s + 1)" using X by linarith
      have "bn_val (fst (bn_div_loop (s + 1) x (bn_shift_left y s) (replicate n 0))) = ?X div ?Y"
        using bn_div_loop_correct[of x n "bn_shift_left y s" "replicate n 0" "s + 1" ?Y] assms False
          lt shl nbn db nb by (simp add: s_def)
      then show ?thesis using False db nb assms(1) by (simp add: bn_div_def Let_def s_def)
    qed
  qed
qed

theorem big_number_division_witness:
  "bn_val (bn_shift_left [7, 1] 3) = bn_val [7, 1] * 2 ^ 3 mod 256 ^ 2
    \<and> bn_val (bn_shift_right [7, 1] 3) = bn_val [7, 1] div 2 ^ 3
    \<and> (case bn_div [7, 1] [5, 0] of Inl e \<Rightarrow> e = Logic_Error \<and> bn_val [5, 0] = 0
        | Inr q \<Rightarrow> bn_val [5, 0] > 0 \<and> bn_val q = bn_val [7, 1] div bn_val [5, 0])"
  by (rule big_number_division) simp_all

end
