(* ===== verification/Buffered_Decoder.thy ===== *)
theory Buffered_Decoder
  imports Bit_Converter
begin

text \<open>
  \<^verbatim>\<open>include/xul/io/codec/\<close>: the buffering base class of the message decoders
  (\<^verbatim>\<open>buffered_message_decoder.hpp\<close>), the line decoder on it
  (\<^verbatim>\<open>line_message_decoder.hpp\<close>), the data codec with the same loop
  (\<^verbatim>\<open>buffered_data_codec.hpp\<close>) and the pipe of length prefixed packets
  (\<^verbatim>\<open>message_packet_pipe.hpp\<close>). The virtual \<open>do_decode\<close> is a parameter: on the
  pending bytes it gives its return value and the messages it handed to the listener, which
  does not call back into the decoder. Sizes are below \<open>2^31\<close>. The field \<open>m_failed\<close>, which
  \<open>reset\<close> writes and nothing reads, has no counterpart.
\<close>

subsection \<open>The decoding loop\<close>

datatype 'm decoder_event = Decoder_Message 'm | Decoder_Error int

text \<open>
  \<open>decode_buffer\<close>: the number of processed bytes, or minus one after an error; the loop runs while
  bytes are left and the decoder is not aborted.
\<close>

function decode_buffer ::
    "(bytes \<Rightarrow> int \<times> 'm list) \<Rightarrow> bool \<Rightarrow> bytes \<Rightarrow> int \<times> 'm decoder_event list" where
  "decode_buffer do_decode aborted data =
     (if data = [] \<or> aborted then (0, [])
      else let (ret, ms) = do_decode data in
        if ret < 0 then (- 1, map Decoder_Message ms @ [Decoder_Error 1])
        else if ret = 0 then (0, map Decoder_Message ms)
        else let (p, es) = decode_buffer do_decode aborted (drop (nat ret) data)
             in (if p < 0 then - 1 else ret + p, map Decoder_Message ms @ es))"
  by pat_completeness auto
termination
  by (relation "measure (\<lambda>(_, _, data). length data)") auto

declare decode_buffer.simps [simp del]

subsection \<open>buffered_message_decoder\<close>

record decoder =
  dec_buffer :: bytes
  dec_position :: nat
  dec_max_buffer_size :: nat
  dec_abort :: bool

definition decoder_init :: "nat \<Rightarrow> decoder" where
  "decoder_init max_size = \<lparr>dec_buffer = [], dec_position = 0, dec_max_buffer_size = max_size, dec_abort = False\<rparr>"

definition set_max_buffer_size :: "int \<Rightarrow> decoder \<Rightarrow> decoder" where
  "set_max_buffer_size n s = (if n < 1 then s else s\<lparr>dec_max_buffer_size := nat n\<rparr>)"

definition decoder_reset :: "decoder \<Rightarrow> decoder" where
  "decoder_reset s = s\<lparr>dec_buffer := [], dec_position := 0, dec_abort := False\<rparr>"

definition decoder_abort :: "decoder \<Rightarrow> decoder" where
  "decoder_abort s = (decoder_reset s)\<lparr>dec_abort := True\<rparr>"

definition check_buffer :: "decoder \<Rightarrow> decoder" where
  "check_buffer s =
     (if dec_position s > 0 then
        (if length (dec_buffer s) \<ge> dec_position s
         then s\<lparr>dec_buffer := drop (dec_position s) (dec_buffer s), dec_position := 0\<rparr>
         else s\<lparr>dec_position := 0\<rparr>)
      else s)"

definition get_remaining_data :: "decoder \<Rightarrow> bytes option" where
  "get_remaining_data s =
     (if dec_position s \<ge> length (dec_buffer s) then None
      else Some (drop (dec_position s) (dec_buffer s)))"

text \<open>The second half of \<open>feed\<close>: decoding from the buffer.\<close>

definition feed_buffered ::
    "(bytes \<Rightarrow> int \<times> 'm list) \<Rightarrow> decoder \<Rightarrow> bool \<times> decoder \<times> 'm decoder_event list" where
  "feed_buffered do_decode s =
     (if dec_buffer s = [] then (True, s, [])
      else let (p, es) = decode_buffer do_decode (dec_abort s) (dec_buffer s) in
        if p < 0 then (True, decoder_abort s, es)
        else let s = check_buffer (s\<lparr>dec_position := dec_position s + nat p\<rparr>)
             in (dec_buffer s = [], s, es))"

definition feed ::
    "(bytes \<Rightarrow> int \<times> 'm list) \<Rightarrow> bytes \<Rightarrow> decoder \<Rightarrow> bool \<times> decoder \<times> 'm decoder_event list" where
  "feed do_decode data s0 =
     (let s = check_buffer s0 in
      if dec_buffer s = [] then
        let (p, es) = decode_buffer do_decode (dec_abort s) data in
        if p < 0 then (True, decoder_abort s, es)
        else let s = s\<lparr>dec_buffer := drop (nat p) data\<rparr>;
                 (r, s, fs) = feed_buffered do_decode s
             in (r, s, es @ fs)
      else if length (dec_buffer s) + length data > dec_max_buffer_size s then
        (True, decoder_abort s, [Decoder_Error 1])
      else feed_buffered do_decode (s\<lparr>dec_buffer := dec_buffer s @ data\<rparr>))"

fun feed_all ::
    "(bytes \<Rightarrow> int \<times> 'm list) \<Rightarrow> bytes list \<Rightarrow> decoder \<Rightarrow> decoder \<times> 'm decoder_event list" where
  "feed_all do_decode [] s = (s, [])"
| "feed_all do_decode (c # cs) s =
     (let (_, s, es) = feed do_decode c s; (s, fs) = feed_all do_decode cs s in (s, es @ fs))"

subsection \<open>The interface of an incremental decoder\<close>

text \<open>
  What the base class needs of \<open>do_decode\<close>: it takes no more than it was given, hands out nothing
  when it takes nothing, and a decision made on the pending bytes does not change when more
  bytes arrive behind them.
\<close>

locale incremental_decoder =
  fixes do_decode :: "bytes \<Rightarrow> int \<times> 'm list"
  assumes ret_le: "fst (do_decode d) \<le> int (length d)"
    and ret_zero: "fst (do_decode d) = 0 \<Longrightarrow> snd (do_decode d) = []"
    and ret_stable: "fst (do_decode d) \<noteq> 0 \<Longrightarrow> do_decode (d @ tail) = do_decode d"
begin

lemma step_cases:
  obtains (error) ret ms where "do_decode d = (ret, ms)" "ret < 0"
  | (wait) "do_decode d = (0, [])"
  | (taken) n ms where "do_decode d = (int n, ms)" "0 < n" "n \<le> length d"
proof -
  obtain ret ms where r: "do_decode d = (ret, ms)" by (cases "do_decode d")
  consider "ret < 0" | "ret = 0" | "ret > 0" by linarith
  then show ?thesis
  proof cases
    case 3
    then show ?thesis using r ret_le[of d] that(3)[of "nat ret" ms] by auto
  qed (use r that(1,2) ret_zero[of d] in auto)
qed

lemma decode_buffer_bounds:
  "- 1 \<le> fst (decode_buffer do_decode a d) \<and> fst (decode_buffer do_decode a d) \<le> int (length d)"
proof (induction d rule: length_induct)
  case (1 d)
  show ?case
  proof (cases "d = [] \<or> a")
    case True
    then show ?thesis by (subst (1 2) decode_buffer.simps) auto
  next
    case False
    show ?thesis
    proof (cases rule: step_cases[of d])
      case error
      then show ?thesis using False by (subst (1 2) decode_buffer.simps) simp
    next
      case wait
      then show ?thesis using False by (subst (1 2) decode_buffer.simps) simp
    next
      case (taken n ms)
      then have "length (drop n d) < length d" using False by simp
      then have "- 1 \<le> fst (decode_buffer do_decode a (drop n d))
          \<and> fst (decode_buffer do_decode a (drop n d)) \<le> int (length (drop n d))" using 1 by blast
      then show ?thesis
        using taken False by (subst (1 2) decode_buffer.simps) (auto split: prod.splits)
    qed
  qed
qed

text \<open>What is left after decoding is undecided: nothing more is taken from it.\<close>

lemma decode_buffer_rest:
  assumes "decode_buffer do_decode False d = (int p, es)"
  shows "decode_buffer do_decode False (drop p d) = (0, [])"
  using assms
proof (induction d arbitrary: p es rule: length_induct)
  case (1 d)
  show ?case
  proof (cases "d = []")
    case True
    then show ?thesis by (simp add: decode_buffer.simps)
  next
    case False
    show ?thesis
    proof (cases rule: step_cases[of d])
      case error
      then show ?thesis using 1(2) False by (subst (asm) decode_buffer.simps) simp
    next
      case wait
      have e: "decode_buffer do_decode False d = (0, [])"
        using wait False by (subst decode_buffer.simps) simp
      then show ?thesis using 1(2) by simp
    next
      case (taken n ms)
      obtain q fs where q: "decode_buffer do_decode False (drop n d) = (q, fs)" by fastforce
      have "q = int (p - n)" "n \<le> p"
        using 1(2) taken q False by (subst (asm) decode_buffer.simps; auto split: if_splits)+
      moreover have "length (drop n d) < length d" using taken False by simp
      ultimately have "decode_buffer do_decode False (drop (p - n) (drop n d)) = (0, [])"
        using 1(1) q by blast
      then show ?thesis using \<open>n \<le> p\<close> by simp
    qed
  qed
qed

text \<open>Decoding a longer input goes through the decoding of its front.\<close>

lemma decode_buffer_append:
  assumes "decode_buffer do_decode False d = (int p, es)"
  shows "decode_buffer do_decode False (d @ tail) =
    (let (q, fs) = decode_buffer do_decode False (drop p d @ tail)
     in (if q < 0 then - 1 else int p + q, es @ fs))"
  using assms
proof (induction d arbitrary: p es rule: length_induct)
  case (1 d)
  have triv: ?case if "p = 0" "es = []"
    using that decode_buffer_bounds[of False "d @ tail"]
    by (cases "decode_buffer do_decode False (d @ tail)") auto
  show ?case
  proof (cases "d = []")
    case True
    then have "p = 0" "es = []" using 1(2) by (simp_all add: decode_buffer.simps)
    then show ?thesis by (rule triv)
  next
    case False
    show ?thesis
    proof (cases rule: step_cases[of d])
      case error
      then show ?thesis using 1(2) False by (subst (asm) decode_buffer.simps) simp
    next
      case wait
      then have "p = 0" "es = []" using 1(2) False by (subst (asm) decode_buffer.simps; simp)+
      then show ?thesis by (rule triv)
    next
      case (taken n ms)
      obtain q fs where q: "decode_buffer do_decode False (drop n d) = (q, fs)" by fastforce
      have p: "q = int (p - n)" "n \<le> p" "es = map Decoder_Message ms @ fs"
        using 1(2) taken q False by (subst (asm) decode_buffer.simps; auto split: if_splits)+
      have len: "length (drop n d) < length d" using taken False by simp
      have tail: "do_decode (d @ tail) = (int n, ms)" using ret_stable[of d tail] taken by simp
      have "drop n (d @ tail) = drop n d @ tail" using taken by simp
      moreover have "decode_buffer do_decode False (drop n d @ tail) =
          (let (q', fs') = decode_buffer do_decode False (drop (p - n) (drop n d) @ tail)
           in (if q' < 0 then - 1 else int (p - n) + q', fs @ fs'))"
        using 1(1) len q p(1) by blast
      ultimately show ?thesis
        using tail taken(2) False p
        by (subst decode_buffer.simps) (auto simp: Let_def split: prod.splits)
    qed
  qed
qed

text \<open>Between two feeds: nothing pending is decodable, everything processed is gone.\<close>

definition idle :: "decoder \<Rightarrow> bool" where
  "idle s = (dec_position s = 0 \<and> \<not> dec_abort s
     \<and> decode_buffer do_decode False (dec_buffer s) = (0, []))"

lemma idle_init: "idle (decoder_init n)"
  by (simp add: idle_def decoder_init_def decode_buffer.simps)

lemma feed_buffered_idle: "idle s \<Longrightarrow> feed_buffered do_decode s = (dec_buffer s = [], s, [])"
  by (cases s) (simp add: feed_buffered_def idle_def check_buffer_def)

lemma decode_buffer_error: "fst (decode_buffer do_decode a d) < 0 \<Longrightarrow>
    Decoder_Error 1 \<in> set (snd (decode_buffer do_decode a d))"
proof (induction d rule: length_induct)
  case (1 d)
  show ?case
  proof (cases "d = [] \<or> a")
    case True
    then show ?thesis using 1(2) by (subst (asm) decode_buffer.simps) auto
  next
    case False
    show ?thesis
    proof (cases rule: step_cases[of d])
      case error
      then show ?thesis using False by (subst decode_buffer.simps) simp
    next
      case wait
      then show ?thesis using 1(2) False by (subst (asm) decode_buffer.simps) simp
    next
      case (taken n ms)
      have "fst (decode_buffer do_decode a (drop n d)) < 0"
        using 1(2) taken False by (subst (asm) decode_buffer.simps) (auto split: prod.splits if_splits)
      moreover have "length (drop n d) < length d" using taken False by simp
      ultimately have "Decoder_Error 1 \<in> set (snd (decode_buffer do_decode a (drop n d)))" using 1(1) by blast
      then show ?thesis using taken False by (subst decode_buffer.simps) (auto split: prod.splits)
    qed
  qed
qed

lemma feed_idle:
  assumes "idle s" and "feed do_decode c s = (r, s', es)" and "\<And>e. Decoder_Error e \<notin> set es"
  shows "idle s' \<and> (\<exists>p. decode_buffer do_decode False (dec_buffer s @ c) = (int p, es)
    \<and> p \<le> length (dec_buffer s @ c) \<and> dec_buffer s' = drop p (dec_buffer s @ c))"
proof -
  let ?d = "dec_buffer s @ c"
  obtain q fs where q: "decode_buffer do_decode False ?d = (q, fs)" by fastforce
  have s: "dec_position s = 0" "\<not> dec_abort s" and chk: "check_buffer s = s"
    using assms(1) by (simp_all add: idle_def check_buffer_def)
  have err: "Decoder_Error 1 \<in> set fs" if "q < 0" using decode_buffer_error[of False ?d] q that by simp
  have len: "q \<le> int (length ?d)" using decode_buffer_bounds[of False ?d] q by simp
  have rest: "decode_buffer do_decode False (drop (nat q) ?d) = (0, [])" if "0 \<le> q"
    using decode_buffer_rest[of ?d "nat q" fs] q that by simp
  show ?thesis
  proof (cases "dec_buffer s = []")
    case True
    let ?s = "s\<lparr>dec_buffer := drop (nat q) c\<rparr>"
    have q0: "0 \<le> q"
      using err assms(2,3) True q s chk by (auto simp: feed_def not_less split: if_splits)
    have "idle ?s" using rest[OF q0] s True by (simp add: idle_def)
    then have "feed do_decode c s = (drop (nat q) c = [], ?s, fs)"
      using q0 True q s chk feed_buffered_idle[of ?s] by (simp add: feed_def)
    then show ?thesis
      using assms(2) \<open>idle ?s\<close> q q0 len True by (auto intro!: exI[of _ "nat q"])
  next
    case False
    have fits: "\<not> length (dec_buffer s) + length c > dec_max_buffer_size s"
      using assms(2) assms(3)[of 1] False chk by (auto simp: feed_def)
    let ?s = "s\<lparr>dec_buffer := ?d\<rparr>"
    have f: "feed do_decode c s = feed_buffered do_decode ?s"
      using fits False chk by (simp add: feed_def)
    have q0: "0 \<le> q"
      using err assms(2,3) f False q s by (auto simp: feed_buffered_def not_less split: if_splits)
    let ?s' = "s\<lparr>dec_buffer := drop (nat q) ?d, dec_position := 0\<rparr>"
    have c: "check_buffer (?s\<lparr>dec_position := nat q\<rparr>) = ?s'"
      using len q0 s by (cases "nat q = 0") (simp_all add: check_buffer_def)
    have "feed do_decode c s = (dec_buffer ?s' = [], ?s', fs)"
      unfolding f using q0 False q s c by (simp add: feed_buffered_def)
    moreover have "idle ?s'" using rest[OF q0] s by (simp add: idle_def)
    ultimately show ?thesis using assms(2) q q0 len by (auto intro!: exI[of _ "nat q"])
  qed
qed

lemma feed_all_idle:
  assumes "idle s" and "feed_all do_decode cs s = (s', es)" and "\<And>e. Decoder_Error e \<notin> set es"
  shows "\<exists>p. decode_buffer do_decode False (dec_buffer s @ concat cs) = (int p, es)
    \<and> dec_buffer s' = drop p (dec_buffer s @ concat cs)"
  using assms
proof (induction cs arbitrary: s es)
  case Nil
  then show ?case by (auto simp: idle_def intro!: exI[of _ 0])
next
  case (Cons c cs)
  obtain r s1 es1 where f: "feed do_decode c s = (r, s1, es1)" by (cases "feed do_decode c s") auto
  obtain s2 es2 where g: "feed_all do_decode cs s1 = (s2, es2)" by fastforce
  have e: "es = es1 @ es2" "s2 = s'" using Cons.prems(2) f g by auto
  obtain p where p: "decode_buffer do_decode False (dec_buffer s @ c) = (int p, es1)"
      "p \<le> length (dec_buffer s @ c)" "dec_buffer s1 = drop p (dec_buffer s @ c)" "idle s1"
    using feed_idle[OF Cons.prems(1) f] Cons.prems(3) e(1) by auto
  obtain q where q: "decode_buffer do_decode False (dec_buffer s1 @ concat cs) = (int q, es2)"
      "dec_buffer s' = drop q (dec_buffer s1 @ concat cs)"
    using Cons.IH[OF p(4)] g Cons.prems(3) e by auto
  have "decode_buffer do_decode False ((dec_buffer s @ c) @ concat cs) = (int (p + q), es1 @ es2)"
    using decode_buffer_append[OF p(1), of "concat cs"] q(1) p(3) by simp
  moreover have "dec_buffer s' = drop (p + q) ((dec_buffer s @ c) @ concat cs)"
    unfolding q(2) p(3) by (rule drop_append_drop[OF p(2)])
  ultimately show ?case using e by (auto intro!: exI[of _ "p + q"])
qed

end

subsection \<open>line_message_decoder\<close>

definition line_do_decode :: "bytes \<Rightarrow> bytes \<Rightarrow> int \<times> bytes list" where
  "line_do_decode delimiter data =
     (case search delimiter data of
        None \<Rightarrow> (0, [])
      | Some pos \<Rightarrow>
          if pos = length data then (0, [])
          else let offset = pos + length delimiter in (int offset, [take offset data]))"

lemma line_do_decode_nonempty:
  assumes "delimiter \<noteq> []"
  shows "line_do_decode delimiter d = (case search delimiter d of None \<Rightarrow> (0, [])
    | Some pos \<Rightarrow> (int (pos + length delimiter), [take (pos + length delimiter) d]))"
proof (cases "search delimiter d")
  case (Some pos)
  have "0 < length delimiter" using assms by simp
  then have "pos \<noteq> length d" using search_bound[OF Some] by linarith
  then show ?thesis using Some by (simp add: line_do_decode_def)
qed (simp add: line_do_decode_def)

lemma incremental_line: "delimiter \<noteq> [] \<Longrightarrow> incremental_decoder (line_do_decode delimiter)"
proof
  fix d tail :: bytes
  assume ne: "delimiter \<noteq> []"
  note dec = line_do_decode_nonempty[OF ne]
  obtain n where n: "length delimiter = Suc n" using ne by (cases delimiter) auto
  show "fst (line_do_decode delimiter d) \<le> int (length d)"
    using search_bound[of delimiter d] by (auto simp: dec split: option.splits)
  show "fst (line_do_decode delimiter d) = 0 \<Longrightarrow> snd (line_do_decode delimiter d) = []"
    by (simp add: dec n split: option.splits)
  show "fst (line_do_decode delimiter d) \<noteq> 0 \<Longrightarrow>
      line_do_decode delimiter (d @ tail) = line_do_decode delimiter d"
    using search_append[of delimiter d] search_bound[of delimiter d]
    by (auto simp: dec split: option.splits)
qed

interpretation crlf: incremental_decoder "line_do_decode [13, 10]"
  by (rule incremental_line) simp

text \<open>The reference: cut a text behind every first delimiter.\<close>

definition is_line :: "bytes \<Rightarrow> bytes \<Rightarrow> bool" where
  "is_line delimiter l \<longleftrightarrow> length delimiter \<le> length l
     \<and> search delimiter l = Some (length l - length delimiter)"

lemma is_line_front:
  assumes "delimiter \<noteq> []" and "search delimiter d = Some pos"
  shows "is_line delimiter (take (pos + length delimiter) d)"
proof -
  let ?n = "pos + length delimiter" and ?k = "length delimiter"
  have n: "?n \<le> length d" and at: "take ?k (drop pos d) = delimiter" using search_bound[OF assms(2)] by simp_all
  have "take ?k (drop pos (take ?n d)) = delimiter" using at by (simp add: drop_take)
  then have "search delimiter (take ?n d) \<noteq> None" using search_None[of delimiter "take ?n d" pos] by blast
  then obtain q where q: "search delimiter (take ?n d) = Some q" by blast
  have "search delimiter (take ?n d @ drop ?n d) = Some q" using search_append[OF q] .
  then have "q = pos" using assms(2) by simp
  then show ?thesis using q n by (simp add: is_line_def)
qed

lemma decode_lines:
  assumes ne: "delimiter \<noteq> []" and dec: "decode_buffer (line_do_decode delimiter) False d = (int p, es)"
  shows "\<exists>ls. es = map Decoder_Message ls \<and> list_all (is_line delimiter) ls \<and> concat ls = take p d
    \<and> search delimiter (drop p d) = None"
  using dec
proof (induction d arbitrary: p es rule: length_induct)
  case (1 d)
  show ?case
  proof (cases "search delimiter d")
    case None
    then have "p = 0 \<and> es = []"
      using 1(2) by (subst (asm) decode_buffer.simps) (auto simp: line_do_decode_nonempty[OF ne] split: if_splits)
    then show ?thesis using None by simp
  next
    case (Some pos)
    let ?n = "pos + length delimiter"
    have n: "?n \<le> length d" and "0 < ?n" using search_bound[OF Some] ne by simp_all
    then have d: "d \<noteq> []" by auto
    obtain q fs where q: "decode_buffer (line_do_decode delimiter) False (drop ?n d) = (q, fs)" by fastforce
    have "decode_buffer (line_do_decode delimiter) False d =
        (if q < 0 then - 1 else int ?n + q, Decoder_Message (take ?n d) # fs)"
      using d q ne
      by (subst decode_buffer.simps)
         (auto simp: line_do_decode_nonempty[OF ne] Some nat_int_add simp del: of_nat_add)
    then have q': "q = int (p - ?n)" "?n \<le> p" "es = Decoder_Message (take ?n d) # fs"
      using 1(2) by (auto split: if_splits)
    moreover have "length (drop ?n d) < length d" using \<open>0 < ?n\<close> n d by simp
    ultimately obtain ls where ls: "fs = map Decoder_Message ls" "list_all (is_line delimiter) ls"
        "concat ls = take (p - ?n) (drop ?n d)" "search delimiter (drop (p - ?n) (drop ?n d)) = None"
      using 1(1) q by blast
    have "take p d = take ?n d @ take (p - ?n) (drop ?n d)"
      using take_add[of ?n "p - ?n" d] q'(2) by simp
    then show ?thesis using ls q' is_line_front[OF ne Some] by (intro exI[of _ "take ?n d # ls"]) auto
  qed
qed

text \<open>
  C25. Line decoding does not depend on how the stream was cut into chunks: whatever the chunks, as
  long as no error was reported, the listener got lines each of which ends at its first
  delimiter, their bytes followed by the bytes still buffered are the bytes fed, and no complete
  line is left in the buffer.
\<close>

theorem line_decoder_fragmentation:
  assumes "delimiter \<noteq> []"
    and "feed_all (line_do_decode delimiter) chunks (decoder_init max_size) = (s, events)"
    and "\<And>e. Decoder_Error e \<notin> set events"
  shows "\<exists>ls. events = map Decoder_Message ls \<and> list_all (is_line delimiter) ls
    \<and> concat ls @ dec_buffer s = concat chunks \<and> search delimiter (dec_buffer s) = None
    \<and> snd (decode_buffer (line_do_decode delimiter) False (concat chunks)) = events"
proof -
  note inc = incremental_line[OF assms(1)]
  have "dec_buffer (decoder_init max_size) = []" by (simp add: decoder_init_def)
  then obtain p where p: "decode_buffer (line_do_decode delimiter) False (concat chunks) = (int p, events)"
      "dec_buffer s = drop p (concat chunks)"
    using incremental_decoder.feed_all_idle[OF inc incremental_decoder.idle_init[OF inc] assms(2,3)] by auto
  then show ?thesis using decode_lines[OF assms(1) p(1)] by auto
qed

theorem line_decoder_fragmentation_witness:
  "\<exists>ls. snd (feed_all (line_do_decode [13, 10]) [[65, 13], [10, 66], [13, 10, 67]] (decoder_init 8192))
      = map Decoder_Message ls \<and> list_all (is_line [13, 10]) ls
    \<and> concat ls @ [67] = [65, 13, 10, 66, 13, 10, 67]"
  using line_decoder_fragmentation[of "[13, 10]" "[[65, 13], [10, 66], [13, 10, 67]]" 8192]
  by (simp add: decoder_init_def feed_def feed_buffered_def check_buffer_def decode_buffer.simps line_do_decode_def)

end
