(* ===== verification/Message_Pipe.thy ===== *)
theory Message_Pipe
  imports Buffered_Decoder
begin

text \<open>
  \<^verbatim>\<open>include/xul/io/codec/message_packet_pipe.hpp\<close>: the pipe of length prefixed
  packets, and \<^verbatim>\<open>include/xul/io/codec/buffered_data_codec.hpp\<close>, the codec with the
  loop of the buffered decoder but neither an abort flag nor error reports. The position and the
  limit of the pipe are \<open>int\<close>s and the message length is a \<open>uint32_t\<close>; their sums and comparisons are
  written out with the conversions of C++ (\<open>c_int\<close>, \<open>mod 2^32\<close>, \<open>mod 2^64\<close> for \<open>size_t\<close>), and
  the properties of the pipe hold for streams below \<open>2^31\<close> bytes, where none of them wraps.
\<close>

subsection \<open>message_packet_pipe\<close>

record pipe =
  pipe_buffer :: bytes
  pipe_position :: int
  pipe_max_message_length :: int
  pipe_big_endian :: bool

definition pipe_init :: "bool \<Rightarrow> int \<Rightarrow> pipe" where
  "pipe_init big max_size = \<lparr>pipe_buffer = [], pipe_position = 0,
     pipe_max_message_length = max_size, pipe_big_endian = big\<rparr>"

definition pipe_set_big_endian :: "bool \<Rightarrow> pipe \<Rightarrow> pipe" where
  "pipe_set_big_endian big s = s\<lparr>pipe_big_endian := big\<rparr>"

definition pipe_check_buffer :: "pipe \<Rightarrow> pipe" where
  "pipe_check_buffer s =
     (if pipe_position s > 0 then
        (if int (length (pipe_buffer s)) \<ge> pipe_position s
         then s\<lparr>pipe_buffer := drop (nat (pipe_position s)) (pipe_buffer s), pipe_position := 0\<rparr>
         else s\<lparr>pipe_position := 0\<rparr>)
      else s)"

definition pipe_feed :: "bytes \<Rightarrow> pipe \<Rightarrow> pipe" where
  "pipe_feed data s0 = (let s = pipe_check_buffer s0 in s\<lparr>pipe_buffer := pipe_buffer s @ data\<rparr>)"

text \<open>
  \<open>read\<close>: what it stores through the pointer \<open>size\<close>, if it does, the bytes behind the returned
  pointer (\<open>None\<close> for \<open>NULL\<close>) and the new state.
\<close>

definition pipe_read :: "pipe \<Rightarrow> nat option \<times> bytes option \<times> pipe" where
  "pipe_read s =
     (let data_pos = c_int (pipe_position s + 4) in
      if data_pos mod 2 ^ 64 > int (length (pipe_buffer s)) then (None, None, s)
      else let msg_len = unat (to_dword (pipe_big_endian s) (take 4 (drop (nat (pipe_position s)) (pipe_buffer s)))) in
        if int msg_len > pipe_max_message_length s mod 2 ^ 32 then (None, None, s)
        else if msg_len = 0 then (Some 0, None, s)
        else if (data_pos + int msg_len) mod 2 ^ 32 > int (length (pipe_buffer s)) then (None, None, s)
        else (Some msg_len, Some (take msg_len (drop (nat data_pos) (pipe_buffer s))),
              s\<lparr>pipe_position := c_int (pipe_position s + (4 + int msg_len))\<rparr>))"

definition pipe_available :: "pipe \<Rightarrow> int" where
  "pipe_available s = c_int (c_int (int (length (pipe_buffer s))) - pipe_position s)"

subsection \<open>Runs of the pipe\<close>

datatype pipe_call = Pipe_Feed bytes | Pipe_Read

fun pipe_fed :: "pipe_call list \<Rightarrow> bytes" where
  "pipe_fed [] = []"
| "pipe_fed (Pipe_Feed d # ops) = d @ pipe_fed ops"
| "pipe_fed (Pipe_Read # ops) = pipe_fed ops"

fun pipe_run :: "pipe_call list \<Rightarrow> pipe \<Rightarrow> bytes list \<times> pipe" where
  "pipe_run [] s = ([], s)"
| "pipe_run (Pipe_Feed d # ops) s = pipe_run ops (pipe_feed d s)"
| "pipe_run (Pipe_Read # ops) s =
     (let (_, r, s) = pipe_read s; (ms, s) = pipe_run ops s
      in (case r of None \<Rightarrow> ms | Some m \<Rightarrow> m # ms, s))"

definition packet :: "bool \<Rightarrow> bytes \<Rightarrow> bytes" where
  "packet big m = from_dword big (of_nat (length m)) @ m"

definition pipe_pending :: "pipe \<Rightarrow> bytes" where
  "pipe_pending s = drop (nat (pipe_position s)) (pipe_buffer s)"

text \<open>The position is in the buffer, and the buffer and the limit are in the range of \<open>int\<close>.\<close>

definition pipe_wf :: "pipe \<Rightarrow> bool" where
  "pipe_wf s \<longleftrightarrow> 0 \<le> pipe_position s \<and> pipe_position s \<le> int (length (pipe_buffer s))
     \<and> length (pipe_buffer s) < 2 ^ 31 \<and> 0 \<le> pipe_max_message_length s \<and> pipe_max_message_length s < 2 ^ 31"

lemma pipe_feed_pending:
  assumes "pipe_wf s" and "length (pipe_pending s) + length d < 2 ^ 31"
  shows "pipe_pending (pipe_feed d s) = pipe_pending s @ d" and "pipe_wf (pipe_feed d s)"
    and "pipe_max_message_length (pipe_feed d s) = pipe_max_message_length s"
    and "pipe_big_endian (pipe_feed d s) = pipe_big_endian s"
proof -
  have "pipe_position s = 0 \<Longrightarrow> pipe_pending s = pipe_buffer s" by (simp add: pipe_pending_def)
  then show "pipe_pending (pipe_feed d s) = pipe_pending s @ d" "pipe_wf (pipe_feed d s)"
      "pipe_max_message_length (pipe_feed d s) = pipe_max_message_length s"
      "pipe_big_endian (pipe_feed d s) = pipe_big_endian s"
    using assms by (auto simp: pipe_feed_def pipe_check_buffer_def pipe_pending_def pipe_wf_def Let_def)
qed

text \<open>\<open>read\<close> as a function of the pending bytes.\<close>

lemma pipe_read_pending:
  assumes "pipe_wf s"
  shows "pipe_read s =
    (let d = pipe_pending s; n = unat (to_dword (pipe_big_endian s) (take 4 d)) in
     if length d < 4 \<or> int n > pipe_max_message_length s then (None, None, s)
     else if n = 0 then (Some 0, None, s)
     else if length d < 4 + n then (None, None, s)
     else (Some n, Some (take n (drop 4 d)), s\<lparr>pipe_position := pipe_position s + (4 + int n)\<rparr>))"
proof -
  let ?p = "pipe_position s" and ?b = "pipe_buffer s" and ?d = "pipe_pending s"
  let ?n = "unat (to_dword (pipe_big_endian s) (take 4 ?d))"
  have p: "0 \<le> ?p" "?p \<le> int (length ?b)" "length ?b < 2 ^ 31"
      "0 \<le> pipe_max_message_length s" "pipe_max_message_length s < 2 ^ 31" using assms by (auto simp: pipe_wf_def)
  have len: "int (length ?d) = int (length ?b) - ?p" using p by (simp add: pipe_pending_def)
  have m: "pipe_max_message_length s mod 2 ^ 32 = pipe_max_message_length s" using p by simp
  show ?thesis
  proof (cases "length ?d < 4")
    case True
    have "int (length ?b) < c_int (?p + 4) mod 2 ^ 64"
    proof (cases "?p + 4 < 2 ^ 31")
      case True
      then show ?thesis using \<open>length ?d < 4\<close> len p by (simp add: c_int_id)
    next
      case False
      have c: "c_int (?p + 4) = ?p + 4 - 2 ^ 32" using False p by (intro c_int_shift) simp_all
      have "(?p + 4 - 2 ^ 32) mod 2 ^ 64 = (?p + 4 - 2 ^ 32 + 2 ^ 64) mod 2 ^ 64" by (simp only: mod_add_self2)
      also have "\<dots> = ?p + 4 - 2 ^ 32 + 2 ^ 64" using p by (intro mod_pos_pos_trivial) simp_all
      finally show ?thesis unfolding c using p by simp
    qed
    then show ?thesis using True by (simp add: pipe_read_def Let_def)
  next
    case False
    then have dp: "c_int (?p + 4) = ?p + 4" "(?p + 4) mod 2 ^ 64 = ?p + 4" using len p by (simp_all add: c_int_id)
    have dr: "drop (nat (?p + 4)) ?b = drop 4 ?d" using p by (simp add: pipe_pending_def nat_add_distrib ac_simps)
    define n where "n = ?n"
    have 1: "(?p + 4 + int n) mod 2 ^ 32 = ?p + 4 + int n" if "int n \<le> pipe_max_message_length s"
      using that p len False by simp
    have 2: "c_int (?p + (4 + int n)) = ?p + (4 + int n)" if "?p + (4 + int n) \<le> int (length ?b)"
      using that p by (simp add: c_int_id)
    have 3: "int (length ?b) < ?p + 4 + int n \<longleftrightarrow> length ?d < 4 + n" "\<not> int (length ?b) < ?p + 4"
      using len False by linarith+
    have "pipe_read s = (if int n > pipe_max_message_length s then (None, None, s) else if n = 0 then (Some 0, None, s)
        else if (?p + 4 + int n) mod 2 ^ 32 > int (length ?b) then (None, None, s)
        else (Some n, Some (take n (drop (nat (?p + 4)) ?b)), s\<lparr>pipe_position := c_int (?p + (4 + int n))\<rparr>))"
      unfolding pipe_read_def Let_def dp m pipe_pending_def[symmetric] n_def[symmetric] using 3(2) by simp
    also have "\<dots> = (if int n > pipe_max_message_length s then (None, None, s) else if n = 0 then (Some 0, None, s)
        else if length ?d < 4 + n then (None, None, s)
        else (Some n, Some (take n (drop 4 ?d)), s\<lparr>pipe_position := ?p + (4 + int n)\<rparr>))"
      using 1 2 3(1) dr by auto
    finally show ?thesis unfolding Let_def n_def[symmetric] using False by simp
  qed
qed

lemma packet_parts:
  assumes "length m < 2 ^ 31"
  shows "length (packet big m) = 4 + length m" and "take 4 (packet big m @ r) = from_dword big (of_nat (length m))"
    and "drop 4 (packet big m @ r) = m @ r" and "unat (of_nat (length m) :: u32) = length m"
  using assms by (simp_all add: packet_def unat_of_nat)

definition deliverable :: "int \<Rightarrow> bytes \<Rightarrow> bool" where
  "deliverable max_size m \<longleftrightarrow> m \<noteq> [] \<and> int (length m) \<le> max_size \<and> length m < 2 ^ 31"

lemma pipe_read_packets:
  assumes wf: "pipe_wf s" and ms: "list_all (deliverable (pipe_max_message_length s)) ms"
    and stream: "pipe_pending s @ rest = concat (map (packet (pipe_big_endian s)) ms)"
    and read: "pipe_read s = (sz, r, s')"
  shows "(r = None \<and> s' = s \<and> (rest = [] \<longrightarrow> ms = []))
    \<or> (\<exists>m ms'. r = Some m \<and> ms = m # ms' \<and> pipe_wf s'
        \<and> pipe_max_message_length s' = pipe_max_message_length s \<and> pipe_big_endian s' = pipe_big_endian s
        \<and> pipe_pending s' @ rest = concat (map (packet (pipe_big_endian s)) ms'))"
proof (cases ms)
  case Nil
  then show ?thesis using read stream by (simp add: pipe_read_pending[OF wf])
next
  case (Cons m ms')
  let ?d = "pipe_pending s" and ?big = "pipe_big_endian s"
  have m: "m \<noteq> []" "int (length m) \<le> pipe_max_message_length s" "length m < 2 ^ 31"
    using ms Cons by (auto simp: deliverable_def)
  have st: "?d @ rest = packet ?big m @ concat (map (packet ?big) ms')" using stream Cons by simp
  have len: "length ?d + length rest \<ge> 4 + length m"
    using arg_cong[OF st, of length] packet_parts(1)[OF m(3), of ?big] by simp
  show ?thesis
  proof (cases "length ?d < 4")
    case True
    then show ?thesis using read len by (auto simp: pipe_read_pending[OF wf])
  next
    case False
    then have "take 4 ?d = take 4 (?d @ rest)" by simp
    also have "\<dots> = from_dword ?big (of_nat (length m))" unfolding st by (rule packet_parts(2)[OF m(3)])
    finally have t: "to_dword ?big (take 4 ?d) = of_nat (length m)"
      using to_from_dword[of ?big "of_nat (length m)" "[]"] by simp
    have n: "unat (to_dword ?big (take 4 ?d)) = length m" unfolding t by (rule packet_parts(4)[OF m(3)])
    then have u: "uint (to_dword ?big (take 4 ?d)) = int (length m)" by (metis uint_nat)
    show ?thesis
    proof (cases "length ?d < 4 + length m")
      case True
      then show ?thesis using read len m False n u by (auto simp: pipe_read_pending[OF wf] Let_def)
    next
      case enough: False
      let ?s' = "s\<lparr>pipe_position := pipe_position s + (4 + int (length m))\<rparr>"
      have d4: "drop 4 ?d @ rest = m @ concat (map (packet ?big) ms')"
        using packet_parts(3)[OF m(3), of ?big "concat (map (packet ?big) ms')"] False
        by (simp flip: st)
      have "take (length m) (drop 4 ?d) = take (length m) (drop 4 ?d @ rest)" using enough by simp
      then have tk: "take (length m) (drop 4 ?d) = m" unfolding d4 by simp
      have "drop (length m) (drop 4 ?d) @ rest = drop (length m) (drop 4 ?d @ rest)" using enough by simp
      then have dr: "pipe_pending ?s' @ rest = concat (map (packet ?big) ms')"
        unfolding d4 using wf by (simp add: pipe_pending_def pipe_wf_def nat_add_distrib ac_simps)
      have "pipe_wf ?s'" using enough wf by (auto simp: pipe_wf_def pipe_pending_def)
      then show ?thesis using read enough False m tk dr Cons n u by (auto simp: pipe_read_pending[OF wf] Let_def)
    qed
  qed
qed

lemma pipe_run_packets:
  assumes "pipe_wf s" and "list_all (deliverable (pipe_max_message_length s)) ms"
    and "pipe_pending s @ pipe_fed ops = concat (map (packet (pipe_big_endian s)) ms)"
    and "pipe_run ops s = (outs, s')" and "length (pipe_pending s) + length (pipe_fed ops) < 2 ^ 31"
  shows "\<exists>ms'. ms = outs @ ms' \<and> pipe_wf s' \<and> pipe_max_message_length s' = pipe_max_message_length s
    \<and> pipe_big_endian s' = pipe_big_endian s \<and> pipe_pending s' = concat (map (packet (pipe_big_endian s)) ms')"
  using assms
proof (induction ops arbitrary: s ms outs)
  case (Cons op ops)
  show ?case
  proof (cases op)
    case (Pipe_Feed d)
    then have "length (pipe_pending s) + length d < 2 ^ 31" using Cons.prems(5) by simp
    with Pipe_Feed show ?thesis
      using Cons.IH[of "pipe_feed d s" ms outs] Cons.prems pipe_feed_pending[OF Cons.prems(1), of d] by simp
  next
    case Pipe_Read
    obtain sz r s1 where r: "pipe_read s = (sz, r, s1)" by (cases "pipe_read s")
    obtain o1 s2 where run: "pipe_run ops s1 = (o1, s2)" by fastforce
    have "pipe_pending s @ pipe_fed ops = concat (map (packet (pipe_big_endian s)) ms)"
      using Cons.prems(3) Pipe_Read by simp
    from pipe_read_packets[OF Cons.prems(1,2) this r] show ?thesis
    proof
      assume "r = None \<and> s1 = s \<and> (pipe_fed ops = [] \<longrightarrow> ms = [])"
      then show ?thesis using Cons.IH[of s ms outs] Cons.prems Pipe_Read r by (auto split: prod.splits)
    next
      assume "\<exists>m ms'. r = Some m \<and> ms = m # ms' \<and> pipe_wf s1
        \<and> pipe_max_message_length s1 = pipe_max_message_length s \<and> pipe_big_endian s1 = pipe_big_endian s
        \<and> pipe_pending s1 @ pipe_fed ops = concat (map (packet (pipe_big_endian s)) ms')"
      then obtain m ms' where m: "r = Some m" "ms = m # ms'" "pipe_wf s1"
          "pipe_max_message_length s1 = pipe_max_message_length s" "pipe_big_endian s1 = pipe_big_endian s"
          "pipe_pending s1 @ pipe_fed ops = concat (map (packet (pipe_big_endian s)) ms')" by blast
      have "outs = m # o1" "s2 = s'" using Cons.prems(4) Pipe_Read r run m(1) by auto
      have "length (pipe_pending s1 @ pipe_fed ops) \<le> length (pipe_pending s @ pipe_fed ops)"
        unfolding m(6) using Cons.prems(3) Pipe_Read m(2) by simp
      then have "length (pipe_pending s1) + length (pipe_fed ops) < 2 ^ 31" using Cons.prems(5) Pipe_Read by simp
      then show ?thesis using Cons.IH[of s1 ms' o1] Cons.prems(2) m run \<open>outs = m # o1\<close> \<open>s2 = s'\<close> by auto
    qed
  qed
qed auto

text \<open>
  C5. Whatever way a stream of length prefixed messages (none of them empty or over the limit, the
  limit below \<open>2^31\<close> and the whole stream shorter than \<open>2^31\<close> bytes) is cut into feeds and whenever the pipe is read in between, the messages read are a prefix of the
  messages sent, unchanged and in order; and once everything was fed, \<open>read\<close> returns \<open>NULL\<close> only
  when every message has been delivered.
\<close>

theorem pipe_delivers_in_order:
  assumes "list_all (deliverable max_size) ms" and "0 \<le> max_size" and "max_size < 2 ^ 31"
    and "length (pipe_fed ops) < 2 ^ 31"
    and "pipe_fed ops = concat (map (packet big) ms)"
    and "pipe_run ops (pipe_init big max_size) = (outs, s)"
  shows "(\<exists>ms'. ms = outs @ ms' \<and> pipe_available s = int (length (concat (map (packet big) ms'))))
    \<and> (fst (snd (pipe_read s)) = None \<longrightarrow> outs = ms)"
proof -
  have "pipe_wf (pipe_init big max_size)" "pipe_pending (pipe_init big max_size) = []"
    using assms(2,3) by (simp_all add: pipe_init_def pipe_wf_def pipe_pending_def)
  then obtain ms' where ms': "ms = outs @ ms'" "pipe_wf s" "pipe_max_message_length s = max_size"
      "pipe_big_endian s = big" "pipe_pending s = concat (map (packet big) ms')"
    using pipe_run_packets[of "pipe_init big max_size" ms ops outs s] assms by (auto simp: pipe_init_def)
  have "pipe_available s = int (length (pipe_pending s))"
    using ms'(2) by (auto simp: pipe_available_def pipe_pending_def pipe_wf_def c_int_id of_nat_diff nat_le_iff)
  moreover have "outs = ms" if null: "fst (snd (pipe_read s)) = None"
  proof -
    obtain sz s1 where "pipe_read s = (sz, None, s1)" using null by (cases "pipe_read s") auto
    then show ?thesis using pipe_read_packets[of s ms' "[]" sz None s1] ms' assms(1) by auto
  qed
  ultimately show ?thesis using ms' by auto
qed

theorem pipe_delivers_in_order_witness:
  "fst (pipe_run [Pipe_Feed [0, 0, 0], Pipe_Read, Pipe_Feed [2, 7, 8, 0], Pipe_Read, Pipe_Feed [0, 0, 1, 9], Pipe_Read]
     (pipe_init True 100)) = [[7, 8], [9]]"
proof -
  let ?ops = "[Pipe_Feed [0, 0, 0], Pipe_Read, Pipe_Feed [2, 7, 8, 0], Pipe_Read, Pipe_Feed [0, 0, 1, 9], Pipe_Read]"
  obtain outs s where run: "pipe_run ?ops (pipe_init True 100) = (outs, s)" by fastforce
  have fed: "pipe_fed ?ops = concat (map (packet True) [[7, 8], [9]])" by code_simp
  have ok: "list_all (deliverable 100) [[7, 8], [9 :: u8]]" by (simp add: deliverable_def)
  have "snd (snd (pipe_read (snd (pipe_run ?ops (pipe_init True 100))))) = snd (pipe_run ?ops (pipe_init True 100))
    \<and> fst (snd (pipe_read (snd (pipe_run ?ops (pipe_init True 100))))) = None" by code_simp
  then have "outs = [[7, 8], [9]]" using pipe_delivers_in_order[OF ok _ _ _ fed run] run by simp
  then show ?thesis using run by simp
qed

lemma pipe_stalled:
  assumes "pipe_wf s" and "4 \<le> length (pipe_pending s)"
    and "n = unat (to_dword (pipe_big_endian s) (take 4 (pipe_pending s)))"
    and "n = 0 \<or> pipe_max_message_length s < int n" and "length (pipe_pending s) + length (pipe_fed ops) < 2 ^ 31"
  shows "fst (pipe_run ops s) = []"
  using assms
proof (induction ops arbitrary: s)
  case (Cons op ops)
  show ?case
  proof (cases op)
    case (Pipe_Feed d)
    then have "length (pipe_pending s) + length d < 2 ^ 31" using Cons.prems(5) by simp
    with Pipe_Feed show ?thesis
      using Cons.IH[of "pipe_feed d s"] Cons.prems pipe_feed_pending[OF Cons.prems(1), of d] by simp
  next
    case Pipe_Read
    have "0 \<le> pipe_max_message_length s" using Cons.prems(1) by (simp add: pipe_wf_def)
    then have "pipe_read s = (if n = 0 then Some 0 else None, None, s)"
      using Cons.prems(2,4) unfolding pipe_read_pending[OF Cons.prems(1)] Let_def Cons.prems(3)[symmetric]
      by (cases "n = 0") simp_all
    then show ?thesis using Cons.IH[of s] Cons.prems Pipe_Read by (auto split: prod.splits)
  qed
qed simp

text \<open>
  A packet with the length zero or a length over the limit is never skipped: \<open>read\<close> does not
  move behind it, and from then on nothing is delivered, whatever is fed (below \<open>2^31\<close> bytes).
\<close>

theorem pipe_stalls_on_empty_packet:
  assumes "length m < 2 ^ 31" and "m = [] \<or> max_size < int (length m)" and "0 \<le> max_size" and "max_size < 2 ^ 31"
    and "length (packet big m) + length (pipe_fed ops) < 2 ^ 31"
  shows "fst (pipe_run (Pipe_Feed (packet big m) # ops) (pipe_init big max_size)) = []"
proof -
  let ?s = "pipe_feed (packet big m) (pipe_init big max_size)"
  have wf: "pipe_wf (pipe_init big max_size)" using assms(3,4) by (simp add: pipe_init_def pipe_wf_def)
  have room: "length (pipe_pending (pipe_init big max_size)) + length (packet big m) < 2 ^ 31"
    using assms(5) by (simp add: pipe_init_def pipe_pending_def)
  have s: "pipe_pending ?s = packet big m" "pipe_wf ?s" "pipe_max_message_length ?s = max_size" "pipe_big_endian ?s = big"
    using pipe_feed_pending[OF wf room] by (simp_all add: pipe_init_def pipe_pending_def)
  have "unat (to_dword big (take 4 (packet big m))) = length m"
    using packet_parts(2)[OF assms(1), of big "[]"] packet_parts(4)[OF assms(1)] to_from_dword[of big "of_nat (length m)" "[]"] by simp
  then have n: "length m = unat (to_dword (pipe_big_endian ?s) (take 4 (pipe_pending ?s)))" unfolding s by simp
  have "4 \<le> length (pipe_pending ?s)" unfolding s packet_parts(1)[OF assms(1)] by simp
  moreover have "length m = 0 \<or> pipe_max_message_length ?s < int (length m)" using assms(2) s(3) by auto
  moreover have "length (pipe_pending ?s) + length (pipe_fed ops) < 2 ^ 31" unfolding s by (rule assms(5))
  ultimately have "fst (pipe_run ops ?s) = []" by (rule pipe_stalled[OF s(2) _ n])
  then show ?thesis by simp
qed

theorem pipe_stalls_on_empty_packet_witness:
  "fst (pipe_run [Pipe_Feed [0, 0, 0, 0], Pipe_Read, Pipe_Feed [1, 0, 0, 0, 65], Pipe_Read] (pipe_init False 100)) = []"
  using pipe_stalls_on_empty_packet[of "[]" 100 False "[Pipe_Read, Pipe_Feed [1, 0, 0, 0, 65], Pipe_Read]"]
  by (simp add: packet_def from_dword_def Let_def del: pipe_run.simps)

subsection \<open>buffered_data_codec\<close>

record codec =
  codec_buffer :: bytes
  codec_position :: nat
  codec_max_buffer_size :: nat

definition codec_init :: "nat \<Rightarrow> codec" where
  "codec_init max_size = \<lparr>codec_buffer = [], codec_position = 0, codec_max_buffer_size = max_size\<rparr>"

definition codec_set_max_buffer_size :: "int \<Rightarrow> codec \<Rightarrow> codec" where
  "codec_set_max_buffer_size n s = (if n < 1 then s else s\<lparr>codec_max_buffer_size := nat n\<rparr>)"

definition codec_reset :: "codec \<Rightarrow> codec" where
  "codec_reset s = s\<lparr>codec_buffer := [], codec_position := 0\<rparr>"

definition codec_get_remaining_data :: "codec \<Rightarrow> bytes option" where
  "codec_get_remaining_data s =
     (if codec_position s \<ge> length (codec_buffer s) then None
      else Some (drop (codec_position s) (codec_buffer s)))"

function codec_decode_buffer :: "(bytes \<Rightarrow> int \<times> 'm list) \<Rightarrow> bytes \<Rightarrow> int \<times> 'm list" where
  "codec_decode_buffer decode_once data =
     (if data = [] then (0, [])
      else let (ret, ms) = decode_once data in
        if ret < 0 then (- 1, ms)
        else if ret = 0 then (0, ms)
        else let (p, ns) = codec_decode_buffer decode_once (drop (nat ret) data)
             in (if p < 0 then - 1 else ret + p, ms @ ns))"
  by pat_completeness auto
termination
  by (relation "measure (\<lambda>(_, data). length data)") auto

declare codec_decode_buffer.simps [simp del]

definition codec_check_buffer :: "codec \<Rightarrow> codec" where
  "codec_check_buffer s =
     (if codec_position s > 0 then
        (if length (codec_buffer s) \<ge> codec_position s
         then s\<lparr>codec_buffer := drop (codec_position s) (codec_buffer s), codec_position := 0\<rparr>
         else s\<lparr>codec_position := 0\<rparr>)
      else s)"

text \<open>\<open>feed\<close> returns an \<open>int\<close>: its \<open>bool\<close> returns are one and zero, minus one is the overflow.\<close>

definition codec_feed_buffered :: "(bytes \<Rightarrow> int \<times> 'm list) \<Rightarrow> codec \<Rightarrow> int \<times> codec \<times> 'm list" where
  "codec_feed_buffered decode_once s =
     (if codec_buffer s = [] then (1, s, [])
      else let (p, ms) = codec_decode_buffer decode_once (codec_buffer s) in
        if p < 0 then (1, s, ms)
        else let s = codec_check_buffer (s\<lparr>codec_position := codec_position s + nat p\<rparr>)
             in (if codec_buffer s = [] then 1 else 0, s, ms))"

definition codec_feed :: "(bytes \<Rightarrow> int \<times> 'm list) \<Rightarrow> bytes \<Rightarrow> codec \<Rightarrow> int \<times> codec \<times> 'm list" where
  "codec_feed decode_once data s0 =
     (let s = codec_check_buffer s0 in
      if codec_buffer s = [] then
        let (p, ms) = codec_decode_buffer decode_once data in
        if p < 0 then (1, s, ms)
        else let s = s\<lparr>codec_buffer := drop (nat p) data\<rparr>;
                 (r, s, ns) = codec_feed_buffered decode_once s
             in (r, s, ms @ ns)
      else if length (codec_buffer s) + length data > codec_max_buffer_size s then (- 1, s, [])
      else codec_feed_buffered decode_once (s\<lparr>codec_buffer := codec_buffer s @ data\<rparr>))"

subsection \<open>The codec refines the decoder\<close>

definition codec_of :: "decoder \<Rightarrow> codec" where
  "codec_of s = \<lparr>codec_buffer = dec_buffer s, codec_position = dec_position s,
     codec_max_buffer_size = dec_max_buffer_size s\<rparr>"

lemma codec_decode_buffer_events:
  "decode_buffer f False data = (case codec_decode_buffer f data of (p, ms) \<Rightarrow>
     (p, map Decoder_Message ms @ (if p < 0 then [Decoder_Error 1] else [])))"
proof (induction data rule: length_induct)
  case (1 data)
  show ?case
  proof (cases "data = []")
    case False
    obtain ret ms where f: "f data = (ret, ms)" by fastforce
    have "length (drop (nat ret) data) < length data" if "0 < ret" using that False by simp
    then show ?thesis
      using 1 f False by (subst decode_buffer.simps, subst codec_decode_buffer.simps) (auto split: prod.splits)
  qed (simp add: decode_buffer.simps codec_decode_buffer.simps)
qed

lemma codec_of_simps [simp]:
  "codec_buffer (codec_of s) = dec_buffer s" "codec_position (codec_of s) = dec_position s"
  "codec_max_buffer_size (codec_of s) = dec_max_buffer_size s"
  "(codec_of s)\<lparr>codec_buffer := b\<rparr> = codec_of (s\<lparr>dec_buffer := b\<rparr>)"
  "(codec_of s)\<lparr>codec_position := p\<rparr> = codec_of (s\<lparr>dec_position := p\<rparr>)"
  "codec_check_buffer (codec_of s) = codec_of (check_buffer s)"
  by (auto simp: codec_of_def codec_check_buffer_def check_buffer_def)

lemma codec_feed_buffered_refines:
  assumes "\<not> dec_abort s" and "feed_buffered f s = (r, s', es)" and "Decoder_Error 1 \<notin> set es"
  shows "\<exists>ms. codec_feed_buffered f (codec_of s) = (if r then 1 else 0, codec_of s', ms) \<and> es = map Decoder_Message ms"
  using assms
  by (auto simp: feed_buffered_def codec_feed_buffered_def codec_decode_buffer_events split: prod.splits if_splits)

text \<open>
  C22. The data codec and the message decoder do the same with the same decoding step, as long as
  the decoder reports no error: same messages, same buffer and position, and the result of
  \<open>feed\<close> as a number.
\<close>

theorem codec_refines_decoder:
  assumes "\<not> dec_abort s" and "feed f data s = (r, s', es)" and "Decoder_Error 1 \<notin> set es"
  shows "\<exists>ms. codec_feed f data (codec_of s) = (if r then 1 else 0, codec_of s', ms) \<and> es = map Decoder_Message ms"
proof -
  have ab: "\<not> dec_abort (check_buffer s)" using assms(1) by (simp add: check_buffer_def)
  obtain p ms where p: "codec_decode_buffer f data = (p, ms)" by fastforce
  show ?thesis
  proof (cases "dec_buffer (check_buffer s) = []")
    case True
    let ?s = "(check_buffer s)\<lparr>dec_buffer := drop (nat p) data\<rparr>"
    obtain r1 s1 es1 where fb: "feed_buffered f ?s = (r1, s1, es1)" by (cases "feed_buffered f ?s")
    have *: "\<not> p < 0" "r1 = r" "s1 = s'" "es = map Decoder_Message ms @ es1"
      using assms True p ab fb by (auto simp: feed_def codec_decode_buffer_events split: if_splits)
    then obtain ns where "codec_feed_buffered f (codec_of ?s) = (if r1 then 1 else 0, codec_of s1, ns)"
        "es1 = map Decoder_Message ns"
      using codec_feed_buffered_refines[OF _ fb] ab assms(3) by auto
    then show ?thesis using True p * by (auto simp: codec_feed_def Let_def)
  next
    case False
    then show ?thesis
      using assms ab codec_feed_buffered_refines[of "(check_buffer s)\<lparr>dec_buffer := dec_buffer (check_buffer s) @ data\<rparr>" f r s' es]
      by (auto simp: feed_def codec_feed_def Let_def split: if_splits)
  qed
qed

theorem codec_refines_decoder_witness:
  "codec_feed (line_do_decode [10]) [65, 10, 66] (codec_init 100) = (0, codec_of (decoder_init 100\<lparr>dec_buffer := [66]\<rparr>), [[65, 10]])"
  using codec_refines_decoder[of "decoder_init 100" "line_do_decode [10]" "[65, 10, 66]"
      False "decoder_init 100\<lparr>dec_buffer := [66]\<rparr>" "[Decoder_Message [65, 10]]"]
  by (auto simp: codec_init_def codec_of_def decoder_init_def feed_def feed_buffered_def check_buffer_def
      decode_buffer.simps line_do_decode_def Cons_eq_map_conv)

end
