(* ===== verification/String_Tokenizer.thy ===== *)
theory String_Tokenizer
  imports Buffered_Decoder
begin

text \<open>
  \<^verbatim>\<open>include/xul/data/detail/string_tokenizer_impl.hpp\<close>: the incremental string
  tokenizer. The pair of \<open>m_temp_buffer\<close> and \<open>m_temp_size\<close>, which \<open>reset\<close> clears and nothing
  reads, has no counterpart.
\<close>

record tokenizer =
  tok_delimiter :: bytes
  tok_data :: bytes
  tok_offset :: nat
  tok_include_delimiter :: bool
  tok_max_buffer_size :: nat

definition tok_init :: tokenizer where
  "tok_init = \<lparr>tok_delimiter = [], tok_data = [], tok_offset = 0, tok_include_delimiter = False,
     tok_max_buffer_size = 10240\<rparr>"

definition tok_reset :: "tokenizer \<Rightarrow> tokenizer" where
  "tok_reset s = s\<lparr>tok_data := [], tok_offset := 0\<rparr>"

definition tok_set_max_buffer_size :: "nat \<Rightarrow> tokenizer \<Rightarrow> tokenizer" where
  "tok_set_max_buffer_size n s =
     (if n < 1024 \<or> n > 4 * 1024 * 1024 then s else s\<lparr>tok_max_buffer_size := n\<rparr>)"

definition tok_set_include_delimiter :: "bool \<Rightarrow> tokenizer \<Rightarrow> tokenizer" where
  "tok_set_include_delimiter includes s = s\<lparr>tok_include_delimiter := includes\<rparr>"

definition tok_set_delimiter :: "bytes \<Rightarrow> tokenizer \<Rightarrow> tokenizer" where
  "tok_set_delimiter d s = s\<lparr>tok_delimiter := d\<rparr>"

definition tok_feed :: "bytes \<Rightarrow> tokenizer \<Rightarrow> tokenizer" where
  "tok_feed data s = s\<lparr>tok_data := tok_data s @ data\<rparr>"

definition next_token :: "tokenizer \<Rightarrow> bytes option \<times> tokenizer" where
  "next_token s =
     (if tok_data s = [] \<or> tok_offset s \<ge> length (tok_data s) then (None, s)
      else let data = drop (tok_offset s) (tok_data s) in
        case search (tok_delimiter s) data of
          None \<Rightarrow> (None, s)
        | Some token_len \<Rightarrow>
            if token_len = length data then (None, s)
            else if tok_include_delimiter s
              then (Some (take (token_len + length (tok_delimiter s)) data),
                    s\<lparr>tok_offset := tok_offset s + token_len + length (tok_delimiter s)\<rparr>)
              else (Some (take token_len data), s\<lparr>tok_offset := tok_offset s + token_len\<rparr>))"

definition get_remains :: "tokenizer \<Rightarrow> bytes option" where
  "get_remains s =
     (if tok_data s = [] \<or> tok_offset s \<ge> length (tok_data s) then None
      else Some (drop (tok_offset s) (tok_data s)))"

datatype tok_call = Tok_Feed bytes | Tok_Next

fun tok_fed :: "tok_call list \<Rightarrow> bytes" where
  "tok_fed [] = []"
| "tok_fed (Tok_Feed d # cs) = d @ tok_fed cs"
| "tok_fed (Tok_Next # cs) = tok_fed cs"

fun tok_run :: "tok_call list \<Rightarrow> tokenizer \<Rightarrow> bytes list \<times> tokenizer" where
  "tok_run [] s = ([], s)"
| "tok_run (Tok_Feed d # cs) s = tok_run cs (tok_feed d s)"
| "tok_run (Tok_Next # cs) s =
     (let (t, s) = next_token s; (ts, s) = tok_run cs s in (case t of None \<Rightarrow> ts | Some x \<Rightarrow> x # ts, s))"

definition tok_ok :: "tokenizer \<Rightarrow> bool" where
  "tok_ok s \<longleftrightarrow> tok_offset s \<le> length (tok_data s) \<and> tok_delimiter s \<noteq> []"

lemma next_token_included:
  assumes "tok_ok s" and "tok_include_delimiter s" and "next_token s = (t, s')"
  shows "tok_ok s' \<and> tok_include_delimiter s' \<and> tok_delimiter s' = tok_delimiter s \<and> tok_data s' = tok_data s
    \<and> (case t of None \<Rightarrow> s' = s \<and> search (tok_delimiter s) (drop (tok_offset s) (tok_data s)) = None
       | Some x \<Rightarrow> is_line (tok_delimiter s) x
           \<and> drop (tok_offset s) (tok_data s) = x @ drop (tok_offset s') (tok_data s))"
proof (cases "search (tok_delimiter s) (drop (tok_offset s) (tok_data s))")
  case None
  then show ?thesis using assms by (auto simp: next_token_def Let_def split: if_splits)
next
  case (Some n)
  let ?d = "drop (tok_offset s) (tok_data s)" and ?k = "length (tok_delimiter s)"
  have ne: "tok_delimiter s \<noteq> []" using assms(1) by (simp add: tok_ok_def)
  then have k: "0 < ?k" by simp
  have n: "n + ?k \<le> length ?d" using search_bound[OF Some] by simp
  have "n \<noteq> length ?d" "?d \<noteq> []" using n k by auto
  then have r: "next_token s = (Some (take (n + ?k) ?d), s\<lparr>tok_offset := tok_offset s + n + ?k\<rparr>)"
    using Some assms(2) by (auto simp: next_token_def Let_def)
  have "is_line (tok_delimiter s) (take (n + ?k) ?d)" by (rule is_line_front[OF ne Some])
  moreover have "?d = take (n + ?k) ?d @ drop (tok_offset s + n + ?k) (tok_data s)"
    using append_take_drop_id[of "n + ?k" ?d] by (simp add: ac_simps)
  ultimately show ?thesis using r n assms by (auto simp: tok_ok_def)
qed

lemma tok_run_included:
  assumes "tok_ok s" and "tok_include_delimiter s" and "tok_run cs s = (ts, s')"
  shows "list_all (is_line (tok_delimiter s)) ts \<and> tok_ok s' \<and> tok_include_delimiter s'
    \<and> tok_delimiter s' = tok_delimiter s
    \<and> concat ts @ drop (tok_offset s') (tok_data s') = drop (tok_offset s) (tok_data s) @ tok_fed cs"
  using assms
proof (induction cs arbitrary: s ts)
  case (Cons c cs)
  show ?case
  proof (cases c)
    case (Tok_Feed d)
    have "tok_ok (tok_feed d s)" "tok_include_delimiter (tok_feed d s)"
      using Cons.prems by (auto simp: tok_ok_def tok_feed_def)
    then show ?thesis using Cons.IH[of "tok_feed d s" ts] Cons.prems Tok_Feed
      by (auto simp: tok_feed_def tok_ok_def)
  next
    case Tok_Next
    obtain t s1 where n: "next_token s = (t, s1)" by fastforce
    obtain us s2 where r: "tok_run cs s1 = (us, s2)" by fastforce
    note i = next_token_included[OF Cons.prems(1,2) n]
    have e: "s2 = s'" "ts = (case t of None \<Rightarrow> us | Some x \<Rightarrow> x # us)" using Cons.prems(3) Tok_Next n r by auto
    show ?thesis using Cons.IH[of s1 us] i e r Tok_Next by (cases t) auto
  qed
qed simp

text \<open>
  A tokenizer that includes the delimiter splits whatever it was fed at the first delimiters:
  for every interleaving of \<open>feed\<close> and \<open>next_token\<close>, each token ends at its first delimiter, the
  tokens followed by the remaining data are the data fed, and a call that gives no token means
  that no delimiter is left.
\<close>

theorem tokenizer_tokens:
  assumes "delimiter \<noteq> []"
    and "tok_run cs (tok_set_include_delimiter True (tok_set_delimiter delimiter tok_init)) = (ts, s)"
  shows "list_all (is_line delimiter) ts
    \<and> concat ts @ (case get_remains s of None \<Rightarrow> [] | Some r \<Rightarrow> r) = tok_fed cs
    \<and> (fst (next_token s) = None \<longrightarrow> search delimiter (drop (tok_offset s) (tok_data s)) = None)"
proof -
  let ?s0 = "tok_set_include_delimiter True (tok_set_delimiter delimiter tok_init)"
  have s0: "tok_ok ?s0" "tok_include_delimiter ?s0" "tok_delimiter ?s0 = delimiter" "tok_data ?s0 = []"
    using assms(1) by (simp_all add: tok_ok_def tok_set_include_delimiter_def tok_set_delimiter_def tok_init_def)
  note r = tok_run_included[OF s0(1,2) assms(2)]
  have "(case get_remains s of None \<Rightarrow> [] | Some x \<Rightarrow> x) = drop (tok_offset s) (tok_data s)"
    by (auto simp: get_remains_def)
  moreover have "search delimiter (drop (tok_offset s) (tok_data s)) = None" if "fst (next_token s) = None"
    using next_token_included[of s None "snd (next_token s)"] r that s0(3) by (cases "next_token s") auto
  ultimately show ?thesis using r s0 by simp
qed

theorem tokenizer_tokens_witness:
  "\<exists>ts. fst (tok_run [Tok_Feed [65, 10, 66], Tok_Next, Tok_Feed [10], Tok_Next]
      (tok_set_include_delimiter True (tok_set_delimiter [10] tok_init))) = ts
    \<and> list_all (is_line [10]) ts \<and> concat ts = [65, 10, 66, 10]"
proof -
  let ?run = "tok_run [Tok_Feed [65, 10, 66], Tok_Next, Tok_Feed [10], Tok_Next]
      (tok_set_include_delimiter True (tok_set_delimiter [10] tok_init))"
  obtain ts s where r: "?run = (ts, s)" by fastforce
  have "get_remains (snd ?run) = None" by code_simp
  then show ?thesis using tokenizer_tokens[OF _ r] r by auto
qed

text \<open>
  Without the delimiter in its tokens, the tokenizer stops in front of the first delimiter: the
  next call gives an empty token and leaves the state as it is, and so does every later one.
\<close>

theorem tokenizer_repeats_empty_token:
  assumes "tok_ok s" and "\<not> tok_include_delimiter s" and "next_token s = (Some t, s')"
  shows "next_token s' = (Some [], s')"
proof -
  let ?d = "drop (tok_offset s) (tok_data s)" and ?k = "length (tok_delimiter s)"
  obtain n where n: "search (tok_delimiter s) ?d = Some n" and s': "s' = s\<lparr>tok_offset := tok_offset s + n\<rparr>"
    using assms by (auto simp: next_token_def Let_def split: if_splits option.splits)
  have b: "n + ?k \<le> length ?d" "take ?k (drop n ?d) = tok_delimiter s" and k: "0 < ?k"
    using search_bound[OF n] assms(1) by (auto simp: tok_ok_def)
  have d: "drop (tok_offset s + n) (tok_data s) = drop n ?d" by (simp add: add.commute)
  have "drop n ?d \<noteq> []" using b k by auto
  then have "search (tok_delimiter s) (drop n ?d) = Some 0" using b(2) by (cases "drop n ?d") auto
  then show ?thesis using \<open>drop n ?d \<noteq> []\<close> b assms(2) k unfolding s'
    by (auto simp: next_token_def Let_def d)
qed

theorem tokenizer_repeats_empty_token_witness:
  "next_token (tok_init\<lparr>tok_delimiter := [10], tok_data := [65, 10, 66, 10], tok_offset := 1\<rparr>)
     = (Some [], tok_init\<lparr>tok_delimiter := [10], tok_data := [65, 10, 66, 10], tok_offset := 1\<rparr>)"
  using tokenizer_repeats_empty_token[of "tok_init\<lparr>tok_delimiter := [10], tok_data := [65, 10, 66, 10]\<rparr>" "[65]"]
  by (simp add: tok_ok_def tok_init_def next_token_def)

end
