(* ===== verification/Xul_Strings.thy ===== *)
theory Xul_Strings
  imports Text_Encodings "HOL-Library.Monad_Syntax"
begin

text \<open>
  \<^verbatim>\<open>include/xul/std/strings.hpp\<close>: the class \<open>strings\<close>. A \<open>basic_string<CharT>\<close> is a
  list; \<open>npos\<close> is \<open>None\<close>; the character functions are those of the C locale. The three
  \<open>split\<close> loops are one definition over the \<open>find\<close> of the loop and the width it skips; the value
  \<open>None\<close> of a loop means that it never returns. \<open>maxSplit\<close> is an \<open>int\<close>, counts stay below \<open>2^31\<close>.
\<close>

subsection \<open>Searching a string\<close>

fun find_index :: "('a \<Rightarrow> bool) \<Rightarrow> 'a list \<Rightarrow> nat option" where
  "find_index P [] = None"
| "find_index P (x # xs) = (if P x then Some 0 else map_option Suc (find_index P xs))"

definition find_if_from :: "('a \<Rightarrow> bool) \<Rightarrow> 'a list \<Rightarrow> nat \<Rightarrow> nat option" where
  "find_if_from P s start = map_option (\<lambda>i. start + i) (find_index P (drop start s))"

definition find_char :: "'a \<Rightarrow> 'a list \<Rightarrow> nat \<Rightarrow> nat option" where
  "find_char c = find_if_from (\<lambda>x. x = c)"

definition find_first_of :: "'a list \<Rightarrow> 'a list \<Rightarrow> nat \<Rightarrow> nat option" where
  "find_first_of cs = find_if_from (\<lambda>x. x \<in> set cs)"

definition find_string :: "'a list \<Rightarrow> 'a list \<Rightarrow> nat \<Rightarrow> nat option" where
  "find_string pat s start =
     (if start \<le> length s then map_option (\<lambda>i. start + i) (search pat (drop start s)) else None)"

subsection \<open>Letter case\<close>

definition to_upper_char :: "char \<Rightarrow> char" where
  "to_upper_char c = (if is_lower c then char_of (code_of c - 32) else c)"

definition make_upper :: "string \<Rightarrow> string" where
  "make_upper s = map to_upper_char s"

definition make_lower :: "string \<Rightarrow> string" where
  "make_lower s = map to_lower s"

text \<open>\<open>strncasecmp\<close> on NUL terminated data: equal letters up to the first NUL or \<open>n\<close> characters.\<close>

fun strncasecmp_eq :: "nat \<Rightarrow> string \<Rightarrow> string \<Rightarrow> bool" where
  "strncasecmp_eq 0 xs ys = True"
| "strncasecmp_eq (Suc n) (x # xs) (y # ys) =
     (to_lower x = to_lower y \<and> (code_of x = 0 \<or> strncasecmp_eq n xs ys))"
| "strncasecmp_eq (Suc n) xs ys = (xs = [] \<and> ys = [])"

definition iequals :: "string \<Rightarrow> string \<Rightarrow> bool" where
  "iequals s1 s2 = (length s1 = length s2 \<and> strncasecmp_eq (length s1) s1 s2)"

definition icompare :: "string \<Rightarrow> string \<Rightarrow> int" where
  "icompare x y =
     (let x1 = make_lower x; y1 = make_lower y
      in if x1 = y1 then 0 else if x1 > y1 then 1 else - 1)"

definition string_iequal_to :: "string \<Rightarrow> string \<Rightarrow> bool" where
  "string_iequal_to x y = (make_lower x = make_lower y)"

definition string_iless :: "string \<Rightarrow> string \<Rightarrow> bool" where
  "string_iless x y = (make_lower x < make_lower y)"

definition strings_is_upper :: "string \<Rightarrow> bool" where
  "strings_is_upper s = list_all is_upper s"

definition strings_is_digit :: "string \<Rightarrow> bool" where
  "strings_is_digit s = list_all is_digit s"

subsection \<open>Parts of a string\<close>

text \<open>\<open>substr\<close> throws \<open>out_of_range\<close> when it starts behind the end.\<close>

definition substr_from :: "'a list \<Rightarrow> nat \<Rightarrow> fault + 'a list" where
  "substr_from s start = (if start \<le> length s then Inr (drop start s) else Inl Out_Of_Range)"

definition substr :: "'a list \<Rightarrow> nat \<Rightarrow> nat \<Rightarrow> fault + 'a list" where
  "substr s start n = (if start \<le> length s then Inr (take n (drop start s)) else Inl Out_Of_Range)"

text \<open>A \<open>size_t\<close> difference wraps: from \<open>end < start\<close> on, everything behind the start is taken.\<close>

definition strings_extract :: "'a list \<Rightarrow> nat \<Rightarrow> nat option \<Rightarrow> fault + 'a list" where
  "strings_extract s start end_pos =
     (case end_pos of
        Some e \<Rightarrow> substr s start (if start \<le> e then e - start else 2 ^ 64 + e - start)
      | None \<Rightarrow> substr_from s start)"

fun join_rest :: "'a list \<Rightarrow> 'a list list \<Rightarrow> 'a list" where
  "join_rest sep [] = []"
| "join_rest sep (s # strs) = sep @ s @ join_rest sep strs"

fun join :: "'a list \<Rightarrow> 'a list list \<Rightarrow> 'a list" where
  "join sep [] = []"
| "join sep (s # strs) = s @ join_rest sep strs"

definition split_at :: "'a list \<Rightarrow> nat \<Rightarrow> fault + 'a list \<times> 'a list" where
  "split_at src pos = (if pos \<le> length src then Inr (take pos src, drop pos src) else Inl Out_Of_Range)"

subsection \<open>split\<close>

partial_function (option) split_loop ::
    "('a list \<Rightarrow> nat \<Rightarrow> nat option) \<Rightarrow> nat \<Rightarrow> int \<Rightarrow> 'a list \<Rightarrow> nat \<Rightarrow> nat \<Rightarrow> 'a list list option" where
  "split_loop find_from width max_split src start_pos parts =
     (let parts = parts + 1 in
      if max_split > 0 \<and> int parts \<ge> max_split then Some [drop start_pos src]
      else case find_from src start_pos of
          None \<Rightarrow> Some [drop start_pos src]
        | Some pos \<Rightarrow>
            Option.bind (split_loop find_from width max_split src (pos + width) parts)
              (\<lambda>rest. Some (take (pos - start_pos) (drop start_pos src) # rest)))"

definition split_char :: "'a list \<Rightarrow> 'a \<Rightarrow> int \<Rightarrow> 'a list list option" where
  "split_char src delimiter max_split =
     (if src = [] then Some [] else split_loop (find_char delimiter) 1 max_split src 0 0)"

definition split_string :: "'a list \<Rightarrow> 'a list \<Rightarrow> int \<Rightarrow> 'a list list option" where
  "split_string src delimiter max_split =
     split_loop (find_string delimiter) (length delimiter) max_split src 0 0"

definition split_of :: "'a list \<Rightarrow> 'a list \<Rightarrow> int \<Rightarrow> 'a list list option" where
  "split_of src delimiter max_split = split_loop (find_first_of delimiter) 1 max_split src 0 0"

definition split_pair_char :: "'a list \<Rightarrow> 'a \<Rightarrow> 'a list \<times> 'a list" where
  "split_pair_char src delimiter =
     (case find_char delimiter src 0 of None \<Rightarrow> (src, []) | Some pos \<Rightarrow> (take pos src, drop (pos + 1) src))"

definition split_pair_of :: "'a list \<Rightarrow> 'a list \<Rightarrow> fault + 'a list \<times> 'a list" where
  "split_pair_of src delimiter =
     (case find_first_of delimiter src 0 of
        None \<Rightarrow> Inr (src, [])
      | Some pos \<Rightarrow> if pos + length delimiter \<le> length src
          then Inr (take pos src, drop (pos + length delimiter) src) else Inl Out_Of_Range)"

definition split_pair_string :: "'a list \<Rightarrow> 'a list \<Rightarrow> 'a list \<times> 'a list" where
  "split_pair_string src delimiter =
     (case find_string delimiter src 0 of
        None \<Rightarrow> (src, []) | Some pos \<Rightarrow> (take pos src, drop (pos + length delimiter) src))"

subsection \<open>trim\<close>

text \<open>\<open>erase(0, find_first_not_of)\<close>, then \<open>erase(find_last_not_of + 1)\<close>; \<open>npos + 1\<close> is zero.\<close>

definition find_last_not_of :: "'a list \<Rightarrow> 'a list \<Rightarrow> nat option" where
  "find_last_not_of cs s =
     map_option (\<lambda>i. length s - 1 - i) (find_index (\<lambda>x. x \<notin> set cs) (rev s))"

definition trim :: "'a list \<Rightarrow> 'a list \<Rightarrow> 'a list" where
  "trim delimiter s =
     (let s = (case find_if_from (\<lambda>x. x \<notin> set delimiter) s 0 of None \<Rightarrow> [] | Some i \<Rightarrow> drop i s)
      in case find_last_not_of delimiter s of None \<Rightarrow> [] | Some i \<Rightarrow> take (i + 1) s)"

definition trim_spaces :: "string \<Rightarrow> string" where
  "trim_spaces = trim (map char_of [32, 9, 13, 10 :: nat])"

subsection \<open>The interface of a delimiter\<close>

text \<open>
  What the \<open>split\<close> loop needs of its \<open>find\<close>: a hit lies at or behind the start, the delimiter ends
  within the string, and it is not empty.
\<close>

locale delimiter_search =
  fixes find_from :: "'a list \<Rightarrow> nat \<Rightarrow> nat option" and width :: nat
  assumes find_start: "find_from s start = Some pos \<Longrightarrow> start \<le> pos"
    and find_end: "find_from s start = Some pos \<Longrightarrow> pos + width \<le> length s"
    and width_pos: "0 < width"
begin

lemma split_loop_terminates:
  "start \<le> length s \<Longrightarrow> \<exists>ps. split_loop find_from width m s start n = Some ps \<and> ps \<noteq> []
     \<and> length ps \<le> Suc (length s - start)
     \<and> (0 < m \<longrightarrow> int n < m \<longrightarrow> int n + int (length ps) \<le> m)"
proof (induction "length s - start" arbitrary: start n rule: less_induct)
  case less
  show ?case
  proof (cases "find_from s start")
    case None
    then show ?thesis by (subst split_loop.simps) auto
  next
    case (Some pos)
    show ?thesis
    proof (cases "m > 0 \<and> int (Suc n) \<ge> m")
      case True
      then show ?thesis by (subst split_loop.simps) auto
    next
      case False
      have p: "start \<le> pos" "pos + width \<le> length s" "0 < width"
        using Some find_start find_end width_pos by auto
      then have "length s - (pos + width) < length s - start" by linarith
      then obtain ps where "split_loop find_from width m s (pos + width) (Suc n) = Some ps"
          "length ps \<le> Suc (length s - (pos + width))"
          "0 < m \<longrightarrow> int (Suc n) < m \<longrightarrow> int (Suc n) + int (length ps) \<le> m"
        using less(1)[of "pos + width" "Suc n"] p by blast
      then show ?thesis using False Some p by (subst split_loop.simps) (auto simp: Let_def)
    qed
  qed
qed

end

text \<open>A delimiter that is one fixed string, found at its first occurrence.\<close>

locale string_search = delimiter_search +
  fixes sep :: "'a list"
  assumes sep_length: "length sep = width"
    and find_at: "find_from s start = Some pos \<Longrightarrow> take width (drop pos s) = sep"
    and find_first: "find_from s start = Some pos \<Longrightarrow> search sep (take (pos - start) (drop start s)) = None"
    and find_none: "find_from s start = None \<Longrightarrow> start \<le> length s \<Longrightarrow> search sep (drop start s) = None"
begin

lemma split_loop_parts:
  "start \<le> length s \<Longrightarrow> \<exists>ps p. split_loop find_from width m s start n = Some (ps @ [p])
     \<and> join sep (ps @ [p]) = drop start s \<and> list_all (\<lambda>q. search sep q = None) ps
     \<and> (m \<le> 0 \<or> int n + int (length ps) + 1 < m \<longrightarrow> search sep p = None)"
proof (induction "length s - start" arbitrary: start n rule: less_induct)
  case less
  show ?case
  proof (cases "m > 0 \<and> int (Suc n) \<ge> m")
    case True
    then show ?thesis
      by (subst split_loop.simps) (auto intro!: exI[of _ "[]"] exI[of _ "drop start s"])
  next
    case limit: False
    show ?thesis
    proof (cases "find_from s start")
      case None
      then show ?thesis using limit find_none[OF None less(2)]
        by (subst split_loop.simps) (auto intro!: exI[of _ "[]"] exI[of _ "drop start s"])
    next
      case (Some pos)
      have p: "start \<le> pos" "pos + width \<le> length s" "0 < width"
        using Some find_start find_end width_pos by auto
      then have "length s - (pos + width) < length s - start" by linarith
      then obtain ps q where ps: "split_loop find_from width m s (pos + width) (Suc n) = Some (ps @ [q])"
          "join sep (ps @ [q]) = drop (pos + width) s" "list_all (\<lambda>q. search sep q = None) ps"
          "m \<le> 0 \<or> int (Suc n) + int (length ps) + 1 < m \<longrightarrow> search sep q = None"
        using less(1)[of "pos + width" "Suc n"] p by blast
      let ?t = "take (pos - start) (drop start s)"
      have "drop start s = ?t @ drop (pos - start) (drop start s)" by (rule append_take_drop_id[symmetric])
      also have "drop (pos - start) (drop start s) = drop pos s" using p by simp
      also have "drop pos s = sep @ drop (pos + width) s"
        using append_take_drop_id[of width "drop pos s"] find_at[OF Some] by (simp add: add.commute)
      finally have "join sep (?t # ps @ [q]) = drop start s" using ps(2) by (cases ps) simp_all
      moreover have "split_loop find_from width m s start n = Some (?t # ps @ [q])"
        using limit Some ps(1) by (subst split_loop.simps) (auto simp: Let_def)
      ultimately show ?thesis using ps(3,4) find_first[OF Some]
        by (intro exI[of _ "?t # ps"] exI[of _ q]) auto
    qed
  qed
qed

end

subsection \<open>The delimiters of the three loops\<close>

lemma find_index_Some:
  "find_index P xs = Some i \<Longrightarrow> i < length xs \<and> P (xs ! i) \<and> find_index P (take i xs) = None"
proof (induction xs arbitrary: i)
  case (Cons x xs)
  then show ?case by (auto split: if_splits)
qed simp

lemma find_index_None: "find_index P xs = None \<longleftrightarrow> list_all (\<lambda>x. \<not> P x) xs"
  by (induction xs) auto

lemma search_single: "search [c] xs = find_index (\<lambda>x. x = c) xs"
  by (induction xs) auto

lemma find_string_single: "start \<le> length s \<Longrightarrow> find_string [c] s start = find_char c s start"
  by (simp add: find_string_def find_char_def find_if_from_def search_single)

lemma delimiter_search_if: "delimiter_search (find_if_from P) 1"
proof
  show "find_if_from P s start = Some pos \<Longrightarrow> start \<le> pos" for s start pos
    by (auto simp: find_if_from_def)
  show "find_if_from P s start = Some pos \<Longrightarrow> pos + 1 \<le> length s" for s start pos
    using find_index_Some[of P "drop start s"] by (fastforce simp: find_if_from_def)
qed simp

lemma search_take_None: "search pat xs = Some i \<Longrightarrow> pat \<noteq> [] \<Longrightarrow> search pat (take i xs) = None"
proof (rule ccontr)
  assume i: "search pat xs = Some i" and ne: "pat \<noteq> []" and "search pat (take i xs) \<noteq> None"
  then obtain j where j: "search pat (take i xs) = Some j" by blast
  then have "search pat (take i xs @ drop i xs) = Some j" by (rule search_append)
  then have "j = i" using i by simp
  then show False using search_bound[OF j] ne by (cases pat) auto
qed

lemma string_search_string: "delimiter \<noteq> [] \<Longrightarrow> string_search (find_string delimiter) (length delimiter) delimiter"
proof
  fix s :: "'a list" and start pos
  assume ne: "delimiter \<noteq> []"
  then show "0 < length delimiter" by simp
  show "length delimiter = length delimiter" ..
  assume some: "find_string delimiter s start = Some pos"
  then obtain i where i: "search delimiter (drop start s) = Some i" "pos = start + i" "start \<le> length s"
    by (auto simp: find_string_def split: if_splits)
  then show "start \<le> pos" "pos + length delimiter \<le> length s" "take (length delimiter) (drop pos s) = delimiter"
    using search_bound[OF i(1)] by (auto simp: add.commute)
  show "search delimiter (take (pos - start) (drop start s)) = None"
    using search_take_None[OF i(1) ne] i(2) by simp
qed (auto simp: find_string_def)

lemma string_search_char: "string_search (find_char c) 1 [c]"
proof
  fix s :: "'a list" and start pos
  show "find_char c s start = None \<Longrightarrow> start \<le> length s \<Longrightarrow> search [c] (drop start s) = None"
    by (simp add: find_char_def find_if_from_def search_single)
  assume some: "find_char c s start = Some pos"
  then obtain i where i: "find_index (\<lambda>x. x = c) (drop start s) = Some i" "pos = start + i"
    by (auto simp: find_char_def find_if_from_def)
  then show "start \<le> pos" "pos + 1 \<le> length s" "take 1 (drop pos s) = [c]"
    using find_index_Some[OF i(1)] by (auto simp: take_Suc_conv_app_nth[of 0] hd_drop_conv_nth take_Suc)
  show "search [c] (take (pos - start) (drop start s)) = None"
    using find_index_Some[OF i(1)] i(2) by (simp add: search_single)
qed simp_all

interpretation ch: string_search "find_char c" 1 "[c]" for c :: 'a
  by (rule string_search_char)

interpretation first_of: delimiter_search "find_first_of cs" 1 for cs :: "'a list"
  unfolding find_first_of_def by (rule delimiter_search_if)

subsection \<open>A reference for splitting at single characters\<close>

fun cut :: "('a \<Rightarrow> bool) \<Rightarrow> 'a list \<Rightarrow> 'a list list" where
  "cut P [] = [[]]"
| "cut P (x # xs) = (if P x then [] # cut P xs else (x # hd (cut P xs)) # tl (cut P xs))"

lemma cut_not_Nil [simp]: "cut P xs \<noteq> []"
  by (induction xs) auto

lemma cut_step: "cut P xs = (case find_index P xs of None \<Rightarrow> [xs] | Some i \<Rightarrow> take i xs # cut P (drop (Suc i) xs))"
proof (induction xs)
  case (Cons x xs)
  then show ?case by (cases "find_index P xs") auto
qed simp

lemma split_loop_cut:
  "start \<le> length s \<Longrightarrow> m \<le> 0 \<Longrightarrow> split_loop (find_if_from P) 1 m s start n = Some (cut P (drop start s))"
proof (induction "length s - start" arbitrary: start n rule: less_induct)
  case less
  show ?case
  proof (cases "find_index P (drop start s)")
    case None
    then show ?thesis using less(3)
      by (subst split_loop.simps, subst cut_step) (simp add: find_if_from_def)
  next
    case (Some i)
    have "start + i < length s" using find_index_Some[OF Some] by auto
    then have "split_loop (find_if_from P) 1 m s (start + i + 1) (n + 1) = Some (cut P (drop (start + i + 1) s))"
      by (intro less(1)) (use less(3) in auto)
    then show ?thesis using Some less(3)
      by (subst split_loop.simps, subst cut_step) (simp add: find_if_from_def Let_def add.commute)
  qed
qed

lemma split_char_cut: "m \<le> 0 \<Longrightarrow> split_char s c m = Some (if s = [] then [] else cut (\<lambda>x. x = c) s)"
  using split_loop_cut[of 0 s m "\<lambda>x. x = c" 0] by (simp add: split_char_def find_char_def)

lemma split_of_cut: "m \<le> 0 \<Longrightarrow> split_of s cs m = Some (cut (\<lambda>x. x \<in> set cs) s)"
  using split_loop_cut[of 0 s m "\<lambda>x. x \<in> set cs" 0] by (simp add: split_of_def find_first_of_def)

lemma cut_plain: "list_all (\<lambda>x. \<not> P x) xs \<Longrightarrow> cut P xs = [xs]"
  by (induction xs) auto

lemma cut_at: "list_all (\<lambda>x. \<not> P x) xs \<Longrightarrow> P c \<Longrightarrow> cut P (xs @ c # ys) = xs # cut P ys"
  by (induction xs) auto

lemma cut_join_rest:
  "list_all (\<lambda>q. c \<notin> set q) qs \<Longrightarrow> c \<notin> set p \<Longrightarrow> cut (\<lambda>x. x = c) (p @ join_rest [c] qs) = p # qs"
proof (induction qs arbitrary: p)
  case Nil
  then show ?case using cut_plain[of "\<lambda>x. x = c" p] by (auto simp: list_all_iff)
next
  case (Cons q qs)
  have "list_all (\<lambda>x. \<not> x = c) p" using Cons.prems by (auto simp: list_all_iff)
  then show ?case
    using cut_at[of "\<lambda>x. x = c" p c "q @ join_rest [c] qs"] Cons by auto
qed

lemma cut_join:
  "ps \<noteq> [] \<Longrightarrow> list_all (\<lambda>q. c \<notin> set q) ps \<Longrightarrow> cut (\<lambda>x. x = c) (join [c] ps) = ps"
  by (cases ps) (auto intro: cut_join_rest)

lemma split_char_Some:
  "\<exists>ps. split_char s c m = Some ps \<and> join [c] ps = s"
  using ch.split_loop_parts[of 0 s c m 0] by (auto simp: split_char_def)

subsection \<open>Properties\<close>

text \<open>
  C39. Splitting at a non-empty delimiter always returns; joining the parts with the delimiter
  gives the string back; no part holds the delimiter, except for the last one when the limit
  \<open>maxSplit\<close> was reached, and there are at most \<open>maxSplit\<close> parts when it is set.
\<close>

theorem split_string_join:
  assumes "delimiter \<noteq> []"
  shows "\<exists>ps p. split_string src delimiter m = Some (ps @ [p]) \<and> join delimiter (ps @ [p]) = src
    \<and> list_all (\<lambda>q. search delimiter q = None) ps
    \<and> (m \<le> 0 \<or> int (length ps) + 1 < m \<longrightarrow> search delimiter p = None)
    \<and> (0 < m \<longrightarrow> int (length (ps @ [p])) \<le> m)"
proof -
  note str = string_search_string[OF assms]
  then have "delimiter_search (find_string delimiter) (length delimiter)" by (simp add: string_search_def)
  from delimiter_search.split_loop_terminates[OF this, of 0 src m 0] string_search.split_loop_parts[OF str, of 0 src m 0]
  show ?thesis unfolding split_string_def by auto
qed

theorem split_string_join_witness:
  "\<exists>ps p. split_string ''a, b, c'' '', '' 2 = Some (ps @ [p]) \<and> join '', '' (ps @ [p]) = ''a, b, c''
    \<and> length (ps @ [p]) \<le> 2"
  using split_string_join[of "'', ''" "''a, b, c''" 2] by fastforce

text \<open>
  \<open>split\<close> and \<open>join\<close> with a single character are inverse: joining the parts of any string gives
  it back, and splitting a joined list of parts that do not hold the separator gives the
  parts back, unless the joined string is empty, for which \<open>split\<close> gives no part.
\<close>

theorem split_join_char:
  "(\<exists>ps. split_char s c m = Some ps \<and> join [c] ps = s)
   \<and> (ps \<noteq> [] \<longrightarrow> list_all (\<lambda>q. c \<notin> set q) ps \<longrightarrow>
        split_char (join [c] ps) c 0 = Some (if ps = [[]] then [] else ps))"
proof -
  have "split_char (join [c] ps) c 0 = Some (if ps = [[]] then [] else ps)"
    if ps: "ps \<noteq> []" "list_all (\<lambda>q. c \<notin> set q) ps"
  proof (cases "join [c] ps = []")
    case True
    then have "ps = [[]]" using ps(1) by (cases ps; cases "tl ps") auto
    then show ?thesis by (simp add: split_char_def)
  next
    case False
    then have "ps \<noteq> [[]]" by auto
    then show ?thesis using split_char_cut[of 0 "join [c] ps" c] cut_join[OF ps] False by simp
  qed
  then show ?thesis using split_char_Some[of s c m] by (intro conjI impI) blast+
qed

theorem split_join_char_witness:
  "split_char (join ''='' [''key'', ''value'']) (CHR ''='') 0 = Some [''key'', ''value'']"
  using split_join_char[of _ "CHR ''=''" _ "[''key'', ''value'']"] by simp

text \<open>
  Splitting at an empty delimiter without a limit never returns: the loop finds the empty
  string where it stands and appends parts forever.
\<close>

theorem split_empty_delimiter_diverges:
  assumes "m \<le> 0"
  shows "split_string src [] m = None"
proof -
  have "f = find_string [] \<and> w = 0 \<and> k \<le> 0 \<and> st \<le> length s \<longrightarrow> False"
    if "split_loop f w k s st n = Some ps" for f :: "'a list \<Rightarrow> nat \<Rightarrow> nat option" and w k s st n ps
  proof (rule split_loop.raw_induct[OF _ that], rule impI)
    fix loop and f :: "'a list \<Rightarrow> nat \<Rightarrow> nat option" and w k s st n ps
    assume hyp: "\<And>f w k s st n ps. loop f w k s st n = Some ps \<Longrightarrow>
        f = find_string [] \<and> w = 0 \<and> k \<le> 0 \<and> st \<le> length s \<longrightarrow> False"
      and body: "(let n = n + 1 in if 0 < k \<and> k \<le> int n then Some [drop st s]
          else case f s st of None \<Rightarrow> Some [drop st s]
            | Some pos \<Rightarrow> loop f w k s (pos + w) n \<bind> (\<lambda>rest. Some (take (pos - st) (drop st s) # rest))) = Some ps"
      and p: "f = find_string [] \<and> w = 0 \<and> k \<le> 0 \<and> st \<le> length s"
    then have "f s st = Some st" by (cases "drop st s") (auto simp: find_string_def)
    then show False using hyp[of f w k s st "n + 1"] body p by (auto simp: Let_def bind_eq_Some_conv)
  qed
  then show ?thesis using assms unfolding split_string_def by (metis le0 list.size(3) not_None_eq)
qed

theorem split_empty_delimiter_diverges_witness: "split_string ''abc'' [] 0 = None"
  using split_empty_delimiter_diverges[of 0 "''abc''"] by simp

lemma find_index_drop: "find_index P xs = Some i \<Longrightarrow> drop i xs \<noteq> [] \<and> P (hd (drop i xs))"
  using find_index_Some[of P xs i] by (auto simp: hd_drop_conv_nth)

lemma find_last_not_of_None: "find_last_not_of cs s = None \<Longrightarrow> set s \<subseteq> set cs"
  by (auto simp: find_last_not_of_def find_index_None list_all_iff)

lemma find_last_not_of_Some:
  assumes "find_last_not_of cs s = Some i"
  shows "i < length s" and "s ! i \<notin> set cs" and "set (drop (Suc i) s) \<subseteq> set cs"
proof -
  obtain j where j: "find_index (\<lambda>x. x \<notin> set cs) (rev s) = Some j" "i = length s - 1 - j"
    using assms by (auto simp: find_last_not_of_def)
  have k: "j < length s" "rev s ! j \<notin> set cs" "list_all (\<lambda>x. x \<in> set cs) (take j (rev s))"
    using find_index_Some[OF j(1)] by (auto simp: find_index_None)
  show "i < length s" "s ! i \<notin> set cs" using j(2) k by (auto simp: rev_nth)
  have "take j (rev s) = rev (drop (Suc i) s)" using j(2) k(1) by (simp add: take_rev Suc_diff_Suc)
  then show "set (drop (Suc i) s) \<subseteq> set cs" using k(3) by (auto simp: list_all_iff)
qed

text \<open>
  \<open>trim\<close> cuts characters of the delimiter set off both ends and nothing else: what is left is
  empty or starts and ends with a character outside the set.
\<close>

theorem trim_correct:
  "\<exists>pre post. s = pre @ trim cs s @ post \<and> set pre \<subseteq> set cs \<and> set post \<subseteq> set cs
    \<and> (trim cs s \<noteq> [] \<longrightarrow> hd (trim cs s) \<notin> set cs \<and> last (trim cs s) \<notin> set cs)"
proof (cases "find_index (\<lambda>x. x \<notin> set cs) s")
  case None
  then have "trim cs s = []" by (simp add: trim_def find_if_from_def find_last_not_of_def)
  moreover have "set s \<subseteq> set cs" using None by (auto simp: find_index_None list_all_iff)
  ultimately show ?thesis by (intro exI[of _ s] exI[of _ "[]"]) simp
next
  case (Some i)
  let ?t = "drop i s"
  have pre: "set (take i s) \<subseteq> set cs" and t: "?t \<noteq> []" "hd ?t \<notin> set cs"
    using find_index_Some[OF Some] find_index_drop[OF Some] by (auto simp: find_index_None list_all_iff)
  then have "\<not> set ?t \<subseteq> set cs" using hd_in_set by blast
  then obtain j where j: "find_last_not_of cs ?t = Some j" using find_last_not_of_None[of cs ?t] by blast
  note l = find_last_not_of_Some[OF j]
  have tr: "trim cs s = take (j + 1) ?t" using Some j by (simp add: trim_def find_if_from_def)
  have "hd (trim cs s) = hd ?t" unfolding tr by (cases ?t) simp_all
  moreover have "last (trim cs s) = ?t ! j" unfolding tr using l(1) by (simp add: take_Suc_conv_app_nth)
  moreover have "s = take i s @ trim cs s @ drop (Suc j) ?t" unfolding tr by (metis Suc_eq_plus1 append_take_drop_id)
  ultimately show ?thesis using pre t l
    by (intro exI[of _ "take i s"] exI[of _ "drop (Suc j) ?t"] conjI impI) simp_all
qed

theorem trim_correct_witness:
  "\<exists>pre post. '' a b '' = pre @ trim '' '' '' a b '' @ post \<and> hd (trim '' '' '' a b '') \<notin> set '' ''"
proof -
  have "trim '' '' '' a b '' \<noteq> []" by code_simp
  then show ?thesis using trim_correct[of "'' a b ''" "'' ''"] by blast
qed

lemma strncasecmp_lower:
  "length s1 = length s2 \<Longrightarrow> list_all (\<lambda>c. code_of c \<noteq> 0) s1 \<Longrightarrow>
     strncasecmp_eq (length s1) s1 s2 = (make_lower s1 = make_lower s2)"
  by (induction s1 s2 rule: list_induct2) (auto simp: make_lower_def)

text \<open>
  The case insensitive comparisons agree: \<open>icompare\<close> is antisymmetric, zero on exactly the
  strings \<open>string_iequal_to\<close> identifies and negative exactly when \<open>string_iless\<close> holds; \<open>iequals\<close>
  is the same relation on strings without a NUL character.
\<close>

theorem case_insensitive_comparisons:
  "icompare y x = - icompare x y \<and> (icompare x y = 0 \<longleftrightarrow> string_iequal_to x y)
   \<and> (icompare x y < 0 \<longleftrightarrow> string_iless x y)
   \<and> (list_all (\<lambda>c. code_of c \<noteq> 0) x \<longrightarrow> iequals x y = string_iequal_to x y)"
proof -
  have "length x = length y" if "make_lower x = make_lower y"
    using arg_cong[OF that, of length] by (simp add: make_lower_def)
  then show ?thesis using strncasecmp_lower[of x y]
    by (auto simp: icompare_def string_iequal_to_def string_iless_def iequals_def Let_def)
qed

theorem case_insensitive_comparisons_witness:
  "iequals ''Content-Length'' ''content-length'' = string_iequal_to ''Content-Length'' ''content-length''"
proof -
  have "list_all (\<lambda>c. code_of c \<noteq> 0) ''Content-Length''" by code_simp
  then show ?thesis using case_insensitive_comparisons[of "''content-length''" "''Content-Length''"] by blast
qed

end
