(* ===== verification/Paths.thy ===== *)
theory Paths
  imports Xul_Strings
begin

text \<open>
  \<^verbatim>\<open>include/xul/os/paths.hpp\<close>: the class \<open>basic_paths\<close> with its two traits classes. A path is
  a string; positions stay below \<open>2^31\<close>.
\<close>

subsection \<open>The traits\<close>

datatype path_traits = Windows_Paths | Posix_Paths

definition is_alpha :: "char \<Rightarrow> bool" where
  "is_alpha c = (is_upper c \<or> is_lower c)"

fun path_separator :: "path_traits \<Rightarrow> char" where
  "path_separator Windows_Paths = CHR 0x5C"
| "path_separator Posix_Paths = CHR ''/''"

definition extension_separator :: char where
  "extension_separator = CHR ''.''"

fun is_separator :: "path_traits \<Rightarrow> char \<Rightarrow> bool" where
  "is_separator Windows_Paths ch = (CHR ''/'' = ch \<or> CHR 0x5C = ch)"
| "is_separator Posix_Paths ch = (CHR ''/'' = ch)"

fun is_absolute :: "path_traits \<Rightarrow> string \<Rightarrow> bool" where
  "is_absolute Windows_Paths path =
     (if path = [] then False
      else if is_separator Windows_Paths (path ! 0) then True
      else if length path < 2 then False
      else if CHR '':'' = path ! 1 \<and> is_alpha (path ! 0) then
        (if length path < 3 then False else is_separator Windows_Paths (path ! 2))
      else False)"
| "is_absolute Posix_Paths path = (path \<noteq> [] \<and> is_separator Posix_Paths (path ! 0))"

subsection \<open>basic_paths\<close>

definition has_trailing_separator :: "path_traits \<Rightarrow> string \<Rightarrow> bool" where
  "has_trailing_separator tr path = (if path = [] then False else is_separator tr (path ! (length path - 1)))"

definition add_trailing_separator :: "path_traits \<Rightarrow> string \<Rightarrow> string" where
  "add_trailing_separator tr path = (if has_trailing_separator tr path then path else path @ [path_separator tr])"

definition remove_trailing_separator :: "path_traits \<Rightarrow> string \<Rightarrow> string" where
  "remove_trailing_separator tr path =
     (if \<not> has_trailing_separator tr path then path
      else if length path = 1 then path
      else take (length path - 1) path)"

definition path_join :: "path_traits \<Rightarrow> string \<Rightarrow> string \<Rightarrow> string" where
  "path_join tr dir filename = (if dir = [] then filename else add_trailing_separator tr dir @ filename)"

fun path_join_from :: "path_traits \<Rightarrow> bool \<Rightarrow> string list \<Rightarrow> string" where
  "path_join_from tr trailing [] = []"
| "path_join_from tr trailing (p # parts) =
     (if \<not> trailing then [path_separator tr] else []) @ p @ path_join_from tr (has_trailing_separator tr p) parts"

definition path_join_parts :: "path_traits \<Rightarrow> string list \<Rightarrow> string" where
  "path_join_parts tr parts = path_join_from tr True parts"

fun split_filename_at :: "path_traits \<Rightarrow> string \<Rightarrow> nat \<Rightarrow> string \<times> string" where
  "split_filename_at tr path pos =
     (if is_separator tr (path ! pos) then
        (if pos = 0 then (take (pos + 1) path, drop (pos + 1) path)
         else (take pos path, drop (pos + 1) path))
      else case pos of 0 \<Rightarrow> ([], path) | Suc p \<Rightarrow> split_filename_at tr path p)"

definition split_filename :: "path_traits \<Rightarrow> string \<Rightarrow> string \<times> string" where
  "split_filename tr path = (if path = [] then ([], []) else split_filename_at tr path (length path - 1))"

fun split_extension_at :: "path_traits \<Rightarrow> string \<Rightarrow> nat \<Rightarrow> string \<times> string" where
  "split_extension_at tr path pos =
     (if extension_separator = path ! pos then (take pos path, drop pos path)
      else if is_separator tr (path ! pos) then (path, [])
      else case pos of 0 \<Rightarrow> (path, []) | Suc p \<Rightarrow> split_extension_at tr path p)"

definition split_extension :: "path_traits \<Rightarrow> string \<Rightarrow> string \<times> string" where
  "split_extension tr path = (if path = [] then ([], []) else split_extension_at tr path (length path - 1))"

text \<open>The loop of \<open>split\<close>: positions from \<open>pos\<close> on, the start of the current part.\<close>

function path_split_from :: "path_traits \<Rightarrow> bool \<Rightarrow> string \<Rightarrow> nat \<Rightarrow> nat \<Rightarrow> string list" where
  "path_split_from tr ignore_empty path start_pos pos =
     (if pos < length path then
        (if is_separator tr (path ! pos) then
           let part = (if start_pos = 0 then take (pos + 1 - start_pos) (drop start_pos path)
                       else take (pos - start_pos) (drop start_pos path));
               rest = path_split_from tr ignore_empty path (pos + 1) (pos + 1)
           in if \<not> ignore_empty \<or> part \<noteq> [] then part # rest else rest
         else path_split_from tr ignore_empty path start_pos (pos + 1))
      else [drop start_pos path])"
  by pat_completeness auto
termination
  by (relation "measure (\<lambda>(_, _, path, _, pos). length path - pos)") auto

declare path_split_from.simps [simp del] split_filename_at.simps [simp del] split_extension_at.simps [simp del]

definition path_split :: "path_traits \<Rightarrow> bool \<Rightarrow> string \<Rightarrow> string list" where
  "path_split tr ignore_empty path = path_split_from tr ignore_empty path 0 0"

definition get_directory :: "path_traits \<Rightarrow> string \<Rightarrow> string" where
  "get_directory tr path = remove_trailing_separator tr (fst (split_filename tr path))"

definition remove_filename :: "path_traits \<Rightarrow> string \<Rightarrow> string" where
  "remove_filename tr path = fst (split_filename tr path)"

definition get_filename :: "path_traits \<Rightarrow> string \<Rightarrow> string" where
  "get_filename tr path = snd (split_filename tr path)"

definition remove_extension :: "path_traits \<Rightarrow> string \<Rightarrow> string" where
  "remove_extension tr path = fst (split_extension tr path)"

definition get_extension :: "path_traits \<Rightarrow> string \<Rightarrow> string" where
  "get_extension tr path = snd (split_extension tr path)"

definition get_basename :: "path_traits \<Rightarrow> string \<Rightarrow> string" where
  "get_basename tr path = remove_extension tr (get_filename tr path)"

definition has_extension :: "path_traits \<Rightarrow> string \<Rightarrow> bool" where
  "has_extension tr path = (get_extension tr path \<noteq> [])"

definition replace_directory :: "path_traits \<Rightarrow> string \<Rightarrow> string \<Rightarrow> string" where
  "replace_directory tr path new_dir = path_join tr new_dir (get_filename tr path)"

definition replace_filename :: "path_traits \<Rightarrow> string \<Rightarrow> string \<Rightarrow> string" where
  "replace_filename tr path new_filename = path_join tr (get_directory tr path) new_filename"

definition replace_extension :: "path_traits \<Rightarrow> string \<Rightarrow> string \<Rightarrow> string" where
  "replace_extension tr path new_ext = remove_extension tr path @ new_ext"

definition replace_basename :: "path_traits \<Rightarrow> string \<Rightarrow> string \<Rightarrow> string" where
  "replace_basename tr path new_basename =
     (let dirs = split_filename tr path; exts = split_extension tr (snd dirs)
      in path_join tr (fst dirs) (new_basename @ [extension_separator] @ snd exts))"

subsection \<open>Splitting off the file name and the extension\<close>

lemma separator_is_separator [simp]: "is_separator tr (path_separator tr)"
  by (cases tr) auto

lemma extension_not_separator [simp]: "\<not> is_separator tr extension_separator"
  by (cases tr) (auto simp: extension_separator_def)

lemma split_filename_at_cases:
  assumes "pos < length path" and "list_all (\<lambda>c. \<not> is_separator tr c) (drop (Suc pos) path)"
  shows "list_all (\<lambda>c. \<not> is_separator tr c) (snd (split_filename_at tr path pos))
    \<and> (case split_filename_at tr path pos of (dir, file) \<Rightarrow>
         (dir = [] \<and> file = path) \<or> (\<exists>c. is_separator tr c \<and> (path = dir @ c # file \<and> dir \<noteq> [] \<or> dir = [c] \<and> path = c # file)))"
  using assms
proof (induction pos)
  case 0
  then obtain c p where "path = c # p" by (cases path) auto
  then show ?case using 0 by (auto simp: split_filename_at.simps)
next
  case (Suc pos)
  have path: "path = take (Suc pos) path @ path ! Suc pos # drop (Suc (Suc pos)) path"
    using Suc.prems(1) by (metis id_take_nth_drop)
  have d: "drop (Suc pos) path = path ! Suc pos # drop (Suc (Suc pos)) path"
    using Suc.prems(1) by (rule Cons_nth_drop_Suc[symmetric])
  show ?case
  proof (cases "is_separator tr (path ! Suc pos)")
    case True
    then have "split_filename_at tr path (Suc pos) = (take (Suc pos) path, drop (Suc (Suc pos)) path)"
      by (simp add: split_filename_at.simps)
    then show ?thesis using Suc.prems True path by (auto intro!: exI[of _ "path ! Suc pos"])
  next
    case False
    then have "split_filename_at tr path (Suc pos) = split_filename_at tr path pos"
      by (simp add: split_filename_at.simps[of tr path "Suc pos"])
    then show ?thesis using Suc False d by simp
  qed
qed

lemma split_filename_shape:
  assumes "split_filename tr path = (dir, file)"
  shows "list_all (\<lambda>c. \<not> is_separator tr c) file"
    and "(dir = [] \<and> file = path)
      \<or> (\<exists>c. is_separator tr c \<and> (path = dir @ c # file \<and> dir \<noteq> [] \<or> dir = [c] \<and> path = c # file))"
  using split_filename_at_cases[of "length path - 1" path tr] assms
  by (auto simp: split_filename_def split: if_splits)

lemma split_extension_at_cases:
  assumes "pos < length path"
    and "list_all (\<lambda>c. \<not> is_separator tr c \<and> c \<noteq> extension_separator) (drop (Suc pos) path)"
  shows "case split_extension_at tr path pos of (stem, ext) \<Rightarrow> path = stem @ ext
    \<and> (ext = [] \<or> (\<exists>e. ext = extension_separator # e
         \<and> list_all (\<lambda>c. \<not> is_separator tr c \<and> c \<noteq> extension_separator) e))"
  using assms
proof (induction pos)
  case 0
  then obtain c p where "path = c # p" by (cases path) auto
  then show ?case using 0 by (auto simp: split_extension_at.simps)
next
  case (Suc pos)
  have d: "drop (Suc pos) path = path ! Suc pos # drop (Suc (Suc pos)) path"
    using Suc.prems(1) by (rule Cons_nth_drop_Suc[symmetric])
  show ?case
  proof (cases "path ! Suc pos = extension_separator \<or> is_separator tr (path ! Suc pos)")
    case True
    have "path = take (Suc pos) path @ path ! Suc pos # drop (Suc (Suc pos)) path"
      using Suc.prems(1) by (rule id_take_nth_drop)
    then show ?thesis using Suc.prems d True
      by (cases "extension_separator = path ! Suc pos") (simp_all add: split_extension_at.simps[of tr path "Suc pos"])
  next
    case False
    then have "split_extension_at tr path (Suc pos) = split_extension_at tr path pos"
      by (auto simp: split_extension_at.simps[of tr path "Suc pos"])
    then show ?thesis using Suc False d by auto
  qed
qed

lemma split_extension_shape:
  assumes "split_extension tr path = (stem, ext)"
  shows "path = stem @ ext" and "ext = [] \<or> (\<exists>e. ext = extension_separator # e
         \<and> list_all (\<lambda>c. \<not> is_separator tr c \<and> c \<noteq> extension_separator) e)"
  using split_extension_at_cases[of "length path - 1" path tr] assms
  by (auto simp: split_extension_def split: if_splits)

subsection \<open>Splitting and joining whole paths\<close>

definition norm_path :: "path_traits \<Rightarrow> string \<Rightarrow> string" where
  "norm_path tr = map (\<lambda>c. if is_separator tr c then path_separator tr else c)"

lemma norm_path_simps [simp]:
  "norm_path tr [] = []" "norm_path tr (xs @ ys) = norm_path tr xs @ norm_path tr ys"
  "norm_path tr [path_separator tr] = [path_separator tr]"
  "is_separator tr c \<Longrightarrow> norm_path tr (c # xs) = path_separator tr # norm_path tr xs"
  by (simp_all add: norm_path_def)

lemma has_trailing_none: "list_all (\<lambda>c. \<not> is_separator tr c) xs \<Longrightarrow> \<not> has_trailing_separator tr xs"
  by (auto simp: has_trailing_separator_def list_all_length)

lemma has_trailing_snoc: "has_trailing_separator tr (xs @ [c]) = is_separator tr c"
  by (simp add: has_trailing_separator_def)

lemma drop_at: "start \<le> pos \<Longrightarrow> pos < length xs \<Longrightarrow> drop start xs = take (pos - start) (drop start xs) @ xs ! pos # drop (Suc pos) xs"
  using id_take_nth_drop[of "pos - start" "drop start xs"] by simp

lemma split_from_rest:
  assumes "0 < start" and "start \<le> pos" and "pos \<le> length path"
    and "list_all (\<lambda>c. \<not> is_separator tr c) (take (pos - start) (drop start path))"
  shows "norm_path tr (path_join_from tr trailing (path_split_from tr False path start pos))
    = (if trailing then [] else [path_separator tr]) @ norm_path tr (drop start path)"
  using assms
proof (induction "length path - pos" arbitrary: start pos trailing rule: less_induct)
  case less
  let ?part = "take (pos - start) (drop start path)"
  show ?case
  proof (cases "pos < length path")
    case False
    then show ?thesis by (simp add: path_split_from.simps[of tr False path start pos])
  next
    case True
    note d = drop_at[OF less.prems(2) True]
    show ?thesis
    proof (cases "is_separator tr (path ! pos)")
      case sep: True
      have "norm_path tr (path_join_from tr False (path_split_from tr False path (pos + 1) (pos + 1)))
          = [path_separator tr] @ norm_path tr (drop (pos + 1) path)"
        using less(1)[of "pos + 1" "pos + 1" False] True by simp
      moreover have "path_split_from tr False path start pos = ?part # path_split_from tr False path (pos + 1) (pos + 1)"
        using True sep less.prems(1) by (subst path_split_from.simps) simp
      moreover have "norm_path tr (drop start path) = norm_path tr ?part @ path_separator tr # norm_path tr (drop (pos + 1) path)"
        by (subst d) (simp add: sep)
      ultimately show ?thesis using has_trailing_none[OF less.prems(4)] by simp
    next
      case False
      have "take (pos + 1 - start) (drop start path) = ?part @ [path ! pos]"
        using True less.prems(2) by (simp add: Suc_diff_le take_Suc_conv_app_nth)
      then have "list_all (\<lambda>c. \<not> is_separator tr c) (take (pos + 1 - start) (drop start path))"
        using less.prems(4) False by simp
      then have "norm_path tr (path_join_from tr trailing (path_split_from tr False path start (pos + 1)))
          = (if trailing then [] else [path_separator tr]) @ norm_path tr (drop start path)"
        using less(1)[of "pos + 1" start trailing] less.prems True by simp
      then show ?thesis using True False by (subst path_split_from.simps) simp
    qed
  qed
qed

lemma split_from_first:
  "pos \<le> length path \<Longrightarrow> norm_path tr (path_join_from tr True (path_split_from tr False path 0 pos)) = norm_path tr path"
proof (induction "length path - pos" arbitrary: pos rule: less_induct)
  case less
  show ?case
  proof (cases "pos < length path")
    case False
    then show ?thesis by (simp add: path_split_from.simps[of tr False path 0 pos])
  next
    case True
    show ?thesis
    proof (cases "is_separator tr (path ! pos)")
      case sep: True
      have "path_split_from tr False path 0 pos = take (pos + 1) path # path_split_from tr False path (pos + 1) (pos + 1)"
        using True sep by (subst path_split_from.simps) simp
      moreover have "has_trailing_separator tr (take (pos + 1) path)"
        using True sep by (simp add: take_Suc_conv_app_nth has_trailing_snoc)
      moreover have "norm_path tr (path_join_from tr True (path_split_from tr False path (pos + 1) (pos + 1)))
          = norm_path tr (drop (pos + 1) path)"
        using split_from_rest[of "pos + 1" "pos + 1" path tr True] True by simp
      ultimately have "norm_path tr (path_join_from tr True (path_split_from tr False path 0 pos))
          = norm_path tr (take (pos + 1) path) @ norm_path tr (drop (pos + 1) path)" by simp
      also have "\<dots> = norm_path tr path" by (metis append_take_drop_id norm_path_simps(2))
      finally show ?thesis .
    next
      case False
      then show ?thesis using less True by (subst path_split_from.simps) simp
    qed
  qed
qed

lemma norm_path_posix [simp]: "norm_path Posix_Paths p = p"
  by (induction p) (auto simp: norm_path_def)

text \<open>
  Splitting a path into its parts and joining them gives the path back, letter for letter with
  POSIX paths and up to the choice between slash and backslash with Windows paths.
\<close>

theorem paths_join_split:
  "norm_path tr (path_join_parts tr (path_split tr False path)) = norm_path tr path
   \<and> path_join_parts Posix_Paths (path_split Posix_Paths False path) = path"
  using split_from_first[of 0 path] by (simp add: path_join_parts_def path_split_def) (metis norm_path_posix)

fun no_double_separator :: "path_traits \<Rightarrow> string \<Rightarrow> bool" where
  "no_double_separator tr (c # d # cs) = (\<not> (is_separator tr c \<and> is_separator tr d) \<and> no_double_separator tr (d # cs))"
| "no_double_separator tr cs = True"

lemma no_double_separator_front:
  "no_double_separator tr (dir @ c # r) \<Longrightarrow> is_separator tr c \<Longrightarrow> \<not> has_trailing_separator tr dir"
proof (induction dir)
  case (Cons d dir)
  then show ?case by (cases dir) (auto simp: has_trailing_separator_def)
qed (simp add: has_trailing_separator_def)

lemma join_split_filename:
  assumes "split_filename tr path = (dir, base)" and "no_double_separator tr path"
  shows "norm_path tr (path_join tr dir base) = norm_path tr path"
proof -
  consider "dir = []" "base = path" | c where "is_separator tr c" "path = dir @ c # base" "dir \<noteq> []"
    | c where "is_separator tr c" "dir = [c]" "path = c # base"
    using split_filename_shape(2)[OF assms(1)] by blast
  then show ?thesis
  proof cases
    case 2
    then show ?thesis using no_double_separator_front[of tr dir] assms(2)
      by (auto simp: path_join_def add_trailing_separator_def)
  qed (auto simp: path_join_def add_trailing_separator_def has_trailing_separator_def)
qed

text \<open>
  The parts of a path: the file name holds no separator; directory and file name join to the
  path again (up to the choice of the separator) unless the path has two separators in a row;
  the extension is empty or a dot and characters that are neither dot nor separator, and stem
  and extension make up the path.
\<close>

theorem paths_parts:
  "list_all (\<lambda>c. \<not> is_separator tr c) (get_filename tr path)
   \<and> (no_double_separator tr path \<longrightarrow>
        norm_path tr (path_join tr (remove_filename tr path) (get_filename tr path)) = norm_path tr path)
   \<and> remove_extension tr path @ get_extension tr path = path
   \<and> (has_extension tr path \<longrightarrow> (\<exists>e. get_extension tr path = extension_separator # e
        \<and> list_all (\<lambda>c. \<not> is_separator tr c \<and> c \<noteq> extension_separator) e))"
proof -
  obtain dir base where df: "split_filename tr path = (dir, base)" by fastforce
  obtain stem ext where se: "split_extension tr path = (stem, ext)" by fastforce
  show ?thesis
    using split_filename_shape(1)[OF df] split_extension_shape[OF se] join_split_filename[OF df] df se
    by (auto simp: get_filename_def remove_filename_def remove_extension_def get_extension_def has_extension_def)
qed

theorem paths_parts_witness:
  "path_join Posix_Paths (remove_filename Posix_Paths ''abc/c.txt'') (get_filename Posix_Paths ''abc/c.txt'') = ''abc/c.txt''
   \<and> (\<exists>e. get_extension Posix_Paths ''abc/c.txt'' = extension_separator # e)"
proof -
  have "no_double_separator Posix_Paths ''abc/c.txt'' \<and> has_extension Posix_Paths ''abc/c.txt''" by code_simp
  then show ?thesis using paths_parts[of Posix_Paths "''abc/c.txt''"] by auto
qed

text \<open>
  \<open>replace_basename\<close> puts a second dot between the new name and the extension of a path that
  has one, since the extension already starts with a dot.
\<close>

theorem paths_replace_basename_dots:
  assumes "has_extension tr (get_filename tr path)"
  shows "\<exists>e. replace_basename tr path new =
    path_join tr (remove_filename tr path) (new @ extension_separator # extension_separator # e)
    \<and> get_filename tr path = get_basename tr path @ extension_separator # e"
proof -
  obtain stem ext where se: "split_extension tr (get_filename tr path) = (stem, ext)" by fastforce
  then obtain e where "ext = extension_separator # e" "get_filename tr path = stem @ ext"
    using split_extension_shape[OF se] assms by (auto simp: has_extension_def get_extension_def)
  then show ?thesis using se
    by (auto simp: replace_basename_def Let_def remove_filename_def get_basename_def remove_extension_def
        simp flip: get_filename_def)
qed

theorem paths_replace_basename_dots_witness:
  "\<exists>e. replace_basename Posix_Paths ''abc/c.txt'' ''d'' = path_join Posix_Paths ''abc'' (''d..'' @ e)"
proof -
  have a: "has_extension Posix_Paths (get_filename Posix_Paths ''abc/c.txt'')" by code_simp
  have "remove_filename Posix_Paths ''abc/c.txt'' = ''abc''" by code_simp
  then show ?thesis using paths_replace_basename_dots[OF a, of "''d''"] by (auto simp: extension_separator_def)
qed

end
