(* ===== verification/Map_Contract.thy ===== *)
theory Map_Contract
  imports Xul_Prelude
begin

text \<open>
  \<^verbatim>\<open>include/xul/data/map.hpp\<close>: the contract of the interface \<open>map<KeyT, ValueT>\<close> that the
  string tables and the tree map implement. An implementation brings its representation, an
  invariant and a lookup function, and shows what \<open>set\<close>, \<open>remove\<close> and \<open>clear\<close> do to it; the
  interface then refines a partial function on keys for every sequence of calls.
\<close>

datatype ('k, 'v) map_call = Map_Set 'k 'v | Map_Remove 'k | Map_Clear

text \<open>The specification: a partial function that does not tell equal keys apart.\<close>

fun map_spec :: "('k \<Rightarrow> 'k \<Rightarrow> bool) \<Rightarrow> ('k, 'v) map_call \<Rightarrow> ('k \<Rightarrow> 'v option) \<Rightarrow> ('k \<Rightarrow> 'v option)" where
  "map_spec keq (Map_Set k v) m = (\<lambda>k'. if keq k k' then Some v else m k')"
| "map_spec keq (Map_Remove k) m = (\<lambda>k'. if keq k k' then None else m k')"
| "map_spec keq Map_Clear m = (\<lambda>_. None)"

fun map_impl ::
    "('k \<Rightarrow> 'v \<Rightarrow> 'm \<Rightarrow> 'm) \<Rightarrow> ('k \<Rightarrow> 'm \<Rightarrow> bool \<times> 'm) \<Rightarrow> ('m \<Rightarrow> 'm) \<Rightarrow> ('k, 'v) map_call \<Rightarrow> 'm \<Rightarrow> 'm" where
  "map_impl set_op remove_op clear_op (Map_Set k v) m = set_op k v m"
| "map_impl set_op remove_op clear_op (Map_Remove k) m = snd (remove_op k m)"
| "map_impl set_op remove_op clear_op Map_Clear m = clear_op m"

locale map_contract =
  fixes keq :: "'k \<Rightarrow> 'k \<Rightarrow> bool"
    and invar :: "'m \<Rightarrow> bool"
    and lookup :: "'m \<Rightarrow> 'k \<Rightarrow> 'v option"
    and set_op :: "'k \<Rightarrow> 'v \<Rightarrow> 'm \<Rightarrow> 'm"
    and remove_op :: "'k \<Rightarrow> 'm \<Rightarrow> bool \<times> 'm"
    and clear_op :: "'m \<Rightarrow> 'm"
  assumes set_invar: "invar m \<Longrightarrow> invar (set_op k v m)"
    and remove_invar: "invar m \<Longrightarrow> invar (snd (remove_op k m))"
    and clear_invar: "invar (clear_op m)"
    and set_lookup: "invar m \<Longrightarrow> lookup (set_op k v m) k' = (if keq k k' then Some v else lookup m k')"
    and remove_lookup: "invar m \<Longrightarrow> lookup (snd (remove_op k m)) k' = (if keq k k' then None else lookup m k')"
    and remove_result: "invar m \<Longrightarrow> fst (remove_op k m) = (lookup m k \<noteq> None)"
    and clear_lookup: "lookup (clear_op m) k = None"
begin

lemma call_refines:
  "invar m \<Longrightarrow> invar (map_impl set_op remove_op clear_op c m)
     \<and> lookup (map_impl set_op remove_op clear_op c m) = map_spec keq c (lookup m)"
  by (cases c) (auto simp: set_invar remove_invar clear_invar set_lookup remove_lookup clear_lookup)

lemma calls_refine:
  "invar m \<Longrightarrow> invar (fold (map_impl set_op remove_op clear_op) cs m)
     \<and> lookup (fold (map_impl set_op remove_op clear_op) cs m) = fold (map_spec keq) cs (lookup m)"
  by (induction cs arbitrary: m) (use call_refines in auto)

end

end
