(* ===== verification/String_Table.thy ===== *)
theory String_Table
  imports Xul_Strings Map_Contract
begin

text \<open>
  \<^verbatim>\<open>include/xul/data/associative_string_array.hpp\<close>: a string table kept as an array of
  pairs in insertion order, with the key comparison as a template argument, and
  \<^verbatim>\<open>string_dicts::parse\<close> of \<^verbatim>\<open>include/xul/std/maps.hpp\<close>, which fills it. A
  \<open>const char*\<close> is a string without NUL, an optional one where the code tests for \<open>NULL\<close>.
\<close>

type_synonym string_items = "(string \<times> string) list"

subsection \<open>associative_string_array\<close>

fun sa_contains :: "(string \<Rightarrow> string \<Rightarrow> bool) \<Rightarrow> string option \<Rightarrow> string_items \<Rightarrow> bool" where
  "sa_contains cmp None items = False"
| "sa_contains cmp (Some key) [] = False"
| "sa_contains cmp (Some key) (e # items) = (if cmp (fst e) key then True else sa_contains cmp (Some key) items)"

fun sa_get :: "(string \<Rightarrow> string \<Rightarrow> bool) \<Rightarrow> string \<Rightarrow> string \<Rightarrow> string_items \<Rightarrow> string" where
  "sa_get cmp key default_value [] = default_value"
| "sa_get cmp key default_value (e # items) =
     (if cmp (fst e) key then snd e else sa_get cmp key default_value items)"

fun sa_set :: "(string \<Rightarrow> string \<Rightarrow> bool) \<Rightarrow> string \<Rightarrow> string \<Rightarrow> string_items \<Rightarrow> string_items" where
  "sa_set cmp key val [] = [(key, val)]"
| "sa_set cmp key val (e # items) =
     (if cmp (fst e) key then (fst e, val) # items else e # sa_set cmp key val items)"

fun sa_remove :: "(string \<Rightarrow> string \<Rightarrow> bool) \<Rightarrow> string option \<Rightarrow> string_items \<Rightarrow> bool \<times> string_items" where
  "sa_remove cmp None items = (False, items)"
| "sa_remove cmp (Some key) [] = (False, [])"
| "sa_remove cmp (Some key) (e # items) =
     (if cmp (fst e) key then (True, items)
      else let (r, items) = sa_remove cmp (Some key) items in (r, e # items))"

definition sa_clear :: "string_items \<Rightarrow> string_items" where
  "sa_clear items = []"

text \<open>The iterators: a position, \<open>available\<close>, \<open>element\<close> and \<open>next\<close>; \<open>set_value\<close> through an entry.\<close>

definition sa_iter_available :: "string_items \<Rightarrow> nat \<Rightarrow> bool" where
  "sa_iter_available items pos = (pos < length items)"

definition sa_iter_element :: "string_items \<Rightarrow> nat \<Rightarrow> (string \<times> string) option" where
  "sa_iter_element items pos = (if pos \<ge> length items then None else Some (items ! pos))"

definition sa_entry_set_value :: "string option \<Rightarrow> nat \<Rightarrow> string_items \<Rightarrow> string_items" where
  "sa_entry_set_value s pos items = items[pos := (fst (items ! pos), case s of None \<Rightarrow> [] | Some v \<Rightarrow> v)]"

subsection \<open>string_dicts::parse\<close>

text \<open>\<open>c_str()\<close> read as a C string ends at the first NUL.\<close>

definition c_str :: "string \<Rightarrow> string" where
  "c_str s = takeWhile (\<lambda>c. code_of c \<noteq> 0) s"

fun dict_parse_parts ::
    "(string \<Rightarrow> string \<Rightarrow> bool) \<Rightarrow> char \<Rightarrow> string list \<Rightarrow> string_items \<Rightarrow> nat \<times> string_items" where
  "dict_parse_parts cmp second_key [] dict = (0, dict)"
| "dict_parse_parts cmp second_key (s # strs) dict =
     (let (k, v) = split_pair_char s second_key in
      if length k > 0
      then let (n, d) = dict_parse_parts cmp second_key strs (sa_set cmp (c_str k) (c_str v) dict) in (n + 1, d)
      else dict_parse_parts cmp second_key strs dict)"

definition dict_parse ::
    "(string \<Rightarrow> string \<Rightarrow> bool) \<Rightarrow> string \<Rightarrow> char \<Rightarrow> char \<Rightarrow> string_items \<Rightarrow> (nat \<times> string_items) option" where
  "dict_parse cmp src first_key second_key dict =
     map_option (\<lambda>strs. dict_parse_parts cmp second_key strs dict) (split_char src first_key 0)"

subsection \<open>The interface of a key comparison\<close>

locale key_compare =
  fixes cmp :: "string \<Rightarrow> string \<Rightarrow> bool"
  assumes cmp_refl: "cmp x x"
    and cmp_sym: "cmp x y \<Longrightarrow> cmp y x"
    and cmp_trans: "cmp x y \<Longrightarrow> cmp y z \<Longrightarrow> cmp x z"
begin

text \<open>The table as a partial function on keys, and the invariant: one entry for a class of keys.\<close>

fun lookup :: "string_items \<Rightarrow> string \<Rightarrow> string option" where
  "lookup [] k = None"
| "lookup (e # items) k = (if cmp (fst e) k then Some (snd e) else lookup items k)"

fun keys_ok :: "string_items \<Rightarrow> bool" where
  "keys_ok [] = True"
| "keys_ok (e # items) = (list_all (\<lambda>f. \<not> cmp (fst e) (fst f)) items \<and> keys_ok items)"

lemma get_lookup: "sa_get cmp k d items = (case lookup items k of None \<Rightarrow> d | Some v \<Rightarrow> v)"
  by (induction items) auto

lemma contains_lookup: "sa_contains cmp (Some k) items = (lookup items k \<noteq> None)"
  by (induction items) auto

lemma cmp_cong: "cmp x y \<Longrightarrow> cmp x z \<longleftrightarrow> cmp y z"
  using cmp_sym cmp_trans by blast

lemma lookup_set: "lookup (sa_set cmp k v items) k' = (if cmp k k' then Some v else lookup items k')"
  by (induction items) (auto dest: cmp_cong cmp_sym)

lemma lookup_absent: "list_all (\<lambda>f. \<not> cmp k (fst f)) items \<Longrightarrow> cmp k k' \<Longrightarrow> lookup items k' = None"
  by (induction items) (auto dest: cmp_cong cmp_sym)

lemma lookup_remove:
  "keys_ok items \<Longrightarrow> lookup (snd (sa_remove cmp (Some k) items)) k' = (if cmp k k' then None else lookup items k')"
proof (induction items)
  case (Cons e items)
  then show ?case
    using lookup_absent[of "fst e" items k'] by (auto split: prod.splits dest: cmp_cong cmp_sym)
qed simp

lemma remove_result: "fst (sa_remove cmp (Some k) items) = (lookup items k \<noteq> None)"
  by (induction items) (auto split: prod.splits)

lemma set_keys: "list_all (\<lambda>f. P (fst f)) items \<Longrightarrow> P k \<Longrightarrow> list_all (\<lambda>f. P (fst f)) (sa_set cmp k v items)"
  by (induction items) auto

lemma set_keys_ok: "keys_ok items \<Longrightarrow> keys_ok (sa_set cmp k v items)"
proof (induction items)
  case (Cons e items)
  then show ?case using set_keys[of "\<lambda>x. \<not> cmp (fst e) x" items k v] by auto
qed simp

lemma remove_subset: "list_all P items \<Longrightarrow> list_all P (snd (sa_remove cmp (Some k) items))"
  by (induction items) (auto split: prod.splits)

lemma remove_keys_ok: "keys_ok items \<Longrightarrow> keys_ok (snd (sa_remove cmp (Some k) items))"
proof (induction items)
  case (Cons e items)
  then show ?case
    using remove_subset[of "\<lambda>f. \<not> cmp (fst e) (fst f)" items k] by (auto split: prod.splits)
qed simp

lemma set_new: "lookup items k = None \<Longrightarrow> sa_set cmp k v items = items @ [(k, v)]"
  by (induction items) (auto split: if_splits)

end

lemma key_compare_eq: "key_compare (=)"
  by standard auto

lemma key_compare_iequal: "key_compare string_iequal_to"
  by standard (auto simp: string_iequal_to_def)

interpretation skey: key_compare "(=)" by (rule key_compare_eq)

interpretation ikey: key_compare string_iequal_to by (rule key_compare_iequal)

subsection \<open>The contract of the map interface\<close>

abbreviation table_run :: "(string \<Rightarrow> string \<Rightarrow> bool) \<Rightarrow> (string, string) map_call \<Rightarrow> string_items \<Rightarrow> string_items" where
  "table_run cmp \<equiv> map_impl (sa_set cmp) (\<lambda>k. sa_remove cmp (Some k)) sa_clear"

context key_compare
begin

lemma table_contract: "map_contract cmp keys_ok lookup (sa_set cmp) (\<lambda>k. sa_remove cmp (Some k)) sa_clear"
  by standard (simp_all add: set_keys_ok remove_keys_ok lookup_set lookup_remove remove_result sa_clear_def)

lemma run_observed:
  assumes "m = fold (table_run cmp) cs []" and "f = fold (map_spec cmp) cs (\<lambda>_. None)"
  shows "sa_get cmp k d m = (case f k of None \<Rightarrow> d | Some v \<Rightarrow> v) \<and> sa_contains cmp (Some k) m = (f k \<noteq> None)
    \<and> fst (sa_remove cmp (Some k) m) = (f k \<noteq> None)"
proof -
  have "lookup [] = (\<lambda>_. None)" by auto
  then have "lookup m = f" using map_contract.calls_refine[OF table_contract, of "[]" cs] assms by simp
  then show ?thesis by (simp only: get_lookup contains_lookup remove_result simp_thms)
qed

end

interpretation stable: map_contract "(=)" skey.keys_ok skey.lookup "sa_set (=)" "\<lambda>k. sa_remove (=) (Some k)" sa_clear
  by (rule skey.table_contract)

interpretation itable: map_contract string_iequal_to ikey.keys_ok ikey.lookup "sa_set string_iequal_to"
    "\<lambda>k. sa_remove string_iequal_to (Some k)" sa_clear
  by (rule ikey.table_contract)

text \<open>
  C23. Both string tables of the library, the one with equal keys and the one that ignores letter
  case, refine partial functions on keys: after any sequence of \<open>set\<close>, \<open>remove\<close> and \<open>clear\<close>,
  \<open>get\<close>, \<open>contains\<close> and the result of \<open>remove\<close> are those of the last value set for an equal key.
\<close>

theorem string_table_refines_map:
  assumes "cmp = (=) \<or> cmp = string_iequal_to"
    and "m = fold (table_run cmp) cs []" and "f = fold (map_spec cmp) cs (\<lambda>_. None)"
  shows "sa_get cmp k d m = (case f k of None \<Rightarrow> d | Some v \<Rightarrow> v) \<and> sa_contains cmp (Some k) m = (f k \<noteq> None)
    \<and> fst (sa_remove cmp (Some k) m) = (f k \<noteq> None)"
  using assms skey.run_observed[of m cs f k d] ikey.run_observed[of m cs f k d] by blast

theorem string_table_refines_map_witness:
  "sa_get string_iequal_to ''HOST'' ''-'' (fold (table_run string_iequal_to) [Map_Set ''Host'' ''a''] []) = ''a''"
proof -
  have "string_iequal_to ''Host'' ''HOST''" by code_simp
  then show ?thesis
    using string_table_refines_map[OF _ refl refl, of string_iequal_to "''HOST''" "''-''" "[Map_Set ''Host'' ''a'']"] by simp
qed

subsection \<open>Parsing a table\<close>

lemma split_pair_char_app: "c \<notin> set k \<Longrightarrow> split_pair_char (k @ c # v) c = (k, v)"
proof -
  assume "c \<notin> set k"
  then have "find_index (\<lambda>x. x = c) (k @ c # v) = Some (length k)" by (induction k) auto
  then show ?thesis by (simp add: split_pair_char_def find_char_def find_if_from_def)
qed

lemma c_str_id: "list_all (\<lambda>c. code_of c \<noteq> 0) s \<Longrightarrow> c_str s = s"
  by (simp add: c_str_def list_all_iff takeWhile_eq_all_conv)

definition entry_text :: "char \<Rightarrow> string \<times> string \<Rightarrow> string" where
  "entry_text c e = fst e @ c # snd e"

definition entry_ok :: "char \<Rightarrow> char \<Rightarrow> string \<times> string \<Rightarrow> bool" where
  "entry_ok c1 c2 e \<longleftrightarrow> fst e \<noteq> [] \<and> c1 \<notin> set (fst e) \<and> c2 \<notin> set (fst e) \<and> c1 \<notin> set (snd e)
     \<and> list_all (\<lambda>c. code_of c \<noteq> 0) (fst e) \<and> list_all (\<lambda>c. code_of c \<noteq> 0) (snd e)"

context key_compare
begin

lemma lookup_append: "lookup (xs @ ys) k = (case lookup xs k of None \<Rightarrow> lookup ys k | Some v \<Rightarrow> Some v)"
  by (induction xs) auto

lemma parse_parts:
  "list_all (entry_ok c1 c2) es \<Longrightarrow> keys_ok (dict @ es) \<Longrightarrow>
     dict_parse_parts cmp c2 (map (entry_text c2) es) dict = (length es, dict @ es)"
proof (induction es arbitrary: dict)
  case (Cons e es)
  have e: "split_pair_char (entry_text c2 e) c2 = e" "c_str (fst e) = fst e" "c_str (snd e) = snd e" "fst e \<noteq> []"
    using Cons.prems(1) split_pair_char_app[of c2 "fst e" "snd e"] by (auto simp: entry_ok_def entry_text_def c_str_id)
  have "lookup dict (fst e) = None" using Cons.prems(2)
    by (induction dict) (auto dest: cmp_sym)
  then have "sa_set cmp (fst e) (snd e) dict = dict @ [e]" using set_new by simp
  then show ?case using Cons e by (auto split: prod.splits)
qed simp

end

lemma skey_keys_ok: "skey.keys_ok es = distinct (map fst es)"
  by (induction es) (auto simp: list_all_iff)

lemma split_entries:
  assumes "c1 \<noteq> c2" and "list_all (entry_ok c1 c2) es"
  shows "split_char (join [c1] (map (entry_text c2) es)) c1 0 = Some (map (entry_text c2) es)"
proof (cases "es = []")
  case True
  then show ?thesis by (simp add: split_char_def)
next
  case False
  let ?ps = "map (entry_text c2) es"
  have ok: "?ps \<noteq> []" "list_all (\<lambda>q. c1 \<notin> set q) ?ps"
    using assms False by (auto simp: list_all_iff entry_ok_def entry_text_def)
  have "join [c1] ?ps \<noteq> []" using False by (cases es) (auto simp: entry_text_def)
  then show ?thesis using cut_join[OF ok] by (simp add: split_char_cut)
qed

lemma dict_parse_entries:
  assumes "c1 \<noteq> c2" and "list_all (entry_ok c1 c2) es" and "distinct (map fst es)"
  shows "dict_parse (=) (join [c1] (map (entry_text c2) es)) c1 c2 [] = Some (length es, es)"
  using skey.parse_parts[of c1 c2 es "[]"] split_entries[OF assms(1,2)] assms(2,3)
  by (simp add: dict_parse_def skey_keys_ok)

text \<open>
  A table printed as \<open>key=value\<close> entries with a separator between them is parsed back entry for
  entry, for any two different separator characters, as long as keys are not empty and
  different, keys hold neither separator, values not the first one, and there is no NUL.
\<close>

theorem dict_parse_roundtrip:
  assumes "c1 \<noteq> c2" and "list_all (entry_ok c1 c2) es" and "distinct (map fst es)"
  shows "dict_parse (=) (join [c1] (map (entry_text c2) es)) c1 c2 [] = Some (length es, es)"
  using assms by (rule dict_parse_entries)

theorem dict_parse_roundtrip_witness:
  "dict_parse (=) ''a=1&b=x=y'' (CHR ''&'') (CHR ''='') [] = Some (2, [(''a'', ''1''), (''b'', ''x=y'')])"
proof -
  let ?es = "[(''a'', ''1''), (''b'', ''x=y'')]"
  have "list_all (entry_ok (CHR ''&'') (CHR ''='')) ?es" by code_simp
  then show ?thesis
    using dict_parse_roundtrip[of "CHR ''&''" "CHR ''=''" ?es] by (simp add: entry_text_def)
qed

end
