(* ===== verification/Numerics.thy ===== *)
theory Numerics
  imports Text_Encodings
begin

text \<open>
  \<^verbatim>\<open>include/xul/data/numerics.hpp\<close>: parsing and printing of integers through \<open>sscanf\<close> and
  \<open>snprintf\<close> with the \<open>d\<close> conversions, and the small helpers beside them. Values are those the
  integer type can hold; a text with a larger number has no defined result in C and the model
  gives its mathematical value.
\<close>

definition is_space :: "char \<Rightarrow> bool" where
  "is_space c = (code_of c = 32 \<or> (9 \<le> code_of c \<and> code_of c \<le> 13))"

definition digit_value :: "char \<Rightarrow> nat" where
  "digit_value c = code_of c - 48"

definition digits_value :: "string \<Rightarrow> nat" where
  "digits_value s = foldl (\<lambda>a c. 10 * a + digit_value c) 0 s"

text \<open>The \<open>d\<close> conversion of \<open>sscanf\<close>: white space, an optional sign, at least one digit.\<close>

definition scan_sign :: "string \<Rightarrow> int \<times> string" where
  "scan_sign s = (case s of
      [] \<Rightarrow> (1, s)
    | c # r \<Rightarrow> if c = CHR ''-'' then (- 1, r) else if c = CHR ''+'' then (1, r) else (1, s))"

definition numerics_try_parse :: "string \<Rightarrow> int option" where
  "numerics_try_parse s =
     (let (sign, r) = scan_sign (dropWhile is_space s); ds = takeWhile is_digit r
      in if ds = [] then None else Some (sign * int (digits_value ds)))"

definition numerics_parse :: "string \<Rightarrow> int \<Rightarrow> int" where
  "numerics_parse s default_val = (case numerics_try_parse s of Some v \<Rightarrow> v | None \<Rightarrow> default_val)"

definition digit_char :: "nat \<Rightarrow> char" where
  "digit_char n = char_of (48 + n)"

fun dec_digits :: "nat \<Rightarrow> string" where
  "dec_digits n = (if n < 10 then [digit_char n] else dec_digits (n div 10) @ [digit_char (n mod 10)])"

declare dec_digits.simps [simp del]

definition numerics_format :: "int \<Rightarrow> string" where
  "numerics_format v = (if v < 0 then CHR ''-'' # dec_digits (nat (- v)) else dec_digits (nat v))"

definition get_min :: "int \<Rightarrow> int \<Rightarrow> int" where
  "get_min x y = (if x < y then x else y)"

definition get_max :: "int \<Rightarrow> int \<Rightarrow> int" where
  "get_max x y = (if x > y then x else y)"

text \<open>Integer division of C; the operands of the callers are not negative.\<close>

definition calc_block_count :: "int \<Rightarrow> int \<Rightarrow> int" where
  "calc_block_count x y = (x + y - 1) div y"

subsection \<open>Printing and parsing\<close>

lemma digit_char_ok: "n < 10 \<Longrightarrow> is_digit (digit_char n) \<and> digit_value (digit_char n) = n"
  by (simp add: is_digit_def digit_value_def digit_char_def code_of_def)

lemma dec_digits_ok: "list_all is_digit (dec_digits n) \<and> dec_digits n \<noteq> [] \<and> digits_value (dec_digits n) = n"
proof (induction n rule: dec_digits.induct)
  case (1 n)
  then show ?case
    using digit_char_ok[of n] digit_char_ok[of "n mod 10"]
    by (subst (1 2 3) dec_digits.simps) (auto simp: digits_value_def)
qed

lemma digit_plain: "is_digit c \<Longrightarrow> \<not> is_space c \<and> c \<noteq> CHR ''-'' \<and> c \<noteq> CHR ''+''"
  by (auto simp: is_digit_def is_space_def code_of_def)

lemma takeWhile_digits:
  "list_all is_digit ds \<Longrightarrow> rest = [] \<or> \<not> is_digit (hd rest) \<Longrightarrow> takeWhile is_digit (ds @ rest) = ds"
  by (induction ds) (auto simp: takeWhile_eq_Nil_iff)

lemma scan_digits:
  assumes "list_all is_digit ds" and "ds \<noteq> []"
  shows "dropWhile is_space (ds @ r) = ds @ r" and "scan_sign (ds @ r) = (1, ds @ r)"
  using assms digit_plain[of "hd ds"] by (cases ds; simp add: scan_sign_def)+

lemma try_parse_format:
  assumes r: "rest = [] \<or> \<not> is_digit (hd rest)"
  shows "numerics_try_parse (numerics_format v @ rest) = Some v"
proof (cases "v < 0")
  case True
  have "\<not> is_space (CHR ''-'')" by (simp add: is_space_def code_of_def)
  then show ?thesis
    using True takeWhile_digits[OF _ r] dec_digits_ok[of "nat (- v)"]
    by (simp add: numerics_try_parse_def numerics_format_def scan_sign_def)
next
  case False
  then show ?thesis
    using takeWhile_digits[OF _ r] dec_digits_ok[of "nat v"] scan_digits[of "dec_digits (nat v)" rest]
    by (simp add: numerics_try_parse_def numerics_format_def)
qed

text \<open>
  An integer that was printed is parsed back, whatever follows it that is not a digit; with a
  default value the parser is total, and a block count is the least number of blocks that hold
  the given amount.
\<close>

theorem numerics_roundtrip:
  "(rest = [] \<or> \<not> is_digit (hd rest) \<longrightarrow> numerics_try_parse (numerics_format v @ rest) = Some v
      \<and> numerics_parse (numerics_format v @ rest) d = v)
   \<and> (0 \<le> x \<and> 0 < y \<longrightarrow> x \<le> calc_block_count x y * y \<and> (calc_block_count x y - 1) * y < x)"
proof -
  note try_parse_format[of rest v]
  moreover have "x \<le> calc_block_count x y * y \<and> (calc_block_count x y - 1) * y < x" if "0 \<le> x \<and> 0 < y"
  proof -
    have "(x + y - 1) div y * y + (x + y - 1) mod y = x + y - 1" by simp
    moreover have "0 \<le> (x + y - 1) mod y" "(x + y - 1) mod y < y" using that by simp_all
    ultimately show ?thesis unfolding calc_block_count_def left_diff_distrib by linarith
  qed
  ultimately show ?thesis by (auto simp: numerics_parse_def)
qed

theorem numerics_roundtrip_witness:
  "numerics_try_parse (numerics_format 8080 @ ''/x'') = Some 8080 \<and> 10 \<le> calc_block_count 10 4 * 4"
  using numerics_roundtrip[of "''/x''" 8080 0 10 4] by (simp add: is_digit_def code_of_def)

end
