(* ===== verification/Simple_Uri.thy ===== *)
theory Simple_Uri
  imports Paths String_Table Numerics
begin

text \<open>
  \<^verbatim>\<open>include/xul/net/simple_uri.hpp\<close> and \<^verbatim>\<open>include/xul/net/well_known_ports.hpp\<close>. A
  \<open>const char*\<close> argument is a string without NUL, \<open>None\<close> for \<open>NULL\<close>. The library is the one
  built for POSIX systems, so that \<open>paths\<close> are POSIX paths. \<open>substr\<close> calls of the parser start
  within the string, positions and lengths are below \<open>2^31\<close>.
\<close>

subsection \<open>well_known_ports\<close>

definition port_table :: "(string \<times> int) list" where
  "port_table = [(''ftp'', 21), (''ssh'', 22), (''telnet'', 23), (''smtp'', 25), (''dns'', 53),
     (''http'', 80), (''pop'', 110), (''nntp'', 119), (''imap'', 143), (''snmp'', 161),
     (''https'', 443), (''rtsp'', 554), (''rtmp'', 1935), (''rtmfp'', 1935)]"

definition get_port :: "string \<Rightarrow> int \<Rightarrow> int" where
  "get_port scheme default_port = (case map_of port_table scheme of Some p \<Rightarrow> p | None \<Rightarrow> default_port)"

subsection \<open>simple_uri\<close>

record simple_uri =
  uri_original_string :: string
  uri_scheme :: string
  uri_username :: string
  uri_password :: string
  uri_host :: string
  uri_port :: int
  uri_full_path :: string
  uri_path :: string
  uri_filename :: string
  uri_query :: string
  uri_fragment :: string
  uri_params :: string_items

definition uri_clear :: "simple_uri \<Rightarrow> simple_uri" where
  "uri_clear u = u\<lparr>uri_original_string := [], uri_scheme := [], uri_port := 0, uri_host := [],
     uri_username := [], uri_password := [], uri_full_path := [], uri_path := [], uri_filename := [],
     uri_query := [], uri_fragment := [], uri_params := sa_clear (uri_params u)\<rparr>"

definition uri_init :: simple_uri where
  "uri_init = \<lparr>uri_original_string = [], uri_scheme = [], uri_username = [], uri_password = [],
     uri_host = [], uri_port = 0, uri_full_path = [], uri_path = [], uri_filename = [], uri_query = [],
     uri_fragment = [], uri_params = []\<rparr>"

definition assemble_full_path :: "simple_uri \<Rightarrow> simple_uri" where
  "assemble_full_path u =
     u\<lparr>uri_full_path := (if uri_query u = [] then uri_path u else uri_path u @ ''?'' @ uri_query u)\<rparr>"

fun query_of_items :: "bool \<Rightarrow> string_items \<Rightarrow> string" where
  "query_of_items is_first [] = []"
| "query_of_items is_first (e # es) =
     (if \<not> is_first then ''&'' else []) @ fst e @ ''='' @ snd e @ query_of_items False es"

definition assemble_query :: "simple_uri \<Rightarrow> simple_uri" where
  "assemble_query u = assemble_full_path (u\<lparr>uri_query := query_of_items True (uri_params u)\<rparr>)"

definition uri_set_param :: "string \<Rightarrow> string \<Rightarrow> simple_uri \<Rightarrow> simple_uri" where
  "uri_set_param name val u = assemble_query (u\<lparr>uri_params := sa_set (=) name val (uri_params u)\<rparr>)"

definition uri_remove_param :: "string \<Rightarrow> simple_uri \<Rightarrow> simple_uri" where
  "uri_remove_param name u =
     assemble_query (u\<lparr>uri_params := snd (sa_remove (=) (Some name) (uri_params u))\<rparr>)"

definition uri_get_param :: "string \<Rightarrow> simple_uri \<Rightarrow> string" where
  "uri_get_param name u = sa_get (=) name [] (uri_params u)"

definition uri_has_param :: "string \<Rightarrow> simple_uri \<Rightarrow> bool" where
  "uri_has_param name u = sa_contains (=) (Some name) (uri_params u)"

definition parse_fragment :: "string \<Rightarrow> nat option \<Rightarrow> simple_uri \<Rightarrow> simple_uri" where
  "parse_fragment s offset u = (case offset of None \<Rightarrow> u | Some p \<Rightarrow> u\<lparr>uri_fragment := drop (p + 1) s\<rparr>)"

definition uri_extract :: "string \<Rightarrow> nat \<Rightarrow> nat option \<Rightarrow> string" where
  "uri_extract s start end_pos = (case strings_extract s start end_pos of Inr t \<Rightarrow> t | Inl _ \<Rightarrow> [])"

definition parse_params :: "string \<Rightarrow> nat \<Rightarrow> nat option \<Rightarrow> simple_uri \<Rightarrow> simple_uri" where
  "parse_params s offset end_pos u =
     (let query = uri_extract s (offset + 1) end_pos;
          params = (case dict_parse (=) query (CHR ''&'') (CHR ''='') (uri_params u) of
                      Some (_, d) \<Rightarrow> d | None \<Rightarrow> uri_params u)
      in u\<lparr>uri_query := query, uri_params := map (\<lambda>e. (fst e, c_str (url_decode (snd e)))) params\<rparr>)"

definition parse_path :: "string \<Rightarrow> nat option \<Rightarrow> simple_uri \<Rightarrow> simple_uri" where
  "parse_path s offset u =
     (case offset of
        None \<Rightarrow> u
      | Some p \<Rightarrow>
          let u = (case find_char (CHR ''?'') s p of
              Some q \<Rightarrow>
                let f = find_char (CHR ''#'') s (q + 1);
                    u = parse_params s q f (parse_fragment s f u)
                in u\<lparr>uri_path := take (q - p) (drop p s)\<rparr>
            | None \<Rightarrow>
                let f = find_char (CHR ''#'') s p
                in (parse_fragment s f u)\<lparr>uri_path := uri_extract s p f\<rparr>);
              u = assemble_full_path u
          in u\<lparr>uri_filename := get_filename Posix_Paths (uri_path u)\<rparr>)"

definition parse_host_and_port :: "string \<Rightarrow> nat \<Rightarrow> nat \<Rightarrow> simple_uri \<Rightarrow> bool \<times> simple_uri" where
  "parse_host_and_port s start end_pos u =
     (let without_port = (let u = u\<lparr>uri_host := take (end_pos - start) (drop start s)\<rparr>
          in if uri_scheme u \<noteq> [] then (True, u\<lparr>uri_port := get_port (uri_scheme u) 0\<rparr>) else (True, u))
      in case find_char (CHR '':'') s start of
           Some pos \<Rightarrow>
             if pos < end_pos then
               let u = u\<lparr>uri_host := take (pos - start) (drop start s)\<rparr> in
               (case numerics_try_parse (take (end_pos - (pos + 1)) (drop (pos + 1) s)) of
                  None \<Rightarrow> (False, u) | Some port \<Rightarrow> (True, u\<lparr>uri_port := port\<rparr>))
             else without_port
         | None \<Rightarrow> without_port)"

definition parse_with_scheme :: "string \<Rightarrow> nat \<Rightarrow> simple_uri \<Rightarrow> bool \<times> simple_uri" where
  "parse_with_scheme s offset u =
     (case find_char (CHR ''/'') s offset of
        Some path_pos \<Rightarrow>
          let (ok, u) = (if path_pos > offset then parse_host_and_port s offset path_pos u else (True, u))
          in if \<not> ok then (False, u) else (True, parse_path s (Some path_pos) u)
      | None \<Rightarrow> (True, parse_path s None u))"

definition uri_parse :: "string option \<Rightarrow> simple_uri \<Rightarrow> bool \<times> simple_uri" where
  "uri_parse urlstr u0 =
     (let u = uri_clear u0 in
      case urlstr of
        None \<Rightarrow> (False, u)
      | Some s \<Rightarrow>
          let u = u\<lparr>uri_original_string := s\<rparr> in
          (case find_string ''://'' s 0 of
             Some scheme_pos \<Rightarrow>
               if list_all is_alpha (take scheme_pos s)
               then parse_with_scheme s (scheme_pos + 3) (u\<lparr>uri_scheme := take scheme_pos s\<rparr>)
               else (True, parse_path s (Some 0) u)
           | None \<Rightarrow> (True, parse_path s (Some 0) u)))"

definition uri_parse_uri :: "string option \<Rightarrow> simple_uri option" where
  "uri_parse_uri s = (case uri_parse s uri_init of (True, u) \<Rightarrow> Some u | (False, _) \<Rightarrow> None)"

definition uri_assemble :: "simple_uri \<Rightarrow> string" where
  "uri_assemble u =
     (if uri_host u \<noteq> [] then
        (if uri_scheme u \<noteq> [] then uri_scheme u @ ''://'' else []) @ uri_host u
        @ (if uri_port u > 0 \<and> \<not> (uri_scheme u = ''http'' \<and> uri_port u = 80)
           then '':'' @ numerics_format (uri_port u) else [])
      else [])
     @ uri_path u
     @ (if uri_query u \<noteq> [] then ''?'' @ uri_query u else [])
     @ (if uri_fragment u \<noteq> [] then ''#'' @ uri_fragment u else [])"

definition uri_encode :: "simple_uri \<Rightarrow> simple_uri" where
  "uri_encode u =
     (let u = assemble_query (u\<lparr>uri_params := map (\<lambda>e. (fst e, url_encode True (snd e))) (uri_params u)\<rparr>)
      in u\<lparr>uri_original_string := uri_assemble u\<rparr>)"

subsection \<open>Positions in a text made of pieces\<close>

lemma find_index_skip: "list_all (\<lambda>x. \<not> P x) xs \<Longrightarrow> find_index P (xs @ ys) = map_option (\<lambda>i. length xs + i) (find_index P ys)"
  by (induction xs; cases "find_index P ys") auto

lemma find_char_hit: "c \<notin> set xs \<Longrightarrow> p = length pre \<Longrightarrow> find_char c (pre @ xs @ c # ys) p = Some (length pre + length xs)"
  using find_index_skip[of "\<lambda>x. x = c" xs "c # ys"] by (auto simp: find_char_def find_if_from_def list_all_iff)

lemma find_char_miss: "c \<notin> set xs \<Longrightarrow> p = length pre \<Longrightarrow> find_char c (pre @ xs) p = None"
  by (auto simp: find_char_def find_if_from_def find_index_None list_all_iff)

lemma uri_extract_piece:
  "uri_extract (pre @ xs @ ys) (length pre) (Some (length pre + length xs)) = xs"
  "uri_extract (pre @ xs) (length pre) None = xs"
  by (simp_all add: uri_extract_def strings_extract_def substr_def substr_from_def)

lemma find_char_behind:
  assumes "c \<notin> set xs" and "find_char c (pre @ xs @ ys) (length pre) = Some pos"
  shows "length pre + length xs \<le> pos"
proof -
  have "list_all (\<lambda>x. \<not> x = c) xs" using assms(1) by (auto simp: list_all_iff)
  then show ?thesis using assms(2) find_index_skip[of "\<lambda>x. x = c" xs ys]
    by (auto simp: find_char_def find_if_from_def)
qed

definition query_part :: "string \<Rightarrow> string" where
  "query_part query = (if query \<noteq> [] then ''?'' @ query else [])"

definition fragment_part :: "string \<Rightarrow> string" where
  "fragment_part fragment = (if fragment \<noteq> [] then ''#'' @ fragment else [])"

lemma find_fragment:
  assumes "CHR ''#'' \<notin> set xs"
  shows "find_char (CHR ''#'') (pre @ xs @ fragment_part f) (length pre)
    = (if f = [] then None else Some (length pre + length xs))"
  using assms find_char_miss[OF assms refl, of pre] find_char_hit[OF assms refl, of pre f]
  by (simp add: fragment_part_def)

lemma extract_before_fragment:
  "uri_extract (pre @ xs @ fragment_part f) (length pre) (if f = [] then None else Some (length pre + length xs)) = xs"
  using uri_extract_piece(1)[of pre xs "''#'' @ f"] uri_extract_piece(2)[of pre xs]
  by (simp add: fragment_part_def)

lemma fragment_of:
  "uri_fragment u = [] \<Longrightarrow> uri_fragment (parse_fragment (pre @ xs @ fragment_part f)
     (if f = [] then None else Some (length pre + length xs)) u) = f"
  by (simp add: parse_fragment_def fragment_part_def)

lemma parse_fragment_frame:
  "uri_scheme (parse_fragment s p u) = uri_scheme u" "uri_host (parse_fragment s p u) = uri_host u"
  "uri_port (parse_fragment s p u) = uri_port u" "uri_query (parse_fragment s p u) = uri_query u"
  "uri_params (parse_fragment s p u) = uri_params u"
  by (cases p; simp add: parse_fragment_def)+

lemma original_string_parse_path: "uri_original_string (parse_path s p u) = uri_original_string u"
  by (simp add: parse_path_def parse_params_def parse_fragment_def assemble_full_path_def Let_def split: option.split)

definition query_params :: "string \<Rightarrow> string_items" where
  "query_params query = (case dict_parse (=) query (CHR ''&'') (CHR ''='') [] of
     Some (_, d) \<Rightarrow> map (\<lambda>e. (fst e, c_str (url_decode (snd e)))) d | None \<Rightarrow> [])"

lemma parse_params_fresh:
  "uri_params u = [] \<Longrightarrow> uri_params (parse_params s p e u) = query_params (uri_query (parse_params s p e u))"
  by (simp add: parse_params_def query_params_def Let_def split: option.split)

lemma query_params_Nil [simp]: "query_params [] = []"
  by (simp add: query_params_def dict_parse_def split_char_def)

lemma parse_path_pieces:
  fixes u :: simple_uri
  assumes "CHR ''?'' \<notin> set path" and "CHR ''#'' \<notin> set path" and "CHR ''#'' \<notin> set query"
    and "query = [] \<longrightarrow> CHR ''?'' \<notin> set fragment" and "uri_query u = []" and "uri_fragment u = []"
    and "uri_params u = []" and u'_def: "u' = parse_path (pre @ path @ query_part query @ fragment_part fragment) (Some (length pre)) u"
  shows "uri_path u' = path \<and> uri_query u' = query \<and> uri_fragment u' = fragment
    \<and> uri_scheme u' = uri_scheme u \<and> uri_host u' = uri_host u \<and> uri_port u' = uri_port u
    \<and> uri_params u' = query_params query"
proof (cases "query = []")
  case True
  have "CHR ''?'' \<notin> set (path @ fragment_part fragment)" using assms(1,4) True by (simp add: fragment_part_def)
  then have q: "find_char (CHR ''?'') (pre @ path @ fragment_part fragment) (length pre) = None"
    by (rule find_char_miss) simp
  then show ?thesis
    using True assms(5,7) find_fragment[OF assms(2), of pre fragment] extract_before_fragment[of pre path fragment]
      fragment_of[OF assms(6), of pre path fragment]
    unfolding u'_def by (simp add: query_part_def parse_path_def Let_def assemble_full_path_def parse_fragment_frame)
next
  case False
  let ?s = "pre @ path @ CHR ''?'' # query @ fragment_part fragment" and ?pre = "pre @ path @ [CHR ''?'']"
  have s: "?s = ?pre @ query @ fragment_part fragment" by simp
  have q: "find_char (CHR ''?'') ?s (length pre) = Some (length pre + length path)"
    by (rule find_char_hit[OF assms(1) refl])
  have len: "length pre + length path + 1 = length ?pre" by simp
  have f: "find_char (CHR ''#'') ?s (length pre + length path + 1)
      = (if fragment = [] then None else Some (length ?pre + length query))"
    unfolding s len by (rule find_fragment[OF assms(3)])
  have e: "uri_extract ?s (length pre + length path + 1) (if fragment = [] then None else Some (length ?pre + length query)) = query"
    unfolding s len by (rule extract_before_fragment)
  have g: "uri_fragment (parse_fragment ?s (if fragment = [] then None else Some (length ?pre + length query)) u) = fragment"
    unfolding s by (rule fragment_of[OF assms(6)])
  have p: "take (length pre + length path - length pre) (drop (length pre) ?s) = path" by simp
  have "pre @ path @ query_part query @ fragment_part fragment = ?s" using False by (simp add: query_part_def)
  then have "u' = parse_path ?s (Some (length pre)) u" unfolding u'_def by simp
  then show ?thesis
    using e g p assms(7) by (simp only: parse_path_def q f Let_def option.case)
      (simp add: parse_params_def Let_def assemble_full_path_def parse_fragment_frame query_params_def
        split: option.split del: drop_append)
qed

lemma parse_host_pieces:
  assumes "CHR '':'' \<notin> set host" and "uri_scheme u \<noteq> []" and "0 \<le> port"
    and "portpart = '':'' @ numerics_format port \<or> portpart = [] \<and> get_port (uri_scheme u) 0 = port"
  shows "parse_host_and_port (pre @ host @ portpart @ rest) (length pre)
    (length pre + length host + length portpart) u = (True, u\<lparr>uri_host := host, uri_port := port\<rparr>)"
  using assms(4)
proof
  assume p: "portpart = '':'' @ numerics_format port"
  have f: "find_char (CHR '':'') (pre @ host @ portpart @ rest) (length pre) = Some (length pre + length host)"
    using find_char_hit[OF assms(1) refl, of pre "numerics_format port @ rest"] p by simp
  have "numerics_try_parse (numerics_format port) = Some port" using try_parse_format[of "[]" port] by simp
  then show ?thesis unfolding parse_host_and_port_def f by (simp add: p)
next
  assume p: "portpart = [] \<and> get_port (uri_scheme u) 0 = port"
  show ?thesis
  proof (cases "find_char (CHR '':'') (pre @ host @ rest) (length pre)")
    case None
    then show ?thesis using p assms(2) by (simp add: parse_host_and_port_def)
  next
    case (Some pos)
    then have "\<not> pos < length pre + length host" using find_char_behind[OF assms(1) Some] by simp
    then show ?thesis using p assms(2) Some by (simp add: parse_host_and_port_def)
  qed
qed

lemma scheme_found:
  assumes "list_all is_alpha scheme"
  shows "find_string ''://'' (scheme @ ''://'' @ r) 0 = Some (length scheme)"
  using assms
proof (induction scheme)
  case Nil
  then show ?case by (simp add: find_string_def)
next
  case (Cons c scheme)
  have "c \<noteq> CHR '':''" using Cons.prems by (auto simp: is_alpha_def is_upper_def is_lower_def code_of_def)
  then show ?case using Cons by (simp add: find_string_def)
qed

subsection \<open>Printing and parsing a URI\<close>

definition uri_ok :: "simple_uri \<Rightarrow> bool" where
  "uri_ok u \<longleftrightarrow> uri_scheme u \<noteq> [] \<and> list_all is_alpha (uri_scheme u)
     \<and> uri_host u \<noteq> [] \<and> CHR ''/'' \<notin> set (uri_host u) \<and> CHR '':'' \<notin> set (uri_host u)
     \<and> 0 \<le> uri_port u \<and> uri_port u < 2 ^ 31 \<and> (uri_port u = 0 \<longrightarrow> get_port (uri_scheme u) 0 = 0)
     \<and> (\<exists>p. uri_path u = CHR ''/'' # p) \<and> CHR ''?'' \<notin> set (uri_path u) \<and> CHR ''#'' \<notin> set (uri_path u)
     \<and> CHR ''#'' \<notin> set (uri_query u) \<and> (uri_query u = [] \<longrightarrow> CHR ''?'' \<notin> set (uri_fragment u))"

definition port_part :: "simple_uri \<Rightarrow> string" where
  "port_part u = (if uri_port u > 0 \<and> \<not> (uri_scheme u = ''http'' \<and> uri_port u = 80)
     then '':'' @ numerics_format (uri_port u) else [])"

lemma port_part_cases:
  assumes "uri_ok u" and "uri_scheme v = uri_scheme u"
  shows "port_part u = '':'' @ numerics_format (uri_port u)
    \<or> port_part u = [] \<and> get_port (uri_scheme v) 0 = uri_port u"
proof -
  have "get_port ''http'' 0 = 80" by code_simp
  moreover have "uri_port u = 0 \<longrightarrow> get_port (uri_scheme u) 0 = 0" "0 \<le> uri_port u"
    using assms(1) by (simp_all add: uri_ok_def)
  ultimately show ?thesis using assms(2) by (cases "uri_port u = 0") (auto simp: port_part_def)
qed

lemma port_part_no_slash: "0 \<le> uri_port u \<Longrightarrow> CHR ''/'' \<notin> set (port_part u)"
proof -
  have "\<not> is_digit (CHR ''/'')" by (simp add: is_digit_def code_of_def)
  then have "CHR ''/'' \<notin> set (dec_digits (nat (uri_port u)))"
    using dec_digits_ok[of "nat (uri_port u)"] by (auto simp: list_all_iff)
  then show "0 \<le> uri_port u \<Longrightarrow> CHR ''/'' \<notin> set (port_part u)" by (simp add: port_part_def numerics_format_def)
qed

lemma uri_parse_assembled:
  assumes "uri_ok u"
  shows "\<exists>u'. uri_parse (Some (uri_assemble u)) v = (True, u') \<and> uri_original_string u' = uri_assemble u
    \<and> uri_scheme u' = uri_scheme u \<and> uri_host u' = uri_host u \<and> uri_port u' = uri_port u
    \<and> uri_path u' = uri_path u \<and> uri_query u' = uri_query u \<and> uri_fragment u' = uri_fragment u
    \<and> uri_params u' = query_params (uri_query u)"
proof -
  let ?s = "uri_assemble u" and ?pre = "uri_scheme u @ ''://''"
  let ?tail = "uri_path u @ query_part (uri_query u) @ fragment_part (uri_fragment u)"
  note ok = assms[unfolded uri_ok_def]
  have s: "?s = ?pre @ uri_host u @ port_part u @ ?tail"
    using ok by (simp add: uri_assemble_def port_part_def query_part_def fragment_part_def)
  define w where "w = (uri_clear v)\<lparr>uri_original_string := ?s, uri_scheme := uri_scheme u\<rparr>"
  have w: "uri_scheme w = uri_scheme u" "uri_query w = []" "uri_fragment w = []" "uri_params w = []" "uri_original_string w = ?s"
    by (simp_all add: w_def uri_clear_def sa_clear_def)
  let ?w = "w\<lparr>uri_host := uri_host u, uri_port := uri_port u\<rparr>"
  let ?at = "length ?pre + length (uri_host u) + length (port_part u)"
  obtain p where p: "uri_path u = CHR ''/'' # p" using ok by blast
  have slash: "find_char (CHR ''/'') ?s (length ?pre) = Some ?at"
    using find_char_hit[of "CHR ''/''" "uri_host u @ port_part u" "length ?pre" ?pre] ok port_part_no_slash[of u]
    unfolding s p by (simp add: add.assoc)
  have host: "parse_host_and_port ?s (length ?pre) ?at w = (True, ?w)"
    unfolding s using parse_host_pieces[of "uri_host u" w "uri_port u" "port_part u" ?pre ?tail]
      ok w port_part_cases[OF assms w(1)] by simp
  let ?hp = "?pre @ uri_host u @ port_part u"
  define x where "x = parse_path ?s (Some ?at) ?w"
  have len: "?at = length ?hp" by simp
  have x: "x = parse_path (?hp @ ?tail) (Some (length ?hp)) ?w"
    unfolding x_def by (simp only: len s append_assoc)
  have path: "uri_path x = uri_path u \<and> uri_query x = uri_query u \<and> uri_fragment x = uri_fragment u
      \<and> uri_scheme x = uri_scheme ?w \<and> uri_host x = uri_host ?w \<and> uri_port x = uri_port ?w
      \<and> uri_params x = query_params (uri_query u)"
    by (rule parse_path_pieces[OF _ _ _ _ _ _ _ x]) (use ok w in simp_all)
  have "uri_parse (Some ?s) v = parse_with_scheme ?s (length ?pre) w"
    using scheme_found[of "uri_scheme u"] ok unfolding s
    by (simp add: uri_parse_def w_def Let_def s numeral_3_eq_3)
  also have "\<dots> = (True, x)"
    unfolding parse_with_scheme_def slash x_def using host ok by simp
  finally show ?thesis using path w original_string_parse_path[of ?s "Some ?at" ?w] by (simp add: x_def)
qed

text \<open>
  C36. Printing a URI with a scheme and a host and parsing the text gives its scheme, host, port, path,
  query and fragment back: the default port of HTTP is left out and found again, an empty query
  or fragment leaves no trace. The scheme is made of letters; the path must start with a slash and hold neither question mark
  nor hash, the host neither slash nor colon, the query no hash, a question mark may stand
  in the fragment only behind a query, and the port is an \<open>int\<close>, not negative, and zero only for a scheme without a default port.
\<close>

theorem uri_parse_assemble:
  assumes "uri_ok u"
  shows "\<exists>u'. uri_parse (Some (uri_assemble u)) v = (True, u') \<and> uri_original_string u' = uri_assemble u
    \<and> uri_scheme u' = uri_scheme u \<and> uri_host u' = uri_host u \<and> uri_port u' = uri_port u
    \<and> uri_path u' = uri_path u \<and> uri_query u' = uri_query u \<and> uri_fragment u' = uri_fragment u"
  using uri_parse_assembled[OF assms, of v] by blast

theorem uri_parse_assemble_witness:
  "\<exists>u'. uri_parse (Some ''http://www.host.com:81/dir/f.ext?k=v#x'') uri_init = (True, u')
    \<and> uri_host u' = ''www.host.com'' \<and> uri_port u' = 81 \<and> uri_path u' = ''/dir/f.ext'' \<and> uri_query u' = ''k=v''"
proof -
  let ?u = "uri_init\<lparr>uri_scheme := ''http'', uri_host := ''www.host.com'', uri_port := 81,
    uri_path := ''/dir/f.ext'', uri_query := ''k=v'', uri_fragment := ''x''\<rparr>"
  have "list_all is_alpha ''http''" by code_simp
  then have ok: "uri_ok ?u" by (simp add: uri_ok_def)
  have "uri_assemble ?u = ''http://www.host.com:81/dir/f.ext?k=v#x''" by code_simp
  then show ?thesis using uri_parse_assemble[OF ok, of uri_init] by auto
qed

text \<open>The query of a table is its entries joined by ampersands.\<close>

lemma query_of_items_rest: "query_of_items False es = join_rest ''&'' (map (entry_text (CHR ''='')) es)"
  by (induction es) (simp_all add: entry_text_def)

lemma query_of_items_join: "query_of_items True es = join ''&'' (map (entry_text (CHR ''='')) es)"
  by (cases es) (simp_all add: entry_text_def query_of_items_rest)

definition encode_items :: "string_items \<Rightarrow> string_items" where
  "encode_items = map (\<lambda>e. (fst e, url_encode True (snd e)))"

definition param_ok :: "string \<times> string \<Rightarrow> bool" where
  "param_ok e \<longleftrightarrow> fst e \<noteq> [] \<and> list_all (\<lambda>c. code_of c \<noteq> 0) (fst e) \<and> list_all (\<lambda>c. code_of c \<noteq> 0) (snd e)
     \<and> CHR ''&'' \<notin> set (fst e) \<and> CHR ''='' \<notin> set (fst e) \<and> CHR ''#'' \<notin> set (fst e)"

lemma url_safe_chars: "url_safe c \<Longrightarrow> c \<noteq> CHR ''&'' \<and> c \<noteq> CHR ''#'' \<and> code_of c \<noteq> 0"
  by (auto simp: url_safe_def url_plain_def is_alnum_def is_digit_def is_upper_def is_lower_def code_of_def)

lemma url_encode_chars:
  "CHR ''&'' \<notin> set (url_encode True v) \<and> CHR ''#'' \<notin> set (url_encode True v) \<and> list_all (\<lambda>c. code_of c \<noteq> 0) (url_encode True v)"
  using url_encode_safe[of True v] url_safe_chars by (fastforce simp: list_all_iff)

lemma query_params_encoded:
  assumes "list_all param_ok es" and "distinct (map fst es)"
  shows "query_params (query_of_items True (encode_items es)) = es"
proof -
  have "list_all (entry_ok (CHR ''&'') (CHR ''='')) (encode_items es)"
    using assms(1) url_encode_chars by (auto simp: encode_items_def list_all_iff entry_ok_def param_ok_def)
  moreover have "distinct (map fst (encode_items es))" using assms(2) by (simp add: encode_items_def comp_def)
  ultimately have "dict_parse (=) (query_of_items True (encode_items es)) (CHR ''&'') (CHR ''='') []
      = Some (length (encode_items es), encode_items es)"
    unfolding query_of_items_join by (intro dict_parse_entries) simp_all
  moreover have "map (\<lambda>e. (fst e, c_str (url_decode (snd e)))) (encode_items es) = es"
    using assms(1) by (induction es) (auto simp: encode_items_def param_ok_def url_decode_encode c_str_id)
  ultimately show ?thesis by (simp add: query_params_def)
qed

lemma query_no_hash: "list_all param_ok es \<Longrightarrow> CHR ''#'' \<notin> set (query_of_items b (encode_items es))"
  by (induction es arbitrary: b) (auto simp: encode_items_def param_ok_def url_encode_chars)

text \<open>
  C35. \<open>encode\<close> makes a URI text from which parsing recovers the parameters, for a URI with a scheme, a host and a path
  as in the round trip of \<open>assemble\<close>: whatever characters the
  values hold (NUL excepted), the table parsed from the encoded URI is the table before, in order,
  when it is not empty and the keys are different, not empty and free of NUL, ampersand, equals sign and hash.
\<close>

theorem uri_encode_roundtrip:
  assumes "list_all param_ok (uri_params u)" and "distinct (map fst (uri_params u))" and "uri_params u \<noteq> []"
    and "uri_ok (u\<lparr>uri_query := []\<rparr>)"
  shows "\<exists>u'. uri_parse (Some (uri_original_string (uri_encode u))) v = (True, u')
    \<and> uri_params u' = uri_params u \<and> uri_host u' = uri_host u \<and> uri_path u' = uri_path u"
proof -
  define e where "e = u\<lparr>uri_params := encode_items (uri_params u), uri_query := query_of_items True (encode_items (uri_params u))\<rparr>"
  define e' where "e' = assemble_full_path e"
  have enc: "uri_original_string (uri_encode u) = uri_assemble e'"
    by (simp add: uri_encode_def assemble_query_def Let_def e'_def e_def encode_items_def)
  have e': "uri_query e' = query_of_items True (encode_items (uri_params u))" "uri_host e' = uri_host u"
      "uri_path e' = uri_path u" "uri_scheme e' = uri_scheme u" "uri_port e' = uri_port u" "uri_fragment e' = uri_fragment u"
    by (simp_all add: e'_def e_def assemble_full_path_def)
  have "uri_query e' \<noteq> []" using assms(3) by (cases "uri_params u") (simp_all add: e' encode_items_def)
  then have "uri_ok e'" using assms(4) query_no_hash[OF assms(1), of True] by (simp add: uri_ok_def e')
  from uri_parse_assembled[OF this, of v] show ?thesis
    unfolding enc e' using query_params_encoded[OF assms(1,2)] by auto
qed

theorem uri_encode_roundtrip_witness:
  "\<exists>u'. uri_parse (Some (uri_original_string (uri_encode (uri_init\<lparr>uri_scheme := ''http'', uri_host := ''h'',
     uri_port := 80, uri_path := ''/p'', uri_params := [(''key'', ''a b&c'')]\<rparr>)))) uri_init = (True, u')
    \<and> uri_params u' = [(''key'', ''a b&c'')]"
proof -
  let ?u = "uri_init\<lparr>uri_scheme := ''http'', uri_host := ''h'', uri_port := 80, uri_path := ''/p'',
    uri_params := [(''key'', ''a b&c'')]\<rparr>"
  have "list_all is_alpha ''http''" by code_simp
  then have ok: "uri_ok (?u\<lparr>uri_query := []\<rparr>)" by (simp add: uri_ok_def uri_init_def)
  have "list_all param_ok (uri_params ?u)" by code_simp
  from uri_encode_roundtrip[OF this _ _ ok, of uri_init] show ?thesis by auto
qed

text \<open>
  A URI with a scheme but no slash behind the host is accepted with an empty host, no port and an
  empty path: whatever follows the scheme is not looked at.
\<close>

theorem uri_host_without_path_lost:
  assumes "list_all is_alpha scheme" and "CHR ''/'' \<notin> set rest"
  shows "uri_parse (Some (scheme @ ''://'' @ rest)) v
    = (True, (uri_clear v)\<lparr>uri_original_string := scheme @ ''://'' @ rest, uri_scheme := scheme\<rparr>)"
proof -
  have "find_char (CHR ''/'') ((scheme @ ''://'') @ rest) (length (scheme @ ''://'')) = None"
    by (rule find_char_miss[OF assms(2)]) simp
  then show ?thesis
    using scheme_found[OF assms(1), of rest] assms(1)
    by (simp add: uri_parse_def Let_def parse_with_scheme_def parse_path_def numeral_3_eq_3)
qed

theorem uri_host_without_path_lost_witness:
  "\<exists>u. uri_parse (Some ''xyz://www.host.com'') uri_init = (True, u) \<and> uri_host u = []"
proof -
  have "list_all is_alpha ''xyz''" by code_simp
  then show ?thesis
    using uri_host_without_path_lost[of "''xyz''" "''www.host.com''" uri_init] by (simp add: uri_clear_def)
qed

end
