(* ===== verification/Flow_Meter.thy ===== *)
theory Flow_Meter
  imports Xul_Prelude
begin

text \<open>
  \<^verbatim>\<open>include/xul/util/flow_meter.hpp\<close>: the sliding window flow meters. The counters
  of a \<open>meter_count\<close> are of type \<open>int\<close> and the totals of type \<open>int64_t\<close>: every sum is cut to its type
  with \<open>c_int\<close> and \<open>c_int64\<close>, and the properties name the bounds below which nothing wraps (in C++ the
  overflow itself is undefined). The number of updates (an \<open>int\<close>) is a natural number below \<open>2^31\<close>.
  The clock is an argument: the time elapsed since the last \<open>update\<close> or since
  the start, in milliseconds.
\<close>

subsection \<open>meter_count\<close>

record meter_count =
  mc_bytes :: int
  mc_packets :: int

definition mc_clear :: meter_count where
  "mc_clear = \<lparr>mc_bytes = 0, mc_packets = 0\<rparr>"

definition mc_plus :: "meter_count \<Rightarrow> meter_count \<Rightarrow> meter_count" where
  "mc_plus x y = \<lparr>mc_bytes = c_int (mc_bytes x + mc_bytes y), mc_packets = c_int (mc_packets x + mc_packets y)\<rparr>"

definition mc_minus :: "meter_count \<Rightarrow> meter_count \<Rightarrow> meter_count" where
  "mc_minus x y = \<lparr>mc_bytes = c_int (mc_bytes x - mc_bytes y), mc_packets = c_int (mc_packets x - mc_packets y)\<rparr>"

definition mc_add :: "int \<Rightarrow> meter_count \<Rightarrow> meter_count" where
  "mc_add count x = \<lparr>mc_bytes = c_int (mc_bytes x + count), mc_packets = c_int (mc_packets x + 1)\<rparr>"

subsection \<open>flow_meter\<close>

record flow_meter =
  fm_counts :: "meter_count list"
  fm_update_times :: nat
  fm_total_bytes :: int
  fm_total_packets :: int
  fm_recent :: meter_count
  fm_latest :: meter_count

definition fm_clear :: "flow_meter \<Rightarrow> flow_meter" where
  "fm_clear s = s\<lparr>fm_counts := map (\<lambda>_. mc_clear) (fm_counts s), fm_total_bytes := 0,
     fm_total_packets := 0, fm_recent := mc_clear, fm_latest := mc_clear, fm_update_times := 0\<rparr>"

definition fm_init :: "nat \<Rightarrow> flow_meter" where
  "fm_init unit_count = \<lparr>fm_counts = replicate unit_count mc_clear, fm_update_times = 0,
     fm_total_bytes = 0, fm_total_packets = 0, fm_recent = mc_clear, fm_latest = mc_clear\<rparr>"

definition fm_add :: "int \<Rightarrow> flow_meter \<Rightarrow> flow_meter" where
  "fm_add count s = s\<lparr>fm_latest := mc_add count (fm_latest s), fm_recent := mc_add count (fm_recent s),
     fm_total_bytes := c_int64 (fm_total_bytes s + count), fm_total_packets := c_int64 (fm_total_packets s + 1)\<rparr>"

definition fm_update :: "flow_meter \<Rightarrow> flow_meter" where
  "fm_update s =
     (let position = fm_update_times s mod length (fm_counts s)
      in s\<lparr>fm_recent := mc_minus (fm_recent s) (fm_counts s ! position),
           fm_counts := (fm_counts s)[position := fm_latest s],
           fm_latest := mc_clear, fm_update_times := fm_update_times s + 1\<rparr>)"

text \<open>The rates: C division of amounts that are not negative.\<close>

definition fm_times :: "flow_meter \<Rightarrow> nat" where
  "fm_times s = (if fm_update_times s < length (fm_counts s) then fm_update_times s else length (fm_counts s))"

definition fm_get_rate :: "int \<Rightarrow> flow_meter \<Rightarrow> int" where
  "fm_get_rate elapsed s =
     (if fm_update_times s = 0 then mc_bytes (fm_latest s)
      else let used_time = int (fm_times s) * 1000 + elapsed in c_int (mc_bytes (fm_recent s) * 1000 div used_time))"

definition fm_get_packet_rate :: "int \<Rightarrow> flow_meter \<Rightarrow> int" where
  "fm_get_packet_rate elapsed s =
     (if fm_update_times s = 0 then mc_packets (fm_latest s)
      else let used_time = int (fm_times s) * 1000 + elapsed in c_int (mc_packets (fm_recent s) * 1000 div used_time))"

subsection \<open>The window a flow meter shows\<close>

datatype meter_call = Meter_Add nat | Meter_Update

fun fm_step :: "meter_call \<Rightarrow> flow_meter \<Rightarrow> flow_meter" where
  "fm_step (Meter_Add n) s = fm_add (int n) s"
| "fm_step Meter_Update s = fm_update s"

text \<open>The history: the amounts added in each interval between updates, the current one first.\<close>

fun meter_history :: "meter_call \<Rightarrow> nat list list \<Rightarrow> nat list list" where
  "meter_history (Meter_Add n) (xs # h) = (n # xs) # h"
| "meter_history (Meter_Add n) [] = [[n]]"
| "meter_history Meter_Update h = [] # h"

definition interval_count :: "nat list \<Rightarrow> meter_count" where
  "interval_count xs = \<lparr>mc_bytes = c_int (int (sum_list xs)), mc_packets = c_int (int (length xs))\<rparr>"

definition window_count :: "nat list list \<Rightarrow> meter_count" where
  "window_count h = interval_count (concat h)"

lemma interval_count_simps [simp]:
  "interval_count [] = mc_clear" "interval_count (x # xs) = mc_add (int x) (interval_count xs)"
  by (simp_all add: interval_count_def mc_clear_def mc_add_def add.commute)

lemma window_count_snoc: "window_count (h @ [xs]) = mc_plus (window_count h) (interval_count xs)"
  by (simp add: window_count_def interval_count_def mc_plus_def)

text \<open>Sums and differences wrap alike, so the recent counters show the window modulo \<open>2^32\<close>.\<close>

lemma mc_minus_plus [simp]:
  "mc_minus (mc_plus (window_count h) (interval_count xs)) (interval_count xs) = window_count h"
  "mc_minus (window_count h) mc_clear = window_count h"
  by (simp_all add: mc_minus_def mc_plus_def mc_clear_def window_count_def interval_count_def)

text \<open>
  The state after a history: the ring holds the completed intervals, the newest in the slot before
  the next update position.
\<close>

definition ring_ok :: "meter_count list \<Rightarrow> nat \<Rightarrow> nat list list \<Rightarrow> bool" where
  "ring_ok counts u h \<longleftrightarrow> (\<forall>k<length counts. counts ! ((u + (length counts - 1 - k)) mod length counts)
     = (if k < u then interval_count (h ! Suc k) else mc_clear))"

definition fm_shows :: "nat list list \<Rightarrow> flow_meter \<Rightarrow> bool" where
  "fm_shows h s \<longleftrightarrow> (let n = length (fm_counts s); u = fm_update_times s in
     0 < n \<and> length h = Suc u \<and> fm_latest s = interval_count (hd h)
     \<and> fm_recent s = window_count (take (Suc n) h)
     \<and> fm_total_bytes s = c_int64 (int (sum_list (concat h)))
     \<and> fm_total_packets s = c_int64 (int (length (concat h)))
     \<and> ring_ok (fm_counts s) u h)"

lemma fm_shows_init: "0 < n \<Longrightarrow> fm_shows [[]] (fm_init n)"
  by (auto simp: fm_shows_def fm_init_def window_count_def Let_def ring_ok_def mc_clear_def interval_count_def)

lemma fm_shows_add:
  assumes "fm_shows h s"
  shows "fm_shows (meter_history (Meter_Add m) h) (fm_add (int m) s)"
proof -
  obtain xs r where h: "h = xs # r" using assms by (cases h) (auto simp: fm_shows_def Let_def)
  show ?thesis using assms unfolding h
    by (auto simp: fm_shows_def fm_add_def Let_def ring_ok_def window_count_def mc_add_def interval_count_def ac_simps)
qed

text \<open>The slot that an update overwrites holds the interval that leaves the window.\<close>

lemma fm_shows_oldest:
  assumes "fm_shows h s"
  shows "fm_counts s ! (fm_update_times s mod length (fm_counts s))
    = (if length (fm_counts s) < length h then interval_count (h ! length (fm_counts s)) else mc_clear)"
proof -
  let ?n = "length (fm_counts s)"
  have n: "0 < ?n" "length h = Suc (fm_update_times s)" using assms by (auto simp: fm_shows_def Let_def)
  then have "fm_counts s ! ((fm_update_times s + (?n - 1 - (?n - 1))) mod ?n)
      = (if ?n - 1 < fm_update_times s then interval_count (h ! Suc (?n - 1)) else mc_clear)"
    using assms unfolding fm_shows_def Let_def ring_ok_def by (meson diff_less zero_less_one)
  moreover obtain m where "?n = Suc m" using n(1) gr0_conv_Suc by blast
  ultimately show ?thesis using n(2) by simp
qed

lemma window_take_Suc:
  "window_count (take (Suc n) h)
    = (if n < length h then mc_plus (window_count (take n h)) (interval_count (h ! n)) else window_count (take n h))"
  by (simp add: take_Suc_conv_app_nth window_count_snoc)

lemma ring_slot_kept:
  assumes "k < n" and "Suc k < n"
  shows "(u + (n - 1 - k)) mod n \<noteq> u mod (n :: nat)"
proof
  assume "(u + (n - 1 - k)) mod n = u mod n"
  then have "n dvd (n - 1 - k)" by (metis add_diff_cancel_left' le_add1 mod_eq_dvd_iff_nat)
  then show False using assms by (auto dest: dvd_imp_le)
qed

lemma fm_shows_update:
  assumes "fm_shows h s"
  shows "fm_shows ([] # h) (fm_update s)"
proof -
  let ?n = "length (fm_counts s)" and ?u = "fm_update_times s"
  have n: "0 < ?n" "length h = Suc ?u" "fm_latest s = interval_count (hd h)"
      "fm_recent s = window_count (take (Suc ?n) h)"
    and slots: "\<And>k. k < ?n \<Longrightarrow> fm_counts s ! ((?u + (?n - 1 - k)) mod ?n)
        = (if k < ?u then interval_count (h ! Suc k) else mc_clear)"
    and total: "fm_total_bytes s = c_int64 (int (sum_list (concat h)))"
      "fm_total_packets s = c_int64 (int (length (concat h)))"
    using assms by (auto simp: fm_shows_def Let_def ring_ok_def)
  have h: "h ! 0 = hd h" using n(2) by (cases h) auto
  have recent: "mc_minus (fm_recent s) (fm_counts s ! (?u mod ?n)) = window_count (take ?n h)"
    unfolding n(4) fm_shows_oldest[OF assms] window_take_Suc by simp
  have "(fm_counts s)[?u mod ?n := fm_latest s] ! ((Suc ?u + (?n - 1 - k)) mod ?n)
      = (if k < Suc ?u then interval_count (([] # h) ! Suc k) else mc_clear)" if k: "k < ?n" for k
  proof (cases k)
    case 0
    have "Suc ?u + (?n - 1 - 0) = ?u + ?n" using n(1) by arith
    then have "(Suc ?u + (?n - 1 - 0)) mod ?n = (?u + ?n) mod ?n" by (simp only:)
    also have "\<dots> = ?u mod ?n" by simp
    finally show ?thesis unfolding 0 using n h by (simp only: nth_list_update_eq mod_less_divisor) simp
  next
    case (Suc j)
    have "Suc ?u + (?n - 1 - k) = ?u + (?n - 1 - j)" using Suc k by simp
    moreover have "?u mod ?n \<noteq> (?u + (?n - 1 - j)) mod ?n" using ring_slot_kept[of j ?n ?u] Suc k by auto
    ultimately show ?thesis using slots[of j] Suc k by (simp del: One_nat_def)
  qed
  then have "ring_ok ((fm_counts s)[?u mod ?n := fm_latest s]) (Suc ?u) ([] # h)" by (simp add: ring_ok_def)
  then show ?thesis using n total recent
    by (simp add: fm_shows_def fm_update_def Let_def mc_clear_def window_count_def)
qed

lemma fm_step_length: "length (fm_counts (fm_step c s)) = length (fm_counts s)"
  by (cases c) (simp_all add: fm_add_def fm_update_def Let_def)

lemma fm_run_shows: "fm_shows h s \<Longrightarrow> fm_shows (fold meter_history cs h) (fold fm_step cs s)"
proof (induction cs arbitrary: h s)
  case (Cons c cs)
  then show ?case using fm_shows_add fm_shows_update by (cases c) (auto simp del: meter_history.simps(1))
qed simp

text \<open>
  The range in which nothing overflows: after every prefix of the calls, the bytes and packets of the
  current interval and of the last \<open>unit_count\<close> completed ones are below \<open>2^31\<close>, those of the whole
  history below \<open>2^63\<close>, and there were less than \<open>2^31\<close> updates.
\<close>

definition history_within :: "nat \<Rightarrow> nat list list \<Rightarrow> bool" where
  "history_within unit_count h \<longleftrightarrow>
     (let recent = concat (take (Suc unit_count) h) in
      sum_list recent < 2 ^ 31 \<and> length recent < 2 ^ 31
      \<and> sum_list (concat h) < 2 ^ 63 \<and> length (concat h) < 2 ^ 63 \<and> length h \<le> 2 ^ 31)"

fun calls_within :: "nat \<Rightarrow> meter_call list \<Rightarrow> nat list list \<Rightarrow> bool" where
  "calls_within unit_count [] h \<longleftrightarrow> history_within unit_count h"
| "calls_within unit_count (c # cs) h \<longleftrightarrow>
     history_within unit_count h \<and> calls_within unit_count cs (meter_history c h)"

lemma calls_within_end: "calls_within n cs h \<Longrightarrow> history_within n (fold meter_history cs h)"
  by (induction cs arbitrary: h) auto

text \<open>
  C4. The flow meter shows the sliding window it promises: after any sequence of \<open>add\<close> and \<open>update\<close>
  calls within the range of its counters (at every moment less than \<open>2^31\<close> bytes and packets in the
  window, less than \<open>2^63\<close> in total, less than \<open>2^31\<close> updates), the recent counters are the bytes and
  packets of the current interval and of the last \<open>unit_count\<close> completed ones, the totals are those
  of the whole history, and so the assertions of the code (no counter is ever negative) hold.
\<close>

theorem flow_meter_window:
  assumes "0 < unit_count" and "calls_within unit_count cs [[]]"
    and s: "s = fold fm_step cs (fm_init unit_count)" and h: "h = fold meter_history cs [[]]"
  shows "mc_bytes (fm_recent s) = int (sum_list (concat (take (Suc unit_count) h)))
    \<and> mc_packets (fm_recent s) = int (length (concat (take (Suc unit_count) h)))
    \<and> fm_total_bytes s = int (sum_list (concat h)) \<and> fm_total_packets s = int (length (concat h))
    \<and> 0 \<le> mc_bytes (fm_recent s) \<and> mc_bytes (fm_recent s) \<le> fm_total_bytes s"
proof -
  have sh: "fm_shows h s" unfolding s h using fm_run_shows[OF fm_shows_init[OF assms(1)]] by simp
  have "length (fm_counts (fold fm_step cs s')) = length (fm_counts s')" for s'
    by (induction cs arbitrary: s') (simp_all add: fm_step_length)
  then have n: "length (fm_counts s) = unit_count" by (simp add: s fm_init_def)
  have within: "history_within unit_count h" unfolding h by (rule calls_within_end[OF assms(2)])
  have parts: "sum_list (concat h) = sum_list (concat (take (Suc unit_count) h)) + sum_list (concat (drop (Suc unit_count) h))"
    by (metis append_take_drop_id concat_append sum_list_append)
  have "mc_bytes (fm_recent s) = int (sum_list (concat (take (Suc unit_count) h)))
      \<and> mc_packets (fm_recent s) = int (length (concat (take (Suc unit_count) h)))
      \<and> fm_total_bytes s = int (sum_list (concat h)) \<and> fm_total_packets s = int (length (concat h))"
    using sh n within
    by (simp add: fm_shows_def Let_def window_count_def interval_count_def history_within_def c_int_nat c_int64_nat)
  then show ?thesis using parts by simp
qed

theorem flow_meter_window_witness:
  "mc_bytes (fm_recent (fold fm_step [Meter_Add 10, Meter_Update, Meter_Add 20, Meter_Update, Meter_Add 5] (fm_init 1))) = 25"
  using flow_meter_window[of 1 "[Meter_Add 10, Meter_Update, Meter_Add 20, Meter_Update, Meter_Add 5]", OF _ _ refl refl]
  by (simp add: history_within_def)

text \<open>One byte more than the counters hold: the recent counters turn negative and the assertion of \<open>update\<close> fails.\<close>

lemma flow_meter_overflow:
  "mc_bytes (fm_recent (fold fm_step [Meter_Add (2 ^ 31 - 1), Meter_Add 1] (fm_init 5))) = - (2 ^ 31)"
  by (simp add: fm_add_def fm_init_def mc_add_def mc_clear_def c_int_shift)

subsection \<open>simple_flow_meter\<close>

record simple_flow_meter =
  sfm_counts :: "meter_count list"
  sfm_update_times :: nat
  sfm_last_position :: nat
  sfm_total_bytes :: int
  sfm_total_packets :: int
  sfm_recent :: meter_count
  sfm_latest :: meter_count

definition sfm_init :: "nat \<Rightarrow> simple_flow_meter" where
  "sfm_init unit_count = \<lparr>sfm_counts = replicate unit_count mc_clear, sfm_update_times = 0,
     sfm_last_position = 0, sfm_total_bytes = 0, sfm_total_packets = 0, sfm_recent = mc_clear, sfm_latest = mc_clear\<rparr>"

definition sfm_clear :: "simple_flow_meter \<Rightarrow> simple_flow_meter" where
  "sfm_clear s = s\<lparr>sfm_counts := map (\<lambda>_. mc_clear) (sfm_counts s), sfm_total_bytes := 0,
     sfm_total_packets := 0, sfm_recent := mc_clear, sfm_latest := mc_clear, sfm_update_times := 0,
     sfm_last_position := 0\<rparr>"

definition sfm_forget :: "nat \<Rightarrow> simple_flow_meter \<Rightarrow> simple_flow_meter" where
  "sfm_forget i s =
     (let offset = i mod length (sfm_counts s)
      in s\<lparr>sfm_recent := mc_minus (sfm_recent s) (sfm_counts s ! offset),
           sfm_counts := (sfm_counts s)[offset := mc_clear], sfm_update_times := sfm_update_times s + 1\<rparr>)"

definition sfm_step_next :: "nat \<Rightarrow> simple_flow_meter \<Rightarrow> simple_flow_meter" where
  "sfm_step_next pos0 s =
     (let pos = (if pos0 < sfm_last_position s then pos0 + length (sfm_counts s) else pos0);
          s' = fold sfm_forget [sfm_last_position s + 1..<pos + 1] s
      in s'\<lparr>sfm_last_position := pos mod length (sfm_counts s)\<rparr>)"

text \<open>
  \<open>timediff\<close>: the milliseconds since the start. The quotient is stored in an \<open>int\<close>, which the
  modulus by the size of the vector converts to \<open>size_t\<close>.
\<close>

definition sfm_position :: "nat \<Rightarrow> simple_flow_meter \<Rightarrow> nat" where
  "sfm_position timediff s =
     nat (c_int (int ((timediff + 1000 - 1) div 1000)) mod 2 ^ 64) mod length (sfm_counts s)"

definition sfm_update :: "nat \<Rightarrow> simple_flow_meter \<Rightarrow> simple_flow_meter" where
  "sfm_update timediff s =
     (let pos = sfm_position timediff s in if pos \<noteq> sfm_last_position s then sfm_step_next pos s else s)"

definition sfm_add :: "nat \<Rightarrow> int \<Rightarrow> simple_flow_meter \<Rightarrow> simple_flow_meter" where
  "sfm_add timediff count s0 =
     (let pos = sfm_position timediff s0;
          s = (if pos \<noteq> sfm_last_position s0 then sfm_step_next pos s0 else s0)
      in s\<lparr>sfm_counts := (sfm_counts s)[pos := mc_add count (sfm_counts s ! pos)],
           sfm_recent := mc_add count (sfm_recent s),
           sfm_total_bytes := c_int64 (sfm_total_bytes s + count), sfm_total_packets := c_int64 (sfm_total_packets s + 1)\<rparr>)"

definition sfm_get_rate :: "simple_flow_meter \<Rightarrow> int" where
  "sfm_get_rate s =
     (if sfm_update_times s = 0 then mc_bytes (sfm_latest s)
      else mc_bytes (sfm_recent s) div
        int (if sfm_update_times s < length (sfm_counts s) then sfm_update_times s else length (sfm_counts s)))"

definition sfm_get_packet_rate :: "simple_flow_meter \<Rightarrow> int" where
  "sfm_get_packet_rate s =
     (if sfm_update_times s = 0 then mc_packets (sfm_latest s)
      else mc_packets (sfm_recent s) div
        int (if sfm_update_times s < length (sfm_counts s) then sfm_update_times s else length (sfm_counts s)))"

datatype timed_call = Timed_Add nat nat | Timed_Update nat

fun sfm_step :: "timed_call \<Rightarrow> simple_flow_meter \<Rightarrow> simple_flow_meter" where
  "sfm_step (Timed_Add t n) s = sfm_add t (int n) s"
| "sfm_step (Timed_Update t) s = sfm_update t s"

text \<open>
  The invariant the assertions rely on, while less than \<open>2^31\<close> bytes and packets were added: the
  recent counters are the sums over the slots.
\<close>

definition sfm_ok :: "nat \<Rightarrow> simple_flow_meter \<Rightarrow> bool" where
  "sfm_ok n s \<longleftrightarrow> length (sfm_counts s) = n \<and> sfm_last_position s < n
     \<and> mc_bytes (sfm_recent s) = sum_list (map mc_bytes (sfm_counts s))
     \<and> mc_packets (sfm_recent s) = sum_list (map mc_packets (sfm_counts s))
     \<and> list_all (\<lambda>c. 0 \<le> mc_bytes c \<and> 0 \<le> mc_packets c) (sfm_counts s)
     \<and> sfm_latest s = mc_clear \<and> mc_bytes (sfm_recent s) \<le> sfm_total_bytes s
     \<and> mc_packets (sfm_recent s) \<le> sfm_total_packets s
     \<and> sfm_total_bytes s < 2 ^ 31 \<and> sfm_total_packets s < 2 ^ 31"

lemma sum_list_slot:
  "i < length xs \<Longrightarrow> sum_list (map f (xs[i := y])) = sum_list (map f xs) - f (xs ! i) + (f y :: int)"
proof (induction xs arbitrary: i)
  case (Cons x xs)
  then show ?case by (cases i) auto
qed simp

lemma slot_le_sum: "i < length xs \<Longrightarrow> list_all (\<lambda>x. 0 \<le> f x) xs \<Longrightarrow> f (xs ! i) \<le> (sum_list (map f xs) :: int)"
proof (induction xs arbitrary: i)
  case (Cons x xs)
  then have "0 \<le> sum_list (map f xs)" by (auto simp: list_all_iff intro!: sum_list_nonneg)
  with Cons show ?case by (cases i) (auto simp: add_increasing)
qed simp

text \<open>A slot is neither negative nor more than the recent counter.\<close>

lemma sfm_slot:
  assumes "sfm_ok n s" and "i < n"
  shows "0 \<le> mc_bytes (sfm_counts s ! i)" "mc_bytes (sfm_counts s ! i) \<le> mc_bytes (sfm_recent s)"
    and "0 \<le> mc_packets (sfm_counts s ! i)" "mc_packets (sfm_counts s ! i) \<le> mc_packets (sfm_recent s)"
  using assms slot_le_sum[of i "sfm_counts s" mc_bytes] slot_le_sum[of i "sfm_counts s" mc_packets]
  by (auto simp: sfm_ok_def list_all_length)

lemma sfm_ok_forget:
  assumes "0 < n" and ok: "sfm_ok n s"
  shows "sfm_ok n (sfm_forget i s) \<and> sfm_last_position (sfm_forget i s) = sfm_last_position s
    \<and> sfm_total_bytes (sfm_forget i s) = sfm_total_bytes s \<and> sfm_total_packets (sfm_forget i s) = sfm_total_packets s"
proof -
  define k where "k = i mod n"
  have k: "k < n" "length (sfm_counts s) = n" using assms by (simp_all add: k_def sfm_ok_def)
  have b: "mc_bytes (sfm_recent s) < 2 ^ 31" "mc_packets (sfm_recent s) < 2 ^ 31"
    using ok by (auto simp: sfm_ok_def)
  have "mc_minus (sfm_recent s) (sfm_counts s ! k) = \<lparr>mc_bytes = mc_bytes (sfm_recent s) - mc_bytes (sfm_counts s ! k),
      mc_packets = mc_packets (sfm_recent s) - mc_packets (sfm_counts s ! k)\<rparr>"
    using sfm_slot[OF ok k(1)] b by (simp add: mc_minus_def c_int_id)
  then show ?thesis using ok k sfm_slot[OF ok k(1)]
    by (auto simp: sfm_ok_def sfm_forget_def Let_def sum_list_slot mc_clear_def list_all_length nth_list_update k_def[symmetric])
qed

lemma sfm_ok_step_next:
  assumes n: "0 < n" "sfm_ok n s" "pos < n"
  shows "sfm_ok n (sfm_step_next pos s) \<and> sfm_last_position (sfm_step_next pos s) = pos
    \<and> sfm_total_bytes (sfm_step_next pos s) = sfm_total_bytes s
    \<and> sfm_total_packets (sfm_step_next pos s) = sfm_total_packets s"
proof -
  have f: "sfm_ok n (fold sfm_forget is' t) \<and> sfm_total_bytes (fold sfm_forget is' t) = sfm_total_bytes t
      \<and> sfm_total_packets (fold sfm_forget is' t) = sfm_total_packets t" if "sfm_ok n t" for is' t
    using that by (induction is' arbitrary: t) (use sfm_ok_forget[OF n(1)] in auto)
  have len: "length (sfm_counts s) = n" using n(2) by (simp add: sfm_ok_def)
  have upd: "sfm_ok n (t\<lparr>sfm_last_position := p\<rparr>)" if "sfm_ok n t" "p < n" for t p
    using that by (simp add: sfm_ok_def)
  show ?thesis using upd f[OF n(2)] n len
    by (simp add: sfm_step_next_def Let_def del: upt_Suc)
qed

lemma sfm_ok_sync:
  assumes "0 < n" and "sfm_ok n s" and "pos = sfm_position t s"
    and u: "u = (if pos \<noteq> sfm_last_position s then sfm_step_next pos s else s)"
  shows "sfm_ok n u" and "pos < n" and "sfm_total_bytes u = sfm_total_bytes s" and "sfm_total_packets u = sfm_total_packets s"
proof -
  show pos: "pos < n" using assms by (simp add: sfm_position_def sfm_ok_def)
  show "sfm_ok n u" "sfm_total_bytes u = sfm_total_bytes s" "sfm_total_packets u = sfm_total_packets s"
    using assms pos sfm_ok_step_next[OF assms(1,2) pos] by auto
qed

text \<open>The bytes and packets that calls add.\<close>

fun timed_bytes :: "timed_call list \<Rightarrow> nat" where
  "timed_bytes [] = 0"
| "timed_bytes (Timed_Add t n # cs) = n + timed_bytes cs"
| "timed_bytes (Timed_Update t # cs) = timed_bytes cs"

lemma sfm_ok_add:
  assumes "0 < n" and ok: "sfm_ok n s"
    and room: "sfm_total_bytes s + int m < 2 ^ 31" "sfm_total_packets s + 1 < 2 ^ 31"
  shows "sfm_ok n (sfm_add t (int m) s) \<and> sfm_total_bytes (sfm_add t (int m) s) = sfm_total_bytes s + int m
    \<and> sfm_total_packets (sfm_add t (int m) s) = sfm_total_packets s + 1"
proof -
  let ?pos = "sfm_position t s"
  define u where "u = (if ?pos \<noteq> sfm_last_position s then sfm_step_next ?pos s else s)"
  note u = sfm_ok_sync[OF assms(1) ok refl u_def]
  note slot = sfm_slot[OF u(1,2)]
  have b: "mc_bytes (sfm_recent u) \<le> sfm_total_bytes s" "mc_packets (sfm_recent u) \<le> sfm_total_packets s"
    using u by (auto simp: sfm_ok_def)
  have add: "mc_add (int m) c = \<lparr>mc_bytes = mc_bytes c + int m, mc_packets = mc_packets c + 1\<rparr>"
    if "0 \<le> mc_bytes c" "mc_bytes c \<le> mc_bytes (sfm_recent u)" "0 \<le> mc_packets c" "mc_packets c \<le> mc_packets (sfm_recent u)" for c
    using that b room by (simp add: mc_add_def c_int_id)
  have tot: "c_int64 (sfm_total_bytes u + int m) = sfm_total_bytes s + int m"
      "c_int64 (sfm_total_packets u + 1) = sfm_total_packets s + 1"
    using u b room slot by (simp_all add: c_int64_id)
  have "sfm_add t (int m) s = u\<lparr>sfm_counts := (sfm_counts u)[?pos := mc_add (int m) (sfm_counts u ! ?pos)],
      sfm_recent := mc_add (int m) (sfm_recent u), sfm_total_bytes := sfm_total_bytes s + int m,
      sfm_total_packets := sfm_total_packets s + 1\<rparr>"
    by (simp add: sfm_add_def u_def[symmetric] Let_def tot)
  moreover have "mc_bytes (sfm_recent u) = sum_list (map mc_bytes (sfm_counts u))" "?pos < length (sfm_counts u)"
      "mc_packets (sfm_recent u) = sum_list (map mc_packets (sfm_counts u))" using u by (auto simp: sfm_ok_def)
  ultimately show ?thesis using u(1) slot b room
    by (auto simp: sfm_ok_def sum_list_slot add list_all_length nth_list_update)
qed

lemma sfm_run_ok:
  assumes "0 < n"
  shows "sfm_ok n s \<Longrightarrow> sfm_total_bytes s + int (timed_bytes cs) < 2 ^ 31 \<Longrightarrow>
    sfm_total_packets s + int (length cs) < 2 ^ 31 \<Longrightarrow> sfm_ok n (fold sfm_step cs s)"
proof (induction cs arbitrary: s)
  case (Cons c cs)
  show ?case
  proof (cases c)
    case (Timed_Add t m)
    then show ?thesis using Cons.IH[of "sfm_add t (int m) s"] Cons.prems sfm_ok_add[OF assms Cons.prems(1), of m t]
      by (simp add: add.assoc)
  next
    case (Timed_Update t)
    then show ?thesis using Cons.IH[of "sfm_update t s"] Cons.prems sfm_ok_sync[OF assms Cons.prems(1) refl refl, of t]
      by (simp add: sfm_update_def Let_def)
  qed
qed simp

lemma sfm_ok_init: "0 < n \<Longrightarrow> sfm_ok n (sfm_init n)"
  by (simp add: sfm_ok_def sfm_init_def mc_clear_def sum_list_replicate list_all_iff)

text \<open>
  The assertions of the simple flow meter hold while less than \<open>2^31\<close> bytes were added in less than
  \<open>2^31\<close> calls: after any such calls at any times, the recent counters are the sums over the slots,
  neither they nor any slot is negative, the rates are not negative, and until the position moves
  for the first time the rate is zero, whatever was added.
\<close>

theorem simple_flow_meter_invariant:
  assumes "0 < unit_count" and "timed_bytes cs < 2 ^ 31" and "length cs < 2 ^ 31"
    and "s = fold sfm_step cs (sfm_init unit_count)"
  shows "mc_bytes (sfm_recent s) = sum_list (map mc_bytes (sfm_counts s))
    \<and> list_all (\<lambda>c. 0 \<le> mc_bytes c \<and> 0 \<le> mc_packets c) (sfm_counts s)
    \<and> 0 \<le> mc_bytes (sfm_recent s) \<and> 0 \<le> mc_packets (sfm_recent s) \<and> 0 \<le> sfm_get_rate s
    \<and> (sfm_update_times s = 0 \<longrightarrow> sfm_get_rate s = 0)"
proof -
  have "sfm_ok unit_count s"
    using sfm_run_ok[OF assms(1) sfm_ok_init[OF assms(1)], of cs] assms by (simp add: sfm_init_def)
  moreover from this have "0 \<le> mc_bytes (sfm_recent s)" "0 \<le> mc_packets (sfm_recent s)"
    by (auto simp: sfm_ok_def list_all_iff intro!: sum_list_nonneg)
  ultimately show ?thesis by (auto simp: sfm_ok_def sfm_get_rate_def mc_clear_def intro!: pos_imp_zdiv_nonneg_iff[THEN iffD2] div_int_pos_iff[THEN iffD2])
qed

theorem simple_flow_meter_invariant_witness:
  "sfm_get_rate (fold sfm_step [Timed_Add 0 1000, Timed_Add 0 500] (sfm_init 5)) = 0"
proof -
  have "sfm_update_times (fold sfm_step [Timed_Add 0 1000, Timed_Add 0 500] (sfm_init 5)) = 0"
    by (simp add: sfm_add_def sfm_position_def sfm_init_def Let_def)
  then show ?thesis
    using simple_flow_meter_invariant[of 5 "[Timed_Add 0 1000, Timed_Add 0 500]", OF _ _ _ refl] by simp
qed

end
