(* ===== verification/Std_Maps.thy ===== *)
theory Std_Maps
  imports Map_Contract "HOL-Library.Multiset"
begin

text \<open>
  \<^verbatim>\<open>include/xul/std/maps.hpp\<close> (\<open>multimaps\<close> and \<open>maps\<close>) and
  \<^verbatim>\<open>include/xul/data/tree_map.hpp\<close>. A \<open>std::map\<close> is a list of pairs with strictly growing
  keys, a \<open>std::multimap\<close> one with growing keys, in iteration order. An iterator is a position,
  the end iterator the length. \<open>std::multimap::insert\<close> puts an element behind those with an equal
  key; \<open>std::multimap::find\<close> gives the first of them.
\<close>

subsection \<open>Bounds\<close>

definition lower_bound :: "'k :: linorder \<Rightarrow> ('k \<times> 'v) list \<Rightarrow> nat" where
  "lower_bound key m = length (takeWhile (\<lambda>e. fst e < key) m)"

definition upper_bound :: "'k :: linorder \<Rightarrow> ('k \<times> 'v) list \<Rightarrow> nat" where
  "upper_bound key m = length (takeWhile (\<lambda>e. fst e \<le> key) m)"

definition erase_range :: "nat \<Rightarrow> nat \<Rightarrow> 'a list \<Rightarrow> 'a list" where
  "erase_range i j m = take i m @ drop j m"

definition std_find :: "'k :: linorder \<Rightarrow> ('k \<times> 'v) list \<Rightarrow> nat" where
  "std_find key m = (let i = lower_bound key m in if i < length m \<and> fst (m ! i) = key then i else length m)"

definition std_insert :: "'k :: linorder \<times> 'v \<Rightarrow> ('k \<times> 'v) list \<Rightarrow> ('k \<times> 'v) list" where
  "std_insert e m = (let i = upper_bound (fst e) m in take i m @ e # drop i m)"

subsection \<open>multimaps\<close>

definition multimaps_get :: "('k :: linorder \<times> 'v) list \<Rightarrow> 'k \<Rightarrow> 'v \<Rightarrow> 'v" where
  "multimaps_get coll key default_val =
     (let iter = std_find key coll in if iter = length coll then default_val else snd (coll ! iter))"

fun multimaps_find_from :: "('k \<times> 'v) list \<Rightarrow> 'v \<Rightarrow> nat \<Rightarrow> nat \<Rightarrow> nat" where
  "multimaps_find_from coll v iter 0 = length coll"
| "multimaps_find_from coll v iter (Suc n) =
     (if snd (coll ! iter) = v then iter else multimaps_find_from coll v (Suc iter) n)"

definition multimaps_find :: "('k :: linorder \<times> 'v) list \<Rightarrow> 'k \<Rightarrow> 'v \<Rightarrow> nat" where
  "multimaps_find coll key v = multimaps_find_from coll v (lower_bound key coll) (upper_bound key coll - lower_bound key coll)"

definition multimaps_erase :: "('k :: linorder \<times> 'v) list \<Rightarrow> 'k \<Rightarrow> 'v \<Rightarrow> bool \<times> ('k \<times> 'v) list" where
  "multimaps_erase coll key v =
     (let iter = multimaps_find coll key v
      in if iter = length coll then (False, coll) else (True, erase_range iter (iter + 1) coll))"

definition multimaps_insert :: "('k :: linorder \<times> 'v) list \<Rightarrow> 'k \<Rightarrow> 'v \<Rightarrow> bool \<times> ('k \<times> 'v) list" where
  "multimaps_insert coll key v =
     (let iter = multimaps_find coll key v
      in if iter \<noteq> length coll then (False, coll) else (True, std_insert (key, v) coll))"

definition multimaps_update :: "('k :: linorder \<times> 'v) list \<Rightarrow> 'k \<Rightarrow> 'k \<Rightarrow> 'v \<Rightarrow> ('k \<times> 'v) list" where
  "multimaps_update coll old_key new_key v = std_insert (new_key, v) (snd (multimaps_erase coll old_key v))"

definition multimaps_update_if_exist :: "('k :: linorder \<times> 'v) list \<Rightarrow> 'k \<Rightarrow> 'k \<Rightarrow> 'v \<Rightarrow> bool \<times> ('k \<times> 'v) list" where
  "multimaps_update_if_exist coll old_key new_key v =
     (case multimaps_erase coll old_key v of
        (True, c) \<Rightarrow> (True, std_insert (new_key, v) c) | (False, c) \<Rightarrow> (False, c))"

definition multimaps_pop_front :: "('k \<times> 'v) list \<Rightarrow> 'v option \<times> ('k \<times> 'v) list" where
  "multimaps_pop_front coll = (if coll = [] then (None, coll) else (Some (snd (hd coll)), tl coll))"

definition max_less_than_or_equal :: "('k :: linorder \<times> 'v) list \<Rightarrow> 'k \<Rightarrow> nat" where
  "max_less_than_or_equal coll key =
     (let lb = lower_bound key coll in
      if lb = length coll then (if coll \<noteq> [] then lb - 1 else lb)
      else if fst (coll ! lb) \<noteq> key then (if lb = 0 then length coll else lb - 1)
      else lb)"

subsection \<open>maps\<close>

definition maps_try_get :: "('k :: linorder \<times> 'v) list \<Rightarrow> 'k \<Rightarrow> 'v option" where
  "maps_try_get coll key = (let iter = std_find key coll in if iter = length coll then None else Some (snd (coll ! iter)))"

definition maps_get :: "('k :: linorder \<times> 'v) list \<Rightarrow> 'k \<Rightarrow> 'v \<Rightarrow> 'v" where
  "maps_get coll key default_val =
     (let iter = std_find key coll in if iter = length coll then default_val else snd (coll ! iter))"

definition count_range :: "('k :: linorder \<times> 'v) list \<Rightarrow> 'k \<Rightarrow> 'k \<Rightarrow> nat" where
  "count_range cont range_min range_max = upper_bound range_max cont - lower_bound range_min cont"

definition maps_erase :: "('k :: linorder \<times> 'v) list \<Rightarrow> 'k \<Rightarrow> bool \<times> ('k \<times> 'v) list" where
  "maps_erase coll key =
     (let iter = std_find key coll in if iter = length coll then (False, coll) else (True, erase_range iter (iter + 1) coll))"

definition maps_insert :: "('k :: linorder \<times> 'v) list \<Rightarrow> 'k \<Rightarrow> 'v \<Rightarrow> bool \<times> ('k \<times> 'v) list" where
  "maps_insert coll key v =
     (if std_find key coll = length coll then (True, std_insert (key, v) coll) else (False, coll))"

definition erase_lower :: "('k :: linorder \<times> 'v) list \<Rightarrow> 'k \<Rightarrow> ('k \<times> 'v) list" where
  "erase_lower coll bound = erase_range 0 (lower_bound bound coll) coll"

definition erase_non_upper :: "('k :: linorder \<times> 'v) list \<Rightarrow> 'k \<Rightarrow> ('k \<times> 'v) list" where
  "erase_non_upper coll bound = erase_range 0 (upper_bound bound coll) coll"

definition erase_upper :: "('k :: linorder \<times> 'v) list \<Rightarrow> 'k \<Rightarrow> ('k \<times> 'v) list" where
  "erase_upper coll bound = erase_range (upper_bound bound coll) (length coll) coll"

definition erase_non_lower :: "('k :: linorder \<times> 'v) list \<Rightarrow> 'k \<Rightarrow> ('k \<times> 'v) list" where
  "erase_non_lower coll bound = erase_range (lower_bound bound coll) (length coll) coll"

definition find_lower_floor :: "('k :: linorder \<times> 'v) list \<Rightarrow> 'k \<Rightarrow> nat" where
  "find_lower_floor coll key = (let iter = upper_bound key coll in if iter = 0 then length coll else iter - 1)"

definition get_lower_floor :: "('k :: linorder \<times> 'v) list \<Rightarrow> 'k \<Rightarrow> 'v \<Rightarrow> 'v" where
  "get_lower_floor coll key defval =
     (let iter = find_lower_floor coll key in if iter = length coll then defval else snd (coll ! iter))"

definition get_last_valid :: "('k \<times> 'v) list \<Rightarrow> nat" where
  "get_last_valid coll = (if coll \<noteq> [] then length coll - 1 else length coll)"

subsection \<open>tree_map\<close>

definition tm_contains :: "'k :: linorder \<Rightarrow> ('k \<times> 'v) list \<Rightarrow> bool" where
  "tm_contains key m = (std_find key m \<noteq> length m)"

definition tm_set :: "'k :: linorder \<Rightarrow> 'v \<Rightarrow> ('k \<times> 'v) list \<Rightarrow> ('k \<times> 'v) list" where
  "tm_set key val m = std_map_set key val m"

definition tm_get :: "'v \<Rightarrow> 'k :: linorder \<Rightarrow> 'v \<Rightarrow> ('k \<times> 'v) list \<Rightarrow> 'v" where
  "tm_get value_init key default_val m =
     (let iter = std_find key m in if iter \<noteq> length m then snd (m ! iter) else value_init)"

definition tm_get_ref :: "'k :: linorder \<Rightarrow> 'v \<Rightarrow> ('k \<times> 'v) list \<Rightarrow> 'v" where
  "tm_get_ref key default_val m =
     (let iter = std_find key m in if iter \<noteq> length m then snd (m ! iter) else default_val)"

definition tm_clear :: "('k \<times> 'v) list \<Rightarrow> ('k \<times> 'v) list" where
  "tm_clear m = []"

definition tm_remove :: "'k :: linorder \<Rightarrow> ('k \<times> 'v) list \<Rightarrow> bool \<times> ('k \<times> 'v) list" where
  "tm_remove key m = maps_erase m key"

subsection \<open>Sorted lists cut at a bound\<close>

definition mm_ok :: "('k :: linorder \<times> 'v) list \<Rightarrow> bool" where
  "mm_ok m = sorted (map fst m)"

definition parts_at :: "'k :: linorder \<Rightarrow> ('k \<times> 'v) list \<Rightarrow> ('k \<times> 'v) list \<Rightarrow> ('k \<times> 'v) list \<Rightarrow> bool" where
  "parts_at k A B C \<longleftrightarrow> (\<forall>e \<in> set A. fst e < k) \<and> (\<forall>e \<in> set B. fst e = k) \<and> (\<forall>e \<in> set C. k < fst e)"

lemma sorted_parts: "mm_ok m \<Longrightarrow> \<exists>A B C. m = A @ B @ C \<and> parts_at k A B C"
proof (induction m)
  case Nil
  then show ?case by (intro exI[of _ "[]"]) (simp add: parts_at_def)
next
  case (Cons e m)
  then obtain A B C where p: "m = A @ B @ C" "parts_at k A B C" by (auto simp: mm_ok_def)
  have ge: "fst e \<le> fst x" if "x \<in> set m" for x using Cons.prems that by (auto simp: mm_ok_def)
  consider "fst e < k" | "fst e = k" | "k < fst e" by fastforce
  then show ?case
  proof cases
    case 1
    then show ?thesis using p by (intro exI[of _ "e # A"] exI[of _ B] exI[of _ C]) (simp add: parts_at_def)
  next
    case 2
    have "\<not> fst x < k" if "x \<in> set A" for x using ge[of x] that p(1) 2 by auto
    then have "A = []" using p(2) by (cases A) (auto simp: parts_at_def)
    then show ?thesis using p 2 by (intro exI[of _ "[]"] exI[of _ "e # B"] exI[of _ C]) (simp add: parts_at_def)
  next
    case 3
    then have "parts_at k [] [] (e # m)" using ge by (auto simp: parts_at_def dest: ge)
    then show ?thesis by (intro exI[of _ "[]"] exI[of _ "[]"] exI[of _ "e # m"]) simp
  qed
qed

lemma parts_bounds:
  assumes "parts_at k A B C"
  shows "lower_bound k (A @ B @ C) = length A" and "upper_bound k (A @ B @ C) = length A + length B"
proof -
  have "takeWhile (\<lambda>e. fst e < k) (B @ C) = []" using assms by (cases B; cases C) (auto simp: parts_at_def)
  then show "lower_bound k (A @ B @ C) = length A"
    using assms by (simp add: lower_bound_def parts_at_def takeWhile_append2)
  have "takeWhile (\<lambda>e. fst e \<le> k) C = []" using assms by (cases C) (auto simp: parts_at_def)
  moreover have "\<forall>e \<in> set (A @ B). fst e \<le> k" using assms by (auto simp: parts_at_def)
  ultimately have "takeWhile (\<lambda>e. fst e \<le> k) ((A @ B) @ C) = A @ B" by (subst takeWhile_append2) auto
  then show "upper_bound k (A @ B @ C) = length A + length B" by (simp add: upper_bound_def)
qed

lemma parts_sorted:
  "parts_at k A B C \<Longrightarrow> mm_ok (A @ B @ C) \<longleftrightarrow> mm_ok A \<and> mm_ok C"
proof -
  assume p: "parts_at k A B C"
  have "sorted (map fst B)" using p by (induction B) (auto simp: parts_at_def)
  then show ?thesis using p by (fastforce simp: mm_ok_def sorted_append parts_at_def)
qed

lemma std_find_parts:
  assumes "parts_at k A B C"
  shows "std_find k (A @ B @ C) = (if B = [] then length (A @ B @ C) else length A)"
  using assms parts_bounds(1)[OF assms]
  by (cases B; cases C) (auto simp: std_find_def Let_def parts_at_def nth_append)

lemma std_insert_parts:
  "parts_at k A B C \<Longrightarrow> std_insert (k, v) (A @ B @ C) = A @ (B @ [(k, v)]) @ C"
  by (simp add: std_insert_def Let_def parts_bounds)

lemma find_from_result:
  assumes "i + n \<le> length m"
  shows "(\<forall>j. i \<le> j \<and> j < i + n \<longrightarrow> snd (m ! j) \<noteq> v) \<and> multimaps_find_from m v i n = length m
    \<or> (\<exists>j. i \<le> j \<and> j < i + n \<and> snd (m ! j) = v \<and> multimaps_find_from m v i n = j)"
  using assms
proof (induction n arbitrary: i)
  case (Suc n)
  show ?case
  proof (cases "snd (m ! i) = v")
    case True
    then show ?thesis using Suc.prems by (intro disjI2 exI[of _ i]) simp
  next
    case False
    then have "multimaps_find_from m v i (Suc n) = multimaps_find_from m v (Suc i) n" by simp
    then show ?thesis using Suc.IH[of "Suc i"] Suc.prems False
      by (metis Suc_leD Suc_leI add_Suc_right add_Suc_shift le_neq_implies_less)
  qed
qed auto

text \<open>\<open>multimaps::find\<close> finds the pair if and only if it is there.\<close>

lemma multimaps_find_result:
  assumes "mm_ok m"
  shows "(k, v) \<notin> set m \<and> multimaps_find m k v = length m
    \<or> multimaps_find m k v < length m \<and> m ! multimaps_find m k v = (k, v)"
proof -
  obtain A B C where m: "m = A @ B @ C" and p: "parts_at k A B C" using sorted_parts[OF assms] by blast
  have f: "multimaps_find m k v = multimaps_find_from m v (length A) (length B)"
    using parts_bounds[OF p] by (simp add: multimaps_find_def m)
  have at: "m ! j = B ! (j - length A)" "fst (m ! j) = k" if "length A \<le> j" "j < length A + length B" for j
    using that p m by (auto simp: nth_append parts_at_def)
  have "length A + length B \<le> length m" using m by simp
  from find_from_result[OF this, of v] show ?thesis
  proof
    assume a: "(\<forall>j. length A \<le> j \<and> j < length A + length B \<longrightarrow> snd (m ! j) \<noteq> v)
      \<and> multimaps_find_from m v (length A) (length B) = length m"
    have "(k, v) \<notin> set B"
    proof
      assume "(k, v) \<in> set B"
      then obtain i where "i < length B" "B ! i = (k, v)" by (auto simp: in_set_conv_nth)
      moreover have "length A \<le> length A + i \<and> length A + i < length A + length B" using calculation by simp
      ultimately show False using a at[of "length A + i"] by (metis add_diff_cancel_left' snd_conv)
    qed
    then have "(k, v) \<notin> set m" using m p by (auto simp: parts_at_def)
    then show ?thesis using a f by simp
  next
    assume "\<exists>j\<ge>length A. j < length A + length B \<and> snd (m ! j) = v \<and> multimaps_find_from m v (length A) (length B) = j"
    then show ?thesis using f at m by (metis add_leD1 add_less_mono1 length_append less_le_trans le_add1 prod.collapse add.assoc)
  qed
qed

lemma mm_ok_sublist: "mm_ok (xs @ ys @ zs) \<Longrightarrow> mm_ok (xs @ zs)"
  by (auto simp: mm_ok_def sorted_append)

lemma multimaps_erase_result:
  assumes "mm_ok m" and "multimaps_erase m k v = (b, m')"
  shows "mm_ok m' \<and> b = ((k, v) \<in> set m) \<and> mset m' = mset m - {#(k, v)#}"
  using multimaps_find_result[OF assms(1), of k v]
proof
  assume "(k, v) \<notin> set m \<and> multimaps_find m k v = length m"
  then show ?thesis using assms by (auto simp: multimaps_erase_def)
next
  let ?i = "multimaps_find m k v"
  assume f: "?i < length m \<and> m ! ?i = (k, v)"
  then have m: "m = take ?i m @ [(k, v)] @ drop (Suc ?i) m" by (metis append_Cons append_Nil id_take_nth_drop)
  have m': "b" "m' = take ?i m @ drop (Suc ?i) m" using assms(2) f by (auto simp: multimaps_erase_def erase_range_def Let_def)
  have "mm_ok m'" using mm_ok_sublist m m'(2) assms(1) by metis
  moreover have "mset m = add_mset (k, v) (mset m')" unfolding m'(2) by (subst m) simp
  moreover have "(k, v) \<in> set m" using f nth_mem by metis
  ultimately show ?thesis using m'(1) by simp
qed

lemma std_insert_result: "mm_ok m \<Longrightarrow> mm_ok (std_insert e m) \<and> mset (std_insert e m) = add_mset e (mset m)"
proof -
  assume ok: "mm_ok m"
  obtain A B C where m: "m = A @ B @ C" and p: "parts_at (fst e) A B C" using sorted_parts[OF ok] by blast
  have p': "parts_at (fst e) A (B @ [e]) C" using p by (auto simp: parts_at_def)
  have "std_insert e m = A @ (B @ [e]) @ C" using std_insert_parts[OF p, of "snd e"] m by simp
  then show ?thesis using parts_sorted[OF p] parts_sorted[OF p'] ok m by simp
qed

lemma multimaps_insert_result:
  assumes "mm_ok m" and "multimaps_insert m k v = (b, m')"
  shows "mm_ok m' \<and> b = ((k, v) \<notin> set m) \<and> mset m' = (if b then add_mset (k, v) (mset m) else mset m)"
  using multimaps_find_result[OF assms(1), of k v] std_insert_result[OF assms(1), of "(k, v)"] assms nth_mem
  by (fastforce simp: multimaps_insert_def Let_def split: if_splits)

text \<open>
  C37. A \<open>multimap\<close> used through \<open>multimaps\<close> is a sorted collection of pairs without repeated
  insertions: \<open>insert\<close> adds a pair that is not there, \<open>erase\<close> removes one copy of a pair that is
  there, \<open>update\<close> moves a value to another key; each reports whether it did, and the order of the
  keys is kept.
\<close>

theorem multimaps_operations:
  assumes "mm_ok m"
  shows "(case multimaps_insert m k v of (b, m') \<Rightarrow> mm_ok m' \<and> b = ((k, v) \<notin> set m)
      \<and> mset m' = (if b then add_mset (k, v) (mset m) else mset m))
    \<and> (case multimaps_erase m k v of (b, m') \<Rightarrow> mm_ok m' \<and> b = ((k, v) \<in> set m) \<and> mset m' = mset m - {#(k, v)#})
    \<and> mm_ok (multimaps_update m k k' v) \<and> mset (multimaps_update m k k' v) = add_mset (k', v) (mset m - {#(k, v)#})
    \<and> (case multimaps_update_if_exist m k k' v of (b, m') \<Rightarrow> mm_ok m' \<and> b = ((k, v) \<in> set m)
      \<and> mset m' = (if b then add_mset (k', v) (mset m - {#(k, v)#}) else mset m))"
proof -
  obtain b m1 where e: "multimaps_erase m k v = (b, m1)" by fastforce
  obtain c m2 where i: "multimaps_insert m k v = (c, m2)" by fastforce
  note er = multimaps_erase_result[OF assms e] and ins = multimaps_insert_result[OF assms i]
  have "mm_ok m1" using er by simp
  note std = std_insert_result[OF this, of "(k', v)"]
  have "m1 = m" if "\<not> b" using that e by (auto simp: multimaps_erase_def Let_def split: if_splits)
  then show ?thesis using er ins std assms e i
    by (auto simp: multimaps_update_def multimaps_update_if_exist_def split: bool.splits)
qed

theorem multimaps_operations_witness:
  "mset (multimaps_update [(1 :: nat, ''a''), (2, ''b'')] 1 3 ''a'') = {#(3, ''a''), (2, ''b'')#}"
  using multimaps_operations[of "[(1 :: nat, ''a''), (2, ''b'')]" 1 "''a''" 3] by (simp add: mm_ok_def add_mset_commute)

lemma parts_filters:
  assumes "parts_at k A B C"
  shows "filter (\<lambda>e. fst e < k) (A @ B @ C) = A" and "filter (\<lambda>e. k \<le> fst e) (A @ B @ C) = B @ C"
    and "filter (\<lambda>e. fst e \<le> k) (A @ B @ C) = A @ B" and "filter (\<lambda>e. k < fst e) (A @ B @ C) = C"
proof -
  have "filter (\<lambda>e. fst e < k) A = A" "filter (\<lambda>e. fst e < k) B = []" "filter (\<lambda>e. fst e < k) C = []"
    "filter (\<lambda>e. k \<le> fst e) A = []" "filter (\<lambda>e. k \<le> fst e) B = B" "filter (\<lambda>e. k \<le> fst e) C = C"
    "filter (\<lambda>e. fst e \<le> k) A = A" "filter (\<lambda>e. fst e \<le> k) B = B" "filter (\<lambda>e. fst e \<le> k) C = []"
    "filter (\<lambda>e. k < fst e) A = []" "filter (\<lambda>e. k < fst e) B = []" "filter (\<lambda>e. k < fst e) C = C"
    using assms by (auto simp: parts_at_def filter_id_conv filter_empty_conv)
  then show "filter (\<lambda>e. fst e < k) (A @ B @ C) = A" "filter (\<lambda>e. k \<le> fst e) (A @ B @ C) = B @ C"
    "filter (\<lambda>e. fst e \<le> k) (A @ B @ C) = A @ B" "filter (\<lambda>e. k < fst e) (A @ B @ C) = C" by simp_all
qed

lemma erase_filters:
  assumes "mm_ok m"
  shows "erase_lower m k = filter (\<lambda>e. k \<le> fst e) m" and "erase_non_upper m k = filter (\<lambda>e. k < fst e) m"
    and "erase_upper m k = filter (\<lambda>e. fst e \<le> k) m" and "erase_non_lower m k = filter (\<lambda>e. fst e < k) m"
proof -
  obtain A B C where m: "m = A @ B @ C" and p: "parts_at k A B C" using sorted_parts[OF assms] by blast
  show "erase_lower m k = filter (\<lambda>e. k \<le> fst e) m" "erase_non_upper m k = filter (\<lambda>e. k < fst e) m"
    "erase_upper m k = filter (\<lambda>e. fst e \<le> k) m" "erase_non_lower m k = filter (\<lambda>e. fst e < k) m"
    unfolding m parts_filters[OF p]
    by (simp_all add: erase_lower_def erase_non_upper_def erase_upper_def erase_non_lower_def erase_range_def parts_bounds[OF p])
qed

lemma floor_result:
  assumes "mm_ok m" and "i = find_lower_floor m k" and "i \<noteq> length m"
  shows "i < length m" and "fst (m ! i) \<le> k" and "\<And>e. e \<in> set m \<Longrightarrow> fst e \<le> k \<Longrightarrow> fst e \<le> fst (m ! i)"
proof -
  obtain A B C where m: "m = A @ B @ C" and p: "parts_at k A B C" using sorted_parts[OF assms(1)] by blast
  let ?AB = "A @ B"
  have i: "?AB \<noteq> [] \<and> i = length ?AB - 1"
    using assms(2,3) parts_bounds(2)[OF p] by (auto simp: find_lower_floor_def m Let_def split: if_splits)
  then have "0 < length ?AB" by blast
  then have at2: "i < length ?AB" using i by linarith
  then have at: "m ! i = ?AB ! i" "i < length ?AB" using m by (metis append.assoc nth_append)+
  show "i < length m" using at(2) m by simp
  show "fst (m ! i) \<le> k" using nth_mem[OF at(2)] at(1) p by (fastforce simp: parts_at_def)
  fix e
  assume e: "e \<in> set m" "fst e \<le> k"
  then have "e \<in> set ?AB" using m p by (auto simp: parts_at_def)
  then obtain j where j: "j < length ?AB" "?AB ! j = e" by (metis in_set_conv_nth)
  have "sorted (map fst ?AB)" using assms(1) m by (auto simp: mm_ok_def sorted_append)
  then have "map fst ?AB ! j \<le> map fst ?AB ! i" using j i by (intro sorted_nth_mono) auto
  then show "fst e \<le> fst (m ! i)" using j at by (metis nth_map)
qed

text \<open>
  The range queries of \<open>maps\<close> on a sorted map: the four partial erasures keep exactly the entries
  on the right side of the bound, \<open>count_range\<close> counts the keys between two bounds, and
  \<open>find_lower_floor\<close> gives the entry with the greatest key that is not above the argument, the end
  exactly when there is none.
\<close>

theorem maps_range_queries:
  assumes "mm_ok m" and "lo \<le> hi"
  shows "erase_lower m k = filter (\<lambda>e. k \<le> fst e) m \<and> erase_non_upper m k = filter (\<lambda>e. k < fst e) m
    \<and> erase_upper m k = filter (\<lambda>e. fst e \<le> k) m \<and> erase_non_lower m k = filter (\<lambda>e. fst e < k) m
    \<and> count_range m lo hi = length (filter (\<lambda>e. lo \<le> fst e \<and> fst e \<le> hi) m)
    \<and> (case find_lower_floor m k of i \<Rightarrow> if i = length m then filter (\<lambda>e. fst e \<le> k) m = []
         else m ! i \<in> set m \<and> fst (m ! i) \<le> k \<and> list_all (\<lambda>e. fst e \<le> k \<longrightarrow> fst e \<le> fst (m ! i)) m)"
proof -
  obtain A B C where m: "m = A @ B @ C" and p: "parts_at k A B C" using sorted_parts[OF assms(1)] by blast
  have "find_lower_floor m k = (if length A + length B = 0 then length m else length A + length B - 1)"
    using parts_bounds(2)[OF p] by (simp add: find_lower_floor_def m)
  moreover have "length m = length A + length B + length C" using m by simp
  ultimately have "length A + length B = 0" if "find_lower_floor m k = length m"
    using that by presburger
  then have "filter (\<lambda>e. fst e \<le> k) m = []" if "find_lower_floor m k = length m"
    using that unfolding m parts_filters(3)[OF p] by simp
  moreover have "m ! find_lower_floor m k \<in> set m \<and> fst (m ! find_lower_floor m k) \<le> k
      \<and> list_all (\<lambda>e. fst e \<le> k \<longrightarrow> fst e \<le> fst (m ! find_lower_floor m k)) m"
    if "find_lower_floor m k \<noteq> length m"
    using floor_result[OF assms(1) refl that] by (auto simp: list_all_iff)
  moreover have "count_range m lo hi = length (filter (\<lambda>e. lo \<le> fst e \<and> fst e \<le> hi) m)"
  proof -
    have "upper_bound hi m = length (filter (\<lambda>e. fst e \<le> hi) m)" "lower_bound lo m = length (filter (\<lambda>e. fst e < lo) m)"
      using sorted_parts[OF assms(1), of hi] sorted_parts[OF assms(1), of lo] parts_bounds parts_filters
      by (metis length_append)+
    moreover have "length (filter (\<lambda>e. fst e \<le> hi) m)
        = length (filter (\<lambda>e. fst e < lo) m) + length (filter (\<lambda>e. lo \<le> fst e \<and> fst e \<le> hi) m)"
      using assms(2) by (induction m) auto
    ultimately show ?thesis by (simp add: count_range_def)
  qed
  ultimately show ?thesis using erase_filters[OF assms(1)] by (simp add: Let_def)
qed

theorem maps_range_queries_witness:
  "erase_lower [(1 :: nat, ''a''), (3, ''b''), (5, ''c'')] 3 = [(3, ''b''), (5, ''c'')]
    \<and> count_range [(1 :: nat, ''a''), (3, ''b''), (5, ''c'')] 2 4 = 1"
  using maps_range_queries[of "[(1 :: nat, ''a''), (3, ''b''), (5, ''c'')]" 2 4 3] by (simp add: mm_ok_def)

subsection \<open>The tree map meets the contract\<close>

lemma std_map_ok_sorted: "std_map_ok m \<longleftrightarrow> sorted_wrt (<) (map fst m)"
  by (induction m) (auto simp: list_all_iff)

lemma std_map_ok_mm: "std_map_ok m \<Longrightarrow> mm_ok m"
  by (simp add: std_map_ok_sorted mm_ok_def strict_sorted_imp_sorted)

lemma std_find_map:
  assumes "std_map_ok m"
  shows "std_find k m = length m \<and> map_of m k = None
    \<or> std_find k m < length m \<and> fst (m ! std_find k m) = k \<and> map_of m k = Some (snd (m ! std_find k m))"
proof -
  obtain A B C where m: "m = A @ B @ C" and p: "parts_at k A B C" using sorted_parts[OF std_map_ok_mm[OF assms]] by blast
  have A: "map_of A k = None" and C: "map_of C k = None" using p by (auto simp: parts_at_def map_of_eq_None_iff)
  show ?thesis
  proof (cases B)
    case Nil
    then show ?thesis using std_find_parts[OF p] A C m by (auto simp: map_add_def)
  next
    case (Cons e B')
    then have "fst e = k" using p by (simp add: parts_at_def)
    then show ?thesis using std_find_parts[OF p] A C m Cons
      by (cases e) (auto simp: map_add_def split: option.splits)
  qed
qed

lemma tm_remove_result:
  assumes "std_map_ok m"
  shows "std_map_ok (snd (tm_remove k m)) \<and> map_of (snd (tm_remove k m)) k' = (if k = k' then None else map_of m k')
    \<and> fst (tm_remove k m) = (map_of m k \<noteq> None)"
  using std_find_map[OF assms, of k]
proof
  assume "std_find k m = length m \<and> map_of m k = None"
  then show ?thesis using assms by (auto simp: tm_remove_def maps_erase_def)
next
  let ?i = "std_find k m"
  assume f: "?i < length m \<and> fst (m ! ?i) = k \<and> map_of m k = Some (snd (m ! ?i))"
  let ?A = "take ?i m" and ?C = "drop (Suc ?i) m"
  have m: "m = ?A @ m ! ?i # ?C" using f by (simp add: id_take_nth_drop)
  have r: "tm_remove k m = (True, ?A @ ?C)" using f by (simp add: tm_remove_def maps_erase_def erase_range_def Let_def)
  have s: "sorted_wrt (<) (map fst (?A @ m ! ?i # ?C))" using assms m by (simp add: std_map_ok_sorted)
  then have ok: "std_map_ok (?A @ ?C)" by (simp add: std_map_ok_sorted sorted_wrt_append)
  have none: "map_of ?A k = None" "map_of ?C k = None"
    using s f by (auto simp: sorted_wrt_append map_of_eq_None_iff)
  have "map_of m k' = map_of (?A @ ?C) k'" if "k' \<noteq> k"
    using arg_cong[OF m, of "\<lambda>m. map_of m k'"] f that by (cases "m ! ?i") (auto simp: map_add_def split: option.splits)
  then show ?thesis using r ok none f by (auto simp: map_add_def)
qed

interpretation tree: map_contract "(=)" std_map_ok map_of "tm_set :: 'k :: linorder \<Rightarrow> 'v \<Rightarrow> _" tm_remove tm_clear
proof
  fix m :: "('k \<times> 'v) list" and k k' :: 'k and v :: 'v
  assume ok: "std_map_ok m"
  show "std_map_ok (tm_set k v m)" using ok by (simp add: tm_set_def std_map_set_ok)
  show "map_of (tm_set k v m) k' = (if k = k' then Some v else map_of m k')" by (simp add: tm_set_def)
  show "std_map_ok (snd (tm_remove k m))" "map_of (snd (tm_remove k m)) k' = (if k = k' then None else map_of m k')"
    "fst (tm_remove k m) = (map_of m k \<noteq> None)" using tm_remove_result[OF ok] by blast+
qed (simp_all add: tm_clear_def)

text \<open>
  C24. The tree map refines a partial function on keys: after any sequence of \<open>set\<close>, \<open>remove\<close> and
  \<open>clear\<close>, \<open>contains\<close>, \<open>get_ref\<close> and the result of \<open>remove\<close> are those of the function, while \<open>get\<close>
  of an absent key gives the default constructed value and not the default it was passed.
\<close>

theorem tree_map_refines_map:
  assumes "m = fold (map_impl tm_set tm_remove tm_clear) cs []" and "f = fold (map_spec (=)) cs (\<lambda>_. None)"
  shows "tm_contains k m = (f k \<noteq> None) \<and> tm_get_ref k d m = (case f k of None \<Rightarrow> d | Some v \<Rightarrow> v)
    \<and> fst (tm_remove k m) = (f k \<noteq> None) \<and> tm_get z k d m = (case f k of None \<Rightarrow> z | Some v \<Rightarrow> v)"
proof -
  have "std_map_ok m \<and> map_of m = f" using tree.calls_refine[of "[]" cs] assms by simp
  then show ?thesis using std_find_map[of m k] tree.remove_result[of m k]
    by (auto simp: tm_contains_def tm_get_ref_def tm_get_def Let_def)
qed

theorem tree_map_refines_map_witness:
  "tm_get_ref (2 :: nat) ''-'' (fold (map_impl tm_set tm_remove tm_clear) [Map_Set 2 ''b'', Map_Set 1 ''a'', Map_Remove 2] []) = ''-''"
  using tree_map_refines_map[OF refl refl, where cs = "[Map_Set (2 :: nat) ''b'', Map_Set 1 ''a'', Map_Remove 2]" and k = 2 and d = "''-''"]
  by simp

end
