(* ===== verification/Options.thy ===== *)
theory Options
  imports Std_Maps Xul_Strings Numerics
begin

text \<open>
  \<^verbatim>\<open>include/xul/util/data_parser.hpp\<close>, \<^verbatim>\<open>include/xul/util/detail/options_impl.hpp\<close>
  and \<^verbatim>\<open>include/xul/util/options_wrapper.hpp\<close>: typed option items with their text parsers,
  and trees of named options. An item holds its value; in the code the value lives in a variable
  that the item refers to, and no two items refer to the same one. Numbers are \<open>int64_t\<close> values
  within range. A node of the options tree has one parent.
\<close>

subsection \<open>numeric_units\<close>

type_synonym unit_table = "(string \<times> int) list"

fun calc_level_unit :: "int \<Rightarrow> nat \<Rightarrow> int" where
  "calc_level_unit magnitude 0 = 1"
| "calc_level_unit magnitude (Suc level) = calc_level_unit magnitude level * magnitude"

definition add_unit :: "string \<Rightarrow> int \<Rightarrow> unit_table \<Rightarrow> unit_table" where
  "add_unit name val units = std_map_set name val units"

definition add_level_unit :: "string \<Rightarrow> int \<Rightarrow> nat \<Rightarrow> unit_table \<Rightarrow> unit_table" where
  "add_level_unit name magnitude level units = add_unit name (calc_level_unit magnitude level) units"

definition millisecond_time_span_units :: unit_table where
  "millisecond_time_span_units =
     add_unit ''h'' (60 * 60 * 1000) (add_unit ''m'' (60 * 1000) (add_unit ''s'' 1000 (add_unit ''ms'' 1 [])))"

definition binary_add_level :: "string \<Rightarrow> nat \<Rightarrow> unit_table \<Rightarrow> unit_table" where
  "binary_add_level name level units =
     add_level_unit (make_lower name @ ''B'') 1024 level (add_level_unit (name @ ''B'') 1024 level
       (add_level_unit (make_lower name) 1024 level (add_level_unit name 1024 level units)))"

definition binary_byte_count_units :: unit_table where
  "binary_byte_count_units = binary_add_level ''P'' 5 (binary_add_level ''T'' 4 (binary_add_level ''G'' 3
     (binary_add_level ''M'' 2 (binary_add_level ''K'' 1 []))))"

definition decimal_add_level :: "string \<Rightarrow> nat \<Rightarrow> unit_table \<Rightarrow> unit_table" where
  "decimal_add_level name level units =
     add_level_unit (make_lower name @ ''iB'') 1024 level (add_level_unit (name @ ''iB'') 1024 level
       (add_level_unit (make_lower name @ ''B'') 1000 level (add_level_unit (name @ ''B'') 1000 level
         (add_level_unit (make_lower name) 1000 level (add_level_unit name 1000 level units)))))"

definition decimal_byte_count_units :: unit_table where
  "decimal_byte_count_units = decimal_add_level ''P'' 5 (decimal_add_level ''T'' 4 (decimal_add_level ''G'' 3
     (decimal_add_level ''M'' 2 (decimal_add_level ''K'' 1 []))))"

subsection \<open>Option items\<close>

datatype option_value = Opt_String string | Opt_Int int | Opt_Bool bool

datatype item_kind = String_Item | Number_Item | Unit_Item unit_table | Switch_Item | Bool_Item

record option_item =
  oi_name :: string
  oi_kind :: item_kind
  oi_value :: option_value
  oi_default :: option_value
  oi_public :: bool
  oi_freezed :: bool
  oi_modified :: bool

definition string_do_parse :: "string \<Rightarrow> option_value \<Rightarrow> bool \<times> option_value" where
  "string_do_parse s v = (True, Opt_String (trim_spaces s))"

definition number_do_parse :: "string \<Rightarrow> option_value \<Rightarrow> bool \<times> option_value" where
  "number_do_parse s v = (case numerics_try_parse s of None \<Rightarrow> (False, v) | Some n \<Rightarrow> (True, Opt_Int n))"

definition opt_int :: "option_value \<Rightarrow> int" where
  "opt_int v = (case v of Opt_Int n \<Rightarrow> n | _ \<Rightarrow> 0)"

text \<open>The number is stored before the unit is looked up.\<close>

definition unit_do_parse :: "unit_table \<Rightarrow> string \<Rightarrow> option_value \<Rightarrow> bool \<times> option_value" where
  "unit_do_parse units s v =
     (if s = [] then (False, v)
      else let pos = find_if_from (\<lambda>c. c \<notin> set ''-0123456789'') s 0;
               (ok, v) = number_do_parse (case pos of None \<Rightarrow> s | Some p \<Rightarrow> take p s) v
           in if \<not> ok then (False, v)
              else let unit_name = (case pos of None \<Rightarrow> [] | Some p \<Rightarrow> drop p s);
                       unit_value = (if length unit_name > 0 then maps_try_get units unit_name else Some 1)
                   in (case unit_value of None \<Rightarrow> (False, v) | Some u \<Rightarrow> (True, Opt_Int (opt_int v * u))))"

definition switch_do_parse :: "string \<Rightarrow> option_value \<Rightarrow> bool \<times> option_value" where
  "switch_do_parse s v =
     (let val = make_lower (trim_spaces s) in
      if val \<in> {''on'', ''true'', ''yes'', ''1''} then (True, Opt_Bool True)
      else if val \<in> {''off'', ''false'', ''no'', ''0''} then (True, Opt_Bool False)
      else (False, v))"

definition bool_do_parse :: "string \<Rightarrow> option_value \<Rightarrow> bool \<times> option_value" where
  "bool_do_parse s v =
     (let val = make_lower (trim_spaces s) in
      if val \<in> {''true'', ''yes''} then (True, Opt_Bool True)
      else if val \<in> {''false'', ''no''} then (True, Opt_Bool False)
      else (False, v))"

fun oi_do_parse :: "item_kind \<Rightarrow> string \<Rightarrow> option_value \<Rightarrow> bool \<times> option_value" where
  "oi_do_parse String_Item s v = string_do_parse s v"
| "oi_do_parse Number_Item s v = number_do_parse s v"
| "oi_do_parse (Unit_Item units) s v = unit_do_parse units s v"
| "oi_do_parse Switch_Item s v = switch_do_parse s v"
| "oi_do_parse Bool_Item s v = bool_do_parse s v"

definition oi_parse :: "string option \<Rightarrow> option_item \<Rightarrow> bool \<times> option_item" where
  "oi_parse s item =
     (if oi_freezed item then (False, item)
      else case s of
          None \<Rightarrow> (False, item)
        | Some t \<Rightarrow>
            let (ok, v) = oi_do_parse (oi_kind item) t (oi_value item); item = item\<lparr>oi_value := v\<rparr>
            in if \<not> ok then (False, item) else (True, item\<lparr>oi_modified := True\<rparr>))"

definition oi_reset :: "option_item \<Rightarrow> option_item" where
  "oi_reset item = item\<lparr>oi_value := oi_default item, oi_modified := False\<rparr>"

definition oi_freeze :: "option_item \<Rightarrow> option_item" where
  "oi_freeze item = item\<lparr>oi_freezed := True\<rparr>"

definition oi_set_public :: "bool \<Rightarrow> option_item \<Rightarrow> option_item" where
  "oi_set_public p item = item\<lparr>oi_public := p\<rparr>"

definition oi_mark_initialized :: "option_item \<Rightarrow> option_item" where
  "oi_mark_initialized item = item\<lparr>oi_modified := False\<rparr>"

definition oi_print :: "option_item \<Rightarrow> string" where
  "oi_print item = (case oi_value item of
      Opt_String s \<Rightarrow> s | Opt_Int n \<Rightarrow> numerics_format n | Opt_Bool b \<Rightarrow> (if b then ''true'' else ''false''))"

definition make_item :: "string \<Rightarrow> item_kind \<Rightarrow> option_value \<Rightarrow> option_value \<Rightarrow> option_item" where
  "make_item name kind val default_val = \<lparr>oi_name = name, oi_kind = kind, oi_value = val,
     oi_default = default_val, oi_public = True, oi_freezed = False, oi_modified = False\<rparr>"

subsection \<open>data_parser\<close>

type_synonym item_map = "(string \<times> option_item) list"

definition update_at :: "'k \<Rightarrow> ('v \<Rightarrow> 'v) \<Rightarrow> ('k \<times> 'v) list \<Rightarrow> ('k \<times> 'v) list" where
  "update_at k f m = map (\<lambda>e. if fst e = k then (fst e, f (snd e)) else e) m"

definition dp_do_add :: "string \<Rightarrow> option_item \<Rightarrow> item_map \<Rightarrow> item_map" where
  "dp_do_add name parser m = std_map_set name (oi_reset parser) m"

definition dp_parse :: "string \<Rightarrow> string \<Rightarrow> item_map \<Rightarrow> bool \<times> item_map" where
  "dp_parse name val m =
     (let realname = trim_spaces name; realval = trim_spaces val
      in case maps_try_get m realname of
           None \<Rightarrow> (False, m)
         | Some parser \<Rightarrow>
             (fst (oi_parse (Some realval) parser), update_at realname (\<lambda>p. snd (oi_parse (Some realval) p)) m))"

definition dp_parse_expr :: "string \<Rightarrow> char \<Rightarrow> item_map \<Rightarrow> bool \<times> item_map" where
  "dp_parse_expr expr sep m = (let (k, v) = split_pair_char expr sep in dp_parse k v m)"

definition dp_reset :: "item_map \<Rightarrow> item_map" where
  "dp_reset m = map (map_prod id oi_reset) m"

subsection \<open>options_impl\<close>

datatype options = Options (opt_nodes: "(string \<times> options) list") (opt_items: item_map)

definition options_init :: options where
  "options_init = Options [] []"

function options_set :: "string option \<Rightarrow> string option \<Rightarrow> options \<Rightarrow> bool \<times> options" where
  "options_set None val opts = (False, opts)"
| "options_set (Some name) val (Options nodes items) =
     (case maps_try_get items name of
        Some opt \<Rightarrow> (fst (oi_parse val opt), Options nodes (update_at name (\<lambda>o'. snd (oi_parse val o')) items))
      | None \<Rightarrow>
          (case find_char (CHR ''.'') name 0 of
             None \<Rightarrow> (False, Options nodes items)
           | Some pos \<Rightarrow>
               (case maps_try_get nodes (take pos name) of
                  None \<Rightarrow> (False, Options nodes items)
                | Some sub \<Rightarrow>
                    let (ok, sub') = options_set (Some (drop (pos + 1) name)) val sub
                    in (ok, Options (update_at (take pos name) (\<lambda>_. sub') nodes) items))))"
  by pat_completeness auto

lemma find_char_bound: "find_char c s start = Some pos \<Longrightarrow> pos < length s"
  using find_index_Some[of "\<lambda>x. x = c" "drop start s"] by (auto simp: find_char_def find_if_from_def)

termination options_set
  by (relation "measure (\<lambda>(name, _, _). case name of None \<Rightarrow> 0 | Some n \<Rightarrow> Suc (length n))")
     (auto dest!: find_char_bound)

primrec options_reset :: "options \<Rightarrow> options" where
  "options_reset (Options nodes items) =
     Options (map (map_prod id options_reset) nodes) (map (map_prod id oi_reset) items)"

primrec options_mark_initialized :: "options \<Rightarrow> options" where
  "options_mark_initialized (Options nodes items) =
     Options (map (map_prod id options_mark_initialized) nodes) (map (map_prod id oi_mark_initialized) items)"

definition options_add :: "option_item option \<Rightarrow> options \<Rightarrow> options" where
  "options_add opt opts = (case opt of None \<Rightarrow> opts
     | Some item \<Rightarrow> Options (opt_nodes opts) (tm_set (oi_name item) item (opt_items opts)))"

definition options_add_options :: "string \<Rightarrow> options \<Rightarrow> options \<Rightarrow> options" where
  "options_add_options name sub opts = Options (tm_set name sub (opt_nodes opts)) (opt_items opts)"

definition options_get_option :: "string option \<Rightarrow> options \<Rightarrow> option_item option" where
  "options_get_option name opts = (case name of None \<Rightarrow> None | Some n \<Rightarrow> maps_try_get (opt_items opts) n)"

definition options_get_options :: "string option \<Rightarrow> options \<Rightarrow> options option" where
  "options_get_options name opts = (case name of None \<Rightarrow> None | Some n \<Rightarrow> maps_try_get (opt_nodes opts) n)"

definition options_set_public :: "string \<Rightarrow> bool \<Rightarrow> options \<Rightarrow> options" where
  "options_set_public name is_public opts =
     Options (opt_nodes opts) (update_at name (oi_set_public is_public) (opt_items opts))"

definition options_freeze :: "string \<Rightarrow> options \<Rightarrow> options" where
  "options_freeze name opts = Options (opt_nodes opts) (update_at name oi_freeze (opt_items opts))"

subsection \<open>options_wrapper\<close>

definition ow_do_add :: "option_item \<Rightarrow> options \<Rightarrow> options" where
  "ow_do_add item opts = options_add (Some (oi_reset item)) opts"

definition ow_parse :: "string \<Rightarrow> string \<Rightarrow> options \<Rightarrow> bool \<times> options" where
  "ow_parse name val opts = options_set (Some (trim_spaces name)) (Some (trim_spaces val)) opts"

definition ow_parse_expr :: "string \<Rightarrow> char \<Rightarrow> options \<Rightarrow> bool \<times> options" where
  "ow_parse_expr expr sep opts = (let (k, v) = split_pair_char expr sep in ow_parse k v opts)"

subsection \<open>Items addressed by dotted names\<close>

fun opt_at :: "string list \<Rightarrow> string \<Rightarrow> options \<Rightarrow> option_item option" where
  "opt_at [] n opts = map_of (opt_items opts) n"
| "opt_at (p # ps) n opts = (case map_of (opt_nodes opts) p of None \<Rightarrow> None | Some sub \<Rightarrow> opt_at ps n sub)"

text \<open>The maps of the tree are ordered maps.\<close>

inductive options_ok :: "options \<Rightarrow> bool" where
  "std_map_ok nodes \<Longrightarrow> std_map_ok items \<Longrightarrow> (\<And>n sub. (n, sub) \<in> set nodes \<Longrightarrow> options_ok sub)
    \<Longrightarrow> options_ok (Options nodes items)"

inductive_cases options_okE: "options_ok (Options nodes items)"

function addressed :: "string \<Rightarrow> options \<Rightarrow> (string list \<times> string) option" where
  "addressed name opts =
     (if map_of (opt_items opts) name \<noteq> None then Some ([], name)
      else case find_char (CHR ''.'') name 0 of
          None \<Rightarrow> None
        | Some pos \<Rightarrow>
            (case map_of (opt_nodes opts) (take pos name) of
               None \<Rightarrow> None
             | Some sub \<Rightarrow> map_option (map_prod (\<lambda>p. take pos name # p) id) (addressed (drop (pos + 1) name) sub)))"
  by pat_completeness auto
termination
  by (relation "measure (\<lambda>(name, _). length name)") (auto dest!: find_char_bound)

declare addressed.simps [simp del] options_set.simps [simp del]

lemma maps_try_get_map_of: "std_map_ok m \<Longrightarrow> maps_try_get m k = map_of m k"
  using std_find_map[of m k] by (auto simp: maps_try_get_def Let_def)

lemma map_of_update_at: "map_of (update_at k f m) k' = (if k' = k then map_option f (map_of m k') else map_of m k')"
  by (induction m) (auto simp: update_at_def)

lemma update_at_keys [simp]: "map fst (update_at k f m) = map fst m"
  by (induction m) (auto simp: update_at_def)

lemma update_at_ok: "std_map_ok m \<Longrightarrow> std_map_ok (update_at k f m)"
  by (simp add: std_map_ok_sorted)

lemma update_at_set: "(k', x) \<in> set (update_at k (\<lambda>_. v) m) \<Longrightarrow> x = v \<or> (k', x) \<in> set m"
  by (auto simp: update_at_def split: if_splits)

definition set_effect :: "string \<Rightarrow> string option \<Rightarrow> options \<Rightarrow> bool \<Rightarrow> options \<Rightarrow> bool" where
  "set_effect name val opts ok opts' \<longleftrightarrow> options_ok opts'
     \<and> ok = (case addressed name opts of None \<Rightarrow> False
               | Some (p, n) \<Rightarrow> (case opt_at p n opts of None \<Rightarrow> False | Some item \<Rightarrow> fst (oi_parse val item)))
     \<and> (\<forall>q m. opt_at q m opts' = (if addressed name opts = Some (q, m)
           then map_option (\<lambda>item. snd (oi_parse val item)) (opt_at q m opts) else opt_at q m opts))"

lemma set_effect_item:
  assumes "options_ok (Options nodes items)" and "map_of items name = Some item"
  shows "set_effect name val (Options nodes items) (fst (oi_parse val item))
    (Options nodes (update_at name (\<lambda>i. snd (oi_parse val i)) items))"
proof -
  have ok: "options_ok (Options nodes (update_at name (\<lambda>i. snd (oi_parse val i)) items))"
    using assms(1) by (auto elim!: options_okE intro!: options_ok.intros update_at_ok)
  have ad: "addressed name (Options nodes items) = Some ([], name)" using assms(2) by (simp add: addressed.simps)
  have "opt_at q m (Options nodes (update_at name (\<lambda>i. snd (oi_parse val i)) items))
      = (if ([], name) = (q, m) then map_option (\<lambda>i. snd (oi_parse val i)) (opt_at q m (Options nodes items))
         else opt_at q m (Options nodes items))" for q m
    by (cases q) (auto simp: map_of_update_at)
  then show ?thesis using ok ad assms(2) by (auto simp: set_effect_def)
qed

lemma set_effect_none:
  assumes "options_ok opts" and "addressed name opts = None"
  shows "set_effect name val opts False opts"
  using assms by (simp add: set_effect_def)

lemma set_effect_sub:
  assumes ok: "options_ok (Options nodes items)" and none: "map_of items name = None"
    and pos: "find_char (CHR ''.'') name 0 = Some pos" and sub: "map_of nodes (take pos name) = Some sub"
    and eff: "set_effect (drop (pos + 1) name) val sub b sub'"
  shows "set_effect name val (Options nodes items) b (Options (update_at (take pos name) (\<lambda>_. sub') nodes) items)"
proof -
  let ?n = "take pos name" and ?r = "drop (pos + 1) name" and ?o = "Options nodes items"
  let ?o' = "Options (update_at ?n (\<lambda>_. sub') nodes) items"
  have ad: "addressed name ?o = map_option (map_prod (\<lambda>p. ?n # p) id) (addressed ?r sub)"
    using none pos sub by (subst addressed.simps) simp
  have "options_ok sub'" using eff by (simp add: set_effect_def)
  then have "options_ok ?o'" using ok
    by (auto elim!: options_okE intro!: options_ok.intros update_at_ok dest!: update_at_set)
  moreover have "opt_at q m ?o' = (if addressed name ?o = Some (q, m)
      then map_option (\<lambda>item. snd (oi_parse val item)) (opt_at q m ?o) else opt_at q m ?o)" for q m
  proof (cases q)
    case Nil
    then show ?thesis using ad by (auto simp: map_prod_def split: prod.splits)
  next
    case (Cons x xs)
    then show ?thesis using eff ad sub
      by (cases "addressed ?r sub") (auto simp: map_of_update_at set_effect_def)
  qed
  moreover have "b = (case addressed name ?o of None \<Rightarrow> False | Some (p, n) \<Rightarrow>
      (case opt_at p n ?o of None \<Rightarrow> False | Some item \<Rightarrow> fst (oi_parse val item)))"
    using eff ad sub by (cases "addressed ?r sub") (auto simp: set_effect_def split: prod.splits)
  ultimately show ?thesis by (simp add: set_effect_def)
qed

lemma options_set_effect:
  "options_ok opts \<Longrightarrow> options_set (Some name) val opts = (ok, opts') \<Longrightarrow> set_effect name val opts ok opts'"
proof (induction name opts arbitrary: ok opts' rule: addressed.induct)
  case (1 name opts)
  obtain nodes items where o: "opts = Options nodes items" by (cases opts)
  have maps: "maps_try_get items k = map_of items k" "maps_try_get nodes k = map_of nodes k" for k
    using 1(2) unfolding o by (auto elim!: options_okE intro!: maps_try_get_map_of)
  show ?case
  proof (cases "map_of items name")
    case (Some item)
    then show ?thesis using 1(3) set_effect_item[of nodes items name item val] 1(2)
      unfolding o by (simp add: options_set.simps maps)
  next
    case none: None
    show ?thesis
    proof (cases "find_char (CHR ''.'') name 0")
      case None
      then have "addressed name opts = None" "ok = False" "opts' = opts"
        using 1(3) none unfolding o by (auto simp: options_set.simps maps addressed.simps)
      then show ?thesis using set_effect_none[OF 1(2)] by simp
    next
      case (Some pos)
      show ?thesis
      proof (cases "map_of nodes (take pos name)")
        case None
        then have "addressed name opts = None" "ok = False" "opts' = opts"
          using 1(3) none Some unfolding o by (auto simp: options_set.simps maps addressed.simps)
        then show ?thesis using set_effect_none[OF 1(2)] by simp
      next
        case sub: (Some sub)
        obtain b sub' where r: "options_set (Some (drop (pos + 1) name)) val sub = (b, sub')" by fastforce
        have "options_ok sub" using 1(2) map_of_SomeD[OF sub] unfolding o by (auto elim!: options_okE)
        then have "set_effect (drop (pos + 1) name) val sub b sub'"
          using 1(1)[OF _ Some, of sub] none sub r unfolding o by simp
        then show ?thesis using set_effect_sub[of nodes items name pos sub val b sub'] 1(2,3) none Some sub r
          unfolding o by (simp add: options_set.simps maps)
      qed
    qed
  qed
qed

text \<open>
  C28. Setting an option by its dotted name touches the item the name addresses and nothing else:
  the item is replaced by the parsed one and the result is the parser's, an unknown name fails
  and changes nothing, every other item of the tree stays as it is, the maps stay ordered, and
  an item that is frozen keeps its value whatever is set.
\<close>

theorem options_set_frame:
  assumes "options_ok opts" and "options_set (Some name) val opts = (ok, opts')"
  shows "options_ok opts'
    \<and> ok = (case addressed name opts of None \<Rightarrow> False
              | Some (p, n) \<Rightarrow> (case opt_at p n opts of None \<Rightarrow> False | Some item \<Rightarrow> fst (oi_parse val item)))
    \<and> opt_at q m opts' = (if addressed name opts = Some (q, m)
          then map_option (\<lambda>item. snd (oi_parse val item)) (opt_at q m opts) else opt_at q m opts)
    \<and> (\<forall>item. opt_at q m opts = Some item \<and> oi_freezed item \<longrightarrow> opt_at q m opts' = Some item)"
  using options_set_effect[OF assms] by (auto simp: set_effect_def oi_parse_def)

theorem options_set_frame_witness:
  "opt_at [''log''] ''level'' (snd (options_set (Some ''log.size'') (Some ''7'')
     (Options [(''log'', Options [] [(''level'', make_item ''level'' Number_Item (Opt_Int 1) (Opt_Int 1)),
        (''size'', make_item ''size'' Number_Item (Opt_Int 2) (Opt_Int 2))])] [])))
   = Some (make_item ''level'' Number_Item (Opt_Int 1) (Opt_Int 1))"
proof -
  let ?sub = "Options [] [(''level'', make_item ''level'' Number_Item (Opt_Int 1) (Opt_Int 1)),
        (''size'', make_item ''size'' Number_Item (Opt_Int 2) (Opt_Int 2))]"
  let ?o = "Options [(''log'', ?sub)] []"
  have "std_map_ok (opt_items ?sub)" by code_simp
  then have ok: "options_ok ?o" by (auto intro!: options_ok.intros)
  obtain b o' where r: "options_set (Some ''log.size'') (Some ''7'') ?o = (b, o')" by fastforce
  have "addressed ''log.size'' ?o \<noteq> Some ([''log''], ''level'')"
    by (simp add: addressed.simps find_char_def find_if_from_def)
  then show ?thesis using options_set_frame[OF ok r, of "[''log'']" "''level''"] r by simp
qed

text \<open>The name of a path is the item behind its nodes, unless a node above has an item of that name.\<close>

lemma addressed_path:
  assumes "opt_at p n opts = Some item" and "list_all (\<lambda>x. CHR ''.'' \<notin> set x) p" 
    and "\<And>q r. p = q @ r \<Longrightarrow> r \<noteq> [] \<Longrightarrow> opt_at q (join ''.'' (r @ [n])) opts = None"
  shows "addressed (join ''.'' (p @ [n])) opts = Some (p, n)"
  using assms
proof (induction p arbitrary: opts)
  case Nil
  then show ?case by (simp add: addressed.simps)
next
  case (Cons x p)
  let ?name = "join ''.'' ((x # p) @ [n])"
  obtain sub where sub: "map_of (opt_nodes opts) x = Some sub" "opt_at p n sub = Some item"
    using Cons.prems(1) by (auto split: option.splits)
  have name: "?name = x @ CHR ''.'' # join ''.'' (p @ [n])" by (cases p) simp_all
  have "find_index (\<lambda>c. c = CHR ''.'') (x @ CHR ''.'' # r) = Some (length x)" for r
    using Cons.prems(2) by (induction x) auto
  then have dot: "find_char (CHR ''.'') ?name 0 = Some (length x)"
    unfolding name by (simp add: find_char_def find_if_from_def)
  have no_item: "map_of (opt_items opts) ?name = None" using Cons.prems(3)[of "[]" "x # p"] by simp
  have "opt_at q (join ''.'' (r @ [n])) sub = None" if "p = q @ r" "r \<noteq> []" for q r
    using Cons.prems(3)[of "x # q" r] that sub(1) by simp
  then have "addressed (join ''.'' (p @ [n])) sub = Some (p, n)"
    using Cons.IH[OF sub(2)] Cons.prems(2) by simp
  moreover have "take (length x) ?name = x" "drop (length x + 1) ?name = join ''.'' (p @ [n])" unfolding name by simp_all
  ultimately show ?case using no_item dot sub(1) by (subst addressed.simps) simp
qed

subsection \<open>Parsing values\<close>

lemma trim_id: "s = [] \<or> hd s \<notin> set cs \<and> last s \<notin> set cs \<Longrightarrow> trim cs s = s"
proof (cases s rule: rev_cases)
  case (snoc xs x)
  assume "s = [] \<or> hd s \<notin> set cs \<and> last s \<notin> set cs"
  then have s: "hd s \<notin> set cs" "x \<notin> set cs" using snoc by auto
  obtain y ys where y: "s = y # ys" using snoc by (metis append_is_Nil_conv list.exhaust not_Cons_self2)
  have f: "find_if_from (\<lambda>c. c \<notin> set cs) s 0 = Some 0" using s y by (simp add: find_if_from_def)
  have "find_last_not_of cs s = Some (length s - 1)" using s snoc by (simp add: find_last_not_of_def)
  then show ?thesis using f y by (simp add: trim_def)
qed (simp add: trim_def find_if_from_def find_last_not_of_def)

definition trimmed :: "string \<Rightarrow> bool" where
  "trimmed s = (trim_spaces s = s)"

lemma trimmed_digits: "list_all (\<lambda>c. is_digit c \<or> c = CHR ''-'') s \<Longrightarrow> trimmed s"
proof -
  assume a: "list_all (\<lambda>c. is_digit c \<or> c = CHR ''-'') s"
  have "c \<notin> set (map char_of [32, 9, 13, 10 :: nat])" if d: "is_digit c \<or> c = CHR ''-''" for c
  proof
    assume "c \<in> set (map char_of [32, 9, 13, 10 :: nat])"
    then have "code_of c \<in> {32, 9, 13, 10}" by (auto simp: code_of_def)
    moreover have "code_of (CHR ''-'') = 45" by (simp add: code_of_def)
    ultimately show False using d by (auto simp: is_digit_def)
  qed
  then have "s = [] \<or> hd s \<notin> set (map char_of [32, 9, 13, 10 :: nat]) \<and> last s \<notin> set (map char_of [32, 9, 13, 10 :: nat])"
    using a by (cases "s = []") (auto simp: list_all_iff)
  then show ?thesis unfolding trimmed_def trim_spaces_def by (rule trim_id)
qed

lemma digits_format: "list_all (\<lambda>c. is_digit c \<or> c = CHR ''-'') (numerics_format n)"
  using dec_digits_ok by (auto simp: numerics_format_def list_all_iff)

text \<open>What an item of each kind holds.\<close>

fun value_fits :: "item_kind \<Rightarrow> option_value \<Rightarrow> bool" where
  "value_fits String_Item (Opt_String s) = trimmed s"
| "value_fits Number_Item (Opt_Int n) = True"
| "value_fits (Unit_Item units) (Opt_Int n) = True"
| "value_fits Switch_Item (Opt_Bool b) = True"
| "value_fits Bool_Item (Opt_Bool b) = True"
| "value_fits _ _ = False"

lemma digit_chars:
  assumes "is_digit c \<or> c = CHR ''-''"
  shows "c \<in> set ''-0123456789''"
proof -
  have "(of_char c :: nat) \<in> of_char ` set ''-0123456789''"
    using assms by (auto simp: is_digit_def code_of_def) arith
  then obtain d where "(of_char c :: nat) = of_char d" "d \<in> set ''-0123456789''" by blast
  then show ?thesis by simp
qed

lemma numerics_format_not_Nil [simp]: "numerics_format n \<noteq> []"
  using dec_digits_ok[of "nat n"] dec_digits_ok[of "nat (- n)"] by (auto simp: numerics_format_def)

lemma unit_parse_format:
  assumes "unit = [] \<or> hd unit \<notin> set ''-0123456789''"
  shows "unit_do_parse units (numerics_format n @ unit) v
    = (if unit = [] then (True, Opt_Int n)
       else case maps_try_get units unit of None \<Rightarrow> (False, Opt_Int n) | Some u \<Rightarrow> (True, Opt_Int (n * u)))"
proof -
  let ?P = "\<lambda>c. c \<notin> set ''-0123456789''"
  have all: "list_all (\<lambda>c. \<not> ?P c) (numerics_format n)"
    using digits_format[of n] digit_chars by (fastforce simp: list_all_iff)
  have skip: "find_index ?P (xs @ unit) = map_option (\<lambda>i. length xs + i) (find_index ?P unit)"
    if "list_all (\<lambda>c. \<not> ?P c) xs" for xs
    using that by (induction xs; cases "find_index ?P unit") auto
  have "find_index ?P unit = (if unit = [] then None else Some 0)" using assms by (cases unit) auto
  then have pos: "find_if_from ?P (numerics_format n @ unit) 0 = (if unit = [] then None else Some (length (numerics_format n)))"
    using skip[OF all] by (simp add: find_if_from_def)
  have num: "number_do_parse (numerics_format n) v = (True, Opt_Int n)"
    using try_parse_format[of "[]" n] by (simp add: number_do_parse_def)
  show ?thesis unfolding unit_do_parse_def pos
    using num by (cases "unit = []") (auto simp: Let_def opt_int_def split: option.splits)
qed

text \<open>
  An option item can be written out and read back: parsing the printed text of an item that
  is not frozen succeeds and restores the value, for strings without white space at the ends,
  numbers, numbers with units, switches and booleans.
\<close>

theorem option_item_roundtrip:
  assumes "value_fits (oi_kind item) v" and "\<not> oi_freezed item"
  shows "oi_parse (Some (oi_print (item\<lparr>oi_value := v\<rparr>))) item = (True, item\<lparr>oi_value := v, oi_modified := True\<rparr>)"
proof -
  have "oi_do_parse (oi_kind item) (oi_print (item\<lparr>oi_value := v\<rparr>)) w = (True, v)" for w
  proof (cases "oi_kind item")
    case String_Item
    then show ?thesis using assms(1) by (cases v) (auto simp: oi_print_def string_do_parse_def trimmed_def)
  next
    case Number_Item
    then show ?thesis using assms(1) try_parse_format[of "[]"]
      by (cases v) (auto simp: oi_print_def number_do_parse_def)
  next
    case (Unit_Item units)
    then show ?thesis using assms(1) unit_parse_format[of "[]" units] by (cases v) (auto simp: oi_print_def)
  next
    case Switch_Item
    have "make_lower (trim_spaces ''true'') = ''true''" "make_lower (trim_spaces ''false'') = ''false''" by code_simp+
    then show ?thesis using Switch_Item assms(1) by (cases v) (auto simp: oi_print_def switch_do_parse_def)
  next
    case Bool_Item
    have "make_lower (trim_spaces ''true'') = ''true''" "make_lower (trim_spaces ''false'') = ''false''" by code_simp+
    then show ?thesis using Bool_Item assms(1) by (cases v) (auto simp: oi_print_def bool_do_parse_def)
  qed
  then show ?thesis using assms(2) by (simp add: oi_parse_def)
qed

theorem option_item_roundtrip_witness:
  "oi_parse (Some (oi_print (make_item ''n'' Number_Item (Opt_Int (- 5)) (Opt_Int 0))))
     (make_item ''n'' Number_Item (Opt_Int 3) (Opt_Int 0))
   = (True, (make_item ''n'' Number_Item (Opt_Int (- 5)) (Opt_Int 0))\<lparr>oi_modified := True\<rparr>)"
  using option_item_roundtrip[of "make_item ''n'' Number_Item (Opt_Int 3) (Opt_Int 0)" "Opt_Int (- 5)"]
  by (simp add: make_item_def)

text \<open>
  A number with a unit suffix is multiplied by the unit of the table; an unknown unit makes the
  parser fail, but the value of the item has been replaced by the bare number all the same.
\<close>

theorem option_unit_values:
  assumes "hd unit \<notin> set ''-0123456789''" and "unit \<noteq> []" and "oi_kind item = Unit_Item units" and "\<not> oi_freezed item"
  shows "oi_parse (Some (numerics_format n @ unit)) item
    = (case maps_try_get units unit of
         Some u \<Rightarrow> (True, item\<lparr>oi_value := Opt_Int (n * u), oi_modified := True\<rparr>)
       | None \<Rightarrow> (False, item\<lparr>oi_value := Opt_Int n\<rparr>))"
  using assms unit_parse_format[of unit units n "oi_value item"] by (simp add: oi_parse_def split: option.splits)

theorem option_unit_values_witness:
  "oi_parse (Some ''2kB'') (make_item ''size'' (Unit_Item decimal_byte_count_units) (Opt_Int 0) (Opt_Int 0))
     = (True, (make_item ''size'' (Unit_Item decimal_byte_count_units) (Opt_Int 2000) (Opt_Int 0))\<lparr>oi_modified := True\<rparr>)
   \<and> fst (oi_parse (Some ''2x'') (make_item ''size'' (Unit_Item decimal_byte_count_units) (Opt_Int 0) (Opt_Int 0))) = False"
proof -
  have f: "numerics_format 2 = ''2''" by code_simp
  have u: "maps_try_get decimal_byte_count_units ''kB'' = Some 1000" by code_simp
  have x: "maps_try_get decimal_byte_count_units ''x'' = None" by code_simp
  show ?thesis
    using option_unit_values[of "''kB''" "make_item ''size'' (Unit_Item decimal_byte_count_units) (Opt_Int 0) (Opt_Int 0)" decimal_byte_count_units 2]
      option_unit_values[of "''x''" "make_item ''size'' (Unit_Item decimal_byte_count_units) (Opt_Int 0) (Opt_Int 0)" decimal_byte_count_units 2]
    by (simp add: f u x make_item_def)
qed

end
