(* ===== verification/Tcp_Socket.thy ===== *)
theory Tcp_Socket
  imports Xul_Prelude "HOL-Library.Sublist"
begin

text \<open>
  \<^verbatim>\<open>include/xul/libs/asio/asio_tcp_socket.hpp\<close>: the queue of outgoing buffers in front of
  \<open>async_write\<close>, the receive state and the life cycle of a connection, as a state machine. The
  operations asio has accepted and not completed yet are part of the state (\<open>ts_writes\<close>,
  \<open>ts_reads\<close>, \<open>ts_connects\<close>): the environment completes one of them at a time, in any order and
  with any error code, as a step. What the source relies on of asio is documented behaviour: a
  successful \<open>async_write\<close> has written its whole buffer, a successful \<open>async_receive\<close> gives between
  one byte and the size of its buffer, a successful \<open>async_read\<close> fills the buffer, \<open>async_connect\<close>
  opens the descriptor, and \<open>close\<close> leaves it closed. Every handler calls its listener as
  its last action, so what a listener does in the call is the next step. Assertions are read as
  in a release build; the thread identifier only assertions read has no counterpart.
\<close>

subsection \<open>The socket\<close>

record tcp_socket =
  ts_open :: bool
  ts_connected :: bool
  ts_receiving :: bool
  ts_sending_queue :: "bytes list"
  ts_max_sending_queue_size :: int
  ts_listening :: bool
  ts_writes :: "bytes list"
  ts_reads :: "(bool \<times> nat) list"
  ts_connects :: nat

datatype socket_event =
  Socket_Connect | Socket_Connect_Failed int
| Socket_Receive bytes | Socket_Receive_Failed int
| Socket_Send nat | Socket_Send_Failed int

text \<open>\<open>do_get_listener()->...\<close>: the dummy listener that \<open>reset_listener\<close> installs ignores every event.\<close>

definition ts_notify :: "socket_event \<Rightarrow> tcp_socket \<Rightarrow> socket_event list \<times> tcp_socket" where
  "ts_notify e s = (if ts_listening s then [e] else [], s)"

definition ts_set_listener :: "bool \<Rightarrow> tcp_socket \<Rightarrow> tcp_socket" where
  "ts_set_listener listener s = s\<lparr>ts_listening := listener\<rparr>"

text \<open>\<open>do_init\<close> and the constructors: around a connected native socket, or around a new one that is not open.\<close>

definition ts_do_init :: "tcp_socket \<Rightarrow> tcp_socket" where
  "ts_do_init s = s\<lparr>ts_max_sending_queue_size := 16, ts_receiving := False\<rparr>"

definition ts_accepted :: tcp_socket where
  "ts_accepted = ts_do_init \<lparr>ts_open = True, ts_connected = True, ts_receiving = False, ts_sending_queue = [],
     ts_max_sending_queue_size = 0, ts_listening = True, ts_writes = [], ts_reads = [], ts_connects = 0\<rparr>"

definition ts_new :: tcp_socket where
  "ts_new = ts_do_init \<lparr>ts_open = False, ts_connected = False, ts_receiving = False, ts_sending_queue = [],
     ts_max_sending_queue_size = 0, ts_listening = True, ts_writes = [], ts_reads = [], ts_connects = 0\<rparr>"

definition ts_set_max_sending_queue_size :: "int \<Rightarrow> tcp_socket \<Rightarrow> tcp_socket" where
  "ts_set_max_sending_queue_size n s = (if n = 0 then s else s\<lparr>ts_max_sending_queue_size := n\<rparr>)"

definition ts_is_sending :: "tcp_socket \<Rightarrow> bool" where
  "ts_is_sending s = (ts_sending_queue s \<noteq> [])"

definition ts_close :: "tcp_socket \<Rightarrow> tcp_socket" where
  "ts_close s = (if ts_open s then s\<lparr>ts_open := False\<rparr> else s)\<lparr>ts_connected := False\<rparr>"

definition ts_destroy :: "tcp_socket \<Rightarrow> tcp_socket" where
  "ts_destroy s = ts_close (ts_set_listener False s)"

definition ts_do_send_n :: "bytes \<Rightarrow> tcp_socket \<Rightarrow> tcp_socket" where
  "ts_do_send_n buf s = s\<lparr>ts_writes := ts_writes s @ [buf]\<rparr>"

definition ts_process_sending_queue :: "tcp_socket \<Rightarrow> tcp_socket" where
  "ts_process_sending_queue s =
     (case ts_sending_queue s of
        [] \<Rightarrow> s
      | buf # _ \<Rightarrow> if \<not> ts_open s then s\<lparr>ts_sending_queue := []\<rparr> else ts_do_send_n buf s)"

text \<open>The limit is an \<open>int\<close> compared with a \<open>size_t\<close>: a negative limit is a huge one.\<close>

definition ts_send_n :: "bytes \<Rightarrow> tcp_socket \<Rightarrow> bool \<times> tcp_socket" where
  "ts_send_n data s =
     (if int (length (ts_sending_queue s)) \<ge> size_of_int64 (ts_max_sending_queue_size s) then (False, s)
      else let s = s\<lparr>ts_sending_queue := ts_sending_queue s @ [data]\<rparr>
           in (True, if length (ts_sending_queue s) = 1 then ts_process_sending_queue s else s))"

definition ts_do_receive :: "nat \<Rightarrow> tcp_socket \<Rightarrow> tcp_socket" where
  "ts_do_receive n s = s\<lparr>ts_reads := ts_reads s @ [(False, n)]\<rparr>"

definition ts_do_receive_n :: "nat \<Rightarrow> tcp_socket \<Rightarrow> tcp_socket" where
  "ts_do_receive_n n s = s\<lparr>ts_reads := ts_reads s @ [(True, n)]\<rparr>"

definition ts_receive :: "nat \<Rightarrow> tcp_socket \<Rightarrow> tcp_socket" where
  "ts_receive n s = ts_do_receive n (s\<lparr>ts_receiving := True\<rparr>)"

definition ts_receive_n :: "nat \<Rightarrow> tcp_socket \<Rightarrow> tcp_socket" where
  "ts_receive_n n s = ts_do_receive_n n (s\<lparr>ts_receiving := True\<rparr>)"

definition ts_do_connect :: "tcp_socket \<Rightarrow> tcp_socket" where
  "ts_do_connect s = s\<lparr>ts_open := True, ts_connects := ts_connects s + 1\<rparr>"

definition ts_connect :: "tcp_socket \<Rightarrow> tcp_socket" where
  "ts_connect s = ts_do_connect (ts_close s)"

text \<open>The completion handlers; the error code \<open>0\<close> is success.\<close>

definition ts_on_receive :: "int \<Rightarrow> bytes \<Rightarrow> tcp_socket \<Rightarrow> socket_event list \<times> tcp_socket" where
  "ts_on_receive errcode data s =
     (let s = s\<lparr>ts_receiving := False\<rparr> in
      if errcode \<noteq> 0 then
        ts_notify (Socket_Receive_Failed errcode) (s\<lparr>ts_connected := False, ts_sending_queue := []\<rparr>)
      else ts_notify (Socket_Receive data) s)"

definition ts_on_send :: "int \<Rightarrow> nat \<Rightarrow> tcp_socket \<Rightarrow> socket_event list \<times> tcp_socket" where
  "ts_on_send errcode bytes s =
     (if errcode \<noteq> 0 then
        ts_notify (Socket_Send_Failed errcode) (s\<lparr>ts_connected := False, ts_sending_queue := []\<rparr>)
      else if ts_sending_queue s = [] then ([], s)
      else ts_notify (Socket_Send bytes)
             (ts_process_sending_queue (s\<lparr>ts_sending_queue := tl (ts_sending_queue s)\<rparr>)))"

definition ts_on_connect :: "int \<Rightarrow> tcp_socket \<Rightarrow> socket_event list \<times> tcp_socket" where
  "ts_on_connect errcode s =
     (let s = s\<lparr>ts_sending_queue := [], ts_connected := (errcode = 0), ts_receiving := False\<rparr> in
      if errcode \<noteq> 0 then ts_notify (Socket_Connect_Failed errcode) s else ts_notify Socket_Connect s)"

subsection \<open>Steps of the program and of asio\<close>

datatype socket_action =
  Send bytes bool | Receive nat | Receive_N nat | Set_Max int | Close | Destroy | Connect
| Write_Done int bytes | Read_Done int bytes | Connect_Done int

inductive tcp_step :: "tcp_socket \<Rightarrow> socket_action \<Rightarrow> socket_event list \<Rightarrow> tcp_socket \<Rightarrow> bool" where
  send: "ts_send_n d s = (r, s') \<Longrightarrow> tcp_step s (Send d r) [] s'"
| receive: "\<not> ts_receiving s \<Longrightarrow> 0 < n \<Longrightarrow> tcp_step s (Receive n) [] (ts_receive n s)"
| receive_n: "\<not> ts_receiving s \<Longrightarrow> 0 < n \<Longrightarrow> tcp_step s (Receive_N n) [] (ts_receive_n n s)"
| set_max: "tcp_step s (Set_Max n) [] (ts_set_max_sending_queue_size n s)"
| close: "tcp_step s Close [] (ts_close s)"
| destroy: "tcp_step s Destroy [] (ts_destroy s)"
| connect: "tcp_step s Connect [] (ts_connect s)"
| write_done: "ts_writes s = us @ w # vs \<Longrightarrow> (errcode = 0 \<longrightarrow> n = length w) \<Longrightarrow>
    ts_on_send errcode n (s\<lparr>ts_writes := us @ vs\<rparr>) = (es, s') \<Longrightarrow> tcp_step s (Write_Done errcode w) es s'"
| read_done: "ts_reads s = us @ (exact, n) # vs \<Longrightarrow>
    (errcode = 0 \<longrightarrow> 0 < length d \<and> length d \<le> n \<and> (exact \<longrightarrow> length d = n)) \<Longrightarrow>
    ts_on_receive errcode d (s\<lparr>ts_reads := us @ vs\<rparr>) = (es, s') \<Longrightarrow> tcp_step s (Read_Done errcode d) es s'"
| connect_done: "ts_connects s = Suc n \<Longrightarrow>
    ts_on_connect errcode (s\<lparr>ts_connects := n\<rparr>) = (es, s') \<Longrightarrow> tcp_step s (Connect_Done errcode) es s'"

inductive tcp_run :: "tcp_socket \<Rightarrow> socket_action list \<Rightarrow> socket_event list \<Rightarrow> tcp_socket \<Rightarrow> bool" where
  run_nil: "tcp_run s [] [] s"
| run_cons: "tcp_step s a es s' \<Longrightarrow> tcp_run s' as fs s'' \<Longrightarrow> tcp_run s (a # as) (es @ fs) s''"

inductive_cases tcp_stepE: "tcp_step s a es s'"
inductive_cases tcp_run_consE: "tcp_run s (a # as) es s''"
inductive_simps tcp_run_nil [simp]: "tcp_run s [] es s'"

lemmas ts_defs = ts_notify_def ts_set_listener_def ts_set_max_sending_queue_size_def ts_close_def ts_destroy_def
  ts_do_send_n_def ts_process_sending_queue_def ts_send_n_def ts_receive_def ts_receive_n_def ts_do_receive_def ts_do_receive_n_def ts_do_init_def ts_do_connect_def
  ts_connect_def ts_on_receive_def ts_on_send_def ts_on_connect_def Let_def

text \<open>What a run handed to the socket and what asio wrote of it.\<close>

fun accepted :: "socket_action list \<Rightarrow> bytes list" where
  "accepted [] = []"
| "accepted (Send d r # as) = (if r then d # accepted as else accepted as)"
| "accepted (_ # as) = accepted as"

fun written :: "socket_action list \<Rightarrow> bytes list" where
  "written [] = []"
| "written (Write_Done e w # as) = (if e = 0 then w # written as else written as)"
| "written (_ # as) = written as"

text \<open>
  One session: the steps up to the first failed receive, or the completion of a new connect.
  Within it an undisturbed run has no failed write and does not close the socket.
\<close>

fun in_session :: "socket_action \<Rightarrow> bool" where
  "in_session (Read_Done e d) = (e = 0)"
| "in_session (Connect_Done e) = False"
| "in_session _ = True"

fun undisturbed :: "socket_action \<Rightarrow> bool" where
  "undisturbed (Write_Done e w) = (e = 0)"
| "undisturbed Close = False"
| "undisturbed Destroy = False"
| "undisturbed Connect = False"
| "undisturbed _ = True"

text \<open>The invariant of a session: the head of the queue, and nothing else, is being written.\<close>

definition ts_inv :: "tcp_socket \<Rightarrow> bool" where
  "ts_inv s \<longleftrightarrow> ts_writes s = take 1 (ts_sending_queue s)"

lemma ts_inv_cases:
  assumes "ts_inv s"
  obtains (idle) "ts_sending_queue s = []" "ts_writes s = []"
  | (busy) b q where "ts_sending_queue s = b # q" "ts_writes s = [b]"
  using assms by (cases "ts_sending_queue s") (auto simp: ts_inv_def)

lemma single_split [simp]:
  "us @ w # vs = [b] \<longleftrightarrow> us = [] \<and> vs = [] \<and> w = b" "[b] = us @ w # vs \<longleftrightarrow> us = [] \<and> vs = [] \<and> w = b"
  by (auto simp: Cons_eq_append_conv append_eq_Cons_conv)

lemma accepted_cons: "accepted (a # as) = accepted [a] @ accepted as"
  by (cases a) auto

lemma written_cons: "written (a # as) = written [a] @ written as"
  by (cases a) auto

lemma tcp_step_inv:
  assumes "tcp_step s a es s'" and "ts_inv s" and "in_session a"
  shows "ts_inv s'"
  using assms(2)
proof (cases s rule: ts_inv_cases)
  case idle
  then show ?thesis using assms by (auto simp: ts_defs ts_inv_def elim!: tcp_stepE split: if_splits)
next
  case (busy b q)
  then show ?thesis using assms
    by (auto simp: ts_defs ts_inv_def elim!: tcp_stepE split: if_splits list.splits)
qed

lemma tcp_step_data:
  assumes "tcp_step s a es s'" and "ts_inv s" and "in_session a"
  shows "subseq (written [a] @ ts_sending_queue s') (ts_sending_queue s @ accepted [a])"
  using assms(2)
proof (cases s rule: ts_inv_cases)
  case idle
  then show ?thesis using assms by (auto simp: ts_defs elim!: tcp_stepE split: if_splits)
next
  case (busy b q)
  then show ?thesis using assms by (auto simp: ts_defs elim!: tcp_stepE split: if_splits list.splits)
qed

lemma tcp_step_exact:
  assumes "tcp_step s a es s'" and "ts_inv s" and "in_session a" and "undisturbed a" and "ts_open s"
  shows "ts_open s' \<and> written [a] @ ts_sending_queue s' = ts_sending_queue s @ accepted [a]"
  using assms(2)
proof (cases s rule: ts_inv_cases)
  case idle
  then show ?thesis using assms by (auto simp: ts_defs elim!: tcp_stepE split: if_splits)
next
  case (busy b q)
  then show ?thesis using assms by (auto simp: ts_defs elim!: tcp_stepE split: if_splits list.splits)
qed

lemma tcp_run_inv: "tcp_run s as es s' \<Longrightarrow> ts_inv s \<Longrightarrow> list_all in_session as \<Longrightarrow> ts_inv s'"
  by (induction rule: tcp_run.induct) (auto dest: tcp_step_inv)

lemma tcp_run_data:
  "tcp_run s as es s' \<Longrightarrow> ts_inv s \<Longrightarrow> list_all in_session as \<Longrightarrow>
   subseq (written as @ ts_sending_queue s') (ts_sending_queue s @ accepted as)"
proof (induction rule: tcp_run.induct)
  case (run_cons s a es s' as fs s'')
  have step: "subseq (written [a] @ ts_sending_queue s') (ts_sending_queue s @ accepted [a])" and "ts_inv s'"
    using run_cons tcp_step_data tcp_step_inv by auto
  then have "subseq (written [a] @ written as @ ts_sending_queue s'') (written [a] @ ts_sending_queue s' @ accepted as)"
    using run_cons by (intro list_emb_append_mono[of _ "written [a]" "written [a]"]) simp_all
  also have "subseq \<dots> (ts_sending_queue s @ accepted [a] @ accepted as)"
    using list_emb_append_mono[OF step, of "accepted as" "accepted as"] by simp
  finally show ?case by (simp add: written_cons[of a as] accepted_cons[of a as])
qed simp

lemma tcp_run_exact:
  "tcp_run s as es s' \<Longrightarrow> ts_inv s \<Longrightarrow> list_all in_session as \<Longrightarrow> list_all undisturbed as \<Longrightarrow> ts_open s \<Longrightarrow>
   written as @ ts_sending_queue s' = ts_sending_queue s @ accepted as"
proof (induction rule: tcp_run.induct)
  case (run_cons s a es s' as fs s'')
  then have step: "written [a] @ ts_sending_queue s' = ts_sending_queue s @ accepted [a]" and "ts_open s'" "ts_inv s'"
    using tcp_step_exact tcp_step_inv by auto
  then have "written as @ ts_sending_queue s'' = ts_sending_queue s' @ accepted as" using run_cons by simp
  then have "written [a] @ written as @ ts_sending_queue s'' = (written [a] @ ts_sending_queue s') @ accepted as" by simp
  then show ?case unfolding step by (simp add: written_cons[of a as] accepted_cons[of a as])
qed simp

text \<open>
  C6. Within a session, whatever the application does and however asio completes its operations, at
  most one write is outstanding and it is the head of the queue; what asio has written, followed by
  what is queued, is a subsequence of the buffers the socket accepted, in their order; and as long
  as no write fails and the socket is not closed, nothing is lost.
\<close>

theorem tcp_socket_fifo:
  assumes "tcp_run s as es s'" and "ts_inv s" and "list_all in_session as"
  shows "ts_writes s' = take 1 (ts_sending_queue s')
    \<and> subseq (written as @ ts_sending_queue s') (ts_sending_queue s @ accepted as)
    \<and> (ts_open s \<and> list_all undisturbed as \<longrightarrow>
         written as @ ts_sending_queue s' = ts_sending_queue s @ accepted as)"
  using tcp_run_inv[OF assms] tcp_run_data[OF assms] tcp_run_exact[OF assms] by (simp add: ts_inv_def)

lemma run_two_sends:
  "tcp_run ts_accepted [Send [1] True, Send [2, 3] True, Write_Done 0 [1]] [Socket_Send 1]
     (ts_accepted\<lparr>ts_sending_queue := [[2, 3]], ts_writes := [[2, 3]]\<rparr>)"
proof -
  have "tcp_run (ts_accepted\<lparr>ts_sending_queue := [[1], [2, 3]], ts_writes := [[1]]\<rparr>) [Write_Done 0 [1]] ([Socket_Send 1] @ [])
     (ts_accepted\<lparr>ts_sending_queue := [[2, 3]], ts_writes := [[2, 3]]\<rparr>)"
    by (rule run_cons[OF write_done[of _ "[]" "[1]" "[]" 0 1] run_nil]) (simp_all add: ts_defs ts_accepted_def)
  then have "tcp_run (ts_accepted\<lparr>ts_sending_queue := [[1]], ts_writes := [[1]]\<rparr>) [Send [2, 3] True, Write_Done 0 [1]] ([] @ [Socket_Send 1])
     (ts_accepted\<lparr>ts_sending_queue := [[2, 3]], ts_writes := [[2, 3]]\<rparr>)"
    by (intro run_cons[OF send]) (simp_all add: ts_defs ts_accepted_def size_of_int64_def)
  then have "tcp_run ts_accepted [Send [1] True, Send [2, 3] True, Write_Done 0 [1]] ([] @ [Socket_Send 1])
     (ts_accepted\<lparr>ts_sending_queue := [[2, 3]], ts_writes := [[2, 3]]\<rparr>)"
    by (intro run_cons[OF send]) (simp_all add: ts_defs ts_accepted_def size_of_int64_def)
  then show ?thesis by simp
qed

theorem tcp_socket_fifo_witness:
  "written [Send [1] True, Send [2, 3] True, Write_Done 0 [1]] @ [[2, 3]] = [[1], [2, 3]]"
  using tcp_socket_fifo[OF run_two_sends] by (simp add: ts_inv_def ts_accepted_def ts_do_init_def)

text \<open>The limit on the queue.\<close>

lemma tcp_step_bound:
  assumes "tcp_step s a es s'" and "0 < ts_max_sending_queue_size s" and "ts_max_sending_queue_size s < 2 ^ 31"
    and "\<forall>n. a \<noteq> Set_Max n" and "int (length (ts_sending_queue s)) \<le> ts_max_sending_queue_size s"
  shows "ts_max_sending_queue_size s' = ts_max_sending_queue_size s
    \<and> int (length (ts_sending_queue s')) \<le> ts_max_sending_queue_size s'"
  using assms by (cases "ts_sending_queue s") (auto simp: ts_defs size_of_int64_def elim!: tcp_stepE split: if_splits list.splits)

lemma tcp_socket_drain_step:
  assumes "ts_inv s" and "ts_open s" and "ts_listening s" and "ts_sending_queue s = b # q"
  shows "tcp_step s (Write_Done 0 b) [Socket_Send (length b)] (s\<lparr>ts_sending_queue := q, ts_writes := take 1 q\<rparr>)"
  by (rule write_done[of _ "[]" b "[]" 0 "length b"]) (use assms in \<open>auto simp: ts_defs ts_inv_def split: list.splits\<close>)

lemma tcp_socket_drain_run:
  assumes "ts_inv s" and "ts_open s" and "ts_listening s"
  shows "tcp_run s (map (Write_Done 0) (ts_sending_queue s)) (map (Socket_Send \<circ> length) (ts_sending_queue s))
    (s\<lparr>ts_sending_queue := [], ts_writes := []\<rparr>)"
  using assms
proof (induction "ts_sending_queue s" arbitrary: s)
  case Nil
  then show ?case by (auto simp: ts_inv_def)
next
  case (Cons b q)
  let ?s = "s\<lparr>ts_sending_queue := q, ts_writes := take 1 q\<rparr>"
  have "tcp_run ?s (map (Write_Done 0) q) (map (Socket_Send \<circ> length) q) (?s\<lparr>ts_sending_queue := [], ts_writes := []\<rparr>)"
    using Cons(1)[of ?s] Cons.prems by (simp add: ts_inv_def)
  from run_cons[OF tcp_socket_drain_step[OF Cons.prems Cons(2)[symmetric]] this]
  show ?case using Cons.prems by (simp flip: Cons(2))
qed

text \<open>
  C29. The queue drains: after any run of a session that started on a socket with nothing queued and
  nothing being written, a write is outstanding whenever something is queued; and if the socket is
  open and has its listener, and asio completes the outstanding writes successfully, one completion for
  each queued buffer empties the queue, with the listener told of every buffer in order.
\<close>

theorem tcp_socket_drains:
  assumes "tcp_run s0 as es s" and "list_all in_session as" and "ts_sending_queue s0 = []" and "ts_writes s0 = []"
  shows "(ts_is_sending s \<longleftrightarrow> ts_writes s \<noteq> [])
    \<and> (ts_open s \<and> ts_listening s \<longrightarrow>
        tcp_run s (map (Write_Done 0) (ts_sending_queue s)) (map (Socket_Send \<circ> length) (ts_sending_queue s))
          (s\<lparr>ts_sending_queue := [], ts_writes := []\<rparr>))"
proof -
  have "ts_inv s" using tcp_run_inv[OF assms(1) _ assms(2)] assms(3,4) by (simp add: ts_inv_def)
  then show ?thesis using tcp_socket_drain_run[of s] by (auto simp: ts_is_sending_def ts_inv_def)
qed

theorem tcp_socket_drains_witness:
  "tcp_run (ts_accepted\<lparr>ts_sending_queue := [[2, 3]], ts_writes := [[2, 3]]\<rparr>) [Write_Done 0 [2, 3]] [Socket_Send 2] ts_accepted"
  using tcp_socket_drains[OF run_two_sends] by (simp add: ts_accepted_def ts_do_init_def numeral_2_eq_2)

text \<open>The limit of the queue holds through every run that does not change it.\<close>

lemma tcp_run_bound:
  "tcp_run s as es s' \<Longrightarrow> 0 < ts_max_sending_queue_size s \<Longrightarrow> ts_max_sending_queue_size s < 2 ^ 31 \<Longrightarrow>
   list_all (\<lambda>a. \<forall>n. a \<noteq> Set_Max n) as \<Longrightarrow> int (length (ts_sending_queue s)) \<le> ts_max_sending_queue_size s \<Longrightarrow>
   int (length (ts_sending_queue s')) \<le> ts_max_sending_queue_size s"
proof (induction rule: tcp_run.induct)
  case (run_cons s a es s' as fs s'')
  then show ?case using tcp_step_bound[OF run_cons(1)] by simp
qed simp

text \<open>
  C31. The end of a session: a failed receive empties the queue and leaves the write of its head
  outstanding, so the next buffer is written at the same time as the old one; and the completion of the
  old write takes the new buffer off the queue, so that the completion of the new write is not reported.
\<close>

theorem tcp_socket_overlapping_writes:
  assumes "ts_inv s" and "ts_open s" and "ts_listening s" and "ts_sending_queue s = b # q"
    and "ts_reads s = us @ r # vs" and "errcode \<noteq> 0"
    and "0 < ts_max_sending_queue_size s" and "ts_max_sending_queue_size s < 2 ^ 31"
  shows "\<exists>s' s''. tcp_run s [Read_Done errcode [], Send d True] [Socket_Receive_Failed errcode] s'
    \<and> ts_writes s' = [b, d] \<and> ts_sending_queue s' = [d]
    \<and> tcp_run s' [Write_Done 0 b, Write_Done 0 d] [Socket_Send (length b)] s''"
proof -
  obtain exact n where r: "r = (exact, n)" by fastforce
  let ?s1 = "s\<lparr>ts_reads := us @ vs, ts_receiving := False, ts_connected := False, ts_sending_queue := []\<rparr>"
  let ?s2 = "?s1\<lparr>ts_sending_queue := [d], ts_writes := [b, d]\<rparr>"
  let ?s3 = "?s1\<lparr>ts_sending_queue := [], ts_writes := [d]\<rparr>"
  let ?s4 = "?s1\<lparr>ts_sending_queue := [], ts_writes := []\<rparr>"
  have w: "ts_writes s = [b]" using assms(1,4) by (simp add: ts_inv_def)
  have 1: "tcp_step s (Read_Done errcode []) [Socket_Receive_Failed errcode] ?s1"
    by (rule read_done[of _ us exact n vs]) (use assms r in \<open>simp_all add: ts_defs\<close>)
  have 2: "tcp_step ?s1 (Send d True) [] ?s2"
    by (rule send) (use assms w in \<open>simp add: ts_defs size_of_int64_def\<close>)
  have 3: "tcp_step ?s2 (Write_Done 0 b) [Socket_Send (length b)] ?s3"
    by (rule write_done[of _ "[]" b "[d]" 0 "length b"]) (use assms in \<open>simp_all add: ts_defs\<close>)
  have 4: "tcp_step ?s3 (Write_Done 0 d) [] ?s4"
    by (rule write_done[of _ "[]" d "[]" 0 "length d"]) (use assms in \<open>simp_all add: ts_defs\<close>)
  show ?thesis
    using run_cons[OF 1 run_cons[OF 2 run_nil]] run_cons[OF 3 run_cons[OF 4 run_nil]]
    by (intro exI[of _ ?s2] exI[of _ ?s4]) simp
qed

theorem tcp_socket_overlapping_writes_witness:
  "\<exists>s' s''. tcp_run (ts_accepted\<lparr>ts_sending_queue := [[1]], ts_writes := [[1]], ts_reads := [(False, 8)]\<rparr>)
       [Read_Done 2 [], Send [2] True] [Socket_Receive_Failed 2] s'
    \<and> ts_writes s' = [[1], [2]] \<and> ts_sending_queue s' = [[2]]
    \<and> tcp_run s' [Write_Done 0 [1], Write_Done 0 [2]] [Socket_Send (length [1 :: u8])] s''"
  by (rule tcp_socket_overlapping_writes[where us = "[]" and r = "(False, 8)" and vs = "[]" and q = "[]"])
    (simp_all add: ts_inv_def ts_accepted_def ts_do_init_def)

end
