(* ===== verification/Tcp_Session.thy ===== *)
theory Tcp_Session
  imports Tcp_Socket Buffered_Decoder
begin

text \<open>
  \<^verbatim>\<open>include/xul/xio/net/tcp_session.hpp\<close>, \<^verbatim>\<open>include/xul/xio/net/tcp_client.hpp\<close> and the base class
  \<^verbatim>\<open>include/xul/xio/io_session_adapter.hpp\<close>: a session joins a TCP socket, whose events it listens
  to, with a message decoder, which it feeds what the socket receives, and keeps a receive outstanding
  while it is not paused. The decoder is the buffering one, with its virtual \<open>do_decode\<close> as a parameter.
  The listener of the session does not call back into the session from within a call.
\<close>

subsection \<open>tcp_session\<close>

datatype 'm session_event =
  Session_Open | Session_Close | Session_Receive 'm | Session_Send nat | Session_Error int

record tcp_session =
  se_socket :: tcp_socket
  se_decoder :: decoder
  se_aborted :: bool
  se_pause_receive :: bool
  se_receive_buffer_size :: nat

definition se_init :: "tcp_socket \<Rightarrow> decoder \<Rightarrow> tcp_session" where
  "se_init sock dec = \<lparr>se_socket = ts_set_listener True sock, se_decoder = dec, se_aborted = False,
     se_pause_receive = False, se_receive_buffer_size = 2048\<rparr>"

definition se_is_open :: "tcp_session \<Rightarrow> bool" where
  "se_is_open s = (ts_open (se_socket s) \<and> ts_connected (se_socket s))"

definition se_read :: "tcp_session \<Rightarrow> tcp_session" where
  "se_read s =
     (if ts_receiving (se_socket s) then s
      else s\<lparr>se_socket := ts_receive (se_receive_buffer_size s) (se_socket s)\<rparr>)"

definition se_set_receive_buffer_size :: "nat \<Rightarrow> tcp_session \<Rightarrow> tcp_session" where
  "se_set_receive_buffer_size n s = s\<lparr>se_receive_buffer_size := (if n < 1 then 1 else n)\<rparr>"

definition se_pause :: "tcp_session \<Rightarrow> tcp_session" where
  "se_pause s = s\<lparr>se_pause_receive := True\<rparr>"

definition se_resume :: "tcp_session \<Rightarrow> tcp_session" where
  "se_resume s =
     (if \<not> se_pause_receive s then s
      else let s = s\<lparr>se_pause_receive := False\<rparr> in if se_is_open s then se_read s else s)"

definition se_write :: "bytes \<Rightarrow> tcp_session \<Rightarrow> bool \<times> tcp_session" where
  "se_write data s = (let (r, sock) = ts_send_n data (se_socket s) in (r, s\<lparr>se_socket := sock\<rparr>))"

definition se_abort :: "tcp_session \<Rightarrow> tcp_session" where
  "se_abort s = s\<lparr>se_aborted := True, se_decoder := decoder_abort (se_decoder s)\<rparr>"

definition se_close :: "tcp_session \<Rightarrow> 'm session_event list \<times> tcp_session" where
  "se_close s = (let s = se_abort s in ([Session_Close], s\<lparr>se_socket := ts_close (se_socket s)\<rparr>))"

fun session_event_of :: "'m decoder_event \<Rightarrow> 'm session_event" where
  "session_event_of (Decoder_Message m) = Session_Receive m"
| "session_event_of (Decoder_Error e) = Session_Error e"

definition se_on_socket_receive ::
    "(bytes \<Rightarrow> int \<times> 'm list) \<Rightarrow> bytes \<Rightarrow> tcp_session \<Rightarrow> 'm session_event list \<times> tcp_session" where
  "se_on_socket_receive do_decode data s =
     (let (_, dec, es) = feed do_decode data (se_decoder s);
          s = s\<lparr>se_decoder := dec\<rparr>
      in (map session_event_of es,
          if se_aborted s \<or> dec_abort dec then s else if se_pause_receive s then s else se_read s))"

definition se_open_session :: "tcp_session \<Rightarrow> 'm session_event list \<times> tcp_session" where
  "se_open_session s =
     (let s = s\<lparr>se_aborted := False, se_pause_receive := False, se_decoder := decoder_reset (se_decoder s)\<rparr>
      in ([Session_Open], se_read s))"

text \<open>The session as the listener of its socket; a client opens its session when it is connected.\<close>

fun se_on_event ::
    "(bytes \<Rightarrow> int \<times> 'm list) \<Rightarrow> socket_event \<Rightarrow> tcp_session \<Rightarrow> 'm session_event list \<times> tcp_session" where
  "se_on_event do_decode (Socket_Receive data) s = se_on_socket_receive do_decode data s"
| "se_on_event do_decode (Socket_Receive_Failed e) s = ([Session_Error e], s)"
| "se_on_event do_decode (Socket_Send n) s = ([Session_Send n], s)"
| "se_on_event do_decode (Socket_Send_Failed e) s = ([Session_Error e], s)"
| "se_on_event do_decode Socket_Connect s = se_open_session s"
| "se_on_event do_decode (Socket_Connect_Failed e) s = ([Session_Error e], s)"

fun se_on_events ::
    "(bytes \<Rightarrow> int \<times> 'm list) \<Rightarrow> socket_event list \<Rightarrow> tcp_session \<Rightarrow> 'm session_event list \<times> tcp_session" where
  "se_on_events do_decode [] s = ([], s)"
| "se_on_events do_decode (e # es) s =
     (let (xs, s) = se_on_event do_decode e s; (ys, s) = se_on_events do_decode es s in (xs @ ys, s))"

subsection \<open>tcp_client\<close>

text \<open>
  \<open>close\<close> replaces an open socket by a new one, whose outstanding operations are none, and then
  closes the session.
\<close>

definition tc_close :: "tcp_session \<Rightarrow> 'm session_event list \<times> tcp_session" where
  "tc_close s =
     (let s = (if ts_open (se_socket s) then s\<lparr>se_socket := ts_set_listener True ts_new\<rparr> else s) in se_close s)"

definition tc_do_connect :: "tcp_session \<Rightarrow> 'm session_event list \<times> tcp_session" where
  "tc_do_connect s = (let (es, s) = tc_close s in (es, s\<lparr>se_socket := ts_connect (se_socket s)\<rparr>))"

text \<open>\<open>on_resolver_address\<close>, with the addresses the resolver found.\<close>

definition tc_on_resolver_address :: "int \<Rightarrow> 'a list \<Rightarrow> tcp_session \<Rightarrow> 'm session_event list \<times> tcp_session" where
  "tc_on_resolver_address errcode addrs s =
     (if errcode > 0 \<or> addrs = [] then ([Session_Error errcode], s) else tc_do_connect s)"

subsection \<open>Steps of a session\<close>

datatype session_action =
  Asio socket_action | S_Write bytes bool | S_Pause | S_Resume | S_Close

fun completion :: "socket_action \<Rightarrow> bool" where
  "completion (Write_Done e w) = True"
| "completion (Read_Done e d) = True"
| "completion (Connect_Done e) = True"
| "completion _ = False"

inductive session_step ::
    "(bytes \<Rightarrow> int \<times> 'm list) \<Rightarrow> tcp_session \<Rightarrow> session_action \<Rightarrow> 'm session_event list \<Rightarrow> tcp_session \<Rightarrow> bool"
  for do_decode where
  session_asio: "tcp_step (se_socket s) a es sock \<Longrightarrow> completion a \<Longrightarrow>
    se_on_events do_decode es (s\<lparr>se_socket := sock\<rparr>) = (fs, s') \<Longrightarrow> session_step do_decode s (Asio a) fs s'"
| session_write: "se_write d s = (r, s') \<Longrightarrow> session_step do_decode s (S_Write d r) [] s'"
| session_pause: "session_step do_decode s S_Pause [] (se_pause s)"
| session_resume: "session_step do_decode s S_Resume [] (se_resume s)"
| session_close: "se_close s = (es, s') \<Longrightarrow> session_step do_decode s S_Close es s'"

inductive session_run ::
    "(bytes \<Rightarrow> int \<times> 'm list) \<Rightarrow> tcp_session \<Rightarrow> session_action list \<Rightarrow> 'm session_event list \<Rightarrow> tcp_session \<Rightarrow> bool"
  for do_decode where
  session_nil: "session_run do_decode s [] [] s"
| session_cons: "session_step do_decode s a es s' \<Longrightarrow> session_run do_decode s' as fs s'' \<Longrightarrow>
    session_run do_decode s (a # as) (es @ fs) s''"

lemmas se_defs = se_is_open_def se_read_def se_pause_def se_resume_def se_write_def se_abort_def se_close_def
  se_on_socket_receive_def se_open_session_def

text \<open>The chunks received in a run, and the messages its listener got.\<close>

fun chunks :: "session_action list \<Rightarrow> bytes list" where
  "chunks [] = []"
| "chunks (Asio (Read_Done e d) # as) = (if e = 0 then d # chunks as else chunks as)"
| "chunks (_ # as) = chunks as"

fun messages :: "'m session_event list \<Rightarrow> 'm list" where
  "messages [] = []"
| "messages (Session_Receive m # es) = m # messages es"
| "messages (_ # es) = messages es"

definition no_error :: "'m session_event list \<Rightarrow> bool" where
  "no_error es \<longleftrightarrow> list_all (\<lambda>e. \<forall>c. e \<noteq> Session_Error c) es"

text \<open>A running session: connected, nothing aborted, and reading unless it is paused.\<close>

definition se_running :: "tcp_session \<Rightarrow> bool" where
  "se_running s \<longleftrightarrow> se_is_open s \<and> ts_listening (se_socket s) \<and> ts_connects (se_socket s) = 0
     \<and> \<not> se_aborted s \<and> \<not> dec_abort (se_decoder s)
     \<and> length (ts_reads (se_socket s)) = (if ts_receiving (se_socket s) then 1 else 0)
     \<and> (\<not> se_pause_receive s \<longrightarrow> ts_receiving (se_socket s))"

lemma se_on_events_single [simp]:
  "se_on_events do_decode [e] s = se_on_event do_decode e s" "se_on_events do_decode [] s = ([], s)"
  by (simp_all split: prod.splits)

lemma no_error_simps [simp]:
  "no_error [] = True" "no_error (e # es) \<longleftrightarrow> (\<forall>c. e \<noteq> Session_Error c) \<and> no_error es"
  "no_error (es @ fs) \<longleftrightarrow> no_error es \<and> no_error fs"
  by (simp_all add: no_error_def)

lemma messages_append [simp]: "messages (es @ fs) = messages es @ messages fs"
  by (induction es rule: messages.induct) auto

lemma chunks_cons: "chunks (a # as) = chunks [a] @ chunks as"
  by (cases a; simp) (case_tac x1; simp)

lemma feed_all_append:
  "feed_all f (xs @ ys) s = (let (s1, es) = feed_all f xs s; (s2, fs) = feed_all f ys s1 in (s2, es @ fs))"
  by (induction xs arbitrary: s) (auto simp: Let_def split: prod.splits)

lemma no_error_decoded:
  "no_error (map session_event_of ds) \<Longrightarrow> \<exists>ms. ds = map Decoder_Message ms \<and> messages (map session_event_of ds) = ms"
proof (induction ds)
  case (Cons d ds)
  then have "ds = map Decoder_Message (messages (map session_event_of ds))" by auto
  then show ?case using Cons.prems by (cases d) auto
qed simp

text \<open>Sending leaves the receiving half of the socket alone.\<close>

definition ts_receiver :: "tcp_socket \<Rightarrow> (bool \<times> bool \<times> bool) \<times> bool \<times> (bool \<times> nat) list \<times> nat" where
  "ts_receiver s = ((ts_open s, ts_connected s, ts_receiving s), ts_listening s, ts_reads s, ts_connects s)"

lemma ts_process_receiver: "ts_receiver (ts_process_sending_queue s) = ts_receiver s"
  by (auto simp: ts_receiver_def ts_process_sending_queue_def ts_do_send_n_def split: list.splits)

lemma ts_send_receiver: "ts_send_n d s = (r, s') \<Longrightarrow> ts_receiver s' = ts_receiver s"
  by (auto simp: ts_send_n_def Let_def ts_process_receiver split: if_splits) (simp_all add: ts_receiver_def)

lemma ts_on_send_receiver:
  "ts_on_send 0 n s = (es, s') \<Longrightarrow> ts_receiver s' = ts_receiver s \<and> (es = [] \<or> es = [Socket_Send n])"
  by (auto simp: ts_on_send_def ts_notify_def Let_def ts_process_receiver split: if_splits)
    (simp_all add: ts_receiver_def)

lemma se_running_cong:
  "ts_receiver sock = ts_receiver (se_socket s) \<Longrightarrow> se_running (s\<lparr>se_socket := sock\<rparr>) = se_running s"
  by (auto simp: ts_receiver_def se_running_def se_is_open_def)

context incremental_decoder
begin

lemma receive_running:
  assumes "se_running s" and "idle (se_decoder s)" and "ts_receiving (se_socket s)"
    and "se_on_socket_receive do_decode d (s\<lparr>se_socket := (se_socket s)\<lparr>ts_reads := [], ts_receiving := False\<rparr>\<rparr>) = (es, s')"
    and "no_error es"
  shows "se_running s' \<and> idle (se_decoder s')
    \<and> (\<exists>ms. feed_all do_decode [d] (se_decoder s) = (se_decoder s', map Decoder_Message ms) \<and> messages es = ms)"
proof -
  obtain r dec ds where f: "feed do_decode d (se_decoder s) = (r, dec, ds)" by (cases "feed do_decode d (se_decoder s)") auto
  have es: "es = map session_event_of ds" using assms(4) f by (simp add: se_defs Let_def)
  obtain ms where ms: "ds = map Decoder_Message ms" "messages es = ms"
    using no_error_decoded[of ds] assms(5) es by metis
  have dec: "idle dec" using feed_idle[OF assms(2) f] ms(1) by auto
  then have "\<not> dec_abort dec" by (simp add: idle_def)
  then have s': "s' = (let t = s\<lparr>se_socket := (se_socket s)\<lparr>ts_reads := [], ts_receiving := False\<rparr>, se_decoder := dec\<rparr>
      in if se_pause_receive s then t else se_read t)"
    using assms(1,4) f by (auto simp: se_on_socket_receive_def Let_def se_running_def)
  have "se_running s'"
    using assms(1) dec unfolding s' by (auto simp: Let_def se_running_def se_defs ts_defs idle_def)
  moreover have "se_decoder s' = dec" unfolding s' by (simp add: Let_def se_defs)
  ultimately show ?thesis using dec f ms by simp
qed

lemma session_step_running:
  assumes "session_step do_decode s a es s'" and "se_running s" and "idle (se_decoder s)" and "a \<noteq> S_Close" and "no_error es"
  shows "se_running s' \<and> idle (se_decoder s')
    \<and> (\<exists>ms. feed_all do_decode (chunks [a]) (se_decoder s) = (se_decoder s', map Decoder_Message ms) \<and> messages es = ms)"
  using assms(1)
proof (cases rule: session_step.cases)
  case (session_asio b socks sock)
  show ?thesis
    using session_asio(2)
  proof (cases rule: tcp_step.cases)
    case (read_done us exact n vs e d)
    have run: "ts_listening (se_socket s)" "length (ts_reads (se_socket s)) = (if ts_receiving (se_socket s) then 1 else 0)"
      using assms(2) by (simp_all add: se_running_def)
    then have r: "us = []" "vs = []" "ts_receiving (se_socket s)" using read_done by (auto split: if_splits)
    have e: "e = 0"
      using read_done assms(5) session_asio run by (auto simp: ts_on_receive_def ts_notify_def Let_def split: if_splits)
    then have "se_on_socket_receive do_decode d (s\<lparr>se_socket := (se_socket s)\<lparr>ts_reads := [], ts_receiving := False\<rparr>\<rparr>) = (es, s')"
      using read_done session_asio run r by (auto simp: ts_on_receive_def ts_notify_def Let_def)
    from receive_running[OF assms(2,3) r(3) this assms(5)]
    show ?thesis using read_done session_asio e by simp
  next
    case (write_done us w vs e n)
    have "ts_listening (se_socket s)" using assms(2) by (simp add: se_running_def)
    then have e: "e = 0"
      using write_done assms(5) session_asio by (auto simp: ts_on_send_def ts_notify_def split: if_splits)
    have "ts_receiver ((se_socket s)\<lparr>ts_writes := us @ vs\<rparr>) = ts_receiver (se_socket s)" by (simp add: ts_receiver_def)
    then have sock: "ts_receiver sock = ts_receiver (se_socket s)" "socks = [] \<or> socks = [Socket_Send n]"
      using ts_on_send_receiver[of n _ socks sock] write_done e by auto
    then have "s' = s\<lparr>se_socket := sock\<rparr>" "messages es = []" using session_asio by auto
    then show ?thesis using assms(2,3) se_running_cong[OF sock(1)] write_done session_asio by simp
  next
    case (connect_done n e)
    then show ?thesis using assms by (simp add: se_running_def)
  qed (use session_asio in auto)
next
  case (session_write d r)
  then obtain sock where sock: "ts_send_n d (se_socket s) = (r, sock)" "s' = s\<lparr>se_socket := sock\<rparr>"
    by (auto simp: se_write_def split: prod.splits)
  then show ?thesis
    using assms(2,3) se_running_cong[OF ts_send_receiver[OF sock(1)]] session_write by simp
qed (use assms in \<open>auto simp: se_running_def se_defs ts_defs idle_def\<close>)

lemma session_run_running:
  assumes "session_run do_decode s as es s'" and "se_running s" and "idle (se_decoder s)"
    and "S_Close \<notin> set as" and "no_error es"
  shows "se_running s' \<and> idle (se_decoder s')
    \<and> (\<exists>ms. feed_all do_decode (chunks as) (se_decoder s) = (se_decoder s', map Decoder_Message ms) \<and> messages es = ms)"
  using assms
proof (induction rule: session_run.induct)
  case (session_cons s a es s' as fs s'')
  then have "se_running s'" "idle (se_decoder s')"
    and 1: "feed_all do_decode (chunks [a]) (se_decoder s) = (se_decoder s', map Decoder_Message (messages es))"
    using session_step_running[OF session_cons(1)] by auto
  then have "se_running s''" "idle (se_decoder s'')"
    and 2: "feed_all do_decode (chunks as) (se_decoder s') = (se_decoder s'', map Decoder_Message (messages fs))"
    using session_cons by auto
  then show ?case
    using 1 feed_all_append[of do_decode "chunks [a]" "chunks as" "se_decoder s"] chunks_cons[of a as] by simp
qed simp

end

subsection \<open>A client session from the connect on\<close>

definition client_session :: "nat \<Rightarrow> tcp_session" where
  "client_session max_size = snd (tc_do_connect (se_init ts_new (decoder_init max_size)) :: unit session_event list \<times> tcp_session)"

definition opened_session :: "nat \<Rightarrow> tcp_session" where
  "opened_session max_size = se_init (ts_receive 2048 ts_accepted) (decoder_init max_size)"

lemmas client_defs = client_session_def opened_session_def ts_do_init_def tc_do_connect_def tc_close_def se_init_def ts_new_def
  ts_accepted_def decoder_init_def decoder_reset_def decoder_abort_def

lemma client_connected:
  "session_step do_decode (client_session n) (Asio (Connect_Done e)) es s' \<longleftrightarrow>
     (if e = 0 then es = [Session_Open] \<and> s' = opened_session n
      else es = [Session_Error e] \<and> s' = (client_session n)\<lparr>se_socket := (se_socket (client_session n))\<lparr>ts_connects := 0\<rparr>\<rparr>)"
  by (auto simp: session_step.simps tcp_step.simps client_defs se_defs ts_defs)

lemma opened_running: "se_running (opened_session n)"
  by (simp add: se_running_def client_defs se_defs ts_defs)

lemma opened_decoder: "se_decoder (opened_session n) = decoder_init n"
  by (simp add: opened_session_def se_init_def)

text \<open>
  C7. From the connect to the messages: whatever chunks the socket receives, and however writes, pauses
  and resumptions are interleaved with them, as long as no error is reported and the session
  is not closed the listener of a line session gets lines that each end at their first
  delimiter, their bytes with the ones still buffered are the bytes received, no complete line is held
  back, and a receive is outstanding unless the session is paused.
\<close>

theorem session_delivers_lines:
  assumes "delimiter \<noteq> []" and "S_Close \<notin> set as" and "no_error es"
    and "session_run (line_do_decode delimiter) (client_session max_size) (Asio (Connect_Done 0) # as) es s'"
  shows "list_all (is_line delimiter) (messages es)
    \<and> concat (messages es) @ dec_buffer (se_decoder s') = concat (chunks as)
    \<and> search delimiter (dec_buffer (se_decoder s')) = None
    \<and> (se_pause_receive s' \<or> length (ts_reads (se_socket s')) = 1)"
proof -
  note inc = incremental_line[OF assms(1)]
  obtain fs where run: "session_run (line_do_decode delimiter) (opened_session max_size) as fs s'" and es: "es = Session_Open # fs"
    using assms(4) by (cases rule: session_run.cases) (auto simp: client_connected)
  have idle: "incremental_decoder.idle (line_do_decode delimiter) (se_decoder (opened_session max_size))"
    unfolding opened_decoder by (rule incremental_decoder.idle_init[OF inc])
  have "no_error fs" using assms(3) es by simp
  from incremental_decoder.session_run_running[OF inc run opened_running idle assms(2) this]
  have fed: "feed_all (line_do_decode delimiter) (chunks as) (decoder_init max_size)
        = (se_decoder s', map Decoder_Message (messages fs))" and "se_running s'"
    by (auto simp: opened_decoder)
  have "dec_buffer (decoder_init max_size) = []" by (simp add: decoder_init_def)
  then obtain p where p: "decode_buffer (line_do_decode delimiter) False (concat (chunks as))
        = (int p, map Decoder_Message (messages fs))" "dec_buffer (se_decoder s') = drop p (concat (chunks as))"
    using incremental_decoder.feed_all_idle[OF inc incremental_decoder.idle_init[OF inc] fed] by auto
  then obtain ls where "map Decoder_Message (messages fs) = map Decoder_Message ls" "list_all (is_line delimiter) ls"
      "concat ls = take p (concat (chunks as))" "search delimiter (drop p (concat (chunks as))) = None"
    using decode_lines[OF assms(1)] by blast
  moreover from this have "ls = messages fs" by (simp add: inj_map_eq_map inj_def)
  ultimately show ?thesis using p es \<open>se_running s'\<close> by (auto simp: se_running_def)
qed

lemma session_run_example:
  "session_run (line_do_decode [13, 10]) (client_session 100)
     [Asio (Connect_Done 0), Asio (Read_Done 0 [65, 13]), S_Pause, Asio (Read_Done 0 [10, 66])]
     [Session_Open, Session_Receive [65, 13, 10]]
     ((opened_session 100)\<lparr>se_socket := ts_accepted, se_decoder := (decoder_init 100)\<lparr>dec_buffer := [66]\<rparr>, se_pause_receive := True\<rparr>)"
    (is "session_run ?f ?s _ _ ?s'")
proof -
  let ?s2 = "(opened_session 100)\<lparr>se_decoder := (decoder_init 100)\<lparr>dec_buffer := [65, 13]\<rparr>\<rparr>"
  note defs = client_defs se_defs ts_defs feed_def feed_buffered_def check_buffer_def decode_buffer.simps line_do_decode_def
  have 1: "session_step ?f ?s (Asio (Connect_Done 0)) [Session_Open] (opened_session 100)" by (simp add: client_connected)
  have 2: "session_step ?f (opened_session 100) (Asio (Read_Done 0 [65, 13])) [] ?s2"
    by (rule session_asio[OF read_done[of _ "[]" False 2048 "[]"]]) (simp_all add: defs, simp add: defs)
  have 4: "session_step ?f (se_pause ?s2) (Asio (Read_Done 0 [10, 66])) [Session_Receive [65, 13, 10]] ?s'"
    by (rule session_asio[OF read_done[of _ "[]" False 2048 "[]"]]) (simp_all add: defs, simp add: defs)
  show ?thesis
    using session_cons[OF 1 session_cons[OF 2 session_cons[OF session_pause session_cons[OF 4 session_nil]]]] by simp
qed

theorem session_delivers_lines_witness:
  "list_all (is_line [13, 10]) [[65, 13, 10]] \<and> concat [[65, 13, 10 :: u8]] @ [66] = concat [[65, 13], [10, 66]]"
  using session_delivers_lines[OF _ _ _ session_run_example] by simp

end
