(* ===== verification/Message_Socket.thy ===== *)
theory Message_Socket
  imports Xul_Prelude
begin

text \<open>
  \<^verbatim>\<open>include/xul/libs/asio/asio_message_socket.hpp\<close>: the message socket over a stream descriptor and the
  \<open>msghdr\<close> it prepares. The bodies of \<open>do_receive\<close> and \<open>do_send_n\<close> are compiled out, so nothing is ever
  handed to asio. A message buffer is its bytes; copying more bytes into it than it holds is a fault.
\<close>

subsection \<open>socket_message_data\<close>

text \<open>The header: what its pointers refer to, \<open>None\<close> for a null pointer.\<close>

record socket_message_data =
  smd_buffer :: bytes
  smd_address_buffer :: bytes
  smd_ancillary_data_buffer :: bytes
  smd_msg_iov :: "bytes option"
  smd_msg_name :: "bytes option"
  smd_msg_control :: "bytes option"

definition smd_new :: socket_message_data where
  "smd_new = \<lparr>smd_buffer = [], smd_address_buffer = [], smd_ancillary_data_buffer = [], smd_msg_iov = None,
     smd_msg_name = None, smd_msg_control = None\<rparr>"

text \<open>\<open>resize\<close> of a byte buffer: cut, or extended by bytes that are not initialised, here zeros.\<close>

definition buffer_resize :: "nat \<Rightarrow> bytes \<Rightarrow> bytes" where
  "buffer_resize n b = take n b @ replicate (n - length b) 0"

definition smd_init_buffer :: "nat \<Rightarrow> nat \<Rightarrow> nat \<Rightarrow> socket_message_data \<Rightarrow> socket_message_data" where
  "smd_init_buffer n ancillary_data_len addr_len s =
     (let buf = buffer_resize n (smd_buffer s);
          addr = buffer_resize ancillary_data_len (smd_address_buffer s);
          anc = buffer_resize addr_len (smd_ancillary_data_buffer s)
      in \<lparr>smd_buffer = buf, smd_address_buffer = addr, smd_ancillary_data_buffer = anc, smd_msg_iov = Some buf,
          smd_msg_name = (if addr = [] then None else Some addr),
          smd_msg_control = (if anc = [] then None else Some anc)\<rparr>)"

subsection \<open>asio_message_socket\<close>

datatype message_socket_event = Message_Receive_Failed int | Message_Send nat | Message_Send_Failed int

record message_socket =
  ms_open :: bool
  ms_connected :: bool
  ms_receiving :: bool
  ms_sending_queue :: "socket_message_data list"
  ms_max_sending_queue_size :: int
  ms_free_receive_buffers :: "socket_message_data list"
  ms_listening :: bool

definition ms_do_init :: "message_socket \<Rightarrow> message_socket" where
  "ms_do_init s = s\<lparr>ms_max_sending_queue_size := 16, ms_receiving := False\<rparr>"

definition ms_new :: message_socket where
  "ms_new = ms_do_init \<lparr>ms_open = True, ms_connected = True, ms_receiving = False, ms_sending_queue = [],
     ms_max_sending_queue_size = 0, ms_free_receive_buffers = [], ms_listening = True\<rparr>"

definition ms_set_max_sending_queue_size :: "int \<Rightarrow> message_socket \<Rightarrow> message_socket" where
  "ms_set_max_sending_queue_size n s = (if n = 0 then s else s\<lparr>ms_max_sending_queue_size := n\<rparr>)"

definition ms_close :: "message_socket \<Rightarrow> message_socket" where
  "ms_close s = (if ms_open s then s\<lparr>ms_open := False\<rparr> else s)\<lparr>ms_connected := False\<rparr>"

definition ms_destroy :: "message_socket \<Rightarrow> message_socket" where
  "ms_destroy s = ms_close (s\<lparr>ms_listening := False\<rparr>)"

definition ms_process_sending_queue :: "message_socket \<Rightarrow> message_socket" where
  "ms_process_sending_queue s =
     (if ms_sending_queue s = [] then s else if \<not> ms_open s then s\<lparr>ms_sending_queue := []\<rparr> else s)"

text \<open>\<open>memcpy\<close> into the data of a buffer.\<close>

definition copy_into :: "bytes \<Rightarrow> bytes \<Rightarrow> fault + bytes" where
  "copy_into buf d = (if length d \<le> length buf then Inr (d @ drop (length d) buf) else Inl Out_Of_Bounds)"

definition ms_send_n :: "bytes \<Rightarrow> message_socket \<Rightarrow> fault + bool \<times> message_socket" where
  "ms_send_n data s =
     (if int (length (ms_sending_queue s)) \<ge> size_of_int64 (ms_max_sending_queue_size s) then Inr (False, s)
      else sbind (copy_into (smd_buffer smd_new) data) (\<lambda>d.
        let s = s\<lparr>ms_sending_queue := ms_sending_queue s @ [smd_new\<lparr>smd_buffer := d\<rparr>]\<rparr>
        in Inr (True, if length (ms_sending_queue s) = 1 then ms_process_sending_queue s else s)))"

definition ms_create_receive_buffer :: "message_socket \<Rightarrow> socket_message_data \<times> message_socket" where
  "ms_create_receive_buffer s =
     (case ms_free_receive_buffers s of [] \<Rightarrow> (smd_new, s) | b # bs \<Rightarrow> (b, s\<lparr>ms_free_receive_buffers := bs\<rparr>))"

definition ms_do_receive_message :: "nat \<Rightarrow> nat \<Rightarrow> nat \<Rightarrow> message_socket \<Rightarrow> socket_message_data \<times> message_socket" where
  "ms_do_receive_message n ancillary_data_len addr_len s =
     (let (buf, s) = ms_create_receive_buffer s
      in (smd_init_buffer n ancillary_data_len addr_len buf, s\<lparr>ms_receiving := True\<rparr>))"

definition ms_on_receive ::
    "int \<Rightarrow> socket_message_data \<Rightarrow> message_socket \<Rightarrow> message_socket_event list \<times> message_socket" where
  "ms_on_receive errcode buf s =
     (if errcode \<noteq> 0 \<and> ms_listening s then [Message_Receive_Failed errcode] else [],
      s\<lparr>ms_receiving := False, ms_connected := (errcode = 0),
        ms_free_receive_buffers := ms_free_receive_buffers s @ [buf]\<rparr>)"

definition ms_on_send :: "int \<Rightarrow> nat \<Rightarrow> message_socket \<Rightarrow> message_socket_event list \<times> message_socket" where
  "ms_on_send errcode bytes s =
     (let s = s\<lparr>ms_connected := (errcode = 0)\<rparr> in
      if errcode \<noteq> 0 then
        (if ms_listening s then [Message_Send_Failed errcode] else [], s\<lparr>ms_sending_queue := []\<rparr>)
      else if ms_sending_queue s = [] then ([], s)
      else (if ms_listening s then [Message_Send bytes] else [],
            ms_process_sending_queue (s\<lparr>ms_sending_queue := tl (ms_sending_queue s)\<rparr>)))"

subsection \<open>What goes wrong\<close>

text \<open>
  The message socket cannot send: whatever the state, a message of at least one byte is either refused because the
  queue is full or copied over the end of a buffer of size zero. And the header it prepares for
  receiving has the address length and the length of the ancillary data exchanged.
\<close>

theorem message_socket_defects:
  assumes "d \<noteq> []"
  shows "(ms_send_n d s = Inr (False, s) \<or> ms_send_n d s = Inl Out_Of_Bounds)
    \<and> map_option length (smd_msg_name (smd_init_buffer n ancillary_data_len addr_len m))
      = (if ancillary_data_len = 0 then None else Some ancillary_data_len)
    \<and> map_option length (smd_msg_control (smd_init_buffer n ancillary_data_len addr_len m))
      = (if addr_len = 0 then None else Some addr_len)"
proof -
  have len: "length (buffer_resize k b) = k" for k b by (simp add: buffer_resize_def)
  then have "buffer_resize k b = [] \<longleftrightarrow> k = 0" for k b by (metis length_0_conv)
  then show ?thesis using assms len by (simp add: ms_send_n_def copy_into_def smd_new_def smd_init_buffer_def Let_def)
qed

theorem message_socket_defects_witness:
  "ms_send_n [1] ms_new = Inl Out_Of_Bounds"
  using message_socket_defects[of "[1]" ms_new 1 1 1 smd_new]
  by (auto simp: ms_send_n_def ms_new_def ms_do_init_def size_of_int64_def smd_new_def copy_into_def)

end
