(* ===== verification/Timers.thy ===== *)
theory Timers
  imports Xul_Prelude "HOL-Library.Signed_Division"
begin

text \<open>
  Time: the tick counters and time spans of \<^verbatim>\<open>include/xul/util/time_counter.hpp\<close>, the wrapping tick
  times of \<^verbatim>\<open>include/xul/libs/asio/tick_count_deadline_timer.hpp\<close>, and the once and periodic
  timers of \<^verbatim>\<open>include/xul/libs/asio/asio_timer.hpp\<close> on asio's deadline timer. The value of the
  system's clock is an argument of every operation that reads it.
\<close>

subsection \<open>Tick counters\<close>

text \<open>\<open>GetTickCount\<close>: the time since the start of the system in a 32 bit word.\<close>

definition tick32 :: "nat \<Rightarrow> u32" where
  "tick32 t = of_nat t"

record tick_counter64 =
  tc_count64 :: int
  tc_count32 :: u32

definition tc_init :: "u32 \<Rightarrow> tick_counter64" where
  "tc_init now = \<lparr>tc_count64 = uint now, tc_count32 = now\<rparr>"

definition tc_get_count :: "u32 \<Rightarrow> tick_counter64 \<Rightarrow> int \<times> tick_counter64" where
  "tc_get_count now s =
     (let diff = now - tc_count32 s; s = s\<lparr>tc_count32 := now, tc_count64 := tc_count64 s + uint diff\<rparr>
      in (tc_count64 s, s))"

fun tc_polls :: "nat list \<Rightarrow> tick_counter64 \<Rightarrow> int list \<times> tick_counter64" where
  "tc_polls [] s = ([], s)"
| "tc_polls (t # ts) s = (let (c, s) = tc_get_count (tick32 t) s; (cs, s) = tc_polls ts s in (c # cs, s))"

text \<open>\<open>coarse_time_counter\<close> and the 32 bit \<open>simple_time_counter\<close>: the time since the last \<open>sync\<close>.\<close>

record coarse_counter =
  cc_count :: int
  cc_tick :: tick_counter64

definition cc_init :: "u32 \<Rightarrow> coarse_counter" where
  "cc_init now = \<lparr>cc_count = uint now, cc_tick = tc_init now\<rparr>"

definition cc_sync :: "u32 \<Rightarrow> coarse_counter \<Rightarrow> coarse_counter" where
  "cc_sync now s = (let (c, t) = tc_get_count now (cc_tick s) in s\<lparr>cc_count := c, cc_tick := t\<rparr>)"

definition cc_elapsed :: "u32 \<Rightarrow> coarse_counter \<Rightarrow> int \<times> coarse_counter" where
  "cc_elapsed now s = (let (c, t) = tc_get_count now (cc_tick s) in (c - cc_count s, s\<lparr>cc_tick := t\<rparr>))"

definition elapsed32 :: "u32 \<Rightarrow> u32 \<Rightarrow> u32" where
  "elapsed32 now count = now - count"

lemma uint_tick_diff:
  assumes "t \<le> t'" and "t' - t < 2 ^ 32"
  shows "uint (tick32 t' - tick32 t) = int (t' - t)"
proof -
  have "tick32 t' - tick32 t = (of_nat (t' - t) :: u32)" using assms(1) by (simp add: tick32_def of_nat_diff)
  then show ?thesis using assms(2) by (simp add: uint_nat unat_of_nat)
qed

fun close_polls :: "nat \<Rightarrow> nat list \<Rightarrow> bool" where
  "close_polls t [] = True"
| "close_polls t (t' # ts) \<longleftrightarrow> t \<le> t' \<and> t' - t < 2 ^ 32 \<and> close_polls t' ts"

lemma tc_polls_exact:
  assumes "close_polls t ts" and "tc_count32 s = tick32 t"
  shows "fst (tc_polls ts s) = map (\<lambda>t'. tc_count64 s + int (t' - t)) ts"
  using assms
proof (induction ts arbitrary: t s)
  case (Cons t' ts)
  let ?s = "s\<lparr>tc_count32 := tick32 t', tc_count64 := tc_count64 s + uint (tick32 t' - tick32 t)\<rparr>"
  have d: "uint (tick32 t' - tick32 t) = int (t' - t)" using Cons.prems uint_tick_diff by simp
  have le: "list_all (\<lambda>u. t' \<le> u) ts" using Cons.prems(1)
  proof -
    have "close_polls t' ts \<Longrightarrow> list_all (\<lambda>u. t' \<le> u) ts" for t'
      by (induction ts arbitrary: t') (auto simp: list_all_iff intro: order.trans)
    then show ?thesis using Cons.prems(1) by simp
  qed
  have "fst (tc_polls ts ?s) = map (\<lambda>u. tc_count64 ?s + int (u - t')) ts"
    using Cons.IH[of t' ?s] Cons.prems by simp
  also have "\<dots> = map (\<lambda>u. tc_count64 s + int (u - t)) ts"
    using le Cons.prems(1) d by (auto simp: list_all_iff of_nat_diff)
  finally show ?case using Cons.prems d by (simp add: tc_get_count_def Let_def case_prod_beta)
qed simp

subsection \<open>Wrapping tick times\<close>

definition tick_add :: "u32 \<Rightarrow> u32 \<Rightarrow> u32" where
  "tick_add t d = t + d"

definition tick_subtract :: "u32 \<Rightarrow> u32 \<Rightarrow> u32" where
  "tick_subtract t1 t2 = t1 - t2"

definition tick_less_than :: "u32 \<Rightarrow> u32 \<Rightarrow> bool" where
  "tick_less_than t1 t2 \<longleftrightarrow> t2 - t1 < push_bit 31 1"

lemma half_range: "(push_bit 31 1 :: u32) = 2 ^ 31"
  by simp

lemma minus_mod_small: "0 < x \<Longrightarrow> x < m \<Longrightarrow> (- x) mod m = m - (x :: int)"
  by (simp add: zmod_zminus1_eq_if)

lemma tick_less_than_iff:
  assumes "\<bar>int t2 - int t1\<bar> < 2 ^ 31"
  shows "tick_less_than (tick32 t1) (tick32 t2) \<longleftrightarrow> t1 \<le> t2"
proof (cases "t1 \<le> t2")
  case True
  have "uint (tick32 t2 - tick32 t1) = int (t2 - t1)" using uint_tick_diff[OF True] assms True by simp
  moreover have "int (t2 - t1) < 2 ^ 31" using assms True by (simp add: of_nat_diff)
  ultimately have "tick32 t2 - tick32 t1 < 2 ^ 31" by (simp add: word_less_def)
  then show ?thesis using True by (simp add: tick_less_than_def half_range)
next
  case False
  have d: "uint (tick32 t1 - tick32 t2) = int (t1 - t2)" using uint_tick_diff[of t2 t1] assms False by simp
  have "tick32 t2 - tick32 t1 = - (tick32 t1 - tick32 t2)" by simp
  then have "uint (tick32 t2 - tick32 t1) = (- int (t1 - t2)) mod 2 ^ 32"
    using d by (simp only: uint_word_ariths(4)) simp
  also have "\<dots> = 2 ^ 32 - int (t1 - t2)"
    by (rule minus_mod_small) (use assms False in \<open>simp_all add: of_nat_diff\<close>)
  finally have "\<not> tick32 t2 - tick32 t1 < 2 ^ 31" using assms False by (simp add: word_less_def of_nat_diff)
  then show ?thesis using False by (simp add: tick_less_than_def half_range)
qed

subsection \<open>time_span\<close>

definition span_total_days :: "int \<Rightarrow> int" where
  "span_total_days diff = diff sdiv (1000 * 60 * 60 * 24)"

definition span_total_hours :: "int \<Rightarrow> int" where
  "span_total_hours diff = diff sdiv (1000 * 60 * 60)"

definition span_total_minutes :: "int \<Rightarrow> int" where
  "span_total_minutes diff = diff sdiv (1000 * 60)"

definition span_total_seconds :: "int \<Rightarrow> int" where
  "span_total_seconds diff = diff sdiv 1000"

definition span_days :: "int \<Rightarrow> u32" where
  "span_days diff = word_of_int (span_total_days diff)"

definition span_hours :: "int \<Rightarrow> u32" where
  "span_hours diff = word_of_int (diff smod (1000 * 60 * 60 * 24)) div (1000 * 60 * 60)"

definition span_minutes :: "int \<Rightarrow> u32" where
  "span_minutes diff = word_of_int (diff smod (1000 * 60 * 60)) div (1000 * 60)"

definition span_seconds :: "int \<Rightarrow> u32" where
  "span_seconds diff = word_of_int (diff smod (1000 * 60)) div 1000"

definition span_milliseconds :: "int \<Rightarrow> u32" where
  "span_milliseconds diff = word_of_int (diff smod 1000)"

lemma span_parts:
  assumes "0 \<le> diff" and "diff < 2 ^ 32 * 86400000"
  shows "uint (span_days diff) = diff div 86400000" "uint (span_hours diff) = diff mod 86400000 div 3600000"
    and "uint (span_minutes diff) = diff mod 3600000 div 60000" "uint (span_seconds diff) = diff mod 60000 div 1000"
    and "uint (span_milliseconds diff) = diff mod 1000"
proof -
  have m: "diff smod k = diff mod k" "diff sdiv k = diff div k" if "0 < k" for k
    using assms(1) that by (auto simp: signed_modulo_int_def signed_divide_int_def sgn_if)
  have small: "uint (word_of_int x :: u32) = x" if "0 \<le> x" "x < 2 ^ 32" for x
    using that by (simp add: uint_word_of_int)
  have "diff div 86400000 < 2 ^ 32" using assms by linarith
  then show "uint (span_days diff) = diff div 86400000"
    using assms small[of "diff div 86400000"] by (simp add: span_days_def span_total_days_def m pos_imp_zdiv_nonneg_iff)
  have r: "uint (word_of_int (diff mod k) :: u32) = diff mod k" if "0 < k" "k \<le> 2 ^ 32" for k
    by (rule small) (use that in \<open>auto intro: less_le_trans[OF pos_mod_bound]\<close>)
  show "uint (span_hours diff) = diff mod 86400000 div 3600000" "uint (span_minutes diff) = diff mod 3600000 div 60000"
      "uint (span_seconds diff) = diff mod 60000 div 1000" "uint (span_milliseconds diff) = diff mod 1000"
    by (simp_all add: span_hours_def span_minutes_def span_seconds_def span_milliseconds_def m r uint_div)
qed

text \<open>
  Clock arithmetic: a 64 bit count built from the wrapping 32 bit clock is exact when it is polled at
  least once in each period of it; two tick times less than half a period apart compare like the times they stand
  for, except that \<open>less_than\<close> holds between equal times too; and the fields of a time span are the
  digits of its milliseconds.
\<close>

theorem clock_arithmetic:
  assumes "close_polls t ts" and "\<bar>int t2 - int t1\<bar> < 2 ^ 31" and "0 \<le> diff" and "diff < 2 ^ 32 * 86400000"
  shows "fst (tc_polls ts (tc_init (tick32 t))) = map (\<lambda>t'. int (t mod 2 ^ 32) + int (t' - t)) ts
    \<and> (tick_less_than (tick32 t1) (tick32 t2) \<longleftrightarrow> t1 \<le> t2)
    \<and> uint (span_days diff) * 86400000 + uint (span_hours diff) * 3600000 + uint (span_minutes diff) * 60000
        + uint (span_seconds diff) * 1000 + uint (span_milliseconds diff) = diff
    \<and> uint (span_hours diff) < 24 \<and> uint (span_minutes diff) < 60 \<and> uint (span_seconds diff) < 60
    \<and> uint (span_milliseconds diff) < 1000"
proof (intro conjI)
  have "uint (tick32 t) = int (t mod 2 ^ 32)" by (simp add: tick32_def uint_nat unat_of_nat)
  then show "fst (tc_polls ts (tc_init (tick32 t))) = map (\<lambda>t'. int (t mod 2 ^ 32) + int (t' - t)) ts"
    using tc_polls_exact[OF assms(1), of "tc_init (tick32 t)"] by (simp add: tc_init_def)
  show "tick_less_than (tick32 t1) (tick32 t2) \<longleftrightarrow> t1 \<le> t2" by (rule tick_less_than_iff[OF assms(2)])
  have cut: "diff mod (k * l) = diff mod (k * l) div k * k + diff mod k" for k l
    using div_mult_mod_eq[of "diff mod (k * l)" k] by (simp add: mod_mod_cancel)
  show "uint (span_days diff) * 86400000 + uint (span_hours diff) * 3600000 + uint (span_minutes diff) * 60000
        + uint (span_seconds diff) * 1000 + uint (span_milliseconds diff) = diff"
    unfolding span_parts[OF assms(3,4)]
    using cut[of 3600000 24, simplified] cut[of 60000 60, simplified] cut[of 1000 60, simplified]
      div_mult_mod_eq[of diff 86400000] by linarith
  have bound: "x < 86400000 \<Longrightarrow> x div 3600000 < 24" "x < 3600000 \<Longrightarrow> x div 60000 < 60" "x < 60000 \<Longrightarrow> x div 1000 < 60"
    for x :: int by presburger+
  show "uint (span_hours diff) < 24" "uint (span_minutes diff) < 60" "uint (span_seconds diff) < 60"
    unfolding span_parts[OF assms(3,4)] by (simp_all add: bound)
qed (simp add: span_parts[OF assms(3,4)])

theorem clock_arithmetic_witness:
  "fst (tc_polls [4294967290, 4294967300] (tc_init (tick32 5))) = [4294967290, 4294967300]
    \<and> tick_less_than (tick32 4294967290) (tick32 4294967300) \<and> uint (span_hours 90061001) = 1"
  using clock_arithmetic[of 5 "[4294967290, 4294967300]" 4294967300 4294967290 90061001] span_parts(2)[of 90061001] by simp

subsection \<open>asio_timer\<close>

text \<open>
  The waits of the deadline timer are in one of three states: pending, expired with the handler queued as a
  success, or cancelled with the handler queued as aborted. Setting a new expiry and \<open>cancel\<close> abort
  the pending waits; handlers already queued can no longer be cancelled.
\<close>

record asio_timer =
  ti_periodic :: bool
  ti_started :: bool
  ti_interval :: int
  ti_times :: int
  ti_firetime :: int
  ti_expiry :: int
  ti_pending :: nat
  ti_expired :: nat
  ti_cancelled :: nat

definition ti_new :: "bool \<Rightarrow> asio_timer" where
  "ti_new periodic = \<lparr>ti_periodic = periodic, ti_started = False, ti_interval = 0, ti_times = 0, ti_firetime = 0,
     ti_expiry = 0, ti_pending = 0, ti_expired = 0, ti_cancelled = 0\<rparr>"

definition ti_cancel_timer :: "asio_timer \<Rightarrow> asio_timer" where
  "ti_cancel_timer s = s\<lparr>ti_pending := 0, ti_cancelled := ti_cancelled s + ti_pending s\<rparr>"

definition ti_start_wait :: "asio_timer \<Rightarrow> asio_timer" where
  "ti_start_wait s = s\<lparr>ti_pending := ti_pending s + 1\<rparr>"

definition ti_start_at :: "int \<Rightarrow> asio_timer \<Rightarrow> asio_timer" where
  "ti_start_at expire_time s = ti_start_wait ((ti_cancel_timer s)\<lparr>ti_expiry := expire_time\<rparr>)"

definition ti_start_from_now :: "int \<Rightarrow> int \<Rightarrow> asio_timer \<Rightarrow> asio_timer" where
  "ti_start_from_now now interval s = ti_start_at (now + interval) s"

definition ti_do_start_once :: "asio_timer \<Rightarrow> asio_timer" where
  "ti_do_start_once s =
     (let s = s\<lparr>ti_firetime := ti_firetime s + ti_interval s\<rparr> in ti_start_at (ti_firetime s) s)"

text \<open>\<open>do_start\<close>; the periodic timer raises its argument to zero, but reads the member.\<close>

definition ti_do_start :: "int \<Rightarrow> int \<Rightarrow> asio_timer \<Rightarrow> asio_timer" where
  "ti_do_start now interval s =
     (if ti_periodic s then ti_do_start_once (s\<lparr>ti_firetime := now, ti_times := 0\<rparr>)
      else ti_start_from_now now interval s)"

definition ti_stop :: "asio_timer \<Rightarrow> asio_timer" where
  "ti_stop s = ti_cancel_timer (s\<lparr>ti_started := False\<rparr>)"

definition ti_start :: "int \<Rightarrow> int \<Rightarrow> asio_timer \<Rightarrow> asio_timer" where
  "ti_start now interval s = (ti_do_start now interval ((ti_stop s)\<lparr>ti_interval := interval\<rparr>))\<lparr>ti_started := True\<rparr>"

definition ti_get_elapsed_time :: "asio_timer \<Rightarrow> int" where
  "ti_get_elapsed_time s = (if ti_periodic s then ti_times s * ti_interval s else 0)"

text \<open>\<open>on_timer\<close>: whether the listener is notified.\<close>

definition ti_on_timer :: "asio_timer \<Rightarrow> bool \<times> asio_timer" where
  "ti_on_timer s =
     (if ti_periodic s then
        (if \<not> ti_started s then (False, s) else (True, ti_do_start_once (s\<lparr>ti_times := ti_times s + 1\<rparr>)))
      else (True, s))"

definition ti_on_timer_impl_callback :: "int \<Rightarrow> asio_timer \<Rightarrow> bool \<times> asio_timer" where
  "ti_on_timer_impl_callback err s = (if err \<noteq> 0 then (False, s) else ti_on_timer s)"

text \<open>The steps of asio: the clock reaches the expiry, and the queued handlers run in any order.\<close>

datatype timer_action = Expire int | Fire bool | Abort

inductive timer_step :: "asio_timer \<Rightarrow> timer_action \<Rightarrow> asio_timer \<Rightarrow> bool" where
  expire: "0 < ti_pending s \<Longrightarrow> ti_expiry s \<le> now \<Longrightarrow>
    timer_step s (Expire now) (s\<lparr>ti_pending := 0, ti_expired := ti_expired s + ti_pending s\<rparr>)"
| fire: "ti_expired s = Suc n \<Longrightarrow> ti_on_timer_impl_callback 0 (s\<lparr>ti_expired := n\<rparr>) = (notified, s') \<Longrightarrow>
    timer_step s (Fire notified) s'"
| abort: "ti_cancelled s = Suc n \<Longrightarrow> err \<noteq> 0 \<Longrightarrow>
    ti_on_timer_impl_callback err (s\<lparr>ti_cancelled := n\<rparr>) = (notified, s') \<Longrightarrow> timer_step s Abort s'"

inductive timer_run :: "asio_timer \<Rightarrow> timer_action list \<Rightarrow> asio_timer \<Rightarrow> bool" where
  timer_nil: "timer_run s [] s"
| timer_snoc: "timer_run s as s' \<Longrightarrow> timer_step s' a s'' \<Longrightarrow> timer_run s (as @ [a]) s''"

lemmas ti_defs = ti_cancel_timer_def ti_start_wait_def ti_start_at_def ti_start_from_now_def ti_do_start_once_def
  ti_do_start_def ti_stop_def ti_start_def ti_on_timer_def ti_on_timer_impl_callback_def Let_def

fun ticks :: "timer_action list \<Rightarrow> nat" where
  "ticks [] = 0"
| "ticks (Fire n # as) = (if n then 1 else 0) + ticks as"
| "ticks (_ # as) = ticks as"

fun expiries :: "timer_action list \<Rightarrow> int list" where
  "expiries [] = []"
| "expiries (Expire now # as) = now # expiries as"
| "expiries (_ # as) = expiries as"

lemma ticks_append [simp]: "ticks (as @ bs) = ticks as + ticks bs"
  by (induction as rule: ticks.induct) auto

lemma expiries_append [simp]: "expiries (as @ bs) = expiries as @ expiries bs"
  by (induction as rule: expiries.induct) auto

text \<open>A running periodic timer, started at \<open>t\<close>, after \<open>k\<close> notifications.\<close>

definition ti_ticking :: "int \<Rightarrow> int \<Rightarrow> nat \<Rightarrow> asio_timer \<Rightarrow> bool" where
  "ti_ticking t interval k s \<longleftrightarrow> ti_periodic s \<and> ti_started s \<and> ti_interval s = interval \<and> ti_times s = int k
     \<and> ti_firetime s = t + (int k + 1) * interval \<and> ti_expiry s = ti_firetime s \<and> ti_pending s + ti_expired s = 1"

lemma timer_start_ticking: "ti_ticking t interval 0 (ti_start t interval (ti_new True))"
  by (simp add: ti_ticking_def ti_defs ti_new_def)

lemma timer_step_ticking:
  assumes "timer_step s a s'" and "ti_ticking t interval k s"
  shows "ti_ticking t interval (k + ticks [a]) s'"
  using assms by (cases rule: timer_step.cases) (auto simp: ti_ticking_def ti_defs distrib_right)

definition on_schedule :: "int \<Rightarrow> int \<Rightarrow> int list \<Rightarrow> bool" where
  "on_schedule t interval ts \<longleftrightarrow> (\<forall>i < length ts. t + (int i + 1) * interval \<le> ts ! i)"

lemma timer_run_ticking:
  "timer_run s as s' \<Longrightarrow> s = ti_start t interval (ti_new True) \<Longrightarrow>
   ti_ticking t interval (ticks as) s' \<and> length (expiries as) = ticks as + ti_expired s' \<and> on_schedule t interval (expiries as)"
proof (induction rule: timer_run.induct)
  case (timer_nil s)
  then show ?case using timer_start_ticking by (simp add: on_schedule_def ti_defs ti_new_def)
next
  case (timer_snoc s as s' a s'')
  then have tick: "ti_ticking t interval (ticks as) s'" "length (expiries as) = ticks as + ti_expired s'"
      "on_schedule t interval (expiries as)" by auto
  then have one: "ti_expired s' = 0" if "0 < ti_pending s'" using that by (simp add: ti_ticking_def)
  have "length (expiries (as @ [a])) = ticks (as @ [a]) + ti_expired s'' \<and> on_schedule t interval (expiries (as @ [a]))"
    using timer_snoc(2) tick
    by (cases rule: timer_step.cases) (auto simp: ti_ticking_def ti_defs on_schedule_def nth_append less_Suc_eq one split: if_splits)
  then show ?case using timer_step_ticking[OF timer_snoc(2) tick(1)] by simp
qed

lemma timer_step_stopped:
  "timer_step s a s' \<Longrightarrow> ti_periodic s \<and> \<not> ti_started s \<Longrightarrow> ti_periodic s' \<and> \<not> ti_started s' \<and> ticks [a] = 0"
  by (cases rule: timer_step.cases) (auto simp: ti_defs)

lemma timer_run_stopped:
  "timer_run s as s' \<Longrightarrow> ti_periodic s \<and> \<not> ti_started s \<Longrightarrow> ti_periodic s' \<and> \<not> ti_started s' \<and> ticks as = 0"
  by (induction rule: timer_run.induct) (auto dest: timer_step_stopped)

lemma timer_next_tick:
  assumes "ti_ticking t interval k s"
  shows "\<exists>s' s''. timer_run s (if ti_expired s = 0 then [Expire (ti_firetime s)] else []) s' \<and> timer_step s' (Fire True) s''"
proof (cases "ti_expired s = 0")
  case True
  let ?s = "s\<lparr>ti_pending := 0, ti_expired := ti_expired s + ti_pending s\<rparr>"
  have "timer_step s (Expire (ti_firetime s)) ?s" by (rule expire) (use assms True in \<open>simp_all add: ti_ticking_def\<close>)
  moreover have "\<exists>s''. timer_step ?s (Fire True) s''"
    using fire[of ?s 0 True] assms True by (auto simp: ti_ticking_def ti_defs)
  ultimately show ?thesis using True timer_snoc[OF timer_nil] by fastforce
next
  case False
  then have "\<exists>s''. timer_step s (Fire True) s''"
    using fire[of s 0 True] assms by (auto simp: ti_ticking_def ti_defs)
  then show ?thesis using False timer_nil by auto
qed

text \<open>
  C30. A periodic timer does not drift: started at \<open>t\<close>, whatever the delays of its handlers, its next
  expiry after \<open>k\<close> notifications is \<open>t + (k + 1) * interval\<close>, the clock had reached
  \<open>t + i * interval\<close> when the \<open>i\<close>-th wait expired, one wait is live, so that another notification is
  always possible, and the elapsed time it reports is \<open>k * interval\<close>. After \<open>stop\<close> no handler
  notifies, not even one that was queued before.
\<close>

theorem periodic_timer_schedule:
  assumes "timer_run (ti_start t interval (ti_new True)) as s"
  shows "ti_firetime s = t + (int (ticks as) + 1) * interval \<and> on_schedule t interval (expiries as)
    \<and> ticks as \<le> length (expiries as) \<and> ti_get_elapsed_time s = int (ticks as) * interval
    \<and> (\<exists>s' s''. timer_run s (if ti_expired s = 0 then [Expire (ti_firetime s)] else []) s' \<and> timer_step s' (Fire True) s'')
    \<and> (\<forall>bs s'. timer_run (ti_stop s) bs s' \<longrightarrow> ticks bs = 0)"
proof -
  have tick: "ti_ticking t interval (ticks as) s" "length (expiries as) = ticks as + ti_expired s" "on_schedule t interval (expiries as)"
    using timer_run_ticking[OF assms] by auto
  have "ti_periodic (ti_stop s) \<and> \<not> ti_started (ti_stop s)" using tick(1) by (simp add: ti_ticking_def ti_defs)
  then have "\<forall>bs s'. timer_run (ti_stop s) bs s' \<longrightarrow> ticks bs = 0" using timer_run_stopped by blast
  then show ?thesis using tick timer_next_tick[OF tick(1)] by (auto simp: ti_ticking_def ti_get_elapsed_time_def)
qed

theorem periodic_timer_schedule_witness:
  "ti_firetime (ti_start 1000 250 (ti_new True)) = 1250"
  using periodic_timer_schedule[OF timer_nil, of 1000 250] by simp

text \<open>A once timer that was stopped still notifies when its handler was queued before.\<close>

lemma once_timer_notifies_after_stop:
  "\<exists>s s'. timer_run (ti_start t interval (ti_new False)) [Expire (t + interval)] s \<and> timer_run (ti_stop s) [Fire True] s'"
proof -
  let ?start = "ti_start t interval (ti_new False)"
  let ?s = "?start\<lparr>ti_pending := 0, ti_expired := ti_expired ?start + ti_pending ?start\<rparr>"
  have "timer_step ?start (Expire (t + interval)) ?s" by (rule expire) (simp_all add: ti_defs ti_new_def)
  moreover have "timer_step (ti_stop ?s) (Fire True) ((ti_stop ?s)\<lparr>ti_expired := 0\<rparr>)"
    by (rule fire) (simp_all add: ti_defs ti_new_def)
  ultimately show ?thesis using timer_snoc[OF timer_nil] by fastforce
qed

end
