(* ===== verification/Http_Message.thy ===== *)
theory Http_Message
  imports String_Table Numerics
begin

text \<open>
  HTTP messages: the headers and protocol of \<^verbatim>\<open>include/xul/net/http/http_message.hpp\<close>, the response of
  \<^verbatim>\<open>include/xul/net/http/http_response.hpp\<close> with the status texts of
  \<^verbatim>\<open>http_status_code.hpp\<close>, and the line parser of \<^verbatim>\<open>http_message_parser.hpp\<close> with the status line of
  \<^verbatim>\<open>http_response_parser.hpp\<close>. The two functions the parser takes from boost, \<open>trim_copy\<close> and
  \<open>split\<close> at a slash, are parameters; what the source needs of them is the locale \<open>boost_text\<close>.
  A pointer into a buffer is the list of characters readable behind it.
\<close>

subsection \<open>http_message\<close>

record http_message =
  hm_headers :: string_items
  hm_protocol_name :: string
  hm_protocol_version :: string

definition crlf :: string where
  "crlf = [CHR 0x0D, CHR 0x0A]"

fun write_header_lines :: "string_items \<Rightarrow> string" where
  "write_header_lines [] = []"
| "write_header_lines (e # es) = fst e @ '': '' @ snd e @ crlf @ write_header_lines es"

definition write_headers :: "http_message \<Rightarrow> string" where
  "write_headers m = write_header_lines (hm_headers m) @ crlf"

definition hm_clear :: "http_message \<Rightarrow> http_message" where
  "hm_clear m = \<lparr>hm_headers = [], hm_protocol_name = ''HTTP'', hm_protocol_version = ''1.0''\<rparr>"

text \<open>\<open>get_header\<close> passes the empty string on in place of its default.\<close>

definition hm_get_header :: "string \<Rightarrow> string \<Rightarrow> http_message \<Rightarrow> string" where
  "hm_get_header name default_val m = sa_get string_iequal_to name [] (hm_headers m)"

definition hm_set_header :: "string \<Rightarrow> string \<Rightarrow> http_message \<Rightarrow> http_message" where
  "hm_set_header name val m = m\<lparr>hm_headers := sa_set string_iequal_to name val (hm_headers m)\<rparr>"

subsection \<open>http_response\<close>

definition status_code_table :: "(int \<times> string) list" where
  "status_code_table =
    [(200, ''OK''), (201, ''Created''), (202, ''Accepted''), (204, ''No Content''), (206, ''Partial Content''),
     (300, ''Multiple Choices''), (301, ''Moved Permanently''), (302, ''Found''), (304, ''Not Modified''),
     (307, ''Temporary Redirect''), (400, ''Bad Request''), (401, ''Unauthorized''), (403, ''Forbidden''),
     (404, ''Not Found''), (500, ''Internal Server Error''), (501, ''Not Implemented''), (502, ''Bad Gateway''),
     (503, ''Service Unavailable''), (416, ''Requested Range Not Satisfiable'')]"

definition get_description :: "int \<Rightarrow> string" where
  "get_description code = (case map_of status_code_table code of None \<Rightarrow> [] | Some s \<Rightarrow> s)"

record http_response =
  rs_message :: http_message
  rs_status_code :: int
  rs_status_description :: string

definition rs_set_status_code :: "int \<Rightarrow> http_response \<Rightarrow> http_response" where
  "rs_set_status_code code r =
     (let r = r\<lparr>rs_status_code := code\<rparr>; desc = get_description code
      in if desc \<noteq> [] then r\<lparr>rs_status_description := desc\<rparr> else r)"

definition rs_set_status_description :: "string option \<Rightarrow> http_response \<Rightarrow> http_response" where
  "rs_set_status_description val r = r\<lparr>rs_status_description := (case val of None \<Rightarrow> [] | Some s \<Rightarrow> s)\<rparr>"

text \<open>\<open>clear\<close> keeps the description.\<close>

definition rs_clear :: "http_response \<Rightarrow> http_response" where
  "rs_clear r = r\<lparr>rs_message := hm_clear (rs_message r), rs_status_code := 0\<rparr>"

definition rs_new :: http_response where
  "rs_new = rs_clear \<lparr>rs_message = \<lparr>hm_headers = [], hm_protocol_name = [], hm_protocol_version = []\<rparr>,
     rs_status_code = 0, rs_status_description = []\<rparr>"

definition rs_print :: "http_response \<Rightarrow> string" where
  "rs_print r = hm_protocol_name (rs_message r) @ ''/'' @ hm_protocol_version (rs_message r) @ '' '' @
     numerics_format (rs_status_code r) @ '' '' @ rs_status_description r @ crlf @ write_headers (rs_message r)"

definition rs_set_header :: "string \<Rightarrow> string \<Rightarrow> http_response \<Rightarrow> http_response" where
  "rs_set_header name val r = r\<lparr>rs_message := hm_set_header name val (rs_message r)\<rparr>"

subsection \<open>http_message_parser\<close>

definition find_header_end :: "string \<Rightarrow> nat option" where
  "find_header_end data = search (crlf @ crlf) data"

text \<open>
  \<open>find_line_end\<close> reads up to \<open>n\<close> characters of the memory at its pointer: reading behind the
  memory is a fault.
\<close>

definition find_line_end :: "string \<Rightarrow> nat \<Rightarrow> fault + nat option" where
  "find_line_end mem n =
     (case search crlf (take n mem) of
        Some pos \<Rightarrow> Inr (Some pos)
      | None \<Rightarrow> if n \<le> length mem then Inr None else Inl Out_Of_Bounds)"

definition parse_header :: "(string \<Rightarrow> string) \<Rightarrow> (string \<Rightarrow> string \<Rightarrow> 'm \<Rightarrow> 'm) \<Rightarrow> string \<Rightarrow> 'm \<Rightarrow> int \<times> 'm" where
  "parse_header trim_copy set_header line m =
     (if line = [] then (1, m)
      else let (k, v) = split_pair_char line (CHR '':'') in
        if k = [] \<or> length k = length line then (- 1, m)
        else (0, set_header (c_str (trim_copy k)) (c_str (trim_copy v)) m))"

lemma find_line_end_bound: "find_line_end mem n = Inr (Some pos) \<Longrightarrow> pos + 2 \<le> length mem"
  using search_bound[of crlf "take n mem" pos]
  by (auto simp: find_line_end_def crlf_def split: option.splits if_splits)

text \<open>
  \<open>parse\<close>: the virtual \<open>parse_first_line\<close> and \<open>get_message().set_header\<close> are parameters. The size is not
  reduced when the pointer moves on.
\<close>

function parse_lines ::
    "(string \<Rightarrow> 'm \<Rightarrow> int \<times> 'm) \<Rightarrow> (string \<Rightarrow> 'm \<Rightarrow> int \<times> 'm) \<Rightarrow> bool \<Rightarrow> nat \<Rightarrow> string \<Rightarrow> 'm \<Rightarrow> fault + bool \<times> 'm" where
  "parse_lines parse_first_line parse_other_line first_line n mem m =
     (case find_line_end mem n of
        Inl e \<Rightarrow> Inl e
      | Inr None \<Rightarrow> Inr (False, m)
      | Inr (Some pos) \<Rightarrow>
          let line = take pos mem;
              (ret, m) = (if first_line then parse_first_line line m else parse_other_line line m)
          in if ret > 0 then Inr (True, m)
             else if ret < 0 then Inr (False, m)
             else parse_lines parse_first_line parse_other_line False n (drop (pos + 2) mem) m)"
  by pat_completeness auto

termination
  by (relation "measure (\<lambda>(_, _, _, _, mem, _). length mem)") (auto dest: find_line_end_bound)

declare parse_lines.simps [simp del]

definition parse_protocol ::
    "(string \<Rightarrow> string list) \<Rightarrow> (string \<Rightarrow> string \<Rightarrow> 'm \<Rightarrow> 'm) \<Rightarrow> string \<Rightarrow> 'm \<Rightarrow> int \<times> 'm" where
  "parse_protocol split_slash set_protocol s m =
     (case split_slash s of [name, ver] \<Rightarrow> (0, set_protocol (c_str name) (c_str ver) m) | _ \<Rightarrow> (- 2, m))"

subsection \<open>http_response_parser\<close>

definition rs_set_protocol :: "string \<Rightarrow> string \<Rightarrow> http_response \<Rightarrow> http_response" where
  "rs_set_protocol name ver r =
     r\<lparr>rs_message := (rs_message r)\<lparr>hm_protocol_name := name, hm_protocol_version := ver\<rparr>\<rparr>"

definition parse_status_line :: "(string \<Rightarrow> string list) \<Rightarrow> string \<Rightarrow> http_response \<Rightarrow> int \<times> http_response" where
  "parse_status_line split_slash line r =
     (case split_of line [CHR '' '', CHR 0x09] 3 of
        Some [proto, code, desc] \<Rightarrow>
          (let (ret, r) = parse_protocol split_slash rs_set_protocol proto r in
           if ret < 0 then (ret, r)
           else let status = numerics_parse code (- 1) in
             if status < 0 then (- 4, r)
             else (0, rs_set_status_description (Some (c_str desc)) (rs_set_status_code status r)))
      | _ \<Rightarrow> (- 3, r))"

definition response_parse ::
    "(string \<Rightarrow> string) \<Rightarrow> (string \<Rightarrow> string list) \<Rightarrow> string \<Rightarrow> nat \<Rightarrow> http_response \<Rightarrow> fault + bool \<times> http_response" where
  "response_parse trim_copy split_slash mem n r =
     parse_lines (parse_status_line split_slash) (parse_header trim_copy rs_set_header) True n mem r"

subsection \<open>What the parser needs of boost\<close>

definition padded :: "string \<Rightarrow> bool" where
  "padded s \<longleftrightarrow> s \<noteq> [] \<and> (is_space (hd s) \<or> is_space (last s))"

locale boost_text =
  fixes trim_copy :: "string \<Rightarrow> string" and split_slash :: "string \<Rightarrow> string list"
  assumes trim_tight: "\<not> padded s \<Longrightarrow> list_all is_space xs \<Longrightarrow> list_all is_space ys \<Longrightarrow> trim_copy (xs @ s @ ys) = s"
    and split_two: "a \<noteq> [] \<Longrightarrow> b \<noteq> [] \<Longrightarrow> CHR ''/'' \<notin> set a \<Longrightarrow> CHR ''/'' \<notin> set b \<Longrightarrow> split_slash (a @ CHR ''/'' # b) = [a, b]"
begin

lemma trim_copy_id: "\<not> padded s \<Longrightarrow> trim_copy s = s"
  using trim_tight[of s "[]" "[]"] by simp

lemma trim_copy_front: "\<not> padded s \<Longrightarrow> trim_copy (CHR '' '' # s) = s"
  using trim_tight[of s "[CHR '' '']" "[]"] by (simp add: is_space_def code_of_def)

end

text \<open>Reference functions with the documented behaviour.\<close>

definition trim_reference :: "string \<Rightarrow> string" where
  "trim_reference s = rev (dropWhile is_space (rev (dropWhile is_space s)))"

definition split_reference :: "string \<Rightarrow> string list" where
  "split_reference s = cut (\<lambda>c. c = CHR ''/'') s"

lemma dropWhile_spaces: "list_all P xs \<Longrightarrow> s = [] \<or> \<not> P (hd s) \<Longrightarrow> dropWhile P (xs @ s) = s"
  by (induction xs) (auto simp: dropWhile_eq_self_iff)

interpretation boost: boost_text trim_reference split_reference
proof
  fix s xs ys :: string
  assume a: "\<not> padded s" "list_all is_space xs" "list_all is_space ys"
  show "trim_reference (xs @ s @ ys) = s"
  proof (cases "s = []")
    case True
    have none: "dropWhile is_space (xs @ ys) = []" using a by (simp only: dropWhile_eq_Nil_conv) (auto simp: list_all_iff)
    show ?thesis unfolding trim_reference_def True append_Nil none by simp
  next
    case False
    have "dropWhile is_space (xs @ s @ ys) = s @ ys" using a False by (intro dropWhile_spaces) (auto simp: padded_def)
    moreover have "dropWhile is_space (rev ys @ rev s) = rev s"
      using a False by (intro dropWhile_spaces) (auto simp: padded_def hd_rev)
    ultimately show ?thesis by (simp add: trim_reference_def)
  qed
next
  fix a b :: string
  assume "a \<noteq> []" "b \<noteq> []" "CHR ''/'' \<notin> set a" "CHR ''/'' \<notin> set b"
  then have "list_all (\<lambda>c. c \<noteq> CHR ''/'') a" "list_all (\<lambda>c. c \<noteq> CHR ''/'') b" by (auto simp: list_all_iff)
  then show "split_reference (a @ CHR ''/'' # b) = [a, b]"
    unfolding split_reference_def by (subst cut_at) (simp_all add: cut_plain)
qed

subsection \<open>Lines\<close>

definition no_cr :: "string \<Rightarrow> bool" where
  "no_cr l \<longleftrightarrow> list_all (\<lambda>c. c \<noteq> CHR 0x0D) l"

lemma crlf_length [simp]: "length crlf = 2"
  by (simp add: crlf_def)

lemma search_line: "no_cr l \<Longrightarrow> search crlf (l @ crlf @ rest) = Some (length l)"
  by (induction l) (auto simp: no_cr_def crlf_def)

lemma find_line:
  assumes "no_cr l" and "length l + 2 \<le> n"
  shows "find_line_end (l @ crlf @ rest) n = Inr (Some (length l))"
proof -
  have "take n (l @ crlf @ rest) = l @ crlf @ take (n - length l - 2) rest"
    using assms(2) by (simp add: crlf_def take_Cons')
  then show ?thesis by (simp only: find_line_end_def search_line[OF assms(1)]) simp
qed

lemma parse_line_step:
  assumes "no_cr l" and "length l + 2 \<le> n"
  shows "parse_lines f g b n (l @ crlf @ rest) m =
    (let (ret, m) = (if b then f l m else g l m)
     in if ret > 0 then Inr (True, m) else if ret < 0 then Inr (False, m) else parse_lines f g False n rest m)"
proof -
  have "drop (length l + 2) (l @ crlf @ rest) = rest" and "take (length l) (l @ crlf @ rest) = l" by (simp_all add: crlf_def)
  then show ?thesis
    by (subst parse_lines.simps) (simp only: find_line[OF assms] sum.case option.case Let_def)
qed

definition plain_text :: "string \<Rightarrow> bool" where
  "plain_text s \<longleftrightarrow> no_cr s \<and> list_all (\<lambda>c. code_of c \<noteq> 0) s"

definition header_ok :: "string \<times> string \<Rightarrow> bool" where
  "header_ok e \<longleftrightarrow> fst e \<noteq> [] \<and> CHR '':'' \<notin> set (fst e) \<and> \<not> padded (fst e) \<and> \<not> padded (snd e)
     \<and> plain_text (fst e) \<and> plain_text (snd e)"

lemma no_cr_append [simp]: "no_cr (a @ b) \<longleftrightarrow> no_cr a \<and> no_cr b" "no_cr (c # a) \<longleftrightarrow> c \<noteq> CHR 0x0D \<and> no_cr a" "no_cr []"
  by (simp_all add: no_cr_def)

context boost_text
begin

lemma parse_header_line:
  assumes "header_ok e"
  shows "parse_header trim_copy set_header (fst e @ '': '' @ snd e) m = (0, set_header (fst e) (snd e) m)"
proof -
  have "split_pair_char (fst e @ CHR '':'' # CHR '' '' # snd e) (CHR '':'') = (fst e, CHR '' '' # snd e)"
    using assms by (intro split_pair_char_app) (simp add: header_ok_def)
  then show ?thesis
    using assms by (simp add: parse_header_def header_ok_def plain_text_def trim_copy_id trim_copy_front c_str_id)
qed

lemma parse_header_lines:
  assumes "list_all header_ok es" and "length (write_header_lines es) + 2 \<le> n"
  shows "parse_lines f (parse_header trim_copy set_header) False n (write_header_lines es @ crlf @ rest) m
    = Inr (True, foldl (\<lambda>m e. set_header (fst e) (snd e) m) m es)"
  using assms
proof (induction es arbitrary: m)
  case Nil
  then show ?case using parse_line_step[of "[]" n f "parse_header trim_copy set_header" False rest m]
    by (simp add: parse_header_def[of trim_copy set_header "[]"])
next
  case (Cons e es)
  have no: "no_cr (fst e @ '': '' @ snd e)" using Cons.prems by (simp add: header_ok_def plain_text_def)
  have "length (fst e @ '': '' @ snd e) + 2 \<le> n" using Cons.prems by (simp add: crlf_def)
  from parse_line_step[OF no this, of f "parse_header trim_copy set_header" False "write_header_lines es @ crlf @ rest" m]
  show ?case using Cons parse_header_line[of e set_header m] by simp
qed

end

lemma keys_ok_absent: "ikey.keys_ok (hs @ e # es) \<Longrightarrow> ikey.lookup hs (fst e) = None"
  by (induction hs) auto

lemma foldl_set_headers:
  "ikey.keys_ok (hs @ es) \<Longrightarrow> foldl (\<lambda>hs e. sa_set string_iequal_to (fst e) (snd e) hs) hs es = hs @ es"
proof (induction es arbitrary: hs)
  case (Cons e es)
  have "sa_set string_iequal_to (fst e) (snd e) hs = hs @ [e]"
    using ikey.set_new[OF keys_ok_absent[OF Cons.prems]] by simp
  then show ?case using Cons.IH[of "hs @ [e]"] Cons.prems by simp
qed simp

lemma foldl_rs_set_header:
  "foldl (\<lambda>r e. rs_set_header (fst e) (snd e) r) r es = r\<lparr>rs_message := (rs_message r)
     \<lparr>hm_headers := foldl (\<lambda>hs e. sa_set string_iequal_to (fst e) (snd e) hs) (hm_headers (rs_message r)) es\<rparr>\<rparr>"
  by (induction es arbitrary: r) (simp_all add: rs_set_header_def hm_set_header_def)

subsection \<open>The status line\<close>

lemma find_first_of_hit:
  "list_all (\<lambda>c. c \<notin> set cs) a \<Longrightarrow> d \<in> set cs \<Longrightarrow> find_first_of cs (pre @ a @ d # b) (length pre) = Some (length pre + length a)"
  by (simp add: find_first_of_def find_if_from_def) (induction a; auto)

lemma split_of_three:
  assumes "list_all (\<lambda>c. c \<notin> set cs) a" and "list_all (\<lambda>c. c \<notin> set cs) b" and "d \<in> set cs"
  shows "split_of (a @ d # b @ d # c) cs 3 = Some [a, b, c]"
proof -
  let ?s = "a @ d # b @ d # c"
  have 1: "find_first_of cs ?s 0 = Some (length a)"
    using find_first_of_hit[OF assms(1,3), of "[]" "b @ d # c"] by simp
  have 2: "find_first_of cs ?s (Suc (length a)) = Some (Suc (length a) + length b)"
    using find_first_of_hit[OF assms(2,3), of "a @ [d]" c] by simp
  show ?thesis
    unfolding split_of_def by (subst split_loop.simps, simp add: 1, subst split_loop.simps, simp add: 2, subst split_loop.simps, simp)
qed

definition token :: "string \<Rightarrow> bool" where
  "token s \<longleftrightarrow> s \<noteq> [] \<and> plain_text s \<and> list_all (\<lambda>c. c \<notin> {CHR '' '', CHR 0x09, CHR ''/''}) s"

definition response_ok :: "http_response \<Rightarrow> bool" where
  "response_ok r \<longleftrightarrow> token (hm_protocol_name (rs_message r)) \<and> token (hm_protocol_version (rs_message r))
     \<and> 0 \<le> rs_status_code r \<and> plain_text (rs_status_description r)
     \<and> list_all header_ok (hm_headers (rs_message r)) \<and> ikey.keys_ok (hm_headers (rs_message r))"

lemma digits_plain: "list_all is_digit s \<Longrightarrow> plain_text s \<and> list_all (\<lambda>c. c \<notin> {CHR '' '', CHR 0x09, CHR ''/''}) s"
  by (auto simp: list_all_iff plain_text_def no_cr_def is_digit_def code_of_def)

definition status_line :: "http_response \<Rightarrow> string" where
  "status_line r = hm_protocol_name (rs_message r) @ ''/'' @ hm_protocol_version (rs_message r) @ '' '' @
     numerics_format (rs_status_code r) @ '' '' @ rs_status_description r"

lemma rs_print_lines: "rs_print r = status_line r @ crlf @ write_headers (rs_message r)"
  by (simp add: rs_print_def status_line_def)

lemma status_line_no_cr: "response_ok r \<Longrightarrow> no_cr (status_line r)"
  using dec_digits_ok[of "nat (rs_status_code r)"] digits_plain[of "dec_digits (nat (rs_status_code r))"]
  by (auto simp: response_ok_def status_line_def token_def plain_text_def numerics_format_def)

context boost_text
begin

lemma parse_status_line_printed:
  assumes "response_ok r"
  shows "parse_status_line split_slash (status_line r) r0 =
    (0, r\<lparr>rs_message := (rs_message r)\<lparr>hm_headers := hm_headers (rs_message r0)\<rparr>\<rparr>)"
proof -
  let ?m = "rs_message r" and ?cs = "[CHR '' '', CHR 0x09]"
  let ?p = "hm_protocol_name ?m @ CHR ''/'' # hm_protocol_version ?m" and ?c = "numerics_format (rs_status_code r)"
  have ok: "token (hm_protocol_name ?m)" "token (hm_protocol_version ?m)" "0 \<le> rs_status_code r" "plain_text (rs_status_description r)"
    using assms by (simp_all add: response_ok_def)
  have p: "list_all (\<lambda>c. c \<notin> set ?cs) ?p" using ok(1,2) by (auto simp: token_def list_all_iff)
  have c: "list_all (\<lambda>c. c \<notin> set ?cs) ?c"
    using ok(3) dec_digits_ok[of "nat (rs_status_code r)"] digits_plain[of "dec_digits (nat (rs_status_code r))"]
    by (auto simp: numerics_format_def list_all_iff)
  have split: "split_of (status_line r) ?cs 3 = Some [?p, ?c, rs_status_description r]"
    using split_of_three[OF p c, of "CHR '' ''" "rs_status_description r"] by (simp add: status_line_def)
  have slash: "split_slash ?p = [hm_protocol_name ?m, hm_protocol_version ?m]"
    using ok(1,2) by (intro split_two) (auto simp: token_def list_all_iff)
  have num: "numerics_parse ?c (- 1) = rs_status_code r"
    using try_parse_format[of "[]" "rs_status_code r"] by (simp add: numerics_parse_def)
  have cs: "c_str (hm_protocol_name ?m) = hm_protocol_name ?m" "c_str (hm_protocol_version ?m) = hm_protocol_version ?m"
      "c_str (rs_status_description r) = rs_status_description r"
    using ok by (simp_all add: token_def plain_text_def c_str_id)
  show ?thesis
    using ok(3) by (simp add: parse_status_line_def split parse_protocol_def slash cs num rs_set_protocol_def
      rs_set_status_description_def rs_set_status_code_def Let_def)
qed

lemma response_parse_printed:
  assumes "response_ok r" and "hm_headers (rs_message r0) = []" and "length (rs_print r) \<le> n"
  shows "response_parse trim_copy split_slash (rs_print r @ rest) n r0 = Inr (True, r)"
proof -
  let ?es = "hm_headers (rs_message r)"
  have len: "length (status_line r) + 2 \<le> n" "length (write_header_lines ?es) + 2 \<le> n"
    using assms(3) by (simp_all add: rs_print_lines write_headers_def)
  have "ikey.keys_ok ([] @ ?es)" "list_all header_ok ?es" using assms(1) by (simp_all add: response_ok_def)
  then show ?thesis
    using parse_line_step[OF status_line_no_cr[OF assms(1)] len(1), of "parse_status_line split_slash"
        "parse_header trim_copy rs_set_header" True "write_headers (rs_message r) @ rest" r0]
      parse_header_lines[OF _ len(2), of "parse_status_line split_slash" rs_set_header rest]
      foldl_set_headers[of "[]" ?es] assms(2)
    by (simp add: response_parse_def rs_print_lines parse_status_line_printed[OF assms(1)] write_headers_def foldl_rs_set_header)
qed

end

text \<open>
  C16. A response that was printed is parsed back, headers in order, whatever follows it in the buffer:
  the texts have no control characters of their own, and no two headers have the same name.
\<close>

theorem http_response_roundtrip:
  assumes "boost_text trim_copy split_slash" and "response_ok r" and "hm_headers (rs_message r0) = []"
  shows "response_parse trim_copy split_slash (rs_print r @ rest) (length (rs_print r)) r0 = Inr (True, r)"
  by (rule boost_text.response_parse_printed[OF assms(1,2,3)]) simp

definition sample_response :: http_response where
  "sample_response = \<lparr>rs_message = \<lparr>hm_headers = [(''Host'', ''a b''), (''X'', [])], hm_protocol_name = ''HTTP'',
     hm_protocol_version = ''1.1''\<rparr>, rs_status_code = 404, rs_status_description = ''Not Found''\<rparr>"

theorem http_response_roundtrip_witness:
  "response_parse trim_reference split_reference (rs_print sample_response @ ''body'') (length (rs_print sample_response)) rs_new
     = Inr (True, sample_response)"
  by (rule http_response_roundtrip)
    (simp_all add: boost.boost_text_axioms sample_response_def response_ok_def token_def plain_text_def header_ok_def padded_def
      is_space_def code_of_def string_iequal_to_def make_lower_def to_lower_def is_upper_def rs_new_def rs_clear_def hm_clear_def)

subsection \<open>Reading within the buffer\<close>

lemma search_found:
  assumes "take (length pat) (drop j xs) = pat"
  shows "\<exists>i \<le> j. search pat xs = Some i"
proof -
  obtain i where i: "search pat xs = Some i" using search_None[of pat xs j] assms by blast
  then have "\<not> j < i" using search_first[OF i, of j] assms by blast
  then show ?thesis using i by auto
qed

lemma search_drop: "search pat xs = Some i \<Longrightarrow> j \<le> i \<Longrightarrow> search pat (drop j xs) = Some (i - j)"
proof (induction xs arbitrary: i j)
  case (Cons x xs)
  then show ?case by (cases j) (auto split: if_splits)
qed (simp split: if_splits)

lemma crlf_at: "take 2 (drop p mem) = crlf \<longleftrightarrow> p + 1 < length mem \<and> mem ! p = CHR 0x0D \<and> mem ! Suc p = CHR 0x0A"
proof (cases "p + 1 < length mem")
  case True
  then have "drop p mem = mem ! p # mem ! Suc p # drop (p + 2) mem" by (simp add: Cons_nth_drop_Suc)
  then show ?thesis using True by (simp add: crlf_def)
next
  case False
  then have "length (take 2 (drop p mem)) \<noteq> length crlf" by simp
  then show ?thesis using False by metis
qed

lemma header_end_at:
  assumes "search (crlf @ crlf) mem = Some pos"
  shows "take 2 (drop pos mem) = crlf" "take 2 (drop (pos + 2) mem) = crlf" "pos + 4 \<le> length mem"
proof -
  have "take 4 (drop pos mem) = crlf @ crlf" "pos + 4 \<le> length mem" using search_bound[OF assms] by simp_all
  then obtain a b c d r where "drop pos mem = a # b # c # d # r" "[a, b, c, d] = crlf @ crlf"
    by (cases "drop pos mem"; simp add: crlf_def; cases "tl (drop pos mem)"; simp; cases "tl (tl (drop pos mem))"; simp;
        cases "tl (tl (tl (drop pos mem)))"; simp)
  moreover from this have "drop (pos + 2) mem = c # d # r" by (metis add.commute drop_Suc_Cons drop0 drop_drop numeral_2_eq_2)
  ultimately show "take 2 (drop pos mem) = crlf" "take 2 (drop (pos + 2) mem) = crlf" by (simp_all add: crlf_def)
  show "pos + 4 \<le> length mem" by fact
qed

lemma line_before_header_end:
  assumes "search (crlf @ crlf) mem = Some pos" and "pos + 4 \<le> n"
  shows "\<exists>p. find_line_end mem n = Inr (Some p) \<and> (p = pos \<or> search (crlf @ crlf) (drop (p + 2) mem) = Some (pos - (p + 2)) \<and> p + 2 \<le> pos)"
proof -
  have at: "take 2 (drop pos mem) = crlf" using header_end_at[OF assms(1)] by simp
  have "take (length crlf) (drop pos (take n mem)) = crlf" using at assms(2) by (simp add: crlf_at)
  then obtain p where p: "p \<le> pos" "search crlf (take n mem) = Some p" using search_found by blast
  have "take 2 (drop p (take n mem)) = crlf" using search_bound[OF p(2)] by simp
  then have "mem ! Suc p = CHR 0x0A" and "mem ! pos = CHR 0x0D" using at by (auto simp: crlf_at)
  then have "p = pos \<or> p + 2 \<le> pos" using p(1) by (cases "Suc p = pos") auto
  then show ?thesis using p search_drop[OF assms(1), of "p + 2"] by (auto simp: find_line_end_def)
qed

lemma parse_lines_within:
  assumes "\<And>m. fst (g [] m) > 0"
    and "(\<exists>pos. search (crlf @ crlf) mem = Some pos \<and> pos + 4 \<le> n) \<or> (\<not> b \<and> take 2 mem = crlf \<and> 2 \<le> n)"
  shows "\<exists>r. parse_lines f g b n mem m = Inr r"
  using assms(2)
proof (induction mem arbitrary: b m rule: length_induct)
  case (1 mem)
  show ?case
  proof (cases "\<not> b \<and> take 2 mem = crlf \<and> 2 \<le> n")
    case True
    then have "mem = [] @ crlf @ drop 2 mem" by (metis append_Nil append_take_drop_id)
    then obtain rest where mem: "mem = [] @ crlf @ rest" by blast
    show ?thesis using True assms(1)[of m] unfolding mem
      by (subst parse_line_step) (auto split: prod.splits)
  next
    case False
    then obtain pos where pos: "search (crlf @ crlf) mem = Some pos" "pos + 4 \<le> n" using 1(2) by blast
    obtain p where p: "find_line_end mem n = Inr (Some p)"
        "p = pos \<or> search (crlf @ crlf) (drop (p + 2) mem) = Some (pos - (p + 2)) \<and> p + 2 \<le> pos"
      using line_before_header_end[OF pos] by blast
    have "length (drop (p + 2) mem) < length mem" using find_line_end_bound[OF p(1)] by simp
    moreover have "(\<exists>pos. search (crlf @ crlf) (drop (p + 2) mem) = Some pos \<and> pos + 4 \<le> n)
        \<or> (\<not> False \<and> take 2 (drop (p + 2) mem) = crlf \<and> 2 \<le> n)"
      using p(2) pos header_end_at(2)[OF pos(1)] by auto
    ultimately have "\<exists>r. parse_lines f g False n (drop (p + 2) mem) m' = Inr r" for m' using 1(1) by blast
    moreover obtain ret m' where "(if b then f (take p mem) m else g (take p mem) m) = (ret, m')" by fastforce
    ultimately show ?thesis by (subst parse_lines.simps) (auto simp: p(1) Let_def)
  qed
qed

text \<open>
  C27. The parser stays inside its buffer when it is given a block up to the first empty line, as its callers
  give it, although the size it searches is never reduced; on a block that stops behind
  the status line it reads past the end.
\<close>

theorem http_parser_bounds:
  "(find_header_end mem = Some pos \<longrightarrow> (\<exists>b r'. response_parse trim_copy split_slash mem (pos + 4) r = Inr (b, r')))
   \<and> (no_cr l \<and> fst (parse_status_line split_slash l r) = 0 \<longrightarrow>
        response_parse trim_copy split_slash (l @ crlf) (length (l @ crlf)) r = Inl Out_Of_Bounds)"
proof (intro conjI impI)
  assume "find_header_end mem = Some pos"
  then have "\<exists>r'. response_parse trim_copy split_slash mem (pos + 4) r = Inr r'"
    unfolding response_parse_def by (intro parse_lines_within) (auto simp: find_header_end_def parse_header_def)
  then show "\<exists>b r'. response_parse trim_copy split_slash mem (pos + 4) r = Inr (b, r')" by auto
next
  assume l: "no_cr l \<and> fst (parse_status_line split_slash l r) = 0"
  have "parse_lines f g False (length l + 2) [] m = Inl Out_Of_Bounds" for f g and m :: http_response
    by (subst parse_lines.simps) (simp add: find_line_end_def crlf_def)
  then show "response_parse trim_copy split_slash (l @ crlf) (length (l @ crlf)) r = Inl Out_Of_Bounds"
    using l parse_line_step[of l "length l + 2" "parse_status_line split_slash" "parse_header trim_copy rs_set_header" True "[]" r]
    by (simp add: response_parse_def split: prod.splits)
qed

theorem http_parser_bounds_witness:
  "(\<exists>b r'. response_parse trim_reference split_reference (''HTTP/1.0 200 OK'' @ crlf @ crlf) (15 + 4) rs_new = Inr (b, r'))
   \<and> response_parse trim_reference split_reference (''HTTP/1.0 200 OK'' @ crlf) (length (''HTTP/1.0 200 OK'' @ crlf)) rs_new = Inl Out_Of_Bounds"
proof -
  let ?r = "rs_new\<lparr>rs_status_code := 200, rs_status_description := ''OK''\<rparr>"
  have "find_header_end (''HTTP/1.0 200 OK'' @ crlf @ crlf) = Some 15" by (simp add: find_header_end_def crlf_def)
  moreover have "status_line ?r = ''HTTP/1.0 200 OK''" by code_simp
  moreover have "response_ok ?r"
    by (simp add: rs_new_def rs_clear_def hm_clear_def response_ok_def token_def plain_text_def code_of_def)
  moreover from calculation have "fst (parse_status_line split_reference ''HTTP/1.0 200 OK'' rs_new) = 0"
    using boost.parse_status_line_printed[of ?r rs_new] by simp
  ultimately show ?thesis
    using http_parser_bounds[of "''HTTP/1.0 200 OK'' @ crlf @ crlf" 15 trim_reference split_reference rs_new "''HTTP/1.0 200 OK''"]
    by simp
qed

end
