(* ===== verification/Http_Stream.thy ===== *)
theory Http_Stream
  imports Http_Message
begin

text \<open>
  HTTP responses from a stream: the decoder and the extractor of
  \<^verbatim>\<open>include/xul/net/http/http_response_decoder.hpp\<close>, which wait for the header block, and the filter for
  chunked bodies of \<^verbatim>\<open>include/xul/net/http/detail/chunked_http_filter.hpp\<close>. Bytes are characters, as the
  sources cast them. A listener and the next filter of a chain do not call back; what they are
  called with is the list of events.
\<close>

subsection \<open>http_response_decoder\<close>

datatype response_event = Header_Message http_response | Body_Message string | Response_Error int

record response_decoder =
  rd_buffer :: string
  rd_max_buffer_size :: nat
  rd_abort :: bool
  rd_receiving_header :: bool

definition rd_new :: "nat \<Rightarrow> response_decoder" where
  "rd_new max_size = \<lparr>rd_buffer = [], rd_max_buffer_size = max_size, rd_abort = False, rd_receiving_header = True\<rparr>"

definition rd_reset :: "response_decoder \<Rightarrow> response_decoder" where
  "rd_reset s = s\<lparr>rd_abort := False, rd_receiving_header := True, rd_buffer := []\<rparr>"

definition rd_do_decode ::
    "(string \<Rightarrow> string) \<Rightarrow> (string \<Rightarrow> string list) \<Rightarrow> string \<Rightarrow> response_decoder \<Rightarrow> fault + response_event list \<times> response_decoder" where
  "rd_do_decode trim_copy split_slash data s =
     (if rd_receiving_header s then
        case find_header_end data of
          None \<Rightarrow> Inr ([], s\<lparr>rd_buffer := data\<rparr>)
        | Some pos \<Rightarrow>
            let header_size = pos + 4 in
            sbind (response_parse trim_copy split_slash data header_size rs_new) (\<lambda>(ok, resp).
              if \<not> ok then Inr ([Response_Error (- 1)], s\<lparr>rd_abort := True\<rparr>)
              else Inr (Header_Message resp #
                     (if length data > header_size then [Body_Message (drop header_size data)] else []),
                   s\<lparr>rd_receiving_header := False\<rparr>))
      else Inr ([Body_Message data], s))"

text \<open>\<open>feed\<close>: false, and the data dropped, when the buffered header would become too long.\<close>

definition rd_feed ::
    "(string \<Rightarrow> string) \<Rightarrow> (string \<Rightarrow> string list) \<Rightarrow> string \<Rightarrow> response_decoder \<Rightarrow> fault + (bool \<times> response_event list) \<times> response_decoder" where
  "rd_feed trim_copy split_slash data s =
     (if rd_buffer s = [] then
        sbind (rd_do_decode trim_copy split_slash data s) (\<lambda>(es, s). Inr ((True, es), s))
      else if length (rd_buffer s) + length data > rd_max_buffer_size s then Inr ((False, []), s)
      else sbind (rd_do_decode trim_copy split_slash (rd_buffer s @ data) (s\<lparr>rd_buffer := []\<rparr>)) (\<lambda>(es, s). Inr ((True, es), s)))"

fun rd_feed_all ::
    "(string \<Rightarrow> string) \<Rightarrow> (string \<Rightarrow> string list) \<Rightarrow> string list \<Rightarrow> response_decoder \<Rightarrow> fault + response_event list \<times> response_decoder" where
  "rd_feed_all trim_copy split_slash [] s = Inr ([], s)"
| "rd_feed_all trim_copy split_slash (c # cs) s =
     sbind (rd_feed trim_copy split_slash c s) (\<lambda>((_, es), s).
       sbind (rd_feed_all trim_copy split_slash cs s) (\<lambda>(fs, s). Inr (es @ fs, s)))"

subsection \<open>http_response_extractor\<close>

record response_extractor =
  re_buffer :: string
  re_max_buffer_size :: nat
  re_header_finished :: bool
  re_response :: http_response

definition re_new :: "nat \<Rightarrow> response_extractor" where
  "re_new max_size = \<lparr>re_buffer = [], re_max_buffer_size = max_size, re_header_finished = False, re_response = rs_new\<rparr>"

definition re_reset :: "response_extractor \<Rightarrow> response_extractor" where
  "re_reset s = s\<lparr>re_header_finished := False, re_response := rs_new, re_buffer := []\<rparr>"

definition re_try_parse ::
    "(string \<Rightarrow> string) \<Rightarrow> (string \<Rightarrow> string list) \<Rightarrow> string \<Rightarrow> response_extractor \<Rightarrow> fault + int \<times> response_extractor" where
  "re_try_parse trim_copy split_slash data s =
     (case find_header_end data of
        None \<Rightarrow> Inr (0, s\<lparr>re_buffer := data\<rparr>)
      | Some pos \<Rightarrow>
          sbind (response_parse trim_copy split_slash data (pos + 4) (re_response s)) (\<lambda>(ok, resp).
            let s = s\<lparr>re_response := resp\<rparr> in
            if \<not> ok then Inr (- 1, s) else Inr (int (pos + 4), s\<lparr>re_header_finished := True\<rparr>)))"

text \<open>\<open>feed\<close>: the number of bytes of this call that belong to the header, or minus one.\<close>

definition re_feed ::
    "(string \<Rightarrow> string) \<Rightarrow> (string \<Rightarrow> string list) \<Rightarrow> string \<Rightarrow> response_extractor \<Rightarrow> fault + int \<times> response_extractor" where
  "re_feed trim_copy split_slash data s =
     (if re_header_finished s then Inr (0, s)
      else let previous_buffer_size = int (length (re_buffer s));
               finish = (\<lambda>(header_size, s). Inr (if header_size < 0 then - 1
                  else if header_size = 0 then int (length data) else header_size - previous_buffer_size, s))
           in if re_buffer s = [] then sbind (re_try_parse trim_copy split_slash data s) finish
              else if length (re_buffer s) + length data > re_max_buffer_size s then Inr (- 1, s)
              else sbind (re_try_parse trim_copy split_slash (re_buffer s @ data) (s\<lparr>re_buffer := []\<rparr>)) finish)"

fun re_feed_all ::
    "(string \<Rightarrow> string) \<Rightarrow> (string \<Rightarrow> string list) \<Rightarrow> string list \<Rightarrow> response_extractor \<Rightarrow> fault + int list \<times> response_extractor" where
  "re_feed_all trim_copy split_slash [] s = Inr ([], s)"
| "re_feed_all trim_copy split_slash (c # cs) s =
     sbind (re_feed trim_copy split_slash c s) (\<lambda>(n, s).
       sbind (re_feed_all trim_copy split_slash cs s) (\<lambda>(ns, s). Inr (n # ns, s)))"

subsection \<open>The end of a printed header\<close>

lemma header_end_skip:
  assumes "no_cr l" and "rest \<noteq> []" and "hd rest \<noteq> CHR 0x0D"
  shows "find_header_end (l @ crlf @ rest) = map_option (\<lambda>i. length l + 2 + i) (find_header_end rest)"
  using assms
proof (induction l)
  case Nil
  then show ?case by (cases rest) (auto simp: find_header_end_def crlf_def option.map_comp comp_def)
next
  case (Cons c l)
  then show ?case by (auto simp: find_header_end_def crlf_def option.map_comp comp_def)
qed

lemma header_end_here: "no_cr l \<Longrightarrow> find_header_end (l @ crlf @ crlf @ rest) = Some (length l)"
  by (induction l) (auto simp: find_header_end_def crlf_def)

lemma header_lines_end:
  assumes "list_all header_ok es" and "no_cr l"
  shows "find_header_end (l @ crlf @ write_header_lines es @ crlf @ rest) = Some (length l + length (write_header_lines es))"
  using assms
proof (induction es arbitrary: l)
  case Nil
  then show ?case using header_end_here by simp
next
  case (Cons e es)
  let ?l = "fst e @ '': '' @ snd e"
  have l: "no_cr ?l" using Cons.prems by (simp add: header_ok_def plain_text_def)
  have "find_header_end (?l @ crlf @ write_header_lines es @ crlf @ rest) = Some (length ?l + length (write_header_lines es))"
    using Cons.IH[OF _ l] Cons.prems(1) by simp
  moreover have "fst e \<noteq> []" "hd (fst e) \<noteq> CHR 0x0D"
    using Cons.prems(1) by (cases "fst e"; simp add: header_ok_def plain_text_def)+
  ultimately show ?case
    using header_end_skip[OF Cons.prems(2), of "write_header_lines (e # es) @ crlf @ rest"] by (simp add: add.assoc)
qed

lemma printed_header_end:
  assumes "response_ok r"
  shows "find_header_end (rs_print r @ rest) = Some (length (rs_print r) - 4)" and "4 \<le> length (rs_print r)"
  using assms header_lines_end[of "hm_headers (rs_message r)" "status_line r" rest] status_line_no_cr[OF assms]
  by (auto simp: rs_print_lines write_headers_def response_ok_def)

lemma printed_header_prefix:
  assumes "response_ok r" and "p @ q = rs_print r @ rest" and "length p < length (rs_print r)"
  shows "find_header_end p = None"
proof (rule ccontr)
  assume "find_header_end p \<noteq> None"
  then obtain i where i: "search (crlf @ crlf) p = Some i" by (auto simp: find_header_end_def)
  have "search (crlf @ crlf) (p @ q) = Some i" by (rule search_append[OF i])
  then have "i = length (rs_print r) - 4" using printed_header_end[OF assms(1)] assms(2) by (simp add: find_header_end_def)
  then show False using search_bound[OF i] printed_header_end(2)[OF assms(1)] assms(3) by simp
qed

subsection \<open>Any cut of the stream\<close>

lemma append_cut: "xs @ ys = zs @ ws \<Longrightarrow> length zs \<le> length xs \<Longrightarrow> \<exists>b. xs = zs @ b \<and> b @ ys = ws"
proof (induction zs arbitrary: xs)
  case (Cons z zs)
  then show ?case by (cases xs) auto
qed simp

context boost_text
begin

lemma decode_waits:
  assumes "response_ok r" and "(p @ c) @ q = rs_print r @ body" and "length (p @ c) < length (rs_print r)"
    and "length (p @ c) \<le> n" and "c \<noteq> []"
  shows "rd_feed trim_copy split_slash c ((rd_new n)\<lparr>rd_buffer := p\<rparr>) = Inr ((True, []), (rd_new n)\<lparr>rd_buffer := p @ c\<rparr>)"
  using printed_header_prefix[OF assms(1,2,3)] assms(4,5)
  by (auto simp: rd_feed_def rd_do_decode_def rd_new_def)

lemma decode_header:
  assumes "response_ok r" and "p @ c = rs_print r @ b" and "length (p @ c) \<le> n"
  shows "rd_feed trim_copy split_slash c ((rd_new n)\<lparr>rd_buffer := p\<rparr>)
    = Inr ((True, Header_Message r # (if b = [] then [] else [Body_Message b])), (rd_new n)\<lparr>rd_receiving_header := False\<rparr>)"
proof -
  have parse: "response_parse trim_copy split_slash (rs_print r @ b) (length (rs_print r)) rs_new = Inr (True, r)"
    using response_parse_printed[OF assms(1)] by (simp add: rs_new_def rs_clear_def hm_clear_def)
  have "rd_do_decode trim_copy split_slash (rs_print r @ b) (rd_new n)
      = Inr (Header_Message r # (if b = [] then [] else [Body_Message b]), (rd_new n)\<lparr>rd_receiving_header := False\<rparr>)"
    using printed_header_end(1)[OF assms(1), of b] printed_header_end(2)[OF assms(1)] parse by (simp add: rd_do_decode_def rd_new_def)
  moreover have "(rd_new n)\<lparr>rd_buffer := []\<rparr> = rd_new n" by (simp add: rd_new_def)
  moreover have "\<not> n < length p + length c" using assms(3) by simp
  ultimately show ?thesis using assms(2) by (cases "p = []") (simp_all add: rd_feed_def rd_new_def)
qed

lemma decode_body:
  "rd_feed_all trim_copy split_slash cs ((rd_new n)\<lparr>rd_receiving_header := False\<rparr>)
    = Inr (map Body_Message cs, (rd_new n)\<lparr>rd_receiving_header := False\<rparr>)"
  by (induction cs) (simp_all add: rd_feed_def rd_do_decode_def rd_new_def)

lemma decode_response:
  assumes "response_ok r" and "p @ concat cs = rs_print r @ body" and "length p < length (rs_print r)"
    and "list_all (\<lambda>c. c \<noteq> []) cs" and "length (p @ concat cs) \<le> n"
  shows "\<exists>bs. rd_feed_all trim_copy split_slash cs ((rd_new n)\<lparr>rd_buffer := p\<rparr>)
      = Inr (Header_Message r # map Body_Message bs, (rd_new n)\<lparr>rd_receiving_header := False\<rparr>) \<and> concat bs = body"
  using assms(2-)
proof (induction cs arbitrary: p)
  case Nil
  then show ?case by (auto dest: arg_cong[where f = length])
next
  case (Cons c cs)
  show ?case
  proof (cases "length (p @ c) < length (rs_print r)")
    case True
    have "(p @ c) @ concat cs = rs_print r @ body" using Cons.prems(1) by simp
    moreover have "length (p @ c) \<le> length (p @ concat (c # cs))" by simp
    then have "length (p @ c) \<le> n" using Cons.prems(4) by (rule le_trans)
    moreover have "c \<noteq> []" using Cons.prems by simp
    ultimately show ?thesis
      using decode_waits[OF assms(1) _ True, of "concat cs" body n] Cons.IH[of "p @ c"] Cons.prems True by fastforce
  next
    case False
    have "(p @ c) @ concat cs = rs_print r @ body" using Cons.prems(1) by simp
    then obtain b where "p @ c = rs_print r @ b" "b @ concat cs = body"
      using append_cut False by (metis not_less)
    then show ?thesis
      using decode_header[OF assms(1), of p c b n] decode_body[of cs n] Cons.prems
      by (intro exI[of _ "if b = [] then cs else b # cs"]) auto
  qed
qed

lemma extract_waits:
  assumes "response_ok r" and "(p @ c) @ q = rs_print r @ body" and "length (p @ c) < length (rs_print r)"
    and "length (p @ c) \<le> n" and "c \<noteq> []"
  shows "re_feed trim_copy split_slash c ((re_new n)\<lparr>re_buffer := p\<rparr>) = Inr (int (length c), (re_new n)\<lparr>re_buffer := p @ c\<rparr>)"
  using printed_header_prefix[OF assms(1,2,3)] assms(4,5)
  by (auto simp: re_feed_def re_try_parse_def re_new_def Let_def)

lemma extract_header:
  assumes "response_ok r" and "p @ c = rs_print r @ b" and "length (p @ c) \<le> n"
  shows "re_feed trim_copy split_slash c ((re_new n)\<lparr>re_buffer := p\<rparr>)
    = Inr (int (length (rs_print r)) - int (length p), (re_new n)\<lparr>re_response := r, re_header_finished := True\<rparr>)"
proof -
  have parse: "response_parse trim_copy split_slash (rs_print r @ b) (length (rs_print r)) rs_new = Inr (True, r)"
    using response_parse_printed[OF assms(1)] by (simp add: rs_new_def rs_clear_def hm_clear_def)
  have len: "0 < length (rs_print r)" using printed_header_end(2)[OF assms(1)] by linarith
  have "re_try_parse trim_copy split_slash (rs_print r @ b) (re_new n)
      = Inr (int (length (rs_print r)), (re_new n)\<lparr>re_response := r, re_header_finished := True\<rparr>)"
    using printed_header_end(1)[OF assms(1), of b] printed_header_end(2)[OF assms(1)] parse
    by (simp add: re_try_parse_def re_new_def of_nat_diff)
  moreover have "\<not> n < length p + length c" using assms(3) by simp
  ultimately show ?thesis using assms(2) len by (cases "p = []") (simp_all add: re_feed_def re_new_def Let_def)
qed

lemma extract_finished:
  "re_header_finished s \<Longrightarrow> re_feed_all trim_copy split_slash cs s = Inr (map (\<lambda>_. 0) cs, s)"
  by (induction cs) (simp_all add: re_feed_def)

lemma extract_response:
  assumes "response_ok r" and "p @ concat cs = rs_print r @ body" and "length p < length (rs_print r)"
    and "list_all (\<lambda>c. c \<noteq> []) cs" and "length (p @ concat cs) \<le> n"
  shows "\<exists>ns. re_feed_all trim_copy split_slash cs ((re_new n)\<lparr>re_buffer := p\<rparr>)
      = Inr (ns, (re_new n)\<lparr>re_response := r, re_header_finished := True\<rparr>)
    \<and> sum_list ns = int (length (rs_print r)) - int (length p)"
  using assms(2-)
proof (induction cs arbitrary: p)
  case Nil
  then show ?case by (auto dest: arg_cong[where f = length])
next
  case (Cons c cs)
  have "length (p @ c) \<le> length (p @ concat (c # cs))" by simp
  then have n: "length (p @ c) \<le> n" using Cons.prems(4) by (rule le_trans)
  have all: "(p @ c) @ concat cs = rs_print r @ body" using Cons.prems(1) by simp
  show ?case
  proof (cases "length (p @ c) < length (rs_print r)")
    case True
    then show ?thesis
      using extract_waits[OF assms(1) all True n] Cons.IH[of "p @ c"] Cons.prems by fastforce
  next
    case False
    then obtain b where "p @ c = rs_print r @ b" using append_cut[OF all] by (metis not_less)
    then show ?thesis
      using extract_header[OF assms(1), of p c b n] n
        extract_finished[of "(re_new n)\<lparr>re_response := r, re_header_finished := True\<rparr>" cs] by simp
  qed
qed

end

text \<open>
  C15. However the stream of a response is cut into pieces that are not empty, as long as the whole stream
  (header and body) is not longer than the maximal buffer size, the decoder tells its listener of the response once, with the
  headers that were printed, and then of the body, whose pieces in order are the bytes behind the header;
  and the extractor takes the bytes of the header, no more, and has the response.
\<close>

theorem http_decoder_fragmentation:
  assumes "boost_text trim_copy split_slash" and "response_ok r" and "concat chunks = rs_print r @ body"
    and "list_all (\<lambda>c. c \<noteq> []) chunks" and "length (concat chunks) \<le> max_size"
  shows "(\<exists>bs s. rd_feed_all trim_copy split_slash chunks (rd_new max_size) = Inr (Header_Message r # map Body_Message bs, s)
      \<and> concat bs = body \<and> \<not> rd_abort s)
    \<and> (\<exists>ns s. re_feed_all trim_copy split_slash chunks (re_new max_size) = Inr (ns, s)
      \<and> sum_list ns = int (length (rs_print r)) \<and> re_header_finished s \<and> re_response s = r)"
proof -
  have "(rd_new max_size)\<lparr>rd_buffer := []\<rparr> = rd_new max_size" "(re_new max_size)\<lparr>re_buffer := []\<rparr> = re_new max_size"
    by (simp_all add: rd_new_def re_new_def)
  moreover have "0 < length (rs_print r)" using printed_header_end(2)[OF assms(2)] by linarith
  ultimately show ?thesis
    using boost_text.decode_response[OF assms(1,2), of "[]" chunks body max_size] assms(3-5)
      boost_text.extract_response[OF assms(1,2), of "[]" chunks body max_size] by (auto simp: rd_new_def re_new_def)
qed

theorem http_decoder_fragmentation_witness:
  "\<exists>bs s. rd_feed_all trim_reference split_reference [take 7 (rs_print sample_response), drop 7 (rs_print sample_response) @ ''ab'', ''c''] (rd_new 500)
     = Inr (Header_Message sample_response # map Body_Message bs, s) \<and> concat bs = ''abc'' \<and> \<not> rd_abort s"
proof -
  have ok: "response_ok sample_response"
    by (simp add: sample_response_def response_ok_def token_def plain_text_def header_ok_def padded_def
      is_space_def code_of_def string_iequal_to_def make_lower_def to_lower_def is_upper_def)
  have "length (rs_print sample_response) = 42" by code_simp
  moreover from this have "rs_print sample_response \<noteq> []" by auto
  ultimately show ?thesis
    using http_decoder_fragmentation[OF boost.boost_text_axioms ok,
        of "[take 7 (rs_print sample_response), drop 7 (rs_print sample_response) @ ''ab'', ''c'']" "''abc''" 500]
    by (simp flip: append_assoc)
qed

subsection \<open>chunked_http_filter\<close>

datatype filter_event = Filter_Process string | Filter_Finish string

record chunked_filter =
  cf_received_chunk_size :: int
  cf_current_chunk_size :: int
  cf_last_chunk_size :: int
  cf_received_size :: int

definition cf_reset_state :: chunked_filter where
  "cf_reset_state = \<lparr>cf_received_chunk_size = 0, cf_current_chunk_size = - 1, cf_last_chunk_size = - 1, cf_received_size = 0\<rparr>"

text \<open>The \<open>llx\<close> conversion of \<open>sscanf\<close>, through \<open>strtoull\<close> into a signed variable.\<close>

definition xdigit_value :: "char \<Rightarrow> nat" where
  "xdigit_value c = (if is_digit c then code_of c - 48 else if 97 \<le> code_of c then code_of c - 87 else code_of c - 55)"

definition xdigits_value :: "string \<Rightarrow> nat" where
  "xdigits_value s = foldl (\<lambda>a c. 16 * a + xdigit_value c) 0 s"

definition scan_prefix :: "string \<Rightarrow> string" where
  "scan_prefix s = (case s of a # x # r \<Rightarrow> if a = CHR ''0'' \<and> (x = CHR ''x'' \<or> x = CHR ''X'') then r else s | _ \<Rightarrow> s)"

definition scan_hex :: "string \<Rightarrow> int option" where
  "scan_hex s =
     (let (sign, r) = scan_sign (dropWhile is_space s); ds = takeWhile is_xdigit (scan_prefix r); v = int (xdigits_value ds)
      in if ds = [] then None
         else Some (signed_take_bit 63 (if v \<ge> 2 ^ 64 then 2 ^ 64 - 1 else sign * v)))"

definition cf_decode_chunk_start :: "string \<Rightarrow> chunked_filter \<Rightarrow> int \<times> filter_event list \<times> chunked_filter" where
  "cf_decode_chunk_start data s =
     (case search crlf data of
        None \<Rightarrow> (0, [], s)
      | Some pos \<Rightarrow> (case scan_hex (c_str (take pos data)) of
            None \<Rightarrow> (- 1, [], s)
          | Some chunksize \<Rightarrow> (int pos + 2, [], s\<lparr>cf_current_chunk_size := chunksize\<rparr>)))"

definition cf_decode_chunk_trailer :: "string \<Rightarrow> chunked_filter \<Rightarrow> int \<times> filter_event list \<times> chunked_filter" where
  "cf_decode_chunk_trailer data s =
     (if length data < 2 then (0, [], s)
      else if take 2 data = crlf then (2, [Filter_Finish []], s)
      else (case search (crlf @ crlf) data of None \<Rightarrow> 0 | Some pos \<Rightarrow> int (length data - pos), [Filter_Process []], s))"

text \<open>
  \<open>decode_chunk_data\<close>: the remaining size is an \<open>int\<close>, cut to 32 bits, and used as an index into the data;
  the sum it is compared with is an \<open>int\<close> too.
\<close>

definition cf_decode_chunk_data :: "string \<Rightarrow> chunked_filter \<Rightarrow> fault + int \<times> filter_event list \<times> chunked_filter" where
  "cf_decode_chunk_data data s =
     (let remaining_size = c_int (cf_current_chunk_size s - cf_received_chunk_size s) in
      if int (length data) \<ge> c_int (remaining_size + 2) then
        (if remaining_size < 0 \<or> int (length data) < remaining_size + 2 then Inl Out_Of_Bounds
         else if take 2 (drop (nat remaining_size) data) \<noteq> crlf then Inr (- 1, [], s)
         else Inr (remaining_size + 2, [Filter_Process (take (nat remaining_size) data)],
           s\<lparr>cf_last_chunk_size := cf_current_chunk_size s, cf_current_chunk_size := - 1, cf_received_chunk_size := 0\<rparr>))
      else if int (length data) < remaining_size then
        Inr (int (length data), [Filter_Process data],
          s\<lparr>cf_received_chunk_size := cf_received_chunk_size s + int (length data)\<rparr>)
      else Inr (0, [], s))"

definition cf_decode_once :: "string \<Rightarrow> chunked_filter \<Rightarrow> fault + int \<times> filter_event list \<times> chunked_filter" where
  "cf_decode_once data s =
     (if cf_current_chunk_size s = 0 then Inr (cf_decode_chunk_trailer data s)
      else if cf_current_chunk_size s > 0 then cf_decode_chunk_data data s
      else Inr (cf_decode_chunk_start data s))"

function cf_loop :: "string \<Rightarrow> chunked_filter \<Rightarrow> fault + filter_event list \<times> chunked_filter" where
  "cf_loop data s =
     (if data = [] then Inr ([], s)
      else case cf_decode_once data s of
          Inl e \<Rightarrow> Inl e
        | Inr (ret, es, s) \<Rightarrow>
            if ret \<le> 0 then Inr (es, s)
            else case cf_loop (drop (nat ret) data) (s\<lparr>cf_received_size := cf_received_size s + ret\<rparr>) of
                Inl e \<Rightarrow> Inl e
              | Inr (fs, s) \<Rightarrow> Inr (es @ fs, s))"
  by pat_completeness auto
termination
  by (relation "measure (\<lambda>(data, _). length data)") auto

declare cf_loop.simps [simp del]

text \<open>\<open>process\<close>: its size is an \<open>int\<close>, so of a buffer of \<open>2^31\<close> bytes or more it sees another size, or none.\<close>

definition cf_process :: "string \<Rightarrow> chunked_filter \<Rightarrow> fault + filter_event list \<times> chunked_filter" where
  "cf_process data s = cf_loop (take (nat (c_int (int (length data)))) data) s"

lemma cf_process_short: "length data < 2 ^ 31 \<Longrightarrow> cf_process data s = cf_loop data s"
  by (simp add: cf_process_def c_int_id)

fun cf_process_all :: "string list \<Rightarrow> chunked_filter \<Rightarrow> fault + filter_event list \<times> chunked_filter" where
  "cf_process_all [] s = Inr ([], s)"
| "cf_process_all (d # ds) s =
     sbind (cf_process d s) (\<lambda>(es, s). sbind (cf_process_all ds s) (\<lambda>(fs, s). Inr (es @ fs, s)))"

subsection \<open>Chunk sizes\<close>

definition xdigit_char :: "nat \<Rightarrow> char" where
  "xdigit_char n = char_of (if n < 10 then 48 + n else 87 + n)"

fun hex_digits :: "nat \<Rightarrow> string" where
  "hex_digits n = (if n < 16 then [xdigit_char n] else hex_digits (n div 16) @ [xdigit_char (n mod 16)])"

declare hex_digits.simps [simp del]

lemma xdigit_char_ok: "n < 16 \<Longrightarrow> is_xdigit (xdigit_char n) \<and> xdigit_value (xdigit_char n) = n"
  by (auto simp: is_xdigit_def xdigit_value_def xdigit_char_def is_digit_def code_of_def)

lemma hex_digits_ok: "list_all is_xdigit (hex_digits n) \<and> hex_digits n \<noteq> [] \<and> xdigits_value (hex_digits n) = n"
proof (induction n rule: hex_digits.induct)
  case (1 n)
  then show ?case
    using xdigit_char_ok[of n] xdigit_char_ok[of "n mod 16"]
    by (subst (1 2 3) hex_digits.simps) (auto simp: xdigits_value_def)
qed

lemma xdigit_plain:
  "is_xdigit c \<Longrightarrow> \<not> is_space c \<and> c \<noteq> CHR ''-'' \<and> c \<noteq> CHR ''+'' \<and> c \<noteq> CHR ''x'' \<and> c \<noteq> CHR ''X'' \<and> c \<noteq> CHR 0x0D \<and> code_of c \<noteq> 0"
  by (auto simp: is_xdigit_def is_digit_def is_space_def code_of_def)

lemma scan_hex_digits:
  assumes "n < 2 ^ 63"
  shows "scan_hex (hex_digits n) = Some (int n)"
proof -
  let ?s = "hex_digits n"
  have x: "list_all is_xdigit ?s" "?s \<noteq> []" "xdigits_value ?s = n" using hex_digits_ok by auto
  have "dropWhile is_space ?s = ?s" "scan_sign ?s = (1, ?s)"
    using x xdigit_plain[of "hd ?s"] by (cases ?s; simp add: scan_sign_def)+
  moreover have "scan_prefix ?s = ?s"
    using x by (auto simp: scan_prefix_def split: list.splits dest: xdigit_plain)
  moreover have t: "takeWhile is_xdigit ?s = ?s" using x by (simp add: list_all_iff)
  moreover have "signed_take_bit 63 (int n) = int n"
    using assms by (intro signed_take_bit_int_eq_self) simp_all
  ultimately show ?thesis using x assms by (simp add: scan_hex_def Let_def t)
qed

lemma hex_digits_line: "no_cr (hex_digits n) \<and> c_str (hex_digits n) = hex_digits n"
proof
  have x: "list_all is_xdigit (hex_digits n)" using hex_digits_ok by simp
  then show "no_cr (hex_digits n)" using xdigit_plain by (auto simp: no_cr_def list_all_iff)
  show "c_str (hex_digits n) = hex_digits n" by (rule c_str_id) (use x xdigit_plain in \<open>auto simp: list_all_iff\<close>)
qed

subsection \<open>Chunks\<close>

lemma sbind_right [simp]: "sbind m Inr = m"
  by (cases m) auto

lemma cf_loop_step:
  assumes "cf_decode_once data s = Inr (ret, es, s')" and "data \<noteq> []" and "0 < ret"
  shows "cf_loop data s = sbind (cf_loop (drop (nat ret) data) (s'\<lparr>cf_received_size := cf_received_size s' + ret\<rparr>))
    (\<lambda>(fs, s). Inr (es @ fs, s))"
  using assms by (subst cf_loop.simps) (auto split: sum.splits)

lemma cf_start:
  assumes "cf_current_chunk_size s < 0" and "n < 2 ^ 63"
  shows "\<exists>s'. cf_loop (hex_digits n @ crlf @ rest) s = cf_loop rest s'
    \<and> cf_current_chunk_size s' = int n \<and> cf_received_chunk_size s' = cf_received_chunk_size s"
proof -
  have "cf_decode_once (hex_digits n @ crlf @ rest) s
      = Inr (int (length (hex_digits n)) + 2, [], s\<lparr>cf_current_chunk_size := int n\<rparr>)"
    using assms hex_digits_line[of n] search_line[of "hex_digits n" rest] scan_hex_digits[OF assms(2)]
    by (simp add: cf_decode_once_def cf_decode_chunk_start_def)
  from cf_loop_step[OF this] show ?thesis
    using hex_digits_ok[of n] by (auto simp: nat_add_distrib crlf_def split: sum.splits)
qed

text \<open>A chunk of which \<open>d1\<close> was seen in an earlier call, up to its end.\<close>

lemma cf_chunk_end:
  assumes "cf_current_chunk_size s = int (length d1 + length d)" and "cf_received_chunk_size s = int (length d1)"
    and "d \<noteq> []" and "length d + 2 < 2 ^ 31"
  shows "\<exists>s'. cf_loop (d @ crlf @ rest) s = sbind (cf_loop rest s') (\<lambda>(fs, s). Inr (Filter_Process d # fs, s))
    \<and> cf_current_chunk_size s' = - 1 \<and> cf_received_chunk_size s' = 0"
proof -
  have r: "c_int (int (length d)) = int (length d)" "c_int (int (length d) + 2) = int (length d) + 2"
    using assms(4) by (simp_all add: c_int_id)
  have pos: "int (length d1) + int (length d) \<noteq> 0" using assms(3) by (simp flip: of_nat_add)
  have "cf_decode_once (d @ crlf @ rest) s = Inr (int (length d) + 2, [Filter_Process d],
      s\<lparr>cf_last_chunk_size := cf_current_chunk_size s, cf_current_chunk_size := - 1, cf_received_chunk_size := 0\<rparr>)"
    using assms r pos by (simp add: cf_decode_once_def cf_decode_chunk_data_def Let_def crlf_def)
  from cf_loop_step[OF this] show ?thesis
    using assms(3) by (auto simp: nat_add_distrib crlf_def)
qed

lemma cf_chunk_part:
  assumes "cf_current_chunk_size s = int n" and "cf_received_chunk_size s = 0" and "d \<noteq> []" and "length d < n" and "n + 2 < 2 ^ 31"
  shows "\<exists>s'. cf_loop d s = Inr ([Filter_Process d], s')
    \<and> cf_current_chunk_size s' = int n \<and> cf_received_chunk_size s' = int (length d)"
proof -
  have r: "c_int (int n) = int n" "c_int (int n + 2) = int n + 2"
    using assms(5) by (simp_all add: c_int_id)
  have "cf_decode_once d s = Inr (int (length d), [Filter_Process d], s\<lparr>cf_received_chunk_size := int (length d)\<rparr>)"
    using assms r by (simp add: cf_decode_once_def cf_decode_chunk_data_def Let_def)
  from cf_loop_step[OF this] show ?thesis
    using assms by (auto simp: cf_loop.simps[of "[]"])
qed

definition encode_chunk :: "string \<Rightarrow> string" where
  "encode_chunk c = hex_digits (length c) @ crlf @ c @ crlf"

definition chunk_ok :: "string \<Rightarrow> bool" where
  "chunk_ok c \<longleftrightarrow> c \<noteq> [] \<and> length c + 2 < 2 ^ 31"

lemma cf_chunks:
  assumes "list_all chunk_ok cs" and "cf_current_chunk_size s = - 1" and "cf_received_chunk_size s = 0"
  shows "\<exists>s'. cf_loop (concat (map encode_chunk cs) @ rest) s
      = sbind (cf_loop rest s') (\<lambda>(fs, s). Inr (map Filter_Process cs @ fs, s))
    \<and> cf_current_chunk_size s' = - 1 \<and> cf_received_chunk_size s' = 0"
  using assms
proof (induction cs arbitrary: s)
  case Nil
  then show ?case by (auto intro!: exI[of _ s])
next
  case (Cons c cs)
  let ?rest = "concat (map encode_chunk cs) @ rest"
  obtain s1 where s1: "cf_loop (hex_digits (length c) @ crlf @ c @ crlf @ ?rest) s = cf_loop (c @ crlf @ ?rest) s1"
      "cf_current_chunk_size s1 = int (length c)" "cf_received_chunk_size s1 = 0"
    using cf_start[of s "length c" "c @ crlf @ ?rest"] Cons.prems by (auto simp: chunk_ok_def)
  obtain s2 where s2: "cf_loop (c @ crlf @ ?rest) s1 = sbind (cf_loop ?rest s2) (\<lambda>(fs, s). Inr (Filter_Process c # fs, s))"
      "cf_current_chunk_size s2 = - 1" "cf_received_chunk_size s2 = 0"
    using cf_chunk_end[of s1 "[]" c ?rest] s1 Cons.prems by (auto simp: chunk_ok_def)
  obtain s3 where s3: "cf_loop ?rest s2 = sbind (cf_loop rest s3) (\<lambda>(fs, s). Inr (map Filter_Process cs @ fs, s))"
      "cf_current_chunk_size s3 = - 1" "cf_received_chunk_size s3 = 0"
    using Cons.IH[of s2] Cons.prems s2 by auto
  have "cf_loop (concat (map encode_chunk (c # cs)) @ rest) s
      = sbind (cf_loop rest s3) (\<lambda>(fs, s). Inr (map Filter_Process (c # cs) @ fs, s))"
    using s1(1) s2(1) s3(1) by (cases "cf_loop rest s3") (auto simp: encode_chunk_def)
  then show ?case using s3 by blast
qed

lemma cf_last_chunk:
  assumes "cf_current_chunk_size s = - 1"
  shows "\<exists>s'. cf_loop (hex_digits 0 @ crlf @ crlf) s = Inr ([Filter_Finish []], s')"
proof -
  obtain s1 where s1: "cf_loop (hex_digits 0 @ crlf @ crlf) s = cf_loop crlf s1" "cf_current_chunk_size s1 = 0"
    using cf_start[of s 0 crlf] assms by auto
  have "cf_decode_once crlf s1 = Inr (2, [Filter_Finish []], s1)"
    using s1(2) by (simp add: cf_decode_once_def cf_decode_chunk_trailer_def)
  from cf_loop_step[OF this] show ?thesis
    unfolding s1(1) by (auto simp: crlf_def cf_loop.simps[of "[]"])
qed

text \<open>A whole body, and a body cut in two inside the data of a chunk.\<close>

lemma cf_whole_body:
  assumes "list_all chunk_ok cs" and "cf_current_chunk_size s0 = - 1" and "cf_received_chunk_size s0 = 0"
  shows "\<exists>s. cf_loop (concat (map encode_chunk cs) @ hex_digits 0 @ crlf @ crlf) s0 = Inr (map Filter_Process cs @ [Filter_Finish []], s)"
  using cf_chunks[OF assms, of "hex_digits 0 @ crlf @ crlf"] cf_last_chunk by fastforce

lemma cf_cut_body:
  assumes "list_all chunk_ok xs" and "list_all chunk_ok ys" and "d1 \<noteq> []" and "d2 \<noteq> []" and "chunk_ok (d1 @ d2)"
    and init: "cf_current_chunk_size s0 = - 1" "cf_received_chunk_size s0 = 0"
  shows "\<exists>t s. cf_loop (concat (map encode_chunk xs) @ hex_digits (length (d1 @ d2)) @ crlf @ d1) s0
      = Inr (map Filter_Process xs @ [Filter_Process d1], t)
    \<and> cf_loop (d2 @ crlf @ concat (map encode_chunk ys) @ hex_digits 0 @ crlf @ crlf) t
      = Inr (Filter_Process d2 # map Filter_Process ys @ [Filter_Finish []], s)"
proof -
  let ?n = "length (d1 @ d2)"
  have n: "?n + 2 < 2 ^ 31" using assms(5) by (simp add: chunk_ok_def)
  obtain s1 where s1: "cf_loop (concat (map encode_chunk xs) @ hex_digits ?n @ crlf @ d1) s0
        = sbind (cf_loop (hex_digits ?n @ crlf @ d1) s1) (\<lambda>(fs, s). Inr (map Filter_Process xs @ fs, s))"
      "cf_current_chunk_size s1 = - 1" "cf_received_chunk_size s1 = 0"
    using cf_chunks[OF assms(1) init, of "hex_digits ?n @ crlf @ d1"] by blast
  obtain s2 where s2: "cf_loop (hex_digits ?n @ crlf @ d1) s1 = cf_loop d1 s2"
      "cf_current_chunk_size s2 = int ?n" "cf_received_chunk_size s2 = 0"
    using cf_start[of s1 ?n d1] s1 n by auto
  have "length d1 < ?n" using assms(4) by simp
  then obtain s3 where s3: "cf_loop d1 s2 = Inr ([Filter_Process d1], s3)" "cf_current_chunk_size s3 = int ?n"
      "cf_received_chunk_size s3 = int (length d1)"
    using cf_chunk_part[OF s2(2,3) assms(3) _ n] by blast
  let ?rest = "concat (map encode_chunk ys) @ hex_digits 0 @ crlf @ crlf"
  obtain s4 where s4: "cf_loop (d2 @ crlf @ ?rest) s3 = sbind (cf_loop ?rest s4) (\<lambda>(fs, s). Inr (Filter_Process d2 # fs, s))"
      "cf_current_chunk_size s4 = - 1" "cf_received_chunk_size s4 = 0"
    using cf_chunk_end[of s3 d1 d2 ?rest] s3 assms(4) n by auto
  show ?thesis using cf_whole_body[OF assms(2) s4(2,3)] s1(1) s2(1) s3(1) s4(1) by auto
qed

text \<open>
  C26. A chunked body is decoded to its chunks, and its end reported once: with the whole body in one call, and also
  when the stream is cut in two inside the data of a chunk, which is then passed on in two pieces. The chunks are
  not empty and at most \<open>2^31 - 3\<close> bytes, and the data of each call are less than \<open>2^31\<close> bytes.
\<close>

theorem chunked_filter_roundtrip:
  assumes "list_all chunk_ok xs" and "list_all chunk_ok ys" and "d1 \<noteq> []" and "d2 \<noteq> []" and "chunk_ok (d1 @ d2)"
    and all: "length (concat (map encode_chunk xs) @ hex_digits 0 @ crlf @ crlf) < 2 ^ 31"
    and first: "length (concat (map encode_chunk xs) @ hex_digits (length (d1 @ d2)) @ crlf @ d1) < 2 ^ 31"
    and second: "length (d2 @ crlf @ concat (map encode_chunk ys) @ hex_digits 0 @ crlf @ crlf) < 2 ^ 31"
  shows "(\<exists>s. cf_process (concat (map encode_chunk xs) @ hex_digits 0 @ crlf @ crlf) cf_reset_state
      = Inr (map Filter_Process xs @ [Filter_Finish []], s))
    \<and> (\<exists>s. cf_process_all [concat (map encode_chunk xs) @ hex_digits (length (d1 @ d2)) @ crlf @ d1,
          d2 @ crlf @ concat (map encode_chunk ys) @ hex_digits 0 @ crlf @ crlf] cf_reset_state
      = Inr (map Filter_Process xs @ [Filter_Process d1, Filter_Process d2] @ map Filter_Process ys @ [Filter_Finish []], s))"
proof (intro conjI)
  have init: "cf_current_chunk_size cf_reset_state = - 1" "cf_received_chunk_size cf_reset_state = 0"
    by (simp_all add: cf_reset_state_def)
  show "\<exists>s. cf_process (concat (map encode_chunk xs) @ hex_digits 0 @ crlf @ crlf) cf_reset_state
      = Inr (map Filter_Process xs @ [Filter_Finish []], s)"
    unfolding cf_process_short[OF all] by (rule cf_whole_body[OF assms(1) init])
  show "\<exists>s. cf_process_all [concat (map encode_chunk xs) @ hex_digits (length (d1 @ d2)) @ crlf @ d1,
          d2 @ crlf @ concat (map encode_chunk ys) @ hex_digits 0 @ crlf @ crlf] cf_reset_state
      = Inr (map Filter_Process xs @ [Filter_Process d1, Filter_Process d2] @ map Filter_Process ys @ [Filter_Finish []], s)"
    using cf_cut_body[OF assms(1,2,3,4,5) init]
    by (auto simp: cf_process_short[OF first] cf_process_short[OF second] simp del: length_append)
qed

theorem chunked_filter_roundtrip_witness:
  "\<exists>s. cf_process_all [''3'' @ crlf @ ''abc'' @ crlf @ ''5'' @ crlf @ ''de'', ''fgh'' @ crlf @ ''0'' @ crlf @ crlf] cf_reset_state
     = Inr ([Filter_Process ''abc'', Filter_Process ''de'', Filter_Process ''fgh'', Filter_Finish []], s)"
proof -
  have "encode_chunk ''abc'' = ''3'' @ crlf @ ''abc'' @ crlf" "hex_digits (length (''de'' @ ''fgh'')) = ''5''" "hex_digits 0 = ''0''"
    by code_simp+
  then show ?thesis
    using chunked_filter_roundtrip[of "[''abc'']" "[]" "''de''" "''fgh''"] by (simp add: chunk_ok_def crlf_def)
qed

text \<open>
  Where the filter fails: a call that ends right behind the data of a chunk drops this data, without an event and
  without an error; and a chunk size of \<open>2^31 - 2\<close> up to \<open>2^32\<close> sent by a peer, followed by any byte, makes
  it read outside the buffer.
\<close>

theorem chunked_filter_failures:
  assumes "chunk_ok c" and "d \<noteq> []" and "2 ^ 31 - 2 \<le> n" and "n < 2 ^ 32"
    and first: "length (hex_digits (length c) @ crlf @ c) < 2 ^ 31" and second: "length (hex_digits n @ crlf @ d) < 2 ^ 31"
  shows "(\<exists>s. cf_process (hex_digits (length c) @ crlf @ c) cf_reset_state = Inr ([], s) \<and> cf_received_chunk_size s = 0)
    \<and> cf_process (hex_digits n @ crlf @ d) cf_reset_state = Inl Out_Of_Bounds"
proof
  have init: "cf_current_chunk_size cf_reset_state < 0" "cf_received_chunk_size cf_reset_state = 0"
    by (simp_all add: cf_reset_state_def)
  obtain s where s: "cf_loop (hex_digits (length c) @ crlf @ c) cf_reset_state = cf_loop c s"
      "cf_current_chunk_size s = int (length c)" "cf_received_chunk_size s = 0"
    using cf_start[OF init(1), of "length c" c] assms(1) init(2) by (auto simp: chunk_ok_def)
  have "c_int (int (length c)) = int (length c)" "c_int (int (length c) + 2) = int (length c) + 2"
    using assms(1) by (simp_all add: chunk_ok_def c_int_id)
  then have "cf_decode_once c s = Inr (0, [], s)"
    using s assms(1) by (simp add: cf_decode_once_def cf_decode_chunk_data_def Let_def chunk_ok_def)
  then have "cf_loop c s = Inr ([], s)" by (subst cf_loop.simps) simp
  then show "\<exists>s. cf_process (hex_digits (length c) @ crlf @ c) cf_reset_state = Inr ([], s) \<and> cf_received_chunk_size s = 0"
    unfolding cf_process_short[OF first] using s by auto
  obtain t where t: "cf_loop (hex_digits n @ crlf @ d) cf_reset_state = cf_loop d t"
      "cf_current_chunk_size t = int n" "cf_received_chunk_size t = 0"
    using cf_start[OF init(1), of n d] assms(4) init(2) by auto
  have d: "length d < 2 ^ 31" "1 \<le> int (length d)" using second assms(2) by (simp, cases d) simp_all
  have "cf_decode_once d t = Inl Out_Of_Bounds"
  proof (cases "n < 2 ^ 31")
    case True
    have "c_int (int n) = int n" using True by (simp add: c_int_id)
    moreover have "c_int (int n + 2) = int n + 2 - 2 ^ 32" using True assms(3) by (intro c_int_shift) simp_all
    ultimately show ?thesis using t True d assms(3)
      by (simp add: cf_decode_once_def cf_decode_chunk_data_def Let_def)
  next
    case False
    have "c_int (int n) = int n - 2 ^ 32" using False assms(4) by (intro c_int_shift) simp_all
    moreover have "c_int (int n - 2 ^ 32 + 2) = int n - 2 ^ 32 + 2" using False assms(4) by (intro c_int_id) simp_all
    ultimately show ?thesis using t False d assms(4)
      by (simp add: cf_decode_once_def cf_decode_chunk_data_def Let_def)
  qed
  then show "cf_process (hex_digits n @ crlf @ d) cf_reset_state = Inl Out_Of_Bounds"
    unfolding cf_process_short[OF second] t(1) using assms(2) by (subst cf_loop.simps) simp
qed

theorem chunked_filter_failures_witness:
  "(\<exists>s. cf_process (hex_digits 3 @ crlf @ ''abc'') cf_reset_state = Inr ([], s) \<and> cf_received_chunk_size s = 0)
   \<and> cf_process (hex_digits 2147483648 @ crlf @ ''x'') cf_reset_state = Inl Out_Of_Bounds"
proof -
  have "length (hex_digits 3) = 1" "hex_digits 2147483648 = ''80000000''"
    by (simp_all add: hex_digits.simps xdigit_char_def) code_simp
  then show ?thesis
    using chunked_filter_failures[of "''abc''" "''x''" 2147483648] by (simp add: chunk_ok_def numeral_3_eq_3 crlf_def)
qed

end
