(* ===== verification/Http_Ranges.thy ===== *)
theory Http_Ranges
  imports Http_Message
begin

text \<open>
  Byte ranges: \<^verbatim>\<open>include/xul/net/http/http_range.hpp\<close>, \<^verbatim>\<open>http_content_range.hpp\<close> and the header functions of
  \<^verbatim>\<open>include/xul/net/url_messages.hpp\<close>. Two texts are printed with conversions that C does not define for their arguments
  (an unknown conversion \<open>%b\<close>, and \<open>%d\<close> for a 64 bit value): they are parameters.
\<close>

subsection \<open>http_range\<close>

record http_range =
  hr_start :: int
  hr_end :: int

definition hr_clear :: http_range where
  "hr_clear = \<lparr>hr_start = - 1, hr_end = - 1\<rparr>"

definition hr_is_valid :: "http_range \<Rightarrow> bool" where
  "hr_is_valid r = (hr_start r \<ge> 0 \<or> hr_end r \<ge> 0)"

definition hr_get_length :: "http_range \<Rightarrow> int" where
  "hr_get_length r = (if hr_start r < 0 \<or> hr_end r < 0 then - 1 else hr_end r - hr_start r + 1)"

definition hr_get_real_start :: "http_range \<Rightarrow> int" where
  "hr_get_real_start r = (if hr_start r \<ge> 0 then hr_start r else 0)"

definition hr_str :: "http_range \<Rightarrow> string" where
  "hr_str r =
     (if hr_start r < 0 then (if hr_end r < 0 then ''bytes=-'' else ''bytes=-'' @ numerics_format (hr_end r))
      else if hr_end r < 0 then ''bytes='' @ numerics_format (hr_start r) @ ''-''
      else ''bytes='' @ numerics_format (hr_start r) @ ''-'' @ numerics_format (hr_end r))"

definition hr_parse :: "string \<Rightarrow> http_range \<Rightarrow> bool \<times> http_range" where
  "hr_parse s r =
     (let (k, v) = split_pair_char s (CHR ''='') in
      if k = [] \<or> v = [] then (False, r)
      else if k \<noteq> ''bytes'' then (False, r)
      else let (a, b) = split_pair_char v (CHR ''-'')
           in (True, \<lparr>hr_start = numerics_parse a (- 1), hr_end = numerics_parse b (- 1)\<rparr>))"

subsection \<open>http_content_range\<close>

record http_content_range =
  cr_start :: int
  cr_end :: int
  cr_total_size :: int

definition cr_reset :: http_content_range where
  "cr_reset = \<lparr>cr_start = - 1, cr_end = - 1, cr_total_size = - 1\<rparr>"

definition cr_get_length :: "http_content_range \<Rightarrow> int" where
  "cr_get_length r = (if cr_start r < 0 \<or> cr_end r < 0 then - 1 else cr_end r - cr_start r + 1)"

definition cr_parse :: "string \<Rightarrow> http_content_range \<Rightarrow> bool \<times> http_content_range" where
  "cr_parse s r =
     (let (k, v) = split_pair_char s (CHR '' '') in
      if k = [] \<or> v = [] then (False, r)
      else if k \<noteq> ''bytes'' then (False, r)
      else let (rng, total) = split_pair_char v (CHR ''/''); total_size = numerics_parse total (- 1) in
        if rng = ''*'' then (True, \<lparr>cr_start = - 1, cr_end = - 1, cr_total_size = total_size\<rparr>)
        else let (a, b) = split_pair_char total (CHR ''-'')
             in (True, \<lparr>cr_start = numerics_parse a (- 1), cr_end = numerics_parse a (- 1), cr_total_size = total_size\<rparr>))"

subsection \<open>url_messages\<close>

definition rs_get_header :: "string \<Rightarrow> http_response \<Rightarrow> string" where
  "rs_get_header name r = sa_get string_iequal_to name [] (hm_headers (rs_message r))"

definition get_content_length :: "http_response \<Rightarrow> int" where
  "get_content_length r = numerics_parse (rs_get_header ''Content-Length'' r) (- 1)"

definition is_chunked :: "http_response \<Rightarrow> bool" where
  "is_chunked r = (rs_get_header ''Transfer-Encoding'' r = ''chunked'')"

definition get_content_range :: "http_response \<Rightarrow> http_content_range \<Rightarrow> bool \<times> http_content_range" where
  "get_content_range r rng =
     (let (ok, temp) = cr_parse (rs_get_header ''Content-Range'' r) cr_reset in if \<not> ok then (False, rng) else (True, temp))"

definition get_total_size :: "http_response \<Rightarrow> int" where
  "get_total_size r =
     (let content_length = get_content_length r; (ok, rng) = get_content_range r cr_reset
      in if ok \<and> cr_total_size rng \<ge> 0 then cr_total_size rng else content_length)"

definition set_chunked :: "http_response \<Rightarrow> http_response" where
  "set_chunked r = rs_set_header ''Transfer-Encoding'' ''chunked''
     (r\<lparr>rs_message := (rs_message r)\<lparr>hm_protocol_version := ''1.1''\<rparr>\<rparr>)"

definition set_content_length :: "int \<Rightarrow> http_response \<Rightarrow> http_response" where
  "set_content_length n r = rs_set_header ''Content-Length'' (numerics_format n) r"

definition set_content_type :: "string \<Rightarrow> http_response \<Rightarrow> http_response" where
  "set_content_type t r = rs_set_header ''Content-Type'' t r"

definition init_response :: "int \<Rightarrow> int \<Rightarrow> string \<Rightarrow> http_response \<Rightarrow> http_response" where
  "init_response status_code content_length content_type r =
     (let r = rs_set_status_code status_code r;
          r = (if content_length \<ge> 0 then set_content_length content_length r else r)
      in set_content_type content_type r)"

definition set_range :: "int \<Rightarrow> int \<Rightarrow> http_response \<Rightarrow> http_response" where
  "set_range pos len r =
     (let rng = \<lparr>hr_start = pos, hr_end = - 1\<rparr>;
          rng = (if len > 0 then rng\<lparr>hr_end := hr_start rng + len - 1\<rparr> else rng)
      in rs_set_header ''Range'' (hr_str rng) r)"

definition set_total_size ::
    "(http_content_range \<Rightarrow> string) \<Rightarrow> (int \<Rightarrow> string) \<Rightarrow> http_range \<Rightarrow> int \<Rightarrow> http_response \<Rightarrow> int \<times> http_response" where
  "set_total_size content_range_str unsatisfied_str rng total_size r =
     (let (content_length, r) =
        (if hr_is_valid rng then
           if total_size < 0 \<and> hr_start rng \<le> 0 then (total_size, rs_set_status_code 200 r)
           else if hr_start rng \<ge> total_size then
             (0, rs_set_header ''Content-Range'' (unsatisfied_str total_size) (rs_set_status_code 416 r))
           else
             let r = rs_set_status_code 206 r;
                 content_length = (if hr_get_length rng \<ge> 0 \<and> hr_end rng < total_size then hr_get_length rng
                   else total_size - hr_get_real_start rng);
                 cr = \<lparr>cr_start = hr_start rng,
                   cr_end = (if hr_end rng < 0 then total_size - 1 else hr_end rng), cr_total_size = total_size\<rparr>
             in (content_length, rs_set_header ''Content-Range'' (content_range_str cr) r)
         else (total_size, rs_set_status_code 200 r))
      in (content_length, if content_length \<ge> 0 then set_content_length content_length r else r))"

subsection \<open>Parsing and printing\<close>

lemma numerics_parse_format: "numerics_parse (numerics_format v) d = v"
  using try_parse_format[of "[]" v] by (simp add: numerics_parse_def)

lemma format_no_dash: "0 \<le> v \<Longrightarrow> CHR ''-'' \<notin> set (numerics_format v)"
  using dec_digits_ok[of "nat v"] by (auto simp: numerics_format_def list_all_iff dest: digit_plain)

lemma format_no_sep: "0 \<le> v \<Longrightarrow> c \<in> set (numerics_format v) \<Longrightarrow> is_digit c"
  using dec_digits_ok[of "nat v"] by (auto simp: numerics_format_def list_all_iff)

lemma numerics_parse_empty: "numerics_parse [] d = d"
  by (simp add: numerics_parse_def numerics_try_parse_def scan_sign_def)

lemma hr_parse_str:
  assumes "- 1 \<le> hr_start r" and "- 1 \<le> hr_end r"
  shows "hr_parse (hr_str r) r0 = (True, r)"
proof -
  define a where "a = (if hr_start r < 0 then [] else numerics_format (hr_start r))"
  define b where "b = (if hr_end r < 0 then [] else numerics_format (hr_end r))"
  have str: "hr_str r = ''bytes'' @ CHR ''='' # (a @ CHR ''-'' # b)" by (simp add: hr_str_def a_def b_def)
  have "CHR ''-'' \<notin> set a" using format_no_dash by (simp add: a_def)
  then have split: "split_pair_char (a @ CHR ''-'' # b) (CHR ''-'') = (a, b)" by (rule split_pair_char_app)
  have "split_pair_char (hr_str r) (CHR ''='') = (''bytes'', a @ CHR ''-'' # b)"
    unfolding str by (rule split_pair_char_app) simp
  then show ?thesis
    using assms split by (simp add: hr_parse_def a_def b_def numerics_parse_format numerics_parse_empty)
qed

lemma cr_parse_text:
  assumes "0 \<le> a" and "0 \<le> b" and "0 \<le> t"
  shows "cr_parse (''bytes '' @ numerics_format a @ ''-'' @ numerics_format b @ ''/'' @ numerics_format t) r0
    = (True, \<lparr>cr_start = t, cr_end = t, cr_total_size = t\<rparr>)"
proof -
  let ?x = "numerics_format a @ ''-'' @ numerics_format b" and ?t = "numerics_format t"
  have no: "CHR ''/'' \<notin> set ?x" using assms format_no_sep by (auto simp: is_digit_def code_of_def dest!: format_no_sep)
  have 1: "split_pair_char (''bytes'' @ CHR '' '' # ?x @ CHR ''/'' # ?t) (CHR '' '') = (''bytes'', ?x @ CHR ''/'' # ?t)"
    by (rule split_pair_char_app) simp
  have 2: "split_pair_char (?x @ CHR ''/'' # ?t) (CHR ''/'') = (?x, ?t)" by (rule split_pair_char_app[OF no])
  have "find_index (\<lambda>c. c = CHR ''-'') ?t = None" using format_no_dash[OF assms(3)] by (auto simp: find_index_None list_all_iff)
  then have 3: "split_pair_char ?t (CHR ''-'') = (?t, [])" by (simp add: split_pair_char_def find_char_def find_if_from_def)
  have "?x \<noteq> ''*''" by (cases "numerics_format a") auto
  then show ?thesis
    using 1 2 3 by (simp add: cr_parse_def numerics_parse_format Let_def)
qed

text \<open>
  A range that was printed is parsed back, open ends included; but the parser of content ranges reads the total size
  in place of both ends.
\<close>

theorem http_range_roundtrip:
  "(- 1 \<le> hr_start r \<and> - 1 \<le> hr_end r \<longrightarrow> hr_parse (hr_str r) r0 = (True, r))
   \<and> (0 \<le> a \<and> 0 \<le> b \<and> 0 \<le> t \<longrightarrow>
        cr_parse (''bytes '' @ numerics_format a @ ''-'' @ numerics_format b @ ''/'' @ numerics_format t) c0
          = (True, \<lparr>cr_start = t, cr_end = t, cr_total_size = t\<rparr>))"
  using hr_parse_str cr_parse_text by blast

theorem http_range_roundtrip_witness:
  "hr_parse (hr_str \<lparr>hr_start = 5, hr_end = - 1\<rparr>) hr_clear = (True, \<lparr>hr_start = 5, hr_end = - 1\<rparr>)
   \<and> snd (cr_parse (''bytes '' @ numerics_format 0 @ ''-'' @ numerics_format 9 @ ''/'' @ numerics_format 100) cr_reset)
     = \<lparr>cr_start = 100, cr_end = 100, cr_total_size = 100\<rparr>"
  using http_range_roundtrip[of "\<lparr>hr_start = 5, hr_end = - 1\<rparr>" hr_clear 0 9 100 cr_reset] by simp

subsection \<open>Responses to range requests\<close>

lemma content_length_set: "get_content_length (set_content_length n r) = n"
  by (simp add: get_content_length_def set_content_length_def rs_get_header_def rs_set_header_def hm_set_header_def
      ikey.get_lookup ikey.lookup_set ikey.cmp_refl numerics_parse_format)

lemma status_set_header: "rs_status_code (rs_set_header k v r) = rs_status_code r"
    "rs_status_code (set_content_length n r) = rs_status_code r" "rs_status_code (rs_set_status_code c r) = c"
  by (simp_all add: rs_set_header_def set_content_length_def rs_set_status_code_def Let_def)

text \<open>The bytes a range with a start selects.\<close>

definition selected :: "http_range \<Rightarrow> 'a list \<Rightarrow> 'a list" where
  "selected rng content =
     (let rest = drop (nat (hr_start rng)) content
      in if hr_end rng < 0 then rest else take (nat (hr_end rng - hr_start rng + 1)) rest)"

text \<open>
  The answer to a range request for content of a known size: the content length is the number of bytes the range
  selects, also when its end lies behind the content, the status tells whether there are any, and the
  length can be read back from the headers; without a range the whole content is announced. A suffix range, which
  has no start, is answered with the length of the whole content.
\<close>

theorem range_response_length:
  assumes "set_total_size f g rng (int (length content)) r = (n, r')"
  shows "(0 \<le> hr_start rng \<and> (hr_end rng = - 1 \<or> hr_start rng \<le> hr_end rng) \<longrightarrow>
      n = int (length (selected rng content)) \<and> get_content_length r' = n
      \<and> rs_status_code r' = (if selected rng content = [] then 416 else 206))
    \<and> (hr_start rng < 0 \<and> hr_end rng < 0 \<longrightarrow>
      n = int (length content) \<and> get_content_length r' = n \<and> rs_status_code r' = 200)
    \<and> (hr_start rng < 0 \<and> 0 \<le> hr_end rng \<longrightarrow> n = int (length content) \<and> rs_status_code r' = 206)"
proof (intro conjI impI)
  assume a: "0 \<le> hr_start rng \<and> (hr_end rng = - 1 \<or> hr_start rng \<le> hr_end rng)"
  show "n = int (length (selected rng content))"
    using assms a by (auto simp: set_total_size_def hr_is_valid_def hr_get_length_def hr_get_real_start_def selected_def Let_def min_def
        split: if_splits)
  show "get_content_length r' = n"
    using assms a by (auto simp: set_total_size_def hr_is_valid_def hr_get_length_def hr_get_real_start_def Let_def content_length_set
        split: if_splits)
  show "rs_status_code r' = (if selected rng content = [] then 416 else 206)"
    using assms a by (auto simp: set_total_size_def hr_is_valid_def selected_def Let_def status_set_header split: if_splits)
qed (use assms in \<open>auto simp: set_total_size_def hr_is_valid_def hr_get_length_def hr_get_real_start_def Let_def
      content_length_set status_set_header split: if_splits\<close>)

theorem range_response_length_witness:
  "fst (set_total_size (\<lambda>_. ''x'') (\<lambda>_. ''y'') \<lparr>hr_start = 2, hr_end = 3\<rparr> (int (length ''abcdef'')) rs_new) = 2"
proof -
  obtain n r' where e: "set_total_size (\<lambda>_. ''x'') (\<lambda>_. ''y'') \<lparr>hr_start = 2, hr_end = 3\<rparr> (int (length ''abcdef'')) rs_new = (n, r')"
    by fastforce
  then show ?thesis using range_response_length[OF e] by (simp add: selected_def)
qed

end
