(* ===== verification/Sha1.thy ===== *)
theory Sha1
  imports Bit_Converter
begin

text \<open>
  The SHA-1 hash of \<open>hash/sha1.hpp\<close> and the class \<open>hasher\<close> of \<open>hash/hasher.hpp\<close> over it.

  The code works in place: sixteen words of the block serve as a ring for the message schedule,
  the five registers never move but the macros name them in a rotated order, and the block is
  read in the byte order of the host. The standard (FIPS 180-4) has eighty schedule words, five
  registers that shift and big endian words. The theorems: the in-place transform is the
  compression function of the standard on hosts of both byte orders, and a hasher fed in any
  pieces gives the hash of the padded message.
\<close>

subsection \<open>The transform of the code\<close>

definition rol :: "u32 \<Rightarrow> nat \<Rightarrow> u32" where
  "rol val bits = push_bit bits val OR drop_bit (32 - bits) val"

definition little_endian_blk0 :: "u32 list \<Rightarrow> nat \<Rightarrow> u32 list" where
  "little_endian_blk0 l i =
     l[i := (rol (l ! i) 24 AND 0xFF00FF00) OR (rol (l ! i) 8 AND 0x00FF00FF)]"

definition big_endian_blk0 :: "u32 list \<Rightarrow> nat \<Rightarrow> u32 list" where
  "big_endian_blk0 l i = l"

definition blk :: "u32 list \<Rightarrow> nat \<Rightarrow> u32 list" where
  "blk l i =
     l[i mod 16 := rol (l ! ((i + 13) mod 16) XOR l ! ((i + 8) mod 16)
                        XOR l ! ((i + 2) mod 16) XOR l ! (i mod 16)) 1]"

text \<open>
  The macros \<open>R0\<close> to \<open>R4\<close>: the round function of the registers w, x, y and the constant. The
  first macro reads the block through \<open>blk0\<close>, the others through \<open>blk\<close>. Round \<open>i\<close> passes the
  registers \<open>a..e\<close> rotated to the right \<open>i\<close> times.
\<close>

definition round_fun :: "nat \<Rightarrow> u32 \<Rightarrow> u32 \<Rightarrow> u32 \<Rightarrow> u32" where
  "round_fun i w x y =
     (if i < 20 then (w AND (x XOR y)) XOR y
      else if i < 40 then w XOR x XOR y
      else if i < 60 then ((w OR x) AND y) OR (w AND x)
      else w XOR x XOR y)"

definition round_const :: "nat \<Rightarrow> u32" where
  "round_const i =
     (if i < 20 then 0x5A827999 else if i < 40 then 0x6ED9EBA1
      else if i < 60 then 0x8F1BBCDC else 0xCA62C1D6)"

definition register :: "nat \<Rightarrow> nat \<Rightarrow> nat" where
  "register i j = (j + 4 * i) mod 5"

definition sha_round :: "bool \<Rightarrow> nat \<Rightarrow> u32 list \<times> u32 list \<Rightarrow> u32 list \<times> u32 list" where
  "sha_round host i s =
     (let regs = fst s; v = register i 0; w = register i 1; x = register i 2; y = register i 3;
          z = register i 4;
          block = (if i < 16 then (if host then big_endian_blk0 (snd s) i else little_endian_blk0 (snd s) i)
                   else blk (snd s) i);
          regs = regs[z := regs ! z + (round_fun i (regs ! w) (regs ! x) (regs ! y)
                                       + block ! (i mod 16) + round_const i + rol (regs ! v) 5)];
          regs = regs[w := rol (regs ! w) 30]
      in (regs, block))"

definition load_block :: "bool \<Rightarrow> bytes \<Rightarrow> u32 list" where
  "load_block host data = map (\<lambda>i. to_dword host (take 4 (drop (4 * i) data))) [0..<16]"

text \<open>\<open>SHA1Transform\<close> on a host that is big endian (\<open>host\<close>) or little endian.\<close>

definition sha1_transform :: "bool \<Rightarrow> u32 list \<Rightarrow> bytes \<Rightarrow> u32 list" where
  "sha1_transform host state data =
     map2 (+) state (fst (fold (sha_round host) [0..<80] (state, load_block host data)))"

subsection \<open>The context\<close>

record sha_ctx =
  sha_state :: "u32 list"
  sha_count0 :: u32
  sha_count1 :: u32
  sha_buffer :: bytes

definition sha1_init :: "bytes \<Rightarrow> sha_ctx" where
  "sha1_init junk =
     \<lparr>sha_state = [0x67452301, 0xEFCDAB89, 0x98BADCFE, 0x10325476, 0xC3D2E1F0],
      sha_count0 = 0, sha_count1 = 0, sha_buffer = junk\<rparr>"

text \<open>
  The loop of \<open>internal_update\<close> over whole blocks of the data, the index and the length 32 bits
  wide: the state and the index it ends with. Reading a block outside the data is a fault. The
  fuel bounds the number of blocks.
\<close>

fun update_blocks :: "bool \<Rightarrow> nat \<Rightarrow> u32 list \<Rightarrow> bytes \<Rightarrow> u32 \<Rightarrow> u32 \<Rightarrow> fault + u32 list \<times> u32" where
  "update_blocks host 0 st data len i = Inl Out_Of_Fuel"
| "update_blocks host (Suc n) st data len i =
     (if i + 63 < len then
        if unat i + 64 \<le> length data then
          update_blocks host n (sha1_transform host st (take 64 (drop (unat i) data))) data len (i + 64)
        else Inl Out_Of_Bounds
      else Inr (st, i))"

definition store_bytes :: "bytes \<Rightarrow> nat \<Rightarrow> bytes \<Rightarrow> fault + bytes" where
  "store_bytes buf j d =
     (if j + length d \<le> length buf then Inr (take j buf @ d @ drop (j + length d) buf)
      else Inl Out_Of_Bounds)"

definition copy_bytes :: "bytes \<Rightarrow> nat \<Rightarrow> nat \<Rightarrow> fault + bytes" where
  "copy_bytes data i n = (if i + n \<le> length data then Inr (take n (drop i data)) else Inl Out_Of_Bounds)"

definition internal_update :: "bool \<Rightarrow> sha_ctx \<Rightarrow> bytes \<Rightarrow> u32 \<Rightarrow> fault + sha_ctx" where
  "internal_update host c data len =
     (let j = drop_bit 3 (sha_count0 c) AND 63;
          count0 = sha_count0 c + push_bit 3 len;
          count1 = sha_count1 c + (if count0 < push_bit 3 len then 1 else 0) + drop_bit 29 len;
          c = c\<lparr>sha_count0 := count0, sha_count1 := count1\<rparr>
      in sbind
           (if j + len > 63 then
              sbind (copy_bytes data 0 (unat (64 - j))) (\<lambda>head.
              sbind (store_bytes (sha_buffer c) (unat j) head) (\<lambda>buf.
              sbind (update_blocks host (Suc (length data div 64)) (sha1_transform host (sha_state c) buf) data len (64 - j)) (\<lambda>(st, i).
                Inr (c\<lparr>sha_state := st, sha_buffer := buf\<rparr>, 0, i))))
            else Inr (c, j, 0))
           (\<lambda>(c, j, i).
              sbind (copy_bytes data (unat i) (unat (len - i))) (\<lambda>tail.
              sbind (store_bytes (sha_buffer c) (unat j) tail) (\<lambda>buf.
                Inr (c\<lparr>sha_buffer := buf\<rparr>)))))"

definition sha1_update :: "bool \<Rightarrow> sha_ctx \<Rightarrow> bytes \<Rightarrow> u32 \<Rightarrow> fault + sha_ctx" where
  "sha1_update host c data len =
     (if host then internal_update True c data len else internal_update False c data len)"

text \<open>The padding loop of \<open>SHA1_Final\<close>: one zero byte at a time.\<close>

fun pad_zeros :: "bool \<Rightarrow> nat \<Rightarrow> sha_ctx \<Rightarrow> fault + sha_ctx" where
  "pad_zeros host 0 c = Inl Out_Of_Fuel"
| "pad_zeros host (Suc n) c =
     (if sha_count0 c AND 504 \<noteq> 448
      then sbind (sha1_update host c [0] 1) (pad_zeros host n) else Inr c)"

definition word_byte :: "u32 \<Rightarrow> nat \<Rightarrow> u8" where
  "word_byte w i = ucast (drop_bit ((3 - i mod 4) * 8) w AND 255)"

definition sha1_final :: "bool \<Rightarrow> sha_ctx \<Rightarrow> fault + bytes" where
  "sha1_final host c =
     (let finalcount = map (\<lambda>i. word_byte (if i \<ge> 4 then sha_count0 c else sha_count1 c) i) [0..<8]
      in sbind (sha1_update host c [128] 1) (\<lambda>c.
         sbind (pad_zeros host 65 c) (\<lambda>c.
         sbind (sha1_update host c finalcount 8) (\<lambda>c.
           Inr (map (\<lambda>i. word_byte (sha_state c ! (i div 4)) i) [0..<20])))))"

subsection \<open>The class hasher\<close>

text \<open>The length is a C++ \<open>int\<close>; the assertion that it is positive is a fault.\<close>

definition hasher_update :: "bool \<Rightarrow> sha_ctx \<Rightarrow> bytes \<Rightarrow> fault + sha_ctx" where
  "hasher_update host c data =
     (if data \<noteq> [] then sha1_update host c data (of_nat (length data)) else Inl Logic_Error)"

definition hasher_new :: "bool \<Rightarrow> bytes \<Rightarrow> bytes \<Rightarrow> fault + sha_ctx" where
  "hasher_new host junk data = hasher_update host (sha1_init junk) data"

definition hasher_hash :: "bool \<Rightarrow> bytes \<Rightarrow> bytes \<Rightarrow> fault + bytes" where
  "hasher_hash host junk data = sbind (hasher_new host junk data) (sha1_final host)"

subsection \<open>The standard\<close>

function fips_w :: "u32 list \<Rightarrow> nat \<Rightarrow> u32" where
  "fips_w m t =
     (if t < 16 then m ! t
      else rol (fips_w m (t - 3) XOR fips_w m (t - 8) XOR fips_w m (t - 14) XOR fips_w m (t - 16)) 1)"
  by pat_completeness auto
termination by (relation "measure snd") auto

declare fips_w.simps [simp del]

definition fips_f :: "nat \<Rightarrow> u32 \<Rightarrow> u32 \<Rightarrow> u32 \<Rightarrow> u32" where
  "fips_f t x y z =
     (if t < 20 then (x AND y) XOR (NOT x AND z)
      else if 40 \<le> t \<and> t < 60 then (x AND y) XOR (x AND z) XOR (y AND z)
      else x XOR y XOR z)"

fun fips_step :: "u32 list \<Rightarrow> nat \<Rightarrow> u32 \<times> u32 \<times> u32 \<times> u32 \<times> u32 \<Rightarrow> u32 \<times> u32 \<times> u32 \<times> u32 \<times> u32" where
  "fips_step m t (a, b, c, d, e) =
     (rol a 5 + fips_f t b c d + e + round_const t + fips_w m t, a, rol b 30, c, d)"

definition fips_compress :: "u32 list \<Rightarrow> bytes \<Rightarrow> u32 list" where
  "fips_compress h block =
     (let (a, b, c, d, e) = fold (fips_step (load_block True block)) [0..<80]
                              (h ! 0, h ! 1, h ! 2, h ! 3, h ! 4)
      in map2 (+) h [a, b, c, d, e])"

subsection \<open>The transform is the compression function\<close>

lemma blk0_reverse: "(rol v 24 AND 0xFF00FF00) OR (rol v 8 AND 0x00FF00FF) = reverse_dword v"
proof -
  have masks: "(0xFF00FF00 :: u32) = push_bit 24 (mask 8) OR push_bit 8 (mask 8)"
    "(0x00FF00FF :: u32) = push_bit 16 (mask 8) OR mask 8"
    by (simp_all add: mask_eq_exp_minus_1 push_bit_eq_mult)
  show ?thesis
  proof (rule bit_word_eqI)
    fix n assume n: "n < LENGTH(32)"
    then have "n < 64" by simp
    with n show "bit ((rol v 24 AND 0xFF00FF00) OR (rol v 8 AND 0x00FF00FF)) n = bit (reverse_dword v) n"
      unfolding masks reverse_dword_def byte_masks rol_def
      by - (drule octet_cases, elim disjE; simp add: octet_simps)
  qed
qed

lemma round_fun_fips: "round_fun t x y z = fips_f t x y z"
  unfolding round_fun_def fips_f_def by (auto simp: bit_eq_iff bit_simps)

text \<open>The five registers as round \<open>i\<close> names them.\<close>

definition rotated :: "nat \<Rightarrow> u32 list \<Rightarrow> u32 \<times> u32 \<times> u32 \<times> u32 \<times> u32" where
  "rotated i regs = (regs ! register i 0, regs ! register i 1, regs ! register i 2,
                     regs ! register i 3, regs ! register i 4)"

definition next_block :: "bool \<Rightarrow> nat \<Rightarrow> u32 list \<Rightarrow> u32 list" where
  "next_block host i l =
     (if i < 16 then (if host then big_endian_blk0 l i else little_endian_blk0 l i) else blk l i)"

lemma register_mod: "register (5 * q + r) j = (j + 4 * r) mod 5"
proof -
  have "j + 4 * (5 * q + r) = (j + 4 * r) + 5 * (4 * q)" by simp
  then show ?thesis unfolding register_def by (metis mod_mult_self2)
qed

lemma register_next: "register (Suc i) 0 = register i 4" "register (Suc i) (Suc j) = register i j"
proof -
  have "4 * Suc i = 4 + 4 * i" "Suc j + 4 * Suc i = (j + 4 * i) + 5" by simp_all
  then show "register (Suc i) 0 = register i 4" "register (Suc i) (Suc j) = register i j"
    unfolding register_def by (simp_all only: add.left_neutral mod_add_self2)
qed

lemma register_steps:
  "register (Suc i) (Suc 0) = register i 0" "register (Suc i) 2 = register i 1"
  "register (Suc i) 3 = register i 2" "register (Suc i) 4 = register i 3"
  using register_next(2)[of i] by (simp_all add: eval_nat_numeral)

lemma register_less: "register i j < 5"
  by (simp add: register_def)

lemma register_distinct: "j < 5 \<Longrightarrow> k < 5 \<Longrightarrow> register i j = register i k \<longleftrightarrow> j = k"
proof (induction i arbitrary: j k)
  case 0
  then show ?case by (simp add: register_def)
next
  case (Suc i)
  then show ?case
    by (cases j; cases k) (simp_all add: register_next)
qed

lemma sha_round_step:
  assumes "length regs = 5"
  shows "sha_round host i (regs, l) = (fst (sha_round host i (regs, l)), next_block host i l)"
    and "rotated (Suc i) (fst (sha_round host i (regs, l))) =
      (let (a, b, c, d, e) = rotated i regs in
        (rol a 5 + fips_f i b c d + e + round_const i + next_block host i l ! (i mod 16), a, rol b 30, c, d))"
    and "length (fst (sha_round host i (regs, l))) = 5"
  using assms
  unfolding sha_round_def next_block_def[symmetric] Let_def rotated_def
  by (simp_all add: register_next(1) register_steps
      register_less register_distinct round_fun_fips nth_list_update ac_simps)


text \<open>The ring of schedule words before round \<open>i\<close>: the words of the last sixteen rounds.\<close>

definition schedule_ring :: "bool \<Rightarrow> bytes \<Rightarrow> nat \<Rightarrow> u32 list \<Rightarrow> bool" where
  "schedule_ring host data i l \<longleftrightarrow> length l = 16 \<and>
     (\<forall>k<16. i \<le> k \<longrightarrow> l ! k = load_block host data ! k) \<and>
     (\<forall>t<i. i \<le> t + 16 \<longrightarrow> l ! (t mod 16) = fips_w (load_block True data) t)"

lemma load_block_nth: "k < 16 \<Longrightarrow> load_block host data ! k = to_dword host (take 4 (drop (4 * k) data))"
  by (simp add: load_block_def)

lemma four_bytes: "4 \<le> length xs \<Longrightarrow> \<exists>a b c d r. xs = a # b # c # d # r"
  by (simp add: numeral_eq_Suc Suc_le_length_iff) blast

lemma reverse_load:
  assumes "64 \<le> length data" "k < 16"
  shows "reverse_dword (load_block False data ! k) = load_block True data ! k"
proof -
  have "4 \<le> length (drop (4 * k) data)" using assms by simp
  then obtain a b c d r where "drop (4 * k) data = a # b # c # d # r"
    by (blast dest: four_bytes)
  then show ?thesis using assms reverse_to_dword[of False a b c d "[]"]
    by (simp add: load_block_nth)
qed

lemma ring_start: "schedule_ring host data 0 (load_block host data)"
  by (simp add: schedule_ring_def load_block_def)

lemma ring_step_load:
  assumes "schedule_ring host data i l" "64 \<le> length data" "i < 16"
  shows "schedule_ring host data (Suc i) (next_block host i l)" (is ?A)
    and "next_block host i l ! (i mod 16) = fips_w (load_block True data) i" (is ?B)
proof -
  have w: "fips_w (load_block True data) i = load_block True data ! i"
    using assms(3) by (simp add: fips_w.simps)
  show ?A ?B using assms
    by (auto simp: schedule_ring_def next_block_def big_endian_blk0_def little_endian_blk0_def blk0_reverse
        reverse_load w nth_list_update less_Suc_eq)
qed

lemma mod16_back:
  assumes "16 \<le> i"
  shows "(i + 13) mod 16 = (i - 3) mod (16 :: nat)" "(i + 8) mod 16 = (i - 8) mod (16 :: nat)"
    "(i + 2) mod 16 = (i - 14) mod (16 :: nat)" "i mod 16 = (i - 16) mod (16 :: nat)"
proof -
  obtain k where i: "i = k + 16" using assms by (metis add.commute le_Suc_ex)
  have "k + 16 + 13 = k + 13 + 16" "k + 16 + 8 = k + 8 + 16" "k + 16 + 2 = k + 2 + 16"
    "k + 16 - 3 = k + 13" "k + 16 - 8 = k + 8" "k + 16 - 14 = k + 2" "k + 16 - 16 = k" by simp_all
  then show "(i + 13) mod 16 = (i - 3) mod (16 :: nat)" "(i + 8) mod 16 = (i - 8) mod (16 :: nat)"
    "(i + 2) mod 16 = (i - 14) mod (16 :: nat)" "i mod 16 = (i - 16) mod (16 :: nat)"
    unfolding i by (simp_all only: mod_add_self2)
qed

lemma mod16_distinct: "t < i \<Longrightarrow> i < t + 16 \<Longrightarrow> t mod 16 \<noteq> i mod (16 :: nat)"
  using mod_eq_dvd_iff_nat[of t i 16] by (auto dest: dvd_imp_le)

lemma ring_step_blk:
  assumes ok: "schedule_ring host data i l" and i: "16 \<le> i"
  shows "schedule_ring host data (Suc i) (next_block host i l)" (is ?A)
    and "next_block host i l ! (i mod 16) = fips_w (load_block True data) i" (is ?B)
proof -
  let ?W = "fips_w (load_block True data)"
  have old: "l ! (t mod 16) = ?W t" if "t < i" "i \<le> t + 16" for t
    using ok that by (simp add: schedule_ring_def)
  have l: "length l = 16" using ok by (simp add: schedule_ring_def)
  have words: "l ! ((i + 13) mod 16) = ?W (i - 3)" "l ! ((i + 8) mod 16) = ?W (i - 8)"
    "l ! ((i + 2) mod 16) = ?W (i - 14)" "l ! (i mod 16) = ?W (i - 16)"
    using i unfolding mod16_back[OF i] by (auto intro!: old)
  have new: "next_block host i l = l[i mod 16 := ?W i]"
    using i by (simp add: next_block_def blk_def words[simplified] words fips_w.simps[of _ i])
  show ?B using l by (simp add: new)
  show ?A using i l old by (auto simp: schedule_ring_def new nth_list_update less_Suc_eq dest: mod16_distinct)
qed

lemma ring_step:
  assumes "schedule_ring host data i l" "64 \<le> length data"
  shows "schedule_ring host data (Suc i) (next_block host i l)"
    and "next_block host i l ! (i mod 16) = fips_w (load_block True data) i"
  using assms ring_step_load ring_step_blk by (cases "i < 16"; simp)+

lemma rounds_fips:
  assumes "length st = 5" "64 \<le> length data"
  shows "case fold (sha_round host) [0..<n] (st, load_block host data) of (regs, l) \<Rightarrow>
    length regs = 5 \<and> schedule_ring host data n l \<and>
    rotated n regs = fold (fips_step (load_block True data)) [0..<n] (st ! 0, st ! 1, st ! 2, st ! 3, st ! 4)"
proof (induction n)
  case 0
  then show ?case using assms by (simp add: ring_start rotated_def register_def)
next
  case (Suc n)
  obtain regs l where s: "fold (sha_round host) [0..<n] (st, load_block host data) = (regs, l)"
    by fastforce
  with Suc have "length regs = 5" "schedule_ring host data n l" and
    r: "rotated n regs = fold (fips_step (load_block True data)) [0..<n] (st ! 0, st ! 1, st ! 2, st ! 3, st ! 4)"
    by simp_all
  note len = this(1) and ring = ring_step[OF this(2) assms(2)]
  define regs' where "regs' = fst (sha_round host n (regs, l))"
  have round: "sha_round host n (regs, l) = (regs', next_block host n l)"
    unfolding regs'_def by (rule sha_round_step(1)[OF len])
  obtain a b c d e where abc: "rotated n regs = (a, b, c, d, e)" by (metis prod.exhaust)
  have "rotated (Suc n) regs' = fips_step (load_block True data) n (rotated n regs)"
    using sha_round_step(2)[OF len, of n host l] ring(2) by (simp add: regs'_def abc ac_simps)
  moreover have "length regs' = 5" unfolding regs'_def by (rule sha_round_step(3)[OF len])
  ultimately show ?case using ring(1) by (simp add: s round r)
qed

theorem sha1_transform_standard:
  assumes "length st = 5" "64 \<le> length data"
  shows "sha1_transform host st data = fips_compress st data"
proof -
  define n where "n = (80 :: nat)"
  obtain regs l where s: "fold (sha_round host) [0..<n] (st, load_block host data) = (regs, l)"
    by fastforce
  have "length regs = 5" and
    r: "rotated n regs = fold (fips_step (load_block True data)) [0..<n] (st ! 0, st ! 1, st ! 2, st ! 3, st ! 4)"
    using rounds_fips[OF assms, of host n] by (simp_all add: s)
  then obtain a b c d e where regs: "regs = [a, b, c, d, e]"
    by (auto simp: numeral_eq_Suc length_Suc_conv)
  have "rotated n regs = (a, b, c, d, e)"
    by (simp add: regs rotated_def register_def n_def)
  with r have "fold (fips_step (load_block True data)) [0..<n] (st ! 0, st ! 1, st ! 2, st ! 3, st ! 4)
    = (a, b, c, d, e)" by simp
  then show ?thesis
    unfolding sha1_transform_def fips_compress_def n_def[symmetric] by (simp add: s regs)
qed

end
