(* ===== verification/Sha1_Digest.thy ===== *)
theory Sha1_Digest
  imports Sha1
begin

text \<open>
  The SHA-1 context of \<open>hash/sha1.hpp\<close> stands for the message fed so far: the counters hold its
  bits modulo 2\<open>^\<close>64, the buffer its bytes behind the last whole block and the state the hash of
  the whole blocks. Updates keep that, so the digest is the one of the padded message.
\<close>

subsection \<open>The hash of the standard\<close>

definition fips_h0 :: "u32 list" where
  "fips_h0 = [0x67452301, 0xEFCDAB89, 0x98BADCFE, 0x10325476, 0xC3D2E1F0]"

function hash_blocks :: "u32 list \<Rightarrow> bytes \<Rightarrow> u32 list" where
  "hash_blocks h bs =
     (if length bs < 64 then h else hash_blocks (fips_compress h (take 64 bs)) (drop 64 bs))"
  by pat_completeness auto
termination by (relation "measure (\<lambda>(h, bs). length bs)") auto

declare hash_blocks.simps [simp del]

definition pad_length :: "nat \<Rightarrow> nat" where
  "pad_length n = (119 - n mod 64) mod 64"

text \<open>A one bit, zeros up to 56 bytes modulo 64, the number of bits (modulo 2\<open>^\<close>64) as a big endian number.\<close>

definition fips_pad :: "bytes \<Rightarrow> bytes" where
  "fips_pad m = m @ [128] @ replicate (pad_length (length m)) 0 @ from_qword True (of_nat (8 * length m))"

definition fips_sha1 :: "bytes \<Rightarrow> bytes" where
  "fips_sha1 m = concat (map (from_dword True) (hash_blocks fips_h0 (fips_pad m)))"

lemma hash_blocks_short [simp]: "length bs < 64 \<Longrightarrow> hash_blocks h bs = h"
  by (subst hash_blocks.simps) simp

lemma hash_blocks_block [simp]: "length b = 64 \<Longrightarrow> hash_blocks h (b @ bs) = hash_blocks (fips_compress h b) bs"
  by (subst hash_blocks.simps) simp

lemma hash_blocks_append: "64 dvd length xs \<Longrightarrow> hash_blocks h (xs @ ys) = hash_blocks (hash_blocks h xs) ys"
proof (induction h xs rule: hash_blocks.induct)
  case (1 h bs)
  show ?case
  proof (cases "length bs < 64")
    case True
    with 1(2) have "bs = []" by (cases bs) (auto dest: dvd_imp_le)
    then show ?thesis by simp
  next
    case False
    let ?b = "take 64 bs" and ?r = "drop 64 bs"
    have dvd: "64 dvd length ?r" using 1(2) False by (simp add: dvd_diff_nat)
    have b: "length ?b = 64" using False by simp
    have "hash_blocks h (bs @ ys) = hash_blocks h (?b @ ?r @ ys)"
      by (metis append.assoc append_take_drop_id)
    also have "\<dots> = hash_blocks (fips_compress h ?b) (?r @ ys)" by (rule hash_blocks_block[OF b])
    also have "\<dots> = hash_blocks (hash_blocks (fips_compress h ?b) ?r) ys" using 1(1)[OF False dvd] .
    also have "hash_blocks (fips_compress h ?b) ?r = hash_blocks h (?b @ ?r)"
      by (rule hash_blocks_block[OF b, symmetric])
    finally show ?thesis by simp
  qed
qed

lemma length_fips_compress [simp]: "length h = 5 \<Longrightarrow> length (fips_compress h b) = 5"
  by (simp add: fips_compress_def split_beta Let_def del: upt_rec_numeral)

lemma length_hash_blocks [simp]: "length h = 5 \<Longrightarrow> length (hash_blocks h bs) = 5"
proof (induction h bs rule: hash_blocks.induct)
  case (1 h bs)
  then show ?case by (subst hash_blocks.simps) simp
qed

subsection \<open>The context stands for the message fed so far\<close>

definition sha_inv :: "sha_ctx \<Rightarrow> bytes \<Rightarrow> bool" where
  "sha_inv c m \<longleftrightarrow> length (sha_buffer c) = 64 \<and>
     unat (sha_count1 c) * 2 ^ 32 + unat (sha_count0 c) = 8 * length m mod 2 ^ 64 \<and>
     (\<exists>full rest. m = full @ rest \<and> 64 dvd length full \<and> length rest < 64 \<and>
        sha_state c = hash_blocks fips_h0 full \<and> take (length rest) (sha_buffer c) = rest)"

lemma sha_inv_init: "length junk = 64 \<Longrightarrow> sha_inv (sha1_init junk) []"
  by (auto simp: sha_inv_def sha1_init_def fips_h0_def)

lemma count_low:
  assumes "unat c1 * 2 ^ 32 + unat (c0 :: u32) = n mod 2 ^ 64"
  shows "unat c0 = n mod 2 ^ 32"
proof -
  have "n mod 2 ^ 64 mod 2 ^ 32 = n mod (2 ^ 32 :: nat)" by (rule mod_mod_cancel) simp
  moreover have "(unat c1 * 2 ^ 32 + unat c0) mod 2 ^ 32 = unat c0"
    using unsigned_less[of c0, where 'a = nat] by simp
  ultimately show ?thesis unfolding assms by simp
qed

lemma count_update:
  fixes c0 c1 len :: u32
  assumes "unat c1 * 2 ^ 32 + unat c0 = n mod 2 ^ 64"
  shows "unat (c1 + (if c0 + push_bit 3 len < push_bit 3 len then 1 else 0) + drop_bit 29 len) * 2 ^ 32
    + unat (c0 + push_bit 3 len) = (n + 8 * unat len) mod 2 ^ 64"
proof -
  let ?p = "push_bit 3 len" and ?q = "unat c0 + unat (push_bit 3 len) :: nat"
  have L: "unat len < 2 ^ 32" "unat c0 < 2 ^ 32" "unat ?p < 2 ^ 32"
    using unsigned_less[of len, where 'a = nat] unsigned_less[of c0, where 'a = nat]
      unsigned_less[of ?p, where 'a = nat] by simp_all
  have p: "unat ?p = 8 * unat len mod 2 ^ 32"
    by (simp add: push_bit_eq_mult unat_word_ariths mult.commute)
  have d: "unat (drop_bit 29 len) = 8 * unat len div 2 ^ 32"
    by (simp add: unat_drop_bit_eq drop_bit_eq_div[of _ "_ :: nat"])
  have s: "unat (c0 + ?p) = ?q mod 2 ^ 32" by (simp add: unat_word_ariths)
  have carry: "unat (if c0 + ?p < ?p then 1 else 0 :: u32) = ?q div 2 ^ 32"
    using L by (simp add: word_less_nat_alt s) (auto simp: mod_if)
  have c1: "unat (c1 + (if c0 + ?p < ?p then 1 else 0) + drop_bit 29 len)
      = (unat c1 + ?q div 2 ^ 32 + 8 * unat len div 2 ^ 32) mod 2 ^ 32"
    using carry d by (simp add: unat_word_ariths mod_simps)
  have shift: "a mod 2 ^ 32 * 2 ^ 32 + b mod 2 ^ 32 = (a * 2 ^ 32 + b mod 2 ^ 32) mod 2 ^ 64" for a b :: nat
    by (simp add: mod_mult2_eq[of _ "2 ^ 32" "2 ^ 32", simplified])
  have "(unat c1 + ?q div 2 ^ 32 + 8 * unat len div 2 ^ 32) * 2 ^ 32 + ?q mod 2 ^ 32
      = unat c1 * 2 ^ 32 + unat c0 + 8 * unat len"
    using p div_mult_mod_eq[of ?q "2 ^ 32"] div_mult_mod_eq[of "8 * unat len" "2 ^ 32"]
    by (simp add: algebra_simps)
  then have "(unat c1 + ?q div 2 ^ 32 + 8 * unat len div 2 ^ 32) * 2 ^ 32 + ?q mod 2 ^ 32
      = n mod 2 ^ 64 + 8 * unat len" unfolding assms .
  then show ?thesis unfolding c1 s shift by (simp only: mod_add_left_eq)
qed

lemma sha_index:
  assumes "sha_inv c m"
  shows "unat (drop_bit 3 (sha_count0 c) AND 63) = length m mod 64"
    and "sha_count0 c AND 504 \<noteq> 448 \<longleftrightarrow> length m mod 64 \<noteq> 56"
proof -
  have c0: "unat (sha_count0 c) = 8 * length m mod 2 ^ 32"
    using assms by (intro count_low[of "sha_count1 c"]) (simp add: sha_inv_def)
  have m: "8 * length m mod 2 ^ 32 div 8 mod 64 = length m mod 64" for m :: bytes
  proof -
    have "8 * length m mod 2 ^ 32 = 8 * (length m mod 2 ^ 29)"
      using mult_mod_right[of 8 "length m" "2 ^ 29"] by simp
    moreover have "length m mod 2 ^ 29 mod 64 = length m mod 64" by (rule mod_mod_cancel) simp
    ultimately show ?thesis by simp
  qed
  have mask: "(63 :: u32) = mask 6" "(504 :: u32) = push_bit 3 (mask 6)"
    by (simp_all add: mask_eq_exp_minus_1 push_bit_eq_mult)
  have low: "drop_bit 3 (sha_count0 c) AND 63 = take_bit 6 (drop_bit 3 (sha_count0 c))"
    unfolding mask by (rule take_bit_eq_mask[symmetric])
  show index: "unat (drop_bit 3 (sha_count0 c) AND 63) = length m mod 64"
    unfolding low using m[of m]
    by (simp add: unsigned_take_bit_eq unat_drop_bit_eq c0 take_bit_eq_mod[of _ "_ :: nat"] drop_bit_eq_div[of _ "_ :: nat"])
  have "sha_count0 c AND 504 = push_bit 3 (drop_bit 3 (sha_count0 c) AND 63)"
    unfolding mask by (auto simp: bit_eq_iff bit_simps)
  moreover have "push_bit 3 (drop_bit 3 (sha_count0 c) AND 63) = 448
      \<longleftrightarrow> drop_bit 3 (sha_count0 c) AND 63 = 56"
  proof -
    have "unat (drop_bit 3 (sha_count0 c) AND 63) < 64" unfolding index by simp
    then have "unat (push_bit 3 (drop_bit 3 (sha_count0 c) AND 63)) = 8 * unat (drop_bit 3 (sha_count0 c) AND 63)"
      by (simp add: push_bit_eq_mult unat_word_ariths)
    then show ?thesis by (simp add: word_unat_eq_iff)
  qed
  ultimately show "sha_count0 c AND 504 \<noteq> 448 \<longleftrightarrow> length m mod 64 \<noteq> 56"
    using index by (simp add: word_unat_eq_iff)
qed

lemma update_blocks_ok:
  assumes "length data = unat len" "unat len + 64 \<le> 2 ^ 32" "unat i \<le> unat len" "length st = 5"
    "(unat len - unat i) div 64 < n"
  shows "\<exists>i'. update_blocks host n st data len i = Inr (hash_blocks st (drop (unat i) data), i') \<and>
    unat i \<le> unat i' \<and> unat i' \<le> unat len \<and> unat len - unat i' < 64 \<and> 64 dvd unat i' - unat i"
  using assms
proof (induction n arbitrary: st i)
  case 0
  then show ?case by simp
next
  case (Suc n)
  have i63: "unat (i + 63) = unat i + 63" using Suc.prems by (simp add: unat_word_ariths)
  show ?case
  proof (cases "i + 63 < len")
    case False
    then have "unat len - unat i < 64" using i63 by (simp add: word_less_nat_alt)
    with False show ?thesis using Suc.prems by simp
  next
    case True
    then have lt: "unat i + 64 \<le> unat len" using i63 by (simp add: word_less_nat_alt)
    have i64: "unat (i + 64) = unat i + 64" using Suc.prems lt by (simp add: unat_word_ariths)
    let ?b = "take 64 (drop (unat i) data)"
    have b: "length ?b = 64" using lt Suc.prems by simp
    have t: "sha1_transform host st ?b = fips_compress st ?b"
      by (rule sha1_transform_standard) (use Suc.prems b in simp_all)
    have h: "hash_blocks st (drop (unat i) data) = hash_blocks (fips_compress st ?b) (drop (unat (i + 64)) data)"
      using hash_blocks_block[OF b, of st "drop (unat i + 64) data"]
      by (simp add: i64 add.commute) (metis append_take_drop_id drop_drop add.commute)
    have "(unat len - unat (i + 64)) div 64 < n"
    proof -
      have "unat len - unat i = (unat len - unat (i + 64)) + 64" using i64 lt by simp
      then show ?thesis using Suc.prems(5) by simp
    qed
    from Suc.IH[of "i + 64" "fips_compress st ?b", OF Suc.prems(1,2) _ _ this]
    obtain i' where i': "update_blocks host n (fips_compress st ?b) data len (i + 64)
        = Inr (hash_blocks (fips_compress st ?b) (drop (unat (i + 64)) data), i')"
      "unat (i + 64) \<le> unat i'" "unat i' \<le> unat len" "unat len - unat i' < 64" "64 dvd unat i' - unat (i + 64)"
      using i64 lt Suc.prems by auto
    have "64 dvd unat i' - unat i"
    proof -
      have "unat i' - unat i = (unat i' - unat (i + 64)) + 64" using i'(2) i64 by simp
      then show ?thesis using i'(5) by simp
    qed
    then show ?thesis using True lt Suc.prems i' i64 by (auto simp: t h)
  qed
qed


lemma full_rest:
  assumes "64 dvd length full" "length rest < 64"
  shows "length (full @ rest) mod 64 = length rest"
  using assms by (auto elim!: dvdE)

lemma sha_invD:
  assumes "sha_inv c m"
  obtains full where "m = full @ take (length m mod 64) (sha_buffer c)" "64 dvd length full"
    "sha_state c = hash_blocks fips_h0 full" "length (sha_buffer c) = 64"
    "unat (sha_count1 c) * 2 ^ 32 + unat (sha_count0 c) = 8 * length m mod 2 ^ 64"
proof -
  from assms obtain full rest where *: "m = full @ rest" "64 dvd length full" "length rest < 64"
    "sha_state c = hash_blocks fips_h0 full" "take (length rest) (sha_buffer c) = rest"
    by (auto simp: sha_inv_def)
  with full_rest[OF *(2,3)] have "m = full @ take (length m mod 64) (sha_buffer c)" by simp
  with * assms show ?thesis by (intro that) (simp_all add: sha_inv_def)
qed

lemma store_tail:
  assumes "length buf = 64" "j + length d \<le> 64" "take j buf = r"
  shows "\<exists>buf'. store_bytes buf j d = Inr buf' \<and> length buf' = 64 \<and> take (j + length d) buf' = r @ d"
  using assms by (auto simp: store_bytes_def)

lemma sha_invI:
  assumes "m = full @ rest" "64 dvd length full" "length rest < 64"
    "sha_state c = hash_blocks fips_h0 full" "take (length rest) (sha_buffer c) = rest"
    "length (sha_buffer c) = 64"
    "unat (sha_count1 c) * 2 ^ 32 + unat (sha_count0 c) = 8 * length m mod 2 ^ 64"
  shows "sha_inv c m"
  unfolding sha_inv_def using assms by blast

text \<open>The counters after an update, as \<open>internal_update\<close> adds them.\<close>

definition counted :: "sha_ctx \<Rightarrow> u32 \<Rightarrow> sha_ctx" where
  "counted c len = c\<lparr>sha_count0 := sha_count0 c + push_bit 3 len,
     sha_count1 := sha_count1 c + (if sha_count0 c + push_bit 3 len < push_bit 3 len then 1 else 0)
                   + drop_bit 29 len\<rparr>"

lemma counted_simps [simp]:
  "sha_state (counted c len) = sha_state c" "sha_buffer (counted c len) = sha_buffer c"
  by (simp_all add: counted_def)

lemma counted_bits:
  assumes "sha_inv c m" "length data = unat len"
  shows "unat (sha_count1 (counted c len)) * 2 ^ 32 + unat (sha_count0 (counted c len))
    = 8 * length (m @ data) mod 2 ^ 64"
  using count_update[of "sha_count1 c" "sha_count0 c" "8 * length m" len] assms
  by (simp add: counted_def sha_inv_def algebra_simps)

lemma update_in_buffer:
  assumes inv: "sha_inv c m" and len: "length data = unat len" and small: "length m mod 64 + length data < 64"
  obtains buf where "store_bytes (sha_buffer c) (length m mod 64) data = Inr buf"
    "sha_inv (counted c len\<lparr>sha_buffer := buf\<rparr>) (m @ data)"
proof -
  let ?r = "take (length m mod 64) (sha_buffer c)"
  obtain full where m: "m = full @ ?r" "64 dvd length full" "sha_state c = hash_blocks fips_h0 full"
    "length (sha_buffer c) = 64" using inv by (rule sha_invD)
  have r: "length ?r = length m mod 64" using m(4) by simp
  obtain buf where buf: "store_bytes (sha_buffer c) (length m mod 64) data = Inr buf" "length buf = 64"
    "take (length m mod 64 + length data) buf = ?r @ data"
    using store_tail[OF m(4), of "length m mod 64" data ?r] small by auto
  have "sha_inv (counted c len\<lparr>sha_buffer := buf\<rparr>) (m @ data)"
  proof (rule sha_invI[of _ full "?r @ data"])
    show "m @ data = full @ ?r @ data" using m(1) by (metis append.assoc)
  qed (use m buf small r counted_bits[OF inv len] in simp_all)
  with buf(1) show ?thesis by (rule that)
qed

lemma update_over_buffer:
  assumes inv: "sha_inv c m" and data: "data = first @ mid @ tail"
    and sizes: "length m mod 64 + length first = 64" "64 dvd length mid" "length tail < 64"
    and len: "length data = unat len"
  obtains buf buf2 where
    "store_bytes (sha_buffer c) (length m mod 64) first = Inr buf" "length buf = 64"
    "store_bytes buf 0 tail = Inr buf2"
    "sha_inv (counted c len\<lparr>sha_state := hash_blocks (fips_compress (sha_state c) buf) (mid @ tail),
                            sha_buffer := buf2\<rparr>) (m @ data)"
proof -
  let ?r = "take (length m mod 64) (sha_buffer c)"
  obtain full where m: "m = full @ ?r" "64 dvd length full" "sha_state c = hash_blocks fips_h0 full"
    "length (sha_buffer c) = 64" using inv by (rule sha_invD)
  obtain buf where buf: "store_bytes (sha_buffer c) (length m mod 64) first = Inr buf" "length buf = 64"
    "buf = ?r @ first"
    using store_tail[OF m(4), of "length m mod 64" first ?r] sizes(1) by auto
  obtain buf2 where buf2: "store_bytes buf 0 tail = Inr buf2" "length buf2 = 64"
    "take (length tail) buf2 = tail"
    using store_tail[OF buf(2), of 0 tail "[]"] sizes(3) by auto
  have whole: "m @ data = (full @ buf @ mid) @ tail" unfolding data buf(3) using m(1) by (metis append.assoc)
  have dvd: "64 dvd length (full @ buf @ mid)"
    unfolding length_append buf(2) using m(2) sizes(2) by simp
  have hash: "hash_blocks (fips_compress (sha_state c) buf) (mid @ tail) = hash_blocks fips_h0 (full @ buf @ mid)"
    using m(2,3) buf(2) sizes(2,3) by (simp add: hash_blocks_append)
  have "sha_inv (counted c len\<lparr>sha_state := hash_blocks (fips_compress (sha_state c) buf) (mid @ tail),
                            sha_buffer := buf2\<rparr>) (m @ data)"
    by (rule sha_invI[OF whole dvd sizes(3)]) (use hash buf2 counted_bits[OF inv len] in simp_all)
  with buf(1,2) buf2(1) show ?thesis by (rule that)
qed

lemma block_loop:
  assumes "length data = unat len" "unat len + 64 \<le> 2 ^ 32" "unat i \<le> unat len" "length st = 5"
  obtains i' where "update_blocks host (Suc (length data div 64)) st data len i
      = Inr (hash_blocks st (drop (unat i) data), i')"
    "unat i \<le> unat i'" "unat i' \<le> length data" "length data - unat i' < 64" "64 dvd unat i' - unat i"
proof -
  have "(unat len - unat i) div 64 \<le> length data div 64"
    using assms(1) by (intro div_le_mono) simp
  then have "(unat len - unat i) div 64 < Suc (length data div 64)" by simp
  from update_blocks_ok[OF assms this, of host] that show ?thesis unfolding assms(1)[symmetric] by blast
qed

lemma update_index:
  assumes "sha_inv c m" "unat len + 64 \<le> 2 ^ 32"
  defines "j \<equiv> drop_bit 3 (sha_count0 c) AND 63"
  shows "unat j = length m mod 64" "j + len > 63 \<longleftrightarrow> 64 \<le> length m mod 64 + unat len"
    "unat (64 - j) = 64 - length m mod 64"
proof -
  show j: "unat j = length m mod 64" unfolding j_def by (rule sha_index(1)[OF assms(1)])
  then have "unat j < 64" by simp
  then have "unat (j + len) = unat j + unat len" using assms(2) by (simp add: unat_word_ariths)
  then show "j + len > 63 \<longleftrightarrow> 64 \<le> length m mod 64 + unat len"
    using j by (simp add: word_less_nat_alt) linarith
  show "unat (64 - j) = 64 - length m mod 64"
    using \<open>unat j < 64\<close> j by (simp add: unat_sub word_le_nat_alt)
qed

lemma cut_data:
  assumes "k \<le> i" "i \<le> length data"
  shows "data = take k data @ take (i - k) (drop k data) @ drop i data"
    and "drop k data = take (i - k) (drop k data) @ drop i data"
proof -
  show d: "drop k data = take (i - k) (drop k data) @ drop i data"
    using assms by (metis append_take_drop_id drop_drop le_add_diff_inverse2)
  show "data = take k data @ take (i - k) (drop k data) @ drop i data"
    using d by (metis append_take_drop_id)
qed

lemma internal_update_ok:
  assumes inv: "sha_inv c m" and len: "length data = unat len" "unat len + 64 \<le> 2 ^ 32"
  shows "\<exists>c'. internal_update host c data len = Inr c' \<and> sha_inv c' (m @ data)"
proof -
  note j = update_index[OF inv len(2)]
  let ?j = "drop_bit 3 (sha_count0 c) AND 63" and ?k = "64 - length m mod 64"
  show ?thesis
  proof (cases "?j + len > 63")
    case False
    then have "length m mod 64 + length data < 64" using j(2) len(1) by simp
    from update_in_buffer[OF inv len(1) this] show ?thesis
      using False len(1) j(1)
      by (fastforce simp: internal_update_def Let_def copy_bytes_def counted_def[symmetric])
  next
    case True
    then have k: "?k \<le> length data" using j(2) len(1) by simp
    have st5: "length (sha_state c) = 5" using inv by (auto simp: sha_inv_def fips_h0_def)
    have room: "length m mod 64 + length (take ?k data) = 64" using k by simp
    have "length (sha_buffer c) = 64" using inv by (simp add: sha_inv_def)
    from store_tail[OF this, of "length m mod 64" "take ?k data"] room
    obtain buf where buf: "store_bytes (sha_buffer c) (length m mod 64) (take ?k data) = Inr buf" "length buf = 64"
      by auto
    let ?st = "fips_compress (sha_state c) buf"
    have t: "sha1_transform host (sha_state c) buf = ?st"
      by (rule sha1_transform_standard) (simp_all add: st5 buf(2))
    have "unat (64 - ?j) \<le> unat len" "length ?st = 5" using j(3) k len(1) st5 by simp_all
    from block_loop[OF len this, of host]
    obtain i where i: "update_blocks host (Suc (length data div 64)) ?st data len (64 - ?j)
        = Inr (hash_blocks ?st (drop ?k data), i)"
      "?k \<le> unat i" "unat i \<le> length data" "length data - unat i < 64" "64 dvd unat i - ?k"
      unfolding j(3) by blast
    note cut = cut_data[OF i(2,3)]
    have "length (take (unat i - ?k) (drop ?k data)) = unat i - ?k" using i(2,3) by simp
    with i(4,5) have "64 dvd length (take (unat i - ?k) (drop ?k data))" "length (drop (unat i) data) < 64"
      by simp_all
    from update_over_buffer[OF inv cut(1) room this len(1)]
    obtain buf2 where "store_bytes buf 0 (drop (unat i) data) = Inr buf2" and
      ok: "sha_inv (counted c len\<lparr>sha_state := hash_blocks ?st (drop ?k data), sha_buffer := buf2\<rparr>) (m @ data)"
      unfolding cut(2)[symmetric] using buf(1) by auto
    moreover have "unat (len - i) = length data - unat i"
      using i(3) len(1) by (simp add: unat_sub word_le_nat_alt)
    ultimately have "internal_update host c data len
        = Inr (counted c len\<lparr>sha_state := hash_blocks ?st (drop ?k data), sha_buffer := buf2\<rparr>)"
      using True buf(1) i(1,3) k
      by (simp add: internal_update_def Let_def copy_bytes_def j(1,3) t counted_def del: update_blocks.simps)
    with ok show ?thesis by blast
  qed
qed

subsection \<open>Padding and the digest\<close>

lemma sha1_update_ok:
  assumes "sha_inv c m" "length data = unat len" "unat len + 64 \<le> 2 ^ 32"
  shows "\<exists>c'. sha1_update host c data len = Inr c' \<and> sha_inv c' (m @ data)"
  using internal_update_ok[OF assms] by (simp add: sha1_update_def)

lemma zeros_value: "r < 64 \<Longrightarrow> (120 - r) mod 64 = (if r \<le> 56 then 56 - r else 120 - (r :: nat))"
  by (auto simp: mod_if)

lemma zeros_step:
  assumes "n mod 64 \<noteq> (56 :: nat)"
  shows "(120 - n mod 64) mod 64 = Suc ((120 - Suc n mod 64) mod 64)"
proof -
  have r: "n mod 64 < 64" "Suc n mod 64 < 64" by simp_all
  show ?thesis unfolding zeros_value[OF r(1)] zeros_value[OF r(2)]
    using assms r(1) by (auto simp: mod_Suc)
qed

lemma pad_zeros_ok:
  assumes "sha_inv c m" "(120 - length m mod 64) mod 64 < n"
  shows "\<exists>c'. pad_zeros host n c = Inr c' \<and> sha_inv c' (m @ replicate ((120 - length m mod 64) mod 64) 0)"
  using assms
proof (induction n arbitrary: c m)
  case 0
  then show ?case by simp
next
  case (Suc n)
  note index = sha_index(2)[OF Suc.prems(1)]
  show ?case
  proof (cases "length m mod 64 = 56")
    case True
    then show ?thesis using index Suc.prems by simp
  next
    case False
    obtain c1 where c1: "sha1_update host c [0] 1 = Inr c1" "sha_inv c1 (m @ [0])"
      using sha1_update_ok[OF Suc.prems(1), of "[0]" 1 host] by auto
    have step: "(120 - length m mod 64) mod 64 = Suc ((120 - length (m @ [0]) mod 64) mod 64)"
      using zeros_step[OF False] by simp
    then obtain c' where "pad_zeros host n c1 = Inr c'"
      "sha_inv c' ((m @ [0]) @ replicate ((120 - length (m @ [0]) mod 64) mod 64) 0)"
      using Suc.IH[OF c1(2)] Suc.prems(2) by auto
    then show ?thesis using index False c1(1) unfolding step by simp
  qed
qed

lemma word_byte_ucast: "word_byte w i = ucast (drop_bit ((3 - i mod 4) * 8) w)"
proof -
  have "(255 :: u32) = mask 8" by (simp add: mask_eq_exp_minus_1)
  then show ?thesis unfolding word_byte_def by (auto simp: bit_eq_iff bit_simps)
qed

lemma word_bytes:
  assumes "i mod 4 = 0"
  shows "[word_byte w i, word_byte w (i + 1), word_byte w (i + 2), word_byte w (i + 3)] = from_dword True w"
proof -
  have "(i + 1) mod 4 = 1" "(i + 2) mod 4 = 2" "(i + 3) mod 4 = 3"
    using assms by presburger+
  then show ?thesis using assms by (simp add: word_byte_ucast from_dword_def byte_of_dword)
qed

lemma word_bytes_0: "[word_byte w 0, word_byte w (Suc 0), word_byte w 2, word_byte w 3] = from_dword True w"
  using word_bytes[of 0 w] by (simp add: numeral_2_eq_2 numeral_3_eq_3)

lemma final_count:
  assumes "sha_inv c m"
  shows "map (\<lambda>i. word_byte (if i \<ge> 4 then sha_count0 c else sha_count1 c) i) [0..<8]
    = from_qword True (of_nat (8 * length m))"
proof -
  let ?x = "of_nat (8 * length m) :: u64"
  have x: "unat ?x = unat (sha_count1 c) * 2 ^ 32 + unat (sha_count0 c)"
    using assms by (simp add: sha_inv_def unsigned_of_nat take_bit_eq_mod del: of_nat_mult)
  have less: "unat (sha_count0 c) < 2 ^ 32" "unat (sha_count1 c) < 2 ^ 32"
    using unsigned_less[of "sha_count0 c", where 'a = nat] unsigned_less[of "sha_count1 c", where 'a = nat]
    by simp_all
  have "unat (low_dword ?x) = unat (sha_count0 c)"
    unfolding low_dword_def unsigned_ucast_eq x using less by (simp add: take_bit_eq_mod)
  moreover have "unat (high_dword ?x) = unat (sha_count1 c)"
    unfolding high_dword_def unsigned_ucast_eq unat_drop_bit_eq x using less
    by (simp add: take_bit_eq_mod drop_bit_eq_div)
  ultimately have halves: "low_dword ?x = sha_count0 c" "high_dword ?x = sha_count1 c"
    by (simp_all add: word_unat_eq_iff)
  have qword: "from_qword True ?x = from_dword True (sha_count1 c) @ from_dword True (sha_count0 c)"
    unfolding from_qword_def from_dword_def halves Let_def by simp
  have "[0..<8] = [0, 1, 2, 3, 4, 5, 6, 7 :: nat]" by (simp add: upt_rec)
  then show ?thesis
    using word_bytes_0[of "sha_count1 c"] word_bytes[of 4 "sha_count0 c"]
    by (simp add: qword del: of_nat_mult)
qed

lemma digest_bytes:
  assumes "length st = 5"
  shows "map (\<lambda>i. word_byte (st ! (i div 4)) i) [0..<20] = concat (map (from_dword True) st)"
proof -
  obtain a b c d e where st: "st = [a, b, c, d, e]"
    using assms by (auto simp: numeral_eq_Suc length_Suc_conv)
  have "[0..<20] = [0, 1, 2, 3, 4, 5, 6, 7, 8, 9, 10, 11, 12, 13, 14, 15, 16, 17, 18, 19 :: nat]"
    by (simp add: upt_rec)
  then show ?thesis
    using word_bytes_0[of a] word_bytes[of 4 b] word_bytes[of 8 c] word_bytes[of 12 d] word_bytes[of 16 e]
    by (simp add: st)
qed

lemma length_fips_pad: "length (fips_pad m) mod 64 = 0"
proof -
  define r where "r = length m mod 64"
  have r: "r < 64" by (simp add: r_def)
  have "length (fips_pad m) mod 64 = (r + (9 + (119 - r) mod 64)) mod 64"
    by (simp add: fips_pad_def pad_length_def r_def mod_simps)
  moreover have "(119 - r) mod 64 = (if r \<le> 55 then 55 - r else 119 - r)" using r by (auto simp: mod_if)
  ultimately show ?thesis using r by (auto split: if_splits)
qed

lemma sha1_final_ok:
  assumes inv: "sha_inv c m"
  shows "sha1_final host c = Inr (fips_sha1 m)"
proof -
  let ?bits = "from_qword True (of_nat (8 * length m))"
  obtain c1 where c1: "sha1_update host c [128] 1 = Inr c1" "sha_inv c1 (m @ [128])"
    using sha1_update_ok[OF inv, of "[128]" 1 host] by auto
  have z: "(120 - length (m @ [128]) mod 64) mod 64 = pad_length (length m)"
    unfolding pad_length_def by (simp add: mod_Suc)
  have "pad_length (length m) < 65" using mod_less_divisor[of 64] by (simp add: pad_length_def less_Suc_eq_le order.strict_implies_order)
  with pad_zeros_ok[OF c1(2), of 65 host] obtain c2 where c2: "pad_zeros host 65 c1 = Inr c2"
    "sha_inv c2 ((m @ [128]) @ replicate (pad_length (length m)) 0)" unfolding z by auto
  obtain c3 where c3: "sha1_update host c2 ?bits 8 = Inr c3" "sha_inv c3 (fips_pad m)"
    using sha1_update_ok[OF c2(2), of ?bits 8 host] by (auto simp: fips_pad_def)
  obtain full where f: "fips_pad m = full @ take (length (fips_pad m) mod 64) (sha_buffer c3)"
    "64 dvd length full" "sha_state c3 = hash_blocks fips_h0 full"
    using c3(2) by (rule sha_invD)
  have "length (fips_pad m) mod 64 = 0" by (rule length_fips_pad)
  with f have "sha_state c3 = hash_blocks fips_h0 (fips_pad m)" by simp
  then show ?thesis
    using c1(1) c2(1) c3(1) digest_bytes[of "sha_state c3"] final_count[OF inv]
    by (simp add: sha1_final_def fips_sha1_def fips_h0_def)
qed


subsection \<open>Messages in pieces\<close>

fun hasher_feed :: "bool \<Rightarrow> sha_ctx \<Rightarrow> bytes list \<Rightarrow> fault + sha_ctx" where
  "hasher_feed host c [] = Inr c"
| "hasher_feed host c (p # ps) = sbind (hasher_update host c p) (\<lambda>c. hasher_feed host c ps)"

lemma hasher_feed_ok:
  assumes "sha_inv c m" "\<forall>p \<in> set ps. p \<noteq> [] \<and> length p < 2 ^ 31"
  shows "\<exists>c'. hasher_feed host c ps = Inr c' \<and> sha_inv c' (m @ concat ps)"
  using assms
proof (induction ps arbitrary: c m)
  case Nil
  then show ?case by simp
next
  case (Cons p ps)
  then have p: "p \<noteq> []" "length p < 2 ^ 31" by simp_all
  then have len: "unat (of_nat (length p) :: u32) = length p"
    by (simp add: unsigned_of_nat take_bit_nat_eq_self)
  from sha1_update_ok[OF Cons.prems(1), of p "of_nat (length p)" host] p
  obtain c1 where "sha1_update host c p (of_nat (length p)) = Inr c1" "sha_inv c1 (m @ p)"
    unfolding len by auto
  moreover from this(2) Cons.IH[of c1 "m @ p"] Cons.prems(2)
  obtain c' where "hasher_feed host c1 ps = Inr c'" "sha_inv c' ((m @ p) @ concat ps)" by auto
  ultimately show ?case using p(1) by (auto simp: hasher_update_def)
qed

text \<open>
  C19. The class \<open>hasher\<close> fed a message in non-empty pieces of any sizes below \<open>2^31\<close> bytes returns the SHA-1 hash of
  the message as the standard defines it, on hosts of both byte orders and whatever bytes the
  context held before; in particular the hash does not depend on where the message is cut, and
  the buffer is never left.
\<close>

theorem hasher_standard:
  assumes "length junk = 64" "\<forall>p \<in> set ps. p \<noteq> [] \<and> length p < 2 ^ 31"
  shows "sbind (hasher_feed host (sha1_init junk) ps) (sha1_final host) = Inr (fips_sha1 (concat ps))"
proof -
  from hasher_feed_ok[OF sha_inv_init[OF assms(1)] assms(2), of host] obtain c'
    where "hasher_feed host (sha1_init junk) ps = Inr c'" "sha_inv c' (concat ps)" by auto
  then show ?thesis by (simp add: sha1_final_ok)
qed

theorem hasher_standard_witness:
  "sbind (hasher_feed False (sha1_init (replicate 64 7)) [[0x61], [0x62, 0x63]]) (sha1_final False)
    = Inr (fips_sha1 [0x61, 0x62, 0x63])"
  using hasher_standard[of "replicate 64 7" "[[0x61], [0x62, 0x63]]" False]
  by (simp del: hasher_feed.simps)

text \<open>
  C40. The transform that works in place (sixteen schedule words in a ring, five registers that are
  renamed instead of moved, words in the byte order of the host) is the compression function of
  the standard.
\<close>

theorem sha1_transform_equiv:
  assumes "length st = 5" "length block = 64"
  shows "sha1_transform host st block = fips_compress st block"
  using assms by (intro sha1_transform_standard) simp_all

theorem sha1_transform_equiv_witness:
  "sha1_transform False [1, 2, 3, 4, 5] (replicate 64 9) = fips_compress [1, 2, 3, 4, 5] (replicate 64 9)"
  by (rule sha1_transform_equiv) simp_all

text \<open>
  Two ways the hash fails. An update whose length runs past 2\<open>^\<close>32 together with the bytes
  already buffered is taken for a short one and written behind the buffer. The empty message,
  which the standard hashes, fails an assertion of the class.
\<close>

theorem sha1_update_faults:
  assumes "sha_inv c m" "length data = unat len" "2 ^ 32 \<le> length m mod 64 + unat len"
  shows "sha1_update host c data len = Inl Out_Of_Bounds \<and> hasher_hash host junk [] = Inl Logic_Error"
proof (rule conjI)
  let ?j = "drop_bit 3 (sha_count0 c) AND 63"
  have j: "unat ?j = length m mod 64" by (rule sha_index(1)[OF assms(1)])
  have lt: "unat len < 2 ^ 32" using unsigned_less[of len, where 'a = nat] by simp
  have m64: "length m mod 64 < 64" by simp
  have "unat (?j + len) = length m mod 64 + unat len - 2 ^ 32"
    using assms(3) lt j m64 by (simp add: unat_word_ariths) (subst mod_if, simp)
  then have "\<not> ?j + len > 63" using lt m64 unfolding word_less_nat_alt by simp
  moreover have "length (sha_buffer c) = 64" using assms(1) by (simp add: sha_inv_def)
  ultimately show "sha1_update host c data len = Inl Out_Of_Bounds"
    using assms(2,3) m64
    by (simp add: sha1_update_def internal_update_def Let_def copy_bytes_def store_bytes_def j)
  show "hasher_hash host junk [] = Inl Logic_Error"
    by (simp add: hasher_hash_def hasher_new_def hasher_update_def)
qed

theorem sha1_update_faults_witness:
  "\<exists>c. sha1_update False c (replicate (2 ^ 32 - 1) 0) (- 1) = Inl Out_Of_Bounds"
proof -
  obtain c where c: "sha_inv c ([] @ [5])"
    using sha1_update_ok[OF sha_inv_init, of "replicate 64 0" "[5]" 1 False] by auto
  have n: "unat (- 1 :: u32) = 2 ^ 32 - 1"
    by (simp add: unsigned_minus_1_eq_mask mask_eq_exp_minus_1)
  have "sha1_update False c (replicate (2 ^ 32 - 1) 0) (- 1) = Inl Out_Of_Bounds"
    by (rule sha1_update_faults[OF c, THEN conjunct1]) (simp_all only: n length_replicate, simp)
  then show ?thesis by blast
qed

end
