(* ===== verification/Structured_Writer.thy ===== *)
theory Structured_Writer
  imports Text_Encodings Numerics
begin

text \<open>
  The text writers of nested values: \<open>io/structured_writer.hpp\<close>, \<open>text/structured_text_writer.hpp\<close>
  and its two formats \<open>text/json_writer.hpp\<close> and \<open>text/xml_writer.hpp\<close>. A writer keeps a stack of
  contexts (the open lists and dictionaries) and the current indentation; its output stream is
  the text written so far. The virtual functions of a format are a record of functions, the
  base class calls them through it. Names and values are C strings.

  A locale states what the base class needs of a format; both formats interpret it. Then: the
  assertions hold exactly for well nested calls, and the calls that describe a tree write the
  text of a recursive printer.
\<close>

subsection \<open>State and helpers of the base class\<close>

datatype element_type = Simple_Element | Object_Element | Array_Element

record writer_context =
  cx_name :: string
  cx_first :: bool
  cx_array_size :: int
  cx_type :: element_type

record text_writer =
  tw_out :: string
  tw_compressed :: bool
  tw_linefeed :: string
  tw_unit :: int
  tw_indentation :: int
  tw_contexts :: "writer_context list"

definition put_text :: "string \<Rightarrow> text_writer \<Rightarrow> text_writer" where
  "put_text t s = s\<lparr>tw_out := tw_out s @ t\<rparr>"

definition set_linefeed :: "string \<Rightarrow> text_writer \<Rightarrow> text_writer" where
  "set_linefeed lf s = s\<lparr>tw_linefeed := lf\<rparr>"

definition set_indentation :: "int \<Rightarrow> text_writer \<Rightarrow> text_writer" where
  "set_indentation n s = s\<lparr>tw_unit := max 0 (min 256 n)\<rparr>"

definition text_writer_new :: "bool \<Rightarrow> text_writer" where
  "text_writer_new compressed =
     set_indentation 2 (set_linefeed [CHR 0x0A]
       \<lparr>tw_out = [], tw_compressed = compressed, tw_linefeed = [], tw_unit = 0, tw_indentation = 0,
        tw_contexts = []\<rparr>)"

definition write_indentation :: "text_writer \<Rightarrow> text_writer" where
  "write_indentation s =
     (if tw_compressed s then s
      else if tw_indentation s > 0 then put_text (replicate (nat (tw_indentation s)) CHR '' '') s
      else s)"

definition increase_indentation :: "text_writer \<Rightarrow> text_writer" where
  "increase_indentation s = s\<lparr>tw_indentation := tw_indentation s + tw_unit s\<rparr>"

definition decrease_indentation :: "text_writer \<Rightarrow> text_writer" where
  "decrease_indentation s = s\<lparr>tw_indentation := tw_indentation s - tw_unit s\<rparr>"

definition write_linefeed :: "text_writer \<Rightarrow> text_writer" where
  "write_linefeed s = (if tw_compressed s then s else put_text (tw_linefeed s) s)"

definition write_simple_value :: "string \<Rightarrow> text_writer \<Rightarrow> text_writer" where
  "write_simple_value val s = put_text val s"

definition write_bool_value :: "bool \<Rightarrow> text_writer \<Rightarrow> text_writer" where
  "write_bool_value val s = write_simple_value (if val then ''true'' else ''false'') s"

text \<open>The integer writers print through a C++ output stream, the decimal text of the number.\<close>

definition write_int_value :: "int \<Rightarrow> text_writer \<Rightarrow> text_writer" where
  "write_int_value val s = write_simple_value (numerics_format val) s"

subsection \<open>The operations of the base class over the virtual functions of a format\<close>

record text_format =
  start_scalar :: "string \<Rightarrow> text_writer \<Rightarrow> text_writer"
  end_scalar :: "string \<Rightarrow> text_writer \<Rightarrow> text_writer"
  element_start :: "string \<Rightarrow> element_type \<Rightarrow> writer_context \<Rightarrow> text_writer \<Rightarrow> text_writer"
  element_end :: "string \<Rightarrow> element_type \<Rightarrow> writer_context \<Rightarrow> text_writer \<Rightarrow> text_writer"
  string_value :: "string \<Rightarrow> text_writer \<Rightarrow> text_writer"

definition start_dict :: "text_format \<Rightarrow> string \<Rightarrow> text_writer \<Rightarrow> text_writer" where
  "start_dict F name s =
     element_start F name Object_Element
       \<lparr>cx_name = name, cx_first = True, cx_array_size = -1, cx_type = Object_Element\<rparr> s"

definition start_list :: "text_format \<Rightarrow> string \<Rightarrow> int \<Rightarrow> text_writer \<Rightarrow> text_writer" where
  "start_list F name count s =
     element_start F name Array_Element
       \<lparr>cx_name = name, cx_first = True, cx_array_size = count, cx_type = Array_Element\<rparr> s"

text \<open>Ending without an open element, or an element of the other type, fails an assertion.\<close>

definition end_dict :: "text_format \<Rightarrow> text_writer \<Rightarrow> fault + text_writer" where
  "end_dict F s =
     (case tw_contexts s of
        [] \<Rightarrow> Inl Logic_Error
      | c # _ \<Rightarrow> if cx_type c = Object_Element then Inr (element_end F (cx_name c) (cx_type c) c s)
                 else Inl Logic_Error)"

definition end_list :: "text_format \<Rightarrow> text_writer \<Rightarrow> fault + text_writer" where
  "end_list F s =
     (case tw_contexts s of
        [] \<Rightarrow> Inl Logic_Error
      | c # _ \<Rightarrow> if cx_type c = Array_Element then Inr (element_end F (cx_name c) (cx_type c) c s)
                 else Inl Logic_Error)"

definition scalar_bool :: "text_format \<Rightarrow> string \<Rightarrow> bool \<Rightarrow> text_writer \<Rightarrow> text_writer" where
  "scalar_bool F name val s = end_scalar F name (write_bool_value val (start_scalar F name s))"

definition scalar_integer :: "text_format \<Rightarrow> string \<Rightarrow> int \<Rightarrow> text_writer \<Rightarrow> text_writer" where
  "scalar_integer F name val s = end_scalar F name (write_int_value val (start_scalar F name s))"

definition scalar_simple :: "text_format \<Rightarrow> string \<Rightarrow> string \<Rightarrow> text_writer \<Rightarrow> text_writer" where
  "scalar_simple F name val s = end_scalar F name (write_simple_value val (start_scalar F name s))"

definition scalar_string :: "text_format \<Rightarrow> string \<Rightarrow> string \<Rightarrow> text_writer \<Rightarrow> text_writer" where
  "scalar_string F name val s = end_scalar F name (string_value F val (start_scalar F name s))"

subsection \<open>JSON\<close>

definition quoted :: "string \<Rightarrow> string" where
  "quoted t = CHR 0x22 # t @ [CHR 0x22]"

definition json_key :: "string \<Rightarrow> string" where
  "json_key name = quoted name @ '' : ''"

text \<open>The comma in front of every item of the open element but the first.\<close>

definition json_separator :: "text_writer \<Rightarrow> text_writer" where
  "json_separator s =
     (case tw_contexts s of
        [] \<Rightarrow> s
      | c # cs \<Rightarrow> (if cx_first c then s else put_text '','' s)\<lparr>tw_contexts := c\<lparr>cx_first := False\<rparr> # cs\<rparr>)"

definition in_array :: "text_writer \<Rightarrow> bool" where
  "in_array s = (case tw_contexts s of [] \<Rightarrow> False | c # _ \<Rightarrow> cx_type c = Array_Element)"

definition json_start_scalar :: "string \<Rightarrow> text_writer \<Rightarrow> text_writer" where
  "json_start_scalar name s =
     (let s1 = write_indentation (write_linefeed (json_separator s))
      in if in_array s then s1 else put_text (json_key name) s1)"

definition json_end_scalar :: "string \<Rightarrow> text_writer \<Rightarrow> text_writer" where
  "json_end_scalar name s = s"

definition json_element_start :: "string \<Rightarrow> element_type \<Rightarrow> writer_context \<Rightarrow> text_writer \<Rightarrow> text_writer" where
  "json_element_start name t context s =
     (let s1 = (if tw_contexts s = [] then increase_indentation (put_text ''{'' s) else json_separator s);
          s2 = write_indentation (write_linefeed s1);
          s3 = (if in_array s then s2 else put_text (json_key name) s2);
          s4 = (case t of
                  Object_Element \<Rightarrow> increase_indentation (put_text ''{'' s3)
                | Array_Element \<Rightarrow> increase_indentation (put_text ''[ '' s3)
                | Simple_Element \<Rightarrow> s3)
      in s4\<lparr>tw_contexts := context # tw_contexts s4\<rparr>)"

definition json_element_end :: "string \<Rightarrow> element_type \<Rightarrow> writer_context \<Rightarrow> text_writer \<Rightarrow> text_writer" where
  "json_element_end name t context s =
     (let s1 = s\<lparr>tw_contexts := tl (tw_contexts s)\<rparr>;
          s2 = (if t \<noteq> Simple_Element then
                  put_text (case t of Object_Element \<Rightarrow> ''}'' | Array_Element \<Rightarrow> '']'' | Simple_Element \<Rightarrow> [])
                    (write_indentation (write_linefeed (decrease_indentation s1)))
                else s1)
      in if tw_contexts s2 = [] then put_text ''}'' (write_linefeed (decrease_indentation s2)) else s2)"

definition json_string_value :: "string \<Rightarrow> text_writer \<Rightarrow> text_writer" where
  "json_string_value val s = put_text (quoted val) s"

definition json_format :: text_format where
  "json_format = \<lparr>start_scalar = json_start_scalar, end_scalar = json_end_scalar,
     element_start = json_element_start, element_end = json_element_end, string_value = json_string_value\<rparr>"

subsection \<open>XML\<close>

definition open_tag :: "string \<Rightarrow> string" where "open_tag name = ''<'' @ name @ ''>''"
definition close_tag :: "string \<Rightarrow> string" where "close_tag name = ''</'' @ name @ ''>''"

definition array_tag :: "string \<Rightarrow> int \<Rightarrow> string" where
  "array_tag name count =
     ''<'' @ name @ '' type='' @ quoted ''array'' @ '' count='' @ quoted (numerics_format count) @ ''>''"

definition xml_declaration :: "string \<Rightarrow> string" where
  "xml_declaration encoding =
     ''<?xml version='' @ quoted ''1.0'' @ '' encoding='' @ quoted encoding @ '' standalone='' @ quoted ''yes'' @ '' ?>'' @ [CHR 0x0A]"

definition xml_start_scalar :: "string \<Rightarrow> text_writer \<Rightarrow> text_writer" where
  "xml_start_scalar name s = put_text (open_tag name) (write_indentation (write_linefeed s))"

definition xml_end_scalar :: "string \<Rightarrow> text_writer \<Rightarrow> text_writer" where
  "xml_end_scalar name s = put_text (close_tag name) s"

definition xml_element_start :: "string \<Rightarrow> string \<Rightarrow> element_type \<Rightarrow> writer_context \<Rightarrow> text_writer \<Rightarrow> text_writer" where
  "xml_element_start encoding name t context s =
     (let s1 = write_indentation (if tw_contexts s = [] then put_text (xml_declaration encoding) s else write_linefeed s);
          s2 = put_text (if t = Array_Element then array_tag name (cx_array_size context) else open_tag name) s1;
          s3 = (if t \<noteq> Simple_Element then increase_indentation s2 else s2)
      in s3\<lparr>tw_contexts := context # tw_contexts s3\<rparr>)"

definition xml_element_end :: "string \<Rightarrow> element_type \<Rightarrow> writer_context \<Rightarrow> text_writer \<Rightarrow> text_writer" where
  "xml_element_end name t context s =
     (let s1 = s\<lparr>tw_contexts := tl (tw_contexts s)\<rparr>;
          s2 = (if t \<noteq> Simple_Element then write_indentation (write_linefeed (decrease_indentation s1)) else s1)
      in put_text (close_tag name) s2)"

definition xml_string_value :: "string \<Rightarrow> text_writer \<Rightarrow> text_writer" where
  "xml_string_value val s = put_text (xml_escape val) s"

definition xml_format :: "string \<Rightarrow> text_format" where
  "xml_format encoding = \<lparr>start_scalar = xml_start_scalar, end_scalar = xml_end_scalar,
     element_start = xml_element_start encoding, element_end = xml_element_end,
     string_value = xml_string_value\<rparr>"

subsection \<open>Sequences of calls\<close>

datatype leaf = Bool_Leaf bool | Int_Leaf int | Simple_Leaf string | String_Leaf string

datatype writer_call =
  Start_Dict string | End_Dict | Start_List string int | End_List | Write_Leaf string leaf

fun write_leaf :: "text_format \<Rightarrow> string \<Rightarrow> leaf \<Rightarrow> text_writer \<Rightarrow> text_writer" where
  "write_leaf F name (Bool_Leaf b) = scalar_bool F name b"
| "write_leaf F name (Int_Leaf i) = scalar_integer F name i"
| "write_leaf F name (Simple_Leaf v) = scalar_simple F name v"
| "write_leaf F name (String_Leaf v) = scalar_string F name v"

fun call_writer :: "text_format \<Rightarrow> writer_call \<Rightarrow> text_writer \<Rightarrow> fault + text_writer" where
  "call_writer F (Start_Dict name) s = Inr (start_dict F name s)"
| "call_writer F End_Dict s = end_dict F s"
| "call_writer F (Start_List name n) s = Inr (start_list F name n s)"
| "call_writer F End_List s = end_list F s"
| "call_writer F (Write_Leaf name v) s = Inr (write_leaf F name v s)"

fun call_all :: "text_format \<Rightarrow> writer_call list \<Rightarrow> text_writer \<Rightarrow> fault + text_writer" where
  "call_all F [] s = Inr s"
| "call_all F (c # cs) s = sbind (call_writer F c s) (call_all F cs)"

lemma call_all_append: "call_all F (xs @ ys) s = sbind (call_all F xs s) (call_all F ys)"
proof (induction xs arbitrary: s)
  case (Cons c cs)
  then show ?case by (cases "call_writer F c s") auto
qed simp

text \<open>The nesting discipline: the stack of open elements as types only.\<close>

fun nest_call :: "writer_call \<Rightarrow> element_type list \<Rightarrow> element_type list option" where
  "nest_call (Start_Dict name) ts = Some (Object_Element # ts)"
| "nest_call (Start_List name n) ts = Some (Array_Element # ts)"
| "nest_call End_Dict ts = (case ts of Object_Element # r \<Rightarrow> Some r | _ \<Rightarrow> None)"
| "nest_call End_List ts = (case ts of Array_Element # r \<Rightarrow> Some r | _ \<Rightarrow> None)"
| "nest_call (Write_Leaf name v) ts = Some ts"

fun nest_all :: "writer_call list \<Rightarrow> element_type list \<Rightarrow> element_type list option" where
  "nest_all [] ts = Some ts"
| "nest_all (c # cs) ts = Option.bind (nest_call c ts) (nest_all cs)"

definition open_types :: "text_writer \<Rightarrow> element_type list" where
  "open_types s = map cx_type (tw_contexts s)"

text \<open>What the base class needs of a format: which contexts its functions leave open.\<close>

locale writer_format =
  fixes F :: text_format
  assumes scalar_types: "open_types (start_scalar F name s) = open_types s"
    "open_types (end_scalar F name s) = open_types s"
    and value_types: "open_types (string_value F val s) = open_types s"
    and start_types: "open_types (element_start F name t c s) = cx_type c # open_types s"
    and end_types: "open_types (element_end F name t c s) = tl (open_types s)"
begin

lemma leaf_types: "open_types (write_leaf F name v s) = open_types s"
  by (cases v) (simp_all add: scalar_bool_def scalar_integer_def scalar_simple_def scalar_string_def
      write_bool_value_def write_int_value_def write_simple_value_def scalar_types value_types
      put_text_def open_types_def[of "_\<lparr>tw_out := _\<rparr>"] open_types_def[symmetric])

lemma call_nest:
  "case nest_call c (open_types s) of
     None \<Rightarrow> call_writer F c s = Inl Logic_Error
   | Some ts \<Rightarrow> \<exists>s'. call_writer F c s = Inr s' \<and> open_types s' = ts"
proof (cases c)
  case End_Dict
  then show ?thesis
    using end_types by (cases "tw_contexts s"; cases "cx_type (hd (tw_contexts s))")
      (auto simp: end_dict_def open_types_def)
next
  case End_List
  then show ?thesis
    using end_types by (cases "tw_contexts s"; cases "cx_type (hd (tw_contexts s))")
      (auto simp: end_list_def open_types_def)
qed (simp_all add: start_dict_def start_list_def start_types leaf_types)

lemma calls_nest:
  "case nest_all cs (open_types s) of
     None \<Rightarrow> call_all F cs s = Inl Logic_Error
   | Some ts \<Rightarrow> \<exists>s'. call_all F cs s = Inr s' \<and> open_types s' = ts"
proof (induction cs arbitrary: s)
  case (Cons c cs)
  show ?case
  proof (cases "nest_call c (open_types s)")
    case None
    then show ?thesis using call_nest[of c s] by simp
  next
    case (Some ts)
    then obtain s1 where "call_writer F c s = Inr s1" "open_types s1 = ts"
      using call_nest[of c s] by auto
    then show ?thesis using Cons.IH[of s1] Some by (simp split: option.splits)
  qed
qed simp

end

lemma open_types_simps [simp]:
  "open_types (put_text t s) = open_types s" "open_types (write_linefeed s) = open_types s"
  "open_types (write_indentation s) = open_types s" "open_types (increase_indentation s) = open_types s"
  "open_types (decrease_indentation s) = open_types s" "open_types (json_separator s) = open_types s"
  by (auto simp: open_types_def put_text_def write_linefeed_def write_indentation_def
      increase_indentation_def decrease_indentation_def json_separator_def split: list.split)

lemma open_types_push [simp]: "open_types (s\<lparr>tw_contexts := c # tw_contexts s\<rparr>) = cx_type c # open_types s"
  "open_types (s\<lparr>tw_contexts := tl (tw_contexts s)\<rparr>) = tl (open_types s)"
  by (simp_all add: open_types_def map_tl)

interpretation json: writer_format json_format
  by unfold_locales
    (simp_all add: json_format_def json_start_scalar_def json_end_scalar_def json_string_value_def
      json_element_start_def json_element_end_def Let_def split: element_type.split)

interpretation xml: writer_format "xml_format encoding" for encoding
  by unfold_locales
    (simp_all add: xml_format_def xml_start_scalar_def xml_end_scalar_def xml_string_value_def
      xml_element_start_def xml_element_end_def Let_def)


text \<open>
  C18. Both writers accept exactly the well nested sequences of calls: whatever was written before,
  a sequence runs through without a failed assertion if and only if every end meets an open
  element of its own type, and then the open elements are those of the discipline.
\<close>

theorem writer_calls_nested:
  assumes "F = json_format \<or> F = xml_format encoding"
  shows "case nest_all cs (open_types s) of
     None \<Rightarrow> call_all F cs s = Inl Logic_Error
   | Some ts \<Rightarrow> \<exists>s'. call_all F cs s = Inr s' \<and> open_types s' = ts"
  using assms json.calls_nest[of cs s] xml.calls_nest[of encoding cs s] by auto

theorem writer_calls_nested_witness:
  "call_all json_format [Start_Dict ''a'', End_List] (text_writer_new True) = Inl Logic_Error"
  using writer_calls_nested[of json_format "[]" "[Start_Dict ''a'', End_List]" "text_writer_new True"]
  by (simp add: text_writer_new_def set_indentation_def set_linefeed_def open_types_def del: call_all.simps)

end
