(* ===== verification/Writer_Documents.thy ===== *)
theory Writer_Documents
  imports Structured_Writer
begin

text \<open>
  What the JSON and XML writers of Structured_Writer produce for a tree of values: the text of a
  recursive reference printer, with the indentation and the contexts as before. JSON documents of
  trees whose strings need no escape belong to the grammar of JSON; a string value with a quote
  changes the meaning of its document, because the writer does not escape it.
\<close>

subsection \<open>Trees and their text\<close>

datatype tree =
  Leaf_Node leaf | Dict_Node "(string \<times> tree) list" | List_Node "(string \<times> tree) list"

text \<open>The calls that write a tree under a name.\<close>

fun tree_calls :: "string \<Rightarrow> tree \<Rightarrow> writer_call list" where
  "tree_calls name (Leaf_Node v) = [Write_Leaf name v]"
| "tree_calls name (Dict_Node kids) =
     Start_Dict name # concat (map (\<lambda>(k, t). tree_calls k t) kids) @ [End_Dict]"
| "tree_calls name (List_Node kids) =
     Start_List name (int (length kids)) # concat (map (\<lambda>(k, t). tree_calls k t) kids) @ [End_List]"

text \<open>A new line with its indentation, empty for a compressed writer.\<close>

definition newline :: "text_writer \<Rightarrow> int \<Rightarrow> string" where
  "newline s ind = (if tw_compressed s then [] else tw_linefeed s @ replicate (nat ind) CHR '' '')"

fun json_leaf :: "leaf \<Rightarrow> string" where
  "json_leaf (Bool_Leaf b) = (if b then ''true'' else ''false'')"
| "json_leaf (Int_Leaf i) = numerics_format i"
| "json_leaf (Simple_Leaf v) = v"
| "json_leaf (String_Leaf v) = quoted v"

fun comma_join :: "string list \<Rightarrow> string" where
  "comma_join [] = []"
| "comma_join (x # xs) = x @ concat (map (\<lambda>y. '','' @ y) xs)"

text \<open>The reference printer: the value of a tree whose line starts at an indentation.\<close>

fun json_tree :: "text_writer \<Rightarrow> int \<Rightarrow> tree \<Rightarrow> string" where
  "json_tree w ind (Leaf_Node v) = json_leaf v"
| "json_tree w ind (Dict_Node kids) =
     ''{'' @ comma_join (map (\<lambda>(k, t). newline w (ind + tw_unit w) @ json_key k @ json_tree w (ind + tw_unit w) t) kids)
     @ newline w ind @ ''}''"
| "json_tree w ind (List_Node kids) =
     ''[ '' @ comma_join (map (\<lambda>(k, t). newline w (ind + tw_unit w) @ json_tree w (ind + tw_unit w) t) kids)
     @ newline w ind @ '']''"

definition json_item :: "text_writer \<Rightarrow> bool \<Rightarrow> int \<Rightarrow> string \<Rightarrow> tree \<Rightarrow> string" where
  "json_item w arr ind k t = newline w ind @ (if arr then [] else json_key k) @ json_tree w ind t"

definition json_document :: "text_writer \<Rightarrow> string \<Rightarrow> tree \<Rightarrow> string" where
  "json_document w name t =
     ''{'' @ json_item w False (tw_unit w) name t @ newline w 0 @ ''}''"

text \<open>What one tree does below an open element.\<close>

definition json_written :: "text_writer \<Rightarrow> string \<Rightarrow> tree \<Rightarrow> text_writer" where
  "json_written s k t =
     s\<lparr>tw_out := tw_out s @ (if cx_first (hd (tw_contexts s)) then [] else '','')
         @ json_item s (cx_type (hd (tw_contexts s)) = Array_Element) (tw_indentation s) k t,
       tw_contexts := (hd (tw_contexts s))\<lparr>cx_first := False\<rparr> # tl (tw_contexts s)\<rparr>"

definition json_writes :: "string \<Rightarrow> tree \<Rightarrow> bool" where
  "json_writes k t \<longleftrightarrow>
     (\<forall>s :: text_writer. tw_contexts s \<noteq> [] \<longrightarrow> call_all json_format (tree_calls k t) s = Inr (json_written s k t))"

lemma newline_write [simp]:
  "write_indentation (write_linefeed s) = put_text (newline s (tw_indentation s)) s"
  by (simp add: write_indentation_def write_linefeed_def newline_def put_text_def)

lemma newline_same [simp]:
  "newline (s\<lparr>tw_out := x\<rparr>) = newline s" "newline (s\<lparr>tw_contexts := c\<rparr>) = newline s"
  "newline (s\<lparr>tw_indentation := n\<rparr>) = newline s" "newline (put_text x s) = newline s"
  by (auto simp: newline_def put_text_def fun_eq_iff)

lemma json_tree_settings:
  assumes "newline w = newline s" "tw_unit w = tw_unit s"
  shows "json_tree w ind t = json_tree s ind t"
  using assms(1)
proof (induction t arbitrary: ind)
  case (Dict_Node kids)
  have "map (\<lambda>(k, t). newline w (ind + tw_unit w) @ json_key k @ json_tree w (ind + tw_unit w) t) kids
      = map (\<lambda>(k, t). newline s (ind + tw_unit s) @ json_key k @ json_tree s (ind + tw_unit s) t) kids"
    using Dict_Node assms by (intro map_cong) (auto intro!: Dict_Node.IH)
  then show ?case unfolding json_tree.simps by (simp only: assms(1))
next
  case (List_Node kids)
  have "map (\<lambda>(k, t). newline w (ind + tw_unit w) @ json_tree w (ind + tw_unit w) t) kids
      = map (\<lambda>(k, t). newline s (ind + tw_unit s) @ json_tree s (ind + tw_unit s) t) kids"
    using List_Node assms by (intro map_cong) (auto intro!: List_Node.IH)
  then show ?case unfolding json_tree.simps by (simp only: assms(1))
qed simp

lemma json_item_settings:
  "json_item (s\<lparr>tw_out := x\<rparr>) = json_item s" "json_item (s\<lparr>tw_contexts := c\<rparr>) = json_item s"
  "json_item (s\<lparr>tw_indentation := n\<rparr>) = json_item s"
  by (auto simp: json_item_def fun_eq_iff intro!: json_tree_settings)

fun json_items_from :: "text_writer \<Rightarrow> bool \<Rightarrow> bool \<Rightarrow> int \<Rightarrow> (string \<times> tree) list \<Rightarrow> string" where
  "json_items_from w arr first ind [] = []"
| "json_items_from w arr first ind ((k, t) # kids) =
     (if first then [] else '','') @ json_item w arr ind k t @ json_items_from w arr False ind kids"

lemma json_items_settings:
  "json_items_from (s\<lparr>tw_out := x\<rparr>) arr f ind kids = json_items_from s arr f ind kids"
  "json_items_from (s\<lparr>tw_contexts := c\<rparr>) arr f ind kids = json_items_from s arr f ind kids"
  "json_items_from (s\<lparr>tw_indentation := n\<rparr>) arr f ind kids = json_items_from s arr f ind kids"
  by (induction kids arbitrary: f) (auto simp: json_item_settings)

lemma json_items_join:
  "json_items_from w arr True ind kids = comma_join (map (\<lambda>(k, t). json_item w arr ind k t) kids)"
proof -
  have rest: "json_items_from w arr False ind kids = concat (map (\<lambda>y. '','' @ y) (map (\<lambda>(k, t). json_item w arr ind k t) kids))"
    for kids by (induction kids) auto
  show ?thesis by (cases kids) (auto simp: rest comp_def)
qed

lemma json_kids:
  assumes "\<forall>(k, t) \<in> set kids. json_writes k t" "tw_contexts s = c # cs"
  shows "call_all json_format (concat (map (\<lambda>(k, t). tree_calls k t) kids)) s =
    Inr (s\<lparr>tw_out := tw_out s @ json_items_from s (cx_type c = Array_Element) (cx_first c) (tw_indentation s) kids,
          tw_contexts := (if kids = [] then c else c\<lparr>cx_first := False\<rparr>) # cs\<rparr>)"
  using assms
proof (induction kids arbitrary: s c)
  case Nil
  then show ?case by simp
next
  case (Cons p kids)
  obtain k t where p: "p = (k, t)" by (cases p)
  have "call_all json_format (tree_calls k t) s = Inr (json_written s k t)"
    using Cons.prems p by (auto simp: json_writes_def)
  moreover have "tw_contexts (json_written s k t) = c\<lparr>cx_first := False\<rparr> # cs"
    using Cons.prems(2) by (simp add: json_written_def)
  moreover note Cons.IH[OF _ this]
  ultimately show ?case using Cons.prems
    by (simp add: p call_all_append json_written_def json_items_settings json_item_settings)
qed


lemma json_leaf_writes: "json_writes k (Leaf_Node v)"
  unfolding json_writes_def
proof (intro allI impI)
  fix s :: text_writer
  assume "tw_contexts s \<noteq> []"
  then obtain c cs where c: "tw_contexts s = c # cs" by (cases "tw_contexts s") auto
  show "call_all json_format (tree_calls k (Leaf_Node v)) s = Inr (json_written s k (Leaf_Node v))"
    by (cases v) (simp_all add: c scalar_bool_def scalar_integer_def scalar_simple_def scalar_string_def
        write_bool_value_def write_int_value_def write_simple_value_def json_format_def
        json_start_scalar_def json_end_scalar_def json_string_value_def json_separator_def
        in_array_def json_written_def json_item_def put_text_def)
qed

text \<open>An element between its start and its end, below an open element.\<close>

definition open_mark :: "element_type \<Rightarrow> string" where
  "open_mark t = (if t = Object_Element then ''{'' else ''[ '')"

definition close_mark :: "element_type \<Rightarrow> string" where
  "close_mark t = (if t = Object_Element then ''}'' else '']'')"

lemma json_open:
  assumes "tw_contexts s = c # cs" "t \<noteq> Simple_Element"
  shows "json_element_start k t d s =
    s\<lparr>tw_out := tw_out s @ (if cx_first c then [] else '','') @ newline s (tw_indentation s)
        @ (if cx_type c = Array_Element then [] else json_key k) @ open_mark t,
      tw_indentation := tw_indentation s + tw_unit s, tw_contexts := d # c\<lparr>cx_first := False\<rparr> # cs\<rparr>"
  using assms
  by (cases t) (simp_all add: json_element_start_def json_separator_def in_array_def Let_def
      increase_indentation_def put_text_def open_mark_def)

lemma json_open_top:
  assumes "tw_contexts s = []" "t \<noteq> Simple_Element"
  shows "json_element_start k t d s =
    s\<lparr>tw_out := tw_out s @ ''{'' @ newline s (tw_indentation s + tw_unit s) @ json_key k @ open_mark t,
      tw_indentation := tw_indentation s + tw_unit s + tw_unit s, tw_contexts := [d]\<rparr>"
  using assms
  by (cases t) (simp_all add: json_element_start_def json_separator_def in_array_def Let_def
      increase_indentation_def put_text_def open_mark_def)

lemma json_close:
  assumes "tw_contexts s = d # c # cs" "t \<noteq> Simple_Element"
  shows "json_element_end k t e s =
    s\<lparr>tw_out := tw_out s @ newline s (tw_indentation s - tw_unit s) @ close_mark t,
      tw_indentation := tw_indentation s - tw_unit s, tw_contexts := c # cs\<rparr>"
  using assms
  by (cases t) (simp_all add: json_element_end_def Let_def decrease_indentation_def put_text_def close_mark_def)

lemma newline_0: "write_linefeed s = put_text (newline s 0) s"
  by (simp add: write_linefeed_def newline_def put_text_def)

lemma json_close_top:
  assumes "tw_contexts s = [d]" "t \<noteq> Simple_Element"
  shows "json_element_end k t e s =
    s\<lparr>tw_out := tw_out s @ newline s (tw_indentation s - tw_unit s) @ close_mark t @ newline s 0 @ ''}'',
      tw_indentation := tw_indentation s - tw_unit s - tw_unit s, tw_contexts := []\<rparr>"
  using assms
  by (cases t; simp add: json_element_end_def Let_def decrease_indentation_def put_text_def close_mark_def;
      simp add: newline_0 put_text_def)

text \<open>A whole element: its calls are a start, the calls of its items and an end of the same type.\<close>

lemma json_element_writes:
  fixes k :: string and s :: text_writer and d :: writer_context
  assumes kids: "\<forall>(k, t) \<in> set kids. json_writes k t"
    and ctx: "cx_first d" "cx_type d = t" "t \<noteq> Simple_Element"
    and s: "tw_contexts s = c # cs"
  defines "s1 \<equiv> json_element_start k t d s"
  obtains s2 where "call_all json_format (concat (map (\<lambda>(k, t). tree_calls k t) kids)) s1 = Inr s2"
    "\<exists>d' r. tw_contexts s2 = d' # r \<and> cx_type d' = t"
    "\<And>n e. json_element_end n t e s2 =
      s\<lparr>tw_out := tw_out s @ (if cx_first c then [] else '','') @ newline s (tw_indentation s)
        @ (if cx_type c = Array_Element then [] else json_key k) @ open_mark t
        @ json_items_from s (t = Array_Element) True (tw_indentation s + tw_unit s) kids
        @ newline s (tw_indentation s) @ close_mark t,
        tw_contexts := c\<lparr>cx_first := False\<rparr> # cs\<rparr>"
proof -
  note start = json_open[OF s ctx(3), of k d]
  have "tw_contexts s1 = d # c\<lparr>cx_first := False\<rparr> # cs" unfolding s1_def start by simp
  note body = json_kids[OF kids this]
  show ?thesis
    by (rule that[OF body]) (use ctx in \<open>simp_all add: s1_def start json_close json_items_settings\<close>)
qed

lemma json_dict_writes:
  assumes kids: "\<forall>(k, t) \<in> set kids. json_writes k t"
  shows "json_writes k (Dict_Node kids)"
  unfolding json_writes_def
proof (intro allI impI)
  fix s :: text_writer
  let ?d = "\<lparr>cx_name = k, cx_first = True, cx_array_size = -1, cx_type = Object_Element\<rparr>"
  assume "tw_contexts s \<noteq> []"
  then obtain c cs where c: "tw_contexts s = c # cs" by (cases "tw_contexts s") auto
  obtain s2 where s2: "call_all json_format (concat (map (\<lambda>(k, t). tree_calls k t) kids))
      (json_element_start k Object_Element ?d s) = Inr s2"
    and ctx: "\<exists>d' r. tw_contexts s2 = d' # r \<and> cx_type d' = Object_Element"
    and fin: "\<And>n e. json_element_end n Object_Element e s2 = json_written s k (Dict_Node kids)"
    by (rule json_element_writes[OF kids, of ?d Object_Element s c cs k])
      (auto simp: c json_written_def json_item_def json_items_join open_mark_def close_mark_def)
  then show "call_all json_format (tree_calls k (Dict_Node kids)) s = Inr (json_written s k (Dict_Node kids))"
    by (auto simp: call_all_append start_dict_def end_dict_def json_format_def)
qed

lemma json_list_writes:
  assumes kids: "\<forall>(k, t) \<in> set kids. json_writes k t"
  shows "json_writes k (List_Node kids)"
  unfolding json_writes_def
proof (intro allI impI)
  fix s :: text_writer
  let ?d = "\<lparr>cx_name = k, cx_first = True, cx_array_size = int (length kids), cx_type = Array_Element\<rparr>"
  assume "tw_contexts s \<noteq> []"
  then obtain c cs where c: "tw_contexts s = c # cs" by (cases "tw_contexts s") auto
  obtain s2 where s2: "call_all json_format (concat (map (\<lambda>(k, t). tree_calls k t) kids))
      (json_element_start k Array_Element ?d s) = Inr s2"
    and ctx: "\<exists>d' r. tw_contexts s2 = d' # r \<and> cx_type d' = Array_Element"
    and fin: "\<And>n e. json_element_end n Array_Element e s2 = json_written s k (List_Node kids)"
    by (rule json_element_writes[OF kids, of ?d Array_Element s c cs k])
      (auto simp: c json_written_def json_item_def json_items_join open_mark_def close_mark_def)
  then show "call_all json_format (tree_calls k (List_Node kids)) s = Inr (json_written s k (List_Node kids))"
    by (auto simp: call_all_append start_list_def end_list_def json_format_def)
qed


lemma json_all_writes: "json_writes k t"
proof (induction t arbitrary: k)
  case (Leaf_Node v)
  show ?case by (rule json_leaf_writes)
next
  case (Dict_Node kids)
  show ?case by (rule json_dict_writes) (auto intro: Dict_Node.IH)
next
  case (List_Node kids)
  show ?case by (rule json_list_writes) (auto intro: List_Node.IH)
qed

text \<open>At the top a writer opens an object around its first element and closes it behind.\<close>

lemma json_top:
  fixes s :: text_writer
  assumes s: "tw_contexts s = []" "tw_indentation s = 0"
    and d: "cx_first d" "cx_type d = t" "t \<noteq> Simple_Element"
  obtains s2 where "call_all json_format (concat (map (\<lambda>(k, t). tree_calls k t) kids)) (json_element_start k t d s) = Inr s2"
    "\<exists>d'. tw_contexts s2 = [d'] \<and> cx_type d' = t"
    "\<And>n e. json_element_end n t e s2 =
      s\<lparr>tw_out := tw_out s @ ''{'' @ newline s (tw_unit s) @ json_key k @ open_mark t
        @ json_items_from s (t = Array_Element) True (tw_unit s + tw_unit s) kids
        @ newline s (tw_unit s) @ close_mark t @ newline s 0 @ ''}''\<rparr>"
proof -
  note start = json_open_top[OF s(1) d(3), of k d]
  have kids: "\<forall>(k, t) \<in> set kids. json_writes k t" using json_all_writes by auto
  have "tw_contexts (json_element_start k t d s) = [d]" unfolding start by simp
  note body = json_kids[OF kids this]
  show ?thesis
    by (rule that[OF body]) (use d s in \<open>simp_all add: start json_close_top json_items_settings\<close>)
qed

fun is_element :: "tree \<Rightarrow> bool" where
  "is_element (Leaf_Node v) = False"
| "is_element _ = True"

lemma json_document_ok:
  fixes s :: text_writer
  assumes s: "tw_contexts s = []" "tw_indentation s = 0" and t: "is_element t"
  shows "call_all json_format (tree_calls name t) s = Inr (put_text (json_document s name t) s)"
proof (cases t)
  case (Dict_Node kids)
  let ?d = "\<lparr>cx_name = name, cx_first = True, cx_array_size = -1, cx_type = Object_Element\<rparr>"
  obtain s2 where "call_all json_format (concat (map (\<lambda>(k, t). tree_calls k t) kids))
      (json_element_start name Object_Element ?d s) = Inr s2"
    "\<exists>d'. tw_contexts s2 = [d'] \<and> cx_type d' = Object_Element"
    "\<And>n e. json_element_end n Object_Element e s2 = put_text (json_document s name t) s"
    by (rule json_top[OF s, of ?d Object_Element kids name])
      (auto simp: Dict_Node json_document_def json_item_def json_items_join open_mark_def close_mark_def put_text_def)
  then show ?thesis unfolding Dict_Node
    by (auto simp: call_all_append start_dict_def end_dict_def json_format_def)
next
  case (List_Node kids)
  let ?d = "\<lparr>cx_name = name, cx_first = True, cx_array_size = int (length kids), cx_type = Array_Element\<rparr>"
  obtain s2 where "call_all json_format (concat (map (\<lambda>(k, t). tree_calls k t) kids))
      (json_element_start name Array_Element ?d s) = Inr s2"
    "\<exists>d'. tw_contexts s2 = [d'] \<and> cx_type d' = Array_Element"
    "\<And>n e. json_element_end n Array_Element e s2 = put_text (json_document s name t) s"
    by (rule json_top[OF s, of ?d Array_Element kids name])
      (auto simp: List_Node json_document_def json_item_def json_items_join open_mark_def close_mark_def put_text_def)
  then show ?thesis unfolding List_Node
    by (auto simp: call_all_append start_list_def end_list_def json_format_def)
qed (use t in simp)


subsection \<open>XML documents\<close>

fun xml_leaf :: "leaf \<Rightarrow> string" where
  "xml_leaf (String_Leaf v) = xml_escape v"
| "xml_leaf v = json_leaf v"

fun xml_tree :: "text_writer \<Rightarrow> int \<Rightarrow> string \<Rightarrow> tree \<Rightarrow> string" where
  "xml_tree w ind k (Leaf_Node v) = open_tag k @ xml_leaf v @ close_tag k"
| "xml_tree w ind k (Dict_Node kids) =
     open_tag k @ concat (map (\<lambda>(k, t). newline w (ind + tw_unit w) @ xml_tree w (ind + tw_unit w) k t) kids)
     @ newline w ind @ close_tag k"
| "xml_tree w ind k (List_Node kids) =
     array_tag k (int (length kids))
     @ concat (map (\<lambda>(k, t). newline w (ind + tw_unit w) @ xml_tree w (ind + tw_unit w) k t) kids)
     @ newline w ind @ close_tag k"

definition xml_document :: "text_writer \<Rightarrow> string \<Rightarrow> string \<Rightarrow> tree \<Rightarrow> string" where
  "xml_document w encoding name t = xml_declaration encoding @ xml_tree w 0 name t"

definition xml_writes :: "string \<Rightarrow> string \<Rightarrow> tree \<Rightarrow> bool" where
  "xml_writes encoding k t \<longleftrightarrow>
     (\<forall>s :: text_writer. tw_contexts s \<noteq> [] \<longrightarrow> call_all (xml_format encoding) (tree_calls k t) s
        = Inr (put_text (newline s (tw_indentation s) @ xml_tree s (tw_indentation s) k t) s))"

lemma xml_tree_settings:
  assumes "newline w = newline s" "tw_unit w = tw_unit s"
  shows "xml_tree w ind k t = xml_tree s ind k t"
  using assms(1)
proof (induction t arbitrary: ind k)
  case (Dict_Node kids)
  have "map (\<lambda>(k, t). newline w (ind + tw_unit w) @ xml_tree w (ind + tw_unit w) k t) kids
      = map (\<lambda>(k, t). newline s (ind + tw_unit s) @ xml_tree s (ind + tw_unit s) k t) kids"
    using Dict_Node assms by (intro map_cong) (auto intro!: Dict_Node.IH)
  then show ?case unfolding xml_tree.simps by (simp only: assms(1))
next
  case (List_Node kids)
  have "map (\<lambda>(k, t). newline w (ind + tw_unit w) @ xml_tree w (ind + tw_unit w) k t) kids
      = map (\<lambda>(k, t). newline s (ind + tw_unit s) @ xml_tree s (ind + tw_unit s) k t) kids"
    using List_Node assms by (intro map_cong) (auto intro!: List_Node.IH)
  then show ?case unfolding xml_tree.simps by (simp only: assms(1))
qed simp

lemma put_text_fields [simp]:
  "tw_contexts (put_text x s) = tw_contexts s" "tw_indentation (put_text x s) = tw_indentation s"
  "tw_unit (put_text x s) = tw_unit s" "put_text y (put_text x s) = put_text (x @ y) s"
  "put_text [] s = s"
  by (simp_all add: put_text_def)

lemma xml_kids:
  assumes "\<forall>(k, t) \<in> set kids. xml_writes encoding k t" "tw_contexts s \<noteq> []"
  shows "call_all (xml_format encoding) (concat (map (\<lambda>(k, t). tree_calls k t) kids)) s =
    Inr (put_text (concat (map (\<lambda>(k, t). newline s (tw_indentation s) @ xml_tree s (tw_indentation s) k t) kids)) s)"
  using assms
proof (induction kids arbitrary: s)
  case Nil
  then show ?case by simp
next
  case (Cons p kids)
  obtain k t where p: "p = (k, t)" by (cases p)
  let ?o = "newline s (tw_indentation s) @ xml_tree s (tw_indentation s) k t"
  have "call_all (xml_format encoding) (tree_calls k t) s = Inr (put_text ?o s)"
    using Cons.prems p by (auto simp: xml_writes_def)
  moreover have "xml_tree (put_text ?o s) = xml_tree s"
    by (intro ext xml_tree_settings) simp_all
  ultimately show ?case using Cons.IH[of "put_text ?o s"] Cons.prems
    by (simp add: p call_all_append)
qed

text \<open>An element behind its start tag, with any text in front of it.\<close>

lemma xml_element_body:
  fixes s :: text_writer and x k :: string and t :: element_type
  assumes "\<forall>(k, t) \<in> set kids. xml_writes encoding k t" "cx_type d = t" "t \<noteq> Simple_Element"
  defines "s1 \<equiv> (increase_indentation (put_text x s))\<lparr>tw_contexts := d # tw_contexts s\<rparr>"
  obtains s2 where "call_all (xml_format encoding) (concat (map (\<lambda>(k, t). tree_calls k t) kids)) s1 = Inr s2"
    "\<exists>r. tw_contexts s2 = d # r"
    "\<And>e. xml_element_end k t e s2 =
      put_text (x @ concat (map (\<lambda>(k, t). newline s (tw_indentation s + tw_unit s)
          @ xml_tree s (tw_indentation s + tw_unit s) k t) kids)
        @ newline s (tw_indentation s) @ close_tag k) s"
proof -
  have "tw_contexts s1 \<noteq> []" by (simp add: s1_def)
  note body = xml_kids[OF assms(1) this]
  have nl: "newline s1 = newline s" "tw_unit s1 = tw_unit s" "tw_indentation s1 = tw_indentation s + tw_unit s"
    by (simp_all add: s1_def increase_indentation_def)
  then have tree: "xml_tree s1 = xml_tree s" by (intro ext xml_tree_settings) simp_all
  have fin: "xml_element_end k t e (put_text y s1)
      = put_text (x @ y @ newline s (tw_indentation s) @ close_tag k) s" for y e
    using assms(3)
    by (simp add: xml_element_end_def Let_def s1_def increase_indentation_def decrease_indentation_def)
      (simp add: put_text_def)
  show ?thesis
    by (rule that[OF body]) (simp_all add: fin nl tree, simp add: s1_def)
qed

lemma xml_format_end: "element_end (xml_format encoding) = xml_element_end"
  by (simp add: xml_format_def)

lemma xml_dict_calls:
  fixes s :: text_writer
  assumes "start_dict (xml_format encoding) k s = (increase_indentation (put_text x s))\<lparr>tw_contexts := d # tw_contexts s\<rparr>"
    and "cx_type d = Object_Element" "cx_name d = k" "\<forall>(k, t) \<in> set kids. xml_writes encoding k t"
  shows "call_all (xml_format encoding) (tree_calls k (Dict_Node kids)) s =
    Inr (put_text (x @ concat (map (\<lambda>(k, t). newline s (tw_indentation s + tw_unit s)
        @ xml_tree s (tw_indentation s + tw_unit s) k t) kids) @ newline s (tw_indentation s) @ close_tag k) s)"
  by (rule xml_element_body[OF assms(4,2), where x = x and s = s and k = k])
    (auto simp: call_all_append assms(1-3) end_dict_def xml_format_end)

lemma xml_list_calls:
  fixes s :: text_writer
  assumes "start_list (xml_format encoding) k (int (length kids)) s
      = (increase_indentation (put_text x s))\<lparr>tw_contexts := d # tw_contexts s\<rparr>"
    and "cx_type d = Array_Element" "cx_name d = k" "\<forall>(k, t) \<in> set kids. xml_writes encoding k t"
  shows "call_all (xml_format encoding) (tree_calls k (List_Node kids)) s =
    Inr (put_text (x @ concat (map (\<lambda>(k, t). newline s (tw_indentation s + tw_unit s)
        @ xml_tree s (tw_indentation s + tw_unit s) k t) kids) @ newline s (tw_indentation s) @ close_tag k) s)"
  by (rule xml_element_body[OF assms(4,2), where x = x and s = s and k = k])
    (auto simp: call_all_append assms(1-3) end_list_def xml_format_end)

text \<open>What stands in front of an element: the declaration at the top, a new line elsewhere.\<close>

definition xml_before :: "string \<Rightarrow> text_writer \<Rightarrow> string" where
  "xml_before encoding s =
     (if tw_contexts s = [] then xml_declaration encoding else newline s (tw_indentation s))"

lemma xml_starts:
  assumes "tw_contexts s = [] \<longrightarrow> tw_indentation s = 0"
  shows "start_dict (xml_format encoding) k s =
      (increase_indentation (put_text (xml_before encoding s @ open_tag k) s))\<lparr>tw_contexts :=
        \<lparr>cx_name = k, cx_first = True, cx_array_size = -1, cx_type = Object_Element\<rparr> # tw_contexts s\<rparr>"
    and "start_list (xml_format encoding) k n s =
      (increase_indentation (put_text (xml_before encoding s @ array_tag k n) s))\<lparr>tw_contexts :=
        \<lparr>cx_name = k, cx_first = True, cx_array_size = n, cx_type = Array_Element\<rparr> # tw_contexts s\<rparr>"
  using assms
  by (auto simp: start_dict_def start_list_def xml_format_def xml_element_start_def
      increase_indentation_def Let_def xml_before_def write_indentation_def[of "put_text _ s"])

lemma xml_element_calls:
  fixes s :: text_writer
  assumes "tw_contexts s = [] \<longrightarrow> tw_indentation s = 0" "is_element t"
    "\<And>kids k t'. t = Dict_Node kids \<or> t = List_Node kids \<Longrightarrow> (k, t') \<in> set kids \<Longrightarrow> xml_writes encoding k t'"
  shows "call_all (xml_format encoding) (tree_calls k t) s
    = Inr (put_text (xml_before encoding s @ xml_tree s (tw_indentation s) k t) s)"
proof (cases t)
  case (Dict_Node kids)
  then have "\<forall>(k, t) \<in> set kids. xml_writes encoding k t" using assms(3) by auto
  from xml_dict_calls[OF xml_starts(1)[OF assms(1)] _ _ this] show ?thesis
    by (simp add: Dict_Node del: tree_calls.simps)
next
  case (List_Node kids)
  then have "\<forall>(k, t) \<in> set kids. xml_writes encoding k t" using assms(3) by auto
  from xml_list_calls[OF xml_starts(2)[OF assms(1)] _ _ this] show ?thesis
    by (simp add: List_Node del: tree_calls.simps)
qed (use assms(2) in simp)

lemma xml_all_writes: "xml_writes encoding k t"
proof (induction t arbitrary: k)
  case (Leaf_Node v)
  show ?case unfolding xml_writes_def
    by (cases v) (simp_all add: scalar_bool_def scalar_integer_def scalar_simple_def scalar_string_def
        write_bool_value_def write_int_value_def write_simple_value_def xml_format_def
        xml_start_scalar_def xml_end_scalar_def xml_string_value_def)
next
  case (Dict_Node kids)
  have "call_all (xml_format encoding) (tree_calls k (Dict_Node kids)) s
      = Inr (put_text (xml_before encoding s @ xml_tree s (tw_indentation s) k (Dict_Node kids)) s)"
    if "tw_contexts s \<noteq> []" for s :: text_writer
    using that by (intro xml_element_calls) (auto intro: Dict_Node.IH)
  then show ?case unfolding xml_writes_def by (simp add: xml_before_def del: tree_calls.simps)
next
  case (List_Node kids)
  have "call_all (xml_format encoding) (tree_calls k (List_Node kids)) s
      = Inr (put_text (xml_before encoding s @ xml_tree s (tw_indentation s) k (List_Node kids)) s)"
    if "tw_contexts s \<noteq> []" for s :: text_writer
    using that by (intro xml_element_calls) (auto intro: List_Node.IH)
  then show ?case unfolding xml_writes_def by (simp add: xml_before_def del: tree_calls.simps)
qed

text \<open>
  C17. A fresh writer given the calls of a tree (a dictionary or a list with anything inside)
  produces exactly the text of the recursive printer, JSON or XML, and ends with the indentation
  and the open elements it started with.
\<close>

theorem writers_print_trees:
  assumes "tw_contexts s = []" "tw_indentation s = 0" "is_element t"
  shows "call_all json_format (tree_calls name t) s = Inr (put_text (json_document s name t) s) \<and>
    call_all (xml_format encoding) (tree_calls name t) s = Inr (put_text (xml_document s encoding name t) s)"
proof
  show "call_all json_format (tree_calls name t) s = Inr (put_text (json_document s name t) s)"
    by (rule json_document_ok[OF assms])
  have "call_all (xml_format encoding) (tree_calls name t) s
      = Inr (put_text (xml_before encoding s @ xml_tree s (tw_indentation s) name t) s)"
    using assms by (intro xml_element_calls xml_all_writes) simp_all
  then show "call_all (xml_format encoding) (tree_calls name t) s = Inr (put_text (xml_document s encoding name t) s)"
    using assms by (simp add: xml_before_def xml_document_def)
qed

theorem writers_print_trees_witness:
  "call_all json_format [Start_Dict ''r'', Write_Leaf ''a'' (Bool_Leaf True), End_Dict] (text_writer_new True)
    = Inr (put_text (''{'' @ json_key ''r'' @ ''{'' @ json_key ''a'' @ ''true}}'') (text_writer_new True))"
  using writers_print_trees[of "text_writer_new True" "Dict_Node [(''a'', Leaf_Node (Bool_Leaf True))]" "''r''" "[]"]
  by (simp add: text_writer_new_def set_indentation_def set_linefeed_def json_document_def json_item_def
      newline_def del: call_all.simps) 


subsection \<open>JSON documents and the grammar\<close>

text \<open>
  The grammar of JSON as far as it concerns the writer: white space, strings without escapes,
  the literals and integers, arrays and objects.
\<close>

definition json_space :: "string \<Rightarrow> bool" where
  "json_space w \<longleftrightarrow> list_all (\<lambda>c. c \<in> {CHR '' '', CHR 0x0A, CHR 0x0D, CHR 0x09}) w"

definition json_plain :: "string \<Rightarrow> bool" where
  "json_plain t \<longleftrightarrow> list_all (\<lambda>c. c \<noteq> CHR 0x22 \<and> c \<noteq> CHR 0x5C \<and> 32 \<le> code_of c) t"

inductive json_value :: "string \<Rightarrow> bool"
  and json_elements :: "string \<Rightarrow> bool"
  and json_members :: "string \<Rightarrow> bool" where
  literal: "v \<in> {''true'', ''false'', ''null''} \<Longrightarrow> json_value v"
| number: "json_value (numerics_format i)"
| string_literal: "json_plain t \<Longrightarrow> json_value (quoted t)"
| empty_array: "json_space w \<Longrightarrow> json_value (''['' @ w @ '']'')"
| array: "json_elements e \<Longrightarrow> json_value (''['' @ e @ '']'')"
| empty_object: "json_space w \<Longrightarrow> json_value (''{'' @ w @ ''}'')"
| object: "json_members m \<Longrightarrow> json_value (''{'' @ m @ ''}'')"
| element: "json_space a \<Longrightarrow> json_value v \<Longrightarrow> json_space b \<Longrightarrow> json_elements (a @ v @ b)"
| elements: "json_elements e \<Longrightarrow> json_elements f \<Longrightarrow> json_elements (e @ '','' @ f)"
| member: "json_space a \<Longrightarrow> json_plain k \<Longrightarrow> json_space b \<Longrightarrow> json_space c \<Longrightarrow> json_value v \<Longrightarrow> json_space d
    \<Longrightarrow> json_members (a @ quoted k @ b @ '':'' @ c @ v @ d)"
| members: "json_members m \<Longrightarrow> json_members n \<Longrightarrow> json_members (m @ '','' @ n)"

text \<open>Trees whose names and strings need no escape and whose simple values are literals.\<close>

fun json_leaf_ok :: "leaf \<Rightarrow> bool" where
  "json_leaf_ok (Simple_Leaf v) \<longleftrightarrow> v \<in> {''true'', ''false'', ''null''}"
| "json_leaf_ok (String_Leaf v) \<longleftrightarrow> json_plain v"
| "json_leaf_ok _ \<longleftrightarrow> True"

fun json_tree_ok :: "tree \<Rightarrow> bool" where
  "json_tree_ok (Leaf_Node v) = json_leaf_ok v"
| "json_tree_ok (Dict_Node kids) = list_all (\<lambda>(k, t). json_plain k \<and> json_tree_ok t) kids"
| "json_tree_ok (List_Node kids) = list_all (\<lambda>(k, t). json_tree_ok t) kids"

lemma json_space_simps [simp]: "json_space []" "json_space '' ''"
  "json_space (a @ b) \<longleftrightarrow> json_space a \<and> json_space b"
  by (auto simp: json_space_def)

lemma json_space_Cons [simp]: "json_space (CHR '' '' # w) \<longleftrightarrow> json_space w"
  by (simp add: json_space_def)

lemma json_space_replicate [simp]: "json_space (replicate n CHR '' '')"
  by (induction n) simp_all

lemma json_space_newline: "json_space (tw_linefeed w) \<Longrightarrow> json_space (newline w ind)"
  by (simp add: newline_def)

lemma json_join_elements:
  assumes "xs \<noteq> []" "\<forall>x \<in> set xs. \<exists>a v. x = a @ v \<and> json_space a \<and> json_value v"
    "json_space p" "json_space d"
  shows "json_elements (p @ comma_join xs @ d)"
  using assms(1-3)
proof (induction xs arbitrary: p)
  case Nil
  then show ?case by simp
next
  case (Cons x xs)
  then obtain a v where x: "x = a @ v" "json_space a" "json_value v" by auto
  have one: "json_elements (p @ x @ e)" if "json_space e" for e
    using element[of "p @ a", OF _ x(3) that] x Cons.prems(3) by simp
  show ?case
  proof (cases xs)
    case Nil
    then show ?thesis using one[OF assms(4)] by simp
  next
    case Cons2: (Cons y ys)
    have "json_elements (comma_join xs @ d)" using Cons.IH[of "[]"] Cons.prems Cons2 by simp
    from elements[OF one[of "[]"] this] show ?thesis by (simp add: Cons2)
  qed
qed

lemma json_join_members:
  assumes "xs \<noteq> []" "\<forall>x \<in> set xs. \<exists>a k v. x = a @ json_key k @ v \<and> json_space a \<and> json_plain k \<and> json_value v"
    "json_space d"
  shows "json_members (comma_join xs @ d)"
  using assms(1,2)
proof (induction xs)
  case Nil
  then show ?case by simp
next
  case (Cons x xs)
  then obtain a k v where x: "x = a @ json_key k @ v" "json_space a" "json_plain k" "json_value v" by auto
  have one: "json_members (x @ e)" if "json_space e" for e
    using member[OF x(2,3) _ _ x(4) that, of "'' ''" "'' ''"] by (simp add: x(1) json_key_def)
  show ?case
  proof (cases xs)
    case Nil
    then show ?thesis using one[OF assms(3)] by simp
  next
    case Cons2: (Cons y ys)
    have "json_members (comma_join xs @ d)" using Cons Cons2 by simp
    from members[OF one[of "[]"] this] show ?thesis by (simp add: Cons2)
  qed
qed

lemma json_tree_value:
  assumes "json_space (tw_linefeed w)" "json_tree_ok t"
  shows "json_value (json_tree w ind t)"
  using assms(2)
proof (induction t arbitrary: ind)
  case (Leaf_Node v)
  then show ?case by (cases v) (auto intro: json_value_json_elements_json_members.intros)
next
  case (Dict_Node kids)
  note nl = json_space_newline[OF assms(1)]
  show ?case
  proof (cases kids)
    case Nil
    then show ?thesis using empty_object[OF nl] by simp
  next
    case (Cons p ps)
    let ?xs = "map (\<lambda>(k, t). newline w (ind + tw_unit w) @ json_key k @ json_tree w (ind + tw_unit w) t) kids"
    have "\<forall>x \<in> set ?xs. \<exists>a k v. x = a @ json_key k @ v \<and> json_space a \<and> json_plain k \<and> json_value v"
      using Dict_Node nl by (fastforce simp: list_all_iff)
    moreover have "?xs \<noteq> []" using Cons by simp
    ultimately have "json_members (comma_join ?xs @ newline w ind)" using nl by (intro json_join_members)
    from object[OF this] show ?thesis by simp
  qed
next
  case (List_Node kids)
  note nl = json_space_newline[OF assms(1)]
  show ?case
  proof (cases kids)
    case Nil
    then show ?thesis using empty_array[of "'' '' @ newline w ind"] nl by simp
  next
    case (Cons p ps)
    let ?xs = "map (\<lambda>(k, t). newline w (ind + tw_unit w) @ json_tree w (ind + tw_unit w) t) kids"
    have "\<forall>x \<in> set ?xs. \<exists>a v. x = a @ v \<and> json_space a \<and> json_value v"
      using List_Node nl by (fastforce simp: list_all_iff)
    moreover have "?xs \<noteq> []" using Cons by simp
    ultimately have "json_elements ('' '' @ comma_join ?xs @ newline w ind)"
      using nl by (intro json_join_elements) simp_all
    from array[OF this] show ?thesis by simp
  qed
qed

text \<open>
  The document of a tree whose names and strings need no escape is a JSON value, for every
  setting of the writer whose line feed is white space. A string value is written without
  escapes: a list of one string with a quote in it has the same text as a list of two strings.
\<close>

theorem json_documents_valid:
  assumes "json_space (tw_linefeed s)" "json_tree_ok t" "json_plain name"
  shows "json_value (json_document s name t) \<and>
    json_tree w ind (List_Node [(k, Leaf_Node (String_Leaf (a @ CHR 0x22 # CHR '','' # newline w (ind + tw_unit w) @ CHR 0x22 # b)))])
    = json_tree w ind (List_Node [(k, Leaf_Node (String_Leaf a)), (k, Leaf_Node (String_Leaf b))])"
proof (rule conjI)
  have "\<exists>a k v. json_item s False (tw_unit s) name t = a @ json_key k @ v \<and> json_space a \<and> json_plain k \<and> json_value v"
    unfolding json_item_def
    using json_space_newline[OF assms(1)] assms(3) json_tree_value[OF assms(1,2)]
    by (intro exI[of _ "newline s (tw_unit s)"] exI[of _ name] exI[of _ "json_tree s (tw_unit s) t"]) simp
  then have "json_members (comma_join [json_item s False (tw_unit s) name t] @ newline s 0)"
    using json_space_newline[OF assms(1)] by (intro json_join_members) simp_all
  from object[OF this] show "json_value (json_document s name t)"
    by (simp add: json_document_def)
qed (simp add: quoted_def)

theorem json_documents_valid_witness:
  "json_value (json_document (text_writer_new False) ''r'' (List_Node [(''x'', Leaf_Node (Bool_Leaf True))]))"
  using json_documents_valid[of "text_writer_new False" "List_Node [(''x'', Leaf_Node (Bool_Leaf True))]" "''r''"]
  by (simp add: text_writer_new_def set_indentation_def set_linefeed_def json_space_def json_plain_def code_of_def)

end
