(* ===== verification/Http_Request.thy ===== *)
theory Http_Request
  imports Http_Stream Http_Ranges Simple_Uri
begin

text \<open>
  HTTP requests: \<^verbatim>\<open>include/xul/net/http/http_request.hpp\<close> on the URI of Simple_Uri and the headers of
  Http_Message, and the request line of \<^verbatim>\<open>http_request_parser.hpp\<close>. A request keeps its URL twice, as it
  was set and encoded; the encoded one is printed.
\<close>

record http_request =
  rq_message :: http_message
  rq_method :: string
  rq_uri :: simple_uri
  rq_encoded_uri :: simple_uri

definition rq_clear :: "http_request \<Rightarrow> http_request" where
  "rq_clear r = r\<lparr>rq_method := [], rq_uri := uri_clear (rq_uri r), rq_encoded_uri := uri_clear (rq_encoded_uri r),
     rq_message := hm_clear (rq_message r)\<rparr>"

definition rq_new :: http_request where
  "rq_new = rq_clear \<lparr>rq_message = \<lparr>hm_headers = [], hm_protocol_name = [], hm_protocol_version = []\<rparr>, rq_method = [],
     rq_uri = uri_init, rq_encoded_uri = uri_init\<rparr>"

text \<open>\<open>clone\<close> builds a new request, which its constructor clears with the URIs it was given.\<close>

definition rq_clone :: "http_request \<Rightarrow> http_request" where
  "rq_clone r =
     (let copy = rq_clear \<lparr>rq_message = \<lparr>hm_headers = [], hm_protocol_name = [], hm_protocol_version = []\<rparr>,
                    rq_method = [], rq_uri = rq_uri r, rq_encoded_uri = rq_encoded_uri r\<rparr>
      in copy\<lparr>rq_method := rq_method r, rq_message := rq_message r\<rparr>)"

definition rq_set_method :: "string \<Rightarrow> http_request \<Rightarrow> http_request" where
  "rq_set_method val r = r\<lparr>rq_method := val\<rparr>"

definition rq_set_url :: "string option \<Rightarrow> http_request \<Rightarrow> http_request" where
  "rq_set_url url r =
     (case url of
        Some s \<Rightarrow> r\<lparr>rq_uri := snd (uri_parse (Some s) (rq_uri r)),
                    rq_encoded_uri := uri_encode (snd (uri_parse (Some s) (rq_encoded_uri r)))\<rparr>
      | None \<Rightarrow> r\<lparr>rq_uri := uri_clear (rq_uri r), rq_encoded_uri := uri_clear (rq_encoded_uri r)\<rparr>)"

definition rq_get_url :: "http_request \<Rightarrow> string" where
  "rq_get_url r = uri_original_string (rq_uri r)"

definition rq_print :: "http_request \<Rightarrow> string" where
  "rq_print r = rq_method r @ '' '' @ uri_original_string (rq_encoded_uri r) @ '' '' @
     hm_protocol_name (rq_message r) @ ''/'' @ hm_protocol_version (rq_message r) @ crlf @ write_headers (rq_message r)"

definition rq_get_header :: "string \<Rightarrow> string \<Rightarrow> http_request \<Rightarrow> string" where
  "rq_get_header key default_val r = sa_get string_iequal_to key default_val (hm_headers (rq_message r))"

definition rq_set_header :: "string \<Rightarrow> string \<Rightarrow> http_request \<Rightarrow> http_request" where
  "rq_set_header name val r = r\<lparr>rq_message := hm_set_header name val (rq_message r)\<rparr>"

definition rq_set_protocol :: "string \<Rightarrow> string \<Rightarrow> http_request \<Rightarrow> http_request" where
  "rq_set_protocol name ver r = r\<lparr>rq_message := (rq_message r)\<lparr>hm_protocol_name := name, hm_protocol_version := ver\<rparr>\<rparr>"

text \<open>\<open>url_messages::get_content_length\<close> of a request.\<close>

definition rq_content_length :: "http_request \<Rightarrow> int" where
  "rq_content_length r = numerics_parse (rq_get_header ''Content-Length'' [] r) (- 1)"

subsection \<open>http_request_parser\<close>

definition parse_request_line :: "(string \<Rightarrow> string list) \<Rightarrow> string \<Rightarrow> http_request \<Rightarrow> int \<times> http_request" where
  "parse_request_line split_slash line r =
     (case split_of line [CHR '' '', CHR 0x09] 0 of
        Some [meth, url, proto] \<Rightarrow>
          (let (ret, r) = parse_protocol split_slash rq_set_protocol proto r in
           if ret < 0 then (ret, r)
           else (0, rq_set_url (Some (c_str url)) (rq_set_method (c_str meth) r)))
      | _ \<Rightarrow> (- 1, r))"

definition request_parse ::
    "(string \<Rightarrow> string) \<Rightarrow> (string \<Rightarrow> string list) \<Rightarrow> string \<Rightarrow> nat \<Rightarrow> http_request \<Rightarrow> fault + bool \<times> http_request" where
  "request_parse trim_copy split_slash mem n r =
     parse_lines (parse_request_line split_slash) (parse_header trim_copy rq_set_header) True n mem r"

subsection \<open>Printed requests\<close>

definition request_ok :: "http_request \<Rightarrow> bool" where
  "request_ok r \<longleftrightarrow> token (hm_protocol_name (rq_message r)) \<and> token (hm_protocol_version (rq_message r))
     \<and> plain_text (rq_method r) \<and> list_all (\<lambda>c. c \<notin> {CHR '' '', CHR 0x09}) (rq_method r)
     \<and> plain_text (uri_original_string (rq_encoded_uri r))
     \<and> list_all (\<lambda>c. c \<notin> {CHR '' '', CHR 0x09}) (uri_original_string (rq_encoded_uri r))
     \<and> list_all header_ok (hm_headers (rq_message r)) \<and> ikey.keys_ok (hm_headers (rq_message r))"

definition request_line :: "http_request \<Rightarrow> string" where
  "request_line r = rq_method r @ '' '' @ uri_original_string (rq_encoded_uri r) @ '' '' @
     hm_protocol_name (rq_message r) @ ''/'' @ hm_protocol_version (rq_message r)"

lemma rq_print_lines: "rq_print r = request_line r @ crlf @ write_headers (rq_message r)"
  by (simp add: rq_print_def request_line_def)

lemma request_line_no_cr: "request_ok r \<Longrightarrow> no_cr (request_line r)"
  by (auto simp: request_ok_def request_line_def token_def plain_text_def)

text \<open>The request at the other end: its URL is the one that was printed.\<close>

definition rq_arrived :: "http_request \<Rightarrow> http_request" where
  "rq_arrived r = rq_set_url (Some (uri_original_string (rq_encoded_uri r))) r"

lemma uri_parse_fresh: "uri_parse s u = uri_parse s uri_init"
proof -
  have "uri_clear u = uri_clear uri_init" by (simp add: uri_clear_def uri_init_def sa_clear_def)
  then show ?thesis unfolding uri_parse_def by (rule arg_cong)
qed

lemma split_three_no_limit:
  assumes "list_all (\<lambda>c. c \<notin> set cs) a" and "list_all (\<lambda>c. c \<notin> set cs) b" and "list_all (\<lambda>c. c \<notin> set cs) c" and "d \<in> set cs"
  shows "split_of (a @ d # b @ d # c) cs 0 = Some [a, b, c]"
proof -
  let ?s = "a @ d # b @ d # c"
  have 1: "find_first_of cs ?s 0 = Some (length a)"
    using find_first_of_hit[OF assms(1,4), of "[]" "b @ d # c"] by simp
  have 2: "find_first_of cs ?s (Suc (length a)) = Some (Suc (length a) + length b)"
    using find_first_of_hit[OF assms(2,4), of "a @ [d]" c] by simp
  have "find_index (\<lambda>x. x \<in> set cs) c = None" using assms(3) by (auto simp: find_index_None list_all_iff)
  then have 3: "find_first_of cs ?s (Suc (Suc (length a + length b))) = None"
    by (simp add: find_first_of_def find_if_from_def)
  show ?thesis
    unfolding split_of_def by (subst split_loop.simps, simp add: 1, subst split_loop.simps, simp add: 2, subst split_loop.simps, simp add: 3)
qed

lemma foldl_rq_set_header:
  "foldl (\<lambda>r e. rq_set_header (fst e) (snd e) r) r es = r\<lparr>rq_message := (rq_message r)
     \<lparr>hm_headers := foldl (\<lambda>hs e. sa_set string_iequal_to (fst e) (snd e) hs) (hm_headers (rq_message r)) es\<rparr>\<rparr>"
  by (induction es arbitrary: r) (simp_all add: rq_set_header_def hm_set_header_def)

context boost_text
begin

lemma parse_request_line_printed:
  assumes "request_ok r"
  shows "parse_request_line split_slash (request_line r) r0 =
    (0, (rq_arrived r)\<lparr>rq_message := (rq_message r)\<lparr>hm_headers := hm_headers (rq_message r0)\<rparr>\<rparr>)"
proof -
  let ?m = "rq_message r" and ?cs = "[CHR '' '', CHR 0x09]" and ?u = "uri_original_string (rq_encoded_uri r)"
  let ?p = "hm_protocol_name ?m @ CHR ''/'' # hm_protocol_version ?m"
  note ok = assms[unfolded request_ok_def]
  have tokens: "token (hm_protocol_name ?m)" "token (hm_protocol_version ?m)" using ok by blast+
  have split: "split_of (request_line r) ?cs 0 = Some [rq_method r, ?u, ?p]"
  proof -
    have cs: "set ?cs = {CHR '' '', CHR 0x09}" by simp
    have p: "list_all (\<lambda>c. c \<notin> set ?cs) ?p" using tokens by (auto simp: token_def list_all_iff)
    have "list_all (\<lambda>c. c \<notin> set ?cs) (rq_method r)" "list_all (\<lambda>c. c \<notin> set ?cs) ?u" unfolding cs using ok by blast+
    from split_three_no_limit[OF this p, of "CHR '' ''"] show ?thesis by (simp add: request_line_def)
  qed
  from tokens have slash: "split_slash ?p = [hm_protocol_name ?m, hm_protocol_version ?m]"
    by (intro split_two) (auto simp: token_def list_all_iff)
  have "c_str (hm_protocol_name ?m) = hm_protocol_name ?m" "c_str (hm_protocol_version ?m) = hm_protocol_version ?m"
    using tokens by (simp_all add: token_def plain_text_def c_str_id)
  moreover have "c_str (rq_method r) = rq_method r" "c_str ?u = ?u"
    using ok by (simp_all add: plain_text_def c_str_id)
  ultimately show ?thesis
    by (simp add: parse_request_line_def split parse_protocol_def slash rq_set_protocol_def rq_set_url_def rq_set_method_def
      rq_arrived_def uri_parse_fresh[of _ "rq_uri _"] uri_parse_fresh[of _ "rq_encoded_uri _"])
qed

lemma request_parse_printed:
  assumes "request_ok r" and "hm_headers (rq_message r0) = []" and "length (rq_print r) \<le> n"
  shows "request_parse trim_copy split_slash (rq_print r @ rest) n r0 = Inr (True, rq_arrived r)"
proof -
  let ?es = "hm_headers (rq_message r)"
  have len: "length (request_line r) + 2 \<le> n" "length (write_header_lines ?es) + 2 \<le> n"
    using assms(3) by (simp_all add: rq_print_lines write_headers_def)
  have "ikey.keys_ok ([] @ ?es)" "list_all header_ok ?es" using assms(1) by (simp_all add: request_ok_def)
  moreover have "rq_message (rq_arrived r) = rq_message r" by (simp add: rq_arrived_def rq_set_url_def)
  ultimately show ?thesis
    using parse_line_step[OF request_line_no_cr[OF assms(1)] len(1), of "parse_request_line split_slash"
        "parse_header trim_copy rq_set_header" True "write_headers (rq_message r) @ rest" r0]
      parse_header_lines[OF _ len(2), of "parse_request_line split_slash" rq_set_header rest]
      foldl_set_headers[of "[]" ?es] assms(2)
    by (simp add: request_parse_def rq_print_lines parse_request_line_printed[OF assms(1)] write_headers_def foldl_rq_set_header)
qed

end

text \<open>
  A request that was printed is parsed back, whatever follows it in the buffer: method, protocol and headers in
  order, and both its URIs are those of the URL that was printed.
\<close>

theorem http_request_roundtrip:
  assumes "boost_text trim_copy split_slash" and "request_ok r" and "hm_headers (rq_message r0) = []"
  shows "request_parse trim_copy split_slash (rq_print r @ rest) (length (rq_print r)) r0 =
      Inr (True, rq_set_url (Some (uri_original_string (rq_encoded_uri r))) r)"
  unfolding rq_arrived_def[symmetric] by (rule boost_text.request_parse_printed[OF assms]) simp

definition sample_request :: http_request where
  "sample_request = rq_set_header ''Content-Length'' ''3'' (rq_set_url (Some ''/a/b'') (rq_set_method ''POST'' rq_new))"

lemma sample_request_url: "uri_original_string (rq_encoded_uri sample_request) = ''/a/b''"
  by code_simp

lemma sample_request_message: "rq_message sample_request =
    \<lparr>hm_headers = [(''Content-Length'', ''3'')], hm_protocol_name = ''HTTP'', hm_protocol_version = ''1.0''\<rparr>"
  "rq_method sample_request = ''POST''"
  by code_simp+

lemma sample_request_ok: "request_ok sample_request"
  by (simp add: request_ok_def sample_request_url sample_request_message token_def plain_text_def header_ok_def padded_def
      is_space_def code_of_def)

theorem http_request_roundtrip_witness:
  "\<exists>r. request_parse trim_reference split_reference (rq_print sample_request @ ''abc'') (length (rq_print sample_request)) rq_new
     = Inr (True, r) \<and> rq_method r = ''POST'' \<and> rq_content_length r = 3 \<and> rq_get_url r = ''/a/b''"
proof -
  have "hm_headers (rq_message rq_new) = []" by code_simp
  moreover have "rq_content_length sample_request = 3" "uri_original_string (snd (uri_parse (Some ''/a/b'') (rq_uri sample_request))) = ''/a/b''"
    by code_simp+
  ultimately show ?thesis
    using http_request_roundtrip[OF boost.boost_text_axioms sample_request_ok, of rq_new "''abc''"] sample_request_url
    by (simp add: rq_set_url_def rq_get_url_def rq_content_length_def rq_get_header_def sample_request_message)
qed

text \<open>
  A clone has the method, protocol and headers of its original, and no URL: the constructor clears the URIs it was
  given, so what it prints has nothing between the two spaces.
\<close>

theorem request_clone_loses_url:
  "rq_method (rq_clone r) = rq_method r \<and> rq_message (rq_clone r) = rq_message r \<and> rq_get_url (rq_clone r) = []
   \<and> rq_print (rq_clone r) = rq_method r @ ''  '' @ hm_protocol_name (rq_message r) @ ''/'' @ hm_protocol_version (rq_message r) @
       crlf @ write_headers (rq_message r)"
  by (simp add: rq_clone_def rq_clear_def uri_clear_def rq_get_url_def rq_print_def Let_def)

end
