(* ===== verification/Url_Session.thy ===== *)
theory Url_Session
  imports Tcp_Socket Http_Stream Http_Ranges
begin

text \<open>
  \<^verbatim>\<open>include/xul/net/detail/url_session_impl.hpp\<close> and \<^verbatim>\<open>include/xul/net/url_sessions.hpp\<close>: the server
  side of one request. A session prints its response into the TCP socket of Tcp_Socket, sends data
  plain or in chunks, and closes the connection when it is finished. Text goes to the socket as
  bytes. The listeners of the session are only told of its end and have no counterpart; assertions
  are read as in a release build, as in Tcp_Socket.
\<close>

definition text_bytes :: "string \<Rightarrow> bytes" where
  "text_bytes s = map byte_of s"

definition bytes_text :: "bytes \<Rightarrow> string" where
  "bytes_text b = map char_of_byte b"

lemma bytes_text_bytes [simp]: "bytes_text (text_bytes s) = s"
  by (simp add: bytes_text_def text_bytes_def comp_def)

lemma bytes_text_append [simp]: "bytes_text (a @ b) = bytes_text a @ bytes_text b" "bytes_text [] = []"
  by (simp_all add: bytes_text_def)

record url_session =
  us_socket :: tcp_socket
  us_response :: http_response
  us_finished :: bool
  us_header_finished :: bool
  us_chunked :: bool
  us_keep_alive :: bool

definition us_reset :: "url_session \<Rightarrow> url_session" where
  "us_reset s = s\<lparr>us_finished := False, us_chunked := False, us_header_finished := False,
     us_response := rs_clear (us_response s)\<rparr>"

definition us_new :: "tcp_socket \<Rightarrow> url_session" where
  "us_new sock = us_reset \<lparr>us_socket = sock, us_response = rs_new, us_finished = False,
     us_header_finished = False, us_chunked = False, us_keep_alive = False\<rparr>"

definition us_set_keep_alive :: "bool \<Rightarrow> url_session \<Rightarrow> url_session" where
  "us_set_keep_alive b s = s\<lparr>us_keep_alive := b\<rparr>"

text \<open>The mode cannot change once the header is out.\<close>

definition us_set_chunked :: "bool \<Rightarrow> url_session \<Rightarrow> url_session" where
  "us_set_chunked enabled s = (if us_header_finished s then s else s\<lparr>us_chunked := enabled\<rparr>)"

text \<open>
  \<open>do_send_data\<close> takes an \<open>int\<close>, and \<open>send_n\<close> a \<open>size_t\<close>. A size of \<open>2^31\<close> or more arrives as another one, and
  when that is negative, the copy of the data that \<open>send_n\<close> makes (unless the queue is full) has more than \<open>2^63\<close>
  bytes: no memory holds it, and \<open>memcpy\<close> leaves the data.
\<close>

definition us_do_send_data :: "bytes \<Rightarrow> url_session \<Rightarrow> fault + bool \<times> url_session" where
  "us_do_send_data d s =
     (let n = c_int (int (length d)); (r, sock) = ts_send_n (take (nat n) d) (us_socket s)
      in if r \<and> n < 0 then Inl Out_Of_Bounds else Inr (r, s\<lparr>us_socket := sock\<rparr>))"

definition us_send_header :: "url_session \<Rightarrow> fault + bool \<times> url_session" where
  "us_send_header s =
     (let s = (if us_chunked s then s\<lparr>us_response := set_chunked (us_response s)\<rparr> else s)
      in sbind (us_do_send_data (text_bytes (rs_print (us_response s))) s) (\<lambda>(r, s).
           Inr (if \<not> r then (False, s) else (True, s\<lparr>us_header_finished := True\<rparr>))))"

text \<open>The size in hexadecimal digits (\<open>sprintf\<close> with \<open>%x\<close>) in front of the data.\<close>

definition chunk_bytes :: "bytes \<Rightarrow> bytes" where
  "chunk_bytes d = text_bytes (hex_digits (length d) @ crlf) @ d @ text_bytes crlf"

text \<open>
  \<open>send_data\<close> takes an \<open>int\<close> too. In chunked mode a negative size is the length of a block that the buffer
  of the chunk appends, which leaves the data.
\<close>

definition us_send_data :: "bytes \<Rightarrow> url_session \<Rightarrow> fault + bool \<times> url_session" where
  "us_send_data d s =
     (let n = c_int (int (length d)) in
      if us_chunked s then
        (if n < 0 then Inl Out_Of_Bounds else us_do_send_data (chunk_bytes (take (nat n) d)) s)
      else us_do_send_data d s)"

definition us_close :: "url_session \<Rightarrow> url_session" where
  "us_close s = s\<lparr>us_socket := ts_close (us_socket s)\<rparr>"

definition us_finish :: "url_session \<Rightarrow> fault + url_session" where
  "us_finish s =
     sbind (if us_chunked s then
              let n = c_int (int (length (ts_sending_queue (us_socket s))) + 3)
              in us_do_send_data (text_bytes (''0'' @ crlf @ crlf)) (s\<lparr>us_socket := ts_set_max_sending_queue_size n (us_socket s)\<rparr>)
            else Inr (True, s)) (\<lambda>(_, s).
       let s = s\<lparr>us_finished := True\<rparr>
       in Inr (if ts_sending_queue (us_socket s) = [] \<and> \<not> us_keep_alive s then us_close s else s))"

subsection \<open>url_sessions\<close>

definition us_set_header :: "string \<Rightarrow> string \<Rightarrow> url_session \<Rightarrow> url_session" where
  "us_set_header name val s = s\<lparr>us_response := rs_set_header name val (us_response s)\<rparr>"

definition finished_after :: "bool \<times> url_session \<Rightarrow> fault + bool \<times> url_session" where
  "finished_after rs = (case rs of (r, s) \<Rightarrow>
     if \<not> r then Inr (False, s) else sbind (us_finish s) (\<lambda>s. Inr (True, s)))"

definition send_empty_response :: "int \<Rightarrow> url_session \<Rightarrow> fault + bool \<times> url_session" where
  "send_empty_response code s =
     (let s = us_set_chunked False s;
          s = s\<lparr>us_response := rs_set_status_code code (us_response s)\<rparr>;
          s = us_set_header ''Content-Length'' ''0'' s
      in sbind (us_send_header s) finished_after)"

definition send_simple_response :: "int \<Rightarrow> string \<Rightarrow> string \<Rightarrow> url_session \<Rightarrow> fault + bool \<times> url_session" where
  "send_simple_response code content content_type s =
     (let s = us_set_chunked False s;
          s = s\<lparr>us_response := init_response code (c_int64 (int (length content))) content_type (us_response s)\<rparr>
      in sbind (us_send_header s) (\<lambda>(r, s).
           if \<not> r then Inr (False, s)
           else if content = [] then finished_after (True, s)
           else sbind (us_send_data (text_bytes content) s) finished_after))"

definition do_redirect :: "string \<Rightarrow> int \<Rightarrow> url_session \<Rightarrow> fault + bool \<times> url_session" where
  "do_redirect url code s =
     send_empty_response code (us_set_header ''Connection'' ''close'' (us_set_header ''Location'' url s))"

fun us_send_all :: "bytes list \<Rightarrow> url_session \<Rightarrow> fault + bool \<times> url_session" where
  "us_send_all [] s = Inr (True, s)"
| "us_send_all (d # ds) s = sbind (us_send_data d s) (\<lambda>(r, s). if \<not> r then Inr (False, s) else us_send_all ds s)"

subsection \<open>What reaches the socket\<close>

definition room :: "nat \<Rightarrow> tcp_socket \<Rightarrow> bool" where
  "room n sock \<longleftrightarrow> ts_open sock \<and>
     int (length (ts_sending_queue sock)) + int n \<le> ts_max_sending_queue_size sock \<and> ts_max_sending_queue_size sock < 2 ^ 31"

lemma send_n_room:
  assumes "room (Suc n) sock"
  shows "\<exists>sock'. ts_send_n d sock = (True, sock') \<and> ts_sending_queue sock' = ts_sending_queue sock @ [d] \<and>
    room n sock' \<and> ts_max_sending_queue_size sock' = ts_max_sending_queue_size sock"
  using assms
  by (auto simp: room_def ts_send_n_def size_of_int64_def ts_process_sending_queue_def ts_do_send_n_def Let_def
      split: list.split)

lemma do_send_room:
  assumes "room (Suc n) (us_socket s)" and "length d < 2 ^ 31"
  shows "\<exists>sock'. us_do_send_data d s = Inr (True, s\<lparr>us_socket := sock'\<rparr>) \<and>
    ts_sending_queue sock' = ts_sending_queue (us_socket s) @ [d] \<and> room n sock'"
  using send_n_room[OF assms(1), of d] assms(2) by (auto simp: us_do_send_data_def c_int_nat)

text \<open>A piece of data whose chunk has a size that is an \<open>int\<close>.\<close>

definition piece_ok :: "bytes \<Rightarrow> bool" where
  "piece_ok d \<longleftrightarrow> length (chunk_bytes d) < 2 ^ 31"

lemma chunk_bytes_length: "length (chunk_bytes d) = length (hex_digits (length d)) + length d + 4"
  by (simp add: chunk_bytes_def text_bytes_def crlf_def)

lemma piece_length: "piece_ok d \<Longrightarrow> length d + 4 < 2 ^ 31"
  by (simp add: piece_ok_def chunk_bytes_length)

lemma send_chunk: "us_chunked s \<Longrightarrow> piece_ok d \<Longrightarrow> us_send_data d s = us_do_send_data (chunk_bytes d) s"
  using piece_length[of d] by (simp add: us_send_data_def c_int_nat)

lemma send_all_room:
  assumes "room (length ds + n) (us_socket s)" "us_chunked s" "list_all piece_ok ds"
  shows "\<exists>sock'. us_send_all ds s = Inr (True, s\<lparr>us_socket := sock'\<rparr>) \<and>
    ts_sending_queue sock' = ts_sending_queue (us_socket s) @ map chunk_bytes ds \<and> room n sock'"
  using assms
proof (induction ds arbitrary: s)
  case Nil
  then show ?case by (intro exI[of _ "us_socket s"]) simp
next
  case (Cons d ds)
  then have "room (Suc (length ds + n)) (us_socket s)" "length (chunk_bytes d) < 2 ^ 31" by (simp_all add: piece_ok_def)
  from do_send_room[OF this] obtain sock1 where
    1: "us_do_send_data (chunk_bytes d) s = Inr (True, s\<lparr>us_socket := sock1\<rparr>)"
    "ts_sending_queue sock1 = ts_sending_queue (us_socket s) @ [chunk_bytes d]" "room (length ds + n) sock1"
    by blast
  from Cons.IH[of "s\<lparr>us_socket := sock1\<rparr>"] 1 Cons.prems(2,3) show ?case
    by (auto simp: send_chunk)
qed

lemma finish_chunked:
  assumes "ts_open (us_socket s)" "us_chunked s" "length (ts_sending_queue (us_socket s)) < 2 ^ 30"
  shows "\<exists>s'. us_finish s = Inr s' \<and> us_finished s' \<and>
    ts_sending_queue (us_socket s') = ts_sending_queue (us_socket s) @ [text_bytes (''0'' @ crlf @ crlf)]"
proof -
  let ?n = "int (length (ts_sending_queue (us_socket s))) + 3"
  let ?s = "s\<lparr>us_socket := (us_socket s)\<lparr>ts_max_sending_queue_size := ?n\<rparr>\<rparr>"
  have "room (Suc 0) (us_socket ?s)" using assms by (simp add: room_def)
  moreover have "length (text_bytes (''0'' @ crlf @ crlf)) < 2 ^ 31" by (simp add: text_bytes_def crlf_def)
  moreover have "c_int ?n = ?n" using assms(3) by (intro c_int_id) simp_all
  ultimately show ?thesis using do_send_room[of 0 ?s "text_bytes (''0'' @ crlf @ crlf)"] assms(2)
    by (auto simp: us_finish_def ts_set_max_sending_queue_size_def Let_def)
qed

lemma chunk_bytes_text: "bytes_text (chunk_bytes d) = encode_chunk (bytes_text d)"
  by (simp add: chunk_bytes_def encode_chunk_def bytes_text_def[of d])

lemma concat_chunk_text: "bytes_text (concat (map chunk_bytes ds)) = concat (map encode_chunk (map bytes_text ds))"
  by (induction ds) (simp_all add: chunk_bytes_text)

lemma body_decoded:
  assumes "\<forall>d \<in> set ds. d \<noteq> [] \<and> length d + 2 < 2 ^ 31"
    and "length (concat (map encode_chunk (map bytes_text ds)) @ hex_digits 0 @ crlf @ crlf) < 2 ^ 31"
  shows "\<exists>f. cf_process (concat (map encode_chunk (map bytes_text ds)) @ hex_digits 0 @ crlf @ crlf) cf_reset_state
    = Inr (map Filter_Process (map bytes_text ds) @ [Filter_Finish []], f)"
proof -
  have "cf_current_chunk_size cf_reset_state = - 1" "cf_received_chunk_size cf_reset_state = 0"
    by (simp_all add: cf_reset_state_def)
  moreover have "list_all chunk_ok (map bytes_text ds)"
    using assms by (auto simp: chunk_ok_def list_all_iff bytes_text_def)
  ultimately show ?thesis unfolding cf_process_short[OF assms(2)] using cf_whole_body by blast
qed

subsection \<open>Responses that can be parsed back\<close>

lemma set_header_list_ok:
  "list_all header_ok items \<Longrightarrow> header_ok (k, v) \<Longrightarrow> list_all header_ok (sa_set cmp k v items)"
  by (induction items) (auto simp: header_ok_def)

lemma response_ok_set_header:
  "response_ok r \<Longrightarrow> header_ok (k, v) \<Longrightarrow> response_ok (rs_set_header k v r)"
  by (auto simp: response_ok_def rs_set_header_def hm_set_header_def set_header_list_ok intro: ikey.set_keys_ok)

lemma description_plain: "plain_text (get_description code)"
proof -
  have "\<forall>p \<in> set status_code_table. plain_text (snd p)"
    by (simp add: status_code_table_def plain_text_def no_cr_def code_of_def)
  then show ?thesis
    by (auto simp: get_description_def plain_text_def no_cr_def split: option.split dest!: map_of_SomeD)
qed

lemma response_ok_status:
  "response_ok r \<Longrightarrow> 0 \<le> code \<Longrightarrow> response_ok (rs_set_status_code code r)"
  using description_plain[of code] by (simp add: response_ok_def rs_set_status_code_def Let_def)

lemma response_ok_new: "response_ok (us_response (us_new sock))"
  by (simp add: us_new_def us_reset_def rs_new_def rs_clear_def hm_clear_def response_ok_def token_def
      plain_text_def code_of_def)

lemma response_ok_chunked: "response_ok r \<Longrightarrow> response_ok (set_chunked r)"
  unfolding set_chunked_def
  by (rule response_ok_set_header)
    (auto simp: response_ok_def token_def plain_text_def header_ok_def padded_def is_space_def code_of_def)

lemma digits_text: "0 \<le> n \<Longrightarrow> plain_text (numerics_format n) \<and> \<not> padded (numerics_format n)"
proof
  assume n: "0 \<le> n"
  have d: "list_all is_digit (numerics_format n)" "numerics_format n \<noteq> []"
    using dec_digits_ok[of "nat n"] n by (simp_all add: numerics_format_def)
  then show "plain_text (numerics_format n)" using digits_plain by blast
  show "\<not> padded (numerics_format n)"
    using d digit_plain by (auto simp: padded_def list_all_iff)
qed

lemma response_ok_init:
  assumes "response_ok r" "0 \<le> code" "0 \<le> n" "plain_text t" "\<not> padded t"
  shows "response_ok (init_response code n t r)" "get_content_length (init_response code n t r) = n"
    "rs_status_code (init_response code n t r) = code"
proof -
  have ok: "header_ok (''Content-Length'', numerics_format n)" "header_ok (''Content-Type'', t)"
    using assms digits_text[of n]
    by (auto simp: header_ok_def padded_def is_space_def plain_text_def code_of_def)
  show "response_ok (init_response code n t r)"
    using assms ok unfolding init_response_def Let_def set_content_type_def set_content_length_def
    by (auto intro!: response_ok_set_header response_ok_status)
  have "\<not> string_iequal_to ''Content-Type'' ''Content-Length''"
    by (simp add: string_iequal_to_def make_lower_def to_lower_def is_upper_def code_of_def)
  moreover have "string_iequal_to ''Content-Length'' ''Content-Length''" by (rule ikey.cmp_refl)
  ultimately show "get_content_length (init_response code n t r) = n"
    using assms(3)
    by (simp add: init_response_def Let_def set_content_type_def set_content_length_def get_content_length_def
        rs_get_header_def rs_set_header_def hm_set_header_def ikey.get_lookup ikey.lookup_set numerics_parse_format)
  show "rs_status_code (init_response code n t r) = code"
    using assms(3) by (simp add: init_response_def Let_def set_content_type_def status_set_header)
qed

text \<open>The text a session in chunked mode sends for a response and pieces of data.\<close>

definition session_body :: "bytes list \<Rightarrow> string" where
  "session_body ds = concat (map encode_chunk (map bytes_text ds)) @ hex_digits 0 @ crlf @ crlf"

definition session_text :: "http_response \<Rightarrow> bytes list \<Rightarrow> string" where
  "session_text r ds = rs_print (set_chunked r) @ session_body ds"

lemma session_piece: "d \<in> set ds \<Longrightarrow> length (chunk_bytes d) \<le> length (session_body ds)"
proof (induction ds)
  case (Cons a ds)
  have "length (encode_chunk (bytes_text a)) = length (chunk_bytes a)"
    by (simp add: chunk_bytes_length encode_chunk_def bytes_text_def crlf_def)
  with Cons show ?case by (auto simp: session_body_def)
qed simp

lemma chunked_session_sends:
  assumes "us_chunked s" "room (Suc (length ds)) (us_socket s)" "length (ts_sending_queue (us_socket s)) + Suc (length ds) < 2 ^ 30"
    and small: "length (session_text (us_response s) ds) < 2 ^ 31"
  shows "\<exists>s1 s2 s3 sent. us_send_header s = Inr (True, s1) \<and> us_send_all ds s1 = Inr (True, s2) \<and> us_finish s2 = Inr s3 \<and> us_finished s3 \<and>
    ts_sending_queue (us_socket s3) = ts_sending_queue (us_socket s) @ sent \<and>
    bytes_text (concat sent) = session_text (us_response s) ds"
proof -
  let ?r = "set_chunked (us_response s)"
  let ?h = "text_bytes (rs_print ?r)" and ?fin = "text_bytes (''0'' @ crlf @ crlf)"
  have "length (chunk_bytes d) < 2 ^ 31" if "d \<in> set ds" for d
    using session_piece[OF that] small by (simp add: session_text_def)
  then have len: "length ?h < 2 ^ 31" "list_all piece_ok ds"
    using small by (auto simp: session_text_def text_bytes_def piece_ok_def list_all_iff)
  from do_send_room[of "length ds" "s\<lparr>us_response := ?r\<rparr>" ?h] assms(2) len(1) obtain sock1 where
    1: "us_do_send_data ?h (s\<lparr>us_response := ?r\<rparr>) = Inr (True, s\<lparr>us_response := ?r, us_socket := sock1\<rparr>)"
      "ts_sending_queue sock1 = ts_sending_queue (us_socket s) @ [?h]" "room (length ds) sock1" by auto
  let ?s1 = "s\<lparr>us_response := ?r, us_socket := sock1, us_header_finished := True\<rparr>"
  have h: "us_send_header s = Inr (True, ?s1)" using assms(1) 1(1) by (simp add: us_send_header_def Let_def)
  from send_all_room[of ds 0 ?s1] 1(3) assms(1) len(2) obtain sock2 where
    2: "us_send_all ds ?s1 = Inr (True, ?s1\<lparr>us_socket := sock2\<rparr>)"
      "ts_sending_queue sock2 = ts_sending_queue sock1 @ map chunk_bytes ds" "room 0 sock2" by auto
  let ?s2 = "?s1\<lparr>us_socket := sock2\<rparr>"
  obtain s3 where fin: "us_finish ?s2 = Inr s3" "us_finished s3"
    "ts_sending_queue (us_socket s3) = ts_sending_queue sock2 @ [?fin]"
    using finish_chunked[of ?s2] 2(2,3) 1(2) assms(1,3) by (auto simp: room_def)
  let ?sent = "?h # map chunk_bytes ds @ [?fin]"
  have "hex_digits 0 = ''0''" by code_simp
  then have "bytes_text (concat ?sent) = session_text (us_response s) ds"
    by (simp add: concat_chunk_text session_text_def session_body_def)
  with h 2 fin 1(2) show ?thesis
    by (intro exI[of _ ?s1] exI[of _ ?s2] exI[of _ s3] exI[of _ ?sent]) simp
qed

lemma session_decoded:
  assumes "length (session_body ds) < 2 ^ 31" and "\<forall>d \<in> set ds. d \<noteq> []"
  shows "\<exists>f. cf_process (session_body ds) cf_reset_state = Inr (map Filter_Process (map bytes_text ds) @ [Filter_Finish []], f)"
proof -
  have "length d + 2 < 2 ^ 31" if "d \<in> set ds" for d
    using session_piece[OF that] assms(1) by (simp add: chunk_bytes_length)
  then show ?thesis unfolding session_body_def
    by (intro body_decoded) (use assms in \<open>simp_all add: session_body_def\<close>)
qed

text \<open>
  From server to client. A session in chunked mode that sends its header and then pieces of
  data (none empty, the whole text shorter than \<open>2^31\<close> bytes, and the queue of the socket with room for all of it),
  and finishes, has put a text into its socket from which the response extractor of a client, with its
  buffer of 64 KiB, takes the response, however a text of at most 64 KiB is cut; and the body of the text, given to the
  chunked filter of the client in one call, is decoded to the same pieces and the end of the body.
\<close>

theorem chunked_session_roundtrip:
  assumes "boost_text trim_copy split_slash"
    and s: "us_chunked s" "response_ok (us_response s)" "room (Suc (length ds)) (us_socket s)"
    and "length (ts_sending_queue (us_socket s)) + Suc (length ds) < 2 ^ 30"
    and small: "length (session_text (us_response s) ds) < 2 ^ 31" and ds: "\<forall>d \<in> set ds. d \<noteq> []"
  shows "\<exists>s1 s2 s3 sent. us_send_header s = Inr (True, s1) \<and> us_send_all ds s1 = Inr (True, s2) \<and> us_finish s2 = Inr s3 \<and>
    us_finished s3 \<and> ts_sending_queue (us_socket s3) = ts_sending_queue (us_socket s) @ sent \<and>
    bytes_text (concat sent) = rs_print (set_chunked (us_response s)) @ session_body ds \<and>
    (\<forall>cs. concat cs = bytes_text (concat sent) \<and> list_all (\<lambda>c. c \<noteq> []) cs \<and> length (concat cs) \<le> 64 * 1024 \<longrightarrow>
       (\<exists>ns e. re_feed_all trim_copy split_slash cs (re_new (64 * 1024)) = Inr (ns, e) \<and>
          re_response e = set_chunked (us_response s) \<and> sum_list ns = int (length (rs_print (set_chunked (us_response s)))))) \<and>
    (\<exists>f. cf_process (session_body ds) cf_reset_state = Inr (map Filter_Process (map bytes_text ds) @ [Filter_Finish []], f))"
proof -
  let ?r = "set_chunked (us_response s)"
  obtain s1 s2 s3 sent where sent: "us_send_header s = Inr (True, s1)" "us_send_all ds s1 = Inr (True, s2)" "us_finish s2 = Inr s3" "us_finished s3"
      "ts_sending_queue (us_socket s3) = ts_sending_queue (us_socket s) @ sent" "bytes_text (concat sent) = rs_print ?r @ session_body ds"
    using chunked_session_sends[OF s(1,3) assms(5) small] by (auto simp: session_text_def)
  have ok: "response_ok ?r" by (rule response_ok_chunked[OF s(2)])
  have len: "0 < length (rs_print ?r)" using printed_header_end(2)[OF ok] by linarith
  have ext: "\<exists>ns e. re_feed_all trim_copy split_slash cs (re_new (64 * 1024)) = Inr (ns, e) \<and>
      re_response e = ?r \<and> sum_list ns = int (length (rs_print ?r))"
    if "concat cs = bytes_text (concat sent)" "list_all (\<lambda>c. c \<noteq> []) cs" "length (concat cs) \<le> 64 * 1024" for cs
  proof -
    have "(re_new n)\<lparr>re_buffer := []\<rparr> = re_new n" for n by (simp add: re_new_def)
    with boost_text.extract_response[OF assms(1) ok, of "[]" cs "session_body ds" "64 * 1024"] that sent(6) len
    show ?thesis by auto
  qed
  have "length (session_body ds) < 2 ^ 31" using small by (simp add: session_text_def)
  from session_decoded[OF this ds] ext sent show ?thesis by blast
qed

definition open_socket :: "nat \<Rightarrow> tcp_socket" where
  "open_socket n = ts_set_max_sending_queue_size (int n) (ts_new\<lparr>ts_open := True, ts_connected := True\<rparr>)"

lemma open_session:
  "us_response (us_set_chunked b (us_new (open_socket n))) = us_response (us_new (open_socket n))"
  "us_socket (us_set_chunked b (us_new (open_socket n))) = open_socket n"
  "us_chunked (us_set_chunked b (us_new (open_socket n))) = b"
  by (simp_all add: us_set_chunked_def us_new_def us_reset_def)

lemma open_socket_room: "0 < n \<Longrightarrow> n < 2 ^ 31 \<Longrightarrow> room n (open_socket n)" "ts_sending_queue (open_socket n) = []"
  by (simp_all add: open_socket_def room_def ts_new_def ts_do_init_def ts_set_max_sending_queue_size_def)

lemma sample_session_text: "length (session_text (us_response (us_new (open_socket n))) [[1, 2], [3]]) = 61"
proof -
  have "us_response (us_new (open_socket n)) = rs_new" by (simp add: us_new_def us_reset_def rs_new_def rs_clear_def hm_clear_def)
  then show ?thesis by (simp only:) code_simp
qed

theorem chunked_session_roundtrip_witness:
  "\<exists>s1 s2 s3. us_send_header (us_set_chunked True (us_new (open_socket 3))) = Inr (True, s1) \<and>
    us_send_all [[1, 2], [3]] s1 = Inr (True, s2) \<and> us_finish s2 = Inr s3 \<and> us_finished s3"
proof -
  let ?s = "us_set_chunked True (us_new (open_socket 3))" and ?ds = "[[1, 2], [3]] :: bytes list"
  have "us_chunked ?s" "response_ok (us_response ?s)" "room (Suc (length ?ds)) (us_socket ?s)"
    "length (ts_sending_queue (us_socket ?s)) + Suc (length ?ds) < 2 ^ 30"
    using response_ok_new[of "open_socket 3"] open_socket_room[of 3] by (simp_all add: open_session numeral_3_eq_3)
  moreover have "length (session_text (us_response ?s) ?ds) < 2 ^ 31" unfolding open_session sample_session_text by simp
  moreover have "\<forall>d \<in> set ?ds. d \<noteq> []" by simp
  ultimately show ?thesis using chunked_session_roundtrip[OF boost.boost_text_axioms] by blast
qed

text \<open>
  C14. A simple response with a content: when the text of the response and the content are at most the 8 KiB that the client's
  decoder buffers, the session finishes, and the decoder, however the text it sent is
  cut into pieces, tells its listener of a response with the status and the length of the content, and of the content behind it.
\<close>

theorem simple_response_delivery:
  assumes "boost_text trim_copy split_slash"
    and s: "response_ok (us_response s)" "\<not> us_header_finished s" "room 2 (us_socket s)"
    and c: "0 \<le> code" "plain_text content_type" "\<not> padded content_type" "content \<noteq> []"
    and r: "r = init_response code (int (length content)) content_type (us_response s)"
    and small: "length (rs_print r) + length content \<le> 8 * 1024"
  shows "\<exists>s' sent. send_simple_response code content content_type s = Inr (True, s') \<and> us_finished s' \<and>
    ts_sending_queue (us_socket s') = ts_sending_queue (us_socket s) @ sent \<and>
    rs_status_code r = code \<and> get_content_length r = int (length content) \<and>
    (\<forall>cs. concat cs = bytes_text (concat sent) \<and> list_all (\<lambda>c. c \<noteq> []) cs \<longrightarrow>
       (\<exists>bs d. rd_feed_all trim_copy split_slash cs (rd_new (8 * 1024)) =
          Inr (Header_Message r # map Body_Message bs, d) \<and> concat bs = content \<and> \<not> rd_abort d))"
proof -
  let ?h = "text_bytes (rs_print r)" and ?s0 = "s\<lparr>us_chunked := False, us_response := r\<rparr>"
  note ok = response_ok_init[OF s(1) c(1) of_nat_0_le_iff c(2,3), of "length content", folded r]
  have len: "length ?h < 2 ^ 31" "length (text_bytes content) < 2 ^ 31" using small by (simp_all add: text_bytes_def)
  have c64: "c_int64 (int (length content)) = int (length content)" using small by (intro c_int64_nat) simp
  from do_send_room[of 1 "?s0" ?h] s(3) len(1) obtain sock1 where
    1: "us_do_send_data ?h ?s0 = Inr (True, ?s0\<lparr>us_socket := sock1\<rparr>)"
      "ts_sending_queue sock1 = ts_sending_queue (us_socket s) @ [?h]" "room 1 sock1" by (auto simp: numeral_2_eq_2)
  let ?s1 = "s\<lparr>us_chunked := False, us_response := r, us_socket := sock1, us_header_finished := True\<rparr>"
  from do_send_room[of 0 ?s1 "text_bytes content"] 1(3) len(2) obtain sock2 where
    2: "us_do_send_data (text_bytes content) ?s1 = Inr (True, ?s1\<lparr>us_socket := sock2\<rparr>)"
      "ts_sending_queue sock2 = ts_sending_queue sock1 @ [text_bytes content]" by auto
  let ?sent = "[?h, text_bytes content]" and ?s2 = "?s1\<lparr>us_socket := sock2, us_finished := True\<rparr>"
  have "us_finish (?s1\<lparr>us_socket := sock2\<rparr>) = Inr ?s2" using 2(2) by (simp add: us_finish_def Let_def)
  then have send: "send_simple_response code content content_type s = Inr (True, ?s2)"
    using 1(1) 2(1) s(2) c(4) r
    by (simp add: send_simple_response_def us_set_chunked_def us_send_header_def us_send_data_def finished_after_def c64)
  have sent: "bytes_text (concat ?sent) = rs_print r @ content" by simp
  have "(rd_new n)\<lparr>rd_buffer := []\<rparr> = rd_new n" for n by (simp add: rd_new_def)
  moreover have "0 < length (rs_print r)" using printed_header_end(2)[OF ok(1)] by linarith
  ultimately have "\<exists>bs d. rd_feed_all trim_copy split_slash cs (rd_new (8 * 1024)) =
      Inr (Header_Message r # map Body_Message bs, d) \<and> concat bs = content \<and> \<not> rd_abort d"
    if "concat cs = bytes_text (concat ?sent)" "list_all (\<lambda>c. c \<noteq> []) cs" for cs
    using boost_text.decode_response[OF assms(1) ok(1), of "[]" cs content "8 * 1024"] that sent small
    by (auto simp: rd_new_def)
  with send 1(2) 2(2) ok show ?thesis
    by (intro exI[of _ ?s2] exI[of _ ?sent]) simp
qed

theorem simple_response_delivery_witness:
  "\<exists>s'. send_simple_response 200 ''hello'' ''text/plain'' (us_new (open_socket 2)) = Inr (True, s') \<and> us_finished s'"
proof -
  let ?s = "us_new (open_socket 2)"
  have s: "response_ok (us_response ?s)" "\<not> us_header_finished ?s" "room 2 (us_socket ?s)"
    using response_ok_new[of "open_socket 2"] open_socket_room[of 2] by (simp_all add: us_new_def us_reset_def)
  have new: "us_response ?s = rs_new" by (simp add: us_new_def us_reset_def rs_new_def rs_clear_def hm_clear_def)
  have "length (rs_print (init_response 200 (int (length ''hello'')) ''text/plain'' rs_new)) + length ''hello'' \<le> 8 * 1024" by code_simp
  with simple_response_delivery[OF boost.boost_text_axioms s, of 200 "''text/plain''" "''hello''", OF _ _ _ _ refl] show ?thesis
    unfolding new by (auto simp: plain_text_def no_cr_def padded_def is_space_def code_of_def)
qed

text \<open>
  In chunked mode a call of send_data with no data is not harmless: it puts the chunk of size zero into the socket,
  and the client's filter, which has decoded the pieces before it, is told of the end of the body, although the session
  has not finished.
\<close>

theorem empty_send_ends_body:
  assumes "us_chunked s" and "\<not> us_finished s" and "room (Suc (length ds)) (us_socket s)"
    and ds: "length (session_body ds) < 2 ^ 31" "\<forall>d \<in> set ds. d \<noteq> []"
  shows "\<exists>s' sent. us_send_all (ds @ [[]]) s = Inr (True, s') \<and> \<not> us_finished s' \<and>
      ts_sending_queue (us_socket s') = ts_sending_queue (us_socket s) @ sent \<and>
      (\<exists>f. cf_process (bytes_text (concat sent)) cf_reset_state
         = Inr (map Filter_Process (map bytes_text ds) @ [Filter_Finish []], f))"
proof -
  have e: "encode_chunk [] = hex_digits 0 @ crlf @ crlf" by (simp add: encode_chunk_def)
  then have body: "bytes_text (concat (map chunk_bytes (ds @ [[]]))) = session_body ds"
    unfolding concat_chunk_text by (simp add: session_body_def)
  have "piece_ok d" if "d \<in> set (ds @ [[]])" for d
  proof (cases "d = []")
    case True
    have "length (hex_digits 0) = 1" by code_simp
    then show ?thesis using True by (simp add: piece_ok_def chunk_bytes_length)
  next
    case False
    then show ?thesis using that session_piece[of d ds] ds(1) by (simp add: piece_ok_def)
  qed
  then have "list_all piece_ok (ds @ [[]])" unfolding list_all_iff by blast
  with send_all_room[of "ds @ [[]]" 0 s] assms(1,3) obtain sock where
    1: "us_send_all (ds @ [[]]) s = Inr (True, s\<lparr>us_socket := sock\<rparr>)"
      "ts_sending_queue sock = ts_sending_queue (us_socket s) @ map chunk_bytes (ds @ [[]])" by auto
  with session_decoded[OF ds] body assms(2) show ?thesis
    by (intro exI[of _ "s\<lparr>us_socket := sock\<rparr>"] exI[of _ "map chunk_bytes (ds @ [[]])"]) simp
qed

theorem empty_send_ends_body_witness:
  "\<exists>s'. us_send_all ([[1, 2]] @ [[]]) (us_set_chunked True (us_new (open_socket 2))) = Inr (True, s') \<and> \<not> us_finished s'"
proof -
  let ?s = "us_set_chunked True (us_new (open_socket 2))" and ?ds = "[[1, 2]] :: bytes list"
  have "us_chunked ?s" "\<not> us_finished ?s" "room (Suc (length ?ds)) (us_socket ?s)"
    using open_socket_room(1)[of 2] open_socket_room(2)[of 2]
    by (simp_all add: open_session) (simp_all add: us_set_chunked_def us_new_def us_reset_def flip: numeral_2_eq_2)
  moreover have "length (session_body ?ds) < 2 ^ 31"
  proof -
    have "length (session_body ?ds) = 12" by code_simp
    then show ?thesis by simp
  qed
  moreover have "\<forall>d \<in> set ?ds. d \<noteq> []" by simp
  ultimately show ?thesis using empty_send_ends_body by blast
qed

end
