(* ===== verification/Http_Server.thy ===== *)
theory Http_Server
  imports Http_Request Url_Session
begin

text \<open>
  \<^verbatim>\<open>include/xul/net/http/detail/http_server_impl.hpp\<close>: one client connection of the server, and
  \<^verbatim>\<open>simple_http_server_router_impl.hpp\<close>. Received bytes are characters, as the sources cast them. What the
  sources leave to the user is a parameter: the router says for a request whether there is a
  handler, and a handler is the reaction of a session to the calls made so far, the last of
  them last. A handler sends through the session and does not call the server back. A failed
  assertion is a fault.
\<close>

record http_server_options =
  so_max_keep_alive_requests :: int
  so_receive_buffer_size :: nat
  so_max_header_size :: nat

definition server_options :: http_server_options where
  "server_options = \<lparr>so_max_keep_alive_requests = 100, so_receive_buffer_size = 16 * 1024, so_max_header_size = 16 * 1024\<rparr>"

datatype handler_call =
  Handle_Request http_request | Handle_Body string | Handle_Error int | Handle_Data_Sent nat | Handle_Finished

datatype server_handler = Router_Handler | Not_Found_Handler

record server_env =
  se_options :: http_server_options
  se_trim :: "string \<Rightarrow> string"
  se_split :: "string \<Rightarrow> string list"
  se_router :: "http_request \<Rightarrow> bool"
  se_handler :: "handler_call list \<Rightarrow> url_session \<Rightarrow> url_session"

text \<open>
  The socket of the client is the connection of its session. \<open>sc_alive\<close> says whether the owner
  still holds the client, \<open>sc_calls\<close> are the calls its handlers have got.
\<close>

record server_client =
  sc_session :: url_session
  sc_header_buffer :: string
  sc_receiving_header :: bool
  sc_current_request :: "http_request option"
  sc_handled_requests :: int
  sc_handler :: "server_handler option"
  sc_content_length :: int
  sc_received_body_size :: int
  sc_alive :: bool
  sc_calls :: "handler_call list"

definition sc_new :: "tcp_socket \<Rightarrow> server_client" where
  "sc_new sock = \<lparr>sc_session = us_new (ts_set_listener True sock), sc_header_buffer = [], sc_receiving_header = True,
     sc_current_request = None, sc_handled_requests = 0, sc_handler = None, sc_content_length = 0,
     sc_received_body_size = 0, sc_alive = True, sc_calls = []\<rparr>"

definition sc_socket :: "server_client \<Rightarrow> tcp_socket" where
  "sc_socket s = us_socket (sc_session s)"

definition sc_receive :: "server_env \<Rightarrow> server_client \<Rightarrow> server_client" where
  "sc_receive env s =
     s\<lparr>sc_session := (sc_session s)\<lparr>us_socket := ts_receive (so_receive_buffer_size (se_options env)) (sc_socket s)\<rparr>\<rparr>"

definition sc_close :: "server_client \<Rightarrow> server_client" where
  "sc_close s = s\<lparr>sc_session := us_close (sc_session s)\<rparr>"

definition sc_start :: "server_env \<Rightarrow> server_client \<Rightarrow> server_client" where
  "sc_start env s = sc_receive env (s\<lparr>sc_receiving_header := True\<rparr>)"

definition sc_reset_state :: "server_client \<Rightarrow> server_client" where
  "sc_reset_state s = s\<lparr>sc_header_buffer := [], sc_receiving_header := True, sc_content_length := 0, sc_received_body_size := 0\<rparr>"

text \<open>
  A call of the handler. The handler for unknown requests answers with the status 404; as its session has been
  reset, what it sends is short and the answer does not fault (\<open>not_found_answers\<close>).
\<close>

definition sc_call :: "server_env \<Rightarrow> handler_call \<Rightarrow> server_client \<Rightarrow> server_client" where
  "sc_call env c s =
     (let s = s\<lparr>sc_calls := sc_calls s @ [c]\<rparr> in
      case (sc_handler s, c) of
        (None, _) \<Rightarrow> s
      | (Some Router_Handler, _) \<Rightarrow> s\<lparr>sc_session := se_handler env (sc_calls s) (sc_session s)\<rparr>
      | (Some Not_Found_Handler, Handle_Request _) \<Rightarrow>
          (case send_empty_response 404 (sc_session s) of Inl _ \<Rightarrow> s | Inr (_, sess) \<Rightarrow> s\<lparr>sc_session := sess\<rparr>)
      | (Some Not_Found_Handler, _) \<Rightarrow> s)"

lemma not_found_answers: "\<exists>res. send_empty_response 404 (us_reset s) = Inr res"
proof -
  have "get_description 404 \<noteq> []" by code_simp
  then have clear: "rs_set_status_code 404 (rs_clear r) = rs_set_status_code 404 rs_new" for r
    by (simp add: rs_new_def rs_clear_def hm_clear_def rs_set_status_code_def Let_def)
  let ?h = "rs_print (rs_set_header ''Content-Length'' ''0'' (rs_set_status_code 404 rs_new))"
  have "length ?h = 45" by code_simp
  then have len: "length (text_bytes ?h) < 2 ^ 31" by (simp add: text_bytes_def)
  obtain r sock where sent: "ts_send_n (text_bytes ?h) (us_socket s) = (r, sock)" by fastforce
  have "us_do_send_data (text_bytes ?h) t = Inr (r, t\<lparr>us_socket := sock\<rparr>)" if "us_socket t = us_socket s" for t
    using len sent that by (simp add: us_do_send_data_def c_int_nat)
  then show ?thesis
    by (cases r) (simp_all add: send_empty_response_def us_set_chunked_def us_reset_def us_set_header_def us_send_header_def clear
      finished_after_def us_finish_def Let_def ex_bool_eq)
qed

text \<open>\<open>on_client_error\<close> of the owner closes the client and lets go of it.\<close>

definition sc_client_error :: "server_client \<Rightarrow> server_client" where
  "sc_client_error s = (sc_close s)\<lparr>sc_alive := False\<rparr>"

definition sc_handle_error :: "server_client \<Rightarrow> server_client" where
  "sc_handle_error s = sc_client_error (sc_reset_state s)"

definition sc_handle_request :: "server_env \<Rightarrow> http_request \<Rightarrow> server_client \<Rightarrow> server_client" where
  "sc_handle_request env req s =
     (let s = s\<lparr>sc_handled_requests := sc_handled_requests s + 1, sc_session := us_reset (sc_session s),
                sc_handler := Some (if se_router env req then Router_Handler else Not_Found_Handler)\<rparr>
      in sc_call env (Handle_Request req) s)"

lemma sc_frame [simp]:
  "sc_header_buffer (sc_reset_state s) = []" "sc_receiving_header (sc_reset_state s)"
  "sc_calls (sc_reset_state s) = sc_calls s" "sc_alive (sc_reset_state s) = sc_alive s"
  "sc_session (sc_reset_state s) = sc_session s" "sc_handled_requests (sc_reset_state s) = sc_handled_requests s"
  by (simp_all add: sc_reset_state_def)

text \<open>
  The three functions call each other along the data: the request, its body, the next request. The data are a block of
  the socket (\<open>None\<close>) or lie in the memory of the header buffer, \<open>k\<close> bytes behind its start (\<open>Some k\<close>): what follows a
  request whose header was buffered is handled where it stands, after \<open>reset_state\<close> has set the size of the buffer to zero. When
  this rest is the beginning of a header, \<open>assign\<close> copies it with \<open>memcpy\<close> to the start of the same memory, which
  is undefined when the two blocks overlap: a fault. The size read of a body is cut to an \<open>int\<close>.
\<close>

definition overlaps :: "nat option \<Rightarrow> string \<Rightarrow> bool" where
  "overlaps place data \<longleftrightarrow> (case place of None \<Rightarrow> False | Some k \<Rightarrow> k < length data)"

definition behind :: "nat option \<Rightarrow> nat \<Rightarrow> nat option" where
  "behind place n = map_option (\<lambda>k. k + n) place"

function handle_header_data :: "server_env \<Rightarrow> nat option \<Rightarrow> string \<Rightarrow> server_client \<Rightarrow> fault + server_client"
  and parse_header_data :: "server_env \<Rightarrow> nat option \<Rightarrow> string \<Rightarrow> server_client \<Rightarrow> fault + server_client"
  and handle_body_data :: "server_env \<Rightarrow> nat option \<Rightarrow> string \<Rightarrow> server_client \<Rightarrow> fault + server_client" where
  "handle_header_data env place data s =
     (if sc_header_buffer s = [] then parse_header_data env place data s
      else let s = s\<lparr>sc_header_buffer := sc_header_buffer s @ data\<rparr> in parse_header_data env (Some 0) (sc_header_buffer s) s)"
| "parse_header_data env place data s =
     (case find_header_end data of
        None \<Rightarrow>
          if length data > so_max_header_size (se_options env) then Inr (sc_handle_error s)
          else if sc_header_buffer s \<noteq> [] then Inr (sc_receive env s)
          else if overlaps place data then Inl Overlapping_Copy
          else Inr (sc_receive env (s\<lparr>sc_header_buffer := data\<rparr>))
      | Some pos \<Rightarrow>
          let header_size = pos + 4 in
          case request_parse (se_trim env) (se_split env) data header_size rq_new of
            Inl e \<Rightarrow> Inl e
          | Inr (ok, request) \<Rightarrow>
              if \<not> ok then Inr (sc_handle_error s)
              else
                let s = sc_handle_request env request
                          (s\<lparr>sc_receiving_header := False, sc_content_length := rq_content_length request,
                             sc_current_request := Some request\<rparr>)
                in if length data > header_size then
                     if sc_content_length s = 0
                     then handle_header_data env (behind place header_size) (drop header_size data) (sc_reset_state s)
                     else handle_body_data env (behind place header_size) (drop header_size data) s
                   else Inr (if ts_open (sc_socket s) then sc_receive env s else s))"
| "handle_body_data env place data s =
     (if data = [] then Inl Assertion_Failed
      else if sc_current_request s = None \<or> sc_handler s = None then Inr (sc_handle_error (sc_close s))
      else
        let remaining_size = sc_content_length s - sc_received_body_size s;
            read_size = c_int (min remaining_size (int (length data)))
        in if read_size \<le> 0 then Inl Assertion_Failed
           else
             let s = sc_call env (Handle_Body (take (nat read_size) data))
                       (s\<lparr>sc_received_body_size := sc_received_body_size s + read_size\<rparr>)
             in if int (length data) > read_size
                then handle_header_data env (behind place (nat read_size)) (drop (nat read_size) data) (sc_reset_state s)
                else let s = (if read_size = remaining_size then sc_reset_state s else s)
                     in Inr (if ts_open (sc_socket s) then sc_receive env s else s))"
  by pat_completeness auto
termination
  by (relation "measure (case_sum (\<lambda>(_, _, data, s). 2 * (length (sc_header_buffer s) + length data) + 1)
     (case_sum (\<lambda>(_, _, data, s). 2 * length data) (\<lambda>(_, _, data, s). 2 * length data + 1)))") auto

declare handle_header_data.simps [simp del] parse_header_data.simps [simp del] handle_body_data.simps [simp del]

subsection \<open>Events of the socket\<close>

definition sc_on_receive :: "server_env \<Rightarrow> string \<Rightarrow> server_client \<Rightarrow> fault + server_client" where
  "sc_on_receive env data s =
     (if sc_receiving_header s then handle_header_data env None data s else handle_body_data env None data s)"

text \<open>A failed receive and a failed send are handled in the same way.\<close>

definition sc_on_failed :: "server_env \<Rightarrow> int \<Rightarrow> server_client \<Rightarrow> server_client" where
  "sc_on_failed env errcode s =
     (let s = sc_reset_state s;
          s = (if sc_handler s \<noteq> None then sc_close (sc_call env (Handle_Error errcode) s) else s)
      in sc_client_error s)"

definition sc_on_send :: "server_env \<Rightarrow> nat \<Rightarrow> server_client \<Rightarrow> server_client" where
  "sc_on_send env n s =
     (if sc_handler s = None then s
      else
        let s = sc_call env (Handle_Data_Sent n) s in
        if us_finished (sc_session s) \<and> ts_sending_queue (sc_socket s) = [] then
          let s = (if \<not> us_keep_alive (sc_session s)
                      \<or> sc_handled_requests s \<ge> so_max_keep_alive_requests (se_options env)
                   then sc_close s else sc_reset_state s)
          in (sc_call env Handle_Finished s)\<lparr>sc_handler := None\<rparr>
        else s)"

fun sc_receive_all :: "server_env \<Rightarrow> string list \<Rightarrow> server_client \<Rightarrow> fault + server_client" where
  "sc_receive_all env [] s = Inr s"
| "sc_receive_all env (c # cs) s = sbind (sc_on_receive env c s) (sc_receive_all env cs)"

subsection \<open>What the handlers are given\<close>

text \<open>The requests with the bodies received so far.\<close>

fun deliver :: "(http_request \<times> string) list \<Rightarrow> handler_call \<Rightarrow> (http_request \<times> string) list" where
  "deliver acc (Handle_Request r) = acc @ [(r, [])]"
| "deliver acc (Handle_Body d) = (if acc = [] then [] else butlast acc @ [(fst (last acc), snd (last acc) @ d)])"
| "deliver acc _ = acc"

definition delivered :: "handler_call list \<Rightarrow> (http_request \<times> string) list" where
  "delivered cs = foldl deliver [] cs"

lemma deliver_body_Nil [simp]: "deliver acc (Handle_Body []) = acc"
  by simp

lemma deliver_body_body: "deliver (deliver acc (Handle_Body a)) (Handle_Body b) = deliver acc (Handle_Body (a @ b))"
  by simp

lemma delivered_snoc [simp]: "delivered (cs @ [c]) = deliver (delivered cs) c"
  by (simp add: delivered_def)

lemma delivered_Nil [simp]: "delivered [] = []"
  by (simp add: delivered_def)

definition message_ok :: "server_env \<Rightarrow> http_request \<times> string \<Rightarrow> bool" where
  "message_ok env m \<longleftrightarrow> request_ok (fst m) \<and> rq_content_length (fst m) = int (length (snd m)) \<and> snd m \<noteq> []
     \<and> length (snd m) < 2 ^ 31 \<and> length (rq_print (fst m)) \<le> so_max_header_size (se_options env)
     \<and> se_router env (rq_arrived (fst m))"

text \<open>No header is longer than the whole message before it, so that the copy within the header buffer does not overlap.\<close>

fun headers_fit :: "(http_request \<times> string) list \<Rightarrow> bool" where
  "headers_fit (m # m' # ms) \<longleftrightarrow>
     length (rq_print (fst m')) \<le> length (rq_print (fst m)) + length (snd m) \<and> headers_fit (m' # ms)"
| "headers_fit _ \<longleftrightarrow> True"

lemma headers_fit_tl: "headers_fit (m # ms) \<Longrightarrow> headers_fit ms"
  by (cases ms) simp_all

text \<open>The data of the first header can be copied from where they stand.\<close>

definition movable :: "nat option \<Rightarrow> (http_request \<times> string) list \<Rightarrow> bool" where
  "movable place ms \<longleftrightarrow>
     (\<forall>k m. place = Some k \<and> ms \<noteq> [] \<and> hd ms = m \<longrightarrow> length (rq_print (fst m)) \<le> k)"

lemma movable_next: "headers_fit ((r, b) # ms) \<Longrightarrow> movable (behind (behind place (length (rq_print r))) (length b)) ms"
  by (cases ms; cases place) (auto simp: movable_def behind_def)

definition encode_messages :: "(http_request \<times> string) list \<Rightarrow> string" where
  "encode_messages ms = concat (map (\<lambda>m. rq_print (fst m) @ snd m) ms)"

definition arrived :: "(http_request \<times> string) list \<Rightarrow> (http_request \<times> string) list" where
  "arrived ms = map (\<lambda>m. (rq_arrived (fst m), snd m)) ms"

definition env_ok :: "server_env \<Rightarrow> bool" where
  "env_ok env \<longleftrightarrow> boost_text (se_trim env) (se_split env) \<and>
     (\<forall>cs s. ts_open (us_socket s) \<longrightarrow> ts_open (us_socket (se_handler env cs s)) \<and>
        ts_reads (us_socket (se_handler env cs s)) = ts_reads (us_socket s))"

text \<open>
  Where the client stands: \<open>b\<close> is what is left of the body it receives, \<open>ms\<close> the requests behind it,
  \<open>t\<close> the text that has not arrived.
\<close>

definition standing :: "server_env \<Rightarrow> server_client \<Rightarrow> string \<Rightarrow> (http_request \<times> string) list \<Rightarrow> string \<Rightarrow> bool" where
  "standing env s b ms t \<longleftrightarrow> list_all (message_ok env) ms \<and> headers_fit ms \<and> sc_alive s \<and> ts_open (sc_socket s) \<and>
     (if b = [] then sc_receiving_header s \<and> sc_received_body_size s = 0 \<and> sc_header_buffer s @ t = encode_messages ms \<and>
         (sc_header_buffer s = [] \<or> (\<exists>m ms'. ms = m # ms' \<and> length (sc_header_buffer s) < length (rq_print (fst m))))
      else \<not> sc_receiving_header s \<and> sc_current_request s \<noteq> None \<and> sc_handler s = Some Router_Handler \<and>
         sc_content_length s - sc_received_body_size s = int (length b) \<and> length b < 2 ^ 31 \<and> t = b @ encode_messages ms)"

definition due :: "server_client \<Rightarrow> string \<Rightarrow> (http_request \<times> string) list \<Rightarrow> (http_request \<times> string) list" where
  "due s b ms = deliver (delivered (sc_calls s)) (Handle_Body b) @ arrived ms"

definition reads :: "server_client \<Rightarrow> nat" where
  "reads s = length (ts_reads (sc_socket s))"

definition advances ::
    "server_env \<Rightarrow> fault + server_client \<Rightarrow> string \<Rightarrow> (http_request \<times> string) list \<Rightarrow> nat \<Rightarrow> bool" where
  "advances env res t d n \<longleftrightarrow>
     (\<exists>s b ms. res = Inr s \<and> standing env s b ms t \<and> due s b ms = d \<and> reads s = Suc n)"

subsection \<open>Requests in the stream\<close>

lemma printed_request_end:
  assumes "request_ok r"
  shows "find_header_end (rq_print r @ rest) = Some (length (rq_print r) - 4)" and "4 \<le> length (rq_print r)"
  using assms header_lines_end[of "hm_headers (rq_message r)" "request_line r" rest] request_line_no_cr[OF assms]
  by (auto simp: rq_print_lines write_headers_def request_ok_def)

lemma printed_request_prefix:
  assumes "request_ok r" and "p @ q = rq_print r @ rest" and "length p < length (rq_print r)"
  shows "find_header_end p = None"
proof (rule ccontr)
  assume "find_header_end p \<noteq> None"
  then obtain i where i: "search (crlf @ crlf) p = Some i" by (auto simp: find_header_end_def)
  have "search (crlf @ crlf) (p @ q) = Some i" by (rule search_append[OF i])
  then have "i = length (rq_print r) - 4" using printed_request_end[OF assms(1)] assms(2) by (simp add: find_header_end_def)
  then show False using search_bound[OF i] printed_request_end(2)[OF assms(1)] assms(3) by simp
qed

lemma receive_frame [simp]:
  "sc_header_buffer (sc_receive env s) = sc_header_buffer s" "sc_receiving_header (sc_receive env s) = sc_receiving_header s"
  "sc_current_request (sc_receive env s) = sc_current_request s" "sc_handler (sc_receive env s) = sc_handler s"
  "sc_content_length (sc_receive env s) = sc_content_length s" "sc_received_body_size (sc_receive env s) = sc_received_body_size s"
  "sc_alive (sc_receive env s) = sc_alive s" "sc_calls (sc_receive env s) = sc_calls s"
  "ts_open (sc_socket (sc_receive env s)) = ts_open (sc_socket s)" "reads (sc_receive env s) = Suc (reads s)"
  by (simp_all add: sc_receive_def sc_socket_def ts_receive_def ts_do_receive_def reads_def)

lemma router_call:
  assumes "sc_handler s = Some Router_Handler"
  shows "sc_call env c s = s\<lparr>sc_calls := sc_calls s @ [c], sc_session := se_handler env (sc_calls s @ [c]) (sc_session s)\<rparr>"
  using assms by (simp add: sc_call_def Let_def)

lemma env_handler:
  assumes "env_ok env" "ts_open (us_socket s)"
  shows "ts_open (us_socket (se_handler env cs s))" "ts_reads (us_socket (se_handler env cs s)) = ts_reads (us_socket s)"
  using assms by (auto simp: env_ok_def)

lemma standing_received:
  assumes "standing env s b ms t"
  shows "advances env (Inr (sc_receive env s)) t (due s b ms) (reads s)"
proof -
  have "standing env (sc_receive env s) b ms t" "due (sc_receive env s) b ms = due s b ms"
    using assms by (auto simp: standing_def due_def)
  then show ?thesis by (auto simp: advances_def)
qed

lemma body_step:
  assumes env: "env_ok env" and s: "standing env s b ms (d @ t)" and "b \<noteq> []" and "d \<noteq> []"
    and next_header: "\<And>d' s'. length d' < length d \<Longrightarrow> d' \<noteq> [] \<Longrightarrow> standing env s' [] ms (d' @ t) \<Longrightarrow>
      sc_header_buffer s' = [] \<Longrightarrow> advances env (parse_header_data env (behind place (length b)) d' s') t (due s' [] ms) (reads s')"
  shows "advances env (handle_body_data env place d s) t (due s b ms) (reads s)"
proof -
  let ?m = "min (length b) (length d)"
  let ?s1 = "sc_call env (Handle_Body (take ?m d)) (s\<lparr>sc_received_body_size := sc_received_body_size s + int ?m\<rparr>)"
  have st: "sc_handler s = Some Router_Handler" "sc_current_request s \<noteq> None" "ts_open (sc_socket s)"
    "sc_content_length s - sc_received_body_size s = int (length b)" "length b < 2 ^ 31" "d @ t = b @ encode_messages ms"
    and front: "\<not> sc_receiving_header s" "sc_alive s" "list_all (message_ok env) ms" "headers_fit ms"
    using s \<open>b \<noteq> []\<close> by (auto simp: standing_def)
  have m: "c_int (min (int (length b)) (int (length d))) = int ?m" "0 < ?m"
  proof -
    have "?m < 2 ^ 31" using st(5) by linarith
    then have "c_int (int ?m) = int ?m" by (rule c_int_nat)
    then show "c_int (min (int (length b)) (int (length d))) = int ?m" by (simp add: of_nat_min)
    show "0 < ?m" using \<open>b \<noteq> []\<close> \<open>d \<noteq> []\<close> by simp
  qed
  have s1: "?s1 = s\<lparr>sc_received_body_size := sc_received_body_size s + int ?m, sc_calls := sc_calls s @ [Handle_Body (take ?m d)],
      sc_session := se_handler env (sc_calls s @ [Handle_Body (take ?m d)]) (sc_session s)\<rparr>"
    using st(1) by (subst router_call) simp_all
  have sock: "ts_open (sc_socket ?s1)" "reads ?s1 = reads s"
    unfolding s1 using env_handler[OF env] st(3) by (simp_all add: sc_socket_def reads_def)
  have pre: "take ?m d = take ?m b" using arg_cong[OF st(6), of "take ?m"] by simp
  have rest: "drop ?m d @ t = drop ?m b @ encode_messages ms"
    using arg_cong[OF st(6), of "drop ?m"] by (cases "length b \<le> length d") simp_all
  have due: "due ?s1 (drop ?m b) ms = due s b ms"
    unfolding s1 by (simp add: due_def pre deliver_body_body del: deliver.simps)
  have reset: "standing env (sc_reset_state ?s1) [] ms (drop ?m d @ t)" "due (sc_reset_state ?s1) [] ms = due s b ms"
    if "length b \<le> length d"
    using that s sock(1) rest due unfolding standing_def s1 by (simp_all add: sc_reset_state_def sc_socket_def due_def encode_messages_def)
  note step = handle_body_data.simps[of env place d s] st(1-4) m \<open>d \<noteq> []\<close>
  consider (more) "length b < length d" | (part) "length d < length b" | (whole) "length d = length b" by linarith
  then show ?thesis
  proof cases
    case more
    have "handle_body_data env place d s = parse_header_data env (behind place (length b)) (drop ?m d) (sc_reset_state ?s1)"
      using more step by (simp add: Let_def handle_header_data.simps)
    moreover have "length (drop ?m d) < length d" "drop ?m d \<noteq> []"
      using more \<open>b \<noteq> []\<close> length_greater_0_conv[of b] by (simp_all, linarith)
    ultimately show ?thesis
      using next_header[of "drop ?m d" "sc_reset_state ?s1"] reset more sock by (simp add: reads_def sc_socket_def)
  next
    case part
    moreover from this have "length b - length d < 2 ^ 31" using st(5) by linarith
    ultimately have "standing env ?s1 (drop ?m b) ms t"
      using front sock(1) st rest unfolding standing_def s1 by (simp add: sc_socket_def)
    moreover have "handle_body_data env place d s = Inr (sc_receive env ?s1)" using part step sock by (simp add: Let_def)
    ultimately show ?thesis using standing_received[of env ?s1 "drop ?m b" ms t] due sock by simp
  next
    case whole
    then have "handle_body_data env place d s = Inr (sc_receive env (sc_reset_state ?s1))"
      using step sock by (simp add: Let_def sc_socket_def)
    then show ?thesis using standing_received[of env "sc_reset_state ?s1" "[]" ms t] reset whole sock
      by (simp add: reads_def sc_socket_def)
  qed
qed

lemma arrived_simps [simp]:
  "rq_message (rq_arrived r) = rq_message r" "rq_content_length (rq_arrived r) = rq_content_length r"
  by (simp_all add: rq_arrived_def rq_set_url_def rq_content_length_def rq_get_header_def)

text \<open>The state after the header of a request that the router knows.\<close>

definition took :: "server_env \<Rightarrow> http_request \<Rightarrow> server_client \<Rightarrow> server_client" where
  "took env r s = sc_handle_request env (rq_arrived r)
     (s\<lparr>sc_receiving_header := False, sc_content_length := rq_content_length r, sc_current_request := Some (rq_arrived r)\<rparr>)"

lemma took_eq:
  assumes "se_router env (rq_arrived r)"
  shows "took env r s = s\<lparr>sc_receiving_header := False, sc_content_length := rq_content_length r,
    sc_current_request := Some (rq_arrived r), sc_handled_requests := sc_handled_requests s + 1,
    sc_handler := Some Router_Handler, sc_calls := sc_calls s @ [Handle_Request (rq_arrived r)],
    sc_session := se_handler env (sc_calls s @ [Handle_Request (rq_arrived r)]) (us_reset (sc_session s))\<rparr>"
  using assms by (simp add: took_def sc_handle_request_def router_call Let_def)

lemma took_socket:
  assumes "env_ok env" "se_router env (rq_arrived r)" "ts_open (sc_socket s)"
  shows "ts_open (sc_socket (took env r s)) \<and> reads (took env r s) = reads s"
proof -
  have "us_socket (us_reset (sc_session s)) = sc_socket s" by (simp add: us_reset_def sc_socket_def)
  then show ?thesis
    using env_handler[OF assms(1), of "us_reset (sc_session s)"] assms(3)
    by (simp add: took_eq[OF assms(2)] sc_socket_def reads_def)
qed

lemma parse_printed:
  assumes "env_ok env" "request_ok r" "se_router env (rq_arrived r)" "d = rq_print r @ d'"
  shows "parse_header_data env place d s =
    (if d' = [] then Inr (if ts_open (sc_socket (took env r s)) then sc_receive env (took env r s) else took env r s)
     else if sc_content_length (took env r s) = 0 then handle_header_data env (behind place (length (rq_print r))) d' (sc_reset_state (took env r s))
     else handle_body_data env (behind place (length (rq_print r))) d' (took env r s))"
proof -
  let ?h = "length (rq_print r)"
  have h: "find_header_end d = Some (?h - 4)" "?h - 4 + 4 = ?h"
    using printed_request_end[OF assms(2)] assms(4) by auto
  have "request_parse (se_trim env) (se_split env) d ?h rq_new = Inr (True, rq_arrived r)"
    using boost_text.request_parse_printed[of "se_trim env" "se_split env" r rq_new ?h d'] assms(1,2,4)
    by (simp add: env_ok_def rq_new_def rq_clear_def hm_clear_def)
  with h assms(4) show ?thesis by (subst parse_header_data.simps) (simp add: took_def Let_def)
qed

lemma parse_step:
  assumes env: "env_ok env" and "sc_receiving_header s" "sc_received_body_size s = 0" "sc_alive s" "ts_open (sc_socket s)"
    and "list_all (message_ok env) ms" "d @ t = encode_messages ms" "d \<noteq> []"
    and "sc_header_buffer s = [] \<and> movable place ms \<or> sc_header_buffer s = d" "headers_fit ms"
  shows "advances env (parse_header_data env place d s) t (due s [] ms) (reads s)"
  using assms
proof (induction d arbitrary: s ms place rule: length_induct)
  case (1 d)
  obtain r b ms' where ms: "ms = (r, b) # ms'" using 1(8,9) by (cases ms) (auto simp: encode_messages_def)
  have ok: "request_ok r" "rq_content_length r = int (length b)" "b \<noteq> []" "length b < 2 ^ 31"
      "length (rq_print r) \<le> so_max_header_size (se_options env)" "se_router env (rq_arrived r)"
    using 1(7) by (simp_all add: ms message_ok_def)
  have oks: "list_all (message_ok env) ms'" using 1(7) by (simp add: ms)
  have cut: "d @ t = rq_print r @ b @ encode_messages ms'" using 1(8) by (simp add: ms encode_messages_def)
  show ?case
  proof (cases "length d < length (rq_print r)")
    case True
    then have none: "find_header_end d = None" using printed_request_prefix[OF ok(1) cut] by simp
    let ?s1 = "s\<lparr>sc_header_buffer := d\<rparr>"
    have "sc_header_buffer s \<noteq> [] \<Longrightarrow> ?s1 = s" using 1(10) by auto
    moreover have "\<not> overlaps place d" if "sc_header_buffer s = []"
      using 1(9,10) that True by (auto simp: overlaps_def movable_def ms split: option.split)
    ultimately have "parse_header_data env place d s = Inr (sc_receive env ?s1)"
      using none True ok(5) by (auto simp: parse_header_data.simps)
    moreover have "standing env ?s1 [] ms t"
      using 1(3-8,11) True by (auto simp: standing_def sc_socket_def ms)
    ultimately show ?thesis using standing_received[of env ?s1 "[]" ms t] by (simp add: due_def reads_def sc_socket_def)
  next
    case False
    then obtain d' where d: "d = rq_print r @ d'" "d' @ t = b @ encode_messages ms'" using append_cut[OF cut] by auto
    let ?s1 = "took env r s"
    note s1 = took_eq[OF ok(6), of s]
    have sock: "ts_open (sc_socket ?s1)" "reads ?s1 = reads s"
      using took_socket[OF env ok(6)] 1(6) by simp_all
    have standing: "standing env ?s1 b ms' (d' @ t)"
      unfolding standing_def using sock(1) ok oks 1(4,5) d(2) headers_fit_tl[OF 1(11)[unfolded ms]] by (simp add: s1)
    have due: "due ?s1 b ms' = due s [] ms" by (simp add: s1 due_def ms arrived_def)
    note step = parse_printed[OF env ok(1,6) d(1), of place s] ok(3)
    let ?p = "behind place (length (rq_print r))"
    show ?thesis
    proof (cases "d' = []")
      case True
      then have "parse_header_data env place d s = Inr (sc_receive env ?s1)" using step sock(1) by simp
      then show ?thesis using standing_received[OF standing[unfolded True append_Nil]] due sock(2) by simp
    next
      case False
      have "sc_content_length ?s1 \<noteq> 0" using ok(2,3) by (simp add: s1)
      then have "parse_header_data env place d s = handle_body_data env ?p d' ?s1" using False step by simp
      moreover have "advances env (handle_body_data env ?p d' ?s1) t (due ?s1 b ms') (reads ?s1)"
      proof (rule body_step[OF env standing ok(3) False])
        fix e u
        assume u: "length e < length d'" "e \<noteq> []" "standing env u [] ms' (e @ t)" "sc_header_buffer u = []"
        then have "length e < length d" using d(1) by simp
        then show "advances env (parse_header_data env (behind ?p (length b)) e u) t (due u [] ms') (reads u)"
          using 1(1) env u movable_next[OF 1(11)[unfolded ms]] by (simp add: standing_def)
      qed
      ultimately show ?thesis using due sock(2) by simp
    qed
  qed
qed

lemma receive_step:
  assumes env: "env_ok env" and s: "standing env s b ms (d @ t)" and "d \<noteq> []"
  shows "advances env (sc_on_receive env d s) t (due s b ms) (reads s)"
proof (cases "b = []")
  case False
  have "movable None ms" "behind None n = None" for n by (simp_all add: movable_def behind_def)
  with False have "advances env (handle_body_data env None d s) t (due s b ms) (reads s)"
    using body_step[OF env s False \<open>d \<noteq> []\<close>, of None] parse_step[OF env, of _ ms _ t None] by (simp add: standing_def)
  then show ?thesis using s False by (simp add: sc_on_receive_def standing_def)
next
  case True
  let ?d = "sc_header_buffer s @ d" and ?s1 = "if sc_header_buffer s = [] then s else s\<lparr>sc_header_buffer := sc_header_buffer s @ d\<rparr>"
  have st: "sc_receiving_header s" "sc_received_body_size s = 0" "sc_alive s" "ts_open (sc_socket s)"
    "list_all (message_ok env) ms" "?d @ t = encode_messages ms" "headers_fit ms"
    using s True by (simp_all add: standing_def)
  let ?p = "if sc_header_buffer s = [] then None else Some 0"
  have "sc_on_receive env d s = parse_header_data env ?p ?d ?s1"
    using st(1) by (simp add: sc_on_receive_def handle_header_data.simps Let_def)
  moreover have "advances env (parse_header_data env ?p ?d ?s1) t (due ?s1 [] ms) (reads ?s1)"
    by (rule parse_step[OF env]) (use st \<open>d \<noteq> []\<close> in \<open>simp_all add: sc_socket_def movable_def\<close>)
  moreover have "due ?s1 [] ms = due s b ms" "reads ?s1 = reads s" using True by (simp_all add: due_def reads_def sc_socket_def)
  ultimately show ?thesis by simp
qed

lemma receive_all_steps:
  assumes "env_ok env" and "standing env s b ms (concat cs @ t)" and "list_all (\<lambda>c. c \<noteq> []) cs"
  shows "\<exists>s' b' ms'. sc_receive_all env cs s = Inr s' \<and> standing env s' b' ms' t \<and> due s' b' ms' = due s b ms \<and>
    reads s' = reads s + length cs"
  using assms(2,3)
proof (induction cs arbitrary: s b ms)
  case Nil
  then show ?case by auto
next
  case (Cons c cs)
  then have "advances env (sc_on_receive env c s) (concat cs @ t) (due s b ms) (reads s)"
    using receive_step[OF assms(1), of s b ms c "concat cs @ t"] by simp
  then obtain s1 b1 ms1 where 1: "sc_on_receive env c s = Inr s1" "standing env s1 b1 ms1 (concat cs @ t)"
      "due s1 b1 ms1 = due s b ms" "reads s1 = Suc (reads s)" by (auto simp: advances_def)
  from Cons.IH[OF 1(2)] Cons.prems(2) 1 show ?case by auto
qed

text \<open>
  C10. Pipelined requests, each for a known handler, with a header of at most the maximal header size and a body of the length it
  names (not empty, below \<open>2^31\<close>), and no header longer than the whole message before it (else the copy within the header buffer
  overlaps): however the stream is cut into pieces that are not empty, as long as the handlers keep the socket open and
  no write completes in between, the handlers are given every request in order and behind it its body, nothing is left over, the client
  stays connected, and each piece is followed by exactly one new receive.
\<close>

theorem server_pipelining:
  assumes "env_ok env" and "list_all (message_ok env) ms" and "headers_fit ms" and "ts_open sock"
    and "concat chunks = concat (map (\<lambda>m. rq_print (fst m) @ snd m) ms)" and "list_all (\<lambda>c. c \<noteq> []) chunks"
  shows "\<exists>s. sc_receive_all env chunks (sc_start env (sc_new sock)) = Inr s \<and>
      delivered (sc_calls s) = map (\<lambda>m. (rq_arrived (fst m), snd m)) ms \<and>
      sc_alive s \<and> ts_open (sc_socket s) \<and> sc_receiving_header s \<and> sc_header_buffer s = [] \<and>
      length (ts_reads (sc_socket s)) = length (ts_reads sock) + 1 + length chunks"
proof -
  let ?s = "sc_start env (sc_new sock)"
  have new: "sc_calls ?s = []" "reads ?s = length (ts_reads sock) + 1" "standing env ?s [] ms (concat chunks @ [])"
    using assms(2-5) by (simp_all add: sc_start_def sc_new_def us_new_def us_reset_def sc_receive_def sc_socket_def reads_def
        ts_receive_def ts_do_receive_def ts_set_listener_def standing_def encode_messages_def)
  from receive_all_steps[OF assms(1) new(3) assms(6)] obtain s b ms' where
    s: "sc_receive_all env chunks ?s = Inr s" "standing env s b ms' []" "due s b ms' = due ?s [] ms" "reads s = reads ?s + length chunks"
    by blast
  have "b = []" using s(2) by (simp add: standing_def split: if_splits)
  moreover from this have "ms' = []"
  proof (cases ms')
    case (Cons m ms'')
    then show ?thesis using s(2) \<open>b = []\<close> printed_request_end(2)[of "fst m"]
      by (auto simp: standing_def encode_messages_def message_ok_def)
  qed
  ultimately show ?thesis
    using s new by (intro exI[of _ s]) (simp add: standing_def due_def encode_messages_def arrived_def reads_def del: deliver.simps)
qed

subsection \<open>The simple router\<close>

text \<open>Patterns are prefixes of the path, tried in the order they were added.\<close>

record 'h simple_router =
  sr_handlers :: "(string \<times> 'h) list"
  sr_not_found :: "'h option"

definition sr_new :: "'h simple_router" where
  "sr_new = \<lparr>sr_handlers = [], sr_not_found = None\<rparr>"

definition sr_add :: "string option \<Rightarrow> 'h \<Rightarrow> 'h simple_router \<Rightarrow> 'h simple_router" where
  "sr_add pattern h r = (case pattern of None \<Rightarrow> r | Some p \<Rightarrow> r\<lparr>sr_handlers := sr_handlers r @ [(p, h)]\<rparr>)"

fun first_prefix :: "string \<Rightarrow> (string \<times> 'h) list \<Rightarrow> 'h option" where
  "first_prefix path [] = None"
| "first_prefix path ((p, h) # hs) = (if take (length p) path = p then Some h else first_prefix path hs)"

definition sr_create_url_handler :: "'h simple_router \<Rightarrow> http_request \<Rightarrow> 'h option" where
  "sr_create_url_handler r req =
     (case first_prefix (uri_path (rq_uri req)) (sr_handlers r) of Some h \<Rightarrow> Some h | None \<Rightarrow> sr_not_found r)"

lemma first_prefix_append: "first_prefix path (hs @ hs') = (case first_prefix path hs of Some h \<Rightarrow> Some h | None \<Rightarrow> first_prefix path hs')"
  by (induction path hs rule: first_prefix.induct) auto

definition sample_env :: server_env where
  "sample_env = \<lparr>se_options = server_options, se_trim = trim_reference, se_split = split_reference,
     se_router = (\<lambda>req. sr_create_url_handler (sr_add (Some ''/a'') () sr_new) req \<noteq> None),
     se_handler = (\<lambda>cs s. us_set_keep_alive True s)\<rparr>"

lemma sample_env_ok: "env_ok sample_env"
  by (simp add: env_ok_def sample_env_def boost.boost_text_axioms us_set_keep_alive_def)

lemma sample_message_ok: "message_ok sample_env (sample_request, ''abc'')"
proof -
  have "rq_content_length sample_request = 3" "length (rq_print sample_request) = 41"
    "take 2 (uri_path (rq_uri (rq_arrived sample_request))) = ''/a''"
    by code_simp+
  then show ?thesis using sample_request_ok
    by (simp add: message_ok_def sample_env_def server_options_def sr_create_url_handler_def sr_add_def sr_new_def
      flip: numeral_2_eq_2)
qed

theorem server_pipelining_witness:
  "\<exists>s. sc_receive_all sample_env [rq_print sample_request @ ''ab'', ''c'' @ rq_print sample_request, ''abc''] (sc_start sample_env (sc_new ts_accepted))
     = Inr s \<and> delivered (sc_calls s) = [(rq_arrived sample_request, ''abc''), (rq_arrived sample_request, ''abc'')]"
proof -
  have "ts_open ts_accepted" by code_simp
  moreover have "list_all (message_ok sample_env) [(sample_request, ''abc''), (sample_request, ''abc'')]"
    using sample_message_ok by simp
  moreover have "rq_print sample_request \<noteq> []" using printed_request_end(2)[OF sample_request_ok] by auto
  moreover have "headers_fit [(sample_request, ''abc''), (sample_request, ''abc'')]" by simp
  ultimately show ?thesis
    using server_pipelining[OF sample_env_ok, of "[(sample_request, ''abc''), (sample_request, ''abc'')]" ts_accepted
      "[rq_print sample_request @ ''ab'', ''c'' @ rq_print sample_request, ''abc'']"] by auto
qed

text \<open>
  Where pipelining fails: a request that names no body is followed by more data. In the same piece behind a request
  without a content length, or in the next piece behind any request without a body, the server takes
  the data for a body, of which it can read nothing, and its assertion fails.
\<close>

theorem server_bodiless_requests:
  assumes "env_ok env" and "request_ok r" and "- (2 ^ 31) \<le> rq_content_length r" "rq_content_length r \<le> 0" and "se_router env (rq_arrived r)"
    and "length (rq_print r) \<le> so_max_header_size (se_options env)" and "ts_open sock" and "x \<noteq> []"
  shows "(rq_content_length r < 0 \<longrightarrow> sc_receive_all env [rq_print r @ x] (sc_start env (sc_new sock)) = Inl Assertion_Failed) \<and>
    sc_receive_all env [rq_print r, x] (sc_start env (sc_new sock)) = Inl Assertion_Failed"
proof -
  let ?s = "sc_start env (sc_new sock)" and ?t = "took env r (sc_start env (sc_new sock))"
  have start: "sc_receiving_header ?s" "sc_header_buffer ?s = []" "ts_open (sc_socket ?s)" "sc_received_body_size ?s = 0"
    using assms(7) by (simp_all add: sc_start_def sc_new_def us_new_def us_reset_def sc_receive_def sc_socket_def
        ts_receive_def ts_do_receive_def ts_set_listener_def)
  have t: "sc_content_length ?t = rq_content_length r" "sc_received_body_size ?t = 0" "\<not> sc_receiving_header ?t"
    "sc_current_request ?t \<noteq> None" "sc_handler ?t \<noteq> None" "ts_open (sc_socket ?t)"
    using took_eq[OF assms(5), of ?s] took_socket[OF assms(1,5) start(3)] start(4) by simp_all
  have fault: "handle_body_data env p x u = Inl Assertion_Failed"
    if "sc_content_length u = rq_content_length r" "sc_received_body_size u = 0" "sc_current_request u \<noteq> None" "sc_handler u \<noteq> None" for u p
  proof -
    have "c_int (rq_content_length r) = rq_content_length r"
      using assms(3,4) by (intro c_int_id) simp_all
    moreover have "min (rq_content_length r) (int (length x)) = rq_content_length r" using assms(4) by linarith
    ultimately show ?thesis using that assms(4) by (subst handle_body_data.simps) auto
  qed
  have header: "sc_on_receive env c ?s = parse_header_data env None c ?s" for c
    using start by (simp add: sc_on_receive_def handle_header_data.simps)
  have "sc_receive_all env [rq_print r @ x] ?s = Inl Assertion_Failed" if "rq_content_length r < 0"
    using that parse_printed[OF assms(1,2,5) refl, of None x ?s] header assms(8) t fault[of ?t] by simp
  moreover have "sc_receive_all env [rq_print r, x] ?s = Inl Assertion_Failed"
    using parse_printed[OF assms(1,2,5), of "rq_print r" "[]" None ?s] header t fault[of "sc_receive env ?t"]
    by (simp add: sc_on_receive_def[of env x])
  ultimately show ?thesis by blast
qed

text \<open>
  Where the copy overlaps: a header buffered in part, then the rest of its request and the beginning of a header
  that is longer than this request.
\<close>

theorem server_copy_overlaps:
  assumes "env_ok env" and "message_ok env (r, b)" and "request_ok r'" and "length (rq_print r) + length b < length h"
    and "h @ h' = rq_print r'" and "h' \<noteq> []" and "length h \<le> so_max_header_size (se_options env)" and "ts_open sock"
    and "p @ q = rq_print r" and "p \<noteq> []" and "q \<noteq> []"
  shows "sc_receive_all env [p, q @ b @ h] (sc_start env (sc_new sock)) = Inl Overlapping_Copy"
proof -
  let ?s = "sc_start env (sc_new sock)"
  have start: "sc_receiving_header ?s" "sc_header_buffer ?s = []" "ts_open (sc_socket ?s)" "sc_received_body_size ?s = 0"
    using assms(8) by (simp_all add: sc_start_def sc_new_def us_new_def us_reset_def sc_receive_def sc_socket_def
        ts_receive_def ts_do_receive_def ts_set_listener_def)
  have r: "request_ok r" "se_router env (rq_arrived r)" "b \<noteq> []" "rq_content_length r = int (length b)" "length b < 2 ^ 31"
      "length (rq_print r) \<le> so_max_header_size (se_options env)"
    using assms(2) by (simp_all add: message_ok_def)
  have p: "length p < length (rq_print r)" using arg_cong[OF assms(9), of length] assms(11) by (cases q) simp_all
  let ?t = "sc_receive env (?s\<lparr>sc_header_buffer := p\<rparr>)"
  have "find_header_end p = None" using printed_request_prefix[OF r(1) _ p, of q "[]"] assms(9) by simp
  then have 1: "sc_on_receive env p ?s = Inr ?t"
    using start p r(6) by (simp add: sc_on_receive_def handle_header_data.simps parse_header_data.simps overlaps_def)
  let ?u = "took env r (?t\<lparr>sc_header_buffer := p @ q @ b @ h\<rparr>)"
  have all: "p @ q @ b @ h = rq_print r @ b @ h" using assms(9) by (metis append_assoc)
  have "sc_on_receive env (q @ b @ h) ?t = parse_header_data env (Some 0) (p @ q @ b @ h) (?t\<lparr>sc_header_buffer := p @ q @ b @ h\<rparr>)"
    using start assms(10) by (simp add: sc_on_receive_def handle_header_data.simps)
  also have "\<dots> = handle_body_data env (Some (length (rq_print r))) (b @ h) ?u"
    using parse_printed[OF assms(1) r(1,2) all, of "Some 0"] r(3,4) by (simp add: took_eq[OF r(2)] behind_def)
  also have "\<dots> = Inl Overlapping_Copy"
  proof -
    have u: "sc_content_length ?u = int (length b)" "sc_received_body_size ?u = 0" "sc_current_request ?u \<noteq> None" "sc_handler ?u \<noteq> None"
      using start r(4) by (simp_all add: took_eq[OF r(2)] sc_receive_def)
    have "h \<noteq> []" using assms(4) by auto
    then have "find_header_end h = None" using printed_request_prefix[OF assms(3), of h h' "[]"] assms(5,6)
      by (metis append_Nil2 length_append length_greater_0_conv less_add_same_cancel1)
    then have "parse_header_data env (Some (length (rq_print r) + length b)) h v = Inl Overlapping_Copy" if "sc_header_buffer v = []" for v
      using assms(4,7) that by (simp add: parse_header_data.simps overlaps_def)
    moreover have "c_int (int (length b)) = int (length b)" "h \<noteq> []" using r(5) assms(4) by (auto simp: c_int_nat)
    ultimately show ?thesis using u r(3)
      by (subst handle_body_data.simps) (simp add: Let_def behind_def handle_header_data.simps)
  qed
  finally show ?thesis using 1 by simp
qed

text \<open>A request as browsers send it, with no content length.\<close>

definition sample_get :: http_request where
  "sample_get = rq_set_header ''Host'' ''h'' (rq_set_url (Some ''/a/b'') (rq_set_method ''GET'' rq_new))"

theorem server_bodiless_requests_witness:
  "sc_receive_all sample_env [rq_print sample_get @ rq_print sample_get] (sc_start sample_env (sc_new ts_accepted)) = Inl Assertion_Failed"
proof -
  have "rq_message sample_get = \<lparr>hm_headers = [(''Host'', ''h'')], hm_protocol_name = ''HTTP'', hm_protocol_version = ''1.0''\<rparr>"
    "rq_method sample_get = ''GET''" "uri_original_string (rq_encoded_uri sample_get) = ''/a/b''"
    by code_simp+
  then have "request_ok sample_get"
    by (simp add: request_ok_def token_def plain_text_def header_ok_def padded_def is_space_def code_of_def)
  moreover have "rq_content_length sample_get = - 1" "length (rq_print sample_get) = 30" "ts_open ts_accepted"
    "take 2 (uri_path (rq_uri (rq_arrived sample_get))) = ''/a''"
    by code_simp+
  moreover from this have "rq_print sample_get \<noteq> []" by auto
  ultimately show ?thesis
    using server_bodiless_requests[OF sample_env_ok, of sample_get ts_accepted "rq_print sample_get"]
    by (simp add: sample_env_def server_options_def sr_create_url_handler_def sr_add_def sr_new_def flip: numeral_2_eq_2)
qed

end
