(* ===== verification/Http_Clients.thy ===== *)
theory Http_Clients
  imports Http_Server "HOL-Library.AList"
begin

text \<open>
  The client connections the server of \<^verbatim>\<open>http_server_impl.hpp\<close> holds, the events that reach them, and
  what bounds the data a client makes the server keep.
\<close>

subsection \<open>The clients of the server\<close>

datatype client_event = Client_Receive string | Client_Sent nat | Client_Failed int

fun sc_event :: "server_env \<Rightarrow> client_event \<Rightarrow> server_client \<Rightarrow> fault + server_client" where
  "sc_event env (Client_Receive data) s = sc_on_receive env data s"
| "sc_event env (Client_Sent n) s = Inr (sc_on_send env n s)"
| "sc_event env (Client_Failed code) s = Inr (sc_on_failed env code s)"

text \<open>The collection is keyed by the client's address, a number here.\<close>

type_synonym http_server = "(nat \<times> server_client) list"

definition hs_on_acceptor_client :: "server_env \<Rightarrow> nat \<Rightarrow> tcp_socket \<Rightarrow> http_server \<Rightarrow> http_server" where
  "hs_on_acceptor_client env k sock srv = AList.update k (sc_start env (sc_new sock)) srv"

definition hs_on_client_event :: "server_env \<Rightarrow> nat \<Rightarrow> client_event \<Rightarrow> http_server \<Rightarrow> fault + http_server" where
  "hs_on_client_event env k ev srv =
     (case map_of srv k of
        None \<Rightarrow> Inr srv
      | Some c \<Rightarrow> sbind (sc_event env ev c) (\<lambda>c'. Inr (if sc_alive c' then AList.update k c' srv else AList.delete k srv)))"

text \<open>\<open>stop\<close> closes every client and lets go of it: the clients it closed, and the empty server.\<close>

definition hs_stop :: "http_server \<Rightarrow> server_client list \<times> http_server" where
  "hs_stop srv = (map (sc_close \<circ> snd) srv, [])"

definition hs_get_session_count :: "http_server \<Rightarrow> nat" where
  "hs_get_session_count srv = length srv"

text \<open>What a client holds of the data it was sent.\<close>

definition holds :: "nat \<Rightarrow> nat \<Rightarrow> server_client \<Rightarrow> bool" where
  "holds m n s \<longleftrightarrow> (sc_alive s \<or> \<not> ts_open (sc_socket s)) \<and> length (sc_header_buffer s) \<le> m + n \<and>
     (sc_receiving_header s \<longrightarrow> length (sc_header_buffer s) \<le> m)"

lemma call_frame [simp]:
  "sc_header_buffer (sc_call env c s) = sc_header_buffer s" "sc_receiving_header (sc_call env c s) = sc_receiving_header s"
  "sc_alive (sc_call env c s) = sc_alive s"
  by (simp_all add: sc_call_def Let_def split: option.split server_handler.split handler_call.split sum.split)

lemma handle_request_frame [simp]:
  "sc_header_buffer (sc_handle_request env r s) = sc_header_buffer s"
  "sc_receiving_header (sc_handle_request env r s) = sc_receiving_header s" "sc_alive (sc_handle_request env r s) = sc_alive s"
  by (simp_all add: sc_handle_request_def Let_def)

lemma close_frame [simp]:
  "sc_header_buffer (sc_close s) = sc_header_buffer s" "sc_receiving_header (sc_close s) = sc_receiving_header s"
  "sc_alive (sc_close s) = sc_alive s" "\<not> ts_open (sc_socket (sc_close s))"
  by (simp_all add: sc_close_def us_close_def sc_socket_def ts_close_def)

lemma client_error_frame [simp]:
  "sc_header_buffer (sc_client_error s) = sc_header_buffer s" "\<not> ts_open (sc_socket (sc_client_error s))"
  "sc_receiving_header (sc_client_error s) = sc_receiving_header s"
  by (simp_all add: sc_client_error_def sc_close_def us_close_def sc_socket_def ts_close_def)

lemma error_holds: "holds m n (sc_handle_error s)"
  by (simp add: holds_def sc_handle_error_def)

definition keeps :: "nat \<Rightarrow> nat \<Rightarrow> fault + server_client \<Rightarrow> bool" where
  "keeps m n res \<longleftrightarrow> (\<forall>s. res = Inr s \<longrightarrow> holds m n s)"

lemma keeps_simps [simp]: "keeps m n (Inl e)" "keeps m n (Inr s) \<longleftrightarrow> holds m n s"
  by (simp_all add: keeps_def)

lemma receive_holds: "holds m n (sc_receive env s) \<longleftrightarrow> holds m n s"
  by (simp add: holds_def)

lemma data_holds:
  defines "m \<equiv> \<lambda>env :: server_env. so_max_header_size (se_options env)"
  shows "sc_alive s \<Longrightarrow> length (sc_header_buffer s) + length data \<le> m env + n \<Longrightarrow> keeps (m env) n (handle_header_data env place data s)"
    and "sc_alive s \<Longrightarrow> length data \<le> m env + n \<Longrightarrow> sc_header_buffer s = [] \<or> sc_header_buffer s = data
      \<Longrightarrow> keeps (m env) n (parse_header_data env place data s)"
    and "sc_alive s \<Longrightarrow> \<not> sc_receiving_header s \<Longrightarrow> length data \<le> m env + n \<Longrightarrow> length (sc_header_buffer s) \<le> m env + n
      \<Longrightarrow> keeps (m env) n (handle_body_data env place data s)"
proof (induction env place data s and env place data s and env place data s
    rule: handle_header_data_parse_header_data_handle_body_data.induct)
  case (1 env place data s)
  then show ?case by (subst handle_header_data.simps) (auto simp: Let_def)
next
  case (2 env place data s)
  show ?case
  proof (cases "find_header_end data")
    case None
    then show ?thesis using 2(3-5) unfolding m_def
      by (subst parse_header_data.simps, simp add: receive_holds error_holds) (auto simp: holds_def)
  next
    case (Some pos)
    show ?thesis
    proof (cases "request_parse (se_trim env) (se_split env) data (pos + 4) rq_new")
      case (Inr res)
      obtain ok request where res: "res = (ok, request)" by (cases res)
      let ?s1 = "sc_handle_request env request (s\<lparr>sc_receiving_header := False,
        sc_content_length := rq_content_length request, sc_current_request := Some request\<rparr>)"
      have s1: "sc_alive ?s1" "\<not> sc_receiving_header ?s1" "length (sc_header_buffer ?s1) \<le> m env + n"
        using 2(3-5) by auto
      then have "holds (m env) n ?s1" by (simp add: holds_def)
      moreover have "keeps (m env) n (handle_header_data env (behind place (pos + 4)) (drop (pos + 4) data) (sc_reset_state ?s1))"
        if ok "pos + 4 < length data" "sc_content_length ?s1 = 0"
        using 2(1)[OF Some refl Inr res[symmetric] _ refl] that s1 2(4) by simp
      moreover have "keeps (m env) n (handle_body_data env (behind place (pos + 4)) (drop (pos + 4) data) ?s1)"
        if ok "pos + 4 < length data" "sc_content_length ?s1 \<noteq> 0"
        using 2(2)[OF Some refl Inr res[symmetric] _ refl] that s1 2(4) by simp
      ultimately show ?thesis using Some Inr res
        by (subst parse_header_data.simps) (simp add: Let_def receive_holds error_holds)
    qed (use Some in \<open>subst parse_header_data.simps, simp\<close>)
  qed
next
  case (3 env place data s)
  show ?case
  proof (cases "data = [] \<or> sc_current_request s = None \<or> sc_handler s = None")
    case True
    then show ?thesis by (subst handle_body_data.simps) (auto simp: error_holds)
  next
    case False
    let ?rest = "sc_content_length s - sc_received_body_size s"
    let ?n = "c_int (min ?rest (int (length data)))"
    let ?s1 = "sc_call env (Handle_Body (take (nat ?n) data)) (s\<lparr>sc_received_body_size := sc_received_body_size s + ?n\<rparr>)"
    have s1: "sc_alive ?s1" "length (sc_header_buffer ?s1) \<le> m env + n" "\<not> sc_receiving_header ?s1" using 3(2-5) by simp_all
    then have "holds (m env) n ?s1" "holds (m env) n (sc_reset_state ?s1)" by (simp_all add: holds_def)
    moreover have "keeps (m env) n (handle_header_data env (behind place (nat ?n)) (drop (nat ?n) data) (sc_reset_state ?s1))"
      if "\<not> ?n \<le> 0" "?n < int (length data)"
      using 3(1)[OF _ _ refl refl that(1) refl that(2)] False s1 3(4) by auto
    ultimately show ?thesis using False
      by (subst handle_body_data.simps) (auto simp: Let_def receive_holds)
  qed
qed

definition held :: "server_env \<Rightarrow> nat \<Rightarrow> http_server \<Rightarrow> bool" where
  "held env n srv \<longleftrightarrow> distinct (map fst srv) \<and>
     (\<forall>k c. map_of srv k = Some c \<longrightarrow> sc_alive c \<and> holds (so_max_header_size (se_options env)) n c)"

text \<open>
  The states of the process: running with the clients it holds, or ended by a fault of one client, which ends it
  with all the others. Pieces of data have at most \<open>n\<close> bytes.
\<close>

inductive server_reachable :: "server_env \<Rightarrow> nat \<Rightarrow> fault + http_server \<Rightarrow> bool" for env :: server_env and n :: nat where
  Server_Empty: "server_reachable env n (Inr [])"
| Server_Accept: "server_reachable env n (Inr srv) \<Longrightarrow> map_of srv k = None \<Longrightarrow>
    server_reachable env n (Inr (hs_on_acceptor_client env k sock srv))"
| Server_Event: "server_reachable env n (Inr srv) \<Longrightarrow> (\<And>data. ev = Client_Receive data \<Longrightarrow> length data \<le> n) \<Longrightarrow>
    server_reachable env n (hs_on_client_event env k ev srv)"
| Server_Stop: "server_reachable env n (Inr srv) \<Longrightarrow> server_reachable env n (Inr (snd (hs_stop srv)))"

lemma send_frame:
  "sc_alive (sc_on_send env k c) = sc_alive c \<and> (sc_header_buffer (sc_on_send env k c) = [] \<or>
     sc_header_buffer (sc_on_send env k c) = sc_header_buffer c \<and> sc_receiving_header (sc_on_send env k c) = sc_receiving_header c)"
  by (simp add: sc_on_send_def Let_def)

lemma event_holds:
  assumes "holds m n c" "sc_alive c" "sc_event env ev c = Inr c'" "\<And>data. ev = Client_Receive data \<Longrightarrow> length data \<le> n"
    and m: "m = so_max_header_size (se_options env)"
  shows "holds m n c'"
proof (cases ev)
  case (Client_Receive data)
  then have "length data \<le> n" using assms(4) by simp
  then have "keeps m n (sc_on_receive env data c)"
    using assms(1,2) data_holds(1)[of c data env n None] data_holds(3)[of c data env n None] unfolding m
    by (auto simp: sc_on_receive_def holds_def)
  then show ?thesis using assms(3) Client_Receive by simp
next
  case (Client_Sent k)
  then show ?thesis using assms(1-3) send_frame[of env k c] by (auto simp: holds_def)
next
  case (Client_Failed code)
  then show ?thesis using assms(3)
    by (auto simp: sc_on_failed_def Let_def holds_def)
qed

lemma held_update: "held env n srv \<Longrightarrow> sc_alive c \<Longrightarrow> holds (so_max_header_size (se_options env)) n c \<Longrightarrow> held env n (AList.update k c srv)"
  by (simp add: held_def distinct_update update_conv')

lemma held_delete: "held env n srv \<Longrightarrow> held env n (AList.delete k srv)"
  by (simp add: held_def delete_conv' delete_keys distinct_removeAll)

lemma reachable_held: "server_reachable env n st \<Longrightarrow> st = Inr srv \<Longrightarrow> held env n srv"
proof (induction arbitrary: srv rule: server_reachable.induct)
  case Server_Empty
  then show ?case by (simp add: held_def)
next
  case (Server_Accept srv0 k sock)
  have "sc_alive (sc_start env (sc_new sock))" "sc_header_buffer (sc_start env (sc_new sock)) = []"
    by (simp_all add: sc_start_def sc_new_def)
  then show ?case using Server_Accept by (auto simp: hs_on_acceptor_client_def held_update holds_def)
next
  case (Server_Event srv0 ev k)
  have ih: "held env n srv0" using Server_Event.IH by simp
  show ?case
  proof (cases "map_of srv0 k")
    case None
    then show ?thesis using Server_Event.prems ih by (simp add: hs_on_client_event_def)
  next
    case (Some c)
    then obtain c' where c': "sc_event env ev c = Inr c'" "srv = (if sc_alive c' then AList.update k c' srv0 else AList.delete k srv0)"
      using Server_Event.prems by (cases "sc_event env ev c") (auto simp: hs_on_client_event_def)
    have "holds (so_max_header_size (se_options env)) n c'"
      using event_holds[OF _ _ c'(1) Server_Event.hyps(2) refl] ih Some by (simp add: held_def)
    then show ?thesis using c'(2) ih by (simp add: held_update held_delete)
  qed
next
  case (Server_Stop srv)
  then show ?case by (simp add: hs_stop_def held_def)
qed

text \<open>
  Bounded memory: as long as no client has ended the process with a fault, and whatever pieces of at most \<open>n\<close> bytes the peers
  send, every client the server holds keeps at most the maximal header and one piece, and while it waits for a header
  no more than the maximal header.
\<close>

theorem server_clients_bounded:
  assumes "server_reachable env n (Inr srv)" and "map_of srv k = Some c"
  shows "length (sc_header_buffer c) \<le> so_max_header_size (se_options env) + n \<and>
    (sc_receiving_header c \<longrightarrow> length (sc_header_buffer c) \<le> so_max_header_size (se_options env))"
  using reachable_held[OF assms(1) refl] assms(2) by (auto simp: held_def holds_def)

theorem server_clients_bounded_witness:
  "\<exists>srv c. hs_on_client_event sample_env 1 (Client_Receive ''GET '') (hs_on_acceptor_client sample_env 1 ts_accepted []) = Inr srv
     \<and> map_of srv 1 = Some c \<and> length (sc_header_buffer c) \<le> 16384 + 4"
proof -
  let ?srv = "hs_on_acceptor_client sample_env 1 ts_accepted []" and ?c = "sc_start sample_env (sc_new ts_accepted)"
  have 0: "server_reachable sample_env 4 (Inr ?srv)" by (intro Server_Accept Server_Empty) simp
  have "find_header_end ''GET '' = None" by code_simp
  then obtain c where c: "sc_event sample_env (Client_Receive ''GET '') ?c = Inr c" "sc_alive c"
    by (simp add: sc_on_receive_def sc_start_def sc_new_def handle_header_data.simps parse_header_data.simps overlaps_def
      sample_env_def server_options_def)
  then have 1: "hs_on_client_event sample_env 1 (Client_Receive ''GET '') ?srv = Inr (AList.update 1 c ?srv)"
    by (simp add: hs_on_client_event_def hs_on_acceptor_client_def)
  have "server_reachable sample_env 4 (Inr (AList.update 1 c ?srv))"
    unfolding 1[symmetric] by (rule Server_Event[OF 0]) simp
  moreover have "map_of (AList.update 1 c ?srv) 1 = Some c" by (simp add: update_conv')
  ultimately show ?thesis using server_clients_bounded[of sample_env 4 _ 1 c] 1 by (fastforce simp: sample_env_def server_options_def)
qed

end
