(* ===== verification/Http_Connection.thy ===== *)
theory Http_Connection
  imports Http_Request Url_Session
begin

text \<open>
  The HTTP client: \<^verbatim>\<open>include/xul/net/http/detail/http_connection_impl.hpp\<close>, the request in progress of
  \<^verbatim>\<open>http_connection_request_info.hpp\<close> with its chain of filters, \<^verbatim>\<open>gzip_http_filter.hpp\<close> and
  \<^verbatim>\<open>http_connection_options_impl.hpp\<close>. What is not part of the sources is a parameter: the answers of the
  listener, which does not call the connection back, whether a host name is an address, the value
  of the end of file error, and zlib's inflation, which gives for the inputs so far the pieces of
  output of the last of them and an error. Assertions are read as in a release build, as in
  Tcp_Socket.
\<close>

record http_connection_options =
  ho_keep_alive :: bool
  ho_protocol_name :: string
  ho_protocol_version :: string
  ho_max_redirects :: int
  ho_gzip :: bool
  ho_receive_buffer_size :: nat

definition ho_new :: http_connection_options where
  "ho_new = \<lparr>ho_keep_alive = True, ho_protocol_name = ''HTTP'', ho_protocol_version = ''1.0'', ho_max_redirects = 10,
     ho_gzip = False, ho_receive_buffer_size = 60 * 1024\<rparr>"

definition ho_set_protocol_name :: "string option \<Rightarrow> http_connection_options \<Rightarrow> http_connection_options" where
  "ho_set_protocol_name name o' =
     (let n = (case name of None \<Rightarrow> [] | Some s \<Rightarrow> s) in o'\<lparr>ho_protocol_name := if n = [] then ''HTTP'' else n\<rparr>)"

definition ho_set_protocol_version :: "string option \<Rightarrow> http_connection_options \<Rightarrow> http_connection_options" where
  "ho_set_protocol_version ver o' =
     (let v = (case ver of None \<Rightarrow> ''1.0'' | Some s \<Rightarrow> s) in o'\<lparr>ho_protocol_version := if v = [] then ''1.0'' else v\<rparr>)"

definition ho_set_receive_buffer_size :: "int \<Rightarrow> http_connection_options \<Rightarrow> http_connection_options" where
  "ho_set_receive_buffer_size n o' =
     (if n < 1024 \<or> n > 2 * 1024 * 1024 then o' else o'\<lparr>ho_receive_buffer_size := nat n\<rparr>)"

datatype http_event =
  Http_Response http_response string | Http_Data string | Http_Put_Content | Http_Complete int | Http_Error int

record http_env =
  he_trim :: "string \<Rightarrow> string"
  he_split :: "string \<Rightarrow> string list"
  he_accept :: "http_event list \<Rightarrow> bool"
  he_is_address :: "string \<Rightarrow> bool"
  he_eof :: int
  he_inflate :: "(bool \<times> string) list \<Rightarrow> string list \<times> int option"

record end_filter =
  ef_content_length :: int
  ef_received_size :: int
  ef_finished :: bool

record gzip_filter =
  gz_content_length :: int
  gz_received_size :: int
  gz_inputs :: "(bool \<times> string) list"

text \<open>The chain: chunked data first, then gzip, then the end.\<close>

record filter_chain =
  fc_chunked :: "chunked_filter option"
  fc_gzip :: "gzip_filter option"
  fc_end :: end_filter

record request_info =
  ri_url :: simple_uri
  ri_request :: http_request
  ri_extractor :: response_extractor
  ri_filters :: filter_chain
  ri_response_header_received :: bool
  ri_header_send :: bool
  ri_redirect_times :: int

record http_connection =
  hc_options :: http_connection_options
  hc_socket :: tcp_socket
  hc_name_resolver :: "string option"
  hc_host :: string
  hc_port :: int
  hc_pause_receive :: bool
  hc_request :: "request_info option"
  hc_posted :: "int list"
  hc_events :: "http_event list"

subsection \<open>Closing and the listener\<close>

definition hc_init_client :: "http_connection \<Rightarrow> http_connection" where
  "hc_init_client c = c\<lparr>hc_host := [], hc_port := 0, hc_pause_receive := False, hc_socket := ts_set_listener True ts_new\<rparr>"

definition hc_new :: http_connection where
  "hc_new = hc_init_client \<lparr>hc_options = ho_new, hc_socket = ts_new, hc_name_resolver = None, hc_host = [], hc_port = 0,
     hc_pause_receive = False, hc_request = None, hc_posted = [], hc_events = []\<rparr>"

definition hc_close :: "http_connection \<Rightarrow> http_connection" where
  "hc_close c = hc_init_client (c\<lparr>hc_request := None, hc_pause_receive := False, hc_name_resolver := None\<rparr>)"

definition hc_notify :: "http_event \<Rightarrow> http_connection \<Rightarrow> http_connection" where
  "hc_notify e c = c\<lparr>hc_events := hc_events c @ [e]\<rparr>"

definition hc_is_started :: "http_connection \<Rightarrow> bool" where
  "hc_is_started c = (hc_request c \<noteq> None)"

definition hc_is_connected :: "http_connection \<Rightarrow> bool" where
  "hc_is_connected c = ts_connected (hc_socket c)"

definition hc_abort_handling :: "http_connection \<Rightarrow> http_connection" where
  "hc_abort_handling c = hc_close c"

definition hc_on_error :: "int \<Rightarrow> http_connection \<Rightarrow> http_connection" where
  "hc_on_error errcode c = hc_notify (Http_Error errcode) (hc_abort_handling c)"

definition hc_on_complete :: "int \<Rightarrow> http_connection \<Rightarrow> bool \<times> http_connection" where
  "hc_on_complete total_size c =
     (if hc_request c = None then (False, hc_abort_handling c)
      else (True, hc_notify (Http_Complete total_size) (c\<lparr>hc_request := None\<rparr>)))"

definition hc_on_header :: "http_env \<Rightarrow> http_response \<Rightarrow> http_connection \<Rightarrow> bool \<times> http_connection" where
  "hc_on_header env resp c =
     (case hc_request c of
        None \<Rightarrow> (False, hc_abort_handling c)
      | Some ri \<Rightarrow> let c = hc_notify (Http_Response resp (uri_original_string (ri_url ri))) c in (he_accept env (hc_events c), c))"

definition hc_on_content :: "http_env \<Rightarrow> string \<Rightarrow> http_connection \<Rightarrow> bool \<times> http_connection" where
  "hc_on_content env data c =
     (if hc_request c = None then (False, hc_abort_handling c)
      else let c = hc_notify (Http_Data data) c in (he_accept env (hc_events c), c))"

subsection \<open>end_filter\<close>

definition ef_new :: end_filter where
  "ef_new = \<lparr>ef_content_length = - 1, ef_received_size = 0, ef_finished = False\<rparr>"

definition ef_finish :: "end_filter \<Rightarrow> http_connection \<Rightarrow> bool \<times> end_filter \<times> http_connection" where
  "ef_finish f c =
     (if ef_finished f then (False, f, hc_abort_handling c)
      else let (ok, c) = hc_on_complete (ef_received_size f) c in (ok, f\<lparr>ef_finished := True\<rparr>, c))"

definition ef_check_finish :: "end_filter \<Rightarrow> http_connection \<Rightarrow> bool \<times> end_filter \<times> http_connection" where
  "ef_check_finish f c =
     (if ef_content_length f \<ge> 0 \<and> ef_received_size f \<ge> ef_content_length f then ef_finish f c else (True, f, c))"

definition ef_init :: "http_env \<Rightarrow> http_response \<Rightarrow> end_filter \<Rightarrow> http_connection \<Rightarrow> bool \<times> end_filter \<times> http_connection" where
  "ef_init env resp f c =
     (let f = \<lparr>ef_content_length = get_content_length resp, ef_received_size = 0, ef_finished = False\<rparr>;
          (ok, c) = hc_on_header env resp c
      in if \<not> ok then (False, f, c) else ef_check_finish f c)"

definition ef_process :: "http_env \<Rightarrow> string \<Rightarrow> end_filter \<Rightarrow> http_connection \<Rightarrow> bool \<times> end_filter \<times> http_connection" where
  "ef_process env data f c =
     (let size = int (length data);
          realsize = (if ef_content_length f \<ge> 0 \<and> ef_received_size f + size > ef_content_length f
                      then ef_content_length f - ef_received_size f else size);
          f = f\<lparr>ef_received_size := ef_received_size f + realsize\<rparr>;
          (ok, c) = (if realsize > 0 then hc_on_content env (take (nat realsize) data) c else (True, c))
      in if \<not> ok then (False, f, c)
         else let (_, f, c) = ef_check_finish f c in (True, f, c))"

subsection \<open>gzip_http_filter\<close>

definition gz_new :: gzip_filter where
  "gz_new = \<lparr>gz_content_length = - 1, gz_received_size = 0, gz_inputs = []\<rparr>"

fun ef_process_all :: "http_env \<Rightarrow> string list \<Rightarrow> end_filter \<Rightarrow> http_connection \<Rightarrow> bool \<times> end_filter \<times> http_connection" where
  "ef_process_all env [] f c = (True, f, c)"
| "ef_process_all env (d # ds) f c =
     (let (ok, f, c) = ef_process env d f c in if \<not> ok then (False, f, c) else ef_process_all env ds f c)"

definition gz_ungzip ::
    "http_env \<Rightarrow> bool \<Rightarrow> string \<Rightarrow> gzip_filter \<Rightarrow> end_filter \<Rightarrow> http_connection \<Rightarrow> bool \<times> gzip_filter \<times> end_filter \<times> http_connection" where
  "gz_ungzip env eof source g f c =
     (let g = g\<lparr>gz_inputs := gz_inputs g @ [(eof, source)]\<rparr>;
          (pieces, err) = he_inflate env (gz_inputs g);
          (ok, f, c) = ef_process_all env pieces f c
      in if \<not> ok then (False, g, f, c)
         else case err of Some code \<Rightarrow> (False, g, f, hc_on_error code c) | None \<Rightarrow> (True, g, f, c))"

definition gz_finish :: "http_env \<Rightarrow> gzip_filter \<Rightarrow> end_filter \<Rightarrow> http_connection \<Rightarrow> bool \<times> gzip_filter \<times> end_filter \<times> http_connection" where
  "gz_finish env g f c =
     (let (ok, g, f, c) = gz_ungzip env True [] g f c
      in if \<not> ok then (False, g, f, c) else let (ok, f, c) = ef_finish f c in (ok, g, f, c))"

definition gz_check_finish :: "http_env \<Rightarrow> gzip_filter \<Rightarrow> end_filter \<Rightarrow> http_connection \<Rightarrow> bool \<times> gzip_filter \<times> end_filter \<times> http_connection" where
  "gz_check_finish env g f c =
     (if gz_content_length g \<ge> 0 \<and> gz_received_size g \<ge> gz_content_length g then gz_finish env g f c else (True, g, f, c))"

definition gz_process ::
    "http_env \<Rightarrow> string \<Rightarrow> gzip_filter \<Rightarrow> end_filter \<Rightarrow> http_connection \<Rightarrow> bool \<times> gzip_filter \<times> end_filter \<times> http_connection" where
  "gz_process env data g f c =
     (let size = int (length data);
          realsize = (if gz_content_length g \<ge> 0 \<and> gz_received_size g + size > gz_content_length g
                      then gz_content_length g - gz_received_size g else size);
          g = g\<lparr>gz_received_size := gz_received_size g + realsize\<rparr>;
          (ok, g, f, c) = gz_ungzip env False (take (nat realsize) data) g f c
      in if \<not> ok then (False, g, f, c) else gz_check_finish env g f c)"

definition rs_remove_header :: "string \<Rightarrow> http_response \<Rightarrow> http_response" where
  "rs_remove_header name r =
     r\<lparr>rs_message := (rs_message r)\<lparr>hm_headers := snd (sa_remove string_iequal_to (Some name) (hm_headers (rs_message r)))\<rparr>\<rparr>"

text \<open>The response without the headers a filter removes when it is initialised.\<close>

definition rs_decoded :: "http_response \<Rightarrow> http_response" where
  "rs_decoded r = rs_remove_header ''Content-Encoding'' (rs_remove_header ''Content-Length'' r)"

subsection \<open>The chain of filters\<close>

text \<open>The filter behind the chunked one: gzip when it is there, else the end.\<close>

definition next_process :: "http_env \<Rightarrow> string \<Rightarrow> filter_chain \<Rightarrow> http_connection \<Rightarrow> bool \<times> filter_chain \<times> http_connection" where
  "next_process env data fc c =
     (case fc_gzip fc of
        Some g \<Rightarrow> let (ok, g, f, c) = gz_process env data g (fc_end fc) c in (ok, fc\<lparr>fc_gzip := Some g, fc_end := f\<rparr>, c)
      | None \<Rightarrow> let (ok, f, c) = ef_process env data (fc_end fc) c in (ok, fc\<lparr>fc_end := f\<rparr>, c))"

definition next_finish :: "http_env \<Rightarrow> filter_chain \<Rightarrow> http_connection \<Rightarrow> bool \<times> filter_chain \<times> http_connection" where
  "next_finish env fc c =
     (case fc_gzip fc of
        Some g \<Rightarrow> let (ok, g, f, c) = gz_finish env g (fc_end fc) c in (ok, fc\<lparr>fc_gzip := Some g, fc_end := f\<rparr>, c)
      | None \<Rightarrow> let (ok, f, c) = ef_finish (fc_end fc) c in (ok, fc\<lparr>fc_end := f\<rparr>, c))"

definition next_init ::
    "http_env \<Rightarrow> http_response \<Rightarrow> filter_chain \<Rightarrow> http_connection \<Rightarrow> bool \<times> http_response \<times> filter_chain \<times> http_connection" where
  "next_init env resp fc c =
     (case fc_gzip fc of
        Some g \<Rightarrow>
          let g = g\<lparr>gz_content_length := get_content_length resp, gz_received_size := 0\<rparr>;
              resp = rs_decoded resp;
              (ok, f, c) = ef_init env resp (fc_end fc) c
          in if \<not> ok then (False, resp, fc\<lparr>fc_gzip := Some g, fc_end := f\<rparr>, c)
             else let (ok, g, f, c) = gz_check_finish env g f c in (ok, resp, fc\<lparr>fc_gzip := Some g, fc_end := f\<rparr>, c)
      | None \<Rightarrow> let (ok, f, c) = ef_init env resp (fc_end fc) c in (ok, resp, fc\<lparr>fc_end := f\<rparr>, c))"

text \<open>What the chunked filter hands on; it does not look at the answers.\<close>

fun apply_events :: "http_env \<Rightarrow> filter_event list \<Rightarrow> filter_chain \<Rightarrow> http_connection \<Rightarrow> filter_chain \<times> http_connection" where
  "apply_events env [] fc c = (fc, c)"
| "apply_events env (Filter_Process d # es) fc c = (let (_, fc, c) = next_process env d fc c in apply_events env es fc c)"
| "apply_events env (Filter_Finish d # es) fc c = (let (_, fc, c) = next_finish env fc c in apply_events env es fc c)"

definition filters_process :: "http_env \<Rightarrow> string \<Rightarrow> filter_chain \<Rightarrow> http_connection \<Rightarrow> fault + bool \<times> filter_chain \<times> http_connection" where
  "filters_process env data fc c =
     (case fc_chunked fc of
        Some cf \<Rightarrow> sbind (cf_process data cf) (\<lambda>(es, cf).
          let (fc, c) = apply_events env es (fc\<lparr>fc_chunked := Some cf\<rparr>) c in Inr (True, fc, c))
      | None \<Rightarrow> Inr (next_process env data fc c))"

definition filters_finish :: "http_env \<Rightarrow> filter_chain \<Rightarrow> http_connection \<Rightarrow> bool \<times> filter_chain \<times> http_connection" where
  "filters_finish env fc c = next_finish env fc c"

definition filters_init ::
    "http_env \<Rightarrow> http_response \<Rightarrow> filter_chain \<Rightarrow> http_connection \<Rightarrow> bool \<times> http_response \<times> filter_chain \<times> http_connection" where
  "filters_init env resp fc c =
     (case fc_chunked fc of
        Some cf \<Rightarrow> next_init env (rs_decoded resp) (fc\<lparr>fc_chunked := Some cf_reset_state\<rparr>) c
      | None \<Rightarrow> next_init env resp fc c)"

definition init_filters :: "http_response \<Rightarrow> filter_chain" where
  "init_filters resp =
     \<lparr>fc_chunked = (if trim_spaces (rs_get_header ''Transfer-Encoding'' resp) = ''chunked'' then Some cf_reset_state else None),
      fc_gzip = (if trim_spaces (rs_get_header ''Content-Encoding'' resp) = ''gzip'' then Some gz_new else None),
      fc_end = ef_new\<rparr>"

subsection \<open>http_connection_request_info\<close>

definition ri_new :: "simple_uri \<Rightarrow> request_info" where
  "ri_new u = \<lparr>ri_url = u, ri_request = rq_new, ri_extractor = re_new (64 * 1024),
     ri_filters = \<lparr>fc_chunked = None, fc_gzip = None, fc_end = ef_new\<rparr>, ri_response_header_received = False,
     ri_header_send = False, ri_redirect_times = 0\<rparr>"

definition ri_set_header :: "string \<Rightarrow> string \<Rightarrow> request_info \<Rightarrow> request_info" where
  "ri_set_header name val ri = ri\<lparr>ri_request := rq_set_header name val (ri_request ri)\<rparr>"

definition ri_has_header :: "string \<Rightarrow> request_info \<Rightarrow> bool" where
  "ri_has_header name ri = sa_contains string_iequal_to (Some name) (hm_headers (rq_message (ri_request ri)))"

definition init_request_host :: "request_info \<Rightarrow> request_info" where
  "init_request_host ri =
     (let host = uri_host (ri_url ri);
          host = (if uri_port (ri_url ri) \<noteq> 80 \<and> uri_port (ri_url ri) \<noteq> 0
                  then host @ '':'' @ numerics_format (uri_port (ri_url ri)) else host)
      in ri_set_header ''Host'' host ri)"

definition ri_prepare_request :: "http_connection_options \<Rightarrow> string_items option \<Rightarrow> request_info \<Rightarrow> request_info" where
  "ri_prepare_request opts headers ri =
     (let ri = ri\<lparr>ri_request := rq_set_protocol (ho_protocol_name opts) (ho_protocol_version opts) (ri_request ri)\<rparr>;
          ri = (case headers of None \<Rightarrow> ri | Some hs \<Rightarrow> foldl (\<lambda>ri h. ri_set_header (fst h) (snd h) ri) ri hs);
          ri = (if \<not> ri_has_header ''Host'' ri then init_request_host ri else ri);
          ri = (if \<not> ri_has_header ''User-Agent'' ri then ri_set_header ''User-Agent'' ''Mozilla/5.0'' ri else ri);
          ri = ri_set_header ''Connection'' (if ho_keep_alive opts then ''keep-alive'' else ''close'') ri;
          ri = ri\<lparr>ri_request := rq_set_url (Some (uri_full_path (ri_url ri))) (ri_request ri)\<rparr>
      in if ho_gzip opts then ri_set_header ''Accept-Encoding'' ''gzip'' ri else ri)"

definition reset_handling_state :: "request_info \<Rightarrow> request_info" where
  "reset_handling_state ri =
     ri\<lparr>ri_response_header_received := False, ri_extractor := re_reset (ri_extractor ri),
        ri_filters := (ri_filters ri)\<lparr>fc_chunked := None, fc_gzip := None\<rparr>, ri_header_send := False\<rparr>"

subsection \<open>Requests on the connection\<close>

definition check_receive :: "http_connection \<Rightarrow> http_connection" where
  "check_receive c =
     (if \<not> hc_pause_receive c \<and> hc_is_connected c \<and> \<not> ts_receiving (hc_socket c)
      then c\<lparr>hc_socket := ts_receive (ho_receive_buffer_size (hc_options c)) (hc_socket c)\<rparr> else c)"

definition hc_pause :: "http_connection \<Rightarrow> http_connection" where
  "hc_pause c = c\<lparr>hc_pause_receive := True\<rparr>"

definition hc_resume :: "http_connection \<Rightarrow> http_connection" where
  "hc_resume c = check_receive (c\<lparr>hc_pause_receive := False\<rparr>)"

definition hc_send_data :: "bytes \<Rightarrow> http_connection \<Rightarrow> bool \<times> http_connection" where
  "hc_send_data data c =
     (case hc_request c of
        None \<Rightarrow> (False, c)
      | Some ri \<Rightarrow> if \<not> ri_header_send ri then (False, c)
          else let (r, sock) = ts_send_n data (hc_socket c) in (r, c\<lparr>hc_socket := sock\<rparr>))"

definition write_request :: "request_info \<Rightarrow> http_connection \<Rightarrow> http_connection" where
  "write_request ri c =
     (let (_, sock) = ts_send_n (text_bytes (rq_print (ri_request ri))) (hc_socket c)
      in hc_notify Http_Put_Content (c\<lparr>hc_request := Some (ri\<lparr>ri_header_send := True\<rparr>), hc_socket := sock\<rparr>))"

definition is_same_host :: "request_info \<Rightarrow> http_connection \<Rightarrow> bool" where
  "is_same_host ri c = (uri_host (ri_url ri) = hc_host c \<and> uri_port (ri_url ri) = hc_port c)"

definition need_reconnect :: "request_info \<Rightarrow> http_connection \<Rightarrow> bool" where
  "need_reconnect ri c =
     (if \<not> ho_keep_alive (hc_options c) then True
      else if \<not> hc_is_connected c then True
      else if \<not> is_same_host ri c then True
      else hc_is_started c)"

definition connecto_host_address :: "http_connection \<Rightarrow> http_connection" where
  "connecto_host_address c = c\<lparr>hc_socket := ts_connect (hc_socket c)\<rparr>"

definition connect_host :: "http_env \<Rightarrow> request_info \<Rightarrow> http_connection \<Rightarrow> http_connection" where
  "connect_host env ri c =
     (let c = (hc_close c)\<lparr>hc_request := Some ri, hc_host := uri_host (ri_url ri), hc_port := uri_port (ri_url ri)\<rparr>
      in if \<not> he_is_address env (hc_host c) then c\<lparr>hc_name_resolver := Some (hc_host c)\<rparr> else connecto_host_address c)"

definition do_request :: "http_env \<Rightarrow> request_info option \<Rightarrow> http_connection \<Rightarrow> bool \<times> http_connection" where
  "do_request env req c =
     (case req of
        None \<Rightarrow> (False, c)
      | Some ri \<Rightarrow> if need_reconnect ri c then (True, connect_host env ri c)
                  else (True, check_receive (write_request ri (c\<lparr>hc_request := Some ri\<rparr>))))"

definition post_error :: "int \<Rightarrow> http_connection \<Rightarrow> http_connection" where
  "post_error errcode c = c\<lparr>hc_posted := hc_posted c @ [errcode]\<rparr>"

text \<open>The I/O service runs what was posted.\<close>

definition run_posted :: "http_connection \<Rightarrow> http_connection" where
  "run_posted c = (case hc_posted c of [] \<Rightarrow> c | code # codes \<Rightarrow> hc_on_error code (c\<lparr>hc_posted := codes\<rparr>))"

definition prepare_request ::
    "string option \<Rightarrow> string \<Rightarrow> string_items option \<Rightarrow> http_connection \<Rightarrow> request_info option \<times> http_connection" where
  "prepare_request urlstr meth headers c =
     (let (ok, u) = uri_parse urlstr uri_init in
      if \<not> ok \<or> meth = [] then (None, post_error (- 1) c)
      else let ri = ri_prepare_request (hc_options c) headers (ri_new u)
           in (Some (ri\<lparr>ri_request := rq_set_method meth (ri_request ri)\<rparr>), c))"

definition hc_request_url :: "http_env \<Rightarrow> string \<Rightarrow> string option \<Rightarrow> string_items option \<Rightarrow> http_connection \<Rightarrow> bool \<times> http_connection" where
  "hc_request_url env meth urlstr headers c = (let (req, c) = prepare_request urlstr meth headers c in do_request env req c)"

definition rq_set_range :: "int \<Rightarrow> int \<Rightarrow> http_request \<Rightarrow> http_request" where
  "rq_set_range pos len r =
     rq_set_header ''Range'' (hr_str \<lparr>hr_start = pos, hr_end = (if len > 0 then pos + len - 1 else - 1)\<rparr>) r"

definition hc_download :: "http_env \<Rightarrow> string option \<Rightarrow> int \<Rightarrow> int \<Rightarrow> string_items option \<Rightarrow> http_connection \<Rightarrow> bool \<times> http_connection" where
  "hc_download env urlstr pos len headers c =
     (if len = 0 then (False, post_error (- 2) c)
      else let (req, c) = prepare_request urlstr ''GET'' headers c
           in do_request env (map_option (\<lambda>ri. ri\<lparr>ri_request := rq_set_range pos len (ri_request ri)\<rparr>) req) c)"

definition hc_redirect :: "http_env \<Rightarrow> request_info \<Rightarrow> http_connection \<Rightarrow> http_connection" where
  "hc_redirect env ri c = snd (do_request env (Some ri) (hc_close c))"

definition hc_handle_error :: "http_env \<Rightarrow> int \<Rightarrow> http_connection \<Rightarrow> http_connection" where
  "hc_handle_error env errcode c =
     (case hc_request c of
        None \<Rightarrow> hc_close c
      | Some ri \<Rightarrow>
          if ri_response_header_received ri \<and> errcode = he_eof env then snd (snd (filters_finish env (ri_filters ri) c))
          else hc_on_error errcode c)"

subsection \<open>The response\<close>

definition ri_redirect :: "http_env \<Rightarrow> string \<Rightarrow> request_info \<Rightarrow> http_connection \<Rightarrow> http_connection" where
  "ri_redirect env location ri c =
     (if ri_redirect_times ri > ho_max_redirects (hc_options c) then hc_handle_error env (- 4) c
      else
        let ri = ri\<lparr>ri_redirect_times := ri_redirect_times ri + 1\<rparr>;
            (ok, u) = uri_parse (Some location) uri_init
        in if location = [] \<or> \<not> ok then hc_handle_error env (- 3) c
           else
             let ri = reset_handling_state ri;
                 ri = ri\<lparr>ri_url := snd (uri_parse (Some location) (ri_url ri)),
                         ri_request := rq_set_url (Some (uri_full_path u)) (ri_request ri)\<rparr>
             in hc_redirect env (init_request_host ri) c)"

definition is_redirect :: "int \<Rightarrow> bool" where
  "is_redirect code \<longleftrightarrow> code \<ge> 300 \<and> code \<le> 303 \<or> code = 307"

text \<open>
  \<open>process_raw_response\<close>: whether to go on, the request info and the connection. The connection reaches the
  same object through its pointer, so it is written back before the listener can see it.
\<close>

definition process_raw_response :: "http_env \<Rightarrow> request_info \<Rightarrow> http_connection \<Rightarrow> bool \<times> request_info \<times> http_connection" where
  "process_raw_response env ri c =
     (let resp = re_response (ri_extractor ri) in
      if is_redirect (rs_status_code resp)
      then (False, ri, ri_redirect env (rs_get_header ''Location'' resp) ri (c\<lparr>hc_request := Some ri\<rparr>))
      else
        let ri = ri\<lparr>ri_response_header_received := True\<rparr>;
            (ok, resp, fc, c) = filters_init env resp (init_filters resp) (c\<lparr>hc_request := Some ri\<rparr>)
        in (ok, ri\<lparr>ri_extractor := (ri_extractor ri)\<lparr>re_response := resp\<rparr>, ri_filters := fc\<rparr>, c))"

definition process_body_data :: "http_env \<Rightarrow> string \<Rightarrow> request_info \<Rightarrow> http_connection \<Rightarrow> fault + bool \<times> request_info \<times> http_connection" where
  "process_body_data env data ri c =
     sbind (filters_process env data (ri_filters ri) c) (\<lambda>(ok, fc, c). Inr (ok, ri\<lparr>ri_filters := fc\<rparr>, c))"

definition process_header_data :: "http_env \<Rightarrow> string \<Rightarrow> request_info \<Rightarrow> http_connection \<Rightarrow> fault + bool \<times> request_info \<times> http_connection" where
  "process_header_data env data ri c =
     sbind (re_feed (he_trim env) (he_split env) data (ri_extractor ri)) (\<lambda>(consumed_size, e).
       let ri = ri\<lparr>ri_extractor := e\<rparr> in
       if consumed_size < 0 then Inr (False, ri, hc_handle_error env (- 101) c)
       else if re_header_finished e then
         let (ok, ri, c) = process_raw_response env ri c in
         if \<not> ok then Inr (False, ri, c)
         else if int (length data) > consumed_size then
           if \<not> hc_is_started c then Inr (False, ri, hc_abort_handling c)
           else process_body_data env (drop (nat consumed_size) data) ri c
         else Inr (True, ri, c)
       else Inr (True, ri, c))"

definition ri_process :: "http_env \<Rightarrow> string \<Rightarrow> request_info \<Rightarrow> http_connection \<Rightarrow> fault + bool \<times> request_info \<times> http_connection" where
  "ri_process env data ri c =
     (if re_header_finished (ri_extractor ri) then process_body_data env data ri c else process_header_data env data ri c)"

subsection \<open>Events of the socket and of the resolver\<close>

definition on_socket_connect :: "http_connection \<Rightarrow> http_connection" where
  "on_socket_connect c =
     (let c = c\<lparr>hc_socket := ts_receive (ho_receive_buffer_size (hc_options c)) (hc_socket c)\<rparr> in
      case hc_request c of None \<Rightarrow> hc_close c | Some ri \<Rightarrow> write_request ri c)"

definition on_socket_connect_failed :: "http_env \<Rightarrow> int \<Rightarrow> http_connection \<Rightarrow> http_connection" where
  "on_socket_connect_failed env errcode c = hc_handle_error env errcode c"

text \<open>
  The request in progress is updated where the connection still holds it; after a redirect the connection holds the
  updated request already. The sender is the socket of the connection unless that was replaced,
  and then both are closed here.
\<close>

definition on_socket_receive :: "http_env \<Rightarrow> string \<Rightarrow> http_connection \<Rightarrow> fault + http_connection" where
  "on_socket_receive env data c =
     (case hc_request c of
        None \<Rightarrow> Inr (hc_close c)
      | Some ri \<Rightarrow> sbind (ri_process env data ri c) (\<lambda>(ok, ri, c).
          let c' = (if hc_is_started c then c\<lparr>hc_request := Some ri\<rparr> else c) in
          if \<not> ok then Inr (if is_redirect (rs_status_code (re_response (ri_extractor ri))) then c else c')
          else if \<not> ts_open (hc_socket c) then Inr c' else Inr (check_receive c')))"

definition on_socket_receive_failed :: "http_env \<Rightarrow> int \<Rightarrow> http_connection \<Rightarrow> http_connection" where
  "on_socket_receive_failed env errcode c = hc_handle_error env errcode c"

definition on_resolver_address :: "http_env \<Rightarrow> int \<Rightarrow> bool \<Rightarrow> http_connection \<Rightarrow> http_connection" where
  "on_resolver_address env errcode has_addrs c =
     (if errcode \<noteq> 0 \<or> \<not> has_addrs then hc_handle_error env errcode c else connecto_host_address c)"

text \<open>A completion of asio: the socket of Tcp_Socket first, and then its listener.\<close>

definition hc_connected :: "http_connection \<Rightarrow> http_connection" where
  "hc_connected c =
     (let (es, sock) = ts_on_connect 0 (hc_socket c) in if es = [] then c\<lparr>hc_socket := sock\<rparr> else on_socket_connect (c\<lparr>hc_socket := sock\<rparr>))"

definition hc_received :: "http_env \<Rightarrow> string \<Rightarrow> http_connection \<Rightarrow> fault + http_connection" where
  "hc_received env data c =
     (let (es, sock) = ts_on_receive 0 (text_bytes data) (hc_socket c); c = c\<lparr>hc_socket := sock\<rparr>
      in if es = [] then Inr c else on_socket_receive env data c)"

definition hc_receive_failed :: "http_env \<Rightarrow> int \<Rightarrow> http_connection \<Rightarrow> http_connection" where
  "hc_receive_failed env errcode c =
     (let (es, sock) = ts_on_receive errcode [] (hc_socket c); c = c\<lparr>hc_socket := sock\<rparr>
      in if es = [] then c else on_socket_receive_failed env errcode c)"

fun hc_receive_all :: "http_env \<Rightarrow> string list \<Rightarrow> http_connection \<Rightarrow> fault + http_connection" where
  "hc_receive_all env [] c = Inr c"
| "hc_receive_all env (d # ds) c = sbind (hc_received env d c) (hc_receive_all env ds)"

end
