(* ===== verification/Http_Exchange.thy ===== *)
theory Http_Exchange
  imports Http_Connection
begin

text \<open>
  What a client makes of a response: the events its listener gets, in the three phases of a request, the
  header, the body and the time after it.
\<close>

text \<open>The socket of the connection, able to receive.\<close>

definition link_up :: "http_connection \<Rightarrow> bool" where
  "link_up c \<longleftrightarrow> ts_open (hc_socket c) \<and> ts_connected (hc_socket c) \<and> ts_listening (hc_socket c) \<and> \<not> hc_pause_receive c"

definition same_link :: "http_connection \<Rightarrow> http_connection \<Rightarrow> bool" where
  "same_link c c' \<longleftrightarrow> link_up c' \<and> hc_host c' = hc_host c \<and> hc_port c' = hc_port c \<and> hc_options c' = hc_options c"

definition plain_response :: "http_response \<Rightarrow> bool" where
  "plain_response r \<longleftrightarrow> response_ok r \<and> \<not> is_redirect (rs_status_code r) \<and>
     trim_spaces (rs_get_header ''Transfer-Encoding'' r) \<noteq> ''chunked'' \<and> trim_spaces (rs_get_header ''Content-Encoding'' r) \<noteq> ''gzip''"

definition awaits_header :: "http_connection \<Rightarrow> request_info \<Rightarrow> nat \<Rightarrow> string \<Rightarrow> bool" where
  "awaits_header c ri n p \<longleftrightarrow> link_up c \<and> hc_request c = Some ri \<and> ri_extractor ri = (re_new n)\<lparr>re_buffer := p\<rparr>"

definition awaits_body :: "http_connection \<Rightarrow> http_response \<Rightarrow> int \<Rightarrow> int \<Rightarrow> bool" where
  "awaits_body c r len got \<longleftrightarrow> link_up c \<and>
     (\<exists>ri. hc_request c = Some ri \<and> re_header_finished (ri_extractor ri) \<and> re_response (ri_extractor ri) = r \<and>
        ri_response_header_received ri \<and>
        ri_filters ri = \<lparr>fc_chunked = None, fc_gzip = None, fc_end = \<lparr>ef_content_length = len, ef_received_size = got, ef_finished = False\<rparr>\<rparr>)"

lemma received_piece:
  assumes "link_up c"
  shows "hc_received env d c = on_socket_receive env d (c\<lparr>hc_socket := (hc_socket c)\<lparr>ts_receiving := False\<rparr>\<rparr>)"
  using assms by (simp add: hc_received_def ts_on_receive_def ts_notify_def link_up_def Let_def)

lemma body_piece:
  assumes "awaits_body c r len got" "\<forall>es. he_accept env es" "0 \<le> got" "got + int (length d) \<le> len" "d \<noteq> []"
    "\<not> is_redirect (rs_status_code r)"
  shows "\<exists>c'. hc_received env d c = Inr c' \<and> same_link c c' \<and> ts_receiving (hc_socket c') \<and>
    (if got + int (length d) < len
     then awaits_body c' r len (got + int (length d)) \<and> hc_events c' = hc_events c @ [Http_Data d]
     else \<not> hc_is_started c' \<and> hc_events c' = hc_events c @ [Http_Data d, Http_Complete len])"
proof -
  obtain ri where ri: "hc_request c = Some ri" "re_header_finished (ri_extractor ri)" "re_response (ri_extractor ri) = r"
      "ri_response_header_received ri"
      "ri_filters ri = \<lparr>fc_chunked = None, fc_gzip = None, fc_end = \<lparr>ef_content_length = len, ef_received_size = got, ef_finished = False\<rparr>\<rparr>"
      and up: "link_up c"
    using assms(1) by (auto simp: awaits_body_def)
  let ?c = "c\<lparr>hc_socket := (hc_socket c)\<lparr>ts_receiving := False\<rparr>\<rparr>"
  note step = received_piece[OF up, of env d] on_socket_receive_def ri_process_def process_body_data_def filters_process_def next_process_def
    ef_process_def ef_check_finish_def ef_finish_def hc_on_content_def hc_on_complete_def hc_notify_def hc_is_started_def
    check_receive_def hc_is_connected_def ts_receive_def ts_do_receive_def
  show ?thesis
    using ri up assms(2-6) unfolding step same_link_def awaits_body_def link_up_def
    by (auto simp: Let_def)
qed

definition client_env_ok :: "http_env \<Rightarrow> bool" where
  "client_env_ok env \<longleftrightarrow> boost_text (he_trim env) (he_split env) \<and> (\<forall>es. he_accept env es)"

lemma header_piece_waits:
  assumes env: "client_env_ok env" and c: "awaits_header c ri n p" and r: "response_ok r" and "(p @ d) @ q = rs_print r @ body"
    and "length (p @ d) < length (rs_print r)" "length (p @ d) \<le> n" "d \<noteq> []"
  shows "\<exists>c' ri'. hc_received env d c = Inr c' \<and> same_link c c' \<and> ts_receiving (hc_socket c') \<and>
    awaits_header c' ri' n (p @ d) \<and> hc_events c' = hc_events c \<and> ri_url ri' = ri_url ri \<and>
    ri_redirect_times ri' = ri_redirect_times ri \<and> ri_response_header_received ri' = ri_response_header_received ri"
proof -
  have feed: "re_feed (he_trim env) (he_split env) d ((re_new n)\<lparr>re_buffer := p\<rparr>) = Inr (int (length d), (re_new n)\<lparr>re_buffer := p @ d\<rparr>)"
    using boost_text.extract_waits[OF _ r assms(4-7)] env by (simp add: client_env_ok_def)
  have "\<not> re_header_finished (re_new n)" by (simp add: re_new_def)
  moreover have "link_up c" "hc_request c = Some ri" "ri_extractor ri = (re_new n)\<lparr>re_buffer := p\<rparr>"
    using c by (simp_all add: awaits_header_def)
  ultimately show ?thesis
    unfolding received_piece[OF \<open>link_up c\<close>] on_socket_receive_def ri_process_def process_header_data_def
    by (auto simp: feed Let_def hc_is_started_def check_receive_def hc_is_connected_def same_link_def awaits_header_def link_up_def
        ts_receive_def ts_do_receive_def)
qed

text \<open>The response header is complete: the filters are set up and the listener is told.\<close>

lemma raw_response_plain:
  assumes "\<forall>es. he_accept env es" "plain_response r" "re_response (ri_extractor ri) = r" "get_content_length r = len" "0 \<le> len"
  shows "process_raw_response env ri c =
    (True, ri\<lparr>ri_response_header_received := True, ri_filters := \<lparr>fc_chunked = None, fc_gzip = None,
        fc_end = \<lparr>ef_content_length = len, ef_received_size = 0, ef_finished = (len = 0)\<rparr>\<rparr>\<rparr>,
     c\<lparr>hc_request := (if len = 0 then None else Some (ri\<lparr>ri_response_header_received := True\<rparr>)),
       hc_events := hc_events c @ Http_Response r (uri_original_string (ri_url ri)) # (if len = 0 then [Http_Complete 0] else [])\<rparr>)"
proof -
  have "\<not> is_redirect (rs_status_code r)" "init_filters r = \<lparr>fc_chunked = None, fc_gzip = None, fc_end = ef_new\<rparr>"
    using assms(2) by (simp_all add: plain_response_def init_filters_def)
  moreover have "ri_extractor ri\<lparr>re_response := r\<rparr> = ri_extractor ri" using assms(3) by auto
  ultimately show ?thesis
    using assms(1,3-5) by (simp add: process_raw_response_def Let_def filters_init_def next_init_def ef_init_def ef_new_def
      ef_check_finish_def ef_finish_def hc_on_header_def hc_on_complete_def hc_notify_def)
qed

lemma header_piece_done:
  assumes env: "client_env_ok env" and c: "awaits_header c ri n p" and r: "plain_response r" "get_content_length r = len" "0 \<le> len"
    and d: "p @ d = rs_print r @ b" "length (p @ d) \<le> n" "length p < length (rs_print r)" "int (length b) \<le> len"
  shows "\<exists>c'. hc_received env d c = Inr c' \<and> same_link c c' \<and> ts_receiving (hc_socket c') \<and>
    (if int (length b) < len
     then awaits_body c' r len (int (length b)) \<and>
       hc_events c' = hc_events c @ Http_Response r (uri_original_string (ri_url ri)) # (if b = [] then [] else [Http_Data b])
     else \<not> hc_is_started c' \<and>
       hc_events c' = hc_events c @ Http_Response r (uri_original_string (ri_url ri)) # (if b = [] then [] else [Http_Data b]) @ [Http_Complete len])"
proof -
  define k where "k = int (length (rs_print r)) - int (length p)"
  let ?e = "(re_new n)\<lparr>re_response := r, re_header_finished := True\<rparr>"
  have ok: "response_ok r" "\<not> is_redirect (rs_status_code r)" using r(1) by (simp_all add: plain_response_def)
  have accept: "\<forall>es. he_accept env es" using env by (simp add: client_env_ok_def)
  have feed: "re_feed (he_trim env) (he_split env) d ((re_new n)\<lparr>re_buffer := p\<rparr>) = Inr (k, ?e)"
    using boost_text.extract_header[OF _ ok(1) d(1,2)] env by (simp add: client_env_ok_def k_def)
  have len: "length p + length d = length (rs_print r) + length b" using arg_cong[OF d(1), of length] by simp
  then have n: "\<not> k < 0" "k < int (length d) \<longleftrightarrow> b \<noteq> []" using d(3) unfolding k_def by (auto, (cases b; simp)+)
  have "nat k = length (rs_print r) - length p" unfolding k_def by linarith
  then have rest: "drop (nat k) d = b" using arg_cong[OF d(1), of "drop (length (rs_print r))"] d(3) by simp
  have up: "link_up c" "hc_request c = Some ri" "ri_extractor ri = (re_new n)\<lparr>re_buffer := p\<rparr>"
    using c by (simp_all add: awaits_header_def)
  let ?c = "c\<lparr>hc_socket := (hc_socket c)\<lparr>ts_receiving := False\<rparr>\<rparr>" and ?ri = "ri\<lparr>ri_extractor := ?e\<rparr>"
  note raw = raw_response_plain[OF accept r(1) _ r(2,3), of ?ri ?c, simplified]
  have "ri_process env d ri ?c = process_header_data env d ri ?c" using up(3) by (simp add: ri_process_def re_new_def)
  also have "\<dots> = (let (ok, ri, c) = process_raw_response env ?ri ?c in
      if \<not> ok then Inr (False, ri, c)
      else if b \<noteq> [] then if \<not> hc_is_started c then Inr (False, ri, hc_abort_handling c) else process_body_data env b ri c
      else Inr (True, ri, c))"
    unfolding process_header_data_def up(3) feed by (simp add: n rest Let_def split: prod.split)
  finally have process: "ri_process env d ri ?c = \<dots>" .
  have rec: "hc_received env d c = sbind (ri_process env d ri ?c) (\<lambda>(ok, ri, c).
          let c' = (if hc_is_started c then c\<lparr>hc_request := Some ri\<rparr> else c) in
          if \<not> ok then Inr (if is_redirect (rs_status_code (re_response (ri_extractor ri))) then c else c')
          else if \<not> ts_open (hc_socket c) then Inr c' else Inr (check_receive c'))"
    using received_piece[OF up(1)] up(2) by (simp add: on_socket_receive_def)
  show ?thesis
  proof (cases "b = []")
    case True
    then show ?thesis
      using up(1) ok(2) r(3) d(4) unfolding rec process raw
      by (simp add: Let_def same_link_def awaits_body_def link_up_def hc_is_started_def check_receive_def hc_is_connected_def
          ts_receive_def ts_do_receive_def)
  next
    case False
    then have "0 < len" using d(4) by (cases b) auto
    then show ?thesis
      using up(1) ok(2) False d(4) accept unfolding rec process raw
      by (simp add: Let_def same_link_def awaits_body_def link_up_def hc_is_started_def check_receive_def hc_is_connected_def
          ts_receive_def ts_do_receive_def process_body_data_def filters_process_def next_process_def ef_process_def ef_check_finish_def
          ef_finish_def hc_on_content_def hc_on_complete_def hc_notify_def)
  qed
qed

lemma same_link_trans: "same_link a b \<Longrightarrow> same_link b c \<Longrightarrow> same_link a c"
  by (simp add: same_link_def)

definition told :: "http_connection \<Rightarrow> http_connection \<Rightarrow> http_response \<Rightarrow> http_event list \<Rightarrow> int \<Rightarrow> int \<Rightarrow> bool" where
  "told c c' r es got len \<longleftrightarrow> same_link c c' \<and>
     (if got < len then awaits_body c' r len got \<and> hc_events c' = hc_events c @ es
      else \<not> hc_is_started c' \<and> hc_events c' = hc_events c @ es @ [Http_Complete len])"

lemma no_pieces: "list_all (\<lambda>d. d \<noteq> []) cs \<Longrightarrow> int (length (concat cs)) \<le> 0 \<Longrightarrow> cs = []"
  by (cases cs) (simp_all only: of_nat_le_0_iff length_0_conv concat.simps append_is_Nil_conv list.pred_inject simp_thms)

lemma body_pieces:
  assumes "\<forall>es. he_accept env es" "\<not> is_redirect (rs_status_code r)"
    and "awaits_body c r len got" "0 \<le> got" "got < len" "got + int (length (concat cs)) \<le> len" "list_all (\<lambda>d. d \<noteq> []) cs"
  shows "\<exists>c'. hc_receive_all env cs c = Inr c' \<and> told c c' r (map Http_Data cs) (got + int (length (concat cs))) len \<and>
    (cs \<noteq> [] \<longrightarrow> ts_receiving (hc_socket c'))"
  using assms(3-)
proof (induction cs arbitrary: c got)
  case Nil
  then show ?case by (simp add: told_def same_link_def awaits_body_def)
next
  case (Cons d cs)
  then have d: "got + int (length d) \<le> len" "d \<noteq> []" by simp_all
  from body_piece[OF Cons.prems(1) assms(1) Cons.prems(2) d assms(2)] obtain c1 where
    1: "hc_received env d c = Inr c1" "same_link c c1" "ts_receiving (hc_socket c1)"
      "if got + int (length d) < len
       then awaits_body c1 r len (got + int (length d)) \<and> hc_events c1 = hc_events c @ [Http_Data d]
       else \<not> hc_is_started c1 \<and> hc_events c1 = hc_events c @ [Http_Data d, Http_Complete len]" by blast
  show ?case
  proof (cases "got + int (length d) < len")
    case True
    with 1(4) have aw: "awaits_body c1 r len (got + int (length d))" "hc_events c1 = hc_events c @ [Http_Data d]" by simp_all
    obtain c2 where 2: "hc_receive_all env cs c1 = Inr c2"
        "told c1 c2 r (map Http_Data cs) (got + int (length d) + int (length (concat cs))) len"
        "cs \<noteq> [] \<longrightarrow> ts_receiving (hc_socket c2)"
      using Cons.IH[OF aw(1) _ True] Cons.prems(2,4,5) by auto
    have "cs = [] \<Longrightarrow> c2 = c1" using 2(1) by simp
    with 1 2 aw(2) same_link_trans[OF 1(2)] show ?thesis by (auto simp: told_def add.assoc)
  next
    case False
    moreover have "got + int (length d) + int (length (concat cs)) \<le> len" using Cons.prems(4) by simp
    ultimately have "int (length (concat cs)) \<le> 0" by linarith
    then have "cs = []" using Cons.prems(5) by (simp add: no_pieces)
    with 1 False show ?thesis by (auto simp: told_def Cons.prems)
  qed
qed

lemma response_pieces:
  assumes env: "client_env_ok env" and r: "plain_response r" "get_content_length r = len" "0 \<le> len"
    and "awaits_header c ri n p" "p @ concat cs = rs_print r @ part" "length (p @ concat cs) \<le> n" "length p < length (rs_print r)"
    and "int (length part) \<le> len" "list_all (\<lambda>d. d \<noteq> []) cs"
  shows "\<exists>c' ds. hc_receive_all env cs c = Inr c' \<and> concat ds = part \<and> ts_receiving (hc_socket c') \<and>
    told c c' r (Http_Response r (uri_original_string (ri_url ri)) # map Http_Data ds) (int (length part)) len"
  using assms(5-)
proof (induction cs arbitrary: c ri p)
  case Nil
  then show ?case by (auto dest: arg_cong[where f = length])
next
  case (Cons d cs)
  have ok: "response_ok r" and rd: "\<not> is_redirect (rs_status_code r)" and acc: "\<forall>es. he_accept env es"
    using r(1) env by (simp_all add: plain_response_def client_env_ok_def)
  have all: "(p @ d) @ concat cs = rs_print r @ part" using Cons.prems(2) by simp
  have n: "length (p @ d) \<le> n" using Cons.prems(3) by simp
  show ?case
  proof (cases "length (p @ d) < length (rs_print r)")
    case True
    from header_piece_waits[OF env Cons.prems(1) ok all True n] Cons.prems(6) obtain c1 ri1 where
      1: "hc_received env d c = Inr c1" "same_link c c1" "awaits_header c1 ri1 n (p @ d)" "ri_url ri1 = ri_url ri" "hc_events c1 = hc_events c"
      by auto
    have "length ((p @ d) @ concat cs) \<le> n" "list_all (\<lambda>d. d \<noteq> []) cs" using Cons.prems(3,6) by simp_all
    from Cons.IH[OF 1(3) all this(1) True Cons.prems(5) this(2)] 1 show ?thesis
      using same_link_trans[OF 1(2)] by (auto simp: told_def)
  next
    case False
    then obtain b where b: "p @ d = rs_print r @ b" "b @ concat cs = part" using append_cut[OF all] by auto
    have lb: "int (length b) + int (length (concat cs)) = int (length part)" using arg_cong[OF b(2), of length] by simp
    then have bl: "int (length b) \<le> len" using Cons.prems(5) by simp
    from header_piece_done[OF env Cons.prems(1) r b(1) n Cons.prems(4) bl] obtain c1 where
      1: "hc_received env d c = Inr c1" "same_link c c1" "ts_receiving (hc_socket c1)"
       "if int (length b) < len
        then awaits_body c1 r len (int (length b)) \<and>
          hc_events c1 = hc_events c @ Http_Response r (uri_original_string (ri_url ri)) # (if b = [] then [] else [Http_Data b])
        else \<not> hc_is_started c1 \<and>
          hc_events c1 = hc_events c @ Http_Response r (uri_original_string (ri_url ri)) # (if b = [] then [] else [Http_Data b]) @ [Http_Complete len]"
      by blast
    let ?ds = "(if b = [] then [] else [b]) @ cs"
    show ?thesis
    proof (cases "int (length b) < len")
      case True
      with 1(4) have aw: "awaits_body c1 r len (int (length b))" by simp
      obtain c2 where 2: "hc_receive_all env cs c1 = Inr c2"
          "told c1 c2 r (map Http_Data cs) (int (length b) + int (length (concat cs))) len"
          "cs \<noteq> [] \<longrightarrow> ts_receiving (hc_socket c2)"
        using body_pieces[OF acc rd aw _ True, of cs] lb Cons.prems(5,6) by auto
      have "cs = [] \<Longrightarrow> c2 = c1" using 2(1) by simp
      moreover have "concat ?ds = part" using b(2) by (cases "b = []") simp_all
      ultimately show ?thesis using 1 2 True lb same_link_trans[OF 1(2)]
        by (intro exI[of _ c2] exI[of _ ?ds]) (auto simp: told_def)
    next
      case False
      then have "int (length (concat cs)) \<le> 0" using lb Cons.prems(5) by linarith
      then have "cs = []" using Cons.prems(6) by (simp add: no_pieces)
      with 1 False b(2) lb show ?thesis
        by (intro exI[of _ c1] exI[of _ ?ds]) (auto simp: told_def)
    qed
  qed
qed

text \<open>
  C9. The response to a request, with a body of the length its header names, header and body together not longer than the
  client's buffer for the header (64 KiB): however the stream is cut into pieces that are not empty, the
  listener is told of the response, of pieces that make up the body and of the end, in this order
  and once; the connection is idle then, still receiving, and a request to the same host goes out on it when connections are kept alive.
\<close>

theorem http_client_response:
  assumes "client_env_ok env" and "plain_response r" and "get_content_length r = int (length body)"
    and "link_up c" and "hc_request c = Some ri" and "ri_extractor ri = re_new n"
    and "concat cs = rs_print r @ body" and "list_all (\<lambda>d. d \<noteq> []) cs" and "length (concat cs) \<le> n"
  shows "\<exists>c' ds. hc_receive_all env cs c = Inr c' \<and> concat ds = body \<and>
    hc_events c' = hc_events c @ Http_Response r (uri_original_string (ri_url ri)) # map Http_Data ds @ [Http_Complete (int (length body))] \<and>
    \<not> hc_is_started c' \<and> ts_receiving (hc_socket c') \<and>
    need_reconnect ri' c' = (\<not> ho_keep_alive (hc_options c) \<or> \<not> is_same_host ri' c)"
proof -
  have "(re_new n)\<lparr>re_buffer := []\<rparr> = re_new n" by (simp add: re_new_def)
  then have aw: "awaits_header c ri n []" using assms(4-6) by (simp add: awaits_header_def)
  have "0 < length (rs_print r)" using printed_header_end(2)[of r] assms(2) by (fastforce simp: plain_response_def)
  with response_pieces[OF assms(1,2,3) _ aw, of cs body] assms(7-9) obtain c' ds where
    c': "hc_receive_all env cs c = Inr c'" "concat ds = body" "ts_receiving (hc_socket c')"
      "told c c' r (Http_Response r (uri_original_string (ri_url ri)) # map Http_Data ds) (int (length body)) (int (length body))" by auto
  then show ?thesis
    by (intro exI[of _ c'] exI[of _ ds])
      (auto simp: told_def same_link_def link_up_def need_reconnect_def hc_is_connected_def is_same_host_def)
qed

text \<open>
  Where it fails: when the peer closes the connection before the whole body has arrived, the listener is told that
  the request is complete, with the number of bytes that did arrive, and of no error.
\<close>

theorem http_client_truncated:
  assumes "client_env_ok env" and "plain_response r" and "get_content_length r = int (length body)"
    and "link_up c" and "hc_request c = Some ri" and "ri_extractor ri = re_new n"
    and "concat cs = rs_print r @ part" and "body = part @ rest" and "rest \<noteq> []" and "list_all (\<lambda>d. d \<noteq> []) cs"
    and "length (concat cs) \<le> n" and "he_eof env \<noteq> 0"
  shows "\<exists>c1 ds. hc_receive_all env cs c = Inr c1 \<and> concat ds = part \<and>
    hc_events (hc_receive_failed env (he_eof env) c1) =
      hc_events c @ Http_Response r (uri_original_string (ri_url ri)) # map Http_Data ds @ [Http_Complete (int (length part))]"
proof -
  have "(re_new n)\<lparr>re_buffer := []\<rparr> = re_new n" by (simp add: re_new_def)
  then have aw: "awaits_header c ri n []" using assms(4-6) by (simp add: awaits_header_def)
  have "0 < length (rs_print r)" using printed_header_end(2)[of r] assms(2) by (fastforce simp: plain_response_def)
  moreover have part: "length part < length body" using assms(8,9) by simp
  ultimately obtain c1 ds where
    c1: "hc_receive_all env cs c = Inr c1" "concat ds = part"
      "told c c1 r (Http_Response r (uri_original_string (ri_url ri)) # map Http_Data ds) (int (length part)) (int (length body))"
    using response_pieces[OF assms(1,2,3) _ aw, of cs part] assms(7,10,11) by auto
  from c1(3) part obtain ri1 where ri1: "hc_request c1 = Some ri1" "ri_response_header_received ri1"
      "ri_filters ri1 = \<lparr>fc_chunked = None, fc_gzip = None, fc_end = \<lparr>ef_content_length = int (length body), ef_received_size = int (length part), ef_finished = False\<rparr>\<rparr>"
      "link_up c1" "hc_events c1 = hc_events c @ Http_Response r (uri_original_string (ri_url ri)) # map Http_Data ds"
    by (auto simp: told_def awaits_body_def)
  have "hc_events (hc_receive_failed env (he_eof env) c1) = hc_events c1 @ [Http_Complete (int (length part))]"
    using ri1(1-4) assms(12)
    by (simp add: hc_receive_failed_def ts_on_receive_def ts_notify_def link_up_def on_socket_receive_failed_def hc_handle_error_def
        filters_finish_def next_finish_def ef_finish_def hc_on_complete_def hc_notify_def Let_def)
  with c1 ri1(5) show ?thesis by (intro exI[of _ c1] exI[of _ ds]) simp
qed

text \<open>A client that has asked for \<open>http://h/a\<close> and is connected.\<close>

definition sample_client_env :: http_env where
  "sample_client_env = \<lparr>he_trim = trim_reference, he_split = split_reference, he_accept = (\<lambda>_. True),
     he_is_address = (\<lambda>_. True), he_eof = 2, he_inflate = (\<lambda>_. ([], None))\<rparr>"

definition sample_client :: http_connection where
  "sample_client = write_request (ri_new (snd (uri_parse (Some ''http://h/a'') uri_init))) (hc_new\<lparr>hc_socket := ts_accepted\<rparr>)"

definition sample_answer :: http_response where
  "sample_answer = init_response 200 3 ''t'' rs_new"

lemma sample_client_env_ok: "client_env_ok sample_client_env"
  by (simp add: client_env_ok_def sample_client_env_def boost.boost_text_axioms)

lemma sample_client_ready:
  "link_up sample_client"
  "\<exists>ri. hc_request sample_client = Some ri \<and> ri_extractor ri = re_new (64 * 1024) \<and> uri_original_string (ri_url ri) = ''http://h/a''
     \<and> ri_redirect_times ri = 0"
  "hc_events sample_client = [Http_Put_Content]" "ho_max_redirects (hc_options sample_client) = 10"
proof -
  have "uri_original_string (snd (uri_parse (Some ''http://h/a'') uri_init)) = ''http://h/a''" by code_simp
  then show "\<exists>ri. hc_request sample_client = Some ri \<and> ri_extractor ri = re_new (64 * 1024) \<and> uri_original_string (ri_url ri) = ''http://h/a''
     \<and> ri_redirect_times ri = 0"
    by (simp add: sample_client_def write_request_def hc_notify_def ri_new_def Let_def split: prod.split)
qed (simp_all add: sample_client_def write_request_def hc_notify_def hc_new_def hc_init_client_def ho_new_def link_up_def
    ts_send_n_def ts_accepted_def ts_do_init_def size_of_int64_def ts_process_sending_queue_def ts_do_send_n_def Let_def)

lemma rs_new_ok: "response_ok rs_new"
  by (simp add: rs_new_def rs_clear_def hm_clear_def response_ok_def token_def plain_text_def code_of_def)

lemma sample_answer_ok: "plain_response sample_answer" "get_content_length sample_answer = 3" "length (rs_print sample_answer) = 55"
proof -
  have "response_ok sample_answer" unfolding sample_answer_def
    by (rule response_ok_init[OF rs_new_ok]) (auto simp: plain_text_def no_cr_def padded_def is_space_def code_of_def)
  moreover have "rs_status_code sample_answer = 200" "rs_get_header ''Transfer-Encoding'' sample_answer = []"
      "rs_get_header ''Content-Encoding'' sample_answer = []" by code_simp+
  moreover have "trim_spaces [] = []" by code_simp
  ultimately show "plain_response sample_answer" by (simp add: plain_response_def is_redirect_def)
  show "get_content_length sample_answer = 3" "length (rs_print sample_answer) = 55" by code_simp+
qed

theorem http_client_response_witness:
  "\<exists>c' ds. hc_receive_all sample_client_env [take 9 (rs_print sample_answer), drop 9 (rs_print sample_answer) @ ''ab'', ''c''] sample_client = Inr c' \<and>
     concat ds = ''abc'' \<and> hc_events c' = Http_Put_Content # Http_Response sample_answer ''http://h/a'' # map Http_Data ds @ [Http_Complete 3] \<and>
     \<not> hc_is_started c'"
proof -
  obtain ri where "hc_request sample_client = Some ri" "ri_extractor ri = re_new (64 * 1024)" "uri_original_string (ri_url ri) = ''http://h/a''"
    using sample_client_ready(2) by blast
  moreover have "rs_print sample_answer \<noteq> []" using sample_answer_ok(3) by auto
  ultimately show ?thesis
    using http_client_response[OF sample_client_env_ok sample_answer_ok(1), of "''abc''" sample_client ri "64 * 1024"
        "[take 9 (rs_print sample_answer), drop 9 (rs_print sample_answer) @ ''ab'', ''c'']"]
      sample_client_ready sample_answer_ok(2,3)
    by (simp flip: append_assoc) blast
qed

theorem http_client_truncated_witness:
  "\<exists>c1 ds. hc_receive_all sample_client_env [rs_print sample_answer, ''a''] sample_client = Inr c1 \<and> concat ds = ''a'' \<and>
     hc_events (hc_receive_failed sample_client_env 2 c1) =
       Http_Put_Content # Http_Response sample_answer ''http://h/a'' # map Http_Data ds @ [Http_Complete 1]"
proof -
  obtain ri where ri: "hc_request sample_client = Some ri" "ri_extractor ri = re_new (64 * 1024)" "uri_original_string (ri_url ri) = ''http://h/a''"
    using sample_client_ready(2) by blast
  have cs: "get_content_length sample_answer = int (length ''abc'')" "concat [rs_print sample_answer, ''a''] = rs_print sample_answer @ ''a''"
    "''abc'' = ''a'' @ ''bc''" "''bc'' \<noteq> []" "list_all (\<lambda>d. d \<noteq> []) [rs_print sample_answer, ''a'']"
    "length (concat [rs_print sample_answer, ''a'']) \<le> 64 * 1024" "he_eof sample_client_env \<noteq> 0"
    using sample_answer_ok(2,3) by (auto simp: sample_client_env_def)
  have "he_eof sample_client_env = 2" "int (length ''a'') = 1" by (simp_all add: sample_client_env_def)
  with http_client_truncated[OF sample_client_env_ok sample_answer_ok(1) cs(1) sample_client_ready(1) ri(1,2) cs(2-7)] ri(3)
    sample_client_ready(3) show ?thesis by (simp only: append.simps)
qed

subsection \<open>Redirects\<close>



lemma close_connection [simp]:
  "hc_request (hc_close c) = None" "hc_events (hc_close c) = hc_events c" "hc_options (hc_close c) = hc_options c"
  "\<not> ts_connected (hc_socket (hc_close c))" "\<not> ts_open (hc_socket (hc_close c))" "ts_connects (hc_socket (hc_close c)) = 0"
  "hc_name_resolver (hc_close c) = None"
  by (simp_all add: hc_close_def hc_init_client_def ts_new_def ts_do_init_def ts_set_listener_def)









end
