(* ===== verification/Http_Round_Trip.thy ===== *)
theory Http_Round_Trip
  imports Http_Exchange
begin

text \<open>
  A session of the server and a client, composed: what the session sends in chunks through its socket, and what the
  listener of the client is told of it.
\<close>

definition chunked_end :: "filter_chain \<Rightarrow> int \<Rightarrow> bool" where
  "chunked_end fc got \<longleftrightarrow> fc_gzip fc = None \<and> fc_end fc = \<lparr>ef_content_length = - 1, ef_received_size = got, ef_finished = False\<rparr>"

lemma apply_pieces:
  assumes "\<forall>es. he_accept env es" "chunked_end fc got" "hc_request c = Some ri" "list_all (\<lambda>d. d \<noteq> []) ds"
  shows "\<exists>fc'. apply_events env (map Filter_Process ds @ [Filter_Finish []]) fc c =
    (fc', c\<lparr>hc_request := None, hc_events := hc_events c @ map Http_Data ds @ [Http_Complete (got + int (length (concat ds)))]\<rparr>)"
  using assms(2-)
proof (induction ds arbitrary: fc c got)
  case Nil
  then show ?case
    by (simp add: next_finish_def chunked_end_def ef_finish_def hc_on_complete_def hc_notify_def)
next
  case (Cons d ds)
  let ?fc = "fc\<lparr>fc_end := \<lparr>ef_content_length = - 1, ef_received_size = got + int (length d), ef_finished = False\<rparr>\<rparr>"
  let ?c = "c\<lparr>hc_events := hc_events c @ [Http_Data d]\<rparr>"
  have "next_process env d fc c = (True, ?fc, ?c)"
    using Cons.prems assms(1)
    by (simp add: next_process_def chunked_end_def ef_process_def ef_check_finish_def hc_on_content_def hc_notify_def Let_def)
  moreover have "chunked_end ?fc (got + int (length d))" using Cons.prems(1) by (simp add: chunked_end_def)
  ultimately show ?case using Cons.IH[of ?fc "got + int (length d)" ?c] Cons.prems(2,3) by (auto simp: add.assoc)
qed

lemma chunked_headers:
  assumes "response_ok r"
  shows "rs_get_header ''Transfer-Encoding'' (set_chunked r) = ''chunked''"
    "rs_get_header ''Content-Encoding'' (set_chunked r) = rs_get_header ''Content-Encoding'' r"
    "get_content_length (rs_decoded (set_chunked r)) = - 1"
proof -
  have ne: "\<not> string_iequal_to ''Transfer-Encoding'' ''Content-Encoding''" "\<not> string_iequal_to ''Content-Encoding'' ''Content-Length''"
    by code_simp+
  have "string_iequal_to ''Transfer-Encoding'' ''Transfer-Encoding''" "string_iequal_to ''Content-Length'' ''Content-Length''" by (rule ikey.cmp_refl)+
  moreover have "ikey.keys_ok (hm_headers (rs_message (set_chunked r)))" using response_ok_chunked[OF assms] by (simp add: response_ok_def)
  moreover have "numerics_parse [] (- 1) = - 1" by code_simp
  ultimately show "rs_get_header ''Transfer-Encoding'' (set_chunked r) = ''chunked''"
    "rs_get_header ''Content-Encoding'' (set_chunked r) = rs_get_header ''Content-Encoding'' r"
    "get_content_length (rs_decoded (set_chunked r)) = - 1"
    using ne by (simp_all add: set_chunked_def rs_get_header_def rs_set_header_def hm_set_header_def ikey.get_lookup ikey.lookup_set
        get_content_length_def rs_decoded_def rs_remove_header_def ikey.lookup_remove ikey.remove_keys_ok)
qed

lemma chunked_received:
  assumes env: "client_env_ok env" and r: "response_ok r" "\<not> is_redirect (rs_status_code r)"
      "trim_spaces (rs_get_header ''Content-Encoding'' r) \<noteq> ''gzip''"
    and c: "link_up c" "hc_request c = Some ri" "ri_extractor ri = re_new n"
    and d: "d = rs_print (set_chunked r) @ body" "length d \<le> n" "body \<noteq> []" "list_all (\<lambda>d. d \<noteq> []) ds"
      "cf_process body cf_reset_state = Inr (map Filter_Process ds @ [Filter_Finish []], f)"
  shows "\<exists>c'. hc_received env d c = Inr c' \<and> \<not> hc_is_started c' \<and> hc_events c' = hc_events c @
    Http_Response (rs_decoded (set_chunked r)) (uri_original_string (ri_url ri)) # map Http_Data ds @ [Http_Complete (int (length (concat ds)))]"
proof -
  let ?r = "set_chunked r"
  let ?e = "(re_new n)\<lparr>re_response := ?r, re_header_finished := True\<rparr>"
  have ok: "response_ok ?r" by (rule response_ok_chunked[OF r(1)])
  have code: "\<not> is_redirect (rs_status_code ?r)" using r(2) by (simp add: set_chunked_def rs_set_header_def)
  have accept: "\<forall>es. he_accept env es" using env by (simp add: client_env_ok_def)
  have new: "(re_new n)\<lparr>re_buffer := []\<rparr> = re_new n" by (simp add: re_new_def)
  have feed: "re_feed (he_trim env) (he_split env) d (re_new n) = Inr (int (length (rs_print ?r)), ?e)"
    using boost_text.extract_header[OF _ ok, of "he_trim env" "he_split env" "[]" d body n] env d(1,2) new by (simp add: client_env_ok_def)
  have "trim_spaces ''chunked'' = ''chunked''" by code_simp
  then have filters: "init_filters ?r = \<lparr>fc_chunked = Some cf_reset_state, fc_gzip = None, fc_end = ef_new\<rparr>"
    using r(3) by (simp add: init_filters_def chunked_headers[OF r(1)])
  let ?c = "c\<lparr>hc_socket := (hc_socket c)\<lparr>ts_receiving := False\<rparr>\<rparr>" and ?ri = "ri\<lparr>ri_extractor := ?e\<rparr>"
  let ?url = "uri_original_string (ri_url ri)" and ?ef = "\<lparr>ef_content_length = - 1, ef_received_size = 0, ef_finished = False\<rparr>"
  let ?fc = "\<lparr>fc_chunked = Some cf_reset_state, fc_gzip = None, fc_end = ?ef\<rparr>"
  let ?ri1 = "?ri\<lparr>ri_response_header_received := True\<rparr>"
  let ?c1 = "?c\<lparr>hc_request := Some ?ri1, hc_events := hc_events c @ [Http_Response (rs_decoded ?r) ?url]\<rparr>"
  let ?ri2 = "?ri1\<lparr>ri_extractor := ?e\<lparr>re_response := rs_decoded ?r\<rparr>, ri_filters := ?fc\<rparr>"
  have raw: "process_raw_response env ?ri ?c = (True, ?ri2, ?c1)"
    using code accept by (simp add: process_raw_response_def Let_def filters filters_init_def next_init_def ef_init_def ef_new_def
      ef_check_finish_def hc_on_header_def hc_notify_def chunked_headers[OF r(1)])
  obtain fc' where pieces: "apply_events env (map Filter_Process ds @ [Filter_Finish []]) (?fc\<lparr>fc_chunked := Some f\<rparr>) ?c1 =
      (fc', ?c1\<lparr>hc_request := None, hc_events := hc_events ?c1 @ map Http_Data ds @ [Http_Complete (0 + int (length (concat ds)))]\<rparr>)"
    using apply_pieces[OF accept, of "?fc\<lparr>fc_chunked := Some f\<rparr>" 0 ?c1 ?ri1 ds] d(4) by (auto simp: chunked_end_def)
  let ?c2 = "?c1\<lparr>hc_request := None, hc_events := hc_events ?c1 @ map Http_Data ds @ [Http_Complete (0 + int (length (concat ds)))]\<rparr>"
  have body: "process_body_data env body ?ri2 ?c1 = Inr (True, ?ri2\<lparr>ri_filters := fc'\<rparr>, ?c2)"
    using d(5) pieces by (simp add: process_body_data_def filters_process_def)
  have "ri_process env d ri ?c = process_header_data env d ri ?c" using c(3) by (simp add: ri_process_def re_new_def)
  also have "\<dots> = process_body_data env body ?ri2 ?c1"
    unfolding process_header_data_def c(3) feed using d(1,3) by (simp add: raw Let_def hc_is_started_def)
  finally have proc: "ri_process env d ri ?c = Inr (True, ?ri2\<lparr>ri_filters := fc'\<rparr>, ?c2)" using body by simp
  show ?thesis
    unfolding received_piece[OF c(1)] on_socket_receive_def using proc c(1,2)
    by (auto simp: hc_is_started_def link_up_def check_receive_def Let_def)
qed

text \<open>
  C8. From the session of a server to the listener of a client: a session in chunked mode sends a header, pieces of data
  (none empty) and the end; the client, given all of what went into the socket in one piece, which fits its receive buffer and its
  header buffer of 64 KiB, tells its listener of the response, of the same
  pieces in order, and that the request is complete with their total length, and is idle then. (The status is no
  redirect, the content is not said to be compressed, and the queue of the socket has room.)
\<close>

theorem session_reaches_client:
  assumes "client_env_ok env"
    and "us_chunked s" "response_ok (us_response s)" "\<not> is_redirect (rs_status_code (us_response s))"
      "trim_spaces (rs_get_header ''Content-Encoding'' (us_response s)) \<noteq> ''gzip''"
    and "room (Suc (length ds)) (us_socket s)" "length (ts_sending_queue (us_socket s)) + Suc (length ds) < 2 ^ 30"
    and "\<forall>d \<in> set ds. d \<noteq> []"
    and "length (session_text (us_response s) ds) \<le> 64 * 1024"
      "length (session_text (us_response s) ds) \<le> ho_receive_buffer_size (hc_options c)"
    and "link_up c" "hc_request c = Some ri" "ri_extractor ri = re_new (64 * 1024)"
  shows "\<exists>s1 s2 s3 sent c'. us_send_header s = Inr (True, s1) \<and> us_send_all ds s1 = Inr (True, s2) \<and> us_finish s2 = Inr s3 \<and>
    ts_sending_queue (us_socket s3) = ts_sending_queue (us_socket s) @ sent \<and>
    hc_received env (bytes_text (concat sent)) c = Inr c' \<and> \<not> hc_is_started c' \<and> hc_events c' = hc_events c @
      Http_Response (rs_decoded (set_chunked (us_response s))) (uri_original_string (ri_url ri)) #
      map (\<lambda>d. Http_Data (bytes_text d)) ds @ [Http_Complete (int (length (concat ds)))]"
proof -
  have small: "length (session_text (us_response s) ds) < 2 ^ 31" "length (session_body ds) < 2 ^ 31"
    using assms(9) by (simp_all add: session_text_def)
  obtain s1 s2 s3 sent where sent: "us_send_header s = Inr (True, s1)" "us_send_all ds s1 = Inr (True, s2)" "us_finish s2 = Inr s3"
      "ts_sending_queue (us_socket s3) = ts_sending_queue (us_socket s) @ sent"
      "bytes_text (concat sent) = rs_print (set_chunked (us_response s)) @ session_body ds"
    using chunked_session_sends[OF assms(2,6,7) small(1)] by (auto simp: session_text_def)
  obtain f where "cf_process (session_body ds) cf_reset_state = Inr (map Filter_Process (map bytes_text ds) @ [Filter_Finish []], f)"
    using session_decoded[OF small(2) assms(8)] by blast
  moreover have "list_all (\<lambda>d. d \<noteq> []) (map bytes_text ds)" using assms(8) by (auto simp: list_all_iff bytes_text_def)
  moreover have "length (concat (map bytes_text ds)) = length (concat ds)" by (induction ds) (simp_all add: bytes_text_def)
  moreover have "length (bytes_text (concat sent)) \<le> 64 * 1024" using assms(9) unfolding sent(5) session_text_def by simp
  moreover have "session_body ds \<noteq> []" by (simp add: session_body_def crlf_def)
  ultimately show ?thesis
    using chunked_received[OF assms(1,3-5) assms(11-13) sent(5), of "map bytes_text ds" f] sent(1-4)
    by (intro exI[of _ s1] exI[of _ s2] exI[of _ s3] exI[of _ sent]) (auto simp: comp_def)
qed

theorem session_reaches_client_witness:
  "\<exists>s1 s2 s3 sent c'. us_send_header (us_set_chunked True (us_new (open_socket 3))) = Inr (True, s1) \<and>
     us_send_all [[1, 2], [3]] s1 = Inr (True, s2) \<and> us_finish s2 = Inr s3 \<and> ts_sending_queue (us_socket s3) = sent \<and>
     hc_received sample_client_env (bytes_text (concat sent)) sample_client = Inr c' \<and> \<not> hc_is_started c' \<and>
     (\<exists>r url. hc_events c' = hc_events sample_client @
        [Http_Response r url, Http_Data (bytes_text [1, 2]), Http_Data (bytes_text [3]), Http_Complete 3])"
proof -
  let ?s = "us_set_chunked True (us_new (open_socket 3))" and ?ds = "[[1, 2], [3]] :: bytes list"
  obtain ri where ri: "hc_request sample_client = Some ri" "ri_extractor ri = re_new (64 * 1024)"
    using sample_client_ready(2) by blast
  have "us_response ?s = rs_new"
    unfolding open_session by (simp add: us_new_def us_reset_def rs_new_def rs_clear_def hm_clear_def)
  moreover have "\<not> is_redirect (rs_status_code rs_new)" "trim_spaces (rs_get_header ''Content-Encoding'' rs_new) \<noteq> ''gzip''" by code_simp+
  ultimately have s: "us_chunked ?s" "response_ok (us_response ?s)" "\<not> is_redirect (rs_status_code (us_response ?s))"
      "trim_spaces (rs_get_header ''Content-Encoding'' (us_response ?s)) \<noteq> ''gzip''"
    using rs_new_ok by (simp_all add: open_session)
  have q: "room (Suc (length ?ds)) (us_socket ?s)" "length (ts_sending_queue (us_socket ?s)) + Suc (length ?ds) < 2 ^ 30"
      "\<forall>d \<in> set ?ds. d \<noteq> []"
    using open_socket_room[of 3] by (simp_all add: open_session numeral_3_eq_3)
  have "ho_receive_buffer_size (hc_options sample_client) = 60 * 1024"
    by (simp add: sample_client_def write_request_def hc_notify_def hc_new_def hc_init_client_def ho_new_def Let_def split: prod.split)
  then have l: "length (session_text (us_response ?s) ?ds) \<le> 64 * 1024"
      "length (session_text (us_response ?s) ?ds) \<le> ho_receive_buffer_size (hc_options sample_client)"
    unfolding open_session sample_session_text by simp_all
  have "ts_sending_queue (us_socket ?s) = []" using open_socket_room(2)[of 3] by (simp add: open_session)
  with session_reaches_client[OF sample_client_env_ok s q l sample_client_ready(1) ri] show ?thesis by fastforce
qed

end
