(* ===== verification/Variant.thy ===== *)
theory Variant
  imports Std_Maps Numerics
begin

text \<open>
  \<^verbatim>\<open>include/xul/data/variant.hpp\<close>, \<^verbatim>\<open>data/detail/variant_impl.hpp\<close> and the printing
  of \<^verbatim>\<open>libs/data_library_impl.hpp\<close>: dynamically typed values. A variant is the member its
  type selects, since the stale members cannot be read through the interface; an \<open>int64_t\<close> is an
  \<open>int\<close>, a \<open>double\<close> its 64 bit pattern, a pointer or an object the number that stands for it. A list is an
  \<open>array_list\<close>, a dictionary a \<open>tree_map\<close> with string keys, kept in key order. The length of a
  string is below \<open>2^31\<close>, so that its \<open>int\<close> does not wrap. An assertion does
  nothing in a release build, which is the reading here.
\<close>

subsection \<open>Values and types\<close>

datatype variant =
    Var_Null
  | Var_Bool bool
  | Var_Integer int
  | Var_Float u64
  | Var_String bytes
  | Var_Pointer nat
  | Var_Object nat
  | Var_List "variant list"
  | Var_Dict "(bytes \<times> variant) list"
  | Var_Tagged_Buffer bytes bytes

fun get_type :: "variant \<Rightarrow> nat" where
  "get_type Var_Null = 0"
| "get_type (Var_Bool _) = 1"
| "get_type (Var_Integer _) = 2"
| "get_type (Var_Float _) = 3"
| "get_type (Var_String _) = 4"
| "get_type (Var_Pointer _) = 5"
| "get_type (Var_Object _) = 6"
| "get_type (Var_List _) = 7"
| "get_type (Var_Dict _) = 8"
| "get_type (Var_Tagged_Buffer _ _) = 9"

definition create_variant :: variant where "create_variant = Var_Null"

definition is_null :: "variant \<Rightarrow> bool" where "is_null v = (get_type v = 0)"
definition is_bool :: "variant \<Rightarrow> bool" where "is_bool v = (get_type v = 1)"
definition is_integer :: "variant \<Rightarrow> bool" where "is_integer v = (get_type v = 2)"
definition is_float :: "variant \<Rightarrow> bool" where "is_float v = (get_type v = 3)"
definition is_string :: "variant \<Rightarrow> bool" where "is_string v = (get_type v = 4)"
definition is_pointer :: "variant \<Rightarrow> bool" where "is_pointer v = (get_type v = 5)"
definition is_object :: "variant \<Rightarrow> bool" where "is_object v = (get_type v = 6)"
definition is_list :: "variant \<Rightarrow> bool" where "is_list v = (get_type v = 7)"
definition is_dict :: "variant \<Rightarrow> bool" where "is_dict v = (get_type v = 8)"
definition is_tagged_buffer :: "variant \<Rightarrow> bool" where "is_tagged_buffer v = (get_type v = 9)"

lemmas variant_tests =
  is_null_def is_bool_def is_integer_def is_float_def is_string_def is_pointer_def is_object_def
  is_list_def is_dict_def is_tagged_buffer_def

subsection \<open>Getters\<close>

text \<open>The getter of a type gives the caller's default (or no pointer) for a value of another type.\<close>

definition get_bool :: "variant \<Rightarrow> bool \<Rightarrow> bool" where
  "get_bool v default_val = (case v of Var_Bool b \<Rightarrow> b | _ \<Rightarrow> default_val)"

definition try_get_bool :: "variant \<Rightarrow> bool option" where
  "try_get_bool v = (case v of Var_Bool b \<Rightarrow> Some b | _ \<Rightarrow> None)"

definition get_integer :: "variant \<Rightarrow> int \<Rightarrow> int" where
  "get_integer v default_val = (case v of Var_Integer i \<Rightarrow> i | _ \<Rightarrow> default_val)"

definition try_get_integer :: "variant \<Rightarrow> int option" where
  "try_get_integer v = (case v of Var_Integer i \<Rightarrow> Some i | _ \<Rightarrow> None)"

definition get_float :: "variant \<Rightarrow> u64 \<Rightarrow> u64" where
  "get_float v default_val = (case v of Var_Float x \<Rightarrow> x | _ \<Rightarrow> default_val)"

definition try_get_float :: "variant \<Rightarrow> u64 option" where
  "try_get_float v = (case v of Var_Float x \<Rightarrow> Some x | _ \<Rightarrow> None)"

text \<open>\<open>c_str()\<close> read as a C string ends at the first NUL.\<close>

definition c_bytes :: "bytes \<Rightarrow> bytes" where
  "c_bytes d = takeWhile (\<lambda>b. b \<noteq> 0) d"

definition get_string :: "variant \<Rightarrow> bytes \<Rightarrow> bytes" where
  "get_string v default_val = (case v of Var_String d \<Rightarrow> c_bytes d | _ \<Rightarrow> default_val)"

definition get_bytes :: "variant \<Rightarrow> (bytes \<times> int) option" where
  "get_bytes v = (case v of Var_String d \<Rightarrow> Some (d, int (length d)) | _ \<Rightarrow> None)"

definition get_pointer :: "variant \<Rightarrow> nat option" where
  "get_pointer v = (case v of Var_Pointer p \<Rightarrow> Some p | _ \<Rightarrow> None)"

definition get_object :: "variant \<Rightarrow> nat option" where
  "get_object v = (case v of Var_Object p \<Rightarrow> Some p | _ \<Rightarrow> None)"

definition get_list :: "variant \<Rightarrow> variant list option" where
  "get_list v = (case v of Var_List xs \<Rightarrow> Some xs | _ \<Rightarrow> None)"

definition get_dict :: "variant \<Rightarrow> (bytes \<times> variant) list option" where
  "get_dict v = (case v of Var_Dict es \<Rightarrow> Some es | _ \<Rightarrow> None)"

definition get_tagged_buffer :: "variant \<Rightarrow> (bytes \<times> bytes) option" where
  "get_tagged_buffer v = (case v of Var_Tagged_Buffer t d \<Rightarrow> Some (t, d) | _ \<Rightarrow> None)"

lemmas variant_getters =
  get_bool_def try_get_bool_def get_integer_def try_get_integer_def get_float_def try_get_float_def
  get_string_def get_bytes_def get_pointer_def get_object_def get_list_def get_dict_def
  get_tagged_buffer_def

subsection \<open>Setters\<close>

text \<open>
  The values a setter takes. The overloads of \<open>set_variant_value\<close> convert every integer type to
  \<open>int64_t\<close>: an unsigned 64 bit one is read in two's complement.
\<close>

datatype variant_source =
    Src_Bool bool | Src_C_String bytes | Src_String bytes | Src_Int int | Src_Unsigned_Long u64 | Src_Double u64

fun set_variant_value :: "variant_source \<Rightarrow> variant \<Rightarrow> variant" where
  "set_variant_value (Src_Bool b) v = Var_Bool b"
| "set_variant_value (Src_C_String s) v = Var_String (c_bytes s)"
| "set_variant_value (Src_String s) v = Var_String s"
| "set_variant_value (Src_Int i) v = Var_Integer i"
| "set_variant_value (Src_Unsigned_Long w) v = Var_Integer (sint w)"
| "set_variant_value (Src_Double x) v = Var_Float x"

definition set_list :: "variant \<Rightarrow> variant" where "set_list v = Var_List []"
definition set_dict :: "variant \<Rightarrow> variant" where "set_dict v = Var_Dict []"

text \<open>\<open>add\<close> and \<open>set\<close> on the list and the dictionary of a variant.\<close>

definition list_add :: "variant \<Rightarrow> variant list \<Rightarrow> variant list" where
  "list_add x items = items @ [x]"

definition dict_set :: "bytes \<Rightarrow> variant \<Rightarrow> (bytes \<times> variant) list \<Rightarrow> (bytes \<times> variant) list" where
  "dict_set key x items = tm_set (c_bytes key) x items"

subsection \<open>Printing\<close>

text \<open>
  The stream operators. The parameter \<open>fixed\<close> is the text the C++ library gives a \<open>double\<close> in
  fixed notation.
\<close>

abbreviation ascii :: "string \<Rightarrow> bytes" where
  "ascii s \<equiv> map byte_of s"

fun show_variant :: "(u64 \<Rightarrow> bytes) \<Rightarrow> variant \<Rightarrow> bytes"
  and show_list :: "(u64 \<Rightarrow> bytes) \<Rightarrow> variant list \<Rightarrow> bytes"
  and show_entries :: "(u64 \<Rightarrow> bytes) \<Rightarrow> (bytes \<times> variant) list \<Rightarrow> bytes" where
  "show_variant fixed Var_Null = ascii ''var:null''"
| "show_variant fixed (Var_Bool b) = ascii ''var:'' @ ascii (if b then ''true'' else ''false'')"
| "show_variant fixed (Var_Integer i) = ascii ''var:'' @ ascii (numerics_format i)"
| "show_variant fixed (Var_Float x) = ascii ''var:float:'' @ fixed x"
| "show_variant fixed (Var_String s) = ascii ''var:'' @ [34] @ s @ [34]"
| "show_variant fixed (Var_Pointer p) = ascii ''var:unknown:5''"
| "show_variant fixed (Var_Object p) = ascii ''var:unknown:6''"
| "show_variant fixed (Var_List xs) = ascii ''['' @ show_list fixed xs @ ascii '']''"
| "show_variant fixed (Var_Dict es) = [123] @ show_entries fixed es @ [125]"
| "show_variant fixed (Var_Tagged_Buffer t d) =
     ascii ''var:tagged_buffer:'' @ t @ ascii '':'' @ ascii (numerics_format (int (length d)))"
| "show_list fixed [] = []"
| "show_list fixed (x # xs) = show_variant fixed x @ ascii '', '' @ show_list fixed xs"
| "show_entries fixed [] = []"
| "show_entries fixed ((k, x) # es) =
     [34] @ k @ [34] @ ascii '': '' @ show_variant fixed x @ ascii '', '' @ show_entries fixed es"

subsection \<open>Theorems\<close>

text \<open>
  A variant has one type: a getter gives something other than the caller's default exactly when
  the test of its type holds, and a value that was set is read back by the getter of its type and
  by no other. A C string loses what follows a NUL and an unsigned 64 bit integer comes back as
  the signed one with the same bits.
\<close>

theorem variant_typed:
  "(try_get_bool v \<noteq> None) = is_bool v \<and> (try_get_integer v \<noteq> None) = is_integer v
   \<and> (try_get_float v \<noteq> None) = is_float v \<and> (get_bytes v \<noteq> None) = is_string v
   \<and> (get_pointer v \<noteq> None) = is_pointer v \<and> (get_object v \<noteq> None) = is_object v
   \<and> (get_list v \<noteq> None) = is_list v \<and> (get_dict v \<noteq> None) = is_dict v
   \<and> (get_tagged_buffer v \<noteq> None) = is_tagged_buffer v \<and> get_type v \<le> 9
   \<and> get_bool v b = (case try_get_bool v of None \<Rightarrow> b | Some x \<Rightarrow> x)
   \<and> get_integer v i = (case try_get_integer v of None \<Rightarrow> i | Some x \<Rightarrow> x)
   \<and> get_float v f = (case try_get_float v of None \<Rightarrow> f | Some x \<Rightarrow> x)
   \<and> get_integer (set_variant_value (Src_Unsigned_Long w) v) i = sint w
   \<and> get_bytes (set_variant_value (Src_String d) v) = Some (d, int (length d))
   \<and> get_string (set_variant_value (Src_String d) v) t = c_bytes d
   \<and> get_bytes (set_variant_value (Src_C_String d) v) = Some (c_bytes d, int (length (c_bytes d)))
   \<and> get_integer (set_variant_value (Src_Double x) v) i = i
   \<and> get_float (set_variant_value (Src_Int j) v) f = f"
  by (cases v) (simp_all add: variant_tests variant_getters)

end
