(* ===== verification/Amf.thy ===== *)
theory Amf
  imports Data_Streams Variant
begin

text \<open>
  \<^verbatim>\<open>include/xul/io/amf_types.hpp\<close>, \<^verbatim>\<open>amf_writer.hpp\<close> and \<^verbatim>\<open>amf_reader.hpp\<close>: the
  action message format (version 0). The writer's operations run over the \<open>write_bytes\<close> of an output
  stream, the reader makes variants out of a data input stream.
\<close>

subsection \<open>Tags\<close>

definition amf0_number :: u8 where "amf0_number = 0x00"
definition amf0_boolean :: u8 where "amf0_boolean = 0x01"
definition amf0_string :: u8 where "amf0_string = 0x02"
definition amf0_object :: u8 where "amf0_object = 0x03"
definition amf0_null :: u8 where "amf0_null = 0x05"
definition amf0_undefined :: u8 where "amf0_undefined = 0x06"
definition amf0_end_of_object :: u8 where "amf0_end_of_object = 0x09"
definition amf0_array :: u8 where "amf0_array = 0x0a"

lemmas amf_tags [simp] =
  amf0_number_def amf0_boolean_def amf0_string_def amf0_object_def amf0_null_def amf0_undefined_def
  amf0_end_of_object_def amf0_array_def

subsection \<open>Integers as doubles\<close>

text \<open>
  The conversion of an \<open>int64_t\<close> to a \<open>double\<close>: sign, exponent and 52 bits of the mantissa, to the
  nearest value and to the even one on a tie. A mantissa that rounds up to \<open>2^53\<close> carries into the
  exponent.
\<close>

fun log2n :: "nat \<Rightarrow> nat" where
  "log2n n = (if n < 2 then 0 else Suc (log2n (n div 2)))"

declare log2n.simps [simp del]

definition round_half_even :: "nat \<Rightarrow> nat \<Rightarrow> nat" where
  "round_half_even n k =
     (let q = n div 2 ^ k; r = 2 * (n mod 2 ^ k)
      in if r > 2 ^ k \<or> (r = 2 ^ k \<and> odd q) then q + 1 else q)"

definition double_of_nat :: "nat \<Rightarrow> nat" where
  "double_of_nat n =
     (if n = 0 then 0
      else let e = log2n n;
               m = (if e \<le> 52 then n * 2 ^ (52 - e) else round_half_even n (e - 52))
           in (e + 1023) * 2 ^ 52 + (m - 2 ^ 52))"

definition double_of_int :: "int \<Rightarrow> u64" where
  "double_of_int i = of_nat ((if i < 0 then 2 ^ 63 else 0) + double_of_nat (nat \<bar>i\<bar>))"

subsection \<open>Writer\<close>

text \<open>A length is written as \<open>uint16_t\<close>: of a longer string only the low 16 bits of its length.\<close>

definition amf_write_null :: "(bytes \<Rightarrow> 's \<Rightarrow> fault + 's) \<Rightarrow> 's \<Rightarrow> fault + 's" where
  "amf_write_null put s = write_byte put amf0_null s"

definition amf_write_undefined :: "(bytes \<Rightarrow> 's \<Rightarrow> fault + 's) \<Rightarrow> 's \<Rightarrow> fault + 's" where
  "amf_write_undefined put s = write_byte put amf0_undefined s"

definition amf_write_bool :: "(bytes \<Rightarrow> 's \<Rightarrow> fault + 's) \<Rightarrow> bool \<Rightarrow> 's \<Rightarrow> fault + 's" where
  "amf_write_bool put val s =
     sbind (write_byte put amf0_boolean s) (write_byte put (if val then 1 else 0))"

definition amf_write_number ::
    "bool \<Rightarrow> bool \<Rightarrow> (bytes \<Rightarrow> 's \<Rightarrow> fault + 's) \<Rightarrow> u64 \<Rightarrow> 's \<Rightarrow> fault + 's" where
  "amf_write_number host big put val s =
     sbind (write_byte put amf0_number s) (write_double host big put val)"

definition amf_start_bytes ::
    "bool \<Rightarrow> bool \<Rightarrow> (bytes \<Rightarrow> 's \<Rightarrow> fault + 's) \<Rightarrow> nat \<Rightarrow> 's \<Rightarrow> fault + 's" where
  "amf_start_bytes host big put n s =
     sbind (write_byte put amf0_string s) (write_uint16 host big put (of_nat n))"

definition amf_append_bytes :: "(bytes \<Rightarrow> 's \<Rightarrow> fault + 's) \<Rightarrow> bytes \<Rightarrow> 's \<Rightarrow> fault + 's" where
  "amf_append_bytes put d s = put d s"

definition amf_write_string ::
    "bool \<Rightarrow> bool \<Rightarrow> (bytes \<Rightarrow> 's \<Rightarrow> fault + 's) \<Rightarrow> bytes \<Rightarrow> 's \<Rightarrow> fault + 's" where
  "amf_write_string host big put d s =
     sbind (amf_start_bytes host big put (length d) s) (amf_append_bytes put d)"

definition amf_write_key ::
    "bool \<Rightarrow> bool \<Rightarrow> (bytes \<Rightarrow> 's \<Rightarrow> fault + 's) \<Rightarrow> bytes \<Rightarrow> 's \<Rightarrow> fault + 's" where
  "amf_write_key host big put k s =
     sbind (write_uint16 host big put (of_nat (length k)) s) (write_string put k)"

definition amf_start_scalar ::
    "bool \<Rightarrow> bool \<Rightarrow> (bytes \<Rightarrow> 's \<Rightarrow> fault + 's) \<Rightarrow> bytes \<Rightarrow> 's \<Rightarrow> fault + 's" where
  "amf_start_scalar host big put name s = amf_write_key host big put (c_bytes name) s"

definition amf_write_null_element ::
    "bool \<Rightarrow> bool \<Rightarrow> (bytes \<Rightarrow> 's \<Rightarrow> fault + 's) \<Rightarrow> bytes \<Rightarrow> 's \<Rightarrow> fault + 's" where
  "amf_write_null_element host big put k s = sbind (amf_write_key host big put k s) (amf_write_null put)"

definition amf_write_undefined_element ::
    "bool \<Rightarrow> bool \<Rightarrow> (bytes \<Rightarrow> 's \<Rightarrow> fault + 's) \<Rightarrow> bytes \<Rightarrow> 's \<Rightarrow> fault + 's" where
  "amf_write_undefined_element host big put k s =
     sbind (amf_write_key host big put k s) (amf_write_undefined put)"

definition amf_write_string_element ::
    "bool \<Rightarrow> bool \<Rightarrow> (bytes \<Rightarrow> 's \<Rightarrow> fault + 's) \<Rightarrow> bytes \<Rightarrow> bytes \<Rightarrow> 's \<Rightarrow> fault + 's" where
  "amf_write_string_element host big put k val s =
     sbind (amf_write_key host big put k s) (amf_write_string host big put val)"

definition amf_write_number_element ::
    "bool \<Rightarrow> bool \<Rightarrow> (bytes \<Rightarrow> 's \<Rightarrow> fault + 's) \<Rightarrow> bytes \<Rightarrow> int \<Rightarrow> 's \<Rightarrow> fault + 's" where
  "amf_write_number_element host big put k val s =
     sbind (amf_write_key host big put k s) (amf_write_number host big put (double_of_int val))"

definition amf_write_bool_element ::
    "bool \<Rightarrow> bool \<Rightarrow> (bytes \<Rightarrow> 's \<Rightarrow> fault + 's) \<Rightarrow> bytes \<Rightarrow> bool \<Rightarrow> 's \<Rightarrow> fault + 's" where
  "amf_write_bool_element host big put k val s =
     sbind (amf_write_key host big put k s) (amf_write_bool put val)"

definition amf_start_list :: "(bytes \<Rightarrow> 's \<Rightarrow> fault + 's) \<Rightarrow> 's \<Rightarrow> fault + 's" where
  "amf_start_list put s = write_byte put amf0_array s"

definition amf_end_list :: "'s \<Rightarrow> fault + 's" where
  "amf_end_list s = Inr s"

definition amf_start_dict :: "(bytes \<Rightarrow> 's \<Rightarrow> fault + 's) \<Rightarrow> 's \<Rightarrow> fault + 's" where
  "amf_start_dict put s = write_byte put amf0_object s"

definition amf_end_dict :: "(bytes \<Rightarrow> 's \<Rightarrow> fault + 's) \<Rightarrow> 's \<Rightarrow> fault + 's" where
  "amf_end_dict put s =
     sbind (sbind (write_byte put 0 s) (write_byte put 0)) (write_byte put amf0_end_of_object)"

text \<open>The entries a client can write into a dictionary.\<close>

datatype amf_scalar =
  Amf_Null | Amf_Undefined | Amf_Bool bool | Amf_Number int | Amf_String bytes

fun amf_write_element ::
    "bool \<Rightarrow> bool \<Rightarrow> (bytes \<Rightarrow> 's \<Rightarrow> fault + 's) \<Rightarrow> bytes \<times> amf_scalar \<Rightarrow> 's \<Rightarrow> fault + 's" where
  "amf_write_element host big put (k, Amf_Null) s = amf_write_null_element host big put k s"
| "amf_write_element host big put (k, Amf_Undefined) s = amf_write_undefined_element host big put k s"
| "amf_write_element host big put (k, Amf_Bool b) s = amf_write_bool_element host big put k b s"
| "amf_write_element host big put (k, Amf_Number i) s = amf_write_number_element host big put k i s"
| "amf_write_element host big put (k, Amf_String d) s = amf_write_string_element host big put k d s"

fun amf_write_elements ::
    "bool \<Rightarrow> bool \<Rightarrow> (bytes \<Rightarrow> 's \<Rightarrow> fault + 's) \<Rightarrow> (bytes \<times> amf_scalar) list \<Rightarrow> 's \<Rightarrow> fault + 's" where
  "amf_write_elements host big put [] s = Inr s"
| "amf_write_elements host big put (e # es) s =
     sbind (amf_write_element host big put e s) (amf_write_elements host big put es)"

definition amf_write_dict ::
    "bool \<Rightarrow> bool \<Rightarrow> (bytes \<Rightarrow> 's \<Rightarrow> fault + 's) \<Rightarrow> (bytes \<times> amf_scalar) list \<Rightarrow> 's \<Rightarrow> fault + 's" where
  "amf_write_dict host big put es s =
     sbind (sbind (amf_start_dict put s) (amf_write_elements host big put es)) (amf_end_dict put)"

subsection \<open>Reader\<close>

text \<open>The value is the result of the overload of \<open>read_byte\<close> with a reference, whether a byte was read.\<close>

definition amf_read_bool :: "data_in \<Rightarrow> variant option \<times> data_in" where
  "amf_read_bool s = (let (r, s) = din_read_byte s in (Some (Var_Bool (r \<noteq> None)), s))"

definition amf_read_number :: "bool \<Rightarrow> data_in \<Rightarrow> fault + variant option \<times> data_in" where
  "amf_read_number host s =
     sbind (read_double host s) (\<lambda>(r, s). Inr (map_option Var_Float r, s))"

definition amf_try_read_string :: "bool \<Rightarrow> data_in \<Rightarrow> fault + bytes option \<times> data_in" where
  "amf_try_read_string host s =
     sbind (read_uint16 host s) (\<lambda>(len, s). case len of
       None \<Rightarrow> Inr (None, s)
     | Some len \<Rightarrow> din_read_n (unat len) s)"

definition amf_read_string :: "bool \<Rightarrow> data_in \<Rightarrow> fault + variant option \<times> data_in" where
  "amf_read_string host s =
     sbind (amf_try_read_string host s) (\<lambda>(r, s). Inr (map_option Var_String r, s))"

text \<open>
  \<open>None\<close> is the result \<open>false\<close> of \<open>read_item\<close> and the null pointer of \<open>read\<close>: the variant is not
  seen by the caller then.
\<close>

fun amf_read_item :: "bool \<Rightarrow> nat \<Rightarrow> u8 \<Rightarrow> data_in \<Rightarrow> fault + variant option \<times> data_in"
  and amf_read_list :: "bool \<Rightarrow> nat \<Rightarrow> variant list \<Rightarrow> data_in \<Rightarrow> fault + variant option \<times> data_in"
  and amf_read_dict :: "bool \<Rightarrow> nat \<Rightarrow> (bytes \<times> variant) list \<Rightarrow> data_in \<Rightarrow> fault + variant option \<times> data_in"
where
  "amf_read_item host 0 tag s = Inl Out_Of_Fuel"
| "amf_read_item host (Suc fuel) tag s =
     (if tag = amf0_null \<or> tag = amf0_undefined then Inr (Some Var_Null, s)
      else if tag = amf0_boolean then Inr (amf_read_bool s)
      else if tag = amf0_number then amf_read_number host s
      else if tag = amf0_string then amf_read_string host s
      else if tag = amf0_array then amf_read_list host fuel [] s
      else if tag = amf0_object then amf_read_dict host fuel [] s
      else Inr (None, s))"
| "amf_read_list host 0 items s = Inl Out_Of_Fuel"
| "amf_read_list host (Suc fuel) items s =
     (if \<not> din_is_available 1 s then Inr (None, s)
      else let (ch, s) = din_read_byte_int s
           in sbind (amf_read_item host fuel (word_of_int ch) s) (\<lambda>(x, s).
                amf_read_list host fuel (case x of None \<Rightarrow> items | Some x \<Rightarrow> list_add x items) s))"
| "amf_read_dict host 0 items s = Inl Out_Of_Fuel"
| "amf_read_dict host (Suc fuel) items s =
     (if \<not> din_is_available 1 s then Inr (Some (Var_Dict items), s)
      else sbind (amf_try_read_string host s) (\<lambda>(key, s). case key of
        None \<Rightarrow> Inr (Some (Var_Dict items), s)
      | Some key \<Rightarrow>
          if \<not> din_is_available 1 s then amf_read_dict host fuel items s
          else let (ch, s) = din_read_byte_int s
               in sbind (amf_read_item host fuel (word_of_int ch) s) (\<lambda>(x, s).
                    amf_read_dict host fuel (case x of None \<Rightarrow> items | Some x \<Rightarrow> dict_set key x items) s)))"

text \<open>\<open>read()\<close>: the fuel allows two calls for every byte that is left.\<close>

definition amf_read :: "bool \<Rightarrow> data_in \<Rightarrow> fault + variant option \<times> data_in" where
  "amf_read host s =
     (if \<not> din_is_available 1 s then Inr (None, s)
      else let (ch, s') = din_read_byte_int s
           in amf_read_item host (2 * length (din_rest s) + 2) (word_of_int ch) s')"

fun amf_read_many_from :: "bool \<Rightarrow> nat \<Rightarrow> variant list \<Rightarrow> data_in \<Rightarrow> fault + variant list \<times> data_in" where
  "amf_read_many_from host 0 vars s = Inl Out_Of_Fuel"
| "amf_read_many_from host (Suc fuel) vars s =
     sbind (amf_read host s) (\<lambda>(x, s). case x of
       None \<Rightarrow> Inr (vars, s)
     | Some x \<Rightarrow> amf_read_many_from host fuel (list_add x vars) s)"

definition amf_read_many :: "bool \<Rightarrow> data_in \<Rightarrow> fault + variant list \<times> data_in" where
  "amf_read_many host s = amf_read_many_from host (Suc (length (din_rest s))) [] s"

subsection \<open>Termination of the reader\<close>

definition din_behind :: "data_in \<Rightarrow> data_in \<Rightarrow> bool" where
  "din_behind s' s = (data_in_ok s' \<and> length (din_rest s') \<le> length (din_rest s))"

lemma din_behind_refl: "data_in_ok s \<Longrightarrow> din_behind s s"
  by (simp add: din_behind_def)

lemma din_behind_trans: "din_behind t s' \<Longrightarrow> din_behind s' s \<Longrightarrow> din_behind t s"
  by (simp add: din_behind_def)

lemma din_available_1: "data_in_ok s \<Longrightarrow> din_is_available 1 s \<longleftrightarrow> din_good s \<and> din_rest s \<noteq> []"
  using is_available_size[of "din_in s" 1]
  by (auto simp: din_is_available_def data_in_ok_def din_rest_def int64_of_size_small Suc_le_eq)

lemma din_read_byte_int_Cons:
  "data_in_ok s \<Longrightarrow> din_good s \<Longrightarrow> din_rest s = b # r \<Longrightarrow> din_read_byte_int s = (uint b, din_advance 1 s)"
  by (simp add: din_read_byte_int_def data_in_ok_def din_rest_def in_read_byte_Cons din_advance_def)

lemma din_next_byte:
  assumes "data_in_ok s" and "din_is_available 1 s"
  obtains b s' where "din_read_byte_int s = (uint (b :: u8), s')" "data_in_ok s'"
    "length (din_rest s) = Suc (length (din_rest s'))"
proof -
  obtain b r where "din_good s" "din_rest s = b # r"
    using assms din_available_1[OF assms(1)] by (cases "din_rest s") auto
  then show ?thesis
    using that[of b "din_advance 1 s"] assms(1) din_advance_ok[of s 1] din_rest_advance[of s 1]
    by (simp add: din_read_byte_int_Cons)
qed

lemma data_in_ok_bad [simp]:
  "data_in_ok (s\<lparr>din_good := g, din_bit_offset := k\<rparr>) = data_in_ok s"
  "data_in_ok (s\<lparr>din_bit_offset := k, din_good := g\<rparr>) = data_in_ok s"
  "din_rest (s\<lparr>din_good := g, din_bit_offset := k\<rparr>) = din_rest s"
  "din_rest (s\<lparr>din_bit_offset := k, din_good := g\<rparr>) = din_rest s"
  by (simp_all add: data_in_ok_def din_rest_def)

lemma din_read_n_total:
  assumes "data_in_ok s" and "n < 2 ^ 63"
  obtains r s' where "din_read_n n s = Inr (r, s')" "din_behind s' s"
    "r \<noteq> None \<Longrightarrow> n + length (din_rest s') \<le> length (din_rest s)"
proof (cases "din_good s \<and> 0 < n \<and> n \<le> length (din_rest s)")
  case True
  then show ?thesis using that[of "Some (take n (din_rest s))" "din_advance n s"] assms
    by (simp add: din_read_n_enough din_behind_def din_advance_ok din_rest_advance)
next
  case False
  consider "\<not> din_good s" | "n = 0" "din_good s" | "din_good s" "length (din_rest s) < n"
    using False by fastforce
  then show ?thesis
  proof cases
    case 1
    then show ?thesis using that[of None s] assms by (simp add: din_read_n_bad din_behind_refl)
  next
    case 2
    then show ?thesis using that[of "Some []" s] assms by (simp add: din_read_n_def din_behind_refl)
  next
    case 3
    then show ?thesis using that[of None "s\<lparr>din_good := False, din_bit_offset := 0\<rparr>"] assms
      by (simp add: din_read_n_short din_behind_def)
  qed
qed

lemma amf_try_read_string_total:
  assumes "data_in_ok s"
  obtains r s' where "amf_try_read_string host s = Inr (r, s')" "din_behind s' s"
    "r \<noteq> None \<Longrightarrow> length (din_rest s') + 2 \<le> length (din_rest s)"
proof -
  obtain r s1 where r: "din_read_n 2 s = Inr (r, s1)" "din_behind s1 s"
    "r \<noteq> None \<Longrightarrow> 2 + length (din_rest s1) \<le> length (din_rest s)"
    using din_read_n_total[OF assms, of 2] by auto
  have ok: "data_in_ok s1" using r(2) by (simp add: din_behind_def)
  show ?thesis
  proof (cases r)
    case None
    then show ?thesis using r that[of None s1] by (simp add: amf_try_read_string_def read_uint16_def)
  next
    case (Some d)
    define len where "len = convert_word host (din_big_endian s1) (to_word host d)"
    have "unat len < 2 ^ 63" by (rule order_less_trans[OF unsigned_less]) simp
    then obtain q s2 where q: "din_read_n (unat len) s1 = Inr (q, s2)" "din_behind s2 s1"
      using din_read_n_total[OF ok] by metis
    show ?thesis
      using that[of q s2] r q Some din_behind_trans[OF q(2) r(2)]
      by (simp add: amf_try_read_string_def read_uint16_def len_def din_behind_def)
  qed
qed

definition amf_result_ok :: "data_in \<Rightarrow> fault + variant option \<times> data_in \<Rightarrow> bool" where
  "amf_result_ok s r = (\<exists>x s'. r = Inr (x, s') \<and> din_behind s' s)"

lemma amf_result_ok_behind: "amf_result_ok s' r \<Longrightarrow> din_behind s' s \<Longrightarrow> amf_result_ok s r"
  using din_behind_trans by (fastforce simp: amf_result_ok_def)

lemma amf_scalars_total:
  assumes "data_in_ok s"
  shows "amf_result_ok s (Inr (amf_read_bool s))" and "amf_result_ok s (amf_read_number host s)"
    and "amf_result_ok s (amf_read_string host s)"
proof -
  obtain b r where "din_rest s = [] \<or> din_rest s = b # r" by (cases "din_rest s") auto
  then show "amf_result_ok s (Inr (amf_read_bool s))"
    using assms din_behind_refl[OF assms]
    by (cases "din_good s") (auto simp: amf_read_bool_def amf_result_ok_def din_read_byte_Nil din_read_byte_bad
      din_read_byte_Cons din_behind_def din_advance_ok din_rest_advance)
  obtain d s1 where "din_read_n 8 s = Inr (d, s1)" "din_behind s1 s"
    by (rule din_read_n_total[OF assms, of 8]) auto
  then show "amf_result_ok s (amf_read_number host s)"
    by (simp add: amf_read_number_def amf_result_ok_def read_double_def)
  obtain d s1 where "amf_try_read_string host s = Inr (d, s1)" "din_behind s1 s"
    by (rule amf_try_read_string_total[OF assms])
  then show "amf_result_ok s (amf_read_string host s)"
    by (simp add: amf_read_string_def amf_result_ok_def)
qed

lemma amf_reader_total:
  "data_in_ok s \<Longrightarrow> 2 * length (din_rest s) + 2 \<le> fuel \<Longrightarrow> amf_result_ok s (amf_read_item host fuel tag s)"
  "data_in_ok s \<Longrightarrow> 2 * length (din_rest s) + 1 \<le> fuel \<Longrightarrow> amf_result_ok s (amf_read_list host fuel items s)"
  "data_in_ok s \<Longrightarrow> 2 * length (din_rest s) + 1 \<le> fuel \<Longrightarrow> amf_result_ok s (amf_read_dict host fuel entries s)"
proof (induction fuel arbitrary: s tag items entries)
  case 0
  {
    case 1 then show ?case by simp
  next
    case 2 then show ?case by simp
  next
    case 3 then show ?case by simp
  }
next
  case (Suc fuel)
  have next_item: "amf_result_ok s (sbind (amf_read_item host fuel tag s1) (\<lambda>(x, s). f x s))"
    if behind: "din_behind s1 s" and enough: "2 * length (din_rest s1) + 2 \<le> fuel"
      and rest: "\<And>x s2. din_behind s2 s1 \<Longrightarrow> amf_result_ok s2 (f x s2)" for s s1 tag f
  proof -
    have "data_in_ok s1" using behind by (simp add: din_behind_def)
    then obtain x s2 where x: "amf_read_item host fuel tag s1 = Inr (x, s2)" "din_behind s2 s1"
      using Suc.IH(1)[of s1 tag] enough by (auto simp: amf_result_ok_def)
    then show ?thesis
      using amf_result_ok_behind[OF rest[OF x(2)]] din_behind_trans[OF x(2) behind] x(1) by simp
  qed
  {
    case 1
    then show ?case
      using Suc.IH(2)[of s "[]"] Suc.IH(3)[of s "[]"] amf_scalars_total[OF 1(1)] din_behind_refl[OF 1(1)]
      by (auto simp: amf_result_ok_def)
  next
    case 2
    show ?case
    proof (cases "din_is_available 1 s")
      case True
      obtain b :: u8 and s1 where b: "din_read_byte_int s = (uint b, s1)" "data_in_ok s1"
        "length (din_rest s) = Suc (length (din_rest s1))" by (rule din_next_byte[OF 2(1) True])
      show ?thesis using True b 2 by (auto simp: din_behind_def intro!: next_item Suc.IH(2))
    qed (use 2 din_behind_refl in \<open>simp add: amf_result_ok_def\<close>)
  next
    case 3
    obtain r s1 where r: "amf_try_read_string host s = Inr (r, s1)" "din_behind s1 s"
      "r \<noteq> None \<Longrightarrow> length (din_rest s1) + 2 \<le> length (din_rest s)"
      using amf_try_read_string_total[OF 3(1)] by blast
    have ok1: "data_in_ok s1" using r(2) by (simp add: din_behind_def)
    show ?case
    proof (cases "din_is_available 1 s \<and> r \<noteq> None")
      case False
      then show ?thesis using r din_behind_refl[OF 3(1)] by (auto simp: amf_result_ok_def)
    next
      case True
      then obtain key where key: "r = Some key" by auto
      have len: "length (din_rest s1) + 2 \<le> length (din_rest s)" using r(3) key by simp
      show ?thesis
      proof (cases "din_is_available 1 s1")
        case False
        then show ?thesis
          using True key r len 3(2) Suc.IH(3)[OF ok1, of entries] amf_result_ok_behind[OF _ r(2)] by simp
      next
        case True': True
        obtain b :: u8 and s2 where b: "din_read_byte_int s1 = (uint b, s2)" "data_in_ok s2"
          "length (din_rest s1) = Suc (length (din_rest s2))" by (rule din_next_byte[OF ok1 True'])
        show ?thesis using True True' key r(1) b len 3(2)
          by (auto simp: din_behind_def intro!: next_item Suc.IH(3))
      qed
    qed
  }
qed

text \<open>
  Reading an AMF value from any data input stream ends without a fault: it gives a variant or
  nothing and never more bytes are left than before. Reading many values ends too.
\<close>

theorem amf_read_total:
  assumes "data_in_ok s"
  shows "(\<exists>x s'. amf_read host s = Inr (x, s') \<and> data_in_ok s' \<and> length (din_rest s') \<le> length (din_rest s))
    \<and> (\<exists>vars s'. amf_read_many host s = Inr (vars, s') \<and> length vars \<le> length (din_rest s))"
proof -
  have one: "\<exists>x s'. amf_read host s = Inr (x, s') \<and> data_in_ok s' \<and> length (din_rest s') \<le> length (din_rest s)
      \<and> (x \<noteq> None \<longrightarrow> length (din_rest s') < length (din_rest s))" if ok: "data_in_ok s" for s
  proof (cases "din_is_available 1 s")
    case True
    obtain b :: u8 and s1 where b: "din_read_byte_int s = (uint b, s1)" "data_in_ok s1"
      "length (din_rest s) = Suc (length (din_rest s1))" by (rule din_next_byte[OF ok True])
    then show ?thesis using True amf_reader_total(1)[OF b(2), of "2 * length (din_rest s) + 2" host b]
      by (auto simp: amf_read_def amf_result_ok_def din_behind_def)
  qed (use ok in \<open>simp add: amf_read_def\<close>)
  have many: "\<exists>vars s'. amf_read_many_from host fuel vs s = Inr (vars, s') \<and> length vars \<le> length vs + length (din_rest s)"
    if "data_in_ok s" "length (din_rest s) < fuel" for fuel vs s
    using that
  proof (induction fuel arbitrary: s vs)
    case (Suc fuel)
    obtain x s' where x: "amf_read host s = Inr (x, s')" "data_in_ok s'"
      "x \<noteq> None \<longrightarrow> length (din_rest s') < length (din_rest s)" using one[OF Suc.prems(1)] by blast
    show ?case
    proof (cases x)
      case (Some v)
      then show ?thesis using x Suc.IH[OF x(2), of "list_add v vs"] Suc.prems(2)
        by (fastforce simp: list_add_def)
    qed (use x in simp)
  qed simp
  show ?thesis using one[OF assms] many[OF assms, of _ "[]"] by (fastforce simp: amf_read_many_def)
qed

theorem amf_read_total_witness:
  "\<exists>x s'. amf_read False (memory_data_input_stream [0x0a, 0x03, 0, 1] True) = Inr (x, s') \<and> data_in_ok s'"
  using amf_read_total[of "memory_data_input_stream [0x0a, 0x03, 0, 1] True" False] memory_data_input_stream_ok by auto

subsection \<open>What the writer wrote\<close>

fun amf_value_bytes :: "bool \<Rightarrow> amf_scalar \<Rightarrow> bytes" where
  "amf_value_bytes big Amf_Null = [amf0_null]"
| "amf_value_bytes big Amf_Undefined = [amf0_undefined]"
| "amf_value_bytes big (Amf_Bool b) = [amf0_boolean, if b then 1 else 0]"
| "amf_value_bytes big (Amf_Number i) = amf0_number # from_qword big (double_of_int i)"
| "amf_value_bytes big (Amf_String d) = amf0_string # from_word big (of_nat (length d)) @ d"

definition amf_key_bytes :: "bool \<Rightarrow> bytes \<Rightarrow> bytes" where
  "amf_key_bytes big k = from_word big (of_nat (length k)) @ k"

definition amf_elements_bytes :: "bool \<Rightarrow> (bytes \<times> amf_scalar) list \<Rightarrow> bytes" where
  "amf_elements_bytes big es = concat (map (\<lambda>(k, v). amf_key_bytes big k @ amf_value_bytes big v) es)"

lemmas amf_writer_defs =
  amf_write_null_element_def amf_write_undefined_element_def amf_write_bool_element_def
  amf_write_number_element_def amf_write_string_element_def amf_write_key_def amf_write_null_def
  amf_write_undefined_def amf_write_bool_def amf_write_number_def amf_write_string_def
  amf_start_bytes_def amf_append_bytes_def amf_start_dict_def amf_end_dict_def write_string_def write_byte_def
  write_uint16_def write_double_def

lemma double_bytes: "convert_double_bytes host big (from_qword host x) = from_qword big x"
  using from_qword_flip[of host x] by (cases "host = big") (auto simp: convert_double_bytes_def)

lemma amf_key_puts: "amf_write_key host big string_put k s = Inr (s @ amf_key_bytes big k)"
  by (simp add: amf_writer_defs string_put_def from_convert_word amf_key_bytes_def)

lemma amf_element_puts:
  "amf_write_element host big string_put (k, v) s = Inr (s @ amf_key_bytes big k @ amf_value_bytes big v)"
  by (cases v) (simp_all add: amf_writer_defs string_put_def from_convert_word double_bytes amf_key_bytes_def)

lemma amf_elements_put:
  "amf_write_elements host big string_put es s = Inr (s @ amf_elements_bytes big es)"
proof (induction es arbitrary: s)
  case (Cons e es)
  then show ?case by (cases e) (simp add: amf_element_puts amf_elements_bytes_def)
qed (simp add: amf_elements_bytes_def)

lemma amf_dict_puts:
  "amf_write_dict host big string_put es s
     = Inr (s @ amf0_object # amf_elements_bytes big es @ [0, 0, amf0_end_of_object])"
  by (simp add: amf_write_dict_def amf_elements_put amf_start_dict_def amf_end_dict_def write_byte_def string_put_def)

subsection \<open>What the reader makes of it\<close>

text \<open>The variant an entry is read as: every boolean is true.\<close>

fun amf_back :: "amf_scalar \<Rightarrow> variant" where
  "amf_back (Amf_Number i) = Var_Float (double_of_int i)"
| "amf_back (Amf_String d) = Var_String d"
| "amf_back (Amf_Bool b) = Var_Bool True"
| "amf_back _ = Var_Null"

fun amf_fits :: "bytes \<times> amf_scalar \<Rightarrow> bool" where
  "amf_fits (k, Amf_String d) = (length k < 2 ^ 16 \<and> length d < 2 ^ 16)"
| "amf_fits (k, _) = (length k < 2 ^ 16)"

definition din_at :: "bool \<Rightarrow> bytes \<Rightarrow> data_in \<Rightarrow> bool" where
  "din_at big d s = (data_in_ok s \<and> din_good s \<and> din_big_endian s = big \<and> din_rest s = d)"

lemma din_at_memory: "length d < 2 ^ 63 \<Longrightarrow> din_at big d (memory_data_input_stream d big)"
  by (simp add: din_at_def memory_data_input_stream_ok)

lemma din_at_advance: "din_at big (a @ r) s \<Longrightarrow> n = length a \<Longrightarrow> din_at big r (din_advance n s)"
  by (simp add: din_at_def din_advance_ok din_rest_advance)

lemma din_at_byte: "din_at big (b # r) s \<Longrightarrow> din_read_byte_int s = (uint b, din_advance 1 s)"
  by (simp add: din_at_def din_read_byte_int_Cons)

lemma din_at_available: "din_at big d s \<Longrightarrow> din_is_available 1 s = (d \<noteq> [])"
  by (auto simp: din_at_def din_available_1)

lemma amf_try_read_string_at:
  assumes "din_at big (from_word big (of_nat (length d)) @ d @ r) s" and "length d < 2 ^ 16"
  obtains s' where "amf_try_read_string host s = Inr (Some d, s')" "din_at big r s'"
proof -
  have at: "din_at big (d @ r) (din_advance 2 s)" using assms(1) by (rule din_at_advance) simp
  have two: "read_uint16 host s = Inr (Some (of_nat (length d)), din_advance 2 s)"
    using assms(1) by (intro read_uint16_cons) (auto simp: din_at_def)
  have len: "unat (of_nat (length d) :: u16) = length d" using assms(2) by (simp add: unsigned_of_nat take_bit_nat_eq_self)
  show ?thesis
  proof (cases d)
    case Nil
    then show ?thesis using that at two len by (auto simp: amf_try_read_string_def din_read_n_def din_at_def)
  next
    case (Cons b d')
    have "din_read_n (length d) (din_advance 2 s) = Inr (Some d, din_advance (length d) (din_advance 2 s))"
      using at Cons din_read_n_enough[of "din_advance 2 s" "length d"] by (simp add: din_at_def)
    then show ?thesis using that two len din_at_advance[OF at refl] by (simp add: amf_try_read_string_def)
  qed
qed

lemma amf_read_item_at:
  assumes "din_at big (tl (amf_value_bytes big v) @ r) s" and "amf_fits (k, v)"
  obtains s' where "amf_read_item host (Suc fuel) (hd (amf_value_bytes big v)) s = Inr (Some (amf_back v), s')"
    "din_at big r s'"
proof (cases v)
  case (Amf_Bool b)
  then have at: "din_at big ((if b then 1 else 0) # r) s" using assms(1) by simp
  then have "din_read_byte s = (Some (if b then 1 else 0), din_advance 1 s)"
    by (simp add: din_at_def din_read_byte_Cons)
  then show ?thesis using that[of "din_advance 1 s"] Amf_Bool din_at_advance[of big "[if b then 1 else 0]" r s 1] at
    by (simp add: amf_read_bool_def)
next
  case (Amf_Number i)
  then have at: "din_at big (from_qword big (double_of_int i) @ r) s" using assms(1) by simp
  then have "read_double host s = Inr (Some (double_of_int i), din_advance 8 s)"
    by (intro read_double_cons) (auto simp: din_at_def)
  then show ?thesis using that Amf_Number din_at_advance[OF at, of 8] by (simp add: amf_read_number_def)
next
  case (Amf_String d)
  then have "din_at big (from_word big (of_nat (length d)) @ d @ r) s" "length d < 2 ^ 16" using assms by simp_all
  then obtain s' where "amf_try_read_string host s = Inr (Some d, s')" "din_at big r s'"
    using amf_try_read_string_at by blast
  then show ?thesis using that Amf_String by (simp add: amf_read_string_def)
qed (use that assms in simp_all)

lemma amf_read_dict_entry:
  assumes "din_at big (amf_key_bytes big k @ amf_value_bytes big v @ r) s" and "amf_fits (k, v)"
  obtains s' where "amf_read_dict host (Suc (Suc fuel)) items s
      = amf_read_dict host (Suc fuel) (dict_set k (amf_back v) items) s'"
    "din_at big r s'"
proof -
  obtain t bs where v: "amf_value_bytes big v = t # bs" by (cases v) auto
  have "length k < 2 ^ 16" using assms(2) by (cases v) auto
  then obtain s1 where s1: "amf_try_read_string host s = Inr (Some k, s1)" "din_at big (t # bs @ r) s1"
    using amf_try_read_string_at[of big k "t # bs @ r" s] assms(1) v by (auto simp: amf_key_bytes_def)
  have at: "din_at big (bs @ r) (din_advance 1 s1)" using s1(2) by (intro din_at_advance[of big "[t]"]) simp_all
  obtain s' where s': "amf_read_item host (Suc fuel) t (din_advance 1 s1) = Inr (Some (amf_back v), s')" "din_at big r s'"
    using amf_read_item_at[of big v r "din_advance 1 s1" k host fuel] at assms(2) v by auto
  have "din_rest s \<noteq> []" using assms(1) v by (auto simp: din_at_def)
  then have "din_is_available 1 s" using assms(1) by (auto simp: din_at_def din_available_1)
  then show ?thesis
    using that[OF _ s'(2)] s'(1) s1 din_at_available[OF s1(2)] din_at_byte[OF s1(2)]
    by (simp del: amf_read_item.simps)
qed

definition amf_dict_of :: "(bytes \<times> amf_scalar) list \<Rightarrow> (bytes \<times> variant) list \<Rightarrow> (bytes \<times> variant) list" where
  "amf_dict_of es items = fold (\<lambda>(k, v). dict_set k (amf_back v)) es items"

lemma amf_read_dict_entries:
  assumes "din_at big (amf_elements_bytes big es @ r) s" and "\<forall>e\<in>set es. amf_fits e"
  shows "\<exists>s'. amf_read_dict host (Suc (length es + fuel)) items s
      = amf_read_dict host (Suc fuel) (amf_dict_of es items) s' \<and> din_at big r s'"
  using assms
proof (induction es arbitrary: s items)
  case (Cons e es)
  obtain k v where e: "e = (k, v)" by (cases e)
  have "din_at big (amf_key_bytes big k @ amf_value_bytes big v @ amf_elements_bytes big es @ r) s" "amf_fits (k, v)"
    using Cons.prems e by (simp_all add: amf_elements_bytes_def)
  then obtain s1 where s1: "amf_read_dict host (Suc (Suc (length es + fuel))) items s
      = amf_read_dict host (Suc (length es + fuel)) (dict_set k (amf_back v) items) s1"
      "din_at big (amf_elements_bytes big es @ r) s1"
    using amf_read_dict_entry by blast
  show ?case using Cons.IH[OF s1(2), of "dict_set k (amf_back v) items"] Cons.prems(2) s1(1) e
    by (simp add: amf_dict_of_def del: amf_read_dict.simps)
qed (auto simp: amf_elements_bytes_def amf_dict_of_def)

text \<open>The end marker is an entry without a key whose value cannot be read: it is passed over.\<close>

lemma amf_read_dict_end:
  assumes "din_at big (0 # 0 # amf0_end_of_object # r) s"
  obtains s' where "amf_read_dict host (Suc (Suc fuel)) items s = amf_read_dict host (Suc fuel) items s'" "din_at big r s'"
proof -
  have "from_word big 0 = [0, 0]" by (simp add: from_word_def split_defs)
  then have "din_at big (from_word big (of_nat (length [])) @ [] @ amf0_end_of_object # r) s" using assms by simp
  then obtain s1 where s1: "amf_try_read_string host s = Inr (Some [], s1)" "din_at big (amf0_end_of_object # r) s1"
    by (rule amf_try_read_string_at[of big "[]"]) simp_all
  have "din_at big r (din_advance 1 s1)"
    using s1(2) by (intro din_at_advance[of big "[amf0_end_of_object]"]) simp_all
  then show ?thesis
    using that[of "din_advance 1 s1"] s1 din_at_available[OF assms] din_at_available[OF s1(2)] din_at_byte[OF s1(2)] by simp
qed

lemma amf_read_at:
  assumes "din_at big (t # r) s"
  shows "amf_read host s = amf_read_item host (2 * length r + 4) t (din_advance 1 s)"
    and "din_at big r (din_advance 1 s)"
proof -
  have "length (din_rest s) = Suc (length r)" using assms by (simp add: din_at_def)
  then show "amf_read host s = amf_read_item host (2 * length r + 4) t (din_advance 1 s)"
    using din_at_available[OF assms] din_at_byte[OF assms] by (simp add: amf_read_def algebra_simps numeral_eq_Suc)
  show "din_at big r (din_advance 1 s)" using assms by (intro din_at_advance[of big "[t]"]) simp_all
qed

lemma amf_read_dict_stop: "din_at big [] s \<Longrightarrow> amf_read_dict host (Suc fuel) items s = Inr (Some (Var_Dict items), s)"
  using din_at_available by simp

lemma amf_elements_length: "length es \<le> length (amf_elements_bytes big es)"
proof (induction es)
  case (Cons e es)
  obtain k v where "e = (k, v)" by (cases e)
  moreover have "amf_value_bytes big v \<noteq> []" by (cases v) auto
  then have "1 \<le> length (amf_value_bytes big v)" by (cases "amf_value_bytes big v") auto
  ultimately show ?case using Cons.IH by (simp add: amf_elements_bytes_def)
qed simp

lemma amf_dict_of_lookup:
  "\<forall>(k, v)\<in>set es. 0 \<notin> set k \<Longrightarrow>
     map_of (amf_dict_of es items) k = (case map_of (rev es) k of None \<Rightarrow> map_of items k | Some v \<Rightarrow> Some (amf_back v))"
proof (induction es arbitrary: items)
  case (Cons e es)
  obtain k' v where e: "e = (k', v)" by (cases e)
  have "takeWhile (\<lambda>b. b \<noteq> 0) k' = k'" using Cons.prems e by (auto simp: takeWhile_eq_all_conv)
  then have "c_bytes k' = k'" by (simp add: c_bytes_def)
  then show ?case using Cons.IH[of "dict_set k' (amf_back v) items"] Cons.prems e
    by (auto simp: amf_dict_of_def dict_set_def tm_set_def map_add_def split: option.splits)
qed (simp add: amf_dict_of_def)

text \<open>
  C12. A dictionary of scalars that \<open>amf0_writer\<close> wrote, with keys and strings below 64 KB, no NUL
  in a key and a text below \<open>2^63\<close> bytes, is read back by \<open>amf0_reader\<close> to the last byte, whatever the byte orders of the machines:
  under each key is the value that was written last for it. Numbers come back with the same bits
  and strings with the same bytes, but every boolean comes back as true.
\<close>

theorem amf_dict_roundtrip:
  assumes "amf_write_dict host big string_put es [] = Inr d" and "length d < 2 ^ 63"
    and "\<forall>(k, v)\<in>set es. 0 \<notin> set k" and "\<forall>e\<in>set es. amf_fits e"
  shows "\<exists>m s. amf_read host' (memory_data_input_stream d big) = Inr (Some (Var_Dict m), s) \<and> din_rest s = []
    \<and> (\<forall>k. map_of m k = map_option amf_back (map_of (rev es) k))"
proof -
  let ?s = "memory_data_input_stream d big" and ?e = "amf_elements_bytes big es @ [0, 0, amf0_end_of_object]"
  have d: "d = amf0_object # ?e" using assms(1) by (simp add: amf_dict_puts)
  have at: "din_at big (amf0_object # ?e) ?s" using din_at_memory[OF assms(2)] d by simp
  note at1 = amf_read_at(2)[OF at]
  define fuel where "fuel = 2 * length ?e - length es"
  have fuel: "2 * length ?e + 4 = Suc (Suc (length es + Suc (Suc fuel)))"
    using amf_elements_length[of es big] by (simp add: fuel_def)
  obtain s1 where s1: "amf_read_dict host' (Suc (length es + Suc (Suc fuel))) [] (din_advance 1 ?s)
      = amf_read_dict host' (Suc (Suc (Suc fuel))) (amf_dict_of es []) s1" "din_at big [0, 0, amf0_end_of_object] s1"
    using amf_read_dict_entries[OF at1 assms(4), of host' "Suc (Suc fuel)" "[]"] by blast
  obtain s2 where s2: "amf_read_dict host' (Suc (Suc (Suc fuel))) (amf_dict_of es []) s1
      = amf_read_dict host' (Suc (Suc fuel)) (amf_dict_of es []) s2" "din_at big [] s2"
    by (rule amf_read_dict_end[OF s1(2)])
  have "amf_read host' ?s = Inr (Some (Var_Dict (amf_dict_of es [])), s2)"
    unfolding amf_read_at(1)[OF at] fuel using s1(1) s2 amf_read_dict_stop[OF s2(2)]
    by (simp del: amf_read_dict.simps)
  then show ?thesis using amf_dict_of_lookup[OF assms(3), of "[]"] s2(2)
    by (auto simp: din_at_def split: option.splits)
qed

text \<open>Two keys, one written twice.\<close>

definition amf_sample :: "(bytes \<times> amf_scalar) list" where
  "amf_sample = [([97], Amf_Bool False), ([98], Amf_String [120]), ([98], Amf_Null)]"

theorem amf_dict_roundtrip_witness:
  "\<exists>m s. amf_read True (memory_data_input_stream
      (0x03 # amf_elements_bytes True amf_sample @ [0, 0, 9]) True) = Inr (Some (Var_Dict m), s)
    \<and> map_of m [97] = Some (Var_Bool True) \<and> map_of m [98] = Some Var_Null"
proof -
  have "length (amf_elements_bytes True amf_sample) = 16" by (simp add: amf_sample_def amf_elements_bytes_def amf_key_bytes_def)
  then show ?thesis
    using amf_dict_roundtrip[where es = amf_sample and big = True and host' = True, OF amf_dict_puts]
    by (fastforce simp: amf_sample_def)
qed

text \<open>
  A dictionary inside a dictionary swallows what follows it: the reader passes over an end marker
  and closes a dictionary only at the end of the stream. Entries written behind the inner dictionary
  are found in the inner one and are missing in the outer one.
\<close>

theorem amf_nested_dict_swallows:
  assumes "sbind (sbind (sbind (amf_start_dict string_put []) (amf_write_key host big string_put k))
      (amf_write_dict host big string_put es)) (\<lambda>s.
        sbind (amf_write_elements host big string_put es' s) (amf_end_dict string_put)) = Inr d"
    and "length d < 2 ^ 63" and "length k < 2 ^ 16" and "\<forall>e\<in>set (es @ es'). amf_fits e"
  shows "\<exists>s. amf_read host' (memory_data_input_stream d big)
    = Inr (Some (Var_Dict [(c_bytes k, Var_Dict (amf_dict_of (es @ es') []))]), s)"
proof -
  let ?s = "memory_data_input_stream d big" and ?stop = "[0, 0, amf0_end_of_object]"
  let ?e = "amf_elements_bytes big es @ 0 # 0 # amf0_end_of_object # amf_elements_bytes big es' @ ?stop"
  let ?k = "amf_key_bytes big k @ amf0_object # ?e"
  have d: "d = amf0_object # ?k" using assms(1)
    by (simp add: amf_start_dict_def amf_end_dict_def amf_key_puts amf_dict_puts amf_elements_put write_byte_def string_put_def)
  have at: "din_at big (amf0_object # ?k) ?s" using din_at_memory[OF assms(2)] d by simp
  note at1 = amf_read_at(2)[OF at]
  obtain s1 where s1: "amf_try_read_string host' (din_advance 1 ?s) = Inr (Some k, s1)" "din_at big (amf0_object # ?e) s1"
    using at1 assms(3) amf_try_read_string_at[of big k "amf0_object # ?e" "din_advance 1 ?s" host'] by (auto simp: amf_key_bytes_def)
  have at2: "din_at big ?e (din_advance 1 s1)" using s1(2) by (intro din_at_advance[of big "[amf0_object]"]) simp_all
  define fuel where "fuel = 2 * length ?k - length es - length es' - 3"
  have fuel: "2 * length ?k + 4 = Suc (Suc (Suc (Suc (length es + Suc (length es' + Suc (Suc fuel))))))"
    using amf_elements_length[of es big] amf_elements_length[of es' big] by (simp add: fuel_def)
  let ?m = "amf_dict_of es []"
  obtain s2 where s2: "amf_read_dict host' (Suc (length es + Suc (length es' + Suc (Suc fuel)))) [] (din_advance 1 s1)
      = amf_read_dict host' (Suc (Suc (length es' + Suc (Suc fuel)))) ?m s2"
      "din_at big (0 # 0 # amf0_end_of_object # amf_elements_bytes big es' @ ?stop) s2"
    using amf_read_dict_entries[OF at2, of host' "Suc (length es' + Suc (Suc fuel))" "[]"] assms(4) by auto
  obtain s3 where s3: "amf_read_dict host' (Suc (Suc (length es' + Suc (Suc fuel)))) ?m s2
      = amf_read_dict host' (Suc (length es' + Suc (Suc fuel))) ?m s3" "din_at big (amf_elements_bytes big es' @ ?stop) s3"
    by (rule amf_read_dict_end[OF s2(2)])
  obtain s4 where s4: "amf_read_dict host' (Suc (length es' + Suc (Suc fuel))) ?m s3
      = amf_read_dict host' (Suc (Suc (Suc fuel))) (amf_dict_of es' ?m) s4" "din_at big ?stop s4"
    using amf_read_dict_entries[OF s3(2), of host' "Suc (Suc fuel)" ?m] assms(4) by auto
  obtain s5 where s5: "amf_read_dict host' (Suc (Suc (Suc fuel))) (amf_dict_of es' ?m) s4
      = amf_read_dict host' (Suc (Suc fuel)) (amf_dict_of es' ?m) s5" "din_at big [] s5"
    by (rule amf_read_dict_end[OF s4(2)])
  define F where "F = length es + Suc (length es' + Suc (Suc fuel))"
  have inner: "amf_read_item host' (Suc (Suc F)) amf0_object (din_advance 1 s1) = Inr (Some (Var_Dict (amf_dict_of es' ?m)), s5)"
    using s2(1) s3(1) s4(1) s5(1) amf_read_dict_stop[OF s5(2)] by (simp add: F_def del: amf_read_dict.simps)
  have "din_is_available 1 (din_advance 1 ?s)" using din_at_available[OF at1] by simp
  then have outer: "amf_read_dict host' (Suc (Suc (Suc F))) [] (din_advance 1 ?s)
      = amf_read_dict host' (Suc (Suc F)) (dict_set k (Var_Dict (amf_dict_of es' ?m)) []) s5"
    using s1 inner din_at_available[OF s1(2)] din_at_byte[OF s1(2)]
    by (simp del: amf_read_item.simps amf_tags add: amf_read_dict.simps(2)[of host' "Suc (Suc F)"])
  show ?thesis
    unfolding amf_read_at(1)[OF at] fuel F_def[symmetric] using outer amf_read_dict_stop[OF s5(2)]
    by (simp add: amf_dict_of_def dict_set_def tm_set_def del: amf_read_dict.simps)
qed

theorem amf_nested_dict_swallows_witness:
  "\<exists>d s. amf_read False (memory_data_input_stream d True)
    = Inr (Some (Var_Dict [([97], Var_Dict (amf_dict_of ([([98], Amf_Null)] @ [([99], Amf_Number 1)]) []))]), s)"
proof -
  let ?d = "amf0_object # amf_key_bytes True [97] @ amf0_object # amf_elements_bytes True [([98], Amf_Null)]
    @ 0 # 0 # amf0_end_of_object # amf_elements_bytes True [([99], Amf_Number 1)] @ [0, 0, amf0_end_of_object]"
  have "\<exists>s. amf_read False (memory_data_input_stream ?d True)
    = Inr (Some (Var_Dict [(c_bytes [97], Var_Dict (amf_dict_of ([([98], Amf_Null)] @ [([99], Amf_Number 1)]) []))]), s)"
    by (rule amf_nested_dict_swallows[where host = True and k = "[97]" and es = "[([98], Amf_Null)]" and es' = "[([99], Amf_Number 1)]"])
      (simp_all add: amf_start_dict_def amf_end_dict_def amf_key_puts amf_dict_puts amf_elements_put write_byte_def
        string_put_def amf_elements_bytes_def amf_key_bytes_def del: amf_write_elements.simps)
  then show ?thesis by (auto simp: c_bytes_def)
qed

text \<open>
  No list can be read: whatever the bytes behind the array tag are, the reader consumes the
  rest of the stream, or stops where the stream went bad, and gives nothing.
\<close>

theorem amf_list_never_read:
  "length d < 2 ^ 62 \<Longrightarrow> \<exists>s. amf_read host (memory_data_input_stream (amf0_array # d) big) = Inr (None, s)
    \<and> \<not> din_is_available 1 s"
proof -
  assume len: "length d < 2 ^ 62"
  let ?s = "memory_data_input_stream (amf0_array # d) big"
  have at: "din_at big (amf0_array # d) ?s" by (rule din_at_memory) (use len in simp)
  then have at1: "din_at big d (din_advance 1 ?s)" by (intro din_at_advance[of big "[amf0_array]"]) simp_all
  have list: "amf_read_list host fuel items s = Inr (x, s') \<Longrightarrow> x = None \<and> \<not> din_is_available 1 s'" for fuel items s x s'
    by (induction fuel arbitrary: items s) (auto simp: sbind_Inr_iff Let_def split: if_splits prod.splits)
  have "amf_result_ok (din_advance 1 ?s) (amf_read_list host (2 * length (din_rest ?s) + 1) [] (din_advance 1 ?s))"
    using at at1 by (intro amf_reader_total) (auto simp: din_at_def)
  then obtain x s where "amf_read_list host (2 * length (din_rest ?s) + 1) [] (din_advance 1 ?s) = Inr (x, s)"
    by (auto simp: amf_result_ok_def)
  then show ?thesis using list[of _ "[]"] din_at_available[OF at] din_at_byte[OF at] by (simp add: amf_read_def del: amf_read_list.simps)
qed

theorem amf_list_never_read_witness:
  "\<exists>s. amf_read False (memory_data_input_stream (amf0_array # [amf0_null, amf0_null]) True) = Inr (None, s)"
  using amf_list_never_read[of "[amf0_null, amf0_null]" False True] by auto

subsection \<open>Integers keep their value up to 53 bits\<close>

lemma log2n_bounds: "0 < n \<Longrightarrow> 2 ^ log2n n \<le> n \<and> n < 2 * 2 ^ log2n n"
proof (induction n rule: log2n.induct)
  case (1 n)
  then show ?case by (cases "n < 2") (auto simp: log2n.simps[of n])
qed

text \<open>
  An integer of at most 53 bits is written as the double that denotes it: the sign bit is set for a
  negative one, and the mantissa with its leading bit, scaled by the exponent, is the magnitude.
\<close>

theorem amf_number_exact:
  assumes "0 < \<bar>i\<bar>" and "\<bar>i\<bar> < 2 ^ 53"
  shows "\<exists>e m. unat (double_of_int i) = (if i < 0 then 2 ^ 63 else 0) + e * 2 ^ 52 + m \<and> m < 2 ^ 52
    \<and> 1023 \<le> e \<and> e \<le> 1075 \<and> (2 ^ 52 + m) * 2 ^ (e - 1023) = nat \<bar>i\<bar> * 2 ^ 52"
proof -
  define n k where "n = nat \<bar>i\<bar>" and "k = log2n n"
  have n: "0 < n" "n < 2 ^ 53" using assms by (simp_all add: n_def)
  have b: "2 ^ k \<le> n" "n < 2 * 2 ^ k" using log2n_bounds[OF n(1)] by (simp_all add: k_def)
  have "(2 :: nat) ^ k < 2 ^ 53" using b(1) n(2) by simp
  then have k: "k < 53" by (simp only: power_strict_increasing_iff)
  define m where "m = n * 2 ^ (52 - k) - 2 ^ 52"
  have p: "(2 :: nat) ^ 52 = 2 ^ k * 2 ^ (52 - k)" using k by (simp only: flip: power_add) simp
  have lo: "2 ^ 52 \<le> n * 2 ^ (52 - k)" unfolding p using b(1) by simp
  have hi: "n * 2 ^ (52 - k) < 2 * 2 ^ 52" unfolding p using b(2) by simp
  have bits: "double_of_nat n = (k + 1023) * 2 ^ 52 + m" using n k by (simp add: double_of_nat_def k_def[symmetric] Let_def m_def)
  have m: "m < 2 ^ 52" using lo hi by (simp add: m_def)
  have "(k + 1023) * 2 ^ 52 \<le> (52 + 1023) * 2 ^ 52" by (rule mult_le_mono1) (use k in simp)
  then have lt: "(k + 1023) * 2 ^ 52 + m < 2 ^ 63" using m by simp
  define w where "w = (if i < 0 then 2 ^ 63 else 0) + ((k + 1023) * 2 ^ 52 + m)"
  have "double_of_int i = of_nat w" by (simp add: double_of_int_def w_def n_def[symmetric] bits)
  moreover have "w < 2 ^ 64" using lt by (simp add: w_def)
  ultimately have u: "unat (double_of_int i) = w" by (simp add: unsigned_of_nat take_bit_nat_eq_self)
  have "(2 ^ 52 + m) * 2 ^ k = n * (2 ^ (52 - k) * 2 ^ k)" using lo by (simp add: m_def)
  also have "\<dots> = n * 2 ^ 52" unfolding p by (simp add: ac_simps)
  finally have "(2 ^ 52 + m) * 2 ^ (k + 1023 - 1023) = nat \<bar>i\<bar> * 2 ^ 52" by (simp add: n_def)
  then show ?thesis using u m k by (intro exI[of _ "k + 1023"] exI[of _ m]) (simp add: w_def)
qed

theorem amf_number_exact_witness:
  "\<exists>e m. unat (double_of_int (- 5)) = 2 ^ 63 + e * 2 ^ 52 + m \<and> (2 ^ 52 + m) * 2 ^ (e - 1023) = 5 * 2 ^ 52"
  using amf_number_exact[of "- 5"] by auto

end
