(* ===== verification/Http_Client.thy ===== *)
theory Http_Client
  imports Http_Exchange
begin

text \<open>
  \<^verbatim>\<open>include/xul/net/http/http_client.hpp\<close>: downloads, posts and head queries with one callback each,
  on top of an HTTP connection. The client's calls on its connection are recorded in order; the
  connection's notifications are the events of Http_Connection, and reach the handler only while it is
  the connection's listener. The callbacks of the user do not call the client.
\<close>

subsection \<open>State\<close>

datatype connection_call =
    Conn_Keep_Alive bool
  | Conn_Gzip bool
  | Conn_Protocol_Version string
  | Conn_Receive_Buffer nat
  | Conn_Request string string "string_items option"
  | Conn_Send string
  | Conn_Close

datatype client_job = Download_Job | Head_Job | Post_Job string string

record client_handler =
  ch_job :: client_job
  ch_method :: string
  ch_max_size :: int
  ch_url :: "simple_uri option"
  ch_response :: "http_response option"
  ch_content_length :: int
  ch_data :: string
  ch_extra_headers :: "string_items option"

datatype client_result =
    Data_Result "simple_uri option" int "http_response option" string
  | Head_Result "simple_uri option" int "http_response option" int

record http_client =
  cl_keep_alive :: bool
  cl_receive_buffer_size :: nat
  cl_handler :: "client_handler option"
  cl_listening :: bool
  cl_calls :: "connection_call list"
  cl_posted :: "client_result list"
  cl_results :: "client_result list"

definition cl_call :: "connection_call \<Rightarrow> http_client \<Rightarrow> http_client" where
  "cl_call a s = s\<lparr>cl_calls := cl_calls s @ [a]\<rparr>"

definition cl_callback :: "client_result \<Rightarrow> http_client \<Rightarrow> http_client" where
  "cl_callback r s = s\<lparr>cl_results := cl_results s @ [r]\<rparr>"

subsection \<open>The client\<close>

definition cl_set_keep_alive :: "bool \<Rightarrow> http_client \<Rightarrow> http_client" where
  "cl_set_keep_alive b s = cl_call (Conn_Keep_Alive b) (s\<lparr>cl_keep_alive := b\<rparr>)"

definition cl_set_receive_buffer_size :: "nat \<Rightarrow> http_client \<Rightarrow> http_client" where
  "cl_set_receive_buffer_size n s =
     (if n < 1024 \<or> n > 2 * 1024 * 1024 then s else cl_call (Conn_Receive_Buffer n) (s\<lparr>cl_receive_buffer_size := n\<rparr>))"

definition cl_new :: "bool \<Rightarrow> bool \<Rightarrow> http_client" where
  "cl_new http11 gzip =
     fold cl_call [Conn_Gzip gzip, Conn_Protocol_Version (if http11 then ''1.1'' else ''1.0''), Conn_Receive_Buffer (32 * 1024)]
       (cl_set_keep_alive False \<lparr>cl_keep_alive = False, cl_receive_buffer_size = 32 * 1024, cl_handler = None,
          cl_listening = False, cl_calls = [], cl_posted = [], cl_results = []\<rparr>)"

definition cl_close_connection :: "http_client \<Rightarrow> http_client" where
  "cl_close_connection s = cl_call Conn_Close (s\<lparr>cl_listening := False\<rparr>)"

definition cl_handle_complete :: "http_client \<Rightarrow> http_client" where
  "cl_handle_complete s = (if \<not> cl_keep_alive s then cl_close_connection s else s)"

definition cl_close :: "http_client \<Rightarrow> http_client" where
  "cl_close s = cl_close_connection s"

definition cl_clear :: "http_client \<Rightarrow> http_client" where
  "cl_clear s = cl_close (s\<lparr>cl_handler := None\<rparr>)"

subsection \<open>Starting a request\<close>

text \<open>The size limit is a \<open>size_t\<close> that is passed on as an \<open>int\<close>.\<close>

definition int_of_size :: "nat \<Rightarrow> int" where
  "int_of_size n = (let m = n mod 2 ^ 32 in if m < 2 ^ 31 then int m else int m - 2 ^ 32)"

definition ch_new :: "client_job \<Rightarrow> string \<Rightarrow> nat \<Rightarrow> client_handler" where
  "ch_new job meth max_size =
     \<lparr>ch_job = job, ch_method = meth, ch_max_size = int_of_size max_size, ch_url = None, ch_response = None,
      ch_content_length = 0, ch_data = [], ch_extra_headers = None\<rparr>"

definition cl_async_download :: "simple_uri \<Rightarrow> client_handler \<Rightarrow> http_client \<Rightarrow> http_client" where
  "cl_async_download u h s =
     cl_call (Conn_Request (ch_method h) (uri_original_string u) (ch_extra_headers h))
       (s\<lparr>cl_handler := Some (h\<lparr>ch_url := Some u\<rparr>), cl_listening := True\<rparr>)"

definition async_download_uri_data :: "simple_uri \<Rightarrow> nat \<Rightarrow> string_items option \<Rightarrow> http_client \<Rightarrow> http_client" where
  "async_download_uri_data u max_size headers s =
     (let h = ch_new Download_Job ''GET'' max_size;
          h = (case headers of None \<Rightarrow> h | Some hs \<Rightarrow> h\<lparr>ch_extra_headers := Some hs\<rparr>)
      in cl_async_download u h s)"

definition download_data :: "string \<Rightarrow> nat \<Rightarrow> string_items option \<Rightarrow> http_client \<Rightarrow> http_client" where
  "download_data urlstr max_size headers s =
     (let (ok, u) = uri_parse (Some urlstr) uri_init in
      if \<not> ok then s\<lparr>cl_posted := cl_posted s @ [Data_Result (Some u) (- 1) None []]\<rparr>
      else async_download_uri_data u max_size headers s)"

definition async_query_head :: "simple_uri \<Rightarrow> http_client \<Rightarrow> http_client" where
  "async_query_head u s = cl_async_download u (ch_new Head_Job ''HEAD'' 0) s"

text \<open>The result of the parse is ignored, and the content type is kept but never sent.\<close>

definition post_data :: "string \<Rightarrow> nat \<Rightarrow> string \<Rightarrow> string \<Rightarrow> string_items option \<Rightarrow> http_client \<Rightarrow> http_client" where
  "post_data urlstr max_size body content_type headers s =
     (let (_, u) = uri_parse (Some urlstr) uri_init;
          ctype = (if content_type = [] then ''application/octet-stream'' else content_type);
          hs = (case headers of None \<Rightarrow> [] | Some hs \<Rightarrow> hs);
          hs = sa_set string_iequal_to ''Content-Length'' (numerics_format (int_of_size (length body))) hs
      in cl_async_download u ((ch_new (Post_Job body ctype) ''POST'' max_size)\<lparr>ch_extra_headers := Some hs\<rparr>) s)"

definition cl_run_posted :: "http_client \<Rightarrow> http_client" where
  "cl_run_posted s = (case cl_posted s of [] \<Rightarrow> s | r # rs \<Rightarrow> cl_callback r (s\<lparr>cl_posted := rs\<rparr>))"

subsection \<open>The handlers\<close>

definition ch_invoke_callback :: "int \<Rightarrow> client_handler \<Rightarrow> http_client \<Rightarrow> http_client" where
  "ch_invoke_callback code h s =
     cl_callback (Data_Result (ch_url h) code (ch_response h) (ch_data h)) (cl_handle_complete s)"

definition ch_handle_error :: "http_env \<Rightarrow> int \<Rightarrow> client_handler \<Rightarrow> http_client \<Rightarrow> http_client" where
  "ch_handle_error env code h s =
     (case ch_job h of
        Head_Job \<Rightarrow> cl_callback (Head_Result (ch_url h) code (ch_response h) 0) (cl_handle_complete s)
      | _ \<Rightarrow> (let s = cl_close_connection s
              in ch_invoke_callback (if code = he_eof env \<and> ch_content_length h < 0 then 0 else code) h s))"

definition do_handle_response :: "http_env \<Rightarrow> client_handler \<Rightarrow> http_client \<Rightarrow> http_client" where
  "do_handle_response env h s =
     (case ch_job h of
        Head_Job \<Rightarrow> cl_callback (Head_Result (ch_url h) 0 (ch_response h) (ch_content_length h)) (cl_handle_complete s)
      | _ \<Rightarrow> (let h = h\<lparr>ch_data := []\<rparr>; s = s\<lparr>cl_handler := Some h\<rparr>
              in if ch_content_length h > ch_max_size h then ch_handle_error env (- 1) h s else s))"

definition ch_on_http_response :: "http_env \<Rightarrow> http_response \<Rightarrow> client_handler \<Rightarrow> http_client \<Rightarrow> bool \<times> http_client" where
  "ch_on_http_response env resp h s =
     (let h = h\<lparr>ch_response := Some resp, ch_content_length := get_content_length resp\<rparr>
      in (True, do_handle_response env h (s\<lparr>cl_handler := Some h\<rparr>)))"

text \<open>The size of the data, a \<open>size_t\<close>, is compared with the limit as unsigned numbers.\<close>

definition ch_on_http_data :: "http_env \<Rightarrow> string \<Rightarrow> client_handler \<Rightarrow> http_client \<Rightarrow> bool \<times> http_client" where
  "ch_on_http_data env data h s =
     (case ch_job h of
        Head_Job \<Rightarrow> (False, s)
      | _ \<Rightarrow> (let h = h\<lparr>ch_data := ch_data h @ data\<rparr>; s = s\<lparr>cl_handler := Some h\<rparr>
              in if int (length (ch_data h)) > size_of_int64 (ch_max_size h) then (False, ch_handle_error env (- 1) h s)
                 else (True, s)))"

definition ch_on_http_complete :: "client_handler \<Rightarrow> http_client \<Rightarrow> http_client" where
  "ch_on_http_complete h s = (case ch_job h of Head_Job \<Rightarrow> s | _ \<Rightarrow> ch_invoke_callback 0 h s)"

definition ch_on_http_put_content :: "client_handler \<Rightarrow> http_client \<Rightarrow> http_client" where
  "ch_on_http_put_content h s = (case ch_job h of Post_Job body _ \<Rightarrow> cl_call (Conn_Send body) s | _ \<Rightarrow> s)"

text \<open>A notification of the connection: the handler answers, or the listener that refuses everything.\<close>

definition cl_event :: "http_env \<Rightarrow> http_event \<Rightarrow> http_client \<Rightarrow> bool \<times> http_client" where
  "cl_event env e s =
     (case (cl_listening s, cl_handler s) of
        (True, Some h) \<Rightarrow>
          (case e of
             Http_Response resp _ \<Rightarrow> ch_on_http_response env resp h s
           | Http_Data d \<Rightarrow> ch_on_http_data env d h s
           | Http_Put_Content \<Rightarrow> (True, ch_on_http_put_content h s)
           | Http_Complete _ \<Rightarrow> (True, ch_on_http_complete h s)
           | Http_Error code \<Rightarrow> (True, ch_handle_error env code h s))
      | _ \<Rightarrow> (case e of Http_Response _ _ \<Rightarrow> False | Http_Data _ \<Rightarrow> False | _ \<Rightarrow> True, s))"

fun cl_events :: "http_env \<Rightarrow> http_event list \<Rightarrow> http_client \<Rightarrow> bool list \<times> http_client" where
  "cl_events env [] s = ([], s)"
| "cl_events env (e # es) s =
     (let (a, s) = cl_event env e s; (as, s) = cl_events env es s in (a # as, s))"

lemma cl_events_append:
  "cl_events env (es @ es') s
     = (fst (cl_events env es s) @ fst (cl_events env es' (snd (cl_events env es s))),
        snd (cl_events env es' (snd (cl_events env es s))))"
  by (induction es arbitrary: s) (auto simp: split_beta Let_def)

subsection \<open>One callback\<close>

lemmas client_steps =
  cl_event_def ch_on_http_response_def do_handle_response_def ch_handle_error_def ch_invoke_callback_def
  ch_on_http_data_def ch_on_http_complete_def ch_on_http_put_content_def cl_handle_complete_def
  cl_close_connection_def cl_callback_def cl_call_def

lemma cl_event_deaf: "\<not> cl_listening s \<Longrightarrow> snd (cl_event env e s) = s"
  by (simp add: cl_event_def)

lemma cl_events_deaf: "\<not> cl_listening s \<Longrightarrow> snd (cl_events env es s) = s"
proof (induction es)
  case (Cons e es)
  then show ?case using cl_event_deaf[of s env e] by (cases "cl_event env e s") (auto simp: split_beta)
qed simp

text \<open>A step of a client without keep-alive calls back at most once, and is deaf afterwards.\<close>

lemma cl_event_once:
  assumes "\<not> cl_keep_alive s"
  shows "\<not> cl_keep_alive (snd (cl_event env e s)) \<and>
    (cl_results (snd (cl_event env e s)) = cl_results s \<or>
     (\<exists>r. cl_results (snd (cl_event env e s)) = cl_results s @ [r]) \<and> \<not> cl_listening (snd (cl_event env e s))
       \<and> last (cl_calls (snd (cl_event env e s))) = Conn_Close)"
proof -
  consider "\<not> cl_listening s" | "cl_handler s = None" | h where "cl_listening s" "cl_handler s = Some h" by auto
  then show ?thesis
  proof cases
    case 3
    then show ?thesis using assms by (cases e; cases "ch_job h") (simp_all add: client_steps Let_def)
  next
    case 2
    then show ?thesis using assms by (cases "cl_listening s") (simp_all add: cl_event_def)
  qed (use assms in \<open>simp add: cl_event_def\<close>)
qed

text \<open>
  A client without keep-alive calls back at most once for a request, whatever its connection
  tells it, in whatever order; when it has called back it has closed the connection, and nothing it
  is told later changes it.
\<close>

theorem client_single_callback:
  assumes "\<not> cl_keep_alive s" and "s' = snd (cl_events env es s)"
  shows "cl_results s' = cl_results s \<or>
    (\<exists>r. cl_results s' = cl_results s @ [r] \<and> last (cl_calls s') = Conn_Close \<and> snd (cl_events env es' s') = s')"
  using assms
proof (induction es arbitrary: s)
  case (Cons e es)
  let ?s1 = "snd (cl_event env e s)"
  have s': "s' = snd (cl_events env es ?s1)" using Cons.prems(2) by (simp add: split_beta Let_def)
  from cl_event_once[OF Cons.prems(1), of env e] show ?case
    using Cons.IH[OF _ s'] cl_events_deaf[of ?s1] s' by auto
qed simp

text \<open>The connection refuses the response, then reports an error and a completion.\<close>

theorem client_single_callback_witness:
  "\<exists>r. cl_results (snd (cl_events sample_client_env [Http_Response sample_answer ''u'', Http_Error 5, Http_Complete 3]
      (async_query_head uri_init (cl_new False False)))) = [r]"
  using client_single_callback[OF _ refl, of "async_query_head uri_init (cl_new False False)"
    sample_client_env "[Http_Response sample_answer ''u'', Http_Error 5, Http_Complete 3]" "[]"]
  by (simp add: client_steps async_query_head_def cl_async_download_def ch_new_def cl_new_def cl_set_keep_alive_def Let_def)

text \<open>
  With keep-alive a head query calls back twice when the connection fails after the response: the
  handler stays the listener, and a body announced by the response never arrives.
\<close>

theorem head_query_calls_twice:
  assumes "cl_keep_alive s" and "s' = async_query_head u s"
  shows "cl_results (snd (cl_events env [Http_Response r url, Http_Error code] s'))
    = cl_results s @ [Head_Result (Some u) 0 (Some r) (get_content_length r), Head_Result (Some u) code (Some r) 0]"
  using assms by (simp add: client_steps async_query_head_def cl_async_download_def ch_new_def Let_def)

theorem head_query_calls_twice_witness:
  "length (cl_results (snd (cl_events sample_client_env [Http_Response sample_answer ''u'', Http_Error 5]
      (async_query_head uri_init (cl_set_keep_alive True (cl_new False False)))))) = 2"
  using head_query_calls_twice[of "cl_set_keep_alive True (cl_new False False)", OF _ refl]
  by (simp add: cl_set_keep_alive_def cl_new_def cl_call_def)

subsection \<open>Downloads\<close>

definition downloading :: "http_client \<Rightarrow> client_handler \<Rightarrow> bool" where
  "downloading s h \<longleftrightarrow> cl_listening s \<and> cl_handler s = Some h \<and> ch_job h \<noteq> Head_Job"

lemma download_pieces:
  assumes "downloading s h" and "int (length (ch_data h) + length (concat ds)) \<le> ch_max_size h" and "ch_max_size h < 2 ^ 31"
  shows "cl_events env (map Http_Data ds) s
    = (replicate (length ds) True, s\<lparr>cl_handler := Some (h\<lparr>ch_data := ch_data h @ concat ds\<rparr>)\<rparr>)"
  using assms
proof (induction ds arbitrary: s h)
  case (Cons d ds)
  let ?h = "h\<lparr>ch_data := ch_data h @ d\<rparr>" let ?s = "s\<lparr>cl_handler := Some ?h\<rparr>"
  have "size_of_int64 (ch_max_size h) = ch_max_size h" using Cons.prems by (intro size_of_int64_nonneg) auto
  then have "cl_event env (Http_Data d) s = (True, ?s)"
    using Cons.prems by (cases "ch_job h") (auto simp: downloading_def client_steps Let_def)
  moreover have "cl_events env (map Http_Data ds) ?s
    = (replicate (length ds) True, ?s\<lparr>cl_handler := Some (?h\<lparr>ch_data := ch_data ?h @ concat ds\<rparr>)\<rparr>)"
    using Cons.prems by (intro Cons.IH) (auto simp: downloading_def)
  ultimately show ?case by simp
qed (simp add: downloading_def)

lemma download_response:
  assumes "downloading s h" and "get_content_length r \<le> ch_max_size h"
  shows "cl_event env (Http_Response r url) s
    = (True, s\<lparr>cl_handler := Some (h\<lparr>ch_response := Some r, ch_content_length := get_content_length r, ch_data := []\<rparr>)\<rparr>)"
  using assms by (cases "ch_job h") (auto simp: downloading_def client_steps Let_def)

text \<open>
  A download end to end: when a response with a body within the limit arrives on the connection
  in any pieces, the client accepts everything its connection tells it and calls back once, without
  an error, with the response and exactly the body; without keep-alive it then closes the connection.
\<close>

theorem client_download:
  assumes "client_env_ok env" and "plain_response r" and "get_content_length r = int (length body)"
    and "link_up c" and "hc_request c = Some ri" and "ri_extractor ri = re_new n"
    and "concat cs = rs_print r @ body" and "list_all (\<lambda>d. d \<noteq> []) cs" and "length (concat cs) \<le> n"
    and "downloading s h" and "int (length body) \<le> ch_max_size h" and "ch_max_size h < 2 ^ 31"
  shows "\<exists>c' es. hc_receive_all env cs c = Inr c' \<and> hc_events c' = hc_events c @ es
    \<and> list_all (\<lambda>a. a) (fst (cl_events env es s))
    \<and> cl_results (snd (cl_events env es s)) = cl_results s @ [Data_Result (ch_url h) 0 (Some r) body]
    \<and> (\<not> cl_keep_alive s \<longrightarrow> cl_calls (snd (cl_events env es s)) = cl_calls s @ [Conn_Close])"
proof -
  have aw: "awaits_header c ri n []" using assms(4-6) by (simp add: awaits_header_def re_new_def)
  have "0 < length (rs_print r)" using printed_header_end(2)[of r] assms(2) by (fastforce simp: plain_response_def)
  with response_pieces[OF assms(1,2,3) _ aw, of cs body] assms(7-9) obtain c' ds where
    c': "hc_receive_all env cs c = Inr c'" "concat ds = body"
      "told c c' r (Http_Response r (uri_original_string (ri_url ri)) # map Http_Data ds) (int (length body)) (int (length body))" by auto
  let ?r = "Http_Response r (uri_original_string (ri_url ri))"
  let ?h = "h\<lparr>ch_response := Some r, ch_content_length := get_content_length r, ch_data := []\<rparr>"
  let ?s = "s\<lparr>cl_handler := Some ?h\<rparr>" let ?s2 = "?s\<lparr>cl_handler := Some (?h\<lparr>ch_data := body\<rparr>)\<rparr>"
  have "downloading ?s ?h" using assms(10) by (simp add: downloading_def)
  from download_pieces[OF this, of ds env] assms(11,12) c'(2) have data: "cl_events env (map Http_Data ds) ?s = (replicate (length ds) True, ?s2)"
    by simp
  have s2: "snd (cl_events env (map Http_Data ds @ [Http_Complete (int (length body))]) ?s)
      = snd (cl_event env (Http_Complete (int (length body))) ?s2)"
    by (simp add: cl_events_append data split_beta Let_def)
  have all: "list_all (\<lambda>a. a) (fst (cl_events env (map Http_Data ds @ [Http_Complete (int (length body))]) ?s))"
    by (simp add: cl_events_append data split_beta Let_def list_all_iff cl_event_def split: option.split bool.split)
  have fin: "cl_results (snd (cl_event env (Http_Complete (int (length body))) ?s2)) = cl_results s @ [Data_Result (ch_url h) 0 (Some r) body]
    \<and> (\<not> cl_keep_alive s \<longrightarrow> cl_calls (snd (cl_event env (Http_Complete (int (length body))) ?s2)) = cl_calls s @ [Conn_Close])"
    using assms(10) by (cases "ch_job h") (simp_all add: downloading_def client_steps)
  have "hc_events c' = hc_events c @ ?r # map Http_Data ds @ [Http_Complete (int (length body))]"
    using c'(3) by (simp add: told_def)
  then show ?thesis
    using c'(1) all fin s2 download_response[OF assms(10), of r env] assms(3,11)
    by (intro exI[of _ c'] exI[of _ "?r # map Http_Data ds @ [Http_Complete (int (length body))]"])
      (simp add: split_beta Let_def)
qed

text \<open>The sample response of Http_Exchange, downloaded by a client on a sample connection.\<close>

theorem client_download_witness:
  "\<exists>c' es. hc_receive_all sample_client_env [rs_print sample_answer, ''abc''] sample_client = Inr c'
    \<and> hc_events c' = hc_events sample_client @ es
    \<and> cl_results (snd (cl_events sample_client_env es (async_download_uri_data uri_init 10 None (cl_new False False))))
      = [Data_Result (Some uri_init) 0 (Some sample_answer) ''abc'']"
proof -
  obtain ri where "hc_request sample_client = Some ri" "ri_extractor ri = re_new (64 * 1024)"
    using sample_client_ready(2) by blast
  moreover have "rs_print sample_answer \<noteq> []" using sample_answer_ok(3) by auto
  moreover have "downloading (async_download_uri_data uri_init 10 None (cl_new False False)) ((ch_new Download_Job ''GET'' 10)\<lparr>ch_url := Some uri_init\<rparr>)"
    by (simp add: downloading_def async_download_uri_data_def cl_async_download_def cl_call_def ch_new_def Let_def)
  moreover have "int_of_size 10 = 10" by (simp add: int_of_size_def)
  ultimately show ?thesis
    using client_download[OF sample_client_env_ok sample_answer_ok(1), of "''abc''" sample_client ri "64 * 1024"
        "[rs_print sample_answer, ''abc'']"]
      sample_client_ready(1) sample_answer_ok(2,3)
    by (fastforce simp: ch_new_def async_download_uri_data_def cl_async_download_def cl_call_def cl_new_def cl_set_keep_alive_def Let_def)
qed

lemma listening_error:
  assumes "downloading s h" and "he_eof env \<noteq> - 1"
  shows "ch_handle_error env (- 1) h s = cl_callback (Data_Result (ch_url h) (- 1) (ch_response h) (ch_data h))
    (cl_handle_complete (cl_close_connection s))"
  using assms by (cases "ch_job h") (simp_all add: downloading_def ch_handle_error_def ch_invoke_callback_def Let_def)

lemma closed_deaf [simp]: "\<not> cl_listening (cl_callback r (cl_handle_complete (cl_close_connection s)))"
  "cl_results (cl_callback r (cl_handle_complete (cl_close_connection s))) = cl_results s @ [r]"
  by (simp_all add: cl_callback_def cl_handle_complete_def cl_close_connection_def cl_call_def)

text \<open>
  What is too large is not delivered as a success. When the pieces of a body exceed the limit the
  client calls back once with the error -1 and has stopped listening to its connection, at the first
  piece that goes over the limit: whatever arrives behind it is refused.
\<close>

theorem download_limit:
  assumes "downloading s h" and "ch_max_size h < 2 ^ 31" and "he_eof env \<noteq> - 1"
    and "int (length (ch_data h)) \<le> ch_max_size h" and "int (length (ch_data h) + length (concat ds)) > ch_max_size h"
  shows "\<exists>n < length ds. cl_results (snd (cl_events env (map Http_Data ds @ es) s))
      = cl_results s @ [Data_Result (ch_url h) (- 1) (ch_response h) (ch_data h @ concat (take (Suc n) ds))]
    \<and> int (length (ch_data h @ concat (take n ds))) \<le> ch_max_size h
    \<and> \<not> cl_listening (snd (cl_events env (map Http_Data ds @ es) s))"
  using assms
proof (induction ds arbitrary: s h)
  case (Cons d ds)
  let ?h = "h\<lparr>ch_data := ch_data h @ d\<rparr>" let ?s = "s\<lparr>cl_handler := Some ?h\<rparr>"
  have w: "size_of_int64 (ch_max_size h) = ch_max_size h" using Cons.prems by (intro size_of_int64_nonneg) auto
  have dl: "downloading ?s ?h" using Cons.prems(1) by (simp add: downloading_def)
  show ?case
  proof (cases "int (length (ch_data h @ d)) \<le> ch_max_size h")
    case True
    then have "cl_event env (Http_Data d) s = (True, ?s)"
      using Cons.prems(1) w by (cases "ch_job h") (auto simp: downloading_def cl_event_def ch_on_http_data_def Let_def)
    then show ?thesis using Cons.IH[OF dl] Cons.prems True by (fastforce simp: split_beta Let_def)
  next
    case False
    then have "snd (cl_event env (Http_Data d) s) = ch_handle_error env (- 1) ?h ?s"
      using Cons.prems(1) w by (cases "ch_job h") (auto simp: downloading_def cl_event_def ch_on_http_data_def Let_def)
    then show ?thesis using listening_error[OF dl Cons.prems(3)] Cons.prems(4)
      by (intro exI[of _ 0]) (simp add: split_beta Let_def cl_events_deaf)
  qed
qed simp

theorem download_limit_witness:
  "\<exists>n < 2. cl_results (snd (cl_events sample_client_env (map Http_Data [''ab'', ''cd''] @ [Http_Complete 4])
      (async_download_uri_data uri_init 3 None (cl_new False False))))
    = [Data_Result (Some uri_init) (- 1) None (concat (take (Suc n) [''ab'', ''cd'']))]"
proof -
  let ?s = "async_download_uri_data uri_init 3 None (cl_new False False)"
  have "downloading ?s ((ch_new Download_Job ''GET'' 3)\<lparr>ch_url := Some uri_init\<rparr>)"
    by (simp add: downloading_def async_download_uri_data_def cl_async_download_def cl_call_def ch_new_def Let_def)
  moreover have "int_of_size 3 = 3" by (simp add: int_of_size_def)
  moreover have "cl_results ?s = []"
    by (simp add: async_download_uri_data_def cl_async_download_def cl_call_def cl_new_def cl_set_keep_alive_def Let_def)
  moreover have he_eof: "he_eof sample_client_env \<noteq> - 1" by (simp add: sample_client_env_def)
  ultimately show ?thesis
    using download_limit[of ?s "(ch_new Download_Job ''GET'' 3)\<lparr>ch_url := Some uri_init\<rparr>" sample_client_env "[''ab'', ''cd'']" "[Http_Complete 4]"]
    by (simp add: ch_new_def numeral_2_eq_2 del: cl_events.simps take_Suc_Cons) blast
qed

text \<open>
  A limit from 2 GB up to 4 GB is passed on as a negative number: every download with such a limit
  ends with the error -1 as soon as the response arrives, whatever length it names.
\<close>

theorem download_large_limit_fails:
  assumes "2 ^ 31 \<le> n" and "n < 2 ^ 32 - 1" and "he_eof env \<noteq> - 1" and "s' = async_download_uri_data u n headers s"
    and "- 1 \<le> get_content_length r"
  shows "cl_results (snd (cl_events env (Http_Response r url # es) s')) = cl_results s @ [Data_Result (Some u) (- 1) (Some r) []]"
proof -
  have "int_of_size n = int n - 2 ^ 32"
    using assms(1,2) by (simp add: int_of_size_def Let_def)
  then have neg: "int_of_size n < - 1" using assms(2) by simp
  define h where "h = (case headers of None \<Rightarrow> ch_new Download_Job ''GET'' n
    | Some hs \<Rightarrow> (ch_new Download_Job ''GET'' n)\<lparr>ch_extra_headers := Some hs\<rparr>)\<lparr>ch_url := Some u\<rparr>"
  have h: "ch_max_size h = int_of_size n" "ch_job h = Download_Job" "ch_url h = Some u"
    by (simp_all add: h_def ch_new_def split: option.split)
  have s': "cl_listening s'" "cl_handler s' = Some h" "cl_results s' = cl_results s"
    unfolding assms(4) h_def by (simp_all add: async_download_uri_data_def cl_async_download_def cl_call_def Let_def split: option.split)
  let ?h = "h\<lparr>ch_response := Some r, ch_content_length := get_content_length r, ch_data := []\<rparr>"
  let ?s = "s'\<lparr>cl_handler := Some ?h\<rparr>"
  have "downloading ?s ?h" using s' h by (simp add: downloading_def)
  moreover have "snd (cl_event env (Http_Response r url) s') = ch_handle_error env (- 1) ?h ?s"
    using s' h neg assms(5) by (simp add: cl_event_def ch_on_http_response_def do_handle_response_def Let_def)
  ultimately show ?thesis using listening_error[of ?s ?h env] assms(3) s' h by (simp add: split_beta Let_def cl_events_deaf)
qed

theorem download_large_limit_fails_witness:
  "cl_results (snd (cl_events sample_client_env [Http_Response sample_answer ''u'']
      (async_download_uri_data uri_init 3000000000 None (cl_new False False))))
    = [Data_Result (Some uri_init) (- 1) (Some sample_answer) []]"
  using download_large_limit_fails[of 3000000000 sample_client_env, OF _ _ _ refl, of sample_answer "''u''" "[]" uri_init None "cl_new False False"]
    sample_answer_ok(2)
  by (simp add: sample_client_env_def cl_new_def cl_set_keep_alive_def cl_call_def)

end
