(* ===== verification/Tcp_Server.thy ===== *)
theory Tcp_Server
  imports Tcp_Session Std_Maps
begin

text \<open>
  \<^verbatim>\<open>include/xul/libs/asio/asio_tcp_acceptor.hpp\<close>, \<^verbatim>\<open>include/xul/net/detail/tcp_server_impl.hpp\<close> and
  \<^verbatim>\<open>include/xul/xio/net/tcp_server.hpp\<close> (the same server over another map): an acceptor that keeps one
  accept outstanding and a server that holds the sessions of the accepted sockets. The completions of
  asio and what the system answers to opening, binding and listening are the environment.
\<close>

subsection \<open>asio_tcp_acceptor\<close>

text \<open>
  A client socket is known by a number. An accept is started on the newest one, \<open>m_new_client\<close>;
  closing the acceptor aborts the accepts that are outstanding, whose completions arrive later.
\<close>

record acceptor =
  ac_open :: bool
  ac_listening :: bool
  ac_new_client :: nat
  ac_pending :: "nat list"
  ac_aborted :: "nat list"

definition ac_new :: acceptor where
  "ac_new = \<lparr>ac_open = False, ac_listening = True, ac_new_client = 0, ac_pending = [], ac_aborted = []\<rparr>"

definition ac_close :: "acceptor \<Rightarrow> acceptor" where
  "ac_close a = a\<lparr>ac_open := False, ac_pending := [], ac_aborted := ac_aborted a @ ac_pending a\<rparr>"

definition ac_start_accept :: "acceptor \<Rightarrow> acceptor" where
  "ac_start_accept a =
     (if \<not> ac_open a then a
      else let k = Suc (ac_new_client a) in a\<lparr>ac_new_client := k, ac_pending := ac_pending a @ [k]\<rparr>)"

text \<open>What the system says to \<open>open\<close>, \<open>bind\<close> and \<open>listen\<close>.\<close>

definition ac_open_port :: "bool \<times> bool \<times> bool \<Rightarrow> acceptor \<Rightarrow> bool \<times> acceptor" where
  "ac_open_port sys a =
     (let (opens, binds, listens) = sys; a = ac_close a
      in if \<not> opens then (False, a)
         else let a = a\<lparr>ac_open := True\<rparr>
              in if \<not> binds then (False, a)
                 else if \<not> listens then (False, a)
                 else (True, ac_start_accept a))"

datatype acceptor_event = Acceptor_Client nat | Acceptor_Error int

text \<open>\<open>on_accept\<close>: the client is read from the member, not from the accept that completes.\<close>

definition ac_on_accept :: "int \<Rightarrow> int \<Rightarrow> int \<Rightarrow> acceptor \<Rightarrow> acceptor_event \<times> acceptor" where
  "ac_on_accept invalid_argument bad_descriptor err a =
     (let client = ac_new_client a
      in if err \<noteq> 0 then
           (Acceptor_Error err, if err \<noteq> invalid_argument \<and> err \<noteq> bad_descriptor then ac_start_accept a else a)
         else (Acceptor_Client client, ac_start_accept a))"

definition ac_destroy :: "acceptor \<Rightarrow> acceptor" where
  "ac_destroy a = ac_close (a\<lparr>ac_listening := False\<rparr>)"

text \<open>
  Steps: the owner opens and closes, an outstanding accept completes with its socket connected, or
  with an error of the system, an aborted one completes with the code \<open>aborted\<close>.
\<close>

datatype acceptor_action =
  Ac_Open "bool \<times> bool \<times> bool" | Ac_Close | Accept_Done nat | Accept_Failed nat int | Accept_Aborted nat

record accept_codes =
  invalid_argument :: int
  bad_descriptor :: int
  operation_aborted :: int

definition codes_ok :: "accept_codes \<Rightarrow> bool" where
  "codes_ok cs \<longleftrightarrow> distinct [0, invalid_argument cs, bad_descriptor cs, operation_aborted cs]"

inductive acceptor_step :: "accept_codes \<Rightarrow> acceptor \<Rightarrow> acceptor_action \<Rightarrow> acceptor_event list \<Rightarrow> acceptor \<Rightarrow> bool"
  for cs where
  step_open: "ac_open_port sys a = (r, a') \<Longrightarrow> acceptor_step cs a (Ac_Open sys) [] a'"
| step_close: "acceptor_step cs a Ac_Close [] (ac_close a)"
| step_done: "k \<in> set (ac_pending a) \<Longrightarrow>
    ac_on_accept (invalid_argument cs) (bad_descriptor cs) 0 (a\<lparr>ac_pending := remove1 k (ac_pending a)\<rparr>) = (e, a')
    \<Longrightarrow> acceptor_step cs a (Accept_Done k) [e] a'"
| step_failed: "k \<in> set (ac_pending a) \<Longrightarrow> err \<noteq> 0 \<Longrightarrow>
    ac_on_accept (invalid_argument cs) (bad_descriptor cs) err (a\<lparr>ac_pending := remove1 k (ac_pending a)\<rparr>) = (e, a')
    \<Longrightarrow> acceptor_step cs a (Accept_Failed k err) [e] a'"
| step_aborted: "k \<in> set (ac_aborted a) \<Longrightarrow>
    ac_on_accept (invalid_argument cs) (bad_descriptor cs) (operation_aborted cs)
      (a\<lparr>ac_aborted := remove1 k (ac_aborted a)\<rparr>) = (e, a')
    \<Longrightarrow> acceptor_step cs a (Accept_Aborted k) [e] a'"

inductive_simps acceptor_step_simps:
  "acceptor_step cs a (Ac_Open sys) es a'" "acceptor_step cs a Ac_Close es a'" "acceptor_step cs a (Accept_Done k) es a'"
  "acceptor_step cs a (Accept_Failed k err) es a'" "acceptor_step cs a (Accept_Aborted k) es a'"

inductive acceptor_run :: "accept_codes \<Rightarrow> acceptor \<Rightarrow> acceptor_action list \<Rightarrow> acceptor_event list \<Rightarrow> acceptor \<Rightarrow> bool"
  for cs where
  run_nil: "acceptor_run cs a [] [] a"
| run_cons: "acceptor_step cs a x es a' \<Longrightarrow> acceptor_run cs a' xs fs a'' \<Longrightarrow> acceptor_run cs a (x # xs) (es @ fs) a''"

inductive_cases acceptor_run_Cons: "acceptor_run cs a (x # xs) es a'"
inductive_cases acceptor_run_Nil: "acceptor_run cs a [] es a'"

text \<open>Accepting: one accept is outstanding, on the socket the acceptor will hand on.\<close>

definition accepting :: "acceptor \<Rightarrow> bool" where
  "accepting a \<longleftrightarrow> ac_open a \<and> ac_pending a = [ac_new_client a] \<and> ac_aborted a = []"

fun done_clients :: "acceptor_action list \<Rightarrow> nat list" where
  "done_clients [] = []"
| "done_clients (Accept_Done k # xs) = k # done_clients xs"
| "done_clients (_ # xs) = done_clients xs"

fun told_clients :: "acceptor_event list \<Rightarrow> nat list" where
  "told_clients [] = []"
| "told_clients (Acceptor_Client k # es) = k # told_clients es"
| "told_clients (_ # es) = told_clients es"

lemma told_clients_append [simp]: "told_clients (es @ fs) = told_clients es @ told_clients fs"
  by (induction es rule: told_clients.induct) simp_all

fun stays_open :: "accept_codes \<Rightarrow> acceptor_action \<Rightarrow> bool" where
  "stays_open cs (Accept_Failed k err) \<longleftrightarrow> err \<noteq> invalid_argument cs \<and> err \<noteq> bad_descriptor cs"
| "stays_open cs (Ac_Open _) \<longleftrightarrow> False"
| "stays_open cs Ac_Close \<longleftrightarrow> False"
| "stays_open cs _ \<longleftrightarrow> True"

lemmas ac_defs = ac_close_def ac_start_accept_def ac_on_accept_def ac_open_port_def

lemma accepting_step:
  assumes "accepting a" and "acceptor_step cs a x es a'" and "stays_open cs x"
  shows "accepting a' \<and> told_clients es = done_clients [x]"
  using assms by (cases x) (auto simp: acceptor_step_simps accepting_def ac_defs Let_def)

text \<open>
  An acceptor that was opened and is not closed hands on exactly the sockets the system
  connected, in that order, and always has one accept outstanding, whatever transient errors
  the system reports.
\<close>

theorem acceptor_hands_on:
  assumes "acceptor_run cs a xs es a'" and "accepting a" and "\<forall>x\<in>set xs. stays_open cs x"
  shows "told_clients es = done_clients xs \<and> accepting a'"
  using assms
proof (induction rule: acceptor_run.induct)
  case (run_cons a x es a' xs fs a'')
  moreover have "done_clients (x # xs) = done_clients [x] @ done_clients xs" by (cases x) simp_all
  ultimately show ?case using accepting_step[of a cs x es a'] by simp
qed simp

definition sample_codes :: accept_codes where
  "sample_codes = \<lparr>invalid_argument = 22, bad_descriptor = 9, operation_aborted = 125\<rparr>"

definition accepting_on :: "nat \<Rightarrow> acceptor" where
  "accepting_on k = \<lparr>ac_open = True, ac_listening = True, ac_new_client = k, ac_pending = [k], ac_aborted = []\<rparr>"

lemma opened_acceptor: "ac_open_port (True, True, True) ac_new = (True, accepting_on 1)"
  by (simp add: accepting_on_def ac_defs ac_new_def)

lemma accepting_on_steps:
  "acceptor_step cs (accepting_on k) (Accept_Done k) [Acceptor_Client k] (accepting_on (Suc k))"
  "err \<noteq> 0 \<Longrightarrow> stays_open cs (Accept_Failed k err)
     \<Longrightarrow> acceptor_step cs (accepting_on k) (Accept_Failed k err) [Acceptor_Error err] (accepting_on (Suc k))"
  by (simp_all add: acceptor_step_simps ac_defs accepting_on_def Let_def)

theorem acceptor_hands_on_witness:
  "\<exists>es a'. acceptor_run sample_codes (accepting_on 1) [Accept_Done 1, Accept_Failed 2 24, Accept_Done 3] es a'
    \<and> told_clients es = [1, 3] \<and> accepting a'"
proof -
  have run: "acceptor_run sample_codes (accepting_on 1) [Accept_Done 1, Accept_Failed 2 24, Accept_Done 3]
      ([Acceptor_Client 1] @ [Acceptor_Error 24] @ [Acceptor_Client 3] @ []) (accepting_on 4)"
    by (intro run_cons run_nil) (auto simp: numeral_eq_Suc sample_codes_def intro: accepting_on_steps run_nil)
  from acceptor_hands_on[OF run] show ?thesis using run by (force simp: sample_codes_def accepting_on_def accepting_def)
qed

text \<open>
  An acceptor that is closed and opened again before the aborted accept completed starts a second
  accept when it does: two are outstanding then, and when the first one connects its socket the listener
  is handed the other one, which is not connected.
\<close>

theorem restart_hands_wrong_socket:
  assumes "codes_ok cs" and "accepting a"
  shows "\<exists>es a' k. acceptor_run cs a [Ac_Close, Ac_Open (True, True, True), Accept_Aborted (ac_new_client a), Accept_Done k] es a'
    \<and> told_clients es \<noteq> [k] \<and> length (ac_pending a') = 2"
proof -
  let ?n = "ac_new_client a"
  let ?a1 = "a\<lparr>ac_open := False, ac_pending := [], ac_aborted := [?n]\<rparr>"
  let ?a2 = "?a1\<lparr>ac_open := True, ac_new_client := Suc ?n, ac_pending := [Suc ?n]\<rparr>"
  let ?a3 = "?a2\<lparr>ac_aborted := [], ac_new_client := Suc (Suc ?n), ac_pending := [Suc ?n, Suc (Suc ?n)]\<rparr>"
  let ?a4 = "?a3\<lparr>ac_new_client := Suc (Suc (Suc ?n)), ac_pending := [Suc (Suc ?n), Suc (Suc (Suc ?n))]\<rparr>"
  have "acceptor_step cs a Ac_Close [] ?a1" "acceptor_step cs ?a1 (Ac_Open (True, True, True)) [] ?a2"
    "acceptor_step cs ?a2 (Accept_Aborted ?n) [Acceptor_Error (operation_aborted cs)] ?a3"
    "acceptor_step cs ?a3 (Accept_Done (Suc ?n)) [Acceptor_Client (Suc (Suc ?n))] ?a4"
    using assms by (auto simp: acceptor_step_simps ac_defs accepting_def codes_ok_def Let_def)
  then have "acceptor_run cs a [Ac_Close, Ac_Open (True, True, True), Accept_Aborted ?n, Accept_Done (Suc ?n)]
      ([] @ [] @ [Acceptor_Error (operation_aborted cs)] @ [Acceptor_Client (Suc (Suc ?n))] @ []) ?a4"
    by - ((rule run_cons, assumption)+, rule run_nil)
  then show ?thesis by (intro exI[of _ _] conjI) (assumption, simp_all)
qed

theorem restart_hands_wrong_socket_witness:
  "\<exists>es a' k. acceptor_run sample_codes (accepting_on 1) [Ac_Close, Ac_Open (True, True, True), Accept_Aborted 1, Accept_Done k] es a'
    \<and> told_clients es \<noteq> [k]"
  using restart_hands_wrong_socket[of sample_codes "accepting_on 1"]
  by (fastforce simp: codes_ok_def sample_codes_def accepting_def accepting_on_def)

subsection \<open>tcp_server_impl\<close>

text \<open>
  Sessions are keyed by the number of their socket, which stands for the address of the object. The
  listener is missing until \<open>set_listener\<close> was called; calling a missing one is a fault. The
  answers of the listener: the decoder of a session it takes, or none when it refuses it.
\<close>

datatype server_listener = No_Listener | Dummy_Listener | User_Listener

datatype 'm server_event = Server_Create nat | Server_Session nat "'m session_event" | Server_Destroy nat int

record 'm tcp_server =
  sv_acceptor :: acceptor
  sv_sessions :: "(nat \<times> tcp_session) list"
  sv_listener :: server_listener
  sv_reuse_address :: bool
  sv_events :: "'m server_event list"

record 'm tcp_server_env =
  sv_create :: "nat \<Rightarrow> decoder option"
  sv_decode :: "bytes \<Rightarrow> int \<times> 'm list"

definition sv_new :: "'m tcp_server" where
  "sv_new = \<lparr>sv_acceptor = ac_new, sv_sessions = [], sv_listener = No_Listener, sv_reuse_address = False, sv_events = []\<rparr>"

definition sv_set_listener :: "bool \<Rightarrow> 'm tcp_server \<Rightarrow> 'm tcp_server" where
  "sv_set_listener given s = s\<lparr>sv_listener := if given then User_Listener else Dummy_Listener\<rparr>"

definition sv_enable_reuse_address :: "bool \<Rightarrow> 'm tcp_server \<Rightarrow> 'm tcp_server" where
  "sv_enable_reuse_address b s = s\<lparr>sv_reuse_address := b\<rparr>"

definition sv_notify :: "'m server_event list \<Rightarrow> 'm tcp_server \<Rightarrow> 'm tcp_server" where
  "sv_notify es s = s\<lparr>sv_events := sv_events s @ es\<rparr>"

definition sv_stop :: "'m tcp_server \<Rightarrow> 'm tcp_server" where
  "sv_stop s = s\<lparr>sv_sessions := tm_clear (sv_sessions s), sv_acceptor := ac_close (sv_acceptor s)\<rparr>"

definition sv_start :: "bool \<times> bool \<times> bool \<Rightarrow> 'm tcp_server \<Rightarrow> bool \<times> 'm tcp_server" where
  "sv_start sys s =
     (let s = sv_stop s; (r, a) = ac_open_port sys (sv_acceptor s) in (r, s\<lparr>sv_acceptor := a\<rparr>))"

definition sv_destroy :: "'m tcp_server \<Rightarrow> 'm tcp_server" where
  "sv_destroy s = sv_stop (s\<lparr>sv_acceptor := (sv_acceptor s)\<lparr>ac_listening := False\<rparr>\<rparr>)"

definition sv_get_session_count :: "'m tcp_server \<Rightarrow> nat" where
  "sv_get_session_count s = length (sv_sessions s)"

definition sv_on_acceptor_client ::
    "'m tcp_server_env \<Rightarrow> nat \<Rightarrow> tcp_socket \<Rightarrow> 'm tcp_server \<Rightarrow> fault + 'm tcp_server" where
  "sv_on_acceptor_client env k sock s =
     (case sv_listener s of
        No_Listener \<Rightarrow> Inl Out_Of_Bounds
      | Dummy_Listener \<Rightarrow> Inr s
      | User_Listener \<Rightarrow>
          (case sv_create env k of
             None \<Rightarrow> Inr (sv_notify [Server_Create k] s)
           | Some dec \<Rightarrow>
               let (es, session) = se_open_session (se_init sock dec);
                   s = sv_notify (Server_Create k # map (Server_Session k) es) s
               in Inr (s\<lparr>sv_sessions := tm_set k session (sv_sessions s)\<rparr>)))"

text \<open>\<open>feed_client\<close>: a socket from elsewhere, refused when it has no peer.\<close>

definition sv_feed_client :: "'m tcp_server_env \<Rightarrow> nat \<Rightarrow> tcp_socket \<Rightarrow> 'm tcp_server \<Rightarrow> fault + bool \<times> 'm tcp_server" where
  "sv_feed_client env k sock s =
     (if \<not> ts_connected sock then Inr (False, s)
      else if \<not> ac_listening (sv_acceptor s) then Inr (True, s)
      else sbind (sv_on_acceptor_client env k sock s) (\<lambda>s. Inr (True, s)))"

definition sv_on_session_error :: "nat \<Rightarrow> int \<Rightarrow> 'm tcp_server \<Rightarrow> 'm tcp_server" where
  "sv_on_session_error k errcode s =
     (if \<not> tm_contains k (sv_sessions s) then s
      else let s = s\<lparr>sv_sessions := snd (tm_remove k (sv_sessions s))\<rparr>
           in if sv_listener s = User_Listener then sv_notify [Server_Destroy k errcode] s else s)"

text \<open>
  An event of the session's socket. The listener of the session is told first; an error reaches the
  server behind it. A session that was destroyed has no listener.
\<close>

fun sv_tell_session :: "nat \<Rightarrow> 'm session_event list \<Rightarrow> 'm tcp_server \<Rightarrow> 'm tcp_server" where
  "sv_tell_session k [] s = s"
| "sv_tell_session k (e # es) s =
     sv_tell_session k es
       (if \<not> tm_contains k (sv_sessions s) then s
        else let s = sv_notify [Server_Session k e] s
             in case e of Session_Error err \<Rightarrow> sv_on_session_error k err s | _ \<Rightarrow> s)"

definition sv_on_socket_event :: "'m tcp_server_env \<Rightarrow> nat \<Rightarrow> socket_event \<Rightarrow> 'm tcp_server \<Rightarrow> 'm tcp_server" where
  "sv_on_socket_event env k ev s =
     (case map_of (sv_sessions s) k of
        None \<Rightarrow> s
      | Some session \<Rightarrow>
          let (es, session) = se_on_event (sv_decode env) ev session
          in sv_tell_session k es (s\<lparr>sv_sessions := tm_set k session (sv_sessions s)\<rparr>))"


text \<open>\<open>tm_set\<close> and \<open>tm_remove\<close> as updates of a partial function.\<close>

lemma sessions_map:
  assumes "std_map_ok m"
  shows "map_of (tm_set k v m) = (map_of m)(k \<mapsto> v)" "std_map_ok (tm_set k v m)"
    "map_of (snd (tm_remove k m)) = (map_of m)(k := None)" "std_map_ok (snd (tm_remove k m))"
    "tm_contains k m = (map_of m k \<noteq> None)"
  using assms tm_remove_result[OF assms, of k] std_find_map[OF assms, of k]
  by (auto simp: tm_set_def std_map_set_ok tm_contains_def fun_eq_iff)

fun first_error :: "'m session_event list \<Rightarrow> int option" where
  "first_error [] = None"
| "first_error (e # es) = (case e of Session_Error err \<Rightarrow> Some err | _ \<Rightarrow> first_error es)"

fun upto_error :: "'m session_event list \<Rightarrow> 'm session_event list" where
  "upto_error [] = []"
| "upto_error (e # es) = (case e of Session_Error err \<Rightarrow> [e] | _ \<Rightarrow> e # upto_error es)"

definition told_of :: "nat \<Rightarrow> 'm session_event list \<Rightarrow> 'm server_event list" where
  "told_of k es = map (Server_Session k) (upto_error es)
     @ (case first_error es of None \<Rightarrow> [] | Some err \<Rightarrow> [Server_Destroy k err])"

lemma tell_absent: "\<not> tm_contains k (sv_sessions s) \<Longrightarrow> sv_tell_session k es s = s"
  by (induction es arbitrary: s) simp_all

lemma tell_session:
  assumes "std_map_ok (sv_sessions s)" and "tm_contains k (sv_sessions s)" and "sv_listener s = User_Listener"
  shows "sv_tell_session k es s = (sv_notify (told_of k es) s)\<lparr>sv_sessions :=
    (if first_error es = None then sv_sessions s else snd (tm_remove k (sv_sessions s)))\<rparr>"
  using assms
proof (induction es arbitrary: s)
  case (Cons e es)
  show ?case
  proof (cases e)
    case (Session_Error err)
    let ?s = "(sv_notify [Server_Session k e] s)\<lparr>sv_sessions := snd (tm_remove k (sv_sessions s))\<rparr>"
    have "\<not> tm_contains k (snd (tm_remove k (sv_sessions s)))"
      using sessions_map(3-5)[OF Cons.prems(1)] sessions_map(5) by (metis fun_upd_same)
    then show ?thesis using Session_Error Cons.prems
      by (simp add: sv_on_session_error_def sv_notify_def told_of_def tell_absent)
  qed (use Cons in \<open>simp_all add: sv_notify_def told_of_def\<close>)
qed (simp add: told_of_def sv_notify_def)

text \<open>
  An event on the socket of a session reaches that session alone: its listener is told what the session
  makes of it up to the first error, and after an error the server lets go of the session and tells its
  listener so exactly once; every other session stays as it was.
\<close>

theorem server_session_event:
  assumes "std_map_ok (sv_sessions s)" and "sv_listener s = User_Listener" and "map_of (sv_sessions s) k = Some session"
    and "se_on_event (sv_decode env) ev session = (es, session')" and "s' = sv_on_socket_event env k ev s"
  shows "sv_events s' = sv_events s @ told_of k es \<and> std_map_ok (sv_sessions s')
    \<and> map_of (sv_sessions s') = (map_of (sv_sessions s))(k := if first_error es = None then Some session' else None)"
proof -
  let ?m = "tm_set k session' (sv_sessions s)" let ?s = "s\<lparr>sv_sessions := ?m\<rparr>"
  note m = sessions_map(1,2)[OF assms(1), of k session']
  have "sv_tell_session k es ?s = (sv_notify (told_of k es) ?s)\<lparr>sv_sessions :=
      (if first_error es = None then ?m else snd (tm_remove k ?m))\<rparr>"
    using tell_session[of ?s k es] assms(2) m(1,2) sessions_map(5)[OF m(2), of k] by simp
  moreover have "s' = sv_tell_session k es ?s" using assms(3-5) by (simp add: sv_on_socket_event_def)
  ultimately show ?thesis using m(1,2) sessions_map(3,4)[OF m(2), of k] by (simp add: sv_notify_def)
qed

definition sample_server :: "unit tcp_server" where
  "sample_server = sv_set_listener True sv_new"

definition sample_tcp_env :: "unit tcp_server_env" where
  "sample_tcp_env = \<lparr>sv_create = (\<lambda>_. Some (decoder_init 10)), sv_decode = (\<lambda>_. (0, []))\<rparr>"

theorem server_session_event_witness:
  "\<exists>s. sv_on_acceptor_client sample_tcp_env 1 ts_accepted sample_server = Inr s
    \<and> sv_events (sv_on_socket_event sample_tcp_env 1 (Socket_Receive_Failed 7) s)
      = [Server_Create 1, Server_Session 1 Session_Open, Server_Session 1 (Session_Error 7), Server_Destroy 1 7]
    \<and> map_of (sv_sessions (sv_on_socket_event sample_tcp_env 1 (Socket_Receive_Failed 7) s)) = Map.empty"
proof -
  obtain s where s: "sv_on_acceptor_client sample_tcp_env 1 ts_accepted sample_server = Inr s"
      "sv_events s = [Server_Create 1, Server_Session 1 Session_Open]" "sv_listener s = User_Listener"
      "sv_sessions s = [(1, snd (se_open_session (se_init ts_accepted (decoder_init 10)) :: unit session_event list \<times> tcp_session))]"
    by (simp add: sv_on_acceptor_client_def sample_server_def sample_tcp_env_def sv_set_listener_def sv_new_def sv_notify_def
      se_open_session_def tm_set_def Let_def)
  then show ?thesis
    using server_session_event[of s 1 _ sample_tcp_env "Socket_Receive_Failed 7", OF _ _ _ _ refl]
    by (auto simp: told_of_def fun_upd_idem)
qed

subsection \<open>Every session is let go of once\<close>

datatype server_call = Sv_Client nat tcp_socket | Sv_Event nat socket_event

definition sv_call :: "'m tcp_server_env \<Rightarrow> server_call \<Rightarrow> 'm tcp_server \<Rightarrow> fault + 'm tcp_server" where
  "sv_call env c s =
     (case c of Sv_Client k sock \<Rightarrow> sv_on_acceptor_client env k sock s | Sv_Event k ev \<Rightarrow> Inr (sv_on_socket_event env k ev s))"

fun sv_calls :: "'m tcp_server_env \<Rightarrow> server_call list \<Rightarrow> 'm tcp_server \<Rightarrow> fault + 'm tcp_server" where
  "sv_calls env [] s = Inr s"
| "sv_calls env (c # cs) s = sbind (sv_call env c s) (sv_calls env cs)"

fun clients :: "server_call list \<Rightarrow> nat list" where
  "clients [] = []"
| "clients (Sv_Client k _ # cs) = k # clients cs"
| "clients (_ # cs) = clients cs"

fun destroys :: "nat \<Rightarrow> 'm server_event list \<Rightarrow> nat" where
  "destroys k [] = 0"
| "destroys k (Server_Destroy j _ # es) = (if j = k then 1 else 0) + destroys k es"
| "destroys k (_ # es) = destroys k es"

lemma destroys_append [simp]: "destroys k (es @ fs) = destroys k es + destroys k fs"
  by (induction k es rule: destroys.induct) simp_all

lemma destroys_sessions [simp]: "destroys k (map (Server_Session j) es) = 0"
  by (induction es) simp_all

lemma destroys_told: "destroys k (told_of j es) = (if j = k \<and> first_error es \<noteq> None then 1 else 0)"
  by (auto simp: told_of_def split: option.split)

definition books :: "'m tcp_server_env \<Rightarrow> nat set \<Rightarrow> 'm tcp_server \<Rightarrow> bool" where
  "books env C s \<longleftrightarrow> std_map_ok (sv_sessions s) \<and> sv_listener s = User_Listener
     \<and> (\<forall>k. (map_of (sv_sessions s) k \<noteq> None) = (k \<in> C \<and> sv_create env k \<noteq> None \<and> destroys k (sv_events s) = 0))
     \<and> (\<forall>k. destroys k (sv_events s) \<le> 1)
     \<and> (\<forall>k. k \<notin> C \<or> sv_create env k = None \<longrightarrow> destroys k (sv_events s) = 0)"

lemma books_client:
  assumes "books env C s" and "k \<notin> C"
  obtains s' where "sv_on_acceptor_client env k sock s = Inr s'" "books env (insert k C) s'"
proof (cases "sv_create env k")
  case None
  then have "sv_on_acceptor_client env k sock s = Inr (sv_notify [Server_Create k] s)"
    using assms(1) by (simp add: books_def sv_on_acceptor_client_def)
  moreover have "books env (insert k C) (sv_notify [Server_Create k] s)"
    using assms None by (auto simp: books_def sv_notify_def)
  ultimately show ?thesis by (rule that)
next
  case (Some dec)
  obtain es session where o: "(se_open_session (se_init sock dec) :: 'a session_event list \<times> tcp_session) = (es, session)" by fastforce
  let ?s = "(sv_notify (Server_Create k # map (Server_Session k) es) s)\<lparr>sv_sessions := tm_set k session (sv_sessions s)\<rparr>"
  have "sv_on_acceptor_client env k sock s = Inr ?s"
    using assms(1) Some o by (simp add: books_def sv_on_acceptor_client_def sv_notify_def Let_def)
  moreover have "destroys k (sv_events s) = 0" using assms by (auto simp: books_def dest!: spec[of _ k])
  then have "books env (insert k C) ?s"
    using assms Some sessions_map(1,2)[of "sv_sessions s" k session] by (auto simp: books_def sv_notify_def)
  ultimately show ?thesis by (rule that)
qed

lemma books_event:
  assumes "books env C s"
  shows "books env C (sv_on_socket_event env k ev s)"
proof (cases "map_of (sv_sessions s) k")
  case None
  then show ?thesis using assms by (simp add: sv_on_socket_event_def)
next
  case (Some session)
  obtain es session' where es: "se_on_event (sv_decode env) ev session = (es, session')" by fastforce
  let ?m = "tm_set k session' (sv_sessions s)" let ?s = "s\<lparr>sv_sessions := ?m\<rparr>"
  have ok: "std_map_ok (sv_sessions s)" "sv_listener s = User_Listener" using assms by (simp_all add: books_def)
  note m = sessions_map(1,2)[OF ok(1), of k session']
  have eq: "sv_on_socket_event env k ev s = (sv_notify (told_of k es) ?s)\<lparr>sv_sessions :=
      (if first_error es = None then ?m else snd (tm_remove k ?m))\<rparr>"
    using tell_session[of ?s k es] Some es ok(2) m(1,2) sessions_map(5)[OF m(2), of k] by (simp add: sv_on_socket_event_def)
  have "k \<in> C" "sv_create env k \<noteq> None" "destroys k (sv_events s) = 0" using assms Some by (auto simp: books_def)
  then show ?thesis unfolding eq
    using assms m(1,2) sessions_map(3,4)[OF m(2), of k] by (auto simp: books_def sv_notify_def destroys_told)
qed

text \<open>
  The server's books: whatever clients arrive and whatever happens on their sockets, the sessions it
  holds are those its listener took and that were not yet reported as destroyed, and no session is
  reported twice.
\<close>

theorem server_books:
  assumes "distinct (clients cs)" and "sv_listener s = User_Listener" and "sv_sessions s = []" and "sv_events s = []"
  shows "\<exists>s'. sv_calls env cs s = Inr s' \<and> (\<forall>k. destroys k (sv_events s') \<le> 1
    \<and> (map_of (sv_sessions s') k \<noteq> None) = (k \<in> set (clients cs) \<and> sv_create env k \<noteq> None \<and> destroys k (sv_events s') = 0))"
proof -
  have run: "\<exists>s'. sv_calls env cs s = Inr s' \<and> books env (C \<union> set (clients cs)) s'"
    if "books env C s" "distinct (clients cs)" "C \<inter> set (clients cs) = {}" for C and s :: "'a tcp_server"
    using that
  proof (induction cs arbitrary: C s rule: clients.induct)
    case (2 k sock cs)
    obtain s1 where "sv_on_acceptor_client env k sock s = Inr s1" "books env (insert k C) s1"
      using books_client[OF 2(2)] 2(4) by auto
    then show ?case using 2(1)[of "insert k C" s1] 2(3,4) by (auto simp: sv_call_def)
  next
    case (3 k ev cs)
    then show ?case using books_event[OF 3(2), of k ev] by (simp add: sv_call_def)
  qed simp
  have "books env {} s" using assms by (simp add: books_def)
  from run[OF this assms(1)] show ?thesis by (auto simp: books_def)
qed

theorem server_books_witness:
  "\<exists>s'. sv_calls sample_tcp_env [Sv_Client 1 ts_accepted, Sv_Client 2 ts_accepted, Sv_Event 1 (Socket_Receive_Failed 7)] sample_server = Inr s'
    \<and> (map_of (sv_sessions s') 2 \<noteq> None) = (destroys 2 (sv_events s') = 0)"
  using server_books[of "[Sv_Client 1 ts_accepted, Sv_Client 2 ts_accepted, Sv_Event 1 (Socket_Receive_Failed 7)]" sample_server sample_tcp_env]
  by (fastforce simp: sample_server_def sv_set_listener_def sv_new_def sample_tcp_env_def)

text \<open>
  A server whose listener was never set fails on its first client: the member is initialised with
  the null pointer, and not with the listener that does nothing.
\<close>

theorem server_without_listener_fails:
  "sv_on_acceptor_client env k sock sv_new = Inl Out_Of_Bounds"
  by (simp add: sv_on_acceptor_client_def sv_new_def)

end
