(* ===== verification/Http_Concurrent.thy ===== *)
theory Http_Concurrent
  imports Http_Exchange
begin

text \<open>
  \<^verbatim>\<open>include/xul/net/http/detail/concurrent_http_connection_impl.hpp\<close>: the HTTP connection that queues
  requests and pipelines those to one host. A request is the \<open>request_info\<close> of Http_Connection. What a
  request makes of the data that arrives, modelled there, is here the sequence of calls it makes on
  its connection (\<open>owner_call\<close>), which the environment chooses, so that a statement about all of them holds
  for the real ones. The listener does not call the connection back, and assertions are read as in a
  release build.
\<close>

subsection \<open>State\<close>

record concurrent_connection =
  cc_options :: http_connection_options
  cc_socket :: tcp_socket
  cc_name_resolver :: "string option"
  cc_host :: string
  cc_port :: int
  cc_pause_receive :: bool
  cc_requests :: "request_info list"
  cc_posted :: "int list"
  cc_events :: "http_event list"

definition cc_init_client :: "concurrent_connection \<Rightarrow> concurrent_connection" where
  "cc_init_client c = c\<lparr>cc_host := [], cc_port := 0, cc_pause_receive := False, cc_socket := ts_set_listener True ts_new\<rparr>"

definition cc_new :: concurrent_connection where
  "cc_new = cc_init_client \<lparr>cc_options = ho_new, cc_socket = ts_new, cc_name_resolver = None, cc_host = [], cc_port = 0,
     cc_pause_receive = False, cc_requests = [], cc_posted = [], cc_events = []\<rparr>"

definition cc_do_close :: "concurrent_connection \<Rightarrow> concurrent_connection" where
  "cc_do_close c = cc_init_client (c\<lparr>cc_pause_receive := False, cc_name_resolver := None\<rparr>)"

definition cc_close :: "concurrent_connection \<Rightarrow> concurrent_connection" where
  "cc_close c = cc_do_close (c\<lparr>cc_requests := []\<rparr>)"

definition cc_notify :: "http_event \<Rightarrow> concurrent_connection \<Rightarrow> concurrent_connection" where
  "cc_notify e c = c\<lparr>cc_events := cc_events c @ [e]\<rparr>"

definition cc_is_started :: "concurrent_connection \<Rightarrow> bool" where
  "cc_is_started c = (cc_requests c \<noteq> [])"

definition cc_is_connected :: "concurrent_connection \<Rightarrow> bool" where
  "cc_is_connected c = ts_connected (cc_socket c)"

definition cc_abort_handling :: "concurrent_connection \<Rightarrow> concurrent_connection" where
  "cc_abort_handling c = cc_do_close c"

definition cc_check_receive :: "concurrent_connection \<Rightarrow> concurrent_connection" where
  "cc_check_receive c =
     (if \<not> cc_pause_receive c \<and> cc_is_connected c \<and> \<not> ts_receiving (cc_socket c)
      then c\<lparr>cc_socket := ts_receive (ho_receive_buffer_size (cc_options c)) (cc_socket c)\<rparr> else c)"

definition cc_pause :: "concurrent_connection \<Rightarrow> concurrent_connection" where
  "cc_pause c = c\<lparr>cc_pause_receive := True\<rparr>"

definition cc_resume :: "concurrent_connection \<Rightarrow> concurrent_connection" where
  "cc_resume c = cc_check_receive (c\<lparr>cc_pause_receive := False\<rparr>)"

text \<open>The test for a request that waits for its body is the wrong way round.\<close>

definition cc_send_data :: "bytes \<Rightarrow> concurrent_connection \<Rightarrow> bool \<times> concurrent_connection" where
  "cc_send_data data c =
     (if \<not> cc_is_started c then (False, c)
      else if cc_requests c \<noteq> [] \<or> \<not> ri_header_send (hd (cc_requests c)) then (False, c)
      else let (r, sock) = ts_send_n data (cc_socket c) in (r, c\<lparr>cc_socket := sock\<rparr>))"

subsection \<open>Sending requests\<close>

definition cc_same_host :: "request_info \<Rightarrow> concurrent_connection \<Rightarrow> bool" where
  "cc_same_host ri c = (uri_host (ri_url ri) = cc_host c \<or> uri_port (ri_url ri) = cc_port c)"

text \<open>Writing the request at a position of the queue: the object in the queue is marked as sent.\<close>

definition cc_write_request :: "nat \<Rightarrow> concurrent_connection \<Rightarrow> concurrent_connection" where
  "cc_write_request i c =
     (let ri = cc_requests c ! i; msg = text_bytes (rq_print (ri_request ri))
      in cc_notify Http_Put_Content
           (c\<lparr>cc_requests := (cc_requests c)[i := ri\<lparr>ri_header_send := True\<rparr>],
              cc_socket := snd (ts_send_n msg (cc_socket c))\<rparr>))"

definition cc_connecto_host_address :: "concurrent_connection \<Rightarrow> concurrent_connection" where
  "cc_connecto_host_address c = c\<lparr>cc_socket := ts_connect (cc_socket c)\<rparr>"

definition cc_connect_host :: "http_env \<Rightarrow> request_info \<Rightarrow> concurrent_connection \<Rightarrow> concurrent_connection" where
  "cc_connect_host env ri c =
     (let c = (cc_do_close c)\<lparr>cc_host := uri_host (ri_url ri), cc_port := uri_port (ri_url ri)\<rparr>
      in if \<not> he_is_address env (cc_host c) then c\<lparr>cc_name_resolver := Some (cc_host c)\<rparr> else cc_connecto_host_address c)"

definition cc_do_request :: "http_env \<Rightarrow> request_info \<Rightarrow> concurrent_connection \<Rightarrow> concurrent_connection" where
  "cc_do_request env ri c =
     (let queued = c\<lparr>cc_requests := cc_requests c @ [ri]\<rparr>
      in if cc_requests c \<noteq> [] \<and> \<not> ri_header_send (last (cc_requests c)) then queued
         else if cc_is_connected c \<and> cc_same_host ri c then cc_write_request (length (cc_requests c)) queued
         else if cc_requests c = [] then cc_connect_host env ri queued
         else queued)"

definition cc_post_error :: "int \<Rightarrow> concurrent_connection \<Rightarrow> concurrent_connection" where
  "cc_post_error errcode c = c\<lparr>cc_posted := cc_posted c @ [errcode]\<rparr>"

text \<open>
  \<open>prepare_request\<close> gives a null pointer for a URL or method that is not valid, and \<open>request\<close> passes it to
  \<open>do_request\<close>, which reads through it.
\<close>

definition cc_prepare_request ::
    "string option \<Rightarrow> string \<Rightarrow> string_items option \<Rightarrow> concurrent_connection \<Rightarrow> request_info option \<times> concurrent_connection" where
  "cc_prepare_request urlstr meth headers c =
     (let (ok, u) = uri_parse urlstr uri_init in
      if \<not> ok \<or> meth = [] then (None, cc_post_error (- 1) c)
      else let ri = ri_prepare_request (cc_options c) headers (ri_new u)
           in (Some (ri\<lparr>ri_request := rq_set_method meth (ri_request ri)\<rparr>), c))"

definition cc_request ::
    "http_env \<Rightarrow> string \<Rightarrow> string option \<Rightarrow> string_items option \<Rightarrow> concurrent_connection \<Rightarrow> fault + bool \<times> concurrent_connection" where
  "cc_request env meth urlstr headers c =
     (let (req, c) = cc_prepare_request urlstr meth headers c
      in case req of None \<Rightarrow> Inl Out_Of_Bounds | Some ri \<Rightarrow> Inr (True, cc_do_request env ri c))"

definition cc_download ::
    "http_env \<Rightarrow> string option \<Rightarrow> int \<Rightarrow> int \<Rightarrow> string_items option \<Rightarrow> concurrent_connection \<Rightarrow> fault + bool \<times> concurrent_connection" where
  "cc_download env urlstr pos len headers c =
     (if len = 0 then Inr (False, cc_post_error (- 2) c)
      else let (req, c) = cc_prepare_request urlstr ''GET'' headers c
           in case req of
                None \<Rightarrow> Inl Out_Of_Bounds
              | Some ri \<Rightarrow> Inr (True, cc_do_request env (ri\<lparr>ri_request := rq_set_range pos len (ri_request ri)\<rparr>) c))"

text \<open>A request is redirected while it is still the first of the queue; the queue holds the same object.\<close>

definition cc_redirect :: "http_env \<Rightarrow> request_info \<Rightarrow> concurrent_connection \<Rightarrow> concurrent_connection" where
  "cc_redirect env ri c = cc_do_request env ri (cc_do_close (c\<lparr>cc_requests := ri # tl (cc_requests c)\<rparr>))"

subsection \<open>Calls of the request in progress\<close>

text \<open>
  Data behind the response is handed to the next request: the result is that data, or a fault when
  no request is left, whose \<open>front\<close> is taken all the same.
\<close>

definition cc_on_complete :: "int \<Rightarrow> string \<Rightarrow> concurrent_connection \<Rightarrow> fault + bool \<times> string option \<times> concurrent_connection" where
  "cc_on_complete total_size data c =
     (case cc_requests c of
        [] \<Rightarrow> Inr (False, None, cc_abort_handling c)
      | _ # rest \<Rightarrow>
          let c = cc_notify (Http_Complete total_size) (c\<lparr>cc_requests := rest\<rparr>)
          in if data = [] then Inr (True, None, c)
             else if rest = [] then Inl Out_Of_Bounds
             else Inr (True, Some data, c))"

definition cc_on_header :: "http_env \<Rightarrow> http_response \<Rightarrow> concurrent_connection \<Rightarrow> bool \<times> concurrent_connection" where
  "cc_on_header env resp c =
     (case cc_requests c of
        [] \<Rightarrow> (False, cc_abort_handling c)
      | ri # _ \<Rightarrow> let c = cc_notify (Http_Response resp (uri_original_string (ri_url ri))) c in (he_accept env (cc_events c), c))"

definition cc_on_content :: "http_env \<Rightarrow> string \<Rightarrow> concurrent_connection \<Rightarrow> bool \<times> concurrent_connection" where
  "cc_on_content env data c =
     (if cc_requests c = [] then (False, cc_abort_handling c)
      else let c = cc_notify (Http_Data data) c in (he_accept env (cc_events c), c))"

definition cc_on_error :: "int \<Rightarrow> concurrent_connection \<Rightarrow> concurrent_connection" where
  "cc_on_error errcode c = cc_notify (Http_Error errcode) (cc_abort_handling c)"

definition cc_run_posted :: "concurrent_connection \<Rightarrow> concurrent_connection" where
  "cc_run_posted c = (case cc_posted c of [] \<Rightarrow> c | code # codes \<Rightarrow> cc_on_error code (c\<lparr>cc_posted := codes\<rparr>))"

text \<open>
  An error of the transport. The request in progress leaves the queue, the others start over, and the
  connection to the host of the next one is begun; then the end of the response is reported when the
  stream ended behind its header, and an error otherwise. The chain of filters is the end filter.
\<close>

definition cc_reconnect :: "http_env \<Rightarrow> concurrent_connection \<Rightarrow> concurrent_connection" where
  "cc_reconnect env c = (case cc_requests c of [] \<Rightarrow> c | next_req # _ \<Rightarrow> cc_connect_host env next_req c)"

definition cc_handle_error :: "http_env \<Rightarrow> int \<Rightarrow> concurrent_connection \<Rightarrow> fault + concurrent_connection" where
  "cc_handle_error env errcode c =
     (case cc_requests c of
        [] \<Rightarrow> Inr (cc_do_close c)
      | ri # rest \<Rightarrow>
          let c = cc_reconnect env (c\<lparr>cc_requests := map reset_handling_state rest\<rparr>)
          in if ri_response_header_received ri \<and> errcode = he_eof env then
               if ef_finished (fc_end (ri_filters ri)) then Inr (cc_abort_handling c)
               else sbind (cc_on_complete (ef_received_size (fc_end (ri_filters ri))) [] c) (\<lambda>(_, _, c). Inr c)
             else Inr (cc_on_error errcode c))"

subsection \<open>Events of the socket and of the resolver\<close>

fun cc_write_all :: "nat \<Rightarrow> nat \<Rightarrow> concurrent_connection \<Rightarrow> concurrent_connection" where
  "cc_write_all i 0 c = c"
| "cc_write_all i (Suc n) c =
     (if cc_same_host (cc_requests c ! i) c then cc_write_all (Suc i) n (cc_write_request i c) else c)"

definition cc_on_socket_connect :: "concurrent_connection \<Rightarrow> concurrent_connection" where
  "cc_on_socket_connect c =
     (let c = c\<lparr>cc_socket := ts_receive (ho_receive_buffer_size (cc_options c)) (cc_socket c)\<rparr>
      in if cc_requests c = [] then cc_close c else cc_write_all 0 (length (cc_requests c)) c)"

definition cc_on_resolver_address :: "http_env \<Rightarrow> int \<Rightarrow> 'a list \<Rightarrow> concurrent_connection \<Rightarrow> fault + concurrent_connection" where
  "cc_on_resolver_address env errcode addrs c =
     (if errcode \<noteq> 0 \<or> addrs = [] then cc_handle_error env errcode c else Inr (cc_connecto_host_address c))"

text \<open>The calls of the request that data reaches; afterwards the connection reads on.\<close>

datatype owner_call = Call_Header http_response | Call_Content string | Call_Complete int string | Call_Error int

fun cc_calls :: "http_env \<Rightarrow> owner_call list \<Rightarrow> concurrent_connection \<Rightarrow> fault + concurrent_connection" where
  "cc_calls env [] c = Inr c"
| "cc_calls env (Call_Header resp # xs) c = cc_calls env xs (snd (cc_on_header env resp c))"
| "cc_calls env (Call_Content d # xs) c = cc_calls env xs (snd (cc_on_content env d c))"
| "cc_calls env (Call_Complete n d # xs) c = sbind (cc_on_complete n d c) (\<lambda>(_, _, c). cc_calls env xs c)"
| "cc_calls env (Call_Error e # xs) c = cc_calls env xs (cc_on_error e c)"

definition cc_on_socket_receive :: "http_env \<Rightarrow> bool \<Rightarrow> owner_call list \<Rightarrow> concurrent_connection \<Rightarrow> fault + concurrent_connection" where
  "cc_on_socket_receive env ok xs c =
     (if cc_requests c = [] then Inr (cc_close c)
      else sbind (cc_calls env xs c) (\<lambda>c. Inr (if ok then cc_check_receive c else c)))"

lemmas cc_defs =
  cc_init_client_def cc_do_close_def cc_close_def cc_notify_def cc_abort_handling_def cc_check_receive_def
  cc_pause_def cc_resume_def cc_connecto_host_address_def cc_connect_host_def cc_on_error_def cc_on_header_def
  cc_on_content_def


subsection \<open>What is sent is in front\<close>

fun sent_first :: "request_info list \<Rightarrow> bool" where
  "sent_first [] = True"
| "sent_first (r # rs) = ((ri_header_send r \<or> list_all (\<lambda>r. \<not> ri_header_send r) rs) \<and> sent_first rs)"

lemma reset_unsent [simp]: "\<not> ri_header_send (reset_handling_state ri)"
  by (simp add: reset_handling_state_def)

lemma unsent_sent_first: "list_all (\<lambda>r. \<not> ri_header_send r) rs \<Longrightarrow> sent_first rs"
  by (induction rs) auto

lemma sent_first_append:
  "sent_first (xs @ [r]) = (sent_first xs \<and> (list_all ri_header_send xs \<or> \<not> ri_header_send r))"
  by (induction xs) (auto simp: list_all_iff)

lemma sent_first_last: "sent_first rs \<Longrightarrow> rs \<noteq> [] \<Longrightarrow> ri_header_send (last rs) \<Longrightarrow> list_all ri_header_send rs"
  by (induction rs) (auto simp: list_all_iff split: if_splits)

lemma sent_first_mark:
  "sent_first rs \<Longrightarrow> list_all ri_header_send (take i rs) \<Longrightarrow> ri_header_send r \<Longrightarrow> sent_first (rs[i := r])"
  by (induction rs arbitrary: i) (auto simp: list_all_iff split: nat.split dest: set_update_subset_insert[THEN subsetD])

lemma do_close_requests [simp]: "cc_requests (cc_do_close c) = cc_requests c" "\<not> cc_is_connected (cc_do_close c)"
  "ts_connects (cc_socket (cc_do_close c)) = 0" "cc_name_resolver (cc_do_close c) = None" "cc_events (cc_do_close c) = cc_events c"
  by (simp_all add: cc_defs cc_is_connected_def ts_new_def ts_do_init_def ts_set_listener_def)

lemma connect_host_requests [simp]: "cc_requests (cc_connect_host env ri c) = cc_requests c"
  by (simp add: cc_connect_host_def cc_connecto_host_address_def Let_def)

lemma reconnect_requests [simp]: "cc_requests (cc_reconnect env c) = cc_requests c"
  by (simp add: cc_reconnect_def split: list.split)

lemma check_receive_requests [simp]: "cc_requests (cc_check_receive c) = cc_requests c"
  by (simp add: cc_check_receive_def)

lemma write_request_requests [simp]:
  "cc_requests (cc_write_request i c) = (cc_requests c)[i := (cc_requests c ! i)\<lparr>ri_header_send := True\<rparr>]"
  by (simp add: cc_write_request_def cc_notify_def Let_def)

lemma write_all_sent_first:
  "sent_first (cc_requests c) \<Longrightarrow> list_all ri_header_send (take i (cc_requests c)) \<Longrightarrow> i + n \<le> length (cc_requests c)
    \<Longrightarrow> sent_first (cc_requests (cc_write_all i n c))"
proof (induction n arbitrary: i c)
  case (Suc n)
  have "list_all ri_header_send (take (Suc i) (cc_requests (cc_write_request i c)))"
    using Suc.prems by (simp add: take_Suc_conv_app_nth)
  then show ?case using Suc.prems by (auto intro!: Suc.IH sent_first_mark)
qed simp

text \<open>The operations of the client and the events of the network.\<close>

datatype cc_op =
    Op_Request request_info | Op_Connected | Op_Receive bool "owner_call list" | Op_Failed int
  | Op_Resolved int "nat list" | Op_Pause | Op_Resume | Op_Posted | Op_Close

fun cc_step :: "http_env \<Rightarrow> cc_op \<Rightarrow> concurrent_connection \<Rightarrow> fault + concurrent_connection" where
  "cc_step env (Op_Request ri) c = Inr (cc_do_request env ri c)"
| "cc_step env Op_Connected c = Inr (cc_on_socket_connect c)"
| "cc_step env (Op_Receive ok xs) c = cc_on_socket_receive env ok xs c"
| "cc_step env (Op_Failed e) c = cc_handle_error env e c"
| "cc_step env (Op_Resolved e addrs) c = cc_on_resolver_address env e addrs c"
| "cc_step env Op_Pause c = Inr (cc_pause c)"
| "cc_step env Op_Resume c = Inr (cc_resume c)"
| "cc_step env Op_Posted c = Inr (cc_run_posted c)"
| "cc_step env Op_Close c = Inr (cc_close c)"

fun cc_steps :: "http_env \<Rightarrow> cc_op list \<Rightarrow> concurrent_connection \<Rightarrow> fault + concurrent_connection" where
  "cc_steps env [] c = Inr c"
| "cc_steps env (x # xs) c = sbind (cc_step env x c) (cc_steps env xs)"

definition queue_ok :: "fault + concurrent_connection \<Rightarrow> bool" where
  "queue_ok r \<longleftrightarrow> (case r of Inl _ \<Rightarrow> True | Inr c \<Rightarrow> sent_first (cc_requests c))"

lemma queue_ok_simps [simp]: "queue_ok (Inl e)" "queue_ok (Inr c) = sent_first (cc_requests c)"
  by (simp_all add: queue_ok_def)

lemma queue_ok_bind: "queue_ok m \<Longrightarrow> (\<And>c. sent_first (cc_requests c) \<Longrightarrow> queue_ok (f c)) \<Longrightarrow> queue_ok (sbind m f)"
  by (cases m) auto

lemma sent_first_tl: "sent_first rs \<Longrightarrow> sent_first (tl rs)"
  by (cases rs) auto

lemma calls_requests [simp]:
  "cc_requests (snd (cc_on_header env resp c)) = cc_requests c" "cc_requests (snd (cc_on_content env d c)) = cc_requests c"
  "cc_requests (cc_on_error e c) = cc_requests c" "cc_requests (cc_abort_handling c) = cc_requests c"
  by (simp_all add: cc_on_header_def cc_on_content_def cc_on_error_def cc_abort_handling_def cc_notify_def Let_def split: list.split)

lemma complete_requests:
  "cc_on_complete n d c = Inr (r, x, c') \<Longrightarrow> cc_requests c' = tl (cc_requests c)"
  by (auto simp: cc_on_complete_def cc_notify_def Let_def split: list.splits if_splits)

lemma calls_queue_ok: "sent_first (cc_requests c) \<Longrightarrow> queue_ok (cc_calls env xs c)"
proof (induction xs arbitrary: c)
  case (Cons x xs)
  show ?case
  proof (cases x)
    case (Call_Complete n d)
    then show ?thesis using Cons complete_requests[of n d c] sent_first_tl
      by (cases "cc_on_complete n d c") (auto split: prod.split)
  qed (use Cons in simp_all)
qed simp

lemma handle_error_queue_ok: "queue_ok (cc_handle_error env e c)"
proof (cases "cc_requests c")
  case (Cons ri rest)
  let ?c = "c\<lparr>cc_requests := map reset_handling_state rest\<rparr>"
  have u: "list_all (\<lambda>r. \<not> ri_header_send r) (map reset_handling_state rest)" by (simp add: list_all_iff)
  then have t: "sent_first (tl (map reset_handling_state rest))"
    by (intro unsent_sent_first) (auto simp: list_all_iff simp flip: map_tl)
  define c' where "c' = cc_reconnect env ?c"
  have c': "cc_requests c' = map reset_handling_state rest" by (simp add: c'_def)
  have "queue_ok (sbind (cc_on_complete n [] c') (\<lambda>(_, _, c). Inr c))" for n
    using complete_requests[of n "[]" c'] c' t by (cases "cc_on_complete n [] c'") (auto split: prod.split)
  then show ?thesis using Cons u c' by (simp add: cc_handle_error_def c'_def[symmetric] unsent_sent_first Let_def)
qed (simp add: cc_handle_error_def)

lemma step_queue_ok:
  assumes "sent_first (cc_requests c)" and "\<forall>ri. x = Op_Request ri \<longrightarrow> \<not> ri_header_send ri"
  shows "queue_ok (cc_step env x c)"
proof (cases x)
  case (Op_Request ri)
  have "(cc_requests c @ [ri])[length (cc_requests c) := r] = cc_requests c @ [r]" for r by simp
  then show ?thesis using assms Op_Request sent_first_last[OF assms(1)]
    by (auto simp: cc_do_request_def sent_first_append Let_def)
next
  case Op_Connected
  then show ?thesis using assms write_all_sent_first[of "c\<lparr>cc_socket := s\<rparr>" 0 "length (cc_requests c)" for s]
    by (auto simp: cc_on_socket_connect_def cc_close_def Let_def)
next
  case (Op_Receive ok xs)
  then show ?thesis using assms calls_queue_ok[OF assms(1)]
    by (auto simp: cc_on_socket_receive_def cc_close_def intro: queue_ok_bind)
next
  case (Op_Resolved e addrs)
  then show ?thesis using assms handle_error_queue_ok
    by (simp add: cc_on_resolver_address_def cc_connecto_host_address_def)
qed (use assms handle_error_queue_ok in \<open>simp_all add: cc_pause_def cc_resume_def cc_run_posted_def cc_close_def split: list.split\<close>)

text \<open>
  Whatever the client asks and the network does, the requests whose header was sent are the first
  ones of the queue: no request overtakes one that was queued before it.
\<close>

theorem concurrent_queue_order:
  assumes "\<forall>ri. Op_Request ri \<in> set xs \<longrightarrow> \<not> ri_header_send ri" and "cc_steps env xs cc_new = Inr c"
  shows "sent_first (cc_requests c)"
proof -
  have "queue_ok (cc_steps env xs c)" if "sent_first (cc_requests c)" "\<forall>ri. Op_Request ri \<in> set xs \<longrightarrow> \<not> ri_header_send ri" for c
    using that
  proof (induction xs arbitrary: c)
    case (Cons x xs)
    then show ?case using step_queue_ok[of c x env] by (auto intro!: queue_ok_bind)
  qed simp
  from this[of cc_new] assms show ?thesis by (simp add: cc_new_def cc_init_client_def)
qed


definition plain_get :: "string \<Rightarrow> request_info" where
  "plain_get u = ri_new (snd (uri_parse (Some u) uri_init))"

lemma plain_get_unsent [simp]: "\<not> ri_header_send (plain_get u)" "\<not> ri_response_header_received (plain_get u)"
  by (simp_all add: plain_get_def ri_new_def)

theorem concurrent_queue_order_witness:
  "\<exists>c. cc_steps sample_client_env [Op_Request (plain_get ''http://h/a''), Op_Connected, Op_Request (plain_get ''http://h/b'')] cc_new = Inr c
    \<and> sent_first (cc_requests c)"
proof -
  let ?xs = "[Op_Request (plain_get ''http://h/a''), Op_Connected, Op_Request (plain_get ''http://h/b'')]"
  obtain c where "cc_steps sample_client_env ?xs cc_new = Inr c" by simp
  then show ?thesis using concurrent_queue_order[of ?xs sample_client_env c] by (simp del: cc_steps.simps)
qed

subsection \<open>Pipelining\<close>

abbreviation request_bytes :: "request_info \<Rightarrow> bytes" where
  "request_bytes ri \<equiv> text_bytes (rq_print (ri_request ri))"

definition mark_sent :: "request_info \<Rightarrow> request_info" where
  "mark_sent ri = ri\<lparr>ri_header_send := True\<rparr>"

definition pipeline :: "concurrent_connection \<Rightarrow> bool" where
  "pipeline c \<longleftrightarrow> cc_is_connected c \<and> list_all ri_header_send (cc_requests c)"

lemma send_n_connected [simp]: "ts_connected (snd (ts_send_n d s)) = ts_connected s"
  by (simp add: ts_send_n_def ts_process_sending_queue_def ts_do_send_n_def Let_def split: list.split)

lemma do_request_pipelined:
  assumes "pipeline c" and "cc_same_host ri c" and "room (Suc n) (cc_socket c)"
  shows "pipeline (cc_do_request env ri c) \<and> room n (cc_socket (cc_do_request env ri c))
    \<and> cc_requests (cc_do_request env ri c) = cc_requests c @ [mark_sent ri]
    \<and> ts_sending_queue (cc_socket (cc_do_request env ri c)) = ts_sending_queue (cc_socket c) @ [request_bytes ri]
    \<and> cc_host (cc_do_request env ri c) = cc_host c \<and> cc_port (cc_do_request env ri c) = cc_port c
    \<and> cc_events (cc_do_request env ri c) = cc_events c @ [Http_Put_Content]"
proof -
  have "cc_requests c \<noteq> [] \<Longrightarrow> ri_header_send (last (cc_requests c))" using assms(1) by (simp add: pipeline_def list_all_iff)
  then have "cc_do_request env ri c = cc_write_request (length (cc_requests c)) (c\<lparr>cc_requests := cc_requests c @ [ri]\<rparr>)"
    using assms(1,2) by (auto simp: cc_do_request_def pipeline_def Let_def)
  then show ?thesis
    using assms send_n_room[OF assms(3), of "request_bytes ri"]
    by (auto simp: cc_write_request_def cc_notify_def pipeline_def cc_is_connected_def mark_sent_def Let_def)
qed

lemma requests_pipelined:
  assumes "pipeline c" and "\<forall>ri\<in>set rs. cc_same_host ri c" and "room (length rs) (cc_socket c)"
  shows "cc_requests (fold (cc_do_request env) rs c) = cc_requests c @ map mark_sent rs
    \<and> ts_sending_queue (cc_socket (fold (cc_do_request env) rs c)) = ts_sending_queue (cc_socket c) @ map request_bytes rs
    \<and> cc_events (fold (cc_do_request env) rs c) = cc_events c @ replicate (length rs) Http_Put_Content"
  using assms
proof (induction rs arbitrary: c)
  case (Cons ri rs)
  have "room (Suc (length rs)) (cc_socket c)" using Cons.prems(3) by simp
  note d = do_request_pipelined[OF Cons.prems(1) _ this, of ri env]
  then show ?case using Cons.IH[of "cc_do_request env ri c"] Cons.prems(2) by (simp add: cc_same_host_def)
qed simp

lemma completions:
  "length ns = length (cc_requests c) \<Longrightarrow> \<exists>c'. cc_calls env (map (\<lambda>n. Call_Complete n []) ns) c = Inr c' \<and> cc_requests c' = []
    \<and> cc_events c' = cc_events c @ map Http_Complete ns \<and> cc_socket c' = cc_socket c"
proof (induction ns arbitrary: c)
  case (Cons n ns)
  then obtain r rs where "cc_requests c = r # rs" by (cases "cc_requests c") auto
  then show ?case using Cons.IH[of "cc_notify (Http_Complete n) (c\<lparr>cc_requests := rs\<rparr>)"] Cons.prems
    by (auto simp: cc_on_complete_def cc_notify_def Let_def)
qed simp

text \<open>
  Requests to the connected host are pipelined: with room in the socket's queue they are written at
  once, in their order, behind each other, and all are in progress; the completions of their
  responses then end them one by one, in the same order, until the connection is idle.
\<close>

theorem concurrent_pipelines:
  assumes "cc_is_connected c" and "cc_requests c = []" and "\<forall>ri\<in>set rs. cc_same_host ri c" and "room (length rs) (cc_socket c)"
    and "length ns = length rs"
  shows "\<exists>c'. ts_sending_queue (cc_socket (fold (cc_do_request env) rs c)) = ts_sending_queue (cc_socket c) @ map request_bytes rs
    \<and> cc_requests (fold (cc_do_request env) rs c) = map mark_sent rs
    \<and> cc_calls env (map (\<lambda>n. Call_Complete n []) ns) (fold (cc_do_request env) rs c) = Inr c' \<and> cc_requests c' = []
    \<and> cc_events c' = cc_events c @ replicate (length rs) Http_Put_Content @ map Http_Complete ns"
proof -
  have "pipeline c" using assms(1,2) by (simp add: pipeline_def)
  note r = requests_pipelined[OF this assms(3,4), of env]
  then show ?thesis using completions[of ns "fold (cc_do_request env) rs c" env] assms(2,5) by auto
qed

definition linked :: concurrent_connection where
  "linked = cc_new\<lparr>cc_host := ''h'', cc_port := 80, cc_socket := ts_accepted\<rparr>"

lemma linked_ready: "cc_is_connected linked" "cc_requests linked = []" "cc_events linked = []" "room 2 (cc_socket linked)"
  "ts_sending_queue (cc_socket linked) = []"
  by (simp_all add: linked_def cc_new_def cc_init_client_def cc_is_connected_def ts_accepted_def ts_do_init_def room_def)

lemma plain_get_host: "uri_host (ri_url (plain_get ''http://h/a'')) = ''h''" "uri_port (ri_url (plain_get ''http://h/a'')) = 80"
proof -
  have "uri_host (snd (uri_parse (Some ''http://h/a'') uri_init)) = ''h''" "uri_port (snd (uri_parse (Some ''http://h/a'') uri_init)) = 80"
    by code_simp+
  then show "uri_host (ri_url (plain_get ''http://h/a'')) = ''h''" "uri_port (ri_url (plain_get ''http://h/a'')) = 80"
    by (simp_all add: plain_get_def ri_new_def)
qed

theorem concurrent_pipelines_witness:
  "\<exists>c'. cc_calls sample_client_env [Call_Complete 3 [], Call_Complete 4 []]
      (fold (cc_do_request sample_client_env) [plain_get ''http://h/a'', plain_get ''http://h/a''] linked) = Inr c'
    \<and> cc_events c' = [Http_Put_Content, Http_Put_Content, Http_Complete 3, Http_Complete 4]"
  using concurrent_pipelines[of linked "[plain_get ''http://h/a'', plain_get ''http://h/a'']" "[3, 4]" sample_client_env]
    linked_ready plain_get_host
  by (auto simp: cc_same_host_def linked_def numeral_2_eq_2)

subsection \<open>What goes wrong\<close>

text \<open>
  A request to another host that happens to use the port of the connected one is written to the
  connection to the wrong host.
\<close>

theorem concurrent_wrong_host:
  assumes "pipeline c" and "uri_host (ri_url ri) \<noteq> cc_host c" and "uri_port (ri_url ri) = cc_port c" and "room 1 (cc_socket c)"
  shows "ts_sending_queue (cc_socket (cc_do_request env ri c)) = ts_sending_queue (cc_socket c) @ [request_bytes ri]
    \<and> cc_host (cc_do_request env ri c) = cc_host c"
  using do_request_pipelined[OF assms(1), of ri 0 env] assms(3,4) by (simp add: cc_same_host_def)

theorem concurrent_wrong_host_witness:
  "ts_sending_queue (cc_socket (cc_do_request sample_client_env (plain_get ''http://h/a'') (linked\<lparr>cc_host := ''other''\<rparr>)))
    = [request_bytes (plain_get ''http://h/a'')]"
  using concurrent_wrong_host[of "linked\<lparr>cc_host := ''other''\<rparr>" "plain_get ''http://h/a''" sample_client_env] linked_ready plain_get_host
  by (simp add: pipeline_def cc_is_connected_def linked_def room_def)

definition stranded :: "concurrent_connection \<Rightarrow> bool" where
  "stranded c \<longleftrightarrow> cc_requests c \<noteq> [] \<and> \<not> ri_header_send (last (cc_requests c)) \<and> \<not> cc_is_connected c
     \<and> ts_connects (cc_socket c) = 0 \<and> cc_name_resolver c = None"

lemma stranded_request: "stranded c \<Longrightarrow> \<not> ri_header_send ri \<Longrightarrow>
    cc_do_request env ri c = c\<lparr>cc_requests := cc_requests c @ [ri]\<rparr>"
  by (simp add: stranded_def cc_do_request_def)

lemma stranded_requests:
  "stranded c \<Longrightarrow> \<forall>ri\<in>set rs. \<not> ri_header_send ri \<Longrightarrow> stranded (fold (cc_do_request env) rs c)
    \<and> cc_requests (fold (cc_do_request env) rs c) = cc_requests c @ rs \<and> cc_events (fold (cc_do_request env) rs c) = cc_events c"
proof (induction rs arbitrary: c)
  case (Cons ri rs)
  have "stranded (c\<lparr>cc_requests := cc_requests c @ [ri]\<rparr>)" using Cons.prems by (simp add: stranded_def cc_is_connected_def)
  then show ?case using Cons.IH[of "c\<lparr>cc_requests := cc_requests c @ [ri]\<rparr>"] stranded_request[of c ri env] Cons.prems by simp
qed simp

text \<open>
  A transport error strands the requests behind the one that failed: the connection to the host of the
  next one is begun and closed again when the error is reported. No connection, connect or name
  resolution is left, and every later request is only queued, until the client closes the connection.
\<close>

theorem concurrent_error_strands:
  assumes "cc_requests c = ri # rest" and "rest \<noteq> []" and "\<not> ri_response_header_received ri \<or> e \<noteq> he_eof env"
    and "\<forall>ri\<in>set rs. \<not> ri_header_send ri"
  shows "\<exists>c'. cc_handle_error env e c = Inr c' \<and> cc_events c' = cc_events c @ [Http_Error e]
    \<and> stranded (fold (cc_do_request env) rs c')
    \<and> cc_requests (fold (cc_do_request env) rs c') = map reset_handling_state rest @ rs
    \<and> cc_events (fold (cc_do_request env) rs c') = cc_events c @ [Http_Error e]"
proof -
  let ?c = "cc_reconnect env (c\<lparr>cc_requests := map reset_handling_state rest\<rparr>)"
  have ev: "cc_events ?c = cc_events c"
    by (simp add: cc_reconnect_def cc_connect_host_def cc_connecto_host_address_def Let_def split: list.split)
  have h: "cc_handle_error env e c = Inr (cc_on_error e ?c)" using assms(1,3) by (auto simp: cc_handle_error_def Let_def)
  have "stranded (cc_on_error e ?c)"
    using assms(2) by (simp add: stranded_def cc_on_error_def cc_notify_def cc_abort_handling_def cc_is_connected_def last_map
        do_close_requests(2-4)[unfolded cc_is_connected_def])
  from stranded_requests[OF this assms(4), of env] h ev show ?thesis
    by (auto simp: cc_on_error_def cc_notify_def cc_abort_handling_def)
qed

theorem concurrent_error_strands_witness:
  "\<exists>c'. cc_handle_error sample_client_env 5 (linked\<lparr>cc_requests := [mark_sent (plain_get ''http://h/a''), mark_sent (plain_get ''http://h/b'')]\<rparr>) = Inr c'
    \<and> stranded (cc_do_request sample_client_env (plain_get ''http://h/c'') c')"
  using concurrent_error_strands[of "linked\<lparr>cc_requests := [mark_sent (plain_get ''http://h/a''), mark_sent (plain_get ''http://h/b'')]\<rparr>"
      "mark_sent (plain_get ''http://h/a'')" "[mark_sent (plain_get ''http://h/b'')]" 5 sample_client_env "[plain_get ''http://h/c'']"]
  by (auto simp: mark_sent_def)

text \<open>
  A response that ends with the stream is never reported when its request was the only one: the request
  has left the queue before the end of its response is handled, and the listener is told neither of
  the end nor of an error.
\<close>

theorem concurrent_eof_unreported:
  assumes "cc_requests c = [ri]" and "ri_response_header_received ri" and "\<not> ef_finished (fc_end (ri_filters ri))"
  shows "\<exists>c'. cc_handle_error env (he_eof env) c = Inr c' \<and> cc_requests c' = [] \<and> cc_events c' = cc_events c"
  using assms by (simp add: cc_handle_error_def cc_reconnect_def cc_on_complete_def cc_abort_handling_def)

theorem concurrent_eof_unreported_witness:
  "\<exists>c'. cc_handle_error sample_client_env (he_eof sample_client_env)
      (linked\<lparr>cc_requests := [(plain_get ''http://h/a'')\<lparr>ri_response_header_received := True\<rparr>]\<rparr>) = Inr c' \<and> cc_events c' = []"
  using concurrent_eof_unreported[of "linked\<lparr>cc_requests := [(plain_get ''http://h/a'')\<lparr>ri_response_header_received := True\<rparr>]\<rparr>"
      _ sample_client_env, OF _ ]
  by (auto simp: plain_get_def ri_new_def ef_new_def linked_ready)

text \<open>
  Bytes behind the last response make the connection take the first of an empty queue: a server can
  bring the client down with one byte too many.
\<close>

theorem concurrent_trailing_data_faults:
  assumes "cc_requests c = [ri]" and "d \<noteq> []"
  shows "cc_on_socket_receive env ok (Call_Complete n d # xs) c = Inl Out_Of_Bounds"
  using assms by (simp add: cc_on_socket_receive_def cc_on_complete_def Let_def)

theorem concurrent_trailing_data_faults_witness:
  "cc_on_socket_receive sample_client_env True [Call_Complete 3 ''x''] (linked\<lparr>cc_requests := [plain_get ''http://h/a'']\<rparr>) = Inl Out_Of_Bounds"
  by (rule concurrent_trailing_data_faults) simp_all

text \<open>A body can never be sent: \<open>send_data\<close> refuses it in every state and changes nothing.\<close>

theorem concurrent_send_refused: "cc_send_data d c = (False, c)"
  by (auto simp: cc_send_data_def cc_is_started_def)

text \<open>
  A redirected request is queued twice and sent nowhere: it is still the first of the queue when it is
  requested again, so that it waits for itself on a closed connection.
\<close>

theorem concurrent_redirect_strands:
  assumes "cc_requests c = [ri0]" and "\<not> ri_header_send ri"
  shows "cc_requests (cc_redirect env ri c) = [ri, ri] \<and> stranded (cc_redirect env ri c)"
  using assms do_close_requests[of "c\<lparr>cc_requests := [ri]\<rparr>"]
  by (simp add: cc_redirect_def cc_do_request_def stranded_def cc_is_connected_def)

theorem concurrent_redirect_strands_witness:
  "stranded (cc_redirect sample_client_env (plain_get ''http://h/b'') (linked\<lparr>cc_requests := [plain_get ''http://h/a'']\<rparr>))"
  using concurrent_redirect_strands[of "linked\<lparr>cc_requests := [plain_get ''http://h/a'']\<rparr>" "plain_get ''http://h/a''" "plain_get ''http://h/b''"]
  by simp

end
