(* ===== verification/Byte_Buffer.thy ===== *)
theory Byte_Buffer
  imports Xul_Prelude
begin

text \<open>
  \<^verbatim>\<open>include/xul/data/byte_buffer.hpp\<close>: a growable array of bytes in a block of memory. The block is the
  list of its bytes, of which those that were never written are \<open>None\<close>; its length is the capacity. A
  null pointer is the empty block. \<open>malloc\<close> gives what it is asked for.
\<close>

subsection \<open>The buffer and its operations\<close>

type_synonym block = "u8 option list"

record byte_buffer =
  bb_data :: block
  bb_size :: nat

definition bb_new :: byte_buffer where
  "bb_new = \<lparr>bb_data = [], bb_size = 0\<rparr>"

definition bb_capacity :: "byte_buffer \<Rightarrow> nat" where
  "bb_capacity b = length (bb_data b)"

definition bb_empty :: "byte_buffer \<Rightarrow> bool" where
  "bb_empty b = (bb_size b = 0)"

definition bb_of_size :: "nat \<Rightarrow> byte_buffer" where
  "bb_of_size n = \<lparr>bb_data = replicate n None, bb_size = n\<rparr>"

definition bb_filled :: "nat \<Rightarrow> u8 \<Rightarrow> byte_buffer" where
  "bb_filled n x = \<lparr>bb_data = replicate n (Some x), bb_size = n\<rparr>"

definition bb_of_bytes :: "bytes \<Rightarrow> byte_buffer" where
  "bb_of_bytes d = \<lparr>bb_data = map Some d, bb_size = length d\<rparr>"

text \<open>\<open>memcpy\<close> and \<open>fill_n\<close> into the block: writing outside of it is a fault.\<close>

definition store_at :: "nat \<Rightarrow> block \<Rightarrow> block \<Rightarrow> fault + block" where
  "store_at pos src blk =
     (if pos + length src > length blk then Inl Out_Of_Bounds
      else Inr (take pos blk @ src @ drop (pos + length src) blk))"

definition bb_swap :: "byte_buffer \<Rightarrow> byte_buffer \<Rightarrow> byte_buffer \<times> byte_buffer" where
  "bb_swap a b = (b, a)"

definition bb_reserve :: "nat \<Rightarrow> byte_buffer \<Rightarrow> fault + byte_buffer" where
  "bb_reserve n b =
     (if bb_capacity b \<ge> n then Inr b
      else let new_buffer = (bb_of_size n)\<lparr>bb_size := bb_size b\<rparr>
           in sbind (if bb_size b > 0 then store_at 0 (take (bb_size b) (bb_data b)) (bb_data new_buffer)
                     else Inr (bb_data new_buffer)) (\<lambda>blk.
                Inr (fst (bb_swap b (new_buffer\<lparr>bb_data := blk\<rparr>)))))"

definition bb_resize :: "nat \<Rightarrow> byte_buffer \<Rightarrow> fault + byte_buffer" where
  "bb_resize n b = sbind (bb_reserve n b) (\<lambda>b. Inr (b\<lparr>bb_size := n\<rparr>))"

definition bb_ensure_size :: "nat \<Rightarrow> byte_buffer \<Rightarrow> fault + byte_buffer" where
  "bb_ensure_size n b = sbind (bb_resize 0 b) (bb_resize n)"

definition bb_assign_elem :: "u8 \<Rightarrow> byte_buffer \<Rightarrow> fault + byte_buffer" where
  "bb_assign_elem x b =
     (if bb_size b > 0 then sbind (store_at 0 (replicate (bb_size b) (Some x)) (bb_data b)) (\<lambda>blk. Inr (b\<lparr>bb_data := blk\<rparr>))
      else Inr b)"

definition bb_assign :: "bytes \<Rightarrow> byte_buffer \<Rightarrow> fault + byte_buffer" where
  "bb_assign src b =
     (if length src = 0 then bb_resize 0 b
      else sbind (bb_resize (length src) b) (\<lambda>b.
        sbind (store_at 0 (map Some src) (bb_data b)) (\<lambda>blk. Inr (b\<lparr>bb_data := blk\<rparr>))))"

definition bb_append :: "bytes \<Rightarrow> byte_buffer \<Rightarrow> fault + byte_buffer" where
  "bb_append src b =
     (let old_size = bb_size b
      in sbind (bb_resize (old_size + length src) b) (\<lambda>b.
           sbind (store_at old_size (map Some src) (bb_data b)) (\<lambda>blk. Inr (b\<lparr>bb_data := blk\<rparr>))))"

text \<open>\<open>fill_n\<close> takes the count before the value: they are the other way round here.\<close>

definition bb_append_elems :: "nat \<Rightarrow> u8 \<Rightarrow> byte_buffer \<Rightarrow> fault + byte_buffer" where
  "bb_append_elems n elem b =
     (let old_size = bb_size b
      in sbind (bb_resize (old_size + n) b) (\<lambda>b.
           sbind (store_at old_size (replicate (unat elem) (Some (of_nat n))) (bb_data b)) (\<lambda>blk. Inr (b\<lparr>bb_data := blk\<rparr>))))"

text \<open>
  \<open>append\<close> of a buffer to itself: the source pointer is taken before the block may be replaced, and
  then points into freed memory.
\<close>

definition bb_append_self :: "byte_buffer \<Rightarrow> fault + byte_buffer" where
  "bb_append_self b =
     (let n = bb_size b
      in sbind (bb_resize (n + n) b) (\<lambda>b'.
           if n > 0 \<and> bb_capacity b < n + n then Inl Out_Of_Bounds
           else sbind (store_at n (take n (bb_data b')) (bb_data b')) (\<lambda>blk. Inr (b'\<lparr>bb_data := blk\<rparr>))))"

definition bb_clear :: "byte_buffer \<Rightarrow> byte_buffer" where
  "bb_clear b = fst (bb_swap b bb_new)"

definition bb_index :: "nat \<Rightarrow> byte_buffer \<Rightarrow> fault + u8 option" where
  "bb_index i b = (if i < bb_capacity b then Inr (bb_data b ! i) else Inl Out_Of_Bounds)"

subsection \<open>The buffer holds a sequence of bytes\<close>

definition bb_ok :: "byte_buffer \<Rightarrow> bool" where
  "bb_ok b \<longleftrightarrow> bb_size b \<le> bb_capacity b"

definition bb_contents :: "byte_buffer \<Rightarrow> block" where
  "bb_contents b = take (bb_size b) (bb_data b)"

lemma store_at_contents:
  "pos + length src \<le> length blk \<Longrightarrow> store_at pos src blk = Inr (take pos blk @ src @ drop (pos + length src) blk)"
  by (simp add: store_at_def)

lemma reserve_result:
  assumes "bb_ok b"
  obtains b' where "bb_reserve n b = Inr b'" "bb_ok b'" "bb_size b' = bb_size b" "bb_contents b' = bb_contents b"
    "bb_capacity b' = max n (bb_capacity b)"
proof (cases "bb_capacity b \<ge> n")
  case True
  then show ?thesis using that[of b] assms by (simp add: bb_reserve_def max_absorb2)
next
  case False
  have len: "length (take (bb_size b) (bb_data b)) = bb_size b" using assms by (simp add: bb_ok_def bb_capacity_def)
  then show ?thesis using that[of "\<lparr>bb_data = take (bb_size b) (bb_data b) @ replicate (n - bb_size b) None, bb_size = bb_size b\<rparr>"] False assms
    by (cases "bb_size b = 0")
      (simp_all add: bb_reserve_def store_at_def bb_of_size_def bb_swap_def bb_ok_def bb_capacity_def bb_contents_def max_def Let_def)
qed

lemma resize_result:
  assumes "bb_ok b"
  obtains b' where "bb_resize n b = Inr b'" "bb_ok b'" "bb_size b' = n" "take (bb_size b) (bb_contents b') = take n (bb_contents b)"
    "bb_capacity b' = max n (bb_capacity b)"
proof -
  obtain b' where r: "bb_reserve n b = Inr b'" "bb_ok b'" "bb_size b' = bb_size b" "bb_contents b' = bb_contents b"
    "bb_capacity b' = max n (bb_capacity b)" using reserve_result[OF assms] by metis
  then show ?thesis using that[of "b'\<lparr>bb_size := n\<rparr>"]
    by (simp add: bb_resize_def bb_ok_def bb_capacity_def bb_contents_def min.commute flip: take_take)
      (metis min.commute take_take)
qed

text \<open>The operations a client has, and the byte sequence they should leave.\<close>

datatype buffer_op =
  Bb_Append bytes | Bb_Assign bytes | Bb_Assign_Elem u8 | Bb_Truncate nat | Bb_Reserve nat | Bb_Clear

fun bb_op :: "buffer_op \<Rightarrow> byte_buffer \<Rightarrow> fault + byte_buffer" where
  "bb_op (Bb_Append d) b = bb_append d b"
| "bb_op (Bb_Assign d) b = bb_assign d b"
| "bb_op (Bb_Assign_Elem x) b = bb_assign_elem x b"
| "bb_op (Bb_Truncate n) b = bb_resize (min n (bb_size b)) b"
| "bb_op (Bb_Reserve n) b = bb_reserve n b"
| "bb_op Bb_Clear b = Inr (bb_clear b)"

fun list_op :: "buffer_op \<Rightarrow> bytes \<Rightarrow> bytes" where
  "list_op (Bb_Append d) xs = xs @ d"
| "list_op (Bb_Assign d) xs = d"
| "list_op (Bb_Assign_Elem x) xs = replicate (length xs) x"
| "list_op (Bb_Truncate n) xs = take n xs"
| "list_op (Bb_Reserve n) xs = xs"
| "list_op Bb_Clear xs = []"

fun bb_ops :: "buffer_op list \<Rightarrow> byte_buffer \<Rightarrow> fault + byte_buffer" where
  "bb_ops [] b = Inr b"
| "bb_ops (x # xs) b = sbind (bb_op x b) (bb_ops xs)"

definition holds_bytes :: "byte_buffer \<Rightarrow> bytes \<Rightarrow> bool" where
  "holds_bytes b xs \<longleftrightarrow> bb_ok b \<and> bb_contents b = map Some xs"

lemma holds_size: "holds_bytes b xs \<Longrightarrow> bb_size b = length xs"
  by (auto simp: holds_bytes_def bb_ok_def bb_contents_def bb_capacity_def dest: arg_cong[where f = length])

lemma append_holds:
  assumes "holds_bytes b xs"
  obtains b' where "bb_append d b = Inr b'" "holds_bytes b' (xs @ d)"
    "bb_capacity b' = max (length xs + length d) (bb_capacity b)"
proof -
  have ok: "bb_ok b" and size: "bb_size b = length xs" using assms holds_size by (auto simp: holds_bytes_def)
  obtain b1 where r: "bb_resize (length xs + length d) b = Inr b1" "bb_ok b1" "bb_size b1 = length xs + length d"
    "take (bb_size b) (bb_contents b1) = take (length xs + length d) (bb_contents b)"
    "bb_capacity b1 = max (length xs + length d) (bb_capacity b)" using resize_result[OF ok] by metis
  have front: "take (length xs) (bb_data b1) = map Some xs"
    using r(3,4) assms size by (simp add: holds_bytes_def bb_contents_def)
  let ?blk = "map Some xs @ map Some d @ drop (length xs + length d) (bb_data b1)"
  have fits: "length xs + length d \<le> length (bb_data b1)" using r(2,3) by (simp add: bb_ok_def bb_capacity_def)
  then have "bb_append d b = Inr (b1\<lparr>bb_data := ?blk\<rparr>)"
    using r(1) size front by (simp add: bb_append_def store_at_def Let_def)
  moreover have "holds_bytes (b1\<lparr>bb_data := ?blk\<rparr>) (xs @ d)" using r(3) fits
    by (simp add: holds_bytes_def bb_ok_def bb_capacity_def bb_contents_def)
  moreover have "bb_capacity (b1\<lparr>bb_data := ?blk\<rparr>) = bb_capacity b1" using fits by (simp add: bb_capacity_def)
  ultimately show ?thesis using r(5) by (intro that) simp_all
qed

lemma shrink_holds:
  assumes "holds_bytes b xs"
  obtains b' where "bb_resize (min n (length xs)) b = Inr b'" "holds_bytes b' (take n xs)" "bb_capacity b' = bb_capacity b"
proof -
  have ok: "bb_ok b" and size: "bb_size b = length xs" using assms holds_size by (auto simp: holds_bytes_def)
  obtain b1 where r: "bb_resize (min n (length xs)) b = Inr b1" "bb_ok b1" "bb_size b1 = min n (length xs)"
    "take (bb_size b) (bb_contents b1) = take (min n (length xs)) (bb_contents b)"
    "bb_capacity b1 = max (min n (length xs)) (bb_capacity b)" using resize_result[OF ok] by metis
  have "length (bb_contents b1) \<le> bb_size b" using r(3) size by (simp add: bb_contents_def)
  then have "bb_contents b1 = map Some (take n xs)" using r(4) assms
    by (simp add: holds_bytes_def take_map min_def split: if_splits)
  moreover have "bb_capacity b1 = bb_capacity b" using r(5) ok size by (simp add: bb_ok_def max_absorb2 min.coboundedI2)
  ultimately show ?thesis using that r(1,2) by (simp add: holds_bytes_def)
qed

lemma assign_is_append: "length src \<noteq> 0 \<Longrightarrow> bb_ok b \<Longrightarrow> bb_assign src b = bb_append src (b\<lparr>bb_size := 0\<rparr>)"
  by (simp add: bb_assign_def bb_append_def bb_resize_def bb_reserve_def bb_capacity_def bb_of_size_def bb_swap_def
      store_at_def bb_ok_def Let_def)

lemma assign_elem_holds:
  assumes "holds_bytes b xs"
  shows "\<exists>b'. bb_assign_elem x b = Inr b' \<and> holds_bytes b' (replicate (length xs) x)"
proof -
  have "length xs \<le> length (bb_data b)" using assms holds_size[OF assms] by (simp add: holds_bytes_def bb_ok_def bb_capacity_def)
  then show ?thesis using holds_size[OF assms] assms
    by (auto simp: bb_assign_elem_def store_at_def holds_bytes_def bb_ok_def bb_capacity_def bb_contents_def)
qed

lemma op_holds:
  assumes "holds_bytes b xs"
  shows "\<exists>b'. bb_op x b = Inr b' \<and> holds_bytes b' (list_op x xs)"
proof (cases x)
  case (Bb_Append d)
  then show ?thesis using append_holds[OF assms, of d] by auto
next
  case (Bb_Assign d)
  show ?thesis
  proof (cases "length d = 0")
    case True
    then show ?thesis using Bb_Assign shrink_holds[OF assms, of 0] by (auto simp: bb_assign_def)
  next
    case False
    have "holds_bytes (b\<lparr>bb_size := 0\<rparr>) []" by (simp add: holds_bytes_def bb_ok_def bb_contents_def)
    from append_holds[OF this, of d] show ?thesis
      using Bb_Assign False assign_is_append[of d b] assms by (auto simp: holds_bytes_def)
  qed
next
  case (Bb_Truncate n)
  then show ?thesis using shrink_holds[OF assms, of n] holds_size[OF assms] by auto
next
  case (Bb_Reserve n)
  have "bb_ok b" using assms by (simp add: holds_bytes_def)
  from reserve_result[OF this, of n] show ?thesis using Bb_Reserve assms by (auto simp: holds_bytes_def)
next
  case Bb_Clear
  then show ?thesis by (simp add: bb_clear_def bb_swap_def bb_new_def holds_bytes_def bb_ok_def bb_contents_def)
next
  case (Bb_Assign_Elem x)
  then show ?thesis using assign_elem_holds[OF assms] by auto
qed

lemma ops_hold: "holds_bytes b ys \<Longrightarrow> \<exists>b'. bb_ops xs b = Inr b' \<and> holds_bytes b' (fold list_op xs ys)"
proof (induction xs arbitrary: b ys)
  case (Cons x xs)
  then show ?case using op_holds[OF Cons.prems, of x] by auto
qed simp

text \<open>
  The buffer refines a byte sequence: appending, assigning, truncating, reserving and clearing in any
  order never access memory outside the block, leave exactly the bytes the sequence should have,
  all of them written, within the capacity.
\<close>

theorem byte_buffer_refines_list:
  "\<exists>b. bb_ops xs bb_new = Inr b \<and> bb_contents b = map Some (fold list_op xs []) \<and> bb_size b = length (fold list_op xs [])
    \<and> bb_size b \<le> bb_capacity b"
proof -
  have "holds_bytes bb_new []" by (simp add: holds_bytes_def bb_new_def bb_ok_def bb_contents_def)
  from ops_hold[OF this, of xs] obtain b where b: "bb_ops xs bb_new = Inr b" "holds_bytes b (fold list_op xs [])" by blast
  then show ?thesis using holds_size[OF b(2)] by (auto simp: holds_bytes_def bb_ok_def)
qed

text \<open>
  Appending \<open>n\<close> copies of a byte to a full buffer fails: the count and the byte are passed in the
  wrong order, so that as many copies of \<open>n\<close> as the byte says are written. They are written outside the
  block when the byte is larger than \<open>n\<close>; otherwise the rest of the new bytes is never written.
\<close>

theorem append_elems_swapped:
  assumes "holds_bytes b xs" and "bb_capacity b = length xs"
  shows "bb_append_elems n elem b =
    (if unat elem > n then Inl Out_Of_Bounds
     else Inr \<lparr>bb_data = map Some xs @ replicate (unat elem) (Some (of_nat n)) @ replicate (n - unat elem) None,
               bb_size = length xs + n\<rparr>)"
proof -
  have size: "bb_size b = length xs" using holds_size[OF assms(1)] .
  have data: "bb_data b = map Some xs" using assms size by (simp add: holds_bytes_def bb_contents_def bb_capacity_def)
  have "bb_resize (length xs + n) b = Inr \<lparr>bb_data = map Some xs @ replicate n None, bb_size = length xs + n\<rparr>"
    using size data by (cases b) (auto simp: bb_resize_def bb_reserve_def bb_capacity_def bb_of_size_def bb_swap_def store_at_def Let_def)
  then show ?thesis using size by (simp add: bb_append_elems_def store_at_def Let_def)
qed

theorem append_elems_swapped_witness:
  "bb_append_elems 2 65 (bb_of_bytes [7]) = Inl Out_Of_Bounds"
  using append_elems_swapped[of "bb_of_bytes [7]" "[7]" 2 65]
  by (simp add: bb_of_bytes_def holds_bytes_def bb_ok_def bb_capacity_def bb_contents_def)

text \<open>Appending a buffer to itself reads freed memory unless it has room for both copies.\<close>

theorem append_self_safe_iff_room:
  assumes "holds_bytes b xs" and "xs \<noteq> []"
  shows "if bb_capacity b < 2 * length xs then bb_append_self b = Inl Out_Of_Bounds
    else \<exists>b'. bb_append_self b = Inr b' \<and> holds_bytes b' (xs @ xs)"
proof -
  have size: "bb_size b = length xs" using holds_size[OF assms(1)] .
  have ok: "bb_ok b" and con: "take (length xs) (bb_data b) = map Some xs"
    using assms size by (simp_all add: holds_bytes_def bb_contents_def)
  show ?thesis
  proof (cases "bb_capacity b < 2 * length xs")
    case True
    obtain b' where "bb_resize (length xs + length xs) b = Inr b'" using resize_result[OF ok] by metis
    then show ?thesis using True size assms(2) by (simp add: bb_append_self_def Let_def)
  next
    case False
    then have "bb_resize (length xs + length xs) b = Inr (b\<lparr>bb_size := length xs + length xs\<rparr>)"
      by (simp add: bb_resize_def bb_reserve_def)
    then show ?thesis using False size con assms(2)
      by (simp add: bb_append_self_def store_at_def holds_bytes_def bb_ok_def bb_capacity_def bb_contents_def Let_def)
  qed
qed

theorem append_self_safe_iff_room_witness: "bb_append_self (bb_of_bytes [7]) = Inl Out_Of_Bounds"
  using append_self_safe_iff_room[of "bb_of_bytes [7]" "[7]"]
  by (simp add: bb_of_bytes_def holds_bytes_def bb_ok_def bb_capacity_def bb_contents_def)

end
