(* ===== verification/Log_File.thy ===== *)
theory Log_File
  imports Options Paths Timers
begin

text \<open>
  \<^verbatim>\<open>include/xul/libs/log/file_log_appender.hpp\<close>: the log filter that writes messages to a file and rolls
  it over. The file system is a map from paths to contents; which paths can be opened for writing is the
  environment's choice, and so is the clock (milliseconds, of which 32 bits are read). A write is taken to
  reach the file at once. Messages that wait for the thread of a background appender are a queue.
\<close>

subsection \<open>Files\<close>

type_synonym files = "string \<rightharpoonup> string"

text \<open>\<open>::rename\<close> replaces the target and fails when there is no source; \<open>::unlink\<close>.\<close>

definition fs_rename :: "string \<Rightarrow> string \<Rightarrow> files \<Rightarrow> files" where
  "fs_rename src dst fs = (case fs src of None \<Rightarrow> fs | Some c \<Rightarrow> (fs(src := None))(dst \<mapsto> c))"

definition fs_remove_file :: "string \<Rightarrow> files \<Rightarrow> files" where
  "fs_remove_file path fs = fs(path := None)"

text \<open>\<open>fopen\<close> with the modes \<open>wb\<close> and \<open>ab\<close>, and \<open>fwrite\<close>.\<close>

definition fs_truncate :: "string \<Rightarrow> files \<Rightarrow> files" where
  "fs_truncate path fs = fs(path \<mapsto> [])"

definition fs_open_append :: "string \<Rightarrow> files \<Rightarrow> files" where
  "fs_open_append path fs = (case fs path of None \<Rightarrow> fs(path \<mapsto> []) | Some _ \<Rightarrow> fs)"

definition fs_write :: "string \<Rightarrow> string \<Rightarrow> files \<Rightarrow> files" where
  "fs_write path s fs = (case fs path of None \<Rightarrow> fs | Some c \<Rightarrow> fs(path \<mapsto> c @ s))"

definition fs_size :: "string \<Rightarrow> files \<Rightarrow> int" where
  "fs_size path fs = (case fs path of None \<Rightarrow> - 1 | Some c \<Rightarrow> int (length c))"

subsection \<open>The appender\<close>

datatype log_task = Log_Task int string | Stop_Task

record file_log =
  fl_files :: files
  fl_fout :: "string option"
  fl_dir :: string
  fl_name :: string
  fl_last_flush_time :: u32
  fl_dirty :: bool
  fl_append :: bool
  fl_background :: bool
  fl_roll_size :: int
  fl_roll_count :: int
  fl_runner :: bool
  fl_abort :: bool
  fl_queue :: "log_task list"

definition fl_new :: "u32 \<Rightarrow> files \<Rightarrow> file_log" where
  "fl_new now fs = \<lparr>fl_files = fs, fl_fout = None, fl_dir = [], fl_name = [], fl_last_flush_time = now, fl_dirty = False,
     fl_append = False, fl_background = True, fl_roll_size = 0, fl_roll_count = 0, fl_runner = False, fl_abort = False,
     fl_queue = []\<rparr>"

text \<open>The items of the parameter parser are bound to the members.\<close>

definition fl_params :: "file_log \<Rightarrow> item_map" where
  "fl_params a =
     [(''append'', make_item ''append'' Bool_Item (Opt_Bool (fl_append a)) (Opt_Bool False)),
      (''background'', make_item ''background'' Bool_Item (Opt_Bool (fl_background a)) (Opt_Bool True)),
      (''dir'', make_item ''dir'' String_Item (Opt_String (fl_dir a)) (Opt_String [])),
      (''name'', make_item ''name'' String_Item (Opt_String (fl_name a)) (Opt_String [])),
      (''roll_count'', make_item ''roll_count'' Number_Item (Opt_Int (fl_roll_count a)) (Opt_Int 0)),
      (''roll_size'', make_item ''roll_size'' (Unit_Item binary_byte_count_units) (Opt_Int (fl_roll_size a)) (Opt_Int 0))]"

fun fl_bind_param :: "string \<times> option_item \<Rightarrow> file_log \<Rightarrow> file_log" where
  "fl_bind_param (n, item) a = (case oi_value item of
      Opt_Bool b \<Rightarrow> if n = ''append'' then a\<lparr>fl_append := b\<rparr> else if n = ''background'' then a\<lparr>fl_background := b\<rparr> else a
    | Opt_String s \<Rightarrow> if n = ''dir'' then a\<lparr>fl_dir := s\<rparr> else if n = ''name'' then a\<lparr>fl_name := s\<rparr> else a
    | Opt_Int i \<Rightarrow> if n = ''roll_count'' then a\<lparr>fl_roll_count := i\<rparr> else if n = ''roll_size'' then a\<lparr>fl_roll_size := i\<rparr> else a)"

definition fl_set_parameter :: "string \<Rightarrow> string \<Rightarrow> file_log \<Rightarrow> file_log" where
  "fl_set_parameter name val a = fold fl_bind_param (snd (dp_parse name val (fl_params a))) a"

definition fl_log_path :: "file_log \<Rightarrow> string" where
  "fl_log_path a = path_join Posix_Paths (fl_dir a) (fl_name a @ ''.log'')"

definition fl_roll_path :: "file_log \<Rightarrow> int \<Rightarrow> string" where
  "fl_roll_path a index = path_join Posix_Paths (fl_dir a) (fl_name a @ ''.'' @ numerics_format index @ ''.log'')"

definition fl_close :: "file_log \<Rightarrow> file_log" where
  "fl_close a = a\<lparr>fl_fout := None\<rparr>"

definition fl_write :: "string \<Rightarrow> file_log \<Rightarrow> file_log" where
  "fl_write s a = (case fl_fout a of None \<Rightarrow> a | Some p \<Rightarrow> a\<lparr>fl_files := fs_write p s (fl_files a)\<rparr>)"

definition fl_open_log :: "(string \<Rightarrow> bool) \<Rightarrow> bool \<Rightarrow> file_log \<Rightarrow> bool \<times> file_log" where
  "fl_open_log can_open first_time a =
     (let a = a\<lparr>fl_dirty := False\<rparr>; filepath = fl_log_path a; a = fl_close a;
          a' = (if first_time \<and> fl_append a
                then a\<lparr>fl_fout := Some filepath, fl_files := fs_open_append filepath (fl_files a)\<rparr>
                else a\<lparr>fl_fout := Some filepath, fl_files := fs_truncate filepath (fl_files a)\<rparr>)
      in if \<not> can_open filepath then (False, a)
         else if first_time \<and> fl_append a' then (True, fl_write [CHR 10, CHR 10] a')
         else (True, a'))"

text \<open>The loop of \<open>roll_over\<close>: indices from \<open>k - 1\<close> down to zero, and the path that is free.\<close>

fun fl_roll_loop :: "file_log \<Rightarrow> string \<Rightarrow> nat \<Rightarrow> files \<Rightarrow> string \<times> files" where
  "fl_roll_loop a filepath 0 fs = (filepath, fs)"
| "fl_roll_loop a filepath (Suc k) fs =
     (let young = fl_roll_path a (int k) in fl_roll_loop a young k (fs_rename young filepath fs))"

definition fl_roll_over :: "file_log \<Rightarrow> file_log" where
  "fl_roll_over a =
     (let a = fl_close a in
      if fl_roll_count a \<le> 0 then a
      else let filepath = fl_roll_path a (fl_roll_count a - 1);
               (filepath, fs) = fl_roll_loop a filepath (nat (fl_roll_count a - 1)) (fs_remove_file filepath (fl_files a))
           in a\<lparr>fl_files := fs_rename (fl_log_path a) filepath fs\<rparr>)"

definition fl_flush_log :: "(string \<Rightarrow> bool) \<Rightarrow> u32 \<Rightarrow> file_log \<Rightarrow> file_log" where
  "fl_flush_log can_open now a =
     (let a = a\<lparr>fl_dirty := False, fl_last_flush_time := now\<rparr>;
          size = (case fl_fout a of None \<Rightarrow> - 1 | Some p \<Rightarrow> fs_size p (fl_files a))
      in if fl_roll_size a > 0 \<and> size > fl_roll_size a
         then snd (fl_open_log can_open False (if fl_roll_count a > 0 then fl_roll_over a else a))
         else a)"

text \<open>A message is written and handed to the next filter.\<close>

definition fl_do_log :: "(string \<Rightarrow> bool) \<Rightarrow> u32 \<Rightarrow> int \<Rightarrow> string \<Rightarrow> file_log \<Rightarrow> file_log \<times> (int \<times> string) list" where
  "fl_do_log can_open now level msg a =
     ((if fl_fout a \<noteq> None
       then let a = fl_write [CHR 10] (fl_write msg a)
            in if elapsed32 now (fl_last_flush_time a) > 5 * 1000 then fl_flush_log can_open now a else a
       else a), [(level, msg)])"

text \<open>Without a runner, a background appender uses a null pointer.\<close>

definition fl_log ::
    "(string \<Rightarrow> bool) \<Rightarrow> u32 \<Rightarrow> int \<Rightarrow> string \<Rightarrow> file_log \<Rightarrow> fault + file_log \<times> (int \<times> string) list" where
  "fl_log can_open now level msg a =
     (if fl_background a
      then if fl_runner a then Inr (a\<lparr>fl_queue := fl_queue a @ [Log_Task level msg]\<rparr>, []) else Inl Out_Of_Bounds
      else Inr (fl_do_log can_open now level msg a))"

definition fl_start :: "(string \<Rightarrow> bool) \<Rightarrow> string \<Rightarrow> file_log \<Rightarrow> bool \<times> file_log" where
  "fl_start can_open current_directory a =
     (let a = (if fl_dir a = [] then a\<lparr>fl_dir := current_directory\<rparr> else a)
      in if fl_name a = [] then (False, a)
         else let (ok, a) = fl_open_log can_open True a
              in if \<not> ok then (False, a)
                 else let a = a\<lparr>fl_abort := False\<rparr>
                      in (True, if fl_background a then a\<lparr>fl_runner := True\<rparr> else a))"

definition fl_stop :: "file_log \<Rightarrow> file_log" where
  "fl_stop a =
     (if fl_background a
      then let a = a\<lparr>fl_abort := True\<rparr>
           in if fl_runner a then a\<lparr>fl_queue := fl_queue a @ [Stop_Task]\<rparr> else a
      else fl_close a)"

text \<open>The thread of the appender takes the next task.\<close>

definition fl_on_log :: "(string \<Rightarrow> bool) \<Rightarrow> u32 \<Rightarrow> int \<Rightarrow> string \<Rightarrow> file_log \<Rightarrow> file_log \<times> (int \<times> string) list" where
  "fl_on_log can_open now level msg a = (if fl_abort a then (a, []) else fl_do_log can_open now level msg a)"

definition fl_run_task :: "(string \<Rightarrow> bool) \<Rightarrow> u32 \<Rightarrow> file_log \<Rightarrow> file_log \<times> (int \<times> string) list" where
  "fl_run_task can_open now a = (case fl_queue a of
      [] \<Rightarrow> (a, [])
    | Log_Task level msg # q \<Rightarrow> fl_on_log can_open now level msg (a\<lparr>fl_queue := q\<rparr>)
    | Stop_Task # q \<Rightarrow> (fl_close (a\<lparr>fl_queue := q\<rparr>), []))"

subsection \<open>The paths are distinct\<close>

lemma path_join_inj: "path_join tr d x = path_join tr d y \<longleftrightarrow> x = y"
  by (simp add: path_join_def)

lemma format_inj: "numerics_format i = numerics_format j \<longleftrightarrow> i = j"
  using try_parse_format by (metis option.inject)

lemma format_starts: "\<exists>c r. numerics_format i = c # r \<and> (c = CHR ''-'' \<or> is_digit c)"
proof -
  have "\<exists>c r. dec_digits n = c # r \<and> is_digit c" for n
    using dec_digits_ok[of n] by (cases "dec_digits n") auto
  from this[of "nat (- i)"] this[of "nat i"] show ?thesis by (auto simp: numerics_format_def)
qed

lemma roll_path_inj [simp]: "fl_roll_path a i = fl_roll_path a j \<longleftrightarrow> i = j"
  by (simp add: fl_roll_path_def path_join_inj format_inj)

lemma roll_path_not_log [simp]: "fl_roll_path a i \<noteq> fl_log_path a" "fl_log_path a \<noteq> fl_roll_path a i"
  using format_starts[of i]
  by (auto simp: fl_roll_path_def fl_log_path_def path_join_inj is_digit_def)

subsection \<open>Rolling over\<close>

definition roll_file :: "file_log \<Rightarrow> nat \<Rightarrow> string option" where
  "roll_file a i = fl_files a (fl_roll_path a (int i))"

definition roll_text :: "file_log \<Rightarrow> string" where
  "roll_text a = concat (map (\<lambda>i. case roll_file a i of None \<Rightarrow> [] | Some c \<Rightarrow> c) (rev [0..<nat (fl_roll_count a)]))"

definition log_text :: "file_log \<Rightarrow> string" where
  "log_text a = (case fl_files a (fl_log_path a) of None \<Rightarrow> [] | Some c \<Rightarrow> c)"

lemma fs_rename_to_free:
  "fs dst = None \<Longrightarrow> fs_rename src dst fs = fs(src := None, dst := fs src)"
  by (auto simp: fs_rename_def fun_eq_iff split: option.splits)

definition loop_shifted :: "file_log \<Rightarrow> nat \<Rightarrow> files \<Rightarrow> files \<Rightarrow> bool" where
  "loop_shifted a k fs fs' \<longleftrightarrow> fs' (fl_roll_path a 0) = None
     \<and> (\<forall>i<k. fs' (fl_roll_path a (int (Suc i))) = fs (fl_roll_path a (int i)))
     \<and> (\<forall>q. (\<forall>i\<le>k. q \<noteq> fl_roll_path a (int i)) \<longrightarrow> fs' q = fs q)"

lemma roll_loop_shifts:
  assumes "fs (fl_roll_path a (int k)) = None"
  shows "\<exists>fs'. fl_roll_loop a (fl_roll_path a (int k)) k fs = (fl_roll_path a 0, fs') \<and> loop_shifted a k fs fs'"
  using assms
proof (induction k arbitrary: fs)
  case 0
  then show ?case by (simp add: loop_shifted_def)
next
  case (Suc k)
  let ?fs = "fs_rename (fl_roll_path a (int k)) (fl_roll_path a (int (Suc k))) fs"
  have eq: "?fs = fs(fl_roll_path a (int k) := None, fl_roll_path a (int (Suc k)) := fs (fl_roll_path a (int k)))"
    using Suc.prems by (rule fs_rename_to_free)
  have free: "?fs (fl_roll_path a (int k)) = None" unfolding eq by simp
  from Suc.IH[of ?fs, OF free] obtain fs' where ih: "fl_roll_loop a (fl_roll_path a (int k)) k ?fs = (fl_roll_path a 0, fs')"
    "loop_shifted a k ?fs fs'" by blast
  have low: "fs' (fl_roll_path a (int (Suc i))) = ?fs (fl_roll_path a (int i))" if "i < k" for i
    using ih(2) that unfolding loop_shifted_def by blast
  have other: "fs' q = ?fs q" if "\<forall>i\<le>k. q \<noteq> fl_roll_path a (int i)" for q
    using ih(2) that unfolding loop_shifted_def by blast
  have "loop_shifted a (Suc k) fs fs'" unfolding loop_shifted_def
  proof (intro conjI allI impI)
    show "fs' (fl_roll_path a 0) = None" using ih(2) unfolding loop_shifted_def by blast
    show "fs' (fl_roll_path a (int (Suc i))) = fs (fl_roll_path a (int i))" if "i < Suc k" for i
    proof (cases "i = k")
      case True
      then show ?thesis using other[of "fl_roll_path a (int (Suc k))"] unfolding eq by simp
    next
      case False
      then show ?thesis using that low[of i] unfolding eq by simp
    qed
    show "fs' q = fs q" if "\<forall>i\<le>Suc k. q \<noteq> fl_roll_path a (int i)" for q
      using that[rule_format, of "Suc k"] that[rule_format, of k] that other[of q] unfolding eq by simp
  qed
  then show ?case using ih(1) by (auto simp: Let_def)
qed

lemma path_close [simp]:
  "fl_roll_path (a\<lparr>fl_fout := x\<rparr>) = fl_roll_path a" "fl_log_path (a\<lparr>fl_fout := x\<rparr>) = fl_log_path a"
  "fl_roll_path (a\<lparr>fl_files := y\<rparr>) = fl_roll_path a" "fl_log_path (a\<lparr>fl_files := y\<rparr>) = fl_log_path a"
  "fl_roll_path (a\<lparr>fl_dirty := z\<rparr>) = fl_roll_path a" "fl_log_path (a\<lparr>fl_dirty := z\<rparr>) = fl_log_path a"
  "fl_roll_path (a\<lparr>fl_last_flush_time := w\<rparr>) = fl_roll_path a" "fl_log_path (a\<lparr>fl_last_flush_time := w\<rparr>) = fl_log_path a"
  by (simp_all add: fun_eq_iff fl_roll_path_def fl_log_path_def)

lemma roll_loop_close [simp]: "fl_roll_loop (a\<lparr>fl_fout := x\<rparr>) p k fs = fl_roll_loop a p k fs"
  by (induction k arbitrary: p fs) (simp_all add: Let_def)

lemma roll_over_shifts:
  assumes count: "fl_roll_count a = int k + 1"
  shows "\<exists>fs'. fl_roll_over a = a\<lparr>fl_fout := None, fl_files := fs'\<rparr>
    \<and> fs' (fl_roll_path a 0) = fl_files a (fl_log_path a)
    \<and> (\<forall>i<k. fs' (fl_roll_path a (int (Suc i))) = fl_files a (fl_roll_path a (int i)))"
proof -
  let ?fs = "fs_remove_file (fl_roll_path a (int k)) (fl_files a)"
  have "?fs (fl_roll_path a (int k)) = None" by (simp add: fs_remove_file_def)
  from roll_loop_shifts[of ?fs a k, OF this] obtain fs' where r: "fl_roll_loop a (fl_roll_path a (int k)) k ?fs = (fl_roll_path a 0, fs')"
    "loop_shifted a k ?fs fs'" by blast
  have over: "fl_roll_over a = a\<lparr>fl_fout := None, fl_files := fs_rename (fl_log_path a) (fl_roll_path a 0) fs'\<rparr>"
    using count r(1) by (simp add: fl_roll_over_def fl_close_def Let_def)
  have free: "fs' (fl_roll_path a 0) = None" and log: "fs' (fl_log_path a) = fl_files a (fl_log_path a)"
    and low: "\<And>i. i < k \<Longrightarrow> fs' (fl_roll_path a (int (Suc i))) = fl_files a (fl_roll_path a (int i))"
    using r(2) by (simp_all add: loop_shifted_def fs_remove_file_def)
  show ?thesis unfolding over fs_rename_to_free[of fs', OF free] using log low
    by (intro exI[of _ "fs'(fl_log_path a := None, fl_roll_path a 0 := fs' (fl_log_path a))"]) auto
qed

subsection \<open>What the files keep\<close>

fun fl_run :: "(string \<Rightarrow> bool) \<Rightarrow> (u32 \<times> int \<times> string) list \<Rightarrow> file_log \<Rightarrow> file_log" where
  "fl_run can_open [] a = a"
| "fl_run can_open ((now, level, msg) # xs) a = fl_run can_open xs (fst (fl_do_log can_open now level msg a))"

definition logged :: "(u32 \<times> int \<times> string) list \<Rightarrow> string" where
  "logged xs = concat (map (\<lambda>(now, level, msg). msg @ [CHR 10]) xs)"

text \<open>
  The \<open>m\<close> youngest roll files exist and are longer than the roll size; together with the log they hold the
  end of the text that was logged, all of it unless every roll file is in use.
\<close>

definition rolls_full :: "file_log \<Rightarrow> nat \<Rightarrow> bool" where
  "rolls_full a m \<longleftrightarrow> m \<le> nat (fl_roll_count a)
     \<and> (\<forall>i<m. \<exists>c. roll_file a i = Some c \<and> int (length c) > fl_roll_size a)
     \<and> (\<forall>i. m \<le> i \<and> i < nat (fl_roll_count a) \<longrightarrow> roll_file a i = None)"

definition log_keeps :: "file_log \<Rightarrow> string \<Rightarrow> string \<Rightarrow> nat \<Rightarrow> bool" where
  "log_keeps a hist lost m \<longleftrightarrow> fl_fout a = Some (fl_log_path a) \<and> (\<exists>c. fl_files a (fl_log_path a) = Some c)
     \<and> rolls_full a m \<and> (lost \<noteq> [] \<longrightarrow> m = nat (fl_roll_count a) \<and> fl_roll_size a > 0)
     \<and> hist = lost @ roll_text a @ log_text a"

lemma write_keeps:
  assumes "log_keeps a hist lost m"
  shows "log_keeps (fl_write s a) (hist @ s) lost m"
proof -
  obtain c where c: "fl_files a (fl_log_path a) = Some c" and out: "fl_fout a = Some (fl_log_path a)"
    using assms by (auto simp: log_keeps_def)
  have w: "fl_write s a = a\<lparr>fl_files := (fl_files a)(fl_log_path a \<mapsto> c @ s)\<rparr>" using c out by (simp add: fl_write_def fs_write_def)
  have r: "roll_file (fl_write s a) = roll_file a" by (simp add: w roll_file_def fun_eq_iff)
  have "roll_text (fl_write s a) = roll_text a" by (simp add: roll_text_def r) (simp add: w)
  moreover have "log_text (fl_write s a) = log_text a @ s" using c by (simp add: w log_text_def)
  moreover have "rolls_full (fl_write s a) m = rolls_full a m" by (simp add: rolls_full_def r) (simp add: w)
  ultimately show ?thesis using assms by (simp add: log_keeps_def) (simp add: w)
qed

lemma upt_rev_split: "rev [0..<Suc k] = map Suc (rev [0..<k]) @ [0]"
  by (simp add: upt_conv_Cons rev_map flip: map_Suc_upt del: upt_Suc)

lemma roll_keeps:
  assumes keeps: "log_keeps a hist lost m" and can: "can_open (fl_log_path a)"
    and size: "fl_roll_size a > 0" "int (length (log_text a)) > fl_roll_size a"
  shows "\<exists>lost' m'. log_keeps (snd (fl_open_log can_open False (if fl_roll_count a > 0 then fl_roll_over a else a))) hist lost' m'"
proof (cases "fl_roll_count a > 0")
  case True
  define k where "k = nat (fl_roll_count a - 1)"
  have count: "fl_roll_count a = int k + 1" using True by (simp add: k_def)
  obtain fs' where over: "fl_roll_over a = a\<lparr>fl_fout := None, fl_files := fs'\<rparr>"
    and first: "fs' (fl_roll_path a 0) = fl_files a (fl_log_path a)"
    and next_rolls: "\<And>i. i < k \<Longrightarrow> fs' (fl_roll_path a (int (Suc i))) = fl_files a (fl_roll_path a (int i))"
    using roll_over_shifts[OF count] by blast
  obtain b where b: "b = snd (fl_open_log can_open False (fl_roll_over a))" by blast
  have bdef: "b = a\<lparr>fl_fout := Some (fl_log_path a), fl_dirty := False, fl_files := fs'(fl_log_path a \<mapsto> [])\<rparr>"
    using can unfolding b over by (simp add: fl_open_log_def fl_close_def fs_truncate_def Let_def)
  obtain c where c: "fl_files a (fl_log_path a) = Some c" using keeps by (auto simp: log_keeps_def)
  have path: "fl_log_path b = fl_log_path a" "fl_roll_path b = fl_roll_path a" unfolding bdef by simp_all
  have r0: "roll_file b 0 = Some c" and rS: "\<And>i. i < k \<Longrightarrow> roll_file b (Suc i) = roll_file a i"
    using first next_rolls c unfolding roll_file_def path by (simp_all add: bdef)
  have cb: "fl_roll_count b = int k + 1" "fl_roll_size b = fl_roll_size a" using count by (simp_all add: bdef)
  have count_nat: "nat (int k + 1) = Suc k" by simp
  let ?g = "\<lambda>i. case roll_file a i of None \<Rightarrow> [] | Some c \<Rightarrow> c"
  have "roll_text b = concat (map (\<lambda>i. case roll_file b i of None \<Rightarrow> [] | Some c \<Rightarrow> c) (rev [0..<Suc k]))"
    unfolding roll_text_def cb count_nat by (rule refl)
  also have "\<dots> = concat (map ?g (rev [0..<k])) @ c" unfolding upt_rev_split using r0 rS
    by (auto simp: comp_def intro!: arg_cong[of _ _ concat] map_cong)
  finally have tb: "roll_text b = concat (map ?g (rev [0..<k])) @ c" .
  have ta: "roll_text a = ?g k @ concat (map ?g (rev [0..<k]))" unfolding roll_text_def count count_nat by simp
  have full: "rolls_full a m" and m: "m \<le> Suc k" using keeps count by (auto simp: log_keeps_def rolls_full_def)
  have gk: "?g k = []" if "m \<le> k" using full that count unfolding rolls_full_def by simp
  have "rolls_full b (min (Suc m) (Suc k))"
    unfolding rolls_full_def cb
  proof (intro conjI allI impI)
    fix i assume i: "i < min (Suc m) (Suc k)"
    show "\<exists>c. roll_file b i = Some c \<and> int (length c) > fl_roll_size a"
    proof (cases i)
      case 0
      then show ?thesis using r0 size(2) c by (simp add: log_text_def)
    next
      case (Suc j)
      then have "roll_file b i = roll_file a j" using i rS[of j] by simp
      then show ?thesis using full i Suc by (auto simp: rolls_full_def)
    qed
  next
    fix i assume i: "min (Suc m) (Suc k) \<le> i \<and> i < nat (int k + 1)"
    then obtain j where j: "i = Suc j" by (cases i) auto
    then have "roll_file b i = roll_file a j" using i rS[of j] count_nat by simp
    moreover have "m \<le> j" "j < nat (fl_roll_count a)" using i j count count_nat by auto
    ultimately show "roll_file b i = None" using full unfolding rolls_full_def by simp
  qed simp
  moreover have "hist = (lost @ ?g k) @ roll_text b @ log_text b"
  proof -
    have "log_text b = []" unfolding log_text_def path by (simp add: bdef)
    moreover have "log_text a = c" using c by (simp add: log_text_def)
    ultimately show ?thesis using keeps ta tb by (simp add: log_keeps_def)
  qed
  moreover have "min (Suc m) (Suc k) = nat (fl_roll_count b) \<and> fl_roll_size b > 0" if "lost @ ?g k \<noteq> []"
  proof -
    have "m \<ge> k" using that keeps gk count by (cases "m \<le> k") (auto simp: log_keeps_def)
    then show ?thesis using cb size(1) m by simp
  qed
  ultimately have "log_keeps b hist (lost @ ?g k) (min (Suc m) (Suc k))"
    unfolding log_keeps_def path by (simp add: bdef)
  then show ?thesis using True unfolding b by auto
next
  case False
  define b where "b = snd (fl_open_log can_open False a)"
  have bdef: "b = a\<lparr>fl_fout := Some (fl_log_path a), fl_dirty := False, fl_files := (fl_files a)(fl_log_path a \<mapsto> [])\<rparr>"
    using can by (simp add: b_def fl_open_log_def fl_close_def fs_truncate_def Let_def)
  have "rolls_full b 0" using False by (simp add: rolls_full_def bdef)
  moreover have "hist = (lost @ log_text a) @ roll_text b @ log_text b"
    using keeps False by (simp add: log_keeps_def roll_text_def bdef log_text_def)
  ultimately have "log_keeps b hist (lost @ log_text a) 0"
    using False size(1) unfolding log_keeps_def bdef by simp
  then show ?thesis using False unfolding b_def by auto
qed

lemma do_log_keeps:
  assumes keeps: "log_keeps a hist lost m" and can: "can_open (fl_log_path a)"
  shows "\<exists>lost' m'. log_keeps (fst (fl_do_log can_open now level msg a)) (hist @ msg @ [CHR 10]) lost' m'"
proof -
  define w where "w = fl_write [CHR 10] (fl_write msg a)"
  have kw: "log_keeps w (hist @ msg @ [CHR 10]) lost m" using write_keeps[OF write_keeps[OF keeps], of "[CHR 10]" msg] by (simp add: w_def)
  have out: "fl_fout a \<noteq> None" using keeps by (simp add: log_keeps_def)
  define v where "v = w\<lparr>fl_dirty := False, fl_last_flush_time := now\<rparr>"
  have kv: "log_keeps v (hist @ msg @ [CHR 10]) lost m" using kw
    by (simp add: v_def log_keeps_def rolls_full_def roll_file_def roll_text_def log_text_def)
  have pv: "fl_log_path v = fl_log_path a" by (simp add: v_def w_def fl_write_def split: option.split)
  obtain c where c: "fl_files v (fl_log_path v) = Some c" and fv: "fl_fout v = Some (fl_log_path v)" using kv by (auto simp: log_keeps_def)
  have size: "(case fl_fout v of None \<Rightarrow> - 1 | Some p \<Rightarrow> fs_size p (fl_files v)) = int (length (log_text v))"
    using c fv by (simp add: fs_size_def log_text_def)
  have "fl_flush_log can_open now w =
    (if fl_roll_size v > 0 \<and> int (length (log_text v)) > fl_roll_size v
     then snd (fl_open_log can_open False (if fl_roll_count v > 0 then fl_roll_over v else v)) else v)"
    unfolding fl_flush_log_def v_def[symmetric] Let_def size by (rule refl)
  then have "\<exists>lost' m'. log_keeps (fl_flush_log can_open now w) (hist @ msg @ [CHR 10]) lost' m'"
    using roll_keeps[OF kv] can kv unfolding pv by auto
  then show ?thesis using kw out by (auto simp: fl_do_log_def w_def Let_def)
qed

lemma config_kept:
  "fl_log_path (fst (fl_do_log can_open now level msg a)) = fl_log_path a \<and>
   fl_roll_count (fst (fl_do_log can_open now level msg a)) = fl_roll_count a \<and>
   fl_roll_size (fst (fl_do_log can_open now level msg a)) = fl_roll_size a"
  by (auto simp: fl_do_log_def fl_flush_log_def fl_open_log_def fl_write_def fl_close_def fl_roll_over_def Let_def
      split: option.splits prod.splits)

lemma run_keeps:
  "log_keeps a hist lost m \<Longrightarrow> can_open (fl_log_path a) \<Longrightarrow>
   \<exists>lost' m'. log_keeps (fl_run can_open xs a) (hist @ logged xs) lost' m'
     \<and> fl_roll_count (fl_run can_open xs a) = fl_roll_count a \<and> fl_roll_size (fl_run can_open xs a) = fl_roll_size a"
proof (induction xs arbitrary: a hist lost m)
  case Nil
  then show ?case by (auto simp: logged_def)
next
  case (Cons x xs)
  obtain now level msg where x: "x = (now, level, msg)" by (cases x)
  obtain lost' m' where k: "log_keeps (fst (fl_do_log can_open now level msg a)) (hist @ msg @ [CHR 10]) lost' m'"
    using do_log_keeps[of a hist lost m can_open, OF Cons.prems] by blast
  show ?case using Cons.IH[OF k] Cons.prems(2) config_kept[of can_open now level msg a] by (simp add: x logged_def)
qed

lemma rolls_full_length:
  "rolls_full a m \<Longrightarrow> m = nat (fl_roll_count a) \<Longrightarrow> int (length (roll_text a)) \<ge> int m * (fl_roll_size a + 1)"
proof -
  assume full: "rolls_full a m" and m: "m = nat (fl_roll_count a)"
  have "int k * (fl_roll_size a + 1) \<le> int (length (concat (map (\<lambda>i. case roll_file a i of None \<Rightarrow> [] | Some c \<Rightarrow> c) (rev [0..<k]))))"
    if "k \<le> m" for k using that
  proof (induction k)
    case (Suc k)
    have "\<exists>c. roll_file a k = Some c \<and> int (length c) > fl_roll_size a" using full Suc.prems by (simp add: rolls_full_def)
    then show ?case using Suc by (auto simp: algebra_simps)
  qed simp
  from this[of m] show ?thesis unfolding roll_text_def m[symmetric] by simp
qed

lemma start_keeps:
  assumes "fl_start can_open dir a = (True, a')" and "\<not> fl_append a" and "\<forall>i. roll_file a' i = None"
  shows "log_keeps a' [] [] 0 \<and> can_open (fl_log_path a') \<and> fl_roll_size a' = fl_roll_size a \<and> fl_roll_count a' = fl_roll_count a"
proof -
  define b where "b = (if fl_dir a = [] then a\<lparr>fl_dir := dir\<rparr> else a)"
  have b: "fl_append b = fl_append a" "fl_roll_size b = fl_roll_size a" "fl_roll_count b = fl_roll_count a" by (simp_all add: b_def)
  define c where "c = b\<lparr>fl_fout := Some (fl_log_path b), fl_dirty := False, fl_files := (fl_files b)(fl_log_path b \<mapsto> [])\<rparr>"
  have can: "can_open (fl_log_path b)" and a': "a' = (if fl_background b then c\<lparr>fl_abort := False, fl_runner := True\<rparr> else c\<lparr>fl_abort := False\<rparr>)"
    using assms(1,2) b(1)
    by (auto simp: fl_start_def b_def[symmetric] fl_open_log_def fl_close_def fs_truncate_def Let_def c_def split: if_splits prod.splits)
  have path: "fl_log_path a' = fl_log_path b" by (simp add: a' c_def fl_log_path_def)
  have files: "fl_files a' = (fl_files b)(fl_log_path b \<mapsto> [])" by (simp add: a' c_def)
  have empty: "(case roll_file a' i of None \<Rightarrow> [] | Some c \<Rightarrow> c) = []" for i using assms(3) by simp
  have "roll_text a' = []" unfolding roll_text_def empty by (induction "rev [0..<nat (fl_roll_count a')]") auto
  moreover have "fl_fout a' = Some (fl_log_path a')" unfolding path by (simp add: a' c_def)
  ultimately show ?thesis using can b assms(3) path files
    by (simp add: log_keeps_def rolls_full_def log_text_def) (simp add: a' c_def)
qed

text \<open>
  A file appender without roll files, started without append mode, keeps the latest messages: after any
  messages at any times, the roll files from the oldest to the youngest and the log file hold the end of
  what was logged. Text is lost only when there is a roll size, and then at least \<open>roll_count\<close> times
  more than the roll size is kept.
\<close>

theorem log_files_keep_latest:
  assumes "fl_start can_open dir a = (True, a')" and "\<not> fl_append a" and "\<forall>i. roll_file a' i = None"
  shows "\<exists>lost. logged xs = lost @ roll_text (fl_run can_open xs a') @ log_text (fl_run can_open xs a')
    \<and> (lost \<noteq> [] \<longrightarrow> fl_roll_size a > 0
         \<and> int (length (roll_text (fl_run can_open xs a'))) \<ge> fl_roll_count a * (fl_roll_size a + 1))"
proof -
  have s: "log_keeps a' [] [] 0" "can_open (fl_log_path a')" "fl_roll_size a' = fl_roll_size a" "fl_roll_count a' = fl_roll_count a"
    using start_keeps[OF assms] by blast+
  obtain lost m where k: "log_keeps (fl_run can_open xs a') (logged xs) lost m"
    "fl_roll_count (fl_run can_open xs a') = fl_roll_count a" "fl_roll_size (fl_run can_open xs a') = fl_roll_size a"
    using run_keeps[of a' "[]" "[]" 0 can_open xs, OF s(1,2)] s(3,4) by auto
  have "int (length (roll_text (fl_run can_open xs a'))) \<ge> fl_roll_count a * (fl_roll_size a + 1) \<and> fl_roll_size a > 0" if "lost \<noteq> []"
  proof -
    have m: "rolls_full (fl_run can_open xs a') m" "m = nat (fl_roll_count a)" "fl_roll_size a > 0"
      using k that by (auto simp: log_keeps_def)
    have "int m * (fl_roll_size a + 1) \<ge> fl_roll_count a * (fl_roll_size a + 1)"
      using m(2,3) by (intro mult_right_mono) auto
    moreover have "int m * (fl_roll_size a + 1) \<le> int (length (roll_text (fl_run can_open xs a')))"
      using rolls_full_length[OF m(1)] m(2) k(2,3) by simp
    ultimately show ?thesis using m(3) by linarith
  qed
  then show ?thesis using k(1) by (auto simp: log_keeps_def)
qed

definition sample_log :: file_log where
  "sample_log = (fl_new 0 Map.empty)\<lparr>fl_dir := ''d'', fl_name := ''a'', fl_roll_size := 3, fl_roll_count := 2\<rparr>"

definition sample_started :: file_log where
  "sample_started = sample_log\<lparr>fl_files := [''d/a.log'' \<mapsto> []], fl_fout := Some ''d/a.log'', fl_runner := True\<rparr>"

lemma sample_log_starts: "fl_start (\<lambda>p. True) ''c'' sample_log = (True, sample_started)"
  by (simp add: fl_start_def fl_open_log_def fl_close_def fs_truncate_def sample_log_def sample_started_def fl_new_def Let_def
      fl_log_path_def path_join_def add_trailing_separator_def has_trailing_separator_def)

lemma sample_log_path: "fl_log_path sample_started = ''d/a.log''"
  by (simp add: fl_log_path_def path_join_def add_trailing_separator_def has_trailing_separator_def
      sample_started_def sample_log_def fl_new_def)

lemma sample_no_rolls: "roll_file sample_started i = None"
  using roll_path_not_log(1)[of sample_started "int i"] unfolding sample_log_path
  by (simp add: roll_file_def) (simp add: sample_started_def)

theorem log_files_keep_latest_witness:
  "\<exists>lost. logged [(7, 20000, ''hello''), (6000, 20000, ''you'')] = lost
     @ roll_text (fl_run (\<lambda>p. True) [(7, 20000, ''hello''), (6000, 20000, ''you'')] sample_started)
     @ log_text (fl_run (\<lambda>p. True) [(7, 20000, ''hello''), (6000, 20000, ''you'')] sample_started)"
  using log_files_keep_latest[OF sample_log_starts, of "[(7, 20000, ''hello''), (6000, 20000, ''you'')]"] sample_no_rolls
  by (auto simp: sample_log_def fl_new_def)

text \<open>
  A message that comes more than five seconds after the last flush leaves a log file of at most the
  roll size: a longer one is rolled over or, without roll files, truncated.
\<close>

theorem flushed_log_bounded:
  assumes "fl_fout a = Some (fl_log_path a)" and "can_open (fl_log_path a)" and "fl_roll_size a > 0"
    and "elapsed32 now (fl_last_flush_time a) > 5000"
  shows "int (length (log_text (fst (fl_do_log can_open now level msg a)))) \<le> fl_roll_size a"
proof -
  define w where "w = fl_write [CHR 10] (fl_write msg a)"
  define v where "v = w\<lparr>fl_dirty := False, fl_last_flush_time := now\<rparr>"
  have w: "fl_log_path w = fl_log_path a" "fl_roll_size w = fl_roll_size a" "fl_fout w = fl_fout a"
    "fl_last_flush_time w = fl_last_flush_time a"
    by (auto simp: w_def fl_write_def split: option.split)
  have v: "fl_log_path v = fl_log_path a" "fl_roll_size v = fl_roll_size a" "fl_fout v = Some (fl_log_path a)"
    using w assms(1) by (simp_all add: v_def)
  have reopened: "log_text (snd (fl_open_log can_open False b)) = []" if "fl_log_path b = fl_log_path a" for b
    using that assms(2) by (simp add: fl_open_log_def fl_close_def fs_truncate_def log_text_def Let_def)
  have over: "fl_log_path (fl_roll_over v) = fl_log_path a"
    unfolding v(1)[symmetric] by (auto simp: fl_roll_over_def fl_close_def Let_def split: prod.split)
  have size: "fs_size (fl_log_path a) (fl_files v) \<ge> int (length (log_text v)) \<or> log_text v = []"
    by (auto simp: fs_size_def log_text_def v(1) split: option.splits)
  have res: "fst (fl_do_log can_open now level msg a) = fl_flush_log can_open now w"
    using assms(1,4) w by (simp add: fl_do_log_def w_def[symmetric] Let_def)
  have "fl_flush_log can_open now w =
    (if fl_roll_size v > 0 \<and> fs_size (fl_log_path a) (fl_files v) > fl_roll_size v
     then snd (fl_open_log can_open False (if fl_roll_count v > 0 then fl_roll_over v else v)) else v)"
    unfolding fl_flush_log_def v_def[symmetric] Let_def v(3) by simp
  then show ?thesis using reopened[of "fl_roll_over v"] reopened[of v] over v size assms(3) unfolding res by auto
qed

theorem flushed_log_bounded_witness:
  "int (length (log_text (fst (fl_do_log (\<lambda>p. True) 6000 20000 ''hello'' sample_started)))) \<le> 3"
proof -
  have "fl_fout sample_started = Some (fl_log_path sample_started)" unfolding sample_log_path by (simp add: sample_started_def)
  moreover have "fl_roll_size sample_started = 3" "fl_last_flush_time sample_started = 0"
    by (simp_all add: sample_started_def sample_log_def fl_new_def)
  ultimately show ?thesis using flushed_log_bounded[of sample_started "\<lambda>p. True" 6000 20000 "''hello''"]
    by (simp add: elapsed32_def)
qed

subsection \<open>The background queue\<close>

fun fl_run_tasks :: "(string \<Rightarrow> bool) \<Rightarrow> u32 list \<Rightarrow> file_log \<Rightarrow> file_log \<times> (int \<times> string) list" where
  "fl_run_tasks can_open [] a = (a, [])"
| "fl_run_tasks can_open (now # ts) a =
     (let (a, out) = fl_run_task can_open now a; (a, rest) = fl_run_tasks can_open ts a in (a, out @ rest))"

lemma aborted_tasks:
  "fl_abort a \<Longrightarrow> fl_files (fst (fl_run_tasks can_open ts a)) = fl_files a \<and> snd (fl_run_tasks can_open ts a) = []"
proof (induction ts arbitrary: a)
  case (Cons t ts)
  have "fl_files (fst (fl_run_task can_open t a)) = fl_files a \<and> snd (fl_run_task can_open t a) = [] \<and> fl_abort (fst (fl_run_task can_open t a))"
    using Cons.prems by (auto simp: fl_run_task_def fl_on_log_def fl_close_def split: list.split log_task.split)
  then show ?case using Cons.IH[of "fst (fl_run_task can_open t a)"] by (simp add: case_prod_unfold Let_def)
qed simp

text \<open>
  Stopping a background appender discards the messages that still wait for its thread: none of them
  reaches the file or a later filter.
\<close>

theorem stop_discards_queue:
  assumes "fl_background a"
  shows "fl_files (fst (fl_run_tasks can_open ts (fl_stop a))) = fl_files a
    \<and> snd (fl_run_tasks can_open ts (fl_stop a)) = []"
proof -
  have "fl_abort (fl_stop a)" "fl_files (fl_stop a) = fl_files a" using assms by (simp_all add: fl_stop_def Let_def)
  then show ?thesis using aborted_tasks[of "fl_stop a" can_open ts] by simp
qed

theorem stop_discards_queue_witness:
  "fl_queue (fst (projr (fl_log (\<lambda>p. True) 1 20000 ''m'' sample_started))) = [Log_Task 20000 ''m'']
   \<and> snd (fl_run_tasks (\<lambda>p. True) [2, 3] (fl_stop (fst (projr (fl_log (\<lambda>p. True) 1 20000 ''m'' sample_started))))) = []"
  using stop_discards_queue[of "fst (projr (fl_log (\<lambda>p. True) 1 20000 ''m'' sample_started))" "\<lambda>p. True" "[2, 3]"]
  by (simp add: fl_log_def sample_started_def sample_log_def fl_new_def)

lemma path_queue [simp]:
  "fl_roll_path (a\<lparr>fl_queue := q\<rparr>) = fl_roll_path a" "fl_log_path (a\<lparr>fl_queue := q\<rparr>) = fl_log_path a"
  by (simp_all add: fun_eq_iff fl_roll_path_def fl_log_path_def)

lemma roll_loop_queue [simp]: "fl_roll_loop (a\<lparr>fl_queue := q\<rparr>) p k fs = fl_roll_loop a p k fs"
  by (induction k arbitrary: p fs) (simp_all add: Let_def)

lemma queue_write: "fl_write s (a\<lparr>fl_queue := q\<rparr>) = (fl_write s a)\<lparr>fl_queue := q\<rparr>"
  by (simp add: fl_write_def split: option.split)

lemma queue_open: "fl_open_log can_open f (a\<lparr>fl_queue := q\<rparr>) = map_prod id (fl_queue_update (\<lambda>_. q)) (fl_open_log can_open f a)"
  by (simp add: fl_open_log_def fl_close_def fl_write_def Let_def)

lemma roll_path_fout_queue [simp]:
  "fl_roll_loop (a\<lparr>fl_fout := x, fl_queue := q\<rparr>) = fl_roll_loop (a\<lparr>fl_fout := x\<rparr>)"
  by (intro ext) (rule roll_loop_queue)

lemma queue_roll_over: "fl_roll_over (a\<lparr>fl_queue := q\<rparr>) = (fl_roll_over a)\<lparr>fl_queue := q\<rparr>"
  by (simp add: fl_roll_over_def fl_close_def Let_def split: prod.split)

lemma queue_flush: "fl_flush_log can_open now (a\<lparr>fl_queue := q\<rparr>) = (fl_flush_log can_open now a)\<lparr>fl_queue := q\<rparr>"
proof -
  define v where "v = a\<lparr>fl_dirty := False, fl_last_flush_time := now\<rparr>"
  have q: "a\<lparr>fl_queue := q, fl_dirty := False, fl_last_flush_time := now\<rparr> = v\<lparr>fl_queue := q\<rparr>" by (simp add: v_def)
  show ?thesis unfolding fl_flush_log_def q v_def[symmetric] Let_def
    by (cases "fl_fout v") (auto simp: queue_open queue_roll_over snd_map_prod)
qed

lemma queue_do_log:
  "fl_do_log can_open now level msg (a\<lparr>fl_queue := q\<rparr>) = map_prod (fl_queue_update (\<lambda>_. q)) id (fl_do_log can_open now level msg a)"
proof -
  have "fl_last_flush_time (fl_write s b) = fl_last_flush_time b" for s b by (simp add: fl_write_def split: option.split)
  then show ?thesis by (simp add: fl_do_log_def queue_write queue_flush Let_def)
qed

lemma write_abort [simp]: "fl_abort (fl_write s a) = fl_abort a"
  by (simp add: fl_write_def split: option.split)

lemma open_abort [simp]: "fl_abort (snd (fl_open_log can_open f a)) = fl_abort a"
  by (simp add: fl_open_log_def fl_close_def Let_def)

lemma do_log_abort [simp]: "fl_abort (fst (fl_do_log can_open now level msg a)) = fl_abort a"
  by (simp add: fl_do_log_def fl_flush_log_def fl_roll_over_def fl_close_def Let_def split: prod.split)

text \<open>
  While a background appender runs, its thread writes the waiting messages in the order they were logged,
  exactly as a foreground appender would, and hands each of them on.
\<close>

theorem background_writes_in_order:
  assumes "\<not> fl_abort a" and "fl_queue a = map (\<lambda>(now, level, msg). Log_Task level msg) xs"
  shows "fst (fl_run_tasks can_open (map fst xs) a) = fl_run can_open xs (a\<lparr>fl_queue := []\<rparr>)
    \<and> snd (fl_run_tasks can_open (map fst xs) a) = map snd xs"
  using assms
proof (induction xs arbitrary: a)
  case Nil
  then show ?case by simp
next
  case (Cons x xs)
  obtain now level msg where x: "x = (now, level, msg)" by (cases x)
  define q where "q = map (\<lambda>(now, level, msg). Log_Task level msg) xs"
  define b where "b = fst (fl_do_log can_open now level msg a)"
  have out: "snd (fl_do_log can_open now level msg a) = [(level, msg)]" by (simp add: fl_do_log_def)
  have step: "fl_run_task can_open now a = (b\<lparr>fl_queue := q\<rparr>, [(level, msg)])"
    using Cons.prems out
    by (simp add: fl_run_task_def fl_on_log_def x q_def queue_do_log b_def map_prod_def case_prod_unfold)
  have "\<not> fl_abort (b\<lparr>fl_queue := q\<rparr>)" using Cons.prems by (simp add: b_def)
  then show ?case using Cons.IH[of "b\<lparr>fl_queue := q\<rparr>"]
    by (simp add: x step q_def b_def queue_do_log case_prod_unfold Let_def)
qed

theorem background_writes_in_order_witness:
  "snd (fl_run_tasks (\<lambda>p. True) [1, 2] (sample_started\<lparr>fl_queue := [Log_Task 20000 ''m'', Log_Task 40000 ''n'']\<rparr>))
   = [(20000, ''m''), (40000, ''n'')]"
  using background_writes_in_order[of "sample_started\<lparr>fl_queue := [Log_Task 20000 ''m'', Log_Task 40000 ''n'']\<rparr>"
      "[(1, 20000, ''m''), (2, 40000, ''n'')]" "\<lambda>p. True"]
  by (simp add: sample_started_def sample_log_def fl_new_def)

end
