(* ===== verification/Logging.thy ===== *)
theory Logging
  imports Log_File
begin

text \<open>
  \<^verbatim>\<open>include/xul/log\<close> and \<^verbatim>\<open>include/xul/libs/log\<close>: the log levels (\<^verbatim>\<open>data/enum.hpp\<close>), loggers, the chain of
  filters, the log service and the configuration from a property file. Filters are nodes of a store and the
  chain links them by their next pointers, as in the source; sending a message along the chain takes fuel.
  Each file appender has files of its own. The text of time, thread and context is the caller's.
\<close>

subsection \<open>Levels\<close>

record enum_metadata =
  em_names :: "(int \<times> string) list"
  em_values :: "(string \<times> int) list"

definition em_new :: enum_metadata where
  "em_new = \<lparr>em_names = [], em_values = []\<rparr>"

definition em_add :: "int \<Rightarrow> string \<Rightarrow> enum_metadata \<Rightarrow> enum_metadata" where
  "em_add val name m = m\<lparr>em_names := std_map_set val name (em_names m), em_values := std_map_set name val (em_values m)\<rparr>"

definition em_try_parse :: "string \<Rightarrow> enum_metadata \<Rightarrow> int option" where
  "em_try_parse s m = maps_try_get (em_values m) s"

definition em_parse :: "string \<Rightarrow> int \<Rightarrow> enum_metadata \<Rightarrow> int" where
  "em_parse s default_val m = (case em_try_parse s m of None \<Rightarrow> default_val | Some v \<Rightarrow> v)"

definition em_get_name :: "int \<Rightarrow> enum_metadata \<Rightarrow> string" where
  "em_get_name val m = maps_get (em_names m) val []"

definition log_off :: int where "log_off = 2 ^ 31 - 1"
definition log_fatal :: int where "log_fatal = 50000"
definition log_error :: int where "log_error = 40000"
definition log_event :: int where "log_event = 35000"
definition log_warning :: int where "log_warning = 30000"
definition log_info :: int where "log_info = 20000"
definition log_debug :: int where "log_debug = 10000"

definition log_levels :: enum_metadata where
  "log_levels = em_add log_debug ''DEBUG'' (em_add log_info ''INFO'' (em_add log_warning ''WARN'' (em_add log_event ''EVENT''
     (em_add log_error ''ERROR'' (em_add log_fatal ''FATAL'' em_new)))))"

subsection \<open>Filters\<close>

datatype log_filter_kind =
  Console_Appender | Trace_Appender | Fake_Appender | Null_Appender | Asio_Transmitter bool "log_task list" | File_Appender file_log

record log_filter =
  lf_kind :: log_filter_kind
  lf_next :: "nat option"

record log_env =
  le_now :: u32
  le_can_open :: "string \<Rightarrow> bool"
  le_directory :: string
  le_files :: files

record log_chain =
  lc_filters :: "nat \<Rightarrow> log_filter"
  lc_head :: "nat option"
  lc_tail :: "nat option"
  lc_console :: "string list"
  lc_trace :: "string list"

definition printed_text :: "string \<Rightarrow> string" where
  "printed_text s = takeWhile (\<lambda>c. c \<noteq> CHR 0x00) s"

text \<open>What a filter does with a message: its new state and the message it hands on, if any.\<close>

fun lf_accept :: "log_env \<Rightarrow> int \<Rightarrow> string \<Rightarrow> log_filter_kind \<Rightarrow> fault + log_filter_kind \<times> (int \<times> string) list" where
  "lf_accept e level msg Console_Appender = Inr (Console_Appender, [(level, msg)])"
| "lf_accept e level msg Trace_Appender = Inr (Trace_Appender, [(level, msg)])"
| "lf_accept e level msg Fake_Appender = Inr (Fake_Appender, [(level, msg)])"
| "lf_accept e level msg Null_Appender = Inr (Null_Appender, [])"
| "lf_accept e level msg (Asio_Transmitter abort queue) = Inr (Asio_Transmitter abort (queue @ [Log_Task level msg]), [])"
| "lf_accept e level msg (File_Appender a) =
     sbind (fl_log (le_can_open e) (le_now e) level msg a) (\<lambda>(a, out). Inr (File_Appender a, out))"

fun lf_print :: "string \<Rightarrow> log_filter_kind \<Rightarrow> log_chain \<Rightarrow> log_chain" where
  "lf_print msg Console_Appender c = c\<lparr>lc_console := lc_console c @ [printed_text msg @ [CHR 10]]\<rparr>"
| "lf_print msg Trace_Appender c = c\<lparr>lc_trace := lc_trace c @ [printed_text msg, [CHR 10]]\<rparr>"
| "lf_print msg _ c = c"

definition lc_set_kind :: "nat \<Rightarrow> log_filter_kind \<Rightarrow> log_chain \<Rightarrow> log_chain" where
  "lc_set_kind i k c = c\<lparr>lc_filters := (lc_filters c)(i := (lc_filters c i)\<lparr>lf_kind := k\<rparr>)\<rparr>"

definition lc_set_next :: "nat \<Rightarrow> nat option \<Rightarrow> log_chain \<Rightarrow> log_chain" where
  "lc_set_next i n c = c\<lparr>lc_filters := (lc_filters c)(i := (lc_filters c i)\<lparr>lf_next := n\<rparr>)\<rparr>"

text \<open>\<open>log\<close> of a filter and, through \<open>invoke_next\<close>, of those behind it.\<close>

fun lf_log :: "nat \<Rightarrow> log_env \<Rightarrow> nat option \<Rightarrow> (int \<times> string) list \<Rightarrow> log_chain \<Rightarrow> fault + log_chain" where
  "lf_log fuel e None ms c = Inr c"
| "lf_log fuel e (Some i) [] c = Inr c"
| "lf_log 0 e (Some i) (m # ms) c = Inl Out_Of_Fuel"
| "lf_log (Suc fuel) e (Some i) ((level, msg) # ms) c =
     sbind (lf_accept e level msg (lf_kind (lc_filters c i))) (\<lambda>(k, out).
       lf_log fuel e (lf_next (lc_filters c i)) out (lf_print msg k (lc_set_kind i k c)))"

text \<open>The thread of a filter takes its next task.\<close>

definition lf_run_task :: "nat \<Rightarrow> log_env \<Rightarrow> nat \<Rightarrow> log_chain \<Rightarrow> fault + log_chain" where
  "lf_run_task fuel e i c = (case lf_kind (lc_filters c i) of
      Asio_Transmitter abort (Log_Task level msg # queue) \<Rightarrow>
        lf_log fuel e (lf_next (lc_filters c i)) (if abort then [] else [(level, msg)]) (lc_set_kind i (Asio_Transmitter abort queue) c)
    | File_Appender a \<Rightarrow>
        let (a, out) = fl_run_task (le_can_open e) (le_now e) a
        in lf_log fuel e (lf_next (lc_filters c i)) out (lc_set_kind i (File_Appender a) c)
    | _ \<Rightarrow> Inr c)"

fun lf_start :: "log_env \<Rightarrow> log_filter_kind \<Rightarrow> bool \<times> log_filter_kind" where
  "lf_start e (Asio_Transmitter abort queue) = (True, Asio_Transmitter False queue)"
| "lf_start e (File_Appender a) = (let (ok, a) = fl_start (le_can_open e) (le_directory e) a in (ok, File_Appender a))"
| "lf_start e k = (True, k)"

fun lf_stop :: "log_filter_kind \<Rightarrow> log_filter_kind" where
  "lf_stop (Asio_Transmitter abort queue) = Asio_Transmitter True queue"
| "lf_stop (File_Appender a) = File_Appender (fl_stop a)"
| "lf_stop k = k"

fun lf_set_parameter :: "string \<Rightarrow> string \<Rightarrow> log_filter_kind \<Rightarrow> log_filter_kind" where
  "lf_set_parameter name val (File_Appender a) = File_Appender (fl_set_parameter name val a)"
| "lf_set_parameter name val k = k"

subsection \<open>The chain\<close>

definition lc_new :: "(nat \<Rightarrow> log_filter) \<Rightarrow> log_chain" where
  "lc_new fs = \<lparr>lc_filters = fs, lc_head = None, lc_tail = None, lc_console = [], lc_trace = []\<rparr>"

definition lc_is_empty :: "log_chain \<Rightarrow> bool" where
  "lc_is_empty c = (lc_head c = None)"

definition lc_add_filter :: "nat \<Rightarrow> log_chain \<Rightarrow> log_chain" where
  "lc_add_filter i c = (case lc_tail c of
      Some t \<Rightarrow> (lc_set_next t (Some i) c)\<lparr>lc_tail := Some i\<rparr>
    | None \<Rightarrow> c\<lparr>lc_head := Some i, lc_tail := Some i\<rparr>)"

definition lc_log :: "nat \<Rightarrow> log_env \<Rightarrow> int \<Rightarrow> string \<Rightarrow> log_chain \<Rightarrow> fault + log_chain" where
  "lc_log fuel e level msg c = lf_log fuel e (lc_head c) [(level, msg)] c"

fun lc_start_from :: "nat \<Rightarrow> log_env \<Rightarrow> nat option \<Rightarrow> log_chain \<Rightarrow> fault + bool \<times> log_chain" where
  "lc_start_from fuel e None c = Inr (True, c)"
| "lc_start_from 0 e (Some i) c = Inl Out_Of_Fuel"
| "lc_start_from (Suc fuel) e (Some i) c =
     (let (ok, k) = lf_start e (lf_kind (lc_filters c i)); c = lc_set_kind i k c
      in if \<not> ok then Inr (False, c) else lc_start_from fuel e (lf_next (lc_filters c i)) c)"

definition lc_start :: "nat \<Rightarrow> log_env \<Rightarrow> log_chain \<Rightarrow> fault + bool \<times> log_chain" where
  "lc_start fuel e c = lc_start_from fuel e (lc_head c) c"

fun lc_stop_from :: "nat \<Rightarrow> nat option \<Rightarrow> log_chain \<Rightarrow> fault + log_chain" where
  "lc_stop_from fuel None c = Inr c"
| "lc_stop_from 0 (Some i) c = Inl Out_Of_Fuel"
| "lc_stop_from (Suc fuel) (Some i) c =
     lc_stop_from fuel (lf_next (lc_filters c i)) (lc_set_kind i (lf_stop (lf_kind (lc_filters c i))) c)"

definition lc_stop :: "nat \<Rightarrow> log_chain \<Rightarrow> fault + log_chain" where
  "lc_stop fuel c = lc_stop_from fuel (lc_head c) c"

subsection \<open>Loggers and the service\<close>

record log_service =
  ls_loggers :: "string \<rightharpoonup> int"
  ls_chain :: log_chain
  ls_log_level :: int
  ls_started :: bool

definition default_log_level :: "bool \<Rightarrow> int" where
  "default_log_level debug = (if debug then log_debug else log_info)"

definition ls_get_logger :: "string \<Rightarrow> log_service \<Rightarrow> log_service" where
  "ls_get_logger name s = (case ls_loggers s name of
      Some _ \<Rightarrow> s | None \<Rightarrow> s\<lparr>ls_loggers := (ls_loggers s)(name \<mapsto> 0)\<rparr>)"

definition ls_new :: "bool \<Rightarrow> (nat \<Rightarrow> log_filter) \<Rightarrow> log_service" where
  "ls_new debug fs = ls_get_logger ''root''
     \<lparr>ls_loggers = Map.empty, ls_chain = lc_new fs, ls_log_level = default_log_level debug, ls_started = False\<rparr>"

definition lg_set_level :: "string \<Rightarrow> int \<Rightarrow> log_service \<Rightarrow> log_service" where
  "lg_set_level name level s = s\<lparr>ls_loggers := (ls_loggers s)(name \<mapsto> level)\<rparr>"

definition lg_get_level :: "string \<Rightarrow> log_service \<Rightarrow> int" where
  "lg_get_level name s = (case ls_loggers s name of
      Some level \<Rightarrow> if level \<le> 0 then ls_log_level s else level | None \<Rightarrow> ls_log_level s)"

definition ls_set_log_level :: "int \<Rightarrow> log_service \<Rightarrow> log_service" where
  "ls_set_log_level level s = s\<lparr>ls_log_level := level\<rparr>"

definition ls_need_log :: "string \<Rightarrow> int \<Rightarrow> log_service \<Rightarrow> bool" where
  "ls_need_log name level s =
     (if lc_is_empty (ls_chain s) then False
      else if \<not> ls_started s then False
      else level \<ge> lg_get_level name s)"

definition setw :: "nat \<Rightarrow> string \<Rightarrow> string" where
  "setw n s = replicate (n - length s) CHR 0x20 @ s"

definition log_entry_text :: "string \<Rightarrow> string \<Rightarrow> string \<Rightarrow> string \<Rightarrow> int \<Rightarrow> string \<Rightarrow> string" where
  "log_entry_text timestr thread context name level msg =
     timestr @ '' '' @ setw 5 (em_get_name level log_levels) @ '' '' @ setw 6 thread @ '' '' @ context
       @ '' ['' @ name @ ''] '' @ printed_text msg"

definition ls_log ::
    "nat \<Rightarrow> log_env \<Rightarrow> string \<Rightarrow> string \<Rightarrow> string \<Rightarrow> string \<Rightarrow> int \<Rightarrow> string \<Rightarrow> log_service \<Rightarrow> fault + log_service" where
  "ls_log fuel e timestr thread context name level msg s =
     (if lc_is_empty (ls_chain s) then Inr s
      else sbind (lc_log fuel e level (log_entry_text timestr thread context name level msg) (ls_chain s))
             (\<lambda>c. Inr (s\<lparr>ls_chain := c\<rparr>)))"

definition lg_log ::
    "nat \<Rightarrow> log_env \<Rightarrow> string \<Rightarrow> string \<Rightarrow> string \<Rightarrow> string \<Rightarrow> int \<Rightarrow> string \<Rightarrow> log_service \<Rightarrow> fault + log_service" where
  "lg_log fuel e timestr thread context name level msg s =
     (if length msg > 512 * 1024 then Inr s else ls_log fuel e timestr thread context name level msg s)"

text \<open>The macro \<open>XUL_REL_LOG\<close>.\<close>

definition xul_rel_log ::
    "nat \<Rightarrow> log_env \<Rightarrow> string \<Rightarrow> string \<Rightarrow> string \<Rightarrow> string \<Rightarrow> int \<Rightarrow> string \<Rightarrow> log_service \<Rightarrow> fault + log_service" where
  "xul_rel_log fuel e timestr thread context name level msg s =
     (if ls_need_log name level s then lg_log fuel e timestr thread context name level msg s else Inr s)"

definition ls_add_filter :: "nat \<Rightarrow> log_service \<Rightarrow> log_service" where
  "ls_add_filter i s = s\<lparr>ls_chain := lc_add_filter i (ls_chain s)\<rparr>"

text \<open>The last argument of \<open>start\<close> is the message it logs itself, already formatted.\<close>

definition ls_start :: "nat \<Rightarrow> log_env \<Rightarrow> string \<Rightarrow> string \<Rightarrow> string \<Rightarrow> log_service \<Rightarrow> fault + bool \<times> log_service" where
  "ls_start fuel e timestr thread context s =
     sbind (lc_start fuel e (ls_chain s)) (\<lambda>(ok, c).
       let s = s\<lparr>ls_chain := c\<rparr>
       in if \<not> ok then Inr (False, s)
          else sbind (ls_log fuel e timestr thread context ''root'' log_event ''log service started.'' (s\<lparr>ls_started := True\<rparr>))
                 (\<lambda>s. Inr (True, s)))"

definition ls_stop :: "nat \<Rightarrow> log_service \<Rightarrow> fault + log_service" where
  "ls_stop fuel s = sbind (lc_stop fuel (ls_chain s)) (\<lambda>c. Inr (s\<lparr>ls_chain := c, ls_started := False\<rparr>))"

subsection \<open>The configuration file\<close>

record log_settings =
  cf_props :: "(string \<times> (string \<times> string) list) list"
  cf_names :: "string list"
  cf_levels :: "(string \<times> string) list"

definition cf_set_prop :: "string \<Rightarrow> string \<Rightarrow> string \<Rightarrow> log_settings \<Rightarrow> log_settings" where
  "cf_set_prop flt key val cf =
     cf\<lparr>cf_props := std_map_set flt (std_map_set key val (maps_get (cf_props cf) flt [])) (cf_props cf)\<rparr>"

definition cf_filters :: "string \<Rightarrow> log_settings \<Rightarrow> log_settings" where
  "cf_filters val cf =
     (let names = cf_names cf @ (case split_char val CHR '','' 0 of None \<Rightarrow> [] | Some ps \<Rightarrow> ps);
          names = map trim_spaces names
      in fold (\<lambda>n. cf_set_prop n [] n) names (cf\<lparr>cf_names := names\<rparr>))"

definition cf_line :: "string \<Rightarrow> log_settings \<times> log_service \<Rightarrow> log_settings \<times> log_service" where
  "cf_line line st =
     (let (cf, s) = st; (key, val) = split_pair_char (trim_spaces line) CHR ''='';
          keys = map trim_spaces (case split_char key CHR ''.'' 6 of None \<Rightarrow> [] | Some ps \<Rightarrow> ps)
      in if key = [] then st
         else if keys = [] then st
         else if keys ! 0 = ''filters'' then (if length keys = 1 then cf_filters val cf else cf, s)
         else if keys ! 0 = ''filter'' then
           (if length keys > 1 \<and> keys ! 1 \<noteq> [] then
              (let cf = cf\<lparr>cf_props := std_map_set (keys ! 1) (maps_get (cf_props cf) (keys ! 1) []) (cf_props cf)\<rparr>
               in if length keys = 2 then cf_set_prop (keys ! 1) [] val cf
                  else if length keys = 3 \<and> keys ! 2 \<noteq> [] then cf_set_prop (keys ! 1) (keys ! 2) val cf
                  else cf)
            else cf, s)
         else if keys ! 0 = ''logger'' then
           (if length keys > 1 \<and> keys ! 1 \<noteq> [] then cf\<lparr>cf_levels := std_map_set (keys ! 1) val (cf_levels cf)\<rparr> else cf, s)
         else if keys ! 0 = ''service'' then
           (cf, if length keys = 2 \<and> keys ! 1 = ''level''
                then (case em_try_parse val log_levels of Some level \<Rightarrow> ls_set_log_level level s | None \<Rightarrow> s) else s)
         else st)"

definition cf_logger :: "string \<times> string \<Rightarrow> log_service \<Rightarrow> log_service" where
  "cf_logger e s = (let s = ls_get_logger (fst e) s
      in case em_try_parse (snd e) log_levels of Some level \<Rightarrow> lg_set_level (fst e) level s | None \<Rightarrow> s)"

definition create_filter :: "log_env \<Rightarrow> string \<Rightarrow> log_filter_kind option" where
  "create_filter e t =
     (if t = ''console'' then Some Console_Appender
      else if t = ''asio'' then Some (Asio_Transmitter True [])
      else if t = ''file'' then Some (File_Appender (fl_new (le_now e) (le_files e)))
      else None)"

text \<open>The new filter objects are \<open>i\<close>, \<open>i + 1\<close> and so on.\<close>

fun cf_add_filters :: "log_env \<Rightarrow> nat \<Rightarrow> string list \<Rightarrow> log_settings \<Rightarrow> log_service \<Rightarrow> log_service" where
  "cf_add_filters e i [] cf s = s"
| "cf_add_filters e i (name # names) cf s =
     (let props = maps_get (cf_props cf) name []
      in case create_filter e (maps_get props [] []) of
           None \<Rightarrow> cf_add_filters e i names cf s
         | Some k \<Rightarrow>
             let k = fold (\<lambda>p k. if fst p = [] then k else lf_set_parameter (fst p) (snd p) k) props k;
                 c = (ls_chain s)\<lparr>lc_filters := (lc_filters (ls_chain s))(i := \<lparr>lf_kind = k, lf_next = None\<rparr>)\<rparr>
             in cf_add_filters e (Suc i) names cf (ls_add_filter i (s\<lparr>ls_chain := c\<rparr>)))"

text \<open>\<open>None\<close>: the file cannot be read; else what \<open>read_line\<close> returns.\<close>

definition lc_configure :: "log_env \<Rightarrow> nat \<Rightarrow> string list option \<Rightarrow> log_service \<Rightarrow> bool \<times> log_service" where
  "lc_configure e i lines s = (case lines of
      None \<Rightarrow> (False, s)
    | Some ls \<Rightarrow>
        let (cf, s) = fold cf_line (take 2000 ls) (\<lparr>cf_props = [], cf_names = [], cf_levels = []\<rparr>, s);
            s = fold cf_logger (cf_levels cf) s
        in (True, cf_add_filters e i (cf_names cf) cf s))"

subsection \<open>The chain is a list of filters\<close>

fun filter_links :: "(nat \<Rightarrow> log_filter) \<Rightarrow> nat option \<Rightarrow> nat list \<Rightarrow> bool" where
  "filter_links fs None ids = (ids = [])"
| "filter_links fs (Some i) [] = False"
| "filter_links fs (Some i) (j # ids) = (i = j \<and> filter_links fs (lf_next (fs i)) ids)"

definition chain_is :: "log_chain \<Rightarrow> nat list \<Rightarrow> bool" where
  "chain_is c ids \<longleftrightarrow> filter_links (lc_filters c) (lc_head c) ids \<and> distinct ids
     \<and> lc_tail c = (if ids = [] then None else Some (last ids))"

text \<open>The reference: a message visits the filters of a list.\<close>

fun visit_filters :: "log_env \<Rightarrow> nat list \<Rightarrow> (int \<times> string) list \<Rightarrow> log_chain \<Rightarrow> fault + log_chain" where
  "visit_filters e [] ms c = Inr c"
| "visit_filters e (i # ids) [] c = Inr c"
| "visit_filters e (i # ids) ((level, msg) # ms) c =
     sbind (lf_accept e level msg (lf_kind (lc_filters c i))) (\<lambda>(k, out).
       visit_filters e ids out (lf_print msg k (lc_set_kind i k c)))"

lemma print_parts [simp]:
  "lc_filters (lf_print msg k c) = lc_filters c" "lc_head (lf_print msg k c) = lc_head c" "lc_tail (lf_print msg k c) = lc_tail c"
  by (cases k; simp)+

lemma set_kind_next [simp]: "lf_next (lc_filters (lc_set_kind i k c) j) = lf_next (lc_filters c j)"
  by (simp add: lc_set_kind_def)

lemma set_kind_parts [simp]: "lc_head (lc_set_kind i k c) = lc_head c" "lc_tail (lc_set_kind i k c) = lc_tail c"
  by (simp_all add: lc_set_kind_def)

lemma filter_links_cong: "(\<And>j. j \<in> set ids \<Longrightarrow> lf_next (fs j) = lf_next (fs' j)) \<Longrightarrow> filter_links fs h ids = filter_links fs' h ids"
proof (induction ids arbitrary: h)
  case Nil
  then show ?case by (cases h) auto
next
  case (Cons i ids)
  then show ?case by (cases h) auto
qed

lemma lf_log_visits: "filter_links (lc_filters c) h ids \<Longrightarrow> length ids \<le> fuel \<Longrightarrow> lf_log fuel e h ms c = visit_filters e ids ms c"
proof (induction ids arbitrary: h ms c fuel)
  case Nil
  then show ?case by (cases h) auto
next
  case (Cons i ids)
  then obtain fuel' where f: "fuel = Suc fuel'" by (cases fuel) auto
  have h: "h = Some i" and l: "filter_links (lc_filters c) (lf_next (lc_filters c i)) ids" using Cons.prems(1) by (cases h; simp)+
  show ?case
  proof (cases ms)
    case Nil
    then show ?thesis by (simp add: h)
  next
    case (Cons m ms')
    obtain level msg where m: "m = (level, msg)" by (cases m)
    have "filter_links (lc_filters (lf_print msg k (lc_set_kind i k c))) (lf_next (lc_filters c i)) ids" for k
      using l filter_links_cong[of ids "lc_filters (lf_print msg k (lc_set_kind i k c))" "lc_filters c"] by simp
    from Cons.IH[OF this] show ?thesis using Cons.prems(2)
      by (cases "lf_accept e level msg (lf_kind (lc_filters c i))") (auto simp: Cons m h f split: prod.split)
  qed
qed

lemma filter_links_append:
  "filter_links fs h (ids @ [t]) \<Longrightarrow> distinct (ids @ [t]) \<Longrightarrow> i \<notin> set (ids @ [t]) \<Longrightarrow> lf_next (fs i) = None \<Longrightarrow>
   filter_links (fs(t := (fs t)\<lparr>lf_next := Some i\<rparr>)) h (ids @ [t, i])"
proof (induction ids arbitrary: h)
  case Nil
  then show ?case by (cases h) auto
next
  case (Cons j ids)
  then show ?case by (cases h) auto
qed

lemma add_filter_chain:
  assumes "chain_is c ids" and "i \<notin> set ids" and "lf_next (lc_filters c i) = None"
  shows "chain_is (lc_add_filter i c) (ids @ [i])"
proof (cases "ids = []")
  case True
  have "lc_head c = None" using assms(1) True by (cases "lc_head c") (auto simp: chain_is_def)
  then show ?thesis using assms True by (simp add: chain_is_def lc_add_filter_def)
next
  case False
  then obtain js t where ids: "ids = js @ [t]" using append_butlast_last_id by metis
  have "filter_links ((lc_filters c)(t := (lc_filters c t)\<lparr>lf_next := Some i\<rparr>)) (lc_head c) (js @ [t, i])"
    using assms ids by (intro filter_links_append) (auto simp: chain_is_def)
  then show ?thesis using assms ids by (simp add: chain_is_def lc_add_filter_def lc_set_next_def)
qed

lemma add_filter_kind: "lf_kind (lc_filters (lc_add_filter i c) j) = lf_kind (lc_filters c j)"
  by (simp add: lc_add_filter_def lc_set_next_def split: option.split)

lemma add_filter_next:
  "chain_is c ids \<Longrightarrow> j \<notin> set ids \<Longrightarrow> lf_next (lc_filters (lc_add_filter i c) j) = lf_next (lc_filters c j)"
  by (auto simp: lc_add_filter_def lc_set_next_def chain_is_def split: option.split if_splits)

lemma add_all_chain:
  "chain_is c js \<Longrightarrow> distinct (js @ ids) \<Longrightarrow> \<forall>i\<in>set ids. lf_next (lc_filters c i) = None \<Longrightarrow>
   chain_is (fold lc_add_filter ids c) (js @ ids) \<and> (\<forall>j. lf_kind (lc_filters (fold lc_add_filter ids c) j) = lf_kind (lc_filters c j))
   \<and> lc_console (fold lc_add_filter ids c) = lc_console c \<and> lc_trace (fold lc_add_filter ids c) = lc_trace c"
proof (induction ids arbitrary: c js)
  case (Cons i ids)
  have "chain_is (lc_add_filter i c) (js @ [i])" using Cons.prems by (intro add_filter_chain) auto
  moreover have "\<forall>j\<in>set ids. lf_next (lc_filters (lc_add_filter i c) j) = None"
  proof
    fix j assume j: "j \<in> set ids"
    then have "j \<notin> set js" using Cons.prems(2) by auto
    then show "lf_next (lc_filters (lc_add_filter i c) j) = None"
      using add_filter_next[OF Cons.prems(1)] Cons.prems(3) j by simp
  qed
  moreover have "lc_console (lc_add_filter i c) = lc_console c" "lc_trace (lc_add_filter i c) = lc_trace c"
    by (simp_all add: lc_add_filter_def lc_set_next_def split: option.split)
  ultimately show ?case using Cons.IH[of "lc_add_filter i c" "js @ [i]"] Cons.prems(2) add_filter_kind by auto
qed simp

text \<open>
  A chain to which distinct new filters were added hands every message to them in that order: with as much
  fuel as there are filters, logging through the next pointers is a visit of the list.
\<close>

theorem filter_chain_refines_list:
  assumes "distinct ids" and "\<forall>i\<in>set ids. lf_next (fs i) = None" and "length ids \<le> fuel"
  shows "lc_log fuel e level msg (fold lc_add_filter ids (lc_new fs)) = visit_filters e ids [(level, msg)] (fold lc_add_filter ids (lc_new fs))"
proof -
  have "chain_is (lc_new fs) []" by (simp add: chain_is_def lc_new_def)
  from add_all_chain[OF this, of ids] have "chain_is (fold lc_add_filter ids (lc_new fs)) ids" using assms by (simp add: lc_new_def)
  then show ?thesis using lf_log_visits assms(3) by (simp add: lc_log_def chain_is_def)
qed

definition sample_filters :: "nat \<Rightarrow> log_filter" where
  "sample_filters i = \<lparr>lf_kind = (if i = 1 then Trace_Appender else Console_Appender), lf_next = None\<rparr>"

definition sample_log_env :: log_env where
  "sample_log_env = \<lparr>le_now = 0, le_can_open = (\<lambda>p. True), le_directory = ''c'', le_files = Map.empty\<rparr>"

theorem filter_chain_refines_list_witness:
  "lc_log 2 sample_log_env 20000 ''m'' (fold lc_add_filter [3, 1] (lc_new sample_filters))
   = visit_filters sample_log_env [3, 1] [(20000, ''m'')] (fold lc_add_filter [3, 1] (lc_new sample_filters))"
  by (rule filter_chain_refines_list) (simp_all add: sample_filters_def)

lemma visit_synchronous:
  "\<forall>i\<in>set ids. lf_kind (lc_filters c i) \<in> {Console_Appender, Trace_Appender, Fake_Appender, Null_Appender} \<Longrightarrow> distinct ids \<Longrightarrow>
   \<exists>c'. visit_filters e ids [(level, msg)] c = Inr c'
     \<and> lc_console c' = lc_console c @ replicate (length (filter (\<lambda>i. lf_kind (lc_filters c i) = Console_Appender)
         (takeWhile (\<lambda>i. lf_kind (lc_filters c i) \<noteq> Null_Appender) ids))) (printed_text msg @ [CHR 10])"
proof (induction ids arbitrary: c)
  case (Cons i ids)
  define k where "k = lf_kind (lc_filters c i)"
  define d where "d = lf_print msg k (lc_set_kind i k c)"
  have same: "lc_filters d = lc_filters c" by (simp add: d_def k_def lc_set_kind_def)
  have kinds: "k \<in> {Console_Appender, Trace_Appender, Fake_Appender, Null_Appender}" using Cons.prems by (simp add: k_def)
  obtain c' where ih: "visit_filters e ids [(level, msg)] d = Inr c'"
    "lc_console c' = lc_console d @ replicate (length (filter (\<lambda>i. lf_kind (lc_filters c i) = Console_Appender)
         (takeWhile (\<lambda>i. lf_kind (lc_filters c i) \<noteq> Null_Appender) ids))) (printed_text msg @ [CHR 10])"
    using Cons.IH[of d] Cons.prems unfolding same by auto
  have stop: "visit_filters e ids [] d = Inr d" by (cases ids) auto
  show ?case
  proof (cases "k = Null_Appender")
    case True
    then show ?thesis using stop by (auto simp: k_def[symmetric] d_def lc_set_kind_def)
  next
    case False
    then have "visit_filters e (i # ids) [(level, msg)] c = visit_filters e ids [(level, msg)] d"
      using kinds by (auto simp: k_def[symmetric] d_def)
    moreover have "lc_console d = lc_console c @ (if k = Console_Appender then [printed_text msg @ [CHR 10]] else [])"
      using kinds by (auto simp: d_def lc_set_kind_def)
    ultimately show ?thesis using ih False by (auto simp: k_def)
  qed
qed simp

text \<open>
  Through a chain of console, trace, fake and null appenders a message is printed once for each console
  appender before the first null appender, up to its first null character.
\<close>

theorem console_prints_each_message:
  assumes "distinct ids" and "\<forall>i\<in>set ids. lf_next (fs i) = None" and "length ids \<le> fuel"
    and "\<forall>i\<in>set ids. lf_kind (fs i) \<in> {Console_Appender, Trace_Appender, Fake_Appender, Null_Appender}"
  shows "\<exists>c. lc_log fuel e level msg (fold lc_add_filter ids (lc_new fs)) = Inr c
    \<and> lc_console c = replicate (length (filter (\<lambda>i. lf_kind (fs i) = Console_Appender)
        (takeWhile (\<lambda>i. lf_kind (fs i) \<noteq> Null_Appender) ids))) (printed_text msg @ [CHR 10])"
proof -
  let ?c = "fold lc_add_filter ids (lc_new fs)"
  have "chain_is (lc_new fs) []" by (simp add: chain_is_def lc_new_def)
  from add_all_chain[OF this, of ids] have c: "chain_is ?c ids" "\<And>j. lf_kind (lc_filters ?c j) = lf_kind (fs j)" "lc_console ?c = []"
    using assms by (simp_all add: lc_new_def)
  then show ?thesis using visit_synchronous[of ids ?c e level msg] lf_log_visits[of ?c "lc_head ?c" ids fuel e] assms(1,3,4)
    by (simp add: lc_log_def chain_is_def)
qed

theorem console_prints_each_message_witness:
  "\<exists>c. lc_log 3 sample_log_env 20000 ''m'' (fold lc_add_filter [3, 1, 2] (lc_new sample_filters)) = Inr c
    \<and> lc_console c = [[CHR ''m'', CHR 10], [CHR ''m'', CHR 10]]"
  using console_prints_each_message[of "[3, 1, 2]" sample_filters 3 sample_log_env 20000 "''m''"]
  by (simp add: sample_filters_def printed_text_def numeral_2_eq_2)

subsection \<open>Filters that are added twice, filters that do not start\<close>

text \<open>
  A forwarding filter that is added twice in a row becomes its own successor: no amount of fuel lets a
  message leave the chain.
\<close>

theorem filter_added_twice_diverges:
  assumes "lf_kind (fs i) \<in> {Console_Appender, Trace_Appender, Fake_Appender}"
  shows "lc_log fuel e level msg (lc_add_filter i (lc_add_filter i (lc_new fs))) = Inl Out_Of_Fuel"
proof -
  let ?c = "lc_add_filter i (lc_add_filter i (lc_new fs))"
  have loop: "lf_log fuel e (Some i) [(level, msg)] c = Inl Out_Of_Fuel"
    if "lf_next (lc_filters c i) = Some i" and "lf_kind (lc_filters c i) = lf_kind (fs i)" for c
    using that
  proof (induction fuel arbitrary: c)
    case (Suc fuel)
    let ?d = "lf_print msg (lf_kind (fs i)) (lc_set_kind i (lf_kind (fs i)) c)"
    have "lf_next (lc_filters ?d i) = Some i" "lf_kind (lc_filters ?d i) = lf_kind (fs i)"
      using Suc.prems(1) by simp (simp add: lc_set_kind_def)
    from Suc.IH[OF this] show ?case using Suc.prems assms by auto
  qed simp
  have "lf_next (lc_filters ?c i) = Some i" "lf_kind (lc_filters ?c i) = lf_kind (fs i)" "lc_head ?c = Some i"
    by (simp_all add: lc_add_filter_def lc_new_def lc_set_next_def)
  then show ?thesis using loop[of ?c] by (simp add: lc_log_def)
qed

theorem filter_added_twice_diverges_witness:
  "lc_log 100 sample_log_env 20000 ''m'' (lc_add_filter 0 (lc_add_filter 0 (lc_new sample_filters))) = Inl Out_Of_Fuel"
  by (rule filter_added_twice_diverges) (simp add: sample_filters_def)

lemma start_fails:
  "filter_links (lc_filters c) h ids \<Longrightarrow> distinct ids \<Longrightarrow> length ids \<le> fuel \<Longrightarrow> i \<in> set ids \<Longrightarrow>
   lf_kind (lc_filters c i) = File_Appender a \<Longrightarrow> fl_name a = [] \<Longrightarrow> \<exists>c'. lc_start_from fuel e h c = Inr (False, c')"
proof (induction ids arbitrary: h c fuel)
  case (Cons j ids)
  then obtain fuel' where f: "fuel = Suc fuel'" by (cases fuel) auto
  have h: "h = Some j" and l: "filter_links (lc_filters c) (lf_next (lc_filters c j)) ids" using Cons.prems(1) by (cases h; simp)+
  obtain ok k where k: "lf_start e (lf_kind (lc_filters c j)) = (ok, k)" by fastforce
  show ?case
  proof (cases "i = j")
    case True
    then have "\<not> ok" using k Cons.prems(5,6) by (auto simp: fl_start_def split: prod.splits if_splits)
    then show ?thesis by (simp add: h f k Let_def)
  next
    case False
    then have "lf_kind (lc_filters (lc_set_kind j k c) i) = File_Appender a" using Cons.prems(5) by (simp add: lc_set_kind_def)
    moreover have "filter_links (lc_filters (lc_set_kind j k c)) (lf_next (lc_filters c j)) ids"
      using l filter_links_cong[of ids "lc_filters (lc_set_kind j k c)" "lc_filters c"] by simp
    ultimately show ?thesis using Cons.IH[of "lc_set_kind j k c" "lf_next (lc_filters c j)" fuel'] Cons.prems False
      by (cases ok) (auto simp: h f k Let_def)
  qed
qed simp

text \<open>
  One file appender without a name keeps the whole service from starting: \<open>start\<close> fails, and no logger
  writes any message of any level to any filter afterwards.
\<close>

theorem failed_filter_silences_service:
  assumes "chain_is (ls_chain s) ids" and "length ids \<le> fuel" and "i \<in> set ids"
    and "lf_kind (lc_filters (ls_chain s) i) = File_Appender a" and "fl_name a = []" and "\<not> ls_started s"
  shows "\<exists>s'. ls_start fuel e timestr thread context s = Inr (False, s')
    \<and> (\<forall>name level msg. xul_rel_log fuel e timestr thread context name level msg s' = Inr s')"
proof -
  obtain c where "lc_start fuel e (ls_chain s) = Inr (False, c)"
    using start_fails[OF _ _ assms(2-5)] assms(1) unfolding chain_is_def lc_start_def by blast
  then show ?thesis using assms(6) by (auto simp: ls_start_def xul_rel_log_def ls_need_log_def Let_def)
qed

definition sample_service :: log_service where
  "sample_service = ls_add_filter 1 (ls_add_filter 0 (ls_new True (\<lambda>i. \<lparr>lf_kind =
     (if i = 1 then File_Appender (fl_new 0 Map.empty) else Console_Appender), lf_next = None\<rparr>)))"

theorem failed_filter_silences_service_witness:
  "\<exists>s'. ls_start 2 sample_log_env ''t'' ''1'' ''0'' sample_service = Inr (False, s')"
proof -
  have "chain_is (ls_chain sample_service) [0, 1]" "lf_kind (lc_filters (ls_chain sample_service) 1) = File_Appender (fl_new 0 Map.empty)"
    by (simp_all add: sample_service_def ls_add_filter_def lc_add_filter_def lc_set_next_def ls_new_def ls_get_logger_def lc_new_def chain_is_def)
  moreover have "\<not> ls_started sample_service"
    by (simp add: sample_service_def ls_add_filter_def ls_new_def ls_get_logger_def)
  ultimately show ?thesis
    using failed_filter_silences_service[of sample_service "[0, 1]" 2 1 "fl_new 0 Map.empty" sample_log_env "''t''" "''1''" "''0''"]
    by (auto simp: fl_new_def)
qed

subsection \<open>Configured levels\<close>

lemma find_char_at:
  assumes "c \<notin> set p"
  shows "find_char c (q @ p @ c # r) (length q) = Some (length q + length p)"
    and "find_char c (q @ p) (length q) = None"
proof -
  have "find_index (\<lambda>x. x = c) (p @ c # r) = Some (length p)" "find_index (\<lambda>x. x = c) p = None"
    using assms by (induction p) auto
  then show "find_char c (q @ p @ c # r) (length q) = Some (length q + length p)" "find_char c (q @ p) (length q) = None"
    by (simp_all add: find_char_def find_if_from_def)
qed

lemma split_two:
  assumes "CHR ''.'' \<notin> set p" and "CHR ''.'' \<notin> set q"
  shows "split_char (p @ CHR ''.'' # q) CHR ''.'' 6 = Some [p, q]"
    and "\<exists>rest. split_char (p @ CHR ''.'' # q @ CHR ''.'' # r) CHR ''.'' 6 = Some (p # q # rest) \<and> rest \<noteq> []"
proof -
  let ?d = "CHR ''.''"
  have f0: "find_char ?d (p @ ?d # u) 0 = Some (length p)" for u using find_char_at(1)[OF assms(1), of "[]"] by simp
  show "split_char (p @ ?d # q) ?d 6 = Some [p, q]"
    using find_char_at(2)[OF assms(2), of "p @ [?d]"] f0[of q]
    by (simp add: split_char_def split_loop.simps[of _ _ _ _ 0] split_loop.simps[of _ _ _ _ "Suc (length p)"])
  let ?s = "p @ ?d # q @ ?d # r"
  have f1: "find_char ?d ?s (Suc (length p)) = Some (Suc (length p) + length q)"
    using find_char_at(1)[OF assms(2), of "p @ [?d]" r] by simp
  obtain ps where ps: "split_loop (find_char ?d) 1 6 ?s (Suc (Suc (length p + length q))) 2 = Some ps" "ps \<noteq> []"
    using ch.split_loop_terminates[of "Suc (Suc (length p + length q))" ?s ?d 6 2] by auto
  show "\<exists>rest. split_char ?s ?d 6 = Some (p # q # rest) \<and> rest \<noteq> []"
    using ps f0[of "q @ ?d # r"] f1
    by (simp add: split_char_def split_loop.simps[of _ _ _ _ 0] split_loop.simps[of _ _ _ _ "Suc (length p)"] numeral_2_eq_2)
qed

lemma maps_try_get_set: "maps_try_get m k = Some w \<Longrightarrow> (k, w) \<in> set m"
  by (auto simp: maps_try_get_def std_find_def Let_def split: if_splits) (metis nth_mem prod.collapse)

lemma log_level_values: "em_values log_levels =
    [(''DEBUG'', 10000), (''ERROR'', 40000), (''EVENT'', 35000), (''FATAL'', 50000), (''INFO'', 20000), (''WARN'', 30000)]"
  by code_simp

lemma level_names:
  assumes "em_try_parse v log_levels = Some level"
  shows "(v, level) \<in> set [(''DEBUG'', 10000), (''ERROR'', 40000), (''EVENT'', 35000), (''FATAL'', 50000), (''INFO'', 20000), (''WARN'', 30000)]"
  using assms unfolding em_try_parse_def log_level_values by (rule maps_try_get_set)

lemma trim_keeps_front:
  assumes "p \<noteq> []" and "hd p \<notin> set cs" and "last p \<notin> set cs"
  shows "\<exists>k. trim cs (p @ x) = p @ take k x"
proof -
  obtain y ys where p: "p = y # ys" using assms(1) by (cases p) auto
  have f: "find_if_from (\<lambda>c. c \<notin> set cs) (p @ x) 0 = Some 0" using assms(2) by (simp add: p find_if_from_def)
  have "\<not> set (p @ x) \<subseteq> set cs" using assms(1,3) last_in_set by fastforce
  then obtain i where i: "find_last_not_of cs (p @ x) = Some i" using find_last_not_of_None by blast
  have "length p \<le> Suc i"
  proof (rule ccontr)
    assume "\<not> length p \<le> Suc i"
    then have "last p \<in> set (drop (Suc i) (p @ x))" by (metis UnCI drop_append last_drop last_in_set linorder_not_le set_append drop_eq_Nil)
    then show False using find_last_not_of_Some(3)[OF i] assms(3) by blast
  qed
  then show ?thesis using f i by (intro exI[of _ "Suc i - length p"]) (simp add: trim_def)
qed

definition white :: string where
  "white = map char_of [32, 9, 13, 10 :: nat]"

lemma white_chars: "white = [CHR 0x20, CHR 0x09, CHR 0x0D, CHR 0x0A]"
  by code_simp

lemma trim_spaces_white: "trim_spaces s = trim white s"
  by (simp add: trim_spaces_def white_def)

lemma trim_plain: "set s \<inter> set white = {} \<Longrightarrow> trim_spaces s = s"
  unfolding trim_spaces_white by (rule trim_id) (auto intro: hd_in_set last_in_set)

lemma split_pair_at: "CHR ''='' \<notin> set k \<Longrightarrow> split_pair_char (k @ CHR ''='' # v) CHR ''='' = (k, v)"
  using find_char_at(1)[of "CHR ''=''" k "[]" v] by (simp add: split_pair_char_def)

lemma logger_line:
  assumes a: "a \<noteq> []" "set a \<inter> (set white \<union> {CHR ''.'', CHR ''=''}) = {}"
    and rest: "rest = [] \<or> (\<exists>r. rest = CHR ''.'' # r \<and> CHR ''='' \<notin> set r)"
    and lv: "em_try_parse lv log_levels = Some level"
  shows "cf_line (''logger.'' @ a @ rest @ ''='' @ lv) (cf, s) = (cf\<lparr>cf_levels := std_map_set a lv (cf_levels cf)\<rparr>, s)"
proof -
  let ?key = "''logger.'' @ a @ rest"
  have "lv \<noteq> [] \<and> last lv \<notin> set white" using level_names[OF lv] by (auto simp: white_chars)
  then have t: "trim_spaces (?key @ CHR ''='' # lv) = ?key @ CHR ''='' # lv"
    unfolding trim_spaces_white by (intro trim_id) (auto simp: white_chars)
  have p: "split_pair_char (?key @ CHR ''='' # lv) CHR ''='' = (?key, lv)"
    using a rest by (intro split_pair_at) auto
  have dots: "CHR ''.'' \<notin> set ''logger''" "CHR ''.'' \<notin> set a" using a by auto
  obtain more where k: "split_char ?key CHR ''.'' 6 = Some (''logger'' # a # more)"
    using rest
  proof
    assume r: "rest = []"
    show ?thesis using split_two(1)[OF dots] that[of "[]"] unfolding r by simp
  next
    assume "\<exists>r. rest = CHR ''.'' # r \<and> CHR ''='' \<notin> set r"
    then obtain r where r: "rest = CHR ''.'' # r" by blast
    show ?thesis using split_two(2)[OF dots, of r] that unfolding r by auto
  qed
  have "trim_spaces a = a" using a by (intro trim_plain) auto
  moreover have "trim_spaces ''logger'' = ''logger''" by (intro trim_plain) (auto simp: white_chars)
  ultimately show ?thesis using t p k a(1) by (simp add: cf_line_def Let_def)
qed

text \<open>
  A configuration line for a logger sets the level of the logger whose name ends at the first dot and of
  no other: a line for \<open>net.http\<close> sets the level of \<open>net\<close>.
\<close>

theorem config_logger_level:
  assumes "a \<noteq> []" and "set a \<inter> (set white \<union> {CHR ''.'', CHR ''=''}) = {}"
    and "rest = [] \<or> (\<exists>r. rest = CHR ''.'' # r \<and> CHR ''='' \<notin> set r)"
    and "em_try_parse lv log_levels = Some level"
  shows "lc_configure e i (Some [''logger.'' @ a @ rest @ ''='' @ lv]) s = (True, s\<lparr>ls_loggers := (ls_loggers s)(a \<mapsto> level)\<rparr>)"
  using logger_line[OF assms, of "\<lparr>cf_props = [], cf_names = [], cf_levels = []\<rparr>" s] assms(4)
  by (simp add: lc_configure_def cf_logger_def ls_get_logger_def lg_set_level_def split: option.split)

theorem config_logger_level_witness:
  "lc_configure sample_log_env 5 (Some [''logger.net.http=WARN'']) sample_service
   = (True, sample_service\<lparr>ls_loggers := (ls_loggers sample_service)(''net'' \<mapsto> 30000)\<rparr>)"
proof -
  have "em_try_parse ''WARN'' log_levels = Some 30000" by code_simp
  then show ?thesis using config_logger_level[of "''net''" "''.http''" "''WARN''" 30000 sample_log_env 5 sample_service]
    by (simp add: white_chars)
qed

text \<open>
  A level that follows the equals sign after a space is ignored, whatever it says: the value is
  compared with the names of the levels with the space in front.
\<close>

theorem config_spaced_level_ignored:
  "cf_line (''service.level='' @ CHR 0x20 # v) (cf, s) = (cf, s)"
proof -
  obtain k where t: "trim_spaces (''service.level='' @ CHR 0x20 # v) = ''service.level='' @ take k (CHR 0x20 # v)"
    using trim_keeps_front[of "''service.level=''" white "CHR 0x20 # v"] unfolding trim_spaces_white white_chars by auto
  define w where "w = take k (CHR 0x20 # v)"
  have none: "em_try_parse w log_levels = None"
  proof (rule ccontr)
    assume "em_try_parse w log_levels \<noteq> None"
    then obtain level where "em_try_parse w log_levels = Some level" by blast
    then show False using level_names[of w level] by (cases k) (auto simp: w_def)
  qed
  have "split_pair_char (''service.level'' @ CHR ''='' # w) CHR ''='' = (''service.level'', w)" by (intro split_pair_at) simp
  moreover have "split_char ''service.level'' CHR ''.'' 6 = Some [''service'', ''level'']"
    using split_two(1)[of "''service''" "''level''"] by simp
  moreover have "trim_spaces ''service'' = ''service''" "trim_spaces ''level'' = ''level''"
    by (intro trim_plain; simp add: white_chars)+
  ultimately show ?thesis using t none by (simp add: cf_line_def w_def[symmetric] Let_def)
qed

subsection \<open>From the configuration to the console\<close>

lemma split_one: "c \<notin> set p \<Longrightarrow> p \<noteq> [] \<Longrightarrow> split_char p c 6 = Some [p]"
  using find_char_at(2)[of c p "[]"] by (simp add: split_char_def split_loop.simps[of _ _ _ _ 0])

lemma cut_one: "c \<notin> set p \<Longrightarrow> p \<noteq> [] \<Longrightarrow> split_char p c 0 = Some [p]"
  using find_char_at(2)[of c p "[]"] by (simp add: split_char_def split_loop.simps[of _ _ _ _ 0])

lemma console_line:
  "cf_line ''filters=console'' (\<lparr>cf_props = [], cf_names = [], cf_levels = []\<rparr>, s)
   = (\<lparr>cf_props = [(''console'', [([], ''console'')])], cf_names = [''console''], cf_levels = []\<rparr>, s)"
proof -
  have "trim_spaces ''filters=console'' = ''filters'' @ CHR ''='' # ''console''" by (subst trim_plain) (simp_all add: white_chars)
  moreover have "split_pair_char (''filters'' @ CHR ''='' # ''console'') CHR ''='' = (''filters'', ''console'')"
    by (intro split_pair_at) simp
  moreover have "split_char ''filters'' CHR ''.'' 6 = Some [''filters'']" "split_char ''console'' CHR '','' 0 = Some [''console'']"
    by (simp_all add: split_one cut_one)
  moreover have "trim_spaces ''filters'' = ''filters''" "trim_spaces ''console'' = ''console''"
    by (intro trim_plain; simp add: white_chars)+
  moreover have "cf_set_prop ''console'' [] ''console'' \<lparr>cf_props = [], cf_names = [''console''], cf_levels = []\<rparr>
     = \<lparr>cf_props = [(''console'', [([], ''console'')])], cf_names = [''console''], cf_levels = []\<rparr>" by code_simp
  ultimately show ?thesis by (simp add: cf_line_def cf_filters_def Let_def)
qed

text \<open>The service that the two lines configure, after it was started.\<close>

definition console_service :: "bool \<Rightarrow> (nat \<Rightarrow> log_filter) \<Rightarrow> nat \<Rightarrow> string \<Rightarrow> int \<Rightarrow> string list \<Rightarrow> log_service" where
  "console_service debug fs i a level out =
     \<lparr>ls_loggers = [''root'' \<mapsto> 0, a \<mapsto> level],
      ls_chain = \<lparr>lc_filters = fs(i := \<lparr>lf_kind = Console_Appender, lf_next = None\<rparr>), lc_head = Some i, lc_tail = Some i,
        lc_console = out, lc_trace = []\<rparr>,
      ls_log_level = default_log_level debug, ls_started = True\<rparr>"

lemma console_configured:
  assumes "a \<noteq> []" and "set a \<inter> (set white \<union> {CHR ''.'', CHR ''=''}) = {}" and "em_try_parse lv log_levels = Some level"
  shows "lc_configure e i (Some [''filters=console'', ''logger.'' @ a @ ''='' @ lv]) (ls_new debug fs)
    = (True, (console_service debug fs i a level [])\<lparr>ls_started := False\<rparr>)"
proof -
  have p: "maps_get [(''console'', [([] :: string, ''console'')])] ''console'' [] = [([], ''console'')]"
    "maps_get [([] :: string, ''console'')] [] [] = ''console''" by code_simp+
  have levels: "std_map_set a lv [] = [(a, lv)]" by simp
  show ?thesis using logger_line[of a "[]" lv level] assms console_line[of "ls_new debug fs"]
    by (simp add: lc_configure_def p levels create_filter_def Let_def cf_logger_def ls_get_logger_def lg_set_level_def ls_new_def
        lc_new_def ls_add_filter_def lc_add_filter_def console_service_def split: option.split)
qed

lemma console_started:
  "ls_start (Suc fuel) e timestr thread context ((console_service debug fs i a level out)\<lparr>ls_started := False\<rparr>)
   = Inr (True, console_service debug fs i a level
       (out @ [printed_text (log_entry_text timestr thread context ''root'' log_event ''log service started.'') @ [CHR 10]]))"
  by (simp add: ls_start_def lc_start_def console_service_def lc_set_kind_def ls_log_def lc_is_empty_def lc_log_def Let_def)

lemma console_logs:
  "length msg \<le> 512 * 1024 \<Longrightarrow>
   xul_rel_log (Suc fuel) e timestr thread context name l msg (console_service debug fs i a level out)
   = Inr (console_service debug fs i a level
       (out @ (if l \<ge> lg_get_level name (console_service debug fs i a level out)
               then [printed_text (log_entry_text timestr thread context name l msg) @ [CHR 10]] else [])))"
  by (simp add: xul_rel_log_def ls_need_log_def lg_log_def ls_log_def lc_is_empty_def lc_log_def)
    (simp add: console_service_def lc_set_kind_def)

text \<open>
  A service configured by the lines \<open>filters=console\<close> and \<open>logger.a=LEVEL\<close> and started prints its start and
  then exactly the messages at or above the level of their logger: LEVEL for \<open>a\<close>, the default of the
  build for the others.
\<close>

theorem configured_console_logs:
  assumes "a \<noteq> []" and "set a \<inter> (set white \<union> {CHR ''.'', CHR ''=''}) = {}" and "em_try_parse lv log_levels = Some level"
    and "a \<noteq> ''root''" and "length msg \<le> 512 * 1024"
  shows "sbind (ls_start (Suc fuel) e timestr thread context
           (snd (lc_configure e i (Some [''filters=console'', ''logger.'' @ a @ ''='' @ lv]) (ls_new debug fs))))
         (\<lambda>(ok, s). sbind (xul_rel_log (Suc fuel) e timestr thread context name l msg s) (\<lambda>s. Inr (ok, lc_console (ls_chain s))))
    = Inr (True, [printed_text (log_entry_text timestr thread context ''root'' log_event ''log service started.'') @ [CHR 10]]
        @ (if l \<ge> (if name = a then level else default_log_level debug)
           then [printed_text (log_entry_text timestr thread context name l msg) @ [CHR 10]] else []))"
proof -
  have "level > 0" using level_names[OF assms(3)] by auto
  then have "lg_get_level name (console_service debug fs i a level out) = (if name = a then level else default_log_level debug)" for out
    using assms(4) by (simp add: lg_get_level_def console_service_def)
  moreover have "lc_console (ls_chain (console_service debug fs i a level out)) = out" for out by (simp add: console_service_def)
  ultimately show ?thesis unfolding console_configured[OF assms(1-3)] snd_conv console_started
    by (simp add: console_logs[OF assms(5)])
qed

theorem configured_console_logs_witness:
  "sbind (ls_start 1 sample_log_env ''t'' ''1'' ''0''
           (snd (lc_configure sample_log_env 0 (Some [''filters=console'', ''logger.net=WARN'']) (ls_new True sample_filters))))
     (\<lambda>(ok, s). sbind (xul_rel_log 1 sample_log_env ''t'' ''1'' ''0'' ''net'' 20000 ''hi'' s) (\<lambda>s. Inr (ok, lc_console (ls_chain s))))
   = Inr (True, [printed_text (log_entry_text ''t'' ''1'' ''0'' ''root'' log_event ''log service started.'') @ [CHR 10]])"
proof -
  have "em_try_parse ''WARN'' log_levels = Some 30000" by code_simp
  then show ?thesis
    using configured_console_logs[of "''net''" "''WARN''" 30000 "''hi''" 0 sample_log_env "''t''" "''1''" "''0''" 0 True sample_filters "''net''" 20000]
    by (simp add: white_chars)
qed

end
