(* ===== verification/Socks4.thy ===== *)
theory Socks4
  imports Data_Streams
begin

text \<open>
  \<^verbatim>\<open>include/xul/net/socks4.hpp\<close>: the request and the response of the SOCKS4 protocol over the data
  streams of Data_Streams. A user id is a byte string.
\<close>

subsection \<open>The objects\<close>

record socks4_request =
  s4_version :: u8
  s4_command :: u8
  s4_port :: u16
  s4_ip :: u32
  s4_user :: bytes

record socks4_response =
  s4_status :: u8
  s4_rport :: u16
  s4_rip :: u32

definition s4_reset :: socks4_request where
  "s4_reset = \<lparr>s4_version = 0, s4_command = 0, s4_port = 0, s4_ip = 0, s4_user = []\<rparr>"

definition s4_response_reset :: socks4_response where
  "s4_response_reset = \<lparr>s4_status = 0, s4_rport = 0, s4_rip = 0\<rparr>"

text \<open>A failed read leaves the member as it was; the loop takes the user id up to the null byte.\<close>

definition s4_fields :: "bool \<Rightarrow> socks4_request \<Rightarrow> data_in \<Rightarrow> fault + socks4_request \<times> data_in" where
  "s4_fields host r is =
     (let (v, is) = din_read_byte is; (c, is) = din_read_byte is
      in sbind (read_uint16 host is) (\<lambda>(p, is). sbind (read_uint32 host is) (\<lambda>(ip, is).
           Inr (r\<lparr>s4_version := case_option (s4_version r) id v, s4_command := case_option (s4_command r) id c,
                  s4_port := case_option (s4_port r) id p, s4_ip := case_option (s4_ip r) id ip\<rparr>, is))))"

fun s4_read_user :: "nat \<Rightarrow> bytes \<Rightarrow> data_in \<Rightarrow> fault + bytes \<times> data_in" where
  "s4_read_user 0 user is = Inl Out_Of_Fuel"
| "s4_read_user (Suc fuel) user is =
     (case din_read_byte is of
        (Some ch, is) \<Rightarrow> if ch > 0 then s4_read_user fuel (user @ [ch]) is else Inr (user, is)
      | (None, is) \<Rightarrow> Inr (user, is))"

definition s4_read_object :: "bool \<Rightarrow> data_in \<Rightarrow> fault + (bool \<times> socks4_request) \<times> data_in" where
  "s4_read_object host is =
     (let r = s4_reset
      in if \<not> din_is_available 9 is then Inr ((False, r), set_bad is)
         else sbind (s4_fields host r is) (\<lambda>(r, is).
           if \<not> din_good is then Inr ((False, r), is)
           else sbind (s4_read_user (Suc (length (din_rest is))) [] is) (\<lambda>(user, is).
             Inr ((din_good is, r\<lparr>s4_user := user\<rparr>), is))))"

definition s4_object_size :: "socks4_request \<Rightarrow> nat" where
  "s4_object_size r = 9 + length (s4_user r)"

definition s4_write_object :: "bool \<Rightarrow> bool \<Rightarrow> (bytes \<Rightarrow> 's \<Rightarrow> fault + 's) \<Rightarrow> socks4_request \<Rightarrow> 's \<Rightarrow> fault + 's" where
  "s4_write_object host big put r os =
     sbind (write_byte put (s4_version r) os) (\<lambda>os. sbind (write_byte put (s4_command r) os) (\<lambda>os.
     sbind (write_uint16 host big put (s4_port r) os) (\<lambda>os. sbind (write_uint32 host big put (s4_ip r) os) (\<lambda>os.
     sbind (put (s4_user r) os) (write_byte put 0)))))"

definition s4_response_read :: "bool \<Rightarrow> data_in \<Rightarrow> fault + (bool \<times> socks4_response) \<times> data_in" where
  "s4_response_read host is =
     (let r = s4_response_reset; (n, is) = din_read_byte is; (st, is) = din_read_byte is
      in sbind (read_uint16 host is) (\<lambda>(p, is). sbind (read_uint32 host is) (\<lambda>(ip, is).
           let r = r\<lparr>s4_status := case_option (s4_status r) id st, s4_rport := case_option (s4_rport r) id p,
                     s4_rip := case_option (s4_rip r) id ip\<rparr>;
               is = (if case_option 0 id n \<noteq> 0 then set_bad is else is)
           in Inr ((din_good is, r), is))))"

definition s4_response_write :: "bool \<Rightarrow> bool \<Rightarrow> (bytes \<Rightarrow> 's \<Rightarrow> fault + 's) \<Rightarrow> socks4_response \<Rightarrow> 's \<Rightarrow> fault + 's" where
  "s4_response_write host big put r os =
     sbind (write_byte put 0 os) (\<lambda>os. sbind (write_byte put (s4_status r) os) (\<lambda>os.
     sbind (write_uint16 host big put (s4_rport r) os) (write_uint32 host big put (s4_rip r))))"

subsection \<open>The wire format\<close>

definition s4_bytes :: "bool \<Rightarrow> socks4_request \<Rightarrow> bytes" where
  "s4_bytes big r = [s4_version r, s4_command r] @ from_word big (s4_port r) @ from_dword big (s4_ip r) @ s4_user r @ [0]"

definition s4_response_bytes :: "bool \<Rightarrow> socks4_response \<Rightarrow> bytes" where
  "s4_response_bytes big r = [0, s4_status r] @ from_word big (s4_rport r) @ from_dword big (s4_rip r)"

lemma s4_write_bytes: "s4_write_object host big string_put r s = Inr (s @ s4_bytes big r)"
  by (simp add: s4_write_object_def s4_bytes_def string_put_def write_byte_def write_uint16_def write_uint32_def
      from_convert_word from_convert_dword)

lemma s4_response_write_bytes: "s4_response_write host big string_put r s = Inr (s @ s4_response_bytes big r)"
  by (simp add: s4_response_write_def s4_response_bytes_def string_put_def write_byte_def write_uint16_def write_uint32_def
      from_convert_word from_convert_dword)

lemma read_user_terminated:
  "data_in_ok is \<Longrightarrow> din_good is \<Longrightarrow> din_rest is = u @ 0 # r \<Longrightarrow> 0 \<notin> set u \<Longrightarrow> length u < fuel \<Longrightarrow>
   \<exists>is'. s4_read_user fuel user is = Inr (user @ u, is') \<and> din_good is' \<and> din_rest is' = r"
proof (induction u arbitrary: "is" user fuel)
  case Nil
  then obtain fuel' where "fuel = Suc fuel'" by (cases fuel) auto
  then show ?case using Nil by (simp add: din_read_byte_Cons din_rest_advance)
next
  case (Cons x u)
  then obtain fuel' where f: "fuel = Suc fuel'" by (cases fuel) auto
  have x: "x > 0" using Cons.prems(4) by (auto simp: word_neq_0_conv)
  have ok: "data_in_ok (din_advance 1 is)" using Cons.prems by (intro din_advance_ok) auto
  have rest: "din_rest (din_advance 1 is) = u @ 0 # r" using Cons.prems by (simp add: din_rest_advance)
  show ?case using Cons.IH[OF ok _ rest, of fuel' "user @ [x]"] Cons.prems x by (simp add: f din_read_byte_Cons)
qed

lemma read_user_unterminated:
  "data_in_ok is \<Longrightarrow> din_good is \<Longrightarrow> 0 \<notin> set (din_rest is) \<Longrightarrow> length (din_rest is) < fuel \<Longrightarrow>
   \<exists>u is'. s4_read_user fuel user is = Inr (u, is') \<and> \<not> din_good is'"
proof (induction "din_rest is" arbitrary: "is" user fuel)
  case Nil
  then obtain fuel' where "fuel = Suc fuel'" by (cases fuel) auto
  then show ?case using Nil by (simp add: din_read_byte_Nil)
next
  case (Cons x u)
  then obtain fuel' where f: "fuel = Suc fuel'" by (cases fuel) auto
  have e: "din_rest is = x # u" using Cons.hyps(2) by simp
  have x: "x > 0" using Cons.prems(3) e by (auto simp: word_neq_0_conv)
  have ok: "data_in_ok (din_advance 1 is)" using Cons.prems e by (intro din_advance_ok) auto
  have rest: "u = din_rest (din_advance 1 is)" using Cons.prems e by (simp add: din_rest_advance)
  show ?case using Cons.hyps(1)[OF rest ok, of fuel' "user @ [x]"] Cons.prems x e rest by (simp add: f din_read_byte_Cons)
qed

text \<open>Four reads in a row: two bytes, a 16 and a 32 bit number.\<close>

lemma header_reads:
  assumes "data_in_ok is" and "din_good is"
    and "din_rest is = [v, c] @ from_word (din_big_endian is) p @ from_dword (din_big_endian is) ip @ r"
  shows "din_read_byte is = (Some v, din_advance 1 is)"
    and "din_read_byte (din_advance 1 is) = (Some c, din_advance 2 is)"
    and "read_uint16 host (din_advance 2 is) = Inr (Some p, din_advance 4 is)"
    and "read_uint32 host (din_advance 4 is) = Inr (Some ip, din_advance 8 is)"
    and "data_in_ok (din_advance 8 is)" and "din_rest (din_advance 8 is) = r"
proof -
  have len: "length (din_rest is) = 8 + length r" by (simp add: assms(3))
  have ok: "data_in_ok (din_advance n is)" "din_rest (din_advance n is) = drop n (din_rest is)" if "n \<le> 8" for n
    using that len assms(1) by (auto intro!: din_advance_ok din_rest_advance)
  show "din_read_byte is = (Some v, din_advance 1 is)" using assms by (intro din_read_byte_Cons) auto
  have "din_read_byte (din_advance 1 is) = (Some c, din_advance 1 (din_advance 1 is))"
    using ok[of 1] assms by (intro din_read_byte_Cons) auto
  then show "din_read_byte (din_advance 1 is) = (Some c, din_advance 2 is)" by (simp add: din_advance_add numeral_2_eq_2)
  have "read_uint16 host (din_advance 2 is) = Inr (Some p, din_advance 2 (din_advance 2 is))"
    using ok[of 2] assms by (intro read_uint16_cons) (auto simp: numeral_2_eq_2)
  then show "read_uint16 host (din_advance 2 is) = Inr (Some p, din_advance 4 is)" by (simp add: din_advance_add)
  have "read_uint32 host (din_advance 4 is) = Inr (Some ip, din_advance 4 (din_advance 4 is))"
    using ok[of 4] assms by (intro read_uint32_cons) (auto simp: numeral_eq_Suc)
  then show "read_uint32 host (din_advance 4 is) = Inr (Some ip, din_advance 8 is)" by (simp add: din_advance_add)
  show "data_in_ok (din_advance 8 is)" using ok[of 8] by simp
  show "din_rest (din_advance 8 is) = r" using ok[of 8] assms(3) by simp
qed

lemma s4_fields_read:
  assumes "data_in_ok is" and "din_good is"
    and "din_rest is = [v, c] @ from_word (din_big_endian is) p @ from_dword (din_big_endian is) ip @ r"
  shows "s4_fields host q is = Inr (q\<lparr>s4_version := v, s4_command := c, s4_port := p, s4_ip := ip\<rparr>, din_advance 8 is)"
  using header_reads(1-4)[OF assms] by (simp add: s4_fields_def)

lemma nine_available: "data_in_ok is \<Longrightarrow> din_good is \<Longrightarrow> din_is_available 9 is \<longleftrightarrow> 9 \<le> length (din_rest is)"
  using is_available_iff[of "din_in is" 9]
  by (auto simp: data_in_ok_def din_rest_def din_is_available_def) (auto simp: mem_in_ok_def)

lemma split_at_null: "u @ 0 # w = takeWhile (\<lambda>b. b \<noteq> 0) (u @ 0 # w) @ 0 # drop 1 (dropWhile (\<lambda>b. b \<noteq> 0) (u @ (0 :: u8) # w))"
  by (induction u) auto

lemma takeWhile_null: "takeWhile (\<lambda>b. b \<noteq> 0) (u @ 0 # w) = takeWhile (\<lambda>b. b \<noteq> (0 :: u8)) u"
  by (induction u) auto

text \<open>
  Reading back a request that was written gives the request, with whatever follows it in the stream left
  unread; a user id with a null byte is cut there and the rest of it stays in the stream.
\<close>

theorem socks4_request_roundtrip:
  assumes "length (s4_bytes big r @ w) < 2 ^ 63"
  shows "s4_write_object host big string_put r [] = Inr (s4_bytes big r)
    \<and> (\<exists>is. s4_read_object host (memory_data_input_stream (s4_bytes big r @ w) big)
          = Inr ((True, r\<lparr>s4_user := takeWhile (\<lambda>b. b \<noteq> 0) (s4_user r)\<rparr>), is)
        \<and> din_rest is = drop 1 (dropWhile (\<lambda>b. b \<noteq> 0) (s4_user r @ 0 # w)))"
proof -
  define ins where "ins = memory_data_input_stream (s4_bytes big r @ w) big"
  define u where "u = takeWhile (\<lambda>b. b \<noteq> 0) (s4_user r @ 0 # w)"
  define t where "t = drop 1 (dropWhile (\<lambda>b. b \<noteq> 0) (s4_user r @ 0 # w))"
  have split: "s4_user r @ 0 # w = u @ 0 # t" unfolding u_def t_def by (rule split_at_null)
  have u: "0 \<notin> set u" "u = takeWhile (\<lambda>b. b \<noteq> 0) (s4_user r)"
    unfolding u_def by (auto dest: set_takeWhileD) (simp add: takeWhile_null)
  have ins: "data_in_ok ins" "din_good ins" "din_big_endian ins = big"
    using assms by (auto simp: ins_def intro: memory_data_input_stream_ok)
  have rest: "din_rest ins = [s4_version r, s4_command r] @ from_word (din_big_endian ins) (s4_port r)
      @ from_dword (din_big_endian ins) (s4_ip r) @ u @ 0 # t"
    using ins(3) split by (simp add: ins_def s4_bytes_def)
  note h = header_reads(5,6)[OF ins(1,2) rest]
  obtain is' where user: "s4_read_user (Suc (length (u @ 0 # t))) [] (din_advance 8 ins) = Inr (u, is')" "din_good is'" "din_rest is' = t"
    using read_user_terminated[OF h(1) _ h(2) u(1), of "Suc (length (u @ 0 # t))" "[]"] ins(2) by auto
  have "9 \<le> length (din_rest ins)" by (simp add: rest)
  then have "din_is_available 9 ins" using nine_available[OF ins(1,2)] by simp
  then have "s4_read_object host ins = Inr ((True, r\<lparr>s4_user := u\<rparr>), is')"
    using s4_fields_read[OF ins(1,2) rest] user h(2) ins(2) by (simp add: s4_read_object_def s4_reset_def Let_def)
  then show ?thesis using user(3) u(2) by (auto simp: s4_write_bytes ins_def t_def)
qed

definition sample_socks_request :: socks4_request where
  "sample_socks_request = \<lparr>s4_version = 4, s4_command = 1, s4_port = 80, s4_ip = 0x7F000001, s4_user = [97, 98]\<rparr>"

theorem socks4_request_roundtrip_witness:
  "\<exists>is. s4_read_object False (memory_data_input_stream (s4_bytes True sample_socks_request) True) = Inr ((True, sample_socks_request), is)"
  using socks4_request_roundtrip[of True sample_socks_request "[]" False] by (auto simp: s4_bytes_def sample_socks_request_def)

text \<open>Every proper prefix of a written request without null bytes in its user id is rejected, without a fault.\<close>

theorem socks4_prefix_rejected:
  assumes "length (s4_bytes big r) < 2 ^ 63" and "0 \<notin> set (s4_user r)" and "n < length (s4_bytes big r)"
  shows "\<exists>q is. s4_read_object host (memory_data_input_stream (take n (s4_bytes big r)) big) = Inr ((False, q), is)"
proof -
  define ins where "ins = memory_data_input_stream (take n (s4_bytes big r)) big"
  have ins: "data_in_ok ins" "din_good ins" "din_big_endian ins = big"
    using assms by (auto simp: ins_def intro!: memory_data_input_stream_ok)
  have len: "length (din_rest ins) = n" using assms(3) by (simp add: ins_def)
  show ?thesis
  proof (cases "din_is_available 9 ins")
    case False
    then show ?thesis by (auto simp: s4_read_object_def ins_def Let_def)
  next
    case True
    then have n: "9 \<le> n" using nine_available[OF ins(1,2)] len by simp
    have rest: "din_rest ins = [s4_version r, s4_command r] @ from_word (din_big_endian ins) (s4_port r)
        @ from_dword (din_big_endian ins) (s4_ip r) @ take (n - 8) (s4_user r)"
      using ins(3) n assms(3) by (simp add: ins_def s4_bytes_def take_Cons' numeral_eq_Suc)
    note h = header_reads(5,6)[OF ins(1,2) rest]
    have "0 \<notin> set (din_rest (din_advance 8 ins))" using h(2) assms(2) by (auto dest: in_set_takeD)
    then obtain user is' where "s4_read_user (Suc (length (din_rest (din_advance 8 ins)))) [] (din_advance 8 ins) = Inr (user, is')" "\<not> din_good is'"
      using read_user_unterminated[OF h(1)] ins(2) by fastforce
    then show ?thesis using s4_fields_read[OF ins(1,2) rest] True ins(2)
      by (auto simp: s4_read_object_def ins_def[symmetric] Let_def)
  qed
qed

theorem socks4_prefix_rejected_witness:
  "\<exists>q is. s4_read_object False (memory_data_input_stream (take 10 (s4_bytes True sample_socks_request)) True) = Inr ((False, q), is)"
  using socks4_prefix_rejected[of True sample_socks_request 10 False] by (simp add: s4_bytes_def sample_socks_request_def)

text \<open>A response that was written reads back; one that does not start with a null byte is rejected.\<close>

theorem socks4_response_roundtrip:
  assumes "length w < 2 ^ 62"
  shows "s4_response_write host big string_put r [] = Inr (s4_response_bytes big r)
    \<and> (\<exists>is. s4_response_read host (memory_data_input_stream (n # drop 1 (s4_response_bytes big r) @ w) big) = Inr ((n = 0, r), is))"
proof -
  define ins where "ins = memory_data_input_stream (n # drop 1 (s4_response_bytes big r) @ w) big"
  have ins: "data_in_ok ins" "din_good ins" "din_big_endian ins = big"
    using assms by (auto simp: ins_def s4_response_bytes_def intro!: memory_data_input_stream_ok)
  have rest: "din_rest ins = [n, s4_status r] @ from_word (din_big_endian ins) (s4_rport r) @ from_dword (din_big_endian ins) (s4_rip r) @ w"
    using ins(3) by (simp add: ins_def s4_response_bytes_def)
  have "\<exists>is. s4_response_read host ins = Inr ((n = 0, r), is)"
    using header_reads(1-4)[OF ins(1,2) rest] ins(2)
    by (cases r) (auto simp: s4_response_read_def s4_response_reset_def set_bad_def Let_def)
  then show ?thesis by (simp add: s4_response_write_bytes ins_def)
qed

theorem socks4_response_roundtrip_witness:
  "\<exists>is. s4_response_read False (memory_data_input_stream (1 # drop 1 (s4_response_bytes True \<lparr>s4_status = 90, s4_rport = 80, s4_rip = 7\<rparr>) @ []) True)
     = Inr ((False, \<lparr>s4_status = 90, s4_rport = 80, s4_rip = 7\<rparr>), is)"
  using socks4_response_roundtrip[of "[]" False True "\<lparr>s4_status = 90, s4_rport = 80, s4_rip = 7\<rparr>" 1] by simp

end
