(* ===== verification/Name_Resolver.thy ===== *)
theory Name_Resolver
  imports Numerics Bit_Converter
begin

text \<open>
  Addresses and names: \<^verbatim>\<open>include/xul/net/inet4_address.hpp\<close>, \<^verbatim>\<open>inet_socket_address.hpp\<close>, the backup table of
  \<^verbatim>\<open>detail/dns_backup_impl.hpp\<close> and the resolver of \<^verbatim>\<open>libs/asio/asio_name_resolver.hpp\<close>. \<open>inet_addr\<close> and
  \<open>inet_ntoa\<close> of the system are parameters; \<open>htonl\<close> and its kin convert from the order of the host (big
  endian when \<open>host\<close> holds) to that of the network. The results of a look-up are the environment's.
\<close>

subsection \<open>inet4_address\<close>

text \<open>An address is its \<open>s_addr\<close>, in network order.\<close>

definition htonl :: "bool \<Rightarrow> u32 \<Rightarrow> u32" where
  "htonl host x = convert_dword host True x"

definition htons :: "bool \<Rightarrow> u16 \<Rightarrow> u16" where
  "htons host x = convert_word host True x"

definition ia_set_address :: "bool \<Rightarrow> u32 \<Rightarrow> u32" where
  "ia_set_address host ip = htonl host ip"

definition ia_set_address_text :: "(string \<Rightarrow> u32) \<Rightarrow> string \<Rightarrow> u32" where
  "ia_set_address_text inet_addr ipstr = inet_addr ipstr"

definition ia_get_address :: "bool \<Rightarrow> u32 \<Rightarrow> u32" where
  "ia_get_address host a = htonl host a"

definition inaddr_none :: u32 where
  "inaddr_none = 0xFFFFFFFF"

definition ia_is_none :: "bool \<Rightarrow> u32 \<Rightarrow> bool" where
  "ia_is_none host a = (ia_get_address host a = inaddr_none)"

definition ia_is_loopback :: "bool \<Rightarrow> u32 \<Rightarrow> bool" where
  "ia_is_loopback host a = (ia_get_address host a = 0x7F000001)"

definition ia_is_valid :: "bool \<Rightarrow> u32 \<Rightarrow> bool" where
  "ia_is_valid host a = (\<not> ia_is_none host a \<and> a \<noteq> 0)"

definition make_raw_inet4_address :: "bool \<Rightarrow> u32 \<Rightarrow> u32" where
  "make_raw_inet4_address host ip = ia_set_address host ip"

definition make_inet4_address :: "bool \<Rightarrow> u32 \<Rightarrow> u32" where
  "make_inet4_address host ip = ia_set_address host ip"

subsection \<open>inet_socket_address\<close>

record socket_address =
  sk_ip :: u32
  sk_port :: u16

definition sk_clear :: socket_address where
  "sk_clear = \<lparr>sk_ip = 0, sk_port = 0\<rparr>"

definition sk_set_ip :: "bool \<Rightarrow> u32 \<Rightarrow> socket_address \<Rightarrow> socket_address" where
  "sk_set_ip host ip a = a\<lparr>sk_ip := htonl host ip\<rparr>"

definition sk_set_port :: "bool \<Rightarrow> u16 \<Rightarrow> socket_address \<Rightarrow> socket_address" where
  "sk_set_port host port a = a\<lparr>sk_port := htons host port\<rparr>"

definition sk_get_ip :: "bool \<Rightarrow> socket_address \<Rightarrow> u32" where
  "sk_get_ip host a = htonl host (sk_ip a)"

definition sk_get_port :: "bool \<Rightarrow> socket_address \<Rightarrow> u16" where
  "sk_get_port host a = htons host (sk_port a)"

definition sk_set_ip_text :: "(string \<Rightarrow> u32) \<Rightarrow> string option \<Rightarrow> socket_address \<Rightarrow> socket_address" where
  "sk_set_ip_text inet_addr ipstr a = (case ipstr of None \<Rightarrow> a | Some s \<Rightarrow> a\<lparr>sk_ip := inet_addr s\<rparr>)"

definition sk_new :: "bool \<Rightarrow> u32 \<Rightarrow> u16 \<Rightarrow> socket_address" where
  "sk_new host ip port = sk_set_port host port (sk_set_ip host ip sk_clear)"

definition sk_get_inet_address :: "socket_address \<Rightarrow> u32" where
  "sk_get_inet_address a = sk_ip a"

definition sk_is_valid :: "bool \<Rightarrow> socket_address \<Rightarrow> bool" where
  "sk_is_valid host a = (ia_is_valid host (sk_get_inet_address a) \<and> sk_port a \<noteq> 0)"

definition sk_str :: "bool \<Rightarrow> (u32 \<Rightarrow> string) \<Rightarrow> socket_address \<Rightarrow> string" where
  "sk_str host inet_ntoa a = inet_ntoa (sk_get_inet_address a) @ '':'' @ numerics_format (uint (sk_get_port host a))"

definition sk_try_parse :: "bool \<Rightarrow> (string \<Rightarrow> u32) \<Rightarrow> string \<Rightarrow> socket_address \<Rightarrow> bool \<times> socket_address" where
  "sk_try_parse host inet_addr s a =
     (let ipstr = takeWhile (\<lambda>c. c \<noteq> CHR '':'') s; rest = dropWhile (\<lambda>c. c \<noteq> CHR '':'') s
      in if rest = [] then (False, a)
         else let portstr = tl rest
              in if ipstr = [] \<or> portstr = [] then (False, a)
                 else let a = sk_set_port host (word_of_int (numerics_parse portstr 0)) (sk_set_ip_text inet_addr (Some ipstr) a)
                      in (sk_is_valid host a, a))"

definition sk_equal :: "socket_address \<Rightarrow> socket_address \<Rightarrow> bool" where
  "sk_equal x y = (sk_ip x = sk_ip y \<and> sk_port x = sk_port y)"

definition sk_less :: "socket_address \<Rightarrow> socket_address \<Rightarrow> bool" where
  "sk_less x y = (if sk_ip x \<noteq> sk_ip y then sk_ip x < sk_ip y else sk_port x < sk_port y)"

subsection \<open>The backup table\<close>

type_synonym dns_backup = "string \<rightharpoonup> u32 list"

definition dns_clear :: "dns_backup \<Rightarrow> dns_backup" where
  "dns_clear d = Map.empty"

definition dns_remove :: "string \<Rightarrow> dns_backup \<Rightarrow> bool \<times> dns_backup" where
  "dns_remove hostname d = (if hostname = [] then (False, d) else (True, d(hostname := None)))"

definition dns_add_ipv4 :: "string \<Rightarrow> u32 \<Rightarrow> dns_backup \<Rightarrow> bool \<times> dns_backup" where
  "dns_add_ipv4 hostname ip d =
     (if hostname = [] then (False, d)
      else (True, d(hostname \<mapsto> (case d hostname of None \<Rightarrow> [] | Some l \<Rightarrow> l) @ [ip])))"

definition dns_add :: "bool \<Rightarrow> (string \<Rightarrow> u32) \<Rightarrow> string \<Rightarrow> string \<Rightarrow> dns_backup \<Rightarrow> bool \<times> dns_backup" where
  "dns_add host inet_addr hostname ipstr d =
     (let addr = ia_set_address_text inet_addr ipstr
      in if \<not> ia_is_valid host addr then (False, d) else dns_add_ipv4 hostname addr d)"

definition dns_lookup :: "string \<Rightarrow> dns_backup \<Rightarrow> u32 list option" where
  "dns_lookup hostname d = (if hostname = [] then None else d hostname)"

subsection \<open>The resolver\<close>

text \<open>
  The end points or the error of a look-up; a report to the listener: the name, the error code and the
  addresses. The look-ups in flight are the names that were asked for.
\<close>

type_synonym dns_answer = "int + u32 list"
type_synonym resolved = "string \<times> int \<times> u32 list"

record name_resolver =
  nr_query :: string
  nr_addresses :: "u32 list"
  nr_listener :: bool
  nr_pending :: "string list"

definition nr_new :: "bool \<Rightarrow> name_resolver" where
  "nr_new listener = \<lparr>nr_query = [], nr_addresses = [], nr_listener = listener, nr_pending = []\<rparr>"

definition backup_addresses :: "dns_backup \<Rightarrow> string \<Rightarrow> u32 list \<Rightarrow> u32 list" where
  "backup_addresses d name addresses = (case dns_lookup name d of None \<Rightarrow> addresses | Some ips \<Rightarrow> addresses @ ips)"

definition nr_resolve :: "dns_backup \<Rightarrow> dns_answer \<Rightarrow> string \<Rightarrow> name_resolver \<Rightarrow> (bool \<times> u32 list) \<times> name_resolver" where
  "nr_resolve d result name r =
     (let r = r\<lparr>nr_query := name\<rparr>
      in case result of
           Inl err \<Rightarrow> (let addresses = backup_addresses d name [] in ((addresses \<noteq> [], addresses), r))
         | Inr ips \<Rightarrow> ((True, if ips = [] then backup_addresses d name [] else ips), r))"

definition nr_async_resolve :: "string \<Rightarrow> name_resolver \<Rightarrow> name_resolver" where
  "nr_async_resolve name r = r\<lparr>nr_query := name, nr_addresses := [], nr_pending := nr_pending r @ [name]\<rparr>"

text \<open>\<open>close\<close> cancels the look-ups: their handlers still run, with the error \<open>operation_aborted\<close>.\<close>

definition nr_close :: "name_resolver \<Rightarrow> name_resolver" where
  "nr_close r = r\<lparr>nr_addresses := []\<rparr>"

definition nr_destroy :: "name_resolver \<Rightarrow> name_resolver" where
  "nr_destroy r = nr_close (r\<lparr>nr_listener := False\<rparr>)"

definition nr_report :: "int \<Rightarrow> name_resolver \<Rightarrow> resolved list" where
  "nr_report err r = (if nr_listener r then [(nr_query r, err, nr_addresses r)] else [])"

definition nr_handle_resolve :: "dns_backup \<Rightarrow> dns_answer \<Rightarrow> name_resolver \<Rightarrow> resolved list \<times> name_resolver" where
  "nr_handle_resolve d result r =
     (case result of
        Inl err \<Rightarrow>
          (let r = r\<lparr>nr_addresses := backup_addresses d (nr_query r) []\<rparr>
           in (if nr_addresses r = [] then nr_report err r else nr_report 0 r, r))
      | Inr ips \<Rightarrow>
          (let r = r\<lparr>nr_addresses := ips\<rparr>;
               r = (if nr_addresses r = [] then r\<lparr>nr_addresses := backup_addresses d (nr_query r) []\<rparr> else r)
           in (if nr_addresses r = [] then nr_report (- 1) r else nr_report 0 r, r)))"

text \<open>The oldest look-up completes.\<close>

definition nr_complete :: "dns_backup \<Rightarrow> dns_answer \<Rightarrow> name_resolver \<Rightarrow> resolved list \<times> name_resolver" where
  "nr_complete d result r = (case nr_pending r of
      [] \<Rightarrow> ([], r) | name # names \<Rightarrow> nr_handle_resolve d result (r\<lparr>nr_pending := names\<rparr>))"

subsection \<open>Addresses\<close>

lemma reverse_reverse_word: "reverse_word (reverse_word x) = x"
proof -
  obtain a b where x: "x = to_word True [a, b]" using word_from_bytes by blast
  show ?thesis unfolding x by (simp add: reverse_to_word)
qed

lemma htons_twice [simp]: "htons host (htons host x) = x"
  by (simp add: htons_def convert_word_def reverse_reverse_word)

lemma parse_port: "numerics_try_parse (numerics_format v) = Some v"
  using try_parse_format[of "[]" v] by simp

lemma takeWhile_colon: "CHR '':'' \<notin> set s \<Longrightarrow> takeWhile (\<lambda>c. c \<noteq> CHR '':'') (s @ CHR '':'' # r) = s
    \<and> dropWhile (\<lambda>c. c \<noteq> CHR '':'') (s @ CHR '':'' # r) = CHR '':'' # r"
  by (induction s) auto

text \<open>
  The text of a socket address parses back to it, and the parser accepts it exactly when it is valid:
  with a port, and neither the zero address nor 255.255.255.255. Of the system's functions it takes that
  \<open>inet_addr\<close> inverts \<open>inet_ntoa\<close>, whose result is a text without a colon.
\<close>

theorem socket_address_roundtrip:
  assumes "inet_addr (inet_ntoa (sk_ip a)) = sk_ip a" and "inet_ntoa (sk_ip a) \<noteq> []" and "CHR '':'' \<notin> set (inet_ntoa (sk_ip a))"
  shows "sk_try_parse host inet_addr (sk_str host inet_ntoa a) b = (sk_is_valid host a, a)"
proof -
  define p where "p = numerics_format (uint (sk_get_port host a))"
  have str: "sk_str host inet_ntoa a = inet_ntoa (sk_ip a) @ CHR '':'' # p" by (simp add: sk_str_def sk_get_inet_address_def p_def)
  have port: "word_of_int (numerics_parse p 0) = sk_get_port host a" by (simp add: p_def numerics_parse_def parse_port)
  have "p \<noteq> []" using parse_port[of "uint (sk_get_port host a)"] by (auto simp: p_def numerics_try_parse_def scan_sign_def)
  moreover have "b\<lparr>sk_ip := sk_ip a, sk_port := sk_port a\<rparr> = a" by simp
  ultimately show ?thesis unfolding str using assms port
    by (simp add: Let_def sk_is_valid_def sk_get_inet_address_def sk_try_parse_def takeWhile_colon sk_set_ip_text_def sk_set_port_def sk_get_port_def)
qed

definition sample_ntoa :: "u32 \<Rightarrow> string" where
  "sample_ntoa x = (if x = 0x0100007F then ''127.0.0.1'' else ''0.0.0.0'')"

definition sample_inet_addr :: "string \<Rightarrow> u32" where
  "sample_inet_addr s = (if s = ''127.0.0.1'' then 0x0100007F else 0)"

theorem socket_address_roundtrip_witness:
  "sk_try_parse False sample_inet_addr (sk_str False sample_ntoa (sk_new False 0x7F000001 80)) sk_clear
   = (True, sk_new False 0x7F000001 80)"
proof -
  let ?a = "sk_new False 0x7F000001 80"
  have "sk_ip ?a = 0x0100007F" "sk_is_valid False ?a" by code_simp+
  then show ?thesis
    using socket_address_roundtrip[of sample_inet_addr sample_ntoa ?a False sk_clear] by (simp add: sample_ntoa_def sample_inet_addr_def)
qed

text \<open>
  The order of socket addresses is strict and linear, and two addresses that it does not separate are
  equal.
\<close>

theorem socket_address_order:
  "(\<not> sk_less x x) \<and> (sk_less x y \<and> sk_less y z \<longrightarrow> sk_less x z) \<and> (sk_less x y \<or> sk_equal x y \<or> sk_less y x)
   \<and> (sk_equal x y \<longleftrightarrow> x = y)"
  by (cases x; cases y) (auto simp: sk_less_def sk_equal_def split: if_splits)

theorem socket_address_order_witness:
  "sk_less (sk_new False 1 80) (sk_new False 1 81) \<and> sk_less (sk_new False 1 80) (sk_new False 2 80)"
proof -
  have a: "sk_less (sk_new False 1 80) (sk_new False 1 81)" by code_simp
  moreover have "sk_less (sk_new False 1 81) (sk_new False 2 80)" by code_simp
  ultimately show ?thesis using socket_address_order[of "sk_new False 1 80" "sk_new False 1 81" "sk_new False 2 80"] by blast
qed

text \<open>\<open>make_raw_inet4_address\<close> swaps the bytes of its argument on a little endian host, though it is raw already.\<close>

theorem raw_address_swapped:
  "make_raw_inet4_address host raw = (if host then raw else reverse_dword raw)"
  by (simp add: make_raw_inet4_address_def ia_set_address_def htonl_def convert_dword_def)

subsection \<open>The backup table keeps a history\<close>

datatype dns_op = Dns_Add string u32 | Dns_Remove string | Dns_Clear

fun dns_op_step :: "dns_op \<Rightarrow> dns_backup \<Rightarrow> dns_backup" where
  "dns_op_step (Dns_Add h ip) d = snd (dns_add_ipv4 h ip d)"
| "dns_op_step (Dns_Remove h) d = snd (dns_remove h d)"
| "dns_op_step Dns_Clear d = dns_clear d"

fun dns_forgets :: "string \<Rightarrow> dns_op \<Rightarrow> bool" where
  "dns_forgets h (Dns_Add h' ip) = False"
| "dns_forgets h (Dns_Remove h') = (h = h')"
| "dns_forgets h Dns_Clear = True"

fun dns_added :: "string \<Rightarrow> dns_op list \<Rightarrow> u32 list" where
  "dns_added h [] = []"
| "dns_added h (Dns_Add h' ip # ops) = (if h = h' then ip # dns_added h ops else dns_added h ops)"
| "dns_added h (_ # ops) = dns_added h ops"

definition last_run :: "('a \<Rightarrow> bool) \<Rightarrow> 'a list \<Rightarrow> 'a list" where
  "last_run P xs = rev (takeWhile (\<lambda>x. \<not> P x) (rev xs))"

lemma dns_added_append: "dns_added h (xs @ ys) = dns_added h xs @ dns_added h ys"
  by (induction h xs rule: dns_added.induct) auto

text \<open>
  After any operations, the addresses found for a name are those added to it since it was last removed or
  the table cleared, in the order they were added.
\<close>

theorem dns_backup_history:
  "dns_lookup h (fold dns_op_step ops Map.empty) =
    (if h = [] \<or> dns_added h (last_run (dns_forgets h) ops) = [] then None else Some (dns_added h (last_run (dns_forgets h) ops)))"
proof (cases "h = []")
  case False
  have "fold dns_op_step ops Map.empty h =
    (if dns_added h (last_run (dns_forgets h) ops) = [] then None else Some (dns_added h (last_run (dns_forgets h) ops)))"
  proof (induction ops rule: rev_induct)
    case Nil
    then show ?case by (simp add: last_run_def)
  next
    case (snoc x ops)
    then show ?case using False
      by (cases x) (auto simp: last_run_def dns_added_append dns_add_ipv4_def dns_remove_def dns_clear_def)
  qed
  then show ?thesis using False by (simp add: dns_lookup_def)
qed (simp add: dns_lookup_def)

subsection \<open>What the resolver reports\<close>

text \<open>
  One asynchronous look-up reports its name once: the addresses found, else those of the backup table
  with success, else the error of the look-up (-1 when it only found nothing). \<open>resolve\<close> gives the same
  addresses, and fails only when there are none and the look-up failed.
\<close>

theorem resolver_reports:
  "let found = (case result of Inl err \<Rightarrow> [] | Inr ips \<Rightarrow> ips);
       ips = (if found = [] then backup_addresses d name [] else found);
       err = (if ips \<noteq> [] then 0 else case result of Inl err \<Rightarrow> err | Inr _ \<Rightarrow> - 1)
   in fst (nr_complete d result (nr_async_resolve name (nr_new True))) = [(name, err, ips)]
    \<and> fst (nr_resolve d result name r) = (ips \<noteq> [] \<or> (\<exists>l. result = Inr l), ips)"
  by (cases result) (simp_all add: nr_complete_def nr_async_resolve_def nr_new_def nr_handle_resolve_def nr_report_def
      nr_resolve_def backup_addresses_def Let_def split: option.split)

text \<open>
  With two look-ups in flight, the answer to the first is reported under the name of the second: the
  resolver keeps one query.
\<close>

theorem resolver_mislabels:
  assumes "ips \<noteq> []"
  shows "fst (nr_complete d (Inr ips) (nr_async_resolve second (nr_async_resolve first (nr_new True)))) = [(second, 0, ips)]"
  using assms by (simp add: nr_complete_def nr_async_resolve_def nr_new_def nr_handle_resolve_def nr_report_def Let_def)

theorem resolver_mislabels_witness:
  "fst (nr_complete Map.empty (Inr [7]) (nr_async_resolve ''b'' (nr_async_resolve ''a'' (nr_new True)))) = [(''b'', 0, [7])]"
  by (rule resolver_mislabels) simp

text \<open>
  A closed resolver still reports success: the look-up that \<open>close\<close> cancels ends with an error, and a
  backup address takes its place. A destroyed one reports nothing.
\<close>

theorem closed_resolver_reports:
  assumes "dns_lookup name d = Some (ip # ips)"
  shows "fst (nr_complete d (Inl aborted) (nr_close (nr_async_resolve name (nr_new True)))) = [(name, 0, ip # ips)]
    \<and> fst (nr_complete d result (nr_destroy r)) = []"
  using assms by (auto simp: nr_complete_def nr_async_resolve_def nr_new_def nr_handle_resolve_def nr_report_def nr_close_def
      nr_destroy_def backup_addresses_def Let_def split: list.split sum.split)

theorem closed_resolver_reports_witness:
  "fst (nr_complete [''a'' \<mapsto> [7]] (Inl 125) (nr_close (nr_async_resolve ''a'' (nr_new True)))) = [(''a'', 0, [7])]"
  using closed_resolver_reports[of "''a''" "[''a'' \<mapsto> [7]]" 7 "[]" 125 "Inr []" "nr_new True"] by (simp add: dns_lookup_def)

end
