(* ===== verification/Small_Types.thy ===== *)
theory Small_Types
  imports Numerics Bit_Converter Std_Maps
begin

text \<open>
  Small classes beside the larger ones: \<^verbatim>\<open>util/handle_map.hpp\<close>, \<^verbatim>\<open>util/random.hpp\<close> and \<^verbatim>\<open>util/random_id_generator.hpp\<close>
  over a \<open>rand\<close> that is a parameter, \<^verbatim>\<open>data/slice.hpp\<close> and \<^verbatim>\<open>std/sets.hpp\<close>.
\<close>

subsection \<open>handle_map\<close>

text \<open>The handles are the keys of a \<open>std::map\<close>; the lock is held throughout each operation.\<close>

type_synonym 'a handles = "(int \<times> 'a) list"

fun hm_first_free :: "int list \<Rightarrow> 'a handles \<Rightarrow> int option" where
  "hm_first_free [] m = None"
| "hm_first_free (i # is) m = (if map_of m i = None then Some i else hm_first_free is m)"

text \<open>The handles that are tried first.\<close>

definition low_handles :: "int list" where
  "low_handles = [1..99]"

definition hm_add :: "'a \<Rightarrow> 'a handles \<Rightarrow> int \<times> 'a handles" where
  "hm_add obj m =
     (case hm_first_free low_handles m of
        Some i \<Rightarrow> (i, std_map_set i obj m)
      | None \<Rightarrow> (let handle = fst (last m) + 1
                 in if handle > 1000000 then (- 1, m) else (handle, std_map_set handle obj m)))"

definition hm_find :: "int \<Rightarrow> 'a handles \<Rightarrow> 'a option" where
  "hm_find handle m = map_of m handle"

definition hm_remove :: "int \<Rightarrow> 'a handles \<Rightarrow> 'a option \<times> 'a handles" where
  "hm_remove handle m = (case map_of m handle of
      None \<Rightarrow> (None, m) | Some obj \<Rightarrow> (Some obj, filter (\<lambda>e. fst e \<noteq> handle) m))"

datatype 'a handle_op = Hm_Add 'a | Hm_Remove int

fun hm_step :: "'a handle_op \<Rightarrow> 'a handles \<Rightarrow> 'a handles" where
  "hm_step (Hm_Add x) m = snd (hm_add x m)"
| "hm_step (Hm_Remove h) m = snd (hm_remove h m)"

definition hm_ok :: "'a handles \<Rightarrow> bool" where
  "hm_ok m \<longleftrightarrow> std_map_ok m \<and> (\<forall>e\<in>set m. 1 \<le> fst e \<and> fst e \<le> 1000000)"

lemma low_handles_set: "set low_handles = {1..99}"
  unfolding low_handles_def by (rule set_upto)

lemma first_free: "case hm_first_free is m of
    Some i \<Rightarrow> i \<in> set is \<and> map_of m i = None | None \<Rightarrow> \<forall>i\<in>set is. map_of m i \<noteq> None"
  by (induction "is") (auto split: option.splits)

lemma std_map_filter: "std_map_ok m \<Longrightarrow> std_map_ok (filter P m)"
  by (induction m) (auto simp: list_all_iff)

lemma map_of_filter_key: "map_of (filter (\<lambda>e. fst e \<noteq> h) m) = (map_of m)(h := None)"
  by (induction m) (auto simp: fun_eq_iff)

lemma std_map_set_keys: "fst ` set (std_map_set k v m) = insert k (fst ` set m)"
  using map_of_std_map_set[of k v m] by (metis dom_fun_upd dom_map_of_conv_image_fst option.distinct(1))

lemma std_map_set_all: "\<forall>e\<in>set m. P (fst e) \<Longrightarrow> P k \<Longrightarrow> \<forall>e\<in>set (std_map_set k v m). P (fst e)"
proof
  fix e assume "\<forall>e\<in>set m. P (fst e)" "P k" "e \<in> set (std_map_set k v m)"
  moreover from this(3) have "fst e \<in> insert k (fst ` set m)" using imageI[of e "set (std_map_set k v m)" fst] unfolding std_map_set_keys by simp
  ultimately show "P (fst e)" by auto
qed

lemma last_key_max: "std_map_ok m \<Longrightarrow> e \<in> set m \<Longrightarrow> fst e \<le> fst (last m)"
  by (induction m) (auto simp: list_all_iff dest: less_imp_le)

lemma hm_set_ok:
  assumes "hm_ok m" and "1 \<le> h" and "h \<le> 1000000"
  shows "hm_ok (std_map_set h x m)"
proof -
  have "\<forall>e\<in>set m. 1 \<le> fst e \<and> fst e \<le> 1000000" using assms(1) unfolding hm_ok_def by blast
  from std_map_set_all[of m "\<lambda>h. 1 \<le> h \<and> h \<le> 1000000", OF this] assms show ?thesis
    unfolding hm_ok_def by (blast intro: std_map_set_ok)
qed

lemma hm_last:
  assumes "hm_ok m" and "m \<noteq> []"
  shows "1 \<le> fst (last m) \<and> fst (last m) \<le> 1000000" and "map_of m (fst (last m)) \<noteq> None" and "map_of m (fst (last m) + 1) = None"
proof -
  have l: "last m \<in> set m" "std_map_ok m" using assms by (simp_all add: hm_ok_def)
  then show "1 \<le> fst (last m) \<and> fst (last m) \<le> 1000000" using assms by (simp add: hm_ok_def)
  show "map_of m (fst (last m)) \<noteq> None" using l(1) by (simp add: map_of_eq_None_iff)
  show "map_of m (fst (last m) + 1) = None" using last_key_max[OF l(2)] by (force simp: map_of_eq_None_iff)
qed

lemma hm_add_result:
  assumes "hm_ok m"
  shows "hm_ok (snd (hm_add x m)) \<and>
    (if fst (hm_add x m) = - 1 then snd (hm_add x m) = m \<and> map_of m 1000000 \<noteq> None \<and> (\<forall>i\<in>{1..99}. map_of m i \<noteq> None)
     else map_of m (fst (hm_add x m)) = None \<and> map_of (snd (hm_add x m)) = (map_of m)(fst (hm_add x m) \<mapsto> x))"
proof (cases "hm_first_free low_handles m")
  case (Some i)
  have i: "1 \<le> i" "i \<le> 99" "map_of m i = None" using first_free[of low_handles m] unfolding Some low_handles_set by simp_all
  have add: "hm_add x m = (i, std_map_set i x m)" by (simp add: hm_add_def Some)
  have "hm_ok (std_map_set i x m)" using assms i(1,2) by (intro hm_set_ok) simp_all
  then show ?thesis using i unfolding add by simp
next
  case None
  have used: "\<forall>i\<in>{1..99}. map_of m i \<noteq> None" using first_free[of low_handles m] unfolding None low_handles_set by simp
  then have "map_of m 1 \<noteq> None" by simp
  then have ne: "m \<noteq> []" by (cases m) simp_all
  note l = hm_last[OF assms ne]
  show ?thesis
  proof (cases "fst (last m) + 1 > 1000000")
    case True
    then have "fst (last m) = 1000000" using l(1) by simp
    moreover have "hm_add x m = (- 1, m)" using True by (simp add: hm_add_def None Let_def)
    ultimately show ?thesis using used l(2) assms by simp
  next
    case False
    have add: "hm_add x m = (fst (last m) + 1, std_map_set (fst (last m) + 1) x m)" using False by (simp add: hm_add_def None Let_def)
    have "hm_ok (std_map_set (fst (last m) + 1) x m)" using assms l(1) False by (intro hm_set_ok) simp_all
    then show ?thesis using l(1,3) unfolding add by simp
  qed
qed

lemma hm_remove_result:
  "hm_ok m \<Longrightarrow> hm_ok (snd (hm_remove h m)) \<and> fst (hm_remove h m) = map_of m h \<and> map_of (snd (hm_remove h m)) = (map_of m)(h := None)"
  by (auto simp: hm_remove_def hm_ok_def std_map_filter map_of_filter_key fun_eq_iff split: option.split)

lemma hm_run_ok: "hm_ok m \<Longrightarrow> hm_ok (fold hm_step ops m)"
proof (induction ops arbitrary: m)
  case (Cons x ops)
  have "hm_ok (hm_step x m)" using Cons.prems hm_add_result[of m] hm_remove_result[of m] by (cases x) simp_all
  then show ?case using Cons.IH by simp
qed simp

text \<open>
  C38. After any additions and removals a handle map is a partial map: an addition takes a handle that is not in
  use and stores the object under it, a removal returns the object and frees the handle. An addition fails
  only when the handles from 1 to 99 are in use and so is the handle 1000000, whatever is free between.
\<close>

theorem handle_map_refines_map:
  "let m = fold hm_step ops []; (h, m') = hm_add x m in
     (if h = - 1 then m' = m \<and> map_of m 1000000 \<noteq> None \<and> {1..99} \<subseteq> dom (map_of m)
      else map_of m h = None \<and> map_of m' = (map_of m)(h \<mapsto> x))
     \<and> hm_find k m = map_of m k \<and> fst (hm_remove k m) = map_of m k \<and> map_of (snd (hm_remove k m)) = (map_of m)(k := None)"
proof -
  have "hm_ok (fold hm_step ops [])" by (rule hm_run_ok) (simp add: hm_ok_def)
  from hm_add_result[OF this, of x] hm_remove_result[OF this, of k] show ?thesis
    by (auto simp: Let_def case_prod_unfold hm_find_def dom_def)
qed

subsection \<open>random\<close>

text \<open>\<open>rand\<close> takes its state to a number that is not negative, and a state.\<close>

definition rn_next_in :: "('s \<Rightarrow> int \<times> 's) \<Rightarrow> int \<Rightarrow> 's \<Rightarrow> int \<times> 's" where
  "rn_next_in rand rng s = (let (v, s) = rand s in (v mod rng, s))"

definition rn_next_byte :: "('s \<Rightarrow> int \<times> 's) \<Rightarrow> 's \<Rightarrow> u8 \<times> 's" where
  "rn_next_byte rand s = (let (v, s) = rn_next_in rand 255 s in (word_of_int v, s))"

definition rn_next_word :: "('s \<Rightarrow> int \<times> 's) \<Rightarrow> 's \<Rightarrow> u16 \<times> 's" where
  "rn_next_word rand s = (let (v, s) = rand s in (word_of_int v, s))"

definition rn_next_dword :: "('s \<Rightarrow> int \<times> 's) \<Rightarrow> 's \<Rightarrow> u32 \<times> 's" where
  "rn_next_dword rand s = (let (low, s) = rn_next_word rand s; (high, s) = rn_next_word rand s in (make_dword high low, s))"

definition rn_next_qword :: "('s \<Rightarrow> int \<times> 's) \<Rightarrow> 's \<Rightarrow> u64 \<times> 's" where
  "rn_next_qword rand s = (let (low, s) = rn_next_dword rand s; (high, s) = rn_next_dword rand s in (make_qword high low, s))"

fun rn_generate_string :: "('s \<Rightarrow> int \<times> 's) \<Rightarrow> nat \<Rightarrow> 's \<Rightarrow> bytes \<times> 's" where
  "rn_generate_string rand 0 s = ([], s)"
| "rn_generate_string rand (Suc n) s =
     (let (b, s) = rn_next_byte rand s; (bs, s) = rn_generate_string rand n s in (b # bs, s))"

text \<open>A random string never contains the byte 255.\<close>

theorem random_string_misses_255:
  "255 \<notin> set (fst (rn_generate_string rand n s)) \<and> length (fst (rn_generate_string rand n s)) = n"
proof -
  have byte: "fst (rn_next_byte rand t) \<noteq> 255" for t
  proof
    assume e: "fst (rn_next_byte rand t) = 255"
    let ?v = "fst (rand t) mod 255"
    have v: "0 \<le> ?v" "?v < 255" by simp_all
    have "word_of_int ?v = (255 :: u8)" using e by (simp add: rn_next_byte_def rn_next_in_def case_prod_unfold Let_def)
    then have "uint (word_of_int ?v :: u8) = uint (255 :: u8)" by simp
    then show False using v by (simp add: uint_word_of_int)
  qed
  show ?thesis
  proof (induction n arbitrary: s)
    case (Suc n)
    then show ?case using byte[of s] by (auto simp: case_prod_unfold Let_def)
  qed simp
qed

subsection \<open>Identifier generators\<close>

text \<open>
  \<open>random_generator\<close> returns a \<open>uint16_t\<close> for every type: the lower half of a double word, the lowest
  quarter of a quad word.
\<close>

definition rg_generate16 :: "('s \<Rightarrow> int \<times> 's) \<Rightarrow> 's \<Rightarrow> u16 \<times> 's" where
  "rg_generate16 rand s = rn_next_word rand s"

definition rg_generate32 :: "('s \<Rightarrow> int \<times> 's) \<Rightarrow> 's \<Rightarrow> u16 \<times> 's" where
  "rg_generate32 rand s = (let (v, s) = rn_next_dword rand s in (ucast v, s))"

definition rg_generate64 :: "('s \<Rightarrow> int \<times> 's) \<Rightarrow> 's \<Rightarrow> u16 \<times> 's" where
  "rg_generate64 rand s = (let (v, s) = rn_next_qword rand s in (ucast v, s))"

text \<open>The generator of a value type, with the \<open>generate\<close> of its \<open>random_generator\<close>.\<close>

record random_id_generator =
  ig_ids :: "int list"
  ig_min :: int
  ig_max :: int

definition ig_set_range :: "int \<Rightarrow> int \<Rightarrow> random_id_generator \<Rightarrow> random_id_generator" where
  "ig_set_range lo hi g = g\<lparr>ig_min := lo, ig_max := hi\<rparr>"

definition ig_new :: "int \<Rightarrow> random_id_generator" where
  "ig_new max_value = ig_set_range 0 max_value \<lparr>ig_ids = [], ig_min = 0, ig_max = 0\<rparr>"

definition ig_do_generate :: "('s \<Rightarrow> u16 \<times> 's) \<Rightarrow> random_id_generator \<Rightarrow> 's \<Rightarrow> int option \<times> 's" where
  "ig_do_generate gen g s =
     (let (temp, s) = gen s in if uint temp \<in> set (ig_ids g) then (None, s) else (Some (uint temp), s))"

fun ig_generate_loop :: "nat \<Rightarrow> ('s \<Rightarrow> u16 \<times> 's) \<Rightarrow> random_id_generator \<Rightarrow> 's \<Rightarrow> int \<times> 's" where
  "ig_generate_loop 0 gen g s = (0, s)"
| "ig_generate_loop (Suc n) gen g s =
     (case ig_do_generate gen g s of (Some v, s) \<Rightarrow> (v, s) | (None, s) \<Rightarrow> ig_generate_loop n gen g s)"

definition ig_generate :: "('s \<Rightarrow> u16 \<times> 's) \<Rightarrow> random_id_generator \<Rightarrow> 's \<Rightarrow> int \<times> 's" where
  "ig_generate gen g s = ig_generate_loop 100 gen g s"

definition ig_release :: "int \<Rightarrow> random_id_generator \<Rightarrow> random_id_generator" where
  "ig_release v g = g\<lparr>ig_ids := removeAll v (ig_ids g)\<rparr>"

datatype id_op = Ig_Generate | Ig_Release int | Ig_Set_Range int int

fun ig_run :: "('s \<Rightarrow> u16 \<times> 's) \<Rightarrow> id_op list \<Rightarrow> random_id_generator \<times> 's \<Rightarrow> int list \<times> random_id_generator \<times> 's" where
  "ig_run gen [] st = ([], st)"
| "ig_run gen (Ig_Generate # ops) (g, s) =
     (let (v, s) = ig_generate gen g s; (vs, st) = ig_run gen ops (g, s) in (v # vs, st))"
| "ig_run gen (Ig_Release v # ops) (g, s) = ig_run gen ops (ig_release v g, s)"
| "ig_run gen (Ig_Set_Range lo hi # ops) (g, s) = ig_run gen ops (ig_set_range lo hi g, s)"

lemma ig_no_ids: "ig_ids g = [] \<Longrightarrow> ig_ids (fst (snd (ig_run gen ops (g, s)))) = []"
proof (induction ops arbitrary: g s)
  case (Cons x ops)
  then show ?case by (cases x) (simp_all add: ig_release_def ig_set_range_def case_prod_unfold Let_def)
qed simp

text \<open>
  A random identifier is whatever the random generator gives first, 16 bits of it: after any use of the
  generator, identifiers that are in use are not avoided and the range that was set is not kept.
\<close>

theorem random_ids_unchecked:
  "fst (ig_generate gen (fst (snd (ig_run gen ops (ig_new max_value, s)))) t) = uint (fst (gen t))
   \<and> fst (ig_generate gen (fst (snd (ig_run gen ops (ig_new max_value, s)))) t) < 65536"
proof -
  have "ig_ids (fst (snd (ig_run gen ops (ig_new max_value, s)))) = []"
    by (rule ig_no_ids) (simp add: ig_new_def ig_set_range_def)
  moreover have "uint (fst (gen t)) < 65536" using uint_lt2p[of "fst (gen t)"] by simp
  moreover have "fst (ig_generate_loop (Suc 99) gen g t) = uint (fst (gen t))" if "ig_ids g = []" for g
    using that by (simp only: ig_generate_loop.simps) (simp add: ig_do_generate_def case_prod_unfold Let_def)
  ultimately show ?thesis by (simp add: ig_generate_def)
qed

record sequential_id_generator =
  sq_min :: u32
  sq_max :: u32
  sq_next :: u32

definition sq_set_range :: "u32 \<Rightarrow> u32 \<Rightarrow> sequential_id_generator \<Rightarrow> sequential_id_generator" where
  "sq_set_range lo hi g = g\<lparr>sq_min := lo, sq_max := hi, sq_next := lo\<rparr>"

definition sq_new :: sequential_id_generator where
  "sq_new = sq_set_range 0 0xFFFFFFFF \<lparr>sq_min = 0, sq_max = 0, sq_next = 0\<rparr>"

definition sq_generate :: "sequential_id_generator \<Rightarrow> u32 \<times> sequential_id_generator" where
  "sq_generate g = (sq_next g, g\<lparr>sq_next := sq_next g + 1\<rparr>)"

fun sq_generate_n :: "nat \<Rightarrow> sequential_id_generator \<Rightarrow> u32 list" where
  "sq_generate_n 0 g = []"
| "sq_generate_n (Suc n) g = (let (v, g) = sq_generate g in v # sq_generate_n n g)"

lemma sq_values: "sq_generate_n n g = map (\<lambda>i. sq_next g + of_nat i) [0..<n]"
proof (induction n arbitrary: g)
  case (Suc n)
  have "[0..<Suc n] = 0 # map Suc [0..<n]" by (simp add: upt_conv_Cons map_Suc_upt del: upt_Suc)
  then show ?case using Suc by (simp add: sq_generate_def Let_def ac_simps)
qed simp

text \<open>
  The sequential identifiers count up from the lower end of the range modulo \<open>2\<^sup>3\<^sup>2\<close>: they are distinct
  for \<open>2\<^sup>3\<^sup>2\<close> calls, and the upper end of the range does not stop them.
\<close>

theorem sequential_ids:
  assumes "n \<le> 2 ^ 32"
  shows "sq_generate_n n (sq_set_range lo hi g) = map (\<lambda>i. lo + of_nat i) [0..<n] \<and> distinct (sq_generate_n n (sq_set_range lo hi g))"
proof -
  have "inj_on (\<lambda>i. lo + (of_nat i :: u32)) {0..<n}"
  proof (rule inj_onI)
    fix i j assume "i \<in> {0..<n}" "j \<in> {0..<n}" "lo + (of_nat i :: u32) = lo + of_nat j"
    then have e: "(of_nat i :: u32) = of_nat j" and b: "i < 2 ^ 32" "j < 2 ^ 32" using assms by auto
    have "unat (of_nat k :: u32) = k" if "k < 2 ^ 32" for k using that by (simp add: unsigned_of_nat take_bit_nat_eq_self)
    then show "i = j" using arg_cong[OF e, of unat] b by metis
  qed
  then show ?thesis unfolding sq_values by (simp add: distinct_map sq_set_range_def)
qed

theorem sequential_ids_witness:
  "sq_generate_n 3 (sq_set_range 5 6 sq_new) = [5, 6, 7]"
  using sequential_ids[of 3 5 6 sq_new] by (simp add: upt_conv_Cons numeral_3_eq_3)

subsection \<open>slice\<close>

text \<open>A slice is the bytes it points at; \<open>memcmp\<close> compares bytes as unsigned numbers.\<close>

fun memcmp :: "bytes \<Rightarrow> bytes \<Rightarrow> nat \<Rightarrow> int" where
  "memcmp x y 0 = 0"
| "memcmp (a # x) (b # y) (Suc n) = (if a = b then memcmp x y n else if a < b then - 1 else 1)"
| "memcmp x y (Suc n) = 0"

definition sl_compare :: "bytes \<Rightarrow> bytes \<Rightarrow> int" where
  "sl_compare x y =
     (let min_len = (if length x < length y then length x else length y); r = memcmp x y min_len
      in if r = 0 then (if length x < length y then - 1 else if length x > length y then 1 else r) else r)"

definition sl_starts_with :: "bytes \<Rightarrow> bytes \<Rightarrow> bool" where
  "sl_starts_with s x = (length s \<ge> length x \<and> memcmp s x (length x) = 0)"

definition sl_equal :: "bytes \<Rightarrow> bytes \<Rightarrow> bool" where
  "sl_equal x y = (length x = length y \<and> memcmp x y (length x) = 0)"

text \<open>Without the assertion the pointer moves past the end and the size wraps.\<close>

definition sl_remove_prefix :: "nat \<Rightarrow> bytes \<Rightarrow> fault + bytes" where
  "sl_remove_prefix n s = (if n \<le> length s then Inr (drop n s) else Inl Out_Of_Bounds)"

definition sl_index :: "bytes \<Rightarrow> nat \<Rightarrow> fault + u8" where
  "sl_index s n = (if n < length s then Inr (s ! n) else Inl Out_Of_Bounds)"

lemma compare_Cons: "sl_compare (a # x) (b # y) = (if a = b then sl_compare x y else if a < b then - 1 else 1)"
  by (auto simp: sl_compare_def Let_def)

lemma compare_Nil: "sl_compare [] y = (if y = [] then 0 else - 1)" "sl_compare (a # x) [] = 1"
  by (cases y; simp add: sl_compare_def)+

lemma memcmp_prefix: "memcmp s x (length x) = 0 \<and> length x \<le> length s \<longleftrightarrow> take (length x) s = x"
proof (induction x arbitrary: s)
  case (Cons b x)
  then show ?case by (cases s) auto
qed simp

text \<open>
  \<open>compare\<close> is the lexicographic order of the bytes, \<open>operator==\<close> is equality, and a slice starts with
  exactly its prefixes, which \<open>remove_prefix\<close> takes off.
\<close>

theorem slice_operations:
  "(sl_compare x y < 0 \<longleftrightarrow> x < y) \<and> (sl_compare x y > 0 \<longleftrightarrow> y < x) \<and> (sl_compare x y = 0 \<longleftrightarrow> x = y) \<and> (sl_equal x y \<longleftrightarrow> x = y)
   \<and> (sl_starts_with x y \<longleftrightarrow> (\<exists>z. x = y @ z \<and> sl_remove_prefix (length y) x = Inr z))"
proof (intro conjI)
  show "sl_compare x y < 0 \<longleftrightarrow> x < y" "sl_compare x y > 0 \<longleftrightarrow> y < x" "sl_compare x y = 0 \<longleftrightarrow> x = y"
  proof (induction x arbitrary: y)
    case (Cons a x)
    {
      case 1
      then show ?case using Cons by (cases y) (auto simp: compare_Cons compare_Nil)
    next
      case 2
      then show ?case using Cons by (cases y) (auto simp: compare_Cons compare_Nil not_less_iff_gr_or_eq)
    next
      case 3
      then show ?case using Cons by (cases y) (auto simp: compare_Cons compare_Nil)
    }
  next
    case Nil
    {
      case 1
      then show ?case by (cases y) (auto simp: compare_Nil)
    next
      case 2
      then show ?case by (cases y) (auto simp: compare_Nil)
    next
      case 3
      then show ?case by (cases y) (auto simp: compare_Nil)
    }
  qed
  show "sl_equal x y \<longleftrightarrow> x = y"
  proof
    assume "sl_equal x y"
    then show "x = y" using memcmp_prefix[of x y] by (auto simp: sl_equal_def)
  next
    assume "x = y"
    then show "sl_equal x y" using memcmp_prefix[of y y] by (auto simp: sl_equal_def)
  qed
  show "sl_starts_with x y \<longleftrightarrow> (\<exists>z. x = y @ z \<and> sl_remove_prefix (length y) x = Inr z)"
  proof -
    have "sl_starts_with x y \<longleftrightarrow> take (length y) x = y" using memcmp_prefix[of x y] by (auto simp: sl_starts_with_def)
    moreover have "take (length y) x = y \<Longrightarrow> x = y @ drop (length y) x \<and> length y \<le> length x"
      using memcmp_prefix[of x y] by (metis append_take_drop_id)
    moreover have "(\<exists>z. x = y @ z \<and> sl_remove_prefix (length y) x = Inr z) \<Longrightarrow> take (length y) x = y" by auto
    moreover have "length y \<le> length x \<Longrightarrow> sl_remove_prefix (length y) x = Inr (drop (length y) x)" by (simp add: sl_remove_prefix_def)
    ultimately show ?thesis by metis
  qed
qed

subsection \<open>sets\<close>

text \<open>A \<open>std::set\<close> is the ascending list of its elements.\<close>

definition sets_pop_front :: "'a list \<Rightarrow> 'a option \<times> 'a list" where
  "sets_pop_front s = (case s of [] \<Rightarrow> (None, []) | x # xs \<Rightarrow> (Some x, xs))"

definition sets_erase_lower :: "'a :: linorder \<Rightarrow> 'a list \<Rightarrow> 'a list" where
  "sets_erase_lower k s = dropWhile (\<lambda>x. x < k) s"

definition sets_erase_upper :: "'a :: linorder \<Rightarrow> 'a list \<Rightarrow> 'a list" where
  "sets_erase_upper k s = dropWhile (\<lambda>x. x \<le> k) s"

text \<open>
  \<open>erase_lower\<close> keeps the elements from the bound on; \<open>erase_upper\<close>, whose name and whose twin for maps
  say otherwise, erases the elements up to the bound and keeps the larger ones.
\<close>

theorem sets_erase_parts:
  assumes "sorted s"
  shows "set (sets_erase_lower k s) = {x \<in> set s. k \<le> x} \<and> set (sets_erase_upper k s) = {x \<in> set s. k < x}"
  using assms
  by (induction s) (auto simp: sets_erase_lower_def sets_erase_upper_def not_less not_le intro: less_le_trans order_trans)

theorem sets_erase_parts_witness: "set (sets_erase_upper 2 [1 :: nat, 2, 3]) = {3}"
  using sets_erase_parts[of "[1 :: nat, 2, 3]" 2] by auto

end
