(* ===== verification/Tinyxml.thy ===== *)
theory Tinyxml
  imports Numerics
begin

text \<open>
  \<^verbatim>\<open>include/xul/text/tinyxml.hpp\<close>: the reading half of the wrapper of TinyXML. The library itself is not
  part of the sources: its elements are an arbitrary type and its accessors a record of functions, which
  are arguments of the definitions. An element of the wrapper is an optional pointer; assertions are read as
  in a release build. A loop over the elements may not end, so its result is an option.
\<close>

subsection \<open>Elements\<close>

record 'n tinyxml =
  tx_parse :: "string \<Rightarrow> 'n option option"
  tx_value :: "'n \<Rightarrow> string option"
  tx_text :: "'n \<Rightarrow> string option"
  tx_attribute :: "'n \<Rightarrow> string \<Rightarrow> string option"
  tx_first_child :: "'n \<Rightarrow> 'n option"
  tx_first_child_named :: "'n \<Rightarrow> string \<Rightarrow> 'n option"
  tx_next_sibling :: "'n \<Rightarrow> 'n option"
  tx_next_sibling_named :: "'n \<Rightarrow> string \<Rightarrow> 'n option"

definition te_get_value :: "'n tinyxml \<Rightarrow> 'n option \<Rightarrow> string" where
  "te_get_value lib e = (case Option.bind e (tx_value lib) of None \<Rightarrow> [] | Some s \<Rightarrow> s)"

definition te_get_text :: "'n tinyxml \<Rightarrow> 'n option \<Rightarrow> string" where
  "te_get_text lib e = (case Option.bind e (tx_text lib) of None \<Rightarrow> [] | Some s \<Rightarrow> s)"

definition te_get_attribute :: "'n tinyxml \<Rightarrow> 'n option \<Rightarrow> string \<Rightarrow> string" where
  "te_get_attribute lib e name = (case Option.bind e (\<lambda>x. tx_attribute lib x name) of None \<Rightarrow> [] | Some s \<Rightarrow> s)"

definition te_get_first_child_named :: "'n tinyxml \<Rightarrow> string \<Rightarrow> 'n option \<Rightarrow> 'n option" where
  "te_get_first_child_named lib name e = Option.bind e (\<lambda>x. tx_first_child_named lib x name)"

definition te_get_first_child :: "'n tinyxml \<Rightarrow> 'n option \<Rightarrow> 'n option" where
  "te_get_first_child lib e = Option.bind e (tx_first_child lib)"

definition te_get_next_sibling_named :: "'n tinyxml \<Rightarrow> string \<Rightarrow> 'n option \<Rightarrow> 'n option" where
  "te_get_next_sibling_named lib name e = Option.bind e (\<lambda>x. tx_next_sibling_named lib x name)"

definition te_get_next_sibling :: "'n tinyxml \<Rightarrow> 'n option \<Rightarrow> 'n option" where
  "te_get_next_sibling lib e = Option.bind e (tx_next_sibling lib)"

definition te_get_string :: "'n tinyxml \<Rightarrow> string \<Rightarrow> string \<Rightarrow> 'n option \<Rightarrow> string" where
  "te_get_string lib name default_val e =
     (case e of
        None \<Rightarrow> default_val
      | Some x \<Rightarrow>
          (case tx_first_child_named lib x name of
             None \<Rightarrow> default_val
           | Some item \<Rightarrow> (case tx_text lib item of None \<Rightarrow> default_val | Some text_val \<Rightarrow> text_val)))"

definition te_get_int :: "'n tinyxml \<Rightarrow> string \<Rightarrow> int \<Rightarrow> 'n option \<Rightarrow> int" where
  "te_get_int lib name default_val e =
     (let val = te_get_string lib name [] e
      in if val = [] then default_val else numerics_parse val default_val)"

definition te_get_bool :: "'n tinyxml \<Rightarrow> string \<Rightarrow> bool \<Rightarrow> 'n option \<Rightarrow> bool" where
  "te_get_bool lib name default_val e =
     (let s = te_get_string lib name [] e
      in if s = [] then default_val
         else let s = map to_lower s
              in if s = ''true'' then True else if s = ''false'' then False else default_val)"

text \<open>The free functions \<open>load\<close>: the loaded object, or none.\<close>

definition te_load_string :: "'n tinyxml \<Rightarrow> 'n option \<Rightarrow> string option" where
  "te_load_string lib e = (if e = None then None else Some (te_get_text lib e))"

definition te_load_int :: "'n tinyxml \<Rightarrow> int \<Rightarrow> 'n option \<Rightarrow> int option" where
  "te_load_int lib obj e = (if e = None then None else Some (numerics_parse (te_get_text lib e) obj))"

text \<open>\<open>append_objects\<close> over the siblings of one name; objects that do not load are left out.\<close>

partial_function (option) te_append_loop ::
    "'n tinyxml \<Rightarrow> string \<Rightarrow> ('n option \<Rightarrow> 'a option) \<Rightarrow> 'n option \<Rightarrow> 'a list \<Rightarrow> 'a list option" where
  "te_append_loop lib name load elem objs =
     (case elem of
        None \<Rightarrow> Some objs
      | Some x \<Rightarrow> te_append_loop lib name load (te_get_next_sibling_named lib name elem)
                    (case load elem of None \<Rightarrow> objs | Some v \<Rightarrow> objs @ [v]))"

definition te_append_objects :: "'n tinyxml \<Rightarrow> string \<Rightarrow> ('n option \<Rightarrow> 'a option) \<Rightarrow> 'n option \<Rightarrow> 'a list \<Rightarrow> 'a list option" where
  "te_append_objects lib name load e objs =
     (if e = None then Some objs else te_append_loop lib name load (te_get_first_child_named lib name e) objs)"

definition te_get_objects :: "'n tinyxml \<Rightarrow> string \<Rightarrow> ('n option \<Rightarrow> 'a option) \<Rightarrow> 'n option \<Rightarrow> 'a list \<Rightarrow> 'a list option" where
  "te_get_objects lib name load e objs = te_append_objects lib name load e []"

text \<open>
  The loop of \<open>get_elements_by_tag_name\<close>: it advances with the sibling of the element it was called on, not
  with that of the element it has just visited.
\<close>

partial_function (option) te_elements_loop :: "'n tinyxml \<Rightarrow> string \<Rightarrow> 'n \<Rightarrow> 'n option \<Rightarrow> 'n list option" where
  "te_elements_loop lib name self elem =
     (case elem of
        None \<Rightarrow> Some []
      | Some x \<Rightarrow>
          Option.bind (te_elements_loop lib name x (tx_first_child lib x)) (\<lambda>sub.
          Option.bind (te_elements_loop lib name self (tx_next_sibling lib self)) (\<lambda>others.
          Some ((if te_get_value lib elem = name then [x] else []) @ sub @ others))))"

definition te_get_elements_by_tag_name :: "'n tinyxml \<Rightarrow> string \<Rightarrow> 'n \<Rightarrow> 'n list option" where
  "te_get_elements_by_tag_name lib name self = te_elements_loop lib name self (tx_first_child lib self)"

subsection \<open>Documents\<close>

definition td_parse :: "'n tinyxml \<Rightarrow> string \<Rightarrow> bool \<times> 'n option" where
  "td_parse lib xmldata = (case tx_parse lib xmldata of None \<Rightarrow> (False, None) | Some root \<Rightarrow> (True, root))"

subsection \<open>A library to run the definitions on\<close>

text \<open>
  Trees whose elements are reached with the siblings behind them. A document is looked up in a table of
  texts. The model makes no use of it: it shows that the hypotheses of the theorems can hold.
\<close>

datatype xml_element = Xml (xml_name: string) (xml_text: "string option") (xml_children: "xml_element list")

type_synonym xml_position = "xml_element \<times> xml_element list"

definition position_of :: "xml_element list \<Rightarrow> xml_position option" where
  "position_of ts = (case ts of [] \<Rightarrow> None | t # r \<Rightarrow> Some (t, r))"

definition named_from :: "string \<Rightarrow> xml_element list \<Rightarrow> xml_position option" where
  "named_from name ts = position_of (dropWhile (\<lambda>t. xml_name t \<noteq> name) ts)"

definition xml_trees :: "(string \<Rightarrow> xml_element option) \<Rightarrow> xml_position tinyxml" where
  "xml_trees documents =
     \<lparr>tx_parse = (\<lambda>s. map_option (\<lambda>t. Some (t, [])) (documents s)), tx_value = (\<lambda>p. Some (xml_name (fst p))),
      tx_text = (\<lambda>p. xml_text (fst p)), tx_attribute = (\<lambda>_ _. None),
      tx_first_child = (\<lambda>p. position_of (xml_children (fst p))),
      tx_first_child_named = (\<lambda>p name. named_from name (xml_children (fst p))),
      tx_next_sibling = (\<lambda>p. position_of (snd p)), tx_next_sibling_named = (\<lambda>p name. named_from name (snd p))\<rparr>"

text \<open>The elements of a document are a finite tree: every step of the library goes down in some rank.\<close>

definition finite_document :: "'n tinyxml \<Rightarrow> ('n \<Rightarrow> nat) \<Rightarrow> bool" where
  "finite_document lib rank \<longleftrightarrow>
     (\<forall>x y. tx_next_sibling lib x = Some y \<longrightarrow> rank y < rank x) \<and>
     (\<forall>x y name. tx_first_child_named lib x name = Some y \<longrightarrow> rank y < rank x)"

fun position_rank :: "xml_position \<Rightarrow> nat" where
  "position_rank (t, ts) = size t + size_list size ts"

lemma size_dropWhile: "size_list f (dropWhile P xs) \<le> size_list f xs"
  by (induction xs) auto

lemma named_from_rank: "named_from name ts = Some p \<Longrightarrow> position_rank p < size_list size ts"
  using size_dropWhile[of size "\<lambda>t. xml_name t \<noteq> name" ts]
  by (cases "dropWhile (\<lambda>t. xml_name t \<noteq> name) ts") (auto simp: named_from_def position_of_def)

lemma xml_trees_finite: "finite_document (xml_trees documents) position_rank"
  unfolding finite_document_def
proof (intro conjI allI impI)
  fix x y assume "tx_next_sibling (xml_trees documents) x = Some y"
  then show "position_rank y < position_rank x"
    by (cases x; cases "snd x") (auto simp: xml_trees_def position_of_def)
next
  fix x y :: xml_position and name assume "tx_first_child_named (xml_trees documents) x name = Some y"
  then show "position_rank y < position_rank x"
    using named_from_rank[of name "xml_children (fst x)" y] by (cases x; cases "fst x") (auto simp: xml_trees_def)
qed

subsection \<open>The objects of one name\<close>

text \<open>The named children of an element, as TinyXML enumerates them.\<close>

inductive named_siblings :: "'n tinyxml \<Rightarrow> string \<Rightarrow> 'n option \<Rightarrow> 'n list \<Rightarrow> bool" for lib name where
  none: "named_siblings lib name None []"
| more: "named_siblings lib name (tx_next_sibling_named lib x name) xs \<Longrightarrow> named_siblings lib name (Some x) (x # xs)"

lemma append_loop_siblings:
  assumes "named_siblings lib name e xs"
  shows "te_append_loop lib name load e objs = Some (objs @ List.map_filter (\<lambda>x. load (Some x)) xs)"
  using assms
proof (induction arbitrary: objs)
  case (more x xs)
  then show ?case
    by (subst te_append_loop.simps)
       (auto simp: te_get_next_sibling_named_def map_filter_simps split: option.splits)
qed (simp add: te_append_loop.simps map_filter_simps)

text \<open>The objects of a name are the children of that name that load, in their order.\<close>

theorem objects_of_children:
  assumes "named_siblings lib name (tx_first_child_named lib e name) xs"
  shows "te_get_objects lib name load (Some e) objs = Some (List.map_filter (\<lambda>x. load (Some x)) xs)"
  using append_loop_siblings[OF assms, of load "[]"]
  by (simp add: te_get_objects_def te_append_objects_def te_get_first_child_named_def)

definition sample_list_tree :: xml_element where
  "sample_list_tree = Xml ''l'' None [Xml ''n'' (Some ''4'') [], Xml ''x'' None [], Xml ''n'' (Some ''7'') []]"

theorem objects_of_children_witness:
  "te_get_objects (xml_trees (\<lambda>_. None)) ''n'' (te_load_int (xml_trees (\<lambda>_. None)) 0) (Some (sample_list_tree, [])) [1] = Some [4, 7]"
proof -
  let ?lib = "xml_trees (\<lambda>_. None)"
  let ?a = "(Xml ''n'' (Some ''4'') [], [Xml ''x'' None [], Xml ''n'' (Some ''7'') []])" and ?b = "(Xml ''n'' (Some ''7'') [], [])"
  have "named_siblings ?lib ''n'' (tx_first_child_named ?lib (sample_list_tree, []) ''n'') [?a, ?b]"
    by (auto intro!: named_siblings.intros simp: xml_trees_def sample_list_tree_def named_from_def position_of_def)
  from objects_of_children[OF this, of "te_load_int ?lib 0" "[1]"] show ?thesis
    by (simp add: map_filter_simps te_load_int_def te_get_text_def xml_trees_def numerics_parse_def numerics_try_parse_def
        scan_sign_def is_space_def is_digit_def code_of_def digits_value_def digit_value_def)
qed

subsection \<open>The elements of a tag\<close>

text \<open>The chain of first children.\<close>

fun child_chain :: "'n tinyxml \<Rightarrow> 'n \<Rightarrow> 'n list \<Rightarrow> bool" where
  "child_chain lib e [] \<longleftrightarrow> tx_first_child lib e = None"
| "child_chain lib e (c # cs) \<longleftrightarrow> tx_first_child lib e = Some c \<and> child_chain lib c cs"

lemma elements_loop_none [simp]: "te_elements_loop lib name self None = Some []"
  by (simp add: te_elements_loop.simps)

lemma elements_loop_some:
  "te_elements_loop lib name self (Some x) =
     Option.bind (te_elements_loop lib name x (tx_first_child lib x)) (\<lambda>sub.
     Option.bind (te_elements_loop lib name self (tx_next_sibling lib self)) (\<lambda>others.
     Some ((if te_get_value lib (Some x) = name then [x] else []) @ sub @ others)))"
  by (subst te_elements_loop.simps) simp

text \<open>An element that has a sibling keeps its loop at that sibling for ever.\<close>

lemma elements_loop_stuck:
  assumes "te_elements_loop lib name self elem = Some r"
  shows "elem = None \<or> tx_next_sibling lib self = None"
proof (rule te_elements_loop.raw_induct[OF _ assms])
  fix loop lib name self elem and r :: "'a list"
  assume IH: "\<And>lib name self elem r. loop lib name self elem = Some r \<Longrightarrow> elem = None \<or> tx_next_sibling lib self = None"
    and eq: "(case elem of None \<Rightarrow> Some [] | Some x \<Rightarrow>
          Option.bind (loop lib name x (tx_first_child lib x)) (\<lambda>sub.
          Option.bind (loop lib name self (tx_next_sibling lib self)) (\<lambda>others.
          Some ((if te_get_value lib elem = name then [x] else []) @ sub @ others)))) = Some r"
  then show "elem = None \<or> tx_next_sibling lib self = None"
    using IH[of lib name self "tx_next_sibling lib self"]
    by (fastforce split: option.splits simp: Option.bind_eq_Some_conv)
qed

lemma elements_loop_chain:
  assumes "child_chain lib e cs"
  shows "te_get_elements_by_tag_name lib name e =
    (if \<exists>x \<in> set (e # cs). tx_first_child lib x \<noteq> None \<and> tx_next_sibling lib x \<noteq> None then None
     else Some (filter (\<lambda>x. te_get_value lib (Some x) = name) cs))"
  using assms
proof (induction cs arbitrary: e)
  case (Cons c cs)
  have eq: "te_get_elements_by_tag_name lib name e = te_elements_loop lib name e (Some c)"
    using Cons.prems by (simp add: te_get_elements_by_tag_name_def)
  show ?case
  proof (cases "tx_next_sibling lib e")
    case None
    then have "te_get_elements_by_tag_name lib name e =
        Option.bind (te_get_elements_by_tag_name lib name c) (\<lambda>sub. Some ((if te_get_value lib (Some c) = name then [c] else []) @ sub))"
      unfolding eq elements_loop_some by (simp add: te_get_elements_by_tag_name_def)
    then show ?thesis using Cons.IH[of c] Cons.prems None by auto
  next
    case (Some s)
    then have "te_elements_loop lib name e (Some c) = None" using elements_loop_stuck by fastforce
    then show ?thesis using Some eq Cons.prems by auto
  qed
qed (simp add: te_get_elements_by_tag_name_def)

text \<open>
  The elements of a tag are the matching ones among the first children only, and the search ends only when no
  element on that way that has children has a sibling.
\<close>

theorem elements_by_tag_chain:
  assumes "child_chain lib e cs"
  shows "te_get_elements_by_tag_name lib name e =
    (if \<exists>x \<in> set (e # cs). tx_first_child lib x \<noteq> None \<and> tx_next_sibling lib x \<noteq> None then None
     else Some (filter (\<lambda>x. te_get_value lib (Some x) = name) cs))"
  using elements_loop_chain[OF assms] .

text \<open>A tag inside the second child is not found; when the first child has children of its own the search does not end.\<close>

definition sample_envelope :: "xml_element list \<Rightarrow> xml_element" where
  "sample_envelope header = Xml ''s:Envelope'' None [Xml ''s:Header'' None header, Xml ''s:Body'' None [Xml ''u:R'' None []]]"

theorem elements_by_tag_chain_witness:
  "te_get_elements_by_tag_name (xml_trees (\<lambda>_. None)) ''u:R'' (sample_envelope [], []) = Some [] \<and>
   te_get_elements_by_tag_name (xml_trees (\<lambda>_. None)) ''u:R'' (sample_envelope [Xml ''t'' None []], []) = None"
proof (intro conjI)
  let ?lib = "xml_trees (\<lambda>_. None)" and ?b = "[Xml ''s:Body'' None [Xml ''u:R'' None []]]"
  have "child_chain ?lib (sample_envelope [], []) [(Xml ''s:Header'' None [], ?b)]"
    by (simp add: xml_trees_def sample_envelope_def position_of_def)
  from elements_by_tag_chain[OF this, of "''u:R''"]
  show "te_get_elements_by_tag_name ?lib ''u:R'' (sample_envelope [], []) = Some []"
    by (simp add: xml_trees_def sample_envelope_def position_of_def te_get_value_def)
  have "child_chain ?lib (sample_envelope [Xml ''t'' None []], []) [(Xml ''s:Header'' None [Xml ''t'' None []], ?b), (Xml ''t'' None [], [])]"
    by (simp add: xml_trees_def sample_envelope_def position_of_def)
  from elements_by_tag_chain[OF this, of "''u:R''"]
  show "te_get_elements_by_tag_name ?lib ''u:R'' (sample_envelope [Xml ''t'' None []], []) = None"
    by (simp add: xml_trees_def sample_envelope_def position_of_def)
qed

end
