(* ===== verification/Upnp_Service.thy ===== *)
theory Upnp_Service
  imports Tinyxml Http_Client Name_Resolver Timers
begin

text \<open>
  \<^verbatim>\<open>include/xul/net/detail/upnp_service_impl.hpp\<close>: finding the gateway by multicast, reading its description
  and asking it for a port mapping, on the HTTP client of Http_Client, a periodic timer of Timers and a
  datagram socket whose calls are recorded. \<open>inet_addr\<close>, boost and TinyXML are parameters; the local
  address of the client's connection, the clock and what arrives are the environment's. Assertions are read
  as in a release build. A result is \<open>None\<close> when a handler does not return.
\<close>

subsection \<open>State\<close>

record port_mapping_info =
  pm_internal_port :: int
  pm_external_port :: int
  pm_lease_duration :: int
  pm_enabled :: int
  pm_protocol :: string
  pm_description :: string
  pm_internal_client :: string

definition pm_new :: port_mapping_info where
  "pm_new = \<lparr>pm_internal_port = 0, pm_external_port = 0, pm_lease_duration = 0, pm_enabled = 1, pm_protocol = [],
     pm_description = [], pm_internal_client = []\<rparr>"

text \<open>The callbacks bound to the requests of the HTTP client.\<close>

datatype upnp_callback = On_Igd | On_Get_Mapped_Port int | On_Add_Mapping

datatype udp_call =
    Udp_Open int
  | Udp_Set_Listener bool
  | Udp_Receive int
  | Udp_Send string string int
  | Udp_Close

datatype upnp_event = Port_Mapped int int bool | Mapping_Failed int int int

record upnp_service =
  up_local_ip :: string
  up_igd_url :: string
  up_igd_uri :: simple_uri
  up_base_url :: string
  up_control_url :: string
  up_control_uri :: simple_uri
  up_udp :: "udp_call list"
  up_client :: http_client
  up_callback :: upnp_callback
  up_timer :: asio_timer
  up_mapping :: port_mapping_info
  up_service_type :: string
  up_description :: string
  up_search_interval :: int
  up_last_search_time :: int
  up_listener :: bool
  up_events :: "upnp_event list"
  up_mapping_port_times :: int
  up_finished :: bool

record upnp_env =
  ue_http :: http_env
  ue_host :: bool
  ue_inet_addr :: "string \<Rightarrow> u32"
  ue_istarts_with :: "string \<Rightarrow> string \<Rightarrow> bool"

definition up_udp_call :: "udp_call \<Rightarrow> upnp_service \<Rightarrow> upnp_service" where
  "up_udp_call a s = s\<lparr>up_udp := up_udp s @ [a]\<rparr>"

definition up_notify :: "upnp_event \<Rightarrow> upnp_service \<Rightarrow> upnp_service" where
  "up_notify e s = (if up_listener s then s\<lparr>up_events := up_events s @ [e]\<rparr> else s)"

definition up_stop_timer :: "upnp_service \<Rightarrow> upnp_service" where
  "up_stop_timer s = s\<lparr>up_timer := ti_stop (up_timer s)\<rparr>"

definition up_new :: upnp_service where
  "up_new = \<lparr>up_local_ip = [], up_igd_url = [], up_igd_uri = uri_init, up_base_url = [], up_control_url = [],
     up_control_uri = uri_init, up_udp = [Udp_Open 0, Udp_Set_Listener True], up_client = cl_new False False,
     up_callback = On_Igd, up_timer = ti_new True, up_mapping = pm_new, up_service_type = [],
     up_description = ''upnp'', up_search_interval = 5000, up_last_search_time = 0, up_listener = False,
     up_events = [], up_mapping_port_times = 0, up_finished = True\<rparr>"

definition up_stop :: "upnp_service \<Rightarrow> upnp_service" where
  "up_stop s = up_udp_call Udp_Close (up_udp_call (Udp_Set_Listener False) s)"

definition up_set_description :: "string \<Rightarrow> upnp_service \<Rightarrow> upnp_service" where
  "up_set_description desc s = s\<lparr>up_description := desc\<rparr>"

definition up_set_listener :: "bool \<Rightarrow> upnp_service \<Rightarrow> upnp_service" where
  "up_set_listener l s = s\<lparr>up_listener := l\<rparr>"

subsection \<open>Texts\<close>

text \<open>
  \<open>strings::vformat\<close> of \<^verbatim>\<open>include/xul/std/strings.hpp\<close> on the formatted text: the conversion writes at most
  8190 characters and a null into an array of 8192, and the result has as many characters as the whole text.
\<close>

definition vformat :: "string \<Rightarrow> fault + string" where
  "vformat full =
     (if length full < 8191 then Inr full
      else if length full \<le> 8192 then Inr (take 8190 full @ replicate (length full - 8190) (CHR 0x00))
      else Inl Out_Of_Bounds)"

definition format_unsigned :: "int \<Rightarrow> string" where
  "format_unsigned v = numerics_format (v mod 2 ^ 32)"

definition search_request :: string where
  "search_request = ''M-SEARCH * HTTP/1.1'' @ crlf @ ''ST: urn:schemas-upnp-org:device:InternetGatewayDevice:1'' @ crlf
     @ ''MX: 3'' @ crlf @ ''Man: \"ssdp:discover\"'' @ crlf @ ''HOST: 239.255.255.250:1900'' @ crlf @ crlf"

definition device_types :: "string list" where
  "device_types = [''urn:schemas-upnp-org:device:InternetGatewayDevice:1'', ''urn:schemas-upnp-org:device:WANDevice:1'',
     ''urn:schemas-upnp-org:device:WANConnectionDevice:1'']"

definition service_wanip :: string where
  "service_wanip = ''urn:schemas-upnp-org:service:WANIPConnection:1''"

definition service_wanppp :: string where
  "service_wanppp = ''urn:schemas-upnp-org:service:WANPPPConnection:1''"

definition soap_action :: "string \<Rightarrow> string \<Rightarrow> string \<Rightarrow> string" where
  "soap_action action service_type params =
     ''<?xml version=\"1.0\" encoding=\"utf-8\"?>'' @ crlf
     @ ''<s:Envelope xmlns:s=\"http://schemas.xmlsoap.org/soap/envelope/\" ''
     @ ''s:encodingStyle=\"http://schemas.xmlsoap.org/soap/encoding/\">'' @ crlf
     @ ''<s:Body>'' @ crlf @ ''<u:'' @ action @ '' xmlns:u=\"'' @ service_type @ ''\">'' @ crlf @ params
     @ ''</u:'' @ action @ ''>'' @ crlf @ ''</s:Body>'' @ crlf @ ''</s:Envelope>'' @ crlf"

definition get_gen_params :: "int \<Rightarrow> string" where
  "get_gen_params index = ''<NewPortMappingIndex>'' @ numerics_format index @ ''</NewPortMappingIndex>''"

definition add_port_mapping_params :: "port_mapping_info \<Rightarrow> string" where
  "add_port_mapping_params p =
     ''<NewRemoteHost></NewRemoteHost>'' @ crlf
     @ ''<NewExternalPort>'' @ format_unsigned (pm_external_port p) @ ''</NewExternalPort>'' @ crlf
     @ ''<NewProtocol>'' @ c_str (pm_protocol p) @ ''</NewProtocol>'' @ crlf
     @ ''<NewInternalPort>'' @ format_unsigned (pm_internal_port p) @ ''</NewInternalPort>'' @ crlf
     @ ''<NewInternalClient>'' @ c_str (pm_internal_client p) @ ''</NewInternalClient>'' @ crlf
     @ ''<NewEnabled>1</NewEnabled>'' @ crlf
     @ ''<NewPortMappingDescription>'' @ c_str (pm_description p) @ ''</NewPortMappingDescription>'' @ crlf
     @ ''<NewLeaseDuration>'' @ numerics_format (pm_lease_duration p) @ ''</NewLeaseDuration>'' @ crlf"

subsection \<open>The search for the gateway\<close>

definition search_root_device :: "int \<Rightarrow> upnp_service \<Rightarrow> upnp_service" where
  "search_root_device now s =
     (if up_igd_url s \<noteq> [] then up_stop_timer s
      else if now - up_last_search_time s < up_search_interval s then s
      else let s = s\<lparr>up_search_interval := up_search_interval s + 10000\<rparr>;
               s = (if up_search_interval s > 300 * 10000 then up_stop_timer s else s);
               s = up_udp_call (Udp_Send search_request ''239.255.255.250'' 1900) s
           in s\<lparr>up_last_search_time := now\<rparr>)"

definition up_on_tick :: "int \<Rightarrow> upnp_service \<Rightarrow> upnp_service" where
  "up_on_tick now s = search_root_device now s"

text \<open>A wait of the timer has expired: the timer decides whether its callback runs.\<close>

definition up_timer_fires :: "int \<Rightarrow> upnp_service \<Rightarrow> upnp_service" where
  "up_timer_fires now s =
     (let (notified, t) = ti_on_timer (up_timer s); s = s\<lparr>up_timer := t\<rparr>
      in if notified then up_on_tick now s else s)"

definition map_port :: "int \<Rightarrow> int \<Rightarrow> int \<Rightarrow> string \<Rightarrow> int \<Rightarrow> upnp_service \<Rightarrow> upnp_service" where
  "map_port now internal_port external_port protocol lease_duration s =
     (let s = s\<lparr>up_mapping := (up_mapping s)\<lparr>pm_internal_port := internal_port, pm_external_port := external_port,
                 pm_protocol := protocol, pm_lease_duration := lease_duration, pm_enabled := 1,
                 pm_description := up_description s\<rparr>,
               up_finished := False, up_timer := ti_start now 1000 (up_timer s)\<rparr>;
          s = up_udp_call (Udp_Receive 4096) s
      in search_root_device now s)"

definition is_lan_ip :: "u32 \<Rightarrow> bool" where
  "is_lan_ip ip =
     ((ip \<ge> 0x0A000000 \<and> ip \<le> 0x0AFFFFFF) \<or> (ip \<ge> 0xAC100000 \<and> ip \<le> 0xAC1FFFFF) \<or> (ip \<ge> 0xC0A80000 \<and> ip \<le> 0xC0A8FFFF))"

definition is_lan_host :: "upnp_env \<Rightarrow> string \<Rightarrow> bool" where
  "is_lan_host env h = is_lan_ip (ia_get_address (ue_host env) (ia_set_address_text (ue_inet_addr env) h))"

text \<open>The callback of a download whose URL does not parse is posted; the others wait in the client's handler.\<close>

definition up_async_download :: "string \<Rightarrow> upnp_service \<Rightarrow> upnp_service" where
  "up_async_download location s =
     (let c = download_data location (8 * 1024) None (up_client s)
      in s\<lparr>up_client := c, up_callback := (if cl_posted c = cl_posted (up_client s) then On_Igd else up_callback s)\<rparr>)"

definition up_on_socket_receive :: "upnp_env \<Rightarrow> string \<Rightarrow> upnp_service \<Rightarrow> fault + upnp_service" where
  "up_on_socket_receive env data s =
     (if up_finished s then Inr s
      else let s = up_udp_call (Udp_Receive 4096) s in
        sbind (re_feed (he_trim (ue_http env)) (he_split (ue_http env)) data (re_new (64 * 1024))) (\<lambda>(_, x).
          let location = c_str (hm_get_header ''LOCATION'' [] (rs_message (re_response x)));
              s = s\<lparr>up_igd_url := location, up_igd_uri := snd (uri_parse (Some location) (up_igd_uri s))\<rparr>
          in if \<not> is_lan_host env (uri_host (up_igd_uri s)) then Inr s
             else Inr (up_async_download location s)))"

definition up_on_socket_receive_failed :: "upnp_service \<Rightarrow> upnp_service" where
  "up_on_socket_receive_failed s = (if up_igd_url s = [] then s else up_udp_call (Udp_Receive 4096) s)"

subsection \<open>The description of the gateway\<close>

text \<open>\<open>parse_device\<close> and its loop: the element whose type is expected at this depth, or a null element.\<close>

partial_function (option) parse_device_loop :: "'n tinyxml \<Rightarrow> nat \<Rightarrow> 'n option \<Rightarrow> 'n option option" where
  "parse_device_loop lib depth device_elem =
     (case device_elem of
        None \<Rightarrow> Some None
      | Some d \<Rightarrow>
          if device_types ! depth = te_get_string lib ''deviceType'' [] device_elem then
            (if depth \<ge> 2 then Some device_elem
             else parse_device_loop lib (depth + 1)
                    (te_get_first_child_named lib ''device'' (te_get_first_child_named lib ''deviceList'' device_elem)))
          else parse_device_loop lib depth (te_get_next_sibling lib device_elem))"

definition parse_device :: "'n tinyxml \<Rightarrow> 'n option \<Rightarrow> nat \<Rightarrow> 'n option option" where
  "parse_device lib parent depth = parse_device_loop lib depth (te_get_first_child_named lib ''device'' parent)"

text \<open>The address for the requests, from the control address of the service and the base address of the device.\<close>

definition make_control_url :: "upnp_env \<Rightarrow> string \<Rightarrow> string \<Rightarrow> string \<Rightarrow> (fault + string) option" where
  "make_control_url env igd_url base_url control_url =
     (if ue_istarts_with env control_url ''http://'' then Some (Inr control_url)
      else let joined = base_url @ control_url; u = snd (uri_parse (Some (c_str igd_url)) uri_init)
           in if uri_host u = [] then None
              else if joined ! 0 = CHR ''/'' then
                Some (sbind (vformat (''http://'' @ uri_host u @ '':'' @ numerics_format (uri_port u))) (\<lambda>p. Inr (p @ joined)))
              else Some (sbind (vformat (''http://'' @ uri_host u @ '':'' @ numerics_format (uri_port u)
                                         @ get_directory Posix_Paths (uri_path u) @ ''/'')) (\<lambda>p. Inr (p @ joined))))"

definition upnp_content_type :: string where
  "upnp_content_type = ''text/xml ; charset=\"utf-8\"''"

definition upnp_request :: "string \<Rightarrow> string \<Rightarrow> upnp_callback \<Rightarrow> upnp_service \<Rightarrow> fault + upnp_service" where
  "upnp_request params action callback s =
     sbind (vformat (soap_action action (c_str (up_service_type s)) (c_str params))) (\<lambda>body.
     sbind (vformat (''\"'' @ c_str (up_service_type s) @ ''#'' @ action @ ''\"'')) (\<lambda>soapaction.
       let headers = sa_set string_iequal_to ''SOAPACTION'' (c_str soapaction)
                       (sa_set string_iequal_to ''Content-Type'' upnp_content_type [])
       in Inr (s\<lparr>up_client := post_data (c_str (uri_original_string (up_control_uri s))) 4096 body upnp_content_type
                               (Some headers) (up_client s),
                 up_callback := callback\<rparr>)))"

definition get_mapped_port :: "int \<Rightarrow> upnp_service \<Rightarrow> fault + upnp_service" where
  "get_mapped_port index s =
     sbind (vformat (get_gen_params index)) (\<lambda>params.
       upnp_request params ''GetGenericPortMappingEntry'' (On_Get_Mapped_Port index) s)"

definition add_port_mapping :: "port_mapping_info \<Rightarrow> upnp_service \<Rightarrow> fault + upnp_service" where
  "add_port_mapping p s =
     sbind (vformat (add_port_mapping_params p)) (\<lambda>params. upnp_request params ''AddPortMapping'' On_Add_Mapping s)"

text \<open>\<open>parse_device_description\<close> without its result, which the caller ignores; first its part from the service on.\<close>

definition use_service :: "upnp_env \<Rightarrow> string \<Rightarrow> string \<Rightarrow> upnp_service \<Rightarrow> fault + upnp_service" where
  "use_service env service_type control_url s =
     (if service_wanip \<noteq> service_type \<and> service_wanppp \<noteq> service_type then Inr s
      else let s = s\<lparr>up_service_type := service_type\<rparr>
           in if control_url = [] then Inr s
              else (case make_control_url env (up_igd_url s) (up_base_url s) control_url of
                  None \<Rightarrow> Inr (s\<lparr>up_control_url := up_base_url s @ control_url\<rparr>)
                | Some r \<Rightarrow> sbind r (\<lambda>url. get_mapped_port 0 (s\<lparr>up_control_url := url,
                    up_control_uri := snd (uri_parse (Some (c_str url)) (up_control_uri s))\<rparr>))))"

definition parse_device_description :: "upnp_env \<Rightarrow> 'n tinyxml \<Rightarrow> string \<Rightarrow> upnp_service \<Rightarrow> (fault + upnp_service) option" where
  "parse_device_description env lib xmlstr s =
     (case td_parse lib (c_str xmlstr) of
        (False, _) \<Rightarrow> Some (Inr s)
      | (True, None) \<Rightarrow> Some (Inr s)
      | (True, Some root) \<Rightarrow>
          let s = s\<lparr>up_base_url := te_get_string lib ''URLBase'' [] (Some root)\<rparr> in
          Option.bind (parse_device lib (Some root) 0) (\<lambda>dev.
            let service_list = te_get_first_child_named lib ''serviceList'' dev;
                service = te_get_first_child_named lib ''service'' service_list
            in if dev = None \<or> service_list = None \<or> service = None then Some (Inr s)
               else Some (use_service env (te_get_string lib ''serviceType'' [] service)
                            (te_get_string lib ''controlURL'' [] service) s)))"

text \<open>\<open>parse_port_mapping_info\<close>: no information when the answer is not the expected one.\<close>

definition parse_port_mapping_info :: "'n tinyxml \<Rightarrow> string \<Rightarrow> port_mapping_info option option" where
  "parse_port_mapping_info lib data =
     (case td_parse lib (c_str data) of
        (False, _) \<Rightarrow> Some None
      | (True, None) \<Rightarrow> Some None
      | (True, Some root) \<Rightarrow>
          Option.bind (te_get_elements_by_tag_name lib ''u:GetGenericPortMappingEntryResponse'' root) (\<lambda>elems.
            case elems of
              [] \<Rightarrow> Some None
            | e # _ \<Rightarrow> (let elem = Some e in
                Some (Some \<lparr>pm_internal_port = te_get_int lib ''NewInternalPort'' 0 elem,
                  pm_external_port = te_get_int lib ''NewExternalPort'' 0 elem,
                  pm_lease_duration = te_get_int lib ''NewLeaseDuration'' 0 elem,
                  pm_enabled = te_get_int lib ''NewEnabled'' 0 elem,
                  pm_protocol = te_get_string lib ''NewProtocol'' [] elem,
                  pm_description = te_get_string lib ''NewPortMappingDescription'' [] elem,
                  pm_internal_client = te_get_string lib ''NewInternalClient'' [] elem\<rparr>))))"

subsection \<open>The callbacks\<close>

definition on_igd :: "upnp_env \<Rightarrow> 'n tinyxml \<Rightarrow> string \<Rightarrow> string \<Rightarrow> upnp_service \<Rightarrow> (fault + upnp_service) option" where
  "on_igd env lib local_ip data s =
     parse_device_description env lib data
       (s\<lparr>up_local_ip := local_ip, up_mapping := (up_mapping s)\<lparr>pm_internal_client := local_ip\<rparr>\<rparr>)"

definition succeeded :: "http_response option \<Rightarrow> bool" where
  "succeeded resp = (case resp of None \<Rightarrow> False | Some r \<Rightarrow> 200 \<le> rs_status_code r \<and> rs_status_code r < 300)"

definition matches_mapping :: "upnp_service \<Rightarrow> port_mapping_info \<Rightarrow> bool" where
  "matches_mapping s info =
     (pm_internal_port info = pm_internal_port (up_mapping s) \<and> iequals (pm_protocol info) (pm_protocol (up_mapping s))
      \<and> pm_internal_client info = up_local_ip s \<and> pm_enabled info \<noteq> 0)"

definition up_finish :: "upnp_event \<Rightarrow> upnp_service \<Rightarrow> upnp_service" where
  "up_finish e s = up_notify e ((up_stop_timer s)\<lparr>up_finished := True\<rparr>)"

definition on_get_mapped_port ::
    "'n tinyxml \<Rightarrow> int \<Rightarrow> http_response option \<Rightarrow> string \<Rightarrow> upnp_service \<Rightarrow> (fault + upnp_service) option" where
  "on_get_mapped_port lib mapping_index resp data s =
     (let internal = pm_internal_port (up_mapping s); external = pm_external_port (up_mapping s) in
      if succeeded resp then
        Option.bind (parse_port_mapping_info lib data) (\<lambda>parsed.
          case parsed of
            Some info \<Rightarrow>
              if matches_mapping s info then Some (Inr (up_finish (Port_Mapped internal (pm_external_port info) True) s))
              else if mapping_index > 100 then Some (Inr (up_finish (Mapping_Failed internal external (- 1)) s))
              else Some (get_mapped_port (mapping_index + 1) s)
          | None \<Rightarrow> Some (Inr (up_finish (Mapping_Failed internal external (- 2)) s)))
      else Some (add_port_mapping (up_mapping s) s))"

definition on_add_mapping :: "http_response option \<Rightarrow> upnp_service \<Rightarrow> fault + upnp_service" where
  "on_add_mapping resp s =
     (if succeeded resp then
        Inr (up_notify (Port_Mapped (pm_internal_port (up_mapping s)) (pm_external_port (up_mapping s)) False) s)
      else let before = up_mapping_port_times s; s = s\<lparr>up_mapping_port_times := before + 1\<rparr> in
        if before < 5 then
          (let s = s\<lparr>up_mapping := (up_mapping s)\<lparr>pm_external_port := pm_external_port (up_mapping s) + up_mapping_port_times s\<rparr>\<rparr>
           in add_port_mapping (up_mapping s) s)
        else Inr (up_notify (Mapping_Failed (pm_internal_port (up_mapping s)) (pm_external_port (up_mapping s)) (- 3)) s))"

text \<open>The callback bound to a request gets the client's result.\<close>

definition up_call_back ::
    "upnp_env \<Rightarrow> 'n tinyxml \<Rightarrow> string \<Rightarrow> upnp_callback \<Rightarrow> client_result \<Rightarrow> upnp_service \<Rightarrow> (fault + upnp_service) option" where
  "up_call_back env lib local_ip callback result s =
     (case result of
        Head_Result _ _ _ _ \<Rightarrow> Some (Inr s)
      | Data_Result _ _ resp data \<Rightarrow>
          (case callback of
             On_Igd \<Rightarrow> on_igd env lib local_ip data s
           | On_Get_Mapped_Port index \<Rightarrow> on_get_mapped_port lib index resp data s
           | On_Add_Mapping \<Rightarrow> Some (on_add_mapping resp s)))"

text \<open>A notification of the client's connection, and the posted callback of a download that was not started.\<close>

definition up_client_event ::
    "upnp_env \<Rightarrow> 'n tinyxml \<Rightarrow> string \<Rightarrow> http_event \<Rightarrow> upnp_service \<Rightarrow> (fault + upnp_service) option" where
  "up_client_event env lib local_ip e s =
     (let c = snd (cl_event (ue_http env) e (up_client s)); s' = s\<lparr>up_client := c\<rparr>
      in if cl_results c = cl_results (up_client s) then Some (Inr s')
         else up_call_back env lib local_ip (up_callback s) (last (cl_results c)) s')"

definition up_run_posted :: "upnp_env \<Rightarrow> 'n tinyxml \<Rightarrow> string \<Rightarrow> upnp_service \<Rightarrow> (fault + upnp_service) option" where
  "up_run_posted env lib local_ip s =
     (case cl_posted (up_client s) of
        [] \<Rightarrow> Some (Inr s)
      | r # _ \<Rightarrow> up_call_back env lib local_ip On_Igd r (s\<lparr>up_client := cl_run_posted (up_client s)\<rparr>))"

subsection \<open>The texts fit\<close>

lemma dec_digits_length: "n < 10 ^ k \<Longrightarrow> 0 < k \<Longrightarrow> length (dec_digits n) \<le> k"
proof (induction k arbitrary: n)
  case (Suc k)
  show ?case
  proof (cases "n < 10")
    case False
    then have "0 < k" using Suc.prems by (cases k) auto
    moreover have "n div 10 < 10 ^ k" using Suc.prems(1) by (simp add: less_mult_imp_div_less mult.commute)
    ultimately show ?thesis using Suc.IH[of "n div 10"] False by (subst dec_digits.simps) simp
  qed (simp add: dec_digits.simps[of n])
qed simp

lemma format_length: "\<bar>v\<bar> < 10 ^ 10 \<Longrightarrow> length (numerics_format v) \<le> 11"
  using dec_digits_length[of "nat \<bar>v\<bar>" 10] by (auto simp: numerics_format_def nat_less_iff abs_if split: if_splits)

lemma format_unsigned_length: "length (format_unsigned v) \<le> 11"
  unfolding format_unsigned_def by (rule format_length) (simp add: abs_of_nonneg less_trans[OF pos_mod_bound])

lemma format_no_null: "list_all (\<lambda>c. code_of c \<noteq> 0) (numerics_format v)"
proof -
  have d: "list_all (\<lambda>c. code_of c \<noteq> 0) (dec_digits n)" for n
    by (induction n rule: dec_digits.induct) (subst dec_digits.simps, auto simp: digit_char_def code_of_def)
  show ?thesis using d by (auto simp: numerics_format_def code_of_def)
qed

lemma c_str_no_null: "list_all (\<lambda>c. code_of c \<noteq> 0) (c_str t)"
  by (simp add: c_str_def list_all_iff) (metis (mono_tags, lifting) set_takeWhileD)

lemma vformat_short [simp]: "length full < 8191 \<Longrightarrow> vformat full = Inr full"
  by (simp add: vformat_def)

text \<open>The texts of a request have some room below the 8191 characters of the buffer.\<close>

definition texts_fit :: "upnp_service \<Rightarrow> bool" where
  "texts_fit s \<longleftrightarrow> length (pm_protocol (up_mapping s)) + length (pm_internal_client (up_mapping s))
     + length (pm_description (up_mapping s)) + length (up_service_type s) \<le> 3500 \<and> \<bar>pm_lease_duration (up_mapping s)\<bar> < 10 ^ 10"

lemma c_str_length: "length (c_str t) \<le> length t"
  by (simp add: c_str_def length_takeWhile_le)

lemma add_params_plain: "list_all (\<lambda>c. code_of c \<noteq> 0) (add_port_mapping_params p)"
  by (simp add: add_port_mapping_params_def format_unsigned_def crlf_def code_of_def format_no_null[unfolded code_of_def neq0_conv]
      c_str_no_null[unfolded code_of_def neq0_conv])

lemma add_params_length:
  assumes "\<bar>pm_lease_duration p\<bar> < 10 ^ 10"
  shows "length (add_port_mapping_params p)
    \<le> length (pm_protocol p) + length (pm_internal_client p) + length (pm_description p) + 500"
  using format_length[OF assms] format_unsigned_length[of "pm_external_port p"] format_unsigned_length[of "pm_internal_port p"]
    c_str_length[of "pm_protocol p"] c_str_length[of "pm_internal_client p"] c_str_length[of "pm_description p"]
  by (simp add: add_port_mapping_params_def crlf_def)

lemma get_params_plain: "list_all (\<lambda>c. code_of c \<noteq> 0) (get_gen_params i)"
  by (simp add: get_gen_params_def code_of_def format_no_null[unfolded code_of_def neq0_conv])

lemma soap_length: "length (soap_action action t params) \<le> 2 * length action + length t + length params + 300"
  by (simp add: soap_action_def crlf_def)

text \<open>A request whose texts fit is a post to the control address.\<close>

definition request_state :: "string \<Rightarrow> string \<Rightarrow> upnp_callback \<Rightarrow> upnp_service \<Rightarrow> upnp_service" where
  "request_state params action callback s =
     s\<lparr>up_client := post_data (c_str (uri_original_string (up_control_uri s))) 4096
         (soap_action action (c_str (up_service_type s)) params) upnp_content_type
         (Some (sa_set string_iequal_to ''SOAPACTION'' (c_str (''\"'' @ c_str (up_service_type s) @ ''#'' @ action @ ''\"''))
                  (sa_set string_iequal_to ''Content-Type'' upnp_content_type []))) (up_client s),
       up_callback := callback\<rparr>"

lemma upnp_request_fits:
  assumes "list_all (\<lambda>c. code_of c \<noteq> 0) params" and "length params + length (up_service_type s) \<le> 5000" and "length action \<le> 100"
  shows "upnp_request params action callback s = Inr (request_state params action callback s)"
proof -
  have "length (soap_action action (c_str (up_service_type s)) params) < 8191"
    using soap_length[of action "c_str (up_service_type s)" params] c_str_length[of "up_service_type s"] assms by simp
  then show ?thesis using assms c_str_length[of "up_service_type s"]
    by (simp add: upnp_request_def c_str_id[OF assms(1)] request_state_def Let_def)
qed

lemma add_mapping_fits:
  assumes "texts_fit s"
  shows "add_port_mapping (up_mapping s) s = Inr (request_state (add_port_mapping_params (up_mapping s)) ''AddPortMapping'' On_Add_Mapping s)"
proof -
  have "length (add_port_mapping_params (up_mapping s)) + length (up_service_type s) \<le> 5000"
    using assms add_params_length[of "up_mapping s"] by (simp add: texts_fit_def)
  then show ?thesis by (simp add: add_port_mapping_def upnp_request_fits[OF add_params_plain])
qed

lemma get_mapped_fits:
  assumes "\<bar>i\<bar> < 10 ^ 10" and "length (up_service_type s) \<le> 3500"
  shows "get_mapped_port i s = Inr (request_state (get_gen_params i) ''GetGenericPortMappingEntry'' (On_Get_Mapped_Port i) s)"
proof -
  have "length (get_gen_params i) \<le> 100" using format_length[OF assms(1)] by (simp add: get_gen_params_def)
  then show ?thesis using assms(2) by (simp add: get_mapped_port_def upnp_request_fits[OF get_params_plain])
qed

lemma request_state_keeps [simp]:
  "up_mapping (request_state p a c s) = up_mapping s" "up_service_type (request_state p a c s) = up_service_type s"
  "up_callback (request_state p a c s) = c" "up_events (request_state p a c s) = up_events s"
  "up_listener (request_state p a c s) = up_listener s" "up_local_ip (request_state p a c s) = up_local_ip s"
  "up_mapping_port_times (request_state p a c s) = up_mapping_port_times s" "up_finished (request_state p a c s) = up_finished s"
  "up_timer (request_state p a c s) = up_timer s"
  by (simp_all add: request_state_def)

text \<open>The body of the request under way.\<close>

definition posted_body :: "upnp_service \<Rightarrow> string option" where
  "posted_body s = (case cl_handler (up_client s) of
     Some h \<Rightarrow> (case ch_job h of Post_Job body _ \<Rightarrow> Some body | _ \<Rightarrow> None) | None \<Rightarrow> None)"

lemma request_state_body [simp]: "posted_body (request_state p a c s) = Some (soap_action a (c_str (up_service_type s)) p)"
  by (simp add: request_state_def posted_body_def post_data_def cl_async_download_def cl_call_def ch_new_def split_beta Let_def)

subsection \<open>Runs of answers\<close>

text \<open>The results the HTTP client delivers, one after the other, each to the callback of the request under way.\<close>

fun up_answers ::
    "upnp_env \<Rightarrow> 'n tinyxml \<Rightarrow> string \<Rightarrow> client_result list \<Rightarrow> upnp_service \<Rightarrow> (fault + upnp_service) option" where
  "up_answers env lib local_ip [] s = Some (Inr s)"
| "up_answers env lib local_ip (r # rs) s =
     Option.bind (up_call_back env lib local_ip (up_callback s) r s) (\<lambda>x.
       case x of Inl e \<Rightarrow> Some (Inl e) | Inr s \<Rightarrow> up_answers env lib local_ip rs s)"

lemma up_answers_append:
  "up_answers env lib ip rs s = Some (Inr s') \<Longrightarrow> up_answers env lib ip (rs @ rs') s = up_answers env lib ip rs' s'"
proof (induction rs arbitrary: s)
  case (Cons r rs)
  then show ?case by (cases "up_call_back env lib ip (up_callback s) r s") (auto split: sum.splits)
qed simp

subsection \<open>Asking for a mapping\<close>

fun refused :: "client_result \<Rightarrow> bool" where
  "refused (Data_Result _ _ resp _) = (\<not> succeeded resp)"
| "refused (Head_Result _ _ _ _) = False"

text \<open>The service waits for the answer to its \<open>k\<close>-th retry; the ports grow by one, two, three and so on.\<close>

definition retrying :: "upnp_service \<Rightarrow> nat \<Rightarrow> upnp_service \<Rightarrow> bool" where
  "retrying s0 k s \<longleftrightarrow> up_callback s = On_Add_Mapping \<and> up_mapping_port_times s = int k
     \<and> up_mapping s = (up_mapping s0)\<lparr>pm_external_port := pm_external_port (up_mapping s0) + int (k * (k + 1) div 2)\<rparr>
     \<and> up_service_type s = up_service_type s0 \<and> up_events s = up_events s0 \<and> up_listener s = up_listener s0
     \<and> (0 < k \<longrightarrow> posted_body s = Some (soap_action ''AddPortMapping'' (c_str (up_service_type s0)) (add_port_mapping_params (up_mapping s))))"

lemma triangle_step: "int ((k + 1) * (k + 1 + 1) div 2) = int (k * (k + 1) div 2) + (int k + 1)"
proof -
  have "(k + 1) * (k + 1 + 1) div 2 = k * (k + 1) div 2 + (k + 1)"
    by (induction k) auto
  then show ?thesis by simp
qed

lemma retry_step:
  assumes "retrying s0 k s" and "k < 5" and "refused r" and "texts_fit s0"
  shows "\<exists>s'. up_call_back env lib ip (up_callback s) r s = Some (Inr s') \<and> retrying s0 (k + 1) s'"
proof -
  obtain u code resp data where r: "r = Data_Result u code resp data" using assms(3) by (cases r) auto
  let ?p = "pm_external_port (up_mapping s) + (int k + 1)"
  let ?s = "s\<lparr>up_mapping_port_times := int k + 1, up_mapping := (up_mapping s)\<lparr>pm_external_port := ?p\<rparr>\<rparr>"
  let ?s' = "request_state (add_port_mapping_params (up_mapping ?s)) ''AddPortMapping'' On_Add_Mapping ?s"
  have "texts_fit ?s" using assms(1,4) by (simp add: texts_fit_def retrying_def)
  then have "up_call_back env lib ip (up_callback s) r s = Some (Inr ?s')"
    using assms(1-3) add_mapping_fits[of ?s] by (simp add: up_call_back_def r retrying_def on_add_mapping_def Let_def)
  moreover have "retrying s0 (k + 1) ?s'"
    using assms(1) triangle_step[of k] by (simp add: retrying_def add.assoc)
  ultimately show ?thesis by blast
qed

lemma retry_steps:
  assumes "retrying s0 0 s0" and "length rs \<le> 5" and "list_all refused rs" and "texts_fit s0"
  shows "\<exists>s'. up_answers env lib ip rs s0 = Some (Inr s') \<and> retrying s0 (length rs) s'"
  using assms(2,3)
proof (induction rs rule: rev_induct)
  case Nil
  then show ?case using assms(1) by simp
next
  case (snoc r rs)
  then obtain s' where s': "up_answers env lib ip rs s0 = Some (Inr s')" "retrying s0 (length rs) s'" by auto
  from retry_step[OF s'(2) _ _ assms(4), of r env lib ip] snoc.prems show ?case
    using up_answers_append[OF s'(1), of "[r]"] by auto
qed

text \<open>
  A refused mapping is asked for five times more, on ports that grow by one, two, three, four and five; the
  sixth refusal is reported, with the port of the last attempt.
\<close>

theorem refused_mapping_retries:
  assumes "up_callback s = On_Add_Mapping" and "up_mapping_port_times s = 0" and "texts_fit s"
    and "list_all refused rs" and "1 \<le> length rs" and "length rs \<le> 5" and "refused r" and "length rs = 5 \<longrightarrow> up_listener s"
    and "port = (\<lambda>n :: nat. pm_external_port (up_mapping s) + int (n * (n + 1) div 2))"
  shows "\<exists>s'. up_answers env lib ip rs s = Some (Inr s') \<and> up_events s' = up_events s \<and>
    posted_body s' = Some (soap_action ''AddPortMapping'' (c_str (up_service_type s))
        (add_port_mapping_params ((up_mapping s)\<lparr>pm_external_port := port (length rs)\<rparr>))) \<and>
    (length rs = 5 \<longrightarrow> (\<exists>s''. up_answers env lib ip (rs @ [r]) s = Some (Inr s'') \<and>
       up_events s'' = up_events s @ [Mapping_Failed (pm_internal_port (up_mapping s)) (port 5) (- 3)]))"
proof -
  have "retrying s 0 s" using assms(1,2) by (simp add: retrying_def)
  from retry_steps[OF this assms(6,4,3)] obtain s' where
    s': "up_answers env lib ip rs s = Some (Inr s')" "retrying s (length rs) s'" by blast
  have reported: "\<exists>s''. up_answers env lib ip (rs @ [r]) s = Some (Inr s'') \<and>
      up_events s'' = up_events s @ [Mapping_Failed (pm_internal_port (up_mapping s)) (port 5) (- 3)]" if five: "length rs = 5"
  proof -
    obtain u code resp data where r: "r = Data_Result u code resp data" using assms(7) by (cases r) auto
    have "up_call_back env lib ip (up_callback s') r s' = Some (Inr (up_notify
        (Mapping_Failed (pm_internal_port (up_mapping s)) (port 5) (- 3)) (s'\<lparr>up_mapping_port_times := 6\<rparr>)))"
      using s'(2) assms(7,9) five by (simp add: r retrying_def up_call_back_def on_add_mapping_def)
    then show ?thesis
      using s'(2) assms(8) five unfolding up_answers_append[OF s'(1)] by (simp add: retrying_def up_notify_def)
  qed
  have "up_events s' = up_events s" "posted_body s' = Some (soap_action ''AddPortMapping'' (c_str (up_service_type s))
        (add_port_mapping_params ((up_mapping s)\<lparr>pm_external_port := port (length rs)\<rparr>)))"
    using s'(2) assms(5,9) by (auto simp: retrying_def)
  with s'(1) reported show ?thesis by blast
qed

definition sample_mapping_service :: upnp_service where
  "sample_mapping_service = up_set_listener True (map_port 6000 4000 5000 ''TCP'' 0 (up_new\<lparr>up_callback := On_Add_Mapping,
     up_service_type := service_wanip, up_local_ip := ''192.168.1.7''\<rparr>))"

definition sample_upnp_env :: upnp_env where
  "sample_upnp_env = \<lparr>ue_http = sample_client_env, ue_host = False,
     ue_inet_addr = (\<lambda>s. if s = ''192.168.1.1'' then 0x0101A8C0 else if s = ''8.8.8.8'' then 0x08080808 else 0xFFFFFFFF),
     ue_istarts_with = (\<lambda>s p. map to_lower (take (length p) s) = map to_lower p)\<rparr>"

lemmas sample_service_simps = sample_mapping_service_def up_set_listener_def map_port_def search_root_device_def up_new_def
  up_udp_call_def pm_new_def Let_def

lemma sample_mapping_fields:
  "up_callback sample_mapping_service = On_Add_Mapping" "up_mapping_port_times sample_mapping_service = 0"
  "up_listener sample_mapping_service" "up_events sample_mapping_service = []"
  "up_mapping sample_mapping_service = \<lparr>pm_internal_port = 4000, pm_external_port = 5000, pm_lease_duration = 0,
     pm_enabled = 1, pm_protocol = ''TCP'', pm_description = ''upnp'', pm_internal_client = []\<rparr>"
  "up_service_type sample_mapping_service = service_wanip" "up_local_ip sample_mapping_service = ''192.168.1.7''"
  by (simp_all add: sample_service_simps)

lemma sample_mapping_fits: "texts_fit sample_mapping_service"
  by (simp add: texts_fit_def sample_mapping_fields service_wanip_def)

text \<open>Port 5000 is refused, then 5001, 5003, 5006, 5010 and 5015.\<close>

theorem refused_mapping_retries_witness:
  "\<exists>s. up_answers sample_upnp_env (xml_trees (\<lambda>_. None)) ''192.168.1.7'' (replicate 5 (Data_Result None 5 None []) @ [Data_Result None 5 None []])
     sample_mapping_service = Some (Inr s) \<and> up_events s = [Mapping_Failed 4000 5015 (- 3)]"
proof -
  have refused: "refused (Data_Result None 5 None [])" by (simp add: succeeded_def)
  then have all: "list_all refused (replicate 5 (Data_Result None 5 None []))" by (simp add: list_all_iff)
  show ?thesis
    using refused_mapping_retries[OF sample_mapping_fields(1,2) sample_mapping_fits all _ _ refused _ refl,
      of sample_upnp_env "xml_trees (\<lambda>_. None)" "''192.168.1.7''"]
    by (simp only: length_replicate sample_mapping_fields) auto
qed

subsection \<open>Looking for an existing mapping\<close>

fun entry_answer :: "'n tinyxml \<Rightarrow> client_result \<Rightarrow> port_mapping_info \<Rightarrow> bool" where
  "entry_answer lib (Data_Result _ _ resp data) info = (succeeded resp \<and> parse_port_mapping_info lib data = Some (Some info))"
| "entry_answer lib (Head_Result _ _ _ _) info = False"

text \<open>The service has seen the first \<open>k\<close> entries and waits for the next one.\<close>

definition scanning :: "upnp_service \<Rightarrow> nat \<Rightarrow> upnp_service \<Rightarrow> bool" where
  "scanning s0 k s \<longleftrightarrow> up_callback s = On_Get_Mapped_Port (int k) \<and> up_mapping s = up_mapping s0
     \<and> up_service_type s = up_service_type s0 \<and> up_local_ip s = up_local_ip s0 \<and> up_events s = up_events s0
     \<and> up_listener s = up_listener s0"

lemma scan_answer:
  assumes "scanning s0 k s" and "entry_answer lib r info"
  shows "up_call_back env lib ip (up_callback s) r s =
    (let internal = pm_internal_port (up_mapping s0); external = pm_external_port (up_mapping s0) in
     if matches_mapping s0 info then Some (Inr (up_finish (Port_Mapped internal (pm_external_port info) True) s))
     else if 100 < k then Some (Inr (up_finish (Mapping_Failed internal external (- 1)) s))
     else Some (get_mapped_port (int (k + 1)) s))"
  using assms by (cases r) (auto simp: up_call_back_def scanning_def on_get_mapped_port_def matches_mapping_def Let_def add.commute)

lemma scan_steps:
  assumes "scanning s0 0 s0" and "list_all2 (entry_answer lib) rs infos" and "list_all (\<lambda>i. \<not> matches_mapping s0 i) infos"
    and "length rs \<le> 101" and "length (up_service_type s0) \<le> 3500"
  shows "\<exists>s'. up_answers env lib ip rs s0 = Some (Inr s') \<and> scanning s0 (length rs) s'"
  using assms(2-4)
proof (induction rs arbitrary: infos rule: rev_induct)
  case Nil
  then show ?case using assms(1) by simp
next
  case (snoc r rs)
  then obtain ps i where i: "infos = ps @ [i]" "list_all2 (entry_answer lib) rs ps" "entry_answer lib r i"
    by (auto simp: list_all2_append1 list_all2_Cons1)
  with snoc obtain s' where s': "up_answers env lib ip rs s0 = Some (Inr s')" "scanning s0 (length rs) s'" by auto
  let ?s = "request_state (get_gen_params (int (length rs + 1))) ''GetGenericPortMappingEntry'' (On_Get_Mapped_Port (int (length rs + 1))) s'"
  have "get_mapped_port (int (length rs + 1)) s' = Inr ?s"
    using snoc.prems(3) assms(5) s'(2) by (intro get_mapped_fits) (auto simp: scanning_def)
  then have "up_call_back env lib ip (up_callback s') r s' = Some (Inr ?s)"
    using scan_answer[OF s'(2) i(3), of env ip] snoc.prems(2,3) i(1) by (simp add: Let_def)
  moreover have "scanning s0 (length (rs @ [r])) ?s" using s'(2) by (simp add: scanning_def)
  ultimately show ?case using up_answers_append[OF s'(1), of "[r]"] by simp
qed

text \<open>
  The entries of the gateway are asked for in order, and the first that maps the port to this host is reported
  with its external port, if it is among the first 102. A gateway with 102 entries, none of them this
  one, is given up: no mapping is asked for.
\<close>

theorem existing_mapping_scan:
  assumes "up_callback s = On_Get_Mapped_Port 0" and "up_listener s" and "length (up_service_type s) \<le> 3500"
    and "list_all2 (entry_answer lib) rs infos" and "list_all (\<lambda>i. \<not> matches_mapping s i) infos" and "length rs \<le> 101"
    and "entry_answer lib r info" and "matches_mapping s info \<or> length rs = 101"
  shows "\<exists>s'. up_answers env lib ip (rs @ [r]) s = Some (Inr s') \<and> up_finished s' \<and> \<not> ti_started (up_timer s') \<and>
    up_events s' = up_events s @ [if matches_mapping s info
      then Port_Mapped (pm_internal_port (up_mapping s)) (pm_external_port info) True
      else Mapping_Failed (pm_internal_port (up_mapping s)) (pm_external_port (up_mapping s)) (- 1)]"
proof -
  have "scanning s 0 s" using assms(1) by (simp add: scanning_def)
  from scan_steps[OF this assms(4-6,3)] obtain s' where
    s': "up_answers env lib ip rs s = Some (Inr s')" "scanning s (length rs) s'" by blast
  then show ?thesis
    using scan_answer[OF s'(2) assms(7), of env ip] assms(2,8) unfolding up_answers_append[OF s'(1)]
    by (auto simp: Let_def scanning_def up_finish_def up_notify_def up_stop_timer_def ti_stop_def ti_cancel_timer_def)
qed

definition sample_entry :: "string \<Rightarrow> xml_element" where
  "sample_entry port = Xml ''s:Envelope'' None [Xml ''s:Body'' None [Xml ''u:GetGenericPortMappingEntryResponse'' None
     [Xml ''NewExternalPort'' (Some port) [], Xml ''NewProtocol'' (Some ''tcp'') [], Xml ''NewInternalPort'' (Some ''4000'') [],
      Xml ''NewInternalClient'' (Some ''192.168.1.7'') [], Xml ''NewEnabled'' (Some ''1'') []]]]"

definition sample_entries :: "xml_position tinyxml" where
  "sample_entries = xml_trees (\<lambda>d. if d = ''a'' then Some (Xml ''s:Envelope'' None [Xml ''s:Body'' None [Xml ''u:GetGenericPortMappingEntryResponse'' None []]])
     else Some (sample_entry ''7000''))"

definition sample_entry_info :: "int \<Rightarrow> int \<Rightarrow> int \<Rightarrow> string \<Rightarrow> string \<Rightarrow> port_mapping_info" where
  "sample_entry_info i e enabled protocol client = \<lparr>pm_internal_port = i, pm_external_port = e, pm_lease_duration = 0,
     pm_enabled = enabled, pm_protocol = protocol, pm_description = [], pm_internal_client = client\<rparr>"

lemmas xml_lookup_simps = xml_trees_def position_of_def named_from_def td_parse_def te_get_value_def te_get_string_def
  te_get_int_def numerics_parse_def numerics_try_parse_def scan_sign_def is_space_def is_digit_def code_of_def
  digits_value_def digit_value_def c_str_def

lemma sample_entries_parsed:
  "parse_port_mapping_info sample_entries ''a'' = Some (Some (sample_entry_info 0 0 0 [] []))"
  "parse_port_mapping_info sample_entries ''b'' = Some (Some (sample_entry_info 4000 7000 1 ''tcp'' ''192.168.1.7''))"
  by (simp_all add: parse_port_mapping_info_def sample_entries_def sample_entry_def sample_entry_info_def
      te_get_elements_by_tag_name_def elements_loop_some xml_lookup_simps)

text \<open>The first entry is another's, the second maps port 7000 to port 4000 of this host.\<close>

theorem existing_mapping_scan_witness:
  "\<exists>s'. up_answers sample_upnp_env sample_entries ''192.168.1.7''
      ([Data_Result None 0 (Some (rs_new\<lparr>rs_status_code := 200\<rparr>)) ''a''] @ [Data_Result None 0 (Some (rs_new\<lparr>rs_status_code := 200\<rparr>)) ''b''])
      (sample_mapping_service\<lparr>up_callback := On_Get_Mapped_Port 0\<rparr>) = Some (Inr s')
    \<and> up_events s' = [Port_Mapped 4000 7000 True]"
proof -
  let ?ok = "Some (rs_new\<lparr>rs_status_code := 200\<rparr>)" and ?s = "sample_mapping_service\<lparr>up_callback := On_Get_Mapped_Port 0\<rparr>"
  have a: "entry_answer sample_entries (Data_Result None 0 ?ok ''a'') (sample_entry_info 0 0 0 [] [])"
    and b: "entry_answer sample_entries (Data_Result None 0 ?ok ''b'') (sample_entry_info 4000 7000 1 ''tcp'' ''192.168.1.7'')"
    using sample_entries_parsed by (simp_all add: succeeded_def)
  have no: "\<not> matches_mapping ?s (sample_entry_info 0 0 0 [] [])"
    by (simp add: matches_mapping_def sample_entry_info_def sample_mapping_fields)
  have protocols: "iequals ''tcp'' ''TCP''" by code_simp
  have yes: "matches_mapping ?s (sample_entry_info 4000 7000 1 ''tcp'' ''192.168.1.7'')"
    using protocols by (simp add: matches_mapping_def sample_entry_info_def sample_mapping_fields)
  show ?thesis
    using existing_mapping_scan[of ?s sample_entries "[Data_Result None 0 ?ok ''a'']" "[sample_entry_info 0 0 0 [] []]", OF _ _ _ _ _ _ b,
        of sample_upnp_env "''192.168.1.7''"] a no yes
    by (auto simp: sample_mapping_fields service_wanip_def sample_entry_info_def)
qed

text \<open>
  An answer whose envelope has another element with content before the body is never finished with: the
  search for the entry does not return, and with it the handler.
\<close>

theorem answer_with_header_hangs:
  assumes "up_callback s = On_Get_Mapped_Port index" and "succeeded resp"
    and "td_parse lib (c_str data) = (True, Some root)" and "tx_first_child lib root = Some c"
    and "tx_first_child lib c = Some g" and "tx_next_sibling lib c \<noteq> None"
  shows "up_answers env lib ip [Data_Result u code resp data] s = None"
proof -
  have "te_elements_loop lib name c (Some g) = None" for name using elements_loop_stuck[of lib name c "Some g"] assms(6) by fastforce
  then have "te_get_elements_by_tag_name lib name root = None" for name
    using assms(4,5) by (simp add: te_get_elements_by_tag_name_def elements_loop_some)
  then have "parse_port_mapping_info lib data = None" using assms(3) by (simp add: parse_port_mapping_info_def)
  then show ?thesis using assms(1,2) by (simp add: up_call_back_def on_get_mapped_port_def Let_def)
qed

theorem answer_with_header_hangs_witness:
  "up_answers sample_upnp_env (xml_trees (\<lambda>_. Some (sample_envelope [Xml ''t'' None []]))) ''192.168.1.7''
     [Data_Result None 0 (Some (rs_new\<lparr>rs_status_code := 200\<rparr>)) ''d''] (sample_mapping_service\<lparr>up_callback := On_Get_Mapped_Port 0\<rparr>) = None"
  by (rule answer_with_header_hangs[where index = 0 and root = "(sample_envelope [Xml ''t'' None []], [])"
        and c = "(Xml ''s:Header'' None [Xml ''t'' None []], [Xml ''s:Body'' None [Xml ''u:R'' None []]])" and g = "(Xml ''t'' None [], [])"])
     (simp_all add: succeeded_def xml_trees_def td_parse_def position_of_def sample_envelope_def)

subsection \<open>The device tree\<close>

lemma parse_device_loop_returns:
  assumes "finite_document lib rank"
  shows "\<exists>d. parse_device_loop lib depth e = Some d \<and>
    (depth \<le> 2 \<longrightarrow> (case d of None \<Rightarrow> True | Some x \<Rightarrow> te_get_string lib ''deviceType'' [] (Some x) = device_types ! 2))"
proof (induction "case e of None \<Rightarrow> 0 | Some x \<Rightarrow> Suc (rank x)" arbitrary: depth e rule: less_induct)
  case less
  show ?case
  proof (cases e)
    case None
    then show ?thesis by (subst parse_device_loop.simps) simp
  next
    case (Some x)
    let ?inner = "te_get_first_child_named lib ''device'' (te_get_first_child_named lib ''deviceList'' e)"
    let ?next = "te_get_next_sibling lib e"
    have "(case ?inner of None \<Rightarrow> 0 | Some y \<Rightarrow> Suc (rank y)) < (case e of None \<Rightarrow> 0 | Some x \<Rightarrow> Suc (rank x))"
      using assms Some unfolding finite_document_def te_get_first_child_named_def
      by (cases "tx_first_child_named lib x ''deviceList''") (auto split: option.splits, meson less_trans)
    from less(1)[OF this, of "depth + 1"] obtain d where
      inner: "parse_device_loop lib (depth + 1) ?inner = Some d"
        "depth + 1 \<le> 2 \<longrightarrow> (case d of None \<Rightarrow> True | Some x \<Rightarrow> te_get_string lib ''deviceType'' [] (Some x) = device_types ! 2)" by blast
    have "(case ?next of None \<Rightarrow> 0 | Some y \<Rightarrow> Suc (rank y)) < (case e of None \<Rightarrow> 0 | Some x \<Rightarrow> Suc (rank x))"
      using assms Some unfolding finite_document_def te_get_next_sibling_def by (auto split: option.splits)
    from less(1)[OF this, of depth] obtain d' where
      "parse_device_loop lib depth ?next = Some d'"
        "depth \<le> 2 \<longrightarrow> (case d' of None \<Rightarrow> True | Some x \<Rightarrow> te_get_string lib ''deviceType'' [] (Some x) = device_types ! 2)" by blast
    then show ?thesis using inner Some
      by (subst (1) parse_device_loop.simps)
         (cases "depth \<ge> 2"; cases "device_types ! depth = te_get_string lib ''deviceType'' [] e"; auto simp: numeral_2_eq_2 dest: le_antisym)
  qed
qed

text \<open>
  On a finite document the search for the device ends, and an element it finds has the type of the innermost
  device, reached through one device of each outer type.
\<close>

theorem device_search_returns:
  assumes "finite_document lib rank"
  shows "\<exists>d. parse_device lib e 0 = Some d \<and>
    (case d of None \<Rightarrow> True | Some x \<Rightarrow> te_get_string lib ''deviceType'' [] (Some x) = device_types ! 2)"
  using parse_device_loop_returns[OF assms, of 0 "te_get_first_child_named lib ''device'' e"] by (simp add: parse_device_def)

definition sample_device :: "string \<Rightarrow> xml_element list \<Rightarrow> xml_element" where
  "sample_device ty inner = Xml ''device'' None (Xml ''deviceType'' (Some ty) [] # inner)"

definition sample_description :: xml_element where
  "sample_description = Xml ''root'' None [sample_device (device_types ! 0) [Xml ''deviceList'' None
     [sample_device (device_types ! 1) [Xml ''deviceList'' None [sample_device (device_types ! 2)
        [Xml ''serviceList'' None [Xml ''service'' None [Xml ''serviceType'' (Some service_wanip) [], Xml ''controlURL'' (Some ''/ctl'') []]]]]]]]]"

theorem device_search_returns_witness:
  "\<exists>x. parse_device (xml_trees (\<lambda>_. None)) (Some (sample_description, [])) 0 = Some (Some x)
    \<and> te_get_string (xml_trees (\<lambda>_. None)) ''deviceType'' [] (Some x) = device_types ! 2"
proof -
  let ?lib = "xml_trees (\<lambda>_. None)"
  have "parse_device ?lib (Some (sample_description, [])) 0 \<noteq> Some None"
    by (simp add: parse_device_def parse_device_loop.simps te_get_first_child_named_def te_get_string_def xml_trees_def named_from_def
        position_of_def sample_description_def sample_device_def device_types_def)
  then show ?thesis using device_search_returns[OF xml_trees_finite, of "\<lambda>_. None" "Some (sample_description, [])"]
    by (auto split: option.splits)
qed

subsection \<open>From the reply to the first question\<close>

lemma dword_sum:
  "to_dword True [a, b, c, d] = push_bit 24 (ucast a) + (push_bit 16 (ucast b) + (push_bit 8 (ucast c) + ucast d))"
proof -
  have "push_bit 8 (ucast c) + ucast d = (push_bit 8 (ucast c) OR ucast d :: u32)"
    by (subst disjunctive_add_eq_or; auto simp: bit_eq_iff bit_simps dest: bit_imp_le_length)
  moreover have "push_bit 16 (ucast b) + (push_bit 8 (ucast c) OR ucast d) = (push_bit 16 (ucast b) OR push_bit 8 (ucast c) OR ucast d :: u32)"
    by (subst disjunctive_add_eq_or; auto simp: bit_eq_iff bit_simps dest: bit_imp_le_length)
  moreover have "push_bit 24 (ucast a) + (push_bit 16 (ucast b) OR push_bit 8 (ucast c) OR ucast d)
      = (push_bit 24 (ucast a) OR push_bit 16 (ucast b) OR push_bit 8 (ucast c) OR ucast d :: u32)"
    by (subst disjunctive_add_eq_or; auto simp: bit_eq_iff bit_simps dest: bit_imp_le_length)
  ultimately show ?thesis by (simp add: to_dword_def)
qed

lemma dword_octets:
  "unat (to_dword True [a, b, c, d]) = unat a * 16777216 + unat b * 65536 + (unat c * 256 + unat d)"
proof -
  have lt: "unat a < 256" "unat b < 256" "unat c < 256" "unat d < 256"
    using unsigned_less[of a, where 'a = nat] unsigned_less[of b, where 'a = nat] unsigned_less[of c, where 'a = nat]
      unsigned_less[of d, where 'a = nat] by simp_all
  have "to_dword True [a, b, c, d] = word_of_nat (unat a * 16777216 + unat b * 65536 + (unat c * 256 + unat d))"
    unfolding dword_sum by (simp add: push_bit_eq_mult mult.commute)
  then have "unat (to_dword True [a, b, c, d]) = (unat a * 16777216 + unat b * 65536 + (unat c * 256 + unat d)) mod 2 ^ LENGTH(32)"
    by (simp only: unat_of_nat)
  also have "\<dots> = unat a * 16777216 + unat b * 65536 + (unat c * 256 + unat d)"
    by (rule mod_less) (use lt in simp)
  finally show ?thesis .
qed

lemma private_ranges:
  assumes "(r :: nat) < 65536" and "b < 256"
  shows "167772160 \<le> a * 16777216 + b * 65536 + r \<and> a * 16777216 + b * 65536 + r \<le> 184549375 \<longleftrightarrow> a = 10"
    and "2886729728 \<le> a * 16777216 + b * 65536 + r \<and> a * 16777216 + b * 65536 + r \<le> 2887778303 \<longleftrightarrow> a = 172 \<and> 16 \<le> b \<and> b \<le> 31"
    and "3232235520 \<le> a * 16777216 + b * 65536 + r \<and> a * 16777216 + b * 65536 + r \<le> 3232301055 \<longleftrightarrow> a = 192 \<and> b = 168"
proof -
  show "167772160 \<le> a * 16777216 + b * 65536 + r \<and> a * 16777216 + b * 65536 + r \<le> 184549375 \<longleftrightarrow> a = 10"
    using assms by (intro iffI; linarith)
  show "2886729728 \<le> a * 16777216 + b * 65536 + r \<and> a * 16777216 + b * 65536 + r \<le> 2887778303 \<longleftrightarrow> a = 172 \<and> 16 \<le> b \<and> b \<le> 31"
  proof
    assume h: "2886729728 \<le> a * 16777216 + b * 65536 + r \<and> a * 16777216 + b * 65536 + r \<le> 2887778303"
    have "a = 172" using assms h by linarith
    then show "a = 172 \<and> 16 \<le> b \<and> b \<le> 31" using assms h by linarith
  qed (use assms in auto)
  show "3232235520 \<le> a * 16777216 + b * 65536 + r \<and> a * 16777216 + b * 65536 + r \<le> 3232301055 \<longleftrightarrow> a = 192 \<and> b = 168"
  proof
    assume h: "3232235520 \<le> a * 16777216 + b * 65536 + r \<and> a * 16777216 + b * 65536 + r \<le> 3232301055"
    have "a = 192" using assms h by linarith
    then show "a = 192 \<and> b = 168" using assms h by linarith
  qed (use assms in auto)
qed

text \<open>The addresses that are accepted are the three private networks, 10/8, 172.16/12 and 192.168/16, on either byte order.\<close>

theorem lan_addresses_private:
  assumes "ue_inet_addr env h = to_dword (ue_host env) [a, b, c, d]"
  shows "is_lan_host env h \<longleftrightarrow> a = 10 \<or> (a = 172 \<and> 16 \<le> b \<and> b \<le> 31) \<or> (a = 192 \<and> b = 168)"
proof -
  have lt: "unat a < 256" "unat b < 256" "unat c < 256" "unat d < 256"
    using unsigned_less[of a, where 'a = nat] unsigned_less[of b, where 'a = nat] unsigned_less[of c, where 'a = nat]
      unsigned_less[of d, where 'a = nat] by simp_all
  have eq: "a = 10 \<longleftrightarrow> unat a = 10" "a = 172 \<longleftrightarrow> unat a = 172" "a = 192 \<longleftrightarrow> unat a = 192" "b = 168 \<longleftrightarrow> unat b = 168"
    "16 \<le> b \<longleftrightarrow> 16 \<le> unat b" "b \<le> 31 \<longleftrightarrow> unat b \<le> 31"
    by (simp_all add: word_unat_eq_iff word_le_nat_alt)
  have "is_lan_host env h = is_lan_ip (to_dword True [a, b, c, d])"
    using assms convert_to_dword[of "ue_host env" True a b c d "[]"]
    by (simp add: is_lan_host_def ia_set_address_text_def ia_get_address_def htonl_def)
  also have "\<dots> \<longleftrightarrow> a = 10 \<or> (a = 172 \<and> 16 \<le> b \<and> b \<le> 31) \<or> (a = 192 \<and> b = 168)"
    using private_ranges[of "unat c * 256 + unat d" "unat b" "unat a"] lt
    unfolding is_lan_ip_def eq word_le_nat_alt dword_octets by simp
  finally show ?thesis .
qed

lemma lan_host_octets:
  assumes "is_lan_host env h"
  shows "\<exists>a b c d. ue_inet_addr env h = to_dword (ue_host env) [a, b, c, d] \<and> (a = 10 \<or> (a = 172 \<and> 16 \<le> b \<and> b \<le> 31) \<or> (a = 192 \<and> b = 168))"
proof -
  obtain a b c d where w: "ue_inet_addr env h = to_dword (ue_host env) [a, b, c, d]" using dword_from_bytes by blast
  with assms show ?thesis unfolding lan_addresses_private[OF w] by blast
qed

theorem lan_addresses_private_witness:
  "is_lan_host sample_upnp_env ''192.168.1.1'' \<and> \<not> is_lan_host sample_upnp_env ''8.8.8.8''"
proof -
  have "ue_inet_addr sample_upnp_env ''192.168.1.1'' = to_dword (ue_host sample_upnp_env) [192, 168, 1, 1]"
    "ue_inet_addr sample_upnp_env ''8.8.8.8'' = to_dword (ue_host sample_upnp_env) [8, 8, 8, 8]"
    by (simp_all add: sample_upnp_env_def to_dword_def)
  from this[THEN lan_addresses_private] show ?thesis by simp
qed

subsection \<open>Downloads stay in the private networks\<close>

text \<open>What can happen to the service: calls of its user, replies, ticks, and events of its client's connection.\<close>

inductive upnp_step :: "upnp_env \<Rightarrow> 'n tinyxml \<Rightarrow> upnp_service \<Rightarrow> upnp_service \<Rightarrow> bool" for env lib where
  map_port: "upnp_step env lib s (map_port now internal external protocol lease s)"
| settings: "upnp_step env lib s (up_set_listener l (up_set_description desc s))"
| stop: "upnp_step env lib s (up_stop s)"
| tick: "upnp_step env lib s (up_timer_fires now s)"
| reply: "up_on_socket_receive env data s = Inr s' \<Longrightarrow> upnp_step env lib s s'"
| reply_failed: "upnp_step env lib s (up_on_socket_receive_failed s)"
| client: "up_client_event env lib ip e s = Some (Inr s') \<Longrightarrow> upnp_step env lib s s'"
| posted: "up_run_posted env lib ip s = Some (Inr s') \<Longrightarrow> upnp_step env lib s s'"

inductive upnp_reachable :: "upnp_env \<Rightarrow> 'n tinyxml \<Rightarrow> upnp_service \<Rightarrow> bool" for env lib where
  start: "upnp_reachable env lib up_new"
| step: "upnp_reachable env lib s \<Longrightarrow> upnp_step env lib s s' \<Longrightarrow> upnp_reachable env lib s'"

definition downloads_private :: "upnp_env \<Rightarrow> http_client \<Rightarrow> bool" where
  "downloads_private env c \<longleftrightarrow> (\<forall>url hs. Conn_Request ''GET'' url hs \<in> set (cl_calls c) \<longrightarrow>
     is_lan_host env (uri_host (snd (uri_parse (Some url) uri_init))))"

lemma cl_event_downloads: "downloads_private env c \<Longrightarrow> downloads_private env (snd (cl_event henv e c))"
  by (cases "cl_handler c"; cases e) (auto simp: downloads_private_def client_steps Let_def split: bool.splits client_job.splits option.splits)

lemma post_data_downloads: "downloads_private env c \<Longrightarrow> downloads_private env (post_data url n body t hs c)"
  by (auto simp: downloads_private_def post_data_def cl_async_download_def cl_call_def ch_new_def split_beta Let_def)

lemma upnp_request_downloads:
  "upnp_request params action cb s = Inr s' \<Longrightarrow> downloads_private env (up_client s) \<Longrightarrow> downloads_private env (up_client s')"
  by (auto simp: upnp_request_def sbind_Inr_iff Let_def intro: post_data_downloads)

lemma get_mapped_downloads:
  "get_mapped_port i s = Inr s' \<Longrightarrow> downloads_private env (up_client s) \<Longrightarrow> downloads_private env (up_client s')"
  by (auto simp: get_mapped_port_def sbind_Inr_iff intro: upnp_request_downloads)

lemma add_mapping_downloads:
  "add_port_mapping p s = Inr s' \<Longrightarrow> downloads_private env (up_client s) \<Longrightarrow> downloads_private env (up_client s')"
  by (auto simp: add_port_mapping_def sbind_Inr_iff intro: upnp_request_downloads)

lemma use_service_downloads:
  "use_service env t url s = Inr s' \<Longrightarrow> downloads_private env (up_client s) \<Longrightarrow> downloads_private env (up_client s')"
  by (auto simp: use_service_def Let_def sbind_Inr_iff split: if_splits option.splits dest!: get_mapped_downloads[where env = env])

lemma description_downloads:
  assumes "parse_device_description env lib xml s = Some (Inr s')" and "downloads_private env (up_client s)"
  shows "downloads_private env (up_client s')"
proof -
  obtain ok root where p: "td_parse lib (c_str xml) = (ok, root)" by fastforce
  show ?thesis
  proof (cases "ok \<and> root \<noteq> None")
    case True
    then obtain x where x: "root = Some x" by auto
    define s1 where "s1 = s\<lparr>up_base_url := te_get_string lib ''URLBase'' [] (Some x)\<rparr>"
    have "s' = s1 \<or> (\<exists>t url. use_service env t url s1 = Inr s')"
      using assms(1) p True x unfolding parse_device_description_def
      by (auto simp: Option.bind_eq_Some_conv Let_def s1_def split: if_splits)
    then show ?thesis using assms(2) use_service_downloads[of env _ _ s1 s'] by (auto simp: s1_def)
  qed (use assms p in \<open>auto simp: parse_device_description_def split: bool.splits option.splits\<close>)
qed

lemma up_finish_client [simp]: "up_client (up_finish e s) = up_client s" "up_client (up_notify e s) = up_client s"
  by (simp_all add: up_finish_def up_notify_def up_stop_timer_def)

lemma call_back_downloads:
  assumes "up_call_back env lib ip cb r s = Some (Inr s')" and "downloads_private env (up_client s)"
  shows "downloads_private env (up_client s')"
proof (cases r)
  case (Data_Result u code resp data)
  show ?thesis
  proof (cases cb)
    case On_Igd
    then show ?thesis using assms Data_Result
      by (auto simp: up_call_back_def on_igd_def dest!: description_downloads[where env = env])
  next
    case (On_Get_Mapped_Port i)
    then show ?thesis using assms Data_Result
      by (auto simp: up_call_back_def on_get_mapped_port_def Let_def Option.bind_eq_Some_conv split: if_splits option.splits
          dest!: get_mapped_downloads[where env = env] add_mapping_downloads[where env = env])
  next
    case On_Add_Mapping
    then show ?thesis using assms Data_Result
      by (auto simp: up_call_back_def on_add_mapping_def Let_def split: if_splits dest!: add_mapping_downloads[where env = env])
  qed
qed (use assms in \<open>simp add: up_call_back_def\<close>)

lemma search_client [simp]: "up_client (search_root_device now s) = up_client s"
  by (simp add: search_root_device_def up_stop_timer_def up_udp_call_def Let_def)

text \<open>A parse leaves no trace of what was parsed before.\<close>

lemma uri_parse_init: "uri_parse t u = uri_parse t uri_init"
proof -
  have "uri_clear v = uri_init" for v by (cases v) (simp add: uri_clear_def uri_init_def sa_clear_def)
  then show ?thesis by (simp add: uri_parse_def)
qed

lemma uri_original_kept: "uri_original_string (snd (uri_parse (Some t) u)) = t"
proof -
  have host: "uri_original_string (snd (parse_host_and_port t a b v)) = uri_original_string v" for a b v
    by (simp add: parse_host_and_port_def Let_def split: option.splits)
  show ?thesis
    by (auto simp: uri_parse_def parse_with_scheme_def original_string_parse_path host Let_def split_beta split: option.splits)
qed

lemma download_downloads:
  assumes "downloads_private env c" and "is_lan_host env (uri_host (snd (uri_parse (Some location) uri_init)))"
  shows "downloads_private env (download_data location n hs c)"
  using assms uri_original_kept[of location uri_init]
  by (auto simp: downloads_private_def download_data_def async_download_uri_data_def cl_async_download_def cl_call_def ch_new_def
      split_beta Let_def split: option.splits)

lemma reply_downloads:
  assumes "up_on_socket_receive env data s = Inr s'" and "downloads_private env (up_client s)"
  shows "downloads_private env (up_client s')"
  using assms by (auto simp: up_on_socket_receive_def up_udp_call_def up_async_download_def sbind_Inr_iff Let_def
      uri_parse_init[of _ "up_igd_uri s"] split: if_splits intro: download_downloads)

lemma upnp_step_downloads:
  assumes "upnp_step env lib s s'" and "downloads_private env (up_client s)"
  shows "downloads_private env (up_client s')"
  using assms
proof cases
  case (client ip e)
  then show ?thesis using cl_event_downloads[OF assms(2), of "ue_http env" e]
    by (auto simp: up_client_event_def Let_def split: if_splits dest!: call_back_downloads)
next
  case (posted ip)
  moreover have "downloads_private env (cl_run_posted (up_client s))"
    using assms(2) by (auto simp: downloads_private_def cl_run_posted_def cl_callback_def split: list.splits)
  ultimately show ?thesis using assms(2) by (auto simp: up_run_posted_def split: list.splits dest!: call_back_downloads)
qed (auto simp: map_port_def up_set_listener_def up_set_description_def up_stop_def up_udp_call_def up_timer_fires_def up_on_tick_def
      up_on_socket_receive_failed_def Let_def split_beta intro: reply_downloads)

text \<open>
  C13. Whatever replies and descriptions arrive, every URL the service has asked its HTTP client to get has a host that
  \<open>inet_addr\<close> reads as an address in 10/8, 172.16/12 or 192.168/16 (where a redirect leads, which the client may follow, is not part of it).
\<close>

theorem downloads_stay_private:
  assumes "upnp_reachable env lib s" and "Conn_Request ''GET'' url hs \<in> set (cl_calls (up_client s))"
  shows "\<exists>a b c d. ue_inet_addr env (uri_host (snd (uri_parse (Some url) uri_init))) = to_dword (ue_host env) [a, b, c, d]
    \<and> (a = 10 \<or> (a = 172 \<and> 16 \<le> b \<and> b \<le> 31) \<or> (a = 192 \<and> b = 168))"
proof -
  have "downloads_private env (up_client s)"
    using assms(1)
  proof induction
    case start
    then show ?case by (simp add: downloads_private_def up_new_def cl_new_def cl_set_keep_alive_def cl_call_def)
  qed (rule upnp_step_downloads)
  then have "is_lan_host env (uri_host (snd (uri_parse (Some url) uri_init)))" using assms(2) by (auto simp: downloads_private_def)
  then show ?thesis by (rule lan_host_octets)
qed

text \<open>A gateway answers from 192.168.1.1.\<close>

definition sample_reply :: http_response where
  "sample_reply = rs_new\<lparr>rs_message := (rs_message rs_new)\<lparr>hm_headers := [(''LOCATION'', ''http://192.168.1.1/d'')]\<rparr>,
     rs_status_code := 200, rs_status_description := ''OK''\<rparr>"

lemma sample_reply_ok: "response_ok sample_reply"
  by (simp add: sample_reply_def response_ok_def token_def plain_text_def header_ok_def padded_def rs_new_def rs_clear_def hm_clear_def
      no_cr_def is_space_def code_of_def)

lemma sample_location: "uri_parse (Some ''http://192.168.1.1/d'') uri_init = (True, uri_init\<lparr>uri_original_string := ''http://192.168.1.1/d'',
    uri_scheme := ''http'', uri_host := ''192.168.1.1'', uri_port := 80, uri_full_path := ''/d'', uri_path := ''/d'', uri_filename := ''d''\<rparr>)"
  by code_simp

subsection \<open>Found, downloaded, asked\<close>

fun up_client_events ::
    "upnp_env \<Rightarrow> 'n tinyxml \<Rightarrow> string \<Rightarrow> http_event list \<Rightarrow> upnp_service \<Rightarrow> (fault + upnp_service) option" where
  "up_client_events env lib ip [] s = Some (Inr s)"
| "up_client_events env lib ip (e # es) s =
     Option.bind (up_client_event env lib ip e s) (\<lambda>x. case x of Inl f \<Rightarrow> Some (Inl f) | Inr s \<Rightarrow> up_client_events env lib ip es s)"

lemma up_client_events_append:
  "up_client_events env lib ip es s = Some (Inr s') \<Longrightarrow> up_client_events env lib ip (es @ es') s = up_client_events env lib ip es' s'"
proof (induction es arbitrary: s)
  case (Cons e es)
  then show ?case by (cases "up_client_event env lib ip e s") (auto split: sum.splits)
qed simp

text \<open>A reply with an address in a private network starts the download of the description.\<close>

lemma reply_starts_download:
  assumes "boost_text (he_trim (ue_http env)) (he_split (ue_http env))" and "response_ok r" and "length (rs_print r @ rest) \<le> 64 * 1024"
    and "\<not> up_finished s" and "c_str (hm_get_header ''LOCATION'' [] (rs_message r)) = location"
    and "uri_parse (Some location) uri_init = (True, u)" and "is_lan_host env (uri_host u)"
  shows "up_on_socket_receive env (rs_print r @ rest) s = Inr (s\<lparr>up_udp := up_udp s @ [Udp_Receive 4096], up_igd_url := location,
    up_igd_uri := u, up_client := async_download_uri_data u (8 * 1024) None (up_client s), up_callback := On_Igd\<rparr>)"
proof -
  have "(re_new (64 * 1024))\<lparr>re_buffer := []\<rparr> = re_new (64 * 1024)" by (simp add: re_new_def)
  then have "re_feed (he_trim (ue_http env)) (he_split (ue_http env)) (rs_print r @ rest) (re_new (64 * 1024))
      = Inr (int (length (rs_print r)), (re_new (64 * 1024))\<lparr>re_response := r, re_header_finished := True\<rparr>)"
    using boost_text.extract_header[OF assms(1,2), of "[]" "rs_print r @ rest" rest "64 * 1024"] assms(3) by simp
  moreover have "download_data location (8 * 1024) None (up_client s) = async_download_uri_data u (8 * 1024) None (up_client s)"
    using assms(6) by (simp add: download_data_def)
  moreover have "cl_posted (async_download_uri_data u (8 * 1024) None (up_client s)) = cl_posted (up_client s)"
    by (simp add: async_download_uri_data_def cl_async_download_def cl_call_def Let_def)
  ultimately show ?thesis
    using assms(4-7) uri_parse_init[of "Some location" "up_igd_uri s"]
    by (simp add: up_on_socket_receive_def up_udp_call_def up_async_download_def Let_def)
qed

lemma quiet_event:
  assumes "cl_event (ue_http env) e (up_client s) = (b, c)" and "cl_results c = cl_results (up_client s)"
  shows "up_client_event env lib ip e s = Some (Inr (s\<lparr>up_client := c\<rparr>))"
  using assms by (simp add: up_client_event_def)

lemma quiet_data:
  assumes "downloading (up_client s) h" and "int (length (ch_data h) + length (concat ds)) \<le> ch_max_size h" and "ch_max_size h < 2 ^ 31"
  shows "up_client_events env lib ip (map Http_Data ds) s
    = Some (Inr (s\<lparr>up_client := (up_client s)\<lparr>cl_handler := Some (h\<lparr>ch_data := ch_data h @ concat ds\<rparr>)\<rparr>\<rparr>))"
  using assms
proof (induction ds arbitrary: s h)
  case (Cons d ds)
  let ?h = "h\<lparr>ch_data := ch_data h @ d\<rparr>" let ?s = "s\<lparr>up_client := (up_client s)\<lparr>cl_handler := Some ?h\<rparr>\<rparr>"
  have "cl_events (ue_http env) (map Http_Data [d]) (up_client s) = (replicate 1 True, (up_client s)\<lparr>cl_handler := Some ?h\<rparr>)"
    using download_pieces[of "up_client s" h "[d]" "ue_http env"] Cons.prems by simp
  then have "cl_event (ue_http env) (Http_Data d) (up_client s) = (True, (up_client s)\<lparr>cl_handler := Some ?h\<rparr>)"
    by (cases "cl_event (ue_http env) (Http_Data d) (up_client s)") simp
  from quiet_event[OF this, of lib ip]
  have "up_client_event env lib ip (Http_Data d) s = Some (Inr ?s)" by simp
  moreover have "up_client_events env lib ip (map Http_Data ds) ?s
    = Some (Inr (?s\<lparr>up_client := (up_client ?s)\<lparr>cl_handler := Some (?h\<lparr>ch_data := ch_data ?h @ concat ds\<rparr>)\<rparr>\<rparr>))"
    using Cons.prems by (intro Cons.IH) (auto simp: downloading_def)
  ultimately show ?case by simp
qed (simp add: downloading_def)

text \<open>The description arrives in pieces, and the callback reads it.\<close>

definition after_download :: "simple_uri \<Rightarrow> http_response \<Rightarrow> string \<Rightarrow> http_client \<Rightarrow> http_client" where
  "after_download u dr data c =
     cl_callback (Data_Result (Some u) 0 (Some dr) data) (cl_handle_complete (c\<lparr>cl_handler :=
       Some ((ch_new Download_Job ''GET'' (8 * 1024))\<lparr>ch_url := Some u, ch_response := Some dr,
         ch_content_length := get_content_length dr, ch_data := data\<rparr>)\<rparr>))"

lemma description_arrives:
  assumes "up_client s = async_download_uri_data u (8 * 1024) None c" and "up_callback s = On_Igd"
    and "get_content_length dr \<le> 8 * 1024" and "length (concat ds) \<le> 8 * 1024"
    and "on_igd env lib ip (concat ds) (s\<lparr>up_client := after_download u dr (concat ds) (up_client s)\<rparr>) = Some (Inr s')"
  shows "up_client_events env lib ip ([Http_Response dr url] @ map Http_Data ds @ [Http_Complete n]) s = Some (Inr s')"
proof -
  let ?h = "(ch_new Download_Job ''GET'' (8 * 1024))\<lparr>ch_url := Some u\<rparr>"
  let ?h1 = "?h\<lparr>ch_response := Some dr, ch_content_length := get_content_length dr, ch_data := []\<rparr>"
  let ?h2 = "?h1\<lparr>ch_data := concat ds\<rparr>"
  let ?c1 = "(up_client s)\<lparr>cl_handler := Some ?h1\<rparr>" let ?c2 = "(up_client s)\<lparr>cl_handler := Some ?h2\<rparr>"
  have d0: "downloading (up_client s) ?h"
    using assms(1) by (simp add: downloading_def async_download_uri_data_def cl_async_download_def cl_call_def ch_new_def)
  have size: "ch_max_size ?h1 = 8192" by (simp add: ch_new_def int_of_size_def)
  have "cl_event (ue_http env) (Http_Response dr url) (up_client s) = (True, ?c1)"
    using download_response[OF d0, of dr "ue_http env" url] assms(3) size by simp
  from quiet_event[OF this, of lib ip]
  have r: "up_client_event env lib ip (Http_Response dr url) s = Some (Inr (s\<lparr>up_client := ?c1\<rparr>))" by simp
  have d1: "downloading (up_client (s\<lparr>up_client := ?c1\<rparr>)) ?h1" using d0 by (simp add: downloading_def)
  have b: "up_client_events env lib ip (map Http_Data ds) (s\<lparr>up_client := ?c1\<rparr>) = Some (Inr (s\<lparr>up_client := ?c2\<rparr>))"
    using quiet_data[OF d1, of ds env lib ip] size assms(4) by simp
  have "cl_event (ue_http env) (Http_Complete n) ?c2 = (True, after_download u dr (concat ds) (up_client s))"
    using d0 by (simp add: downloading_def after_download_def cl_event_def ch_on_http_complete_def ch_invoke_callback_def ch_new_def)
  moreover have "cl_results (after_download u dr (concat ds) (up_client s)) = cl_results (up_client s) @ [Data_Result (Some u) 0 (Some dr) (concat ds)]"
    by (simp add: after_download_def cl_callback_def cl_handle_complete_def cl_close_connection_def cl_call_def)
  ultimately have "up_client_event env lib ip (Http_Complete n) (s\<lparr>up_client := ?c2\<rparr>) = Some (Inr s')"
    using assms(2,5) by (simp add: up_client_event_def up_call_back_def)
  then show ?thesis using r up_client_events_append[OF b, of "[Http_Complete n]"] by simp
qed

text \<open>A description without a base address, whose innermost device offers a service with an absolute path.\<close>

definition describes :: "'n tinyxml \<Rightarrow> 'n \<Rightarrow> string \<Rightarrow> string \<Rightarrow> bool" where
  "describes lib root service_type control \<longleftrightarrow> te_get_string lib ''URLBase'' [] (Some root) = [] \<and>
     (\<exists>d l x. parse_device lib (Some root) 0 = Some (Some d) \<and> tx_first_child_named lib d ''serviceList'' = Some l
        \<and> tx_first_child_named lib l ''service'' = Some x \<and> te_get_string lib ''serviceType'' [] (Some x) = service_type
        \<and> te_get_string lib ''controlURL'' [] (Some x) = control)"

lemma service_asked:
  assumes "service_type \<in> {service_wanip, service_wanppp}" and "control = CHR ''/'' # path" and "\<not> ue_istarts_with env control ''http://''"
    and "uri_parse (Some (c_str (up_igd_url s))) uri_init = (True, u)" and "uri_host u \<noteq> []" and "length (uri_host u) \<le> 3000"
    and "\<bar>uri_port u\<bar> < 10 ^ 10" and "up_base_url s = []"
  shows "\<exists>url' t. use_service env service_type control s = Inr (request_state (get_gen_params 0) ''GetGenericPortMappingEntry'' (On_Get_Mapped_Port 0)
      (s\<lparr>up_service_type := service_type, up_control_url := url', up_control_uri := t\<rparr>))
    \<and> uri_original_string t = c_str (''http://'' @ uri_host u @ '':'' @ numerics_format (uri_port u) @ control)"
proof -
  let ?p = "''http://'' @ uri_host u @ '':'' @ numerics_format (uri_port u)" let ?url = "?p @ control"
  let ?t = "snd (uri_parse (Some (c_str ?url)) (up_control_uri s))"
  have "length ?p < 8191" using format_length[OF assms(7)] assms(6) by simp
  then have control_url: "make_control_url env (up_igd_url s) (up_base_url s) control = Some (Inr ?url)"
    using assms(2-5,8) by (simp add: make_control_url_def Let_def)
  have "length service_type \<le> 3500" using assms(1) by (auto simp: service_wanip_def service_wanppp_def)
  then have "get_mapped_port 0 (s\<lparr>up_service_type := service_type, up_control_url := ?url, up_control_uri := ?t\<rparr>)
      = Inr (request_state (get_gen_params 0) ''GetGenericPortMappingEntry'' (On_Get_Mapped_Port 0)
          (s\<lparr>up_service_type := service_type, up_control_url := ?url, up_control_uri := ?t\<rparr>))"
    by (intro get_mapped_fits) simp_all
  then have "use_service env service_type control s = Inr (request_state (get_gen_params 0) ''GetGenericPortMappingEntry'' (On_Get_Mapped_Port 0)
      (s\<lparr>up_service_type := service_type, up_control_url := ?url, up_control_uri := ?t\<rparr>))"
    using assms(1,2) control_url by (auto simp: use_service_def Let_def)
  moreover have "uri_original_string ?t = c_str ?url" by (rule uri_original_kept)
  ultimately show ?thesis by (metis append_assoc)
qed

text \<open>
  A gateway that answers the search from a private address has its description downloaded, and when that
  describes a service, the client posts the question for its first mapping to the service's address on that
  gateway, with the address of this host remembered.
\<close>

theorem gateway_is_asked:
  assumes "boost_text (he_trim (ue_http env)) (he_split (ue_http env))" and "response_ok r" and "length (rs_print r @ rest) \<le> 64 * 1024"
    and "\<not> up_finished s" and "c_str (hm_get_header ''LOCATION'' [] (rs_message r)) = location"
    and "uri_parse (Some location) uri_init = (True, u)" and "is_lan_host env (uri_host u)"
    and "uri_host u \<noteq> []" and "length (uri_host u) \<le> 3000" and "\<bar>uri_port u\<bar> < 10 ^ 10"
    and "\<not> cl_keep_alive (up_client s)" and "get_content_length dr \<le> 8 * 1024" and "length (concat ds) \<le> 8 * 1024"
    and "td_parse lib (c_str (concat ds)) = (True, Some root)" and "describes lib root service_type control"
    and "service_type \<in> {service_wanip, service_wanppp}" and "control = CHR ''/'' # path" and "\<not> ue_istarts_with env control ''http://''"
  shows "\<exists>s1 s2 hs. up_on_socket_receive env (rs_print r @ rest) s = Inr s1
    \<and> up_client_events env lib ip ([Http_Response dr url] @ map Http_Data ds @ [Http_Complete n]) s1 = Some (Inr s2)
    \<and> cl_calls (up_client s2) = cl_calls (up_client s) @ [Conn_Request ''GET'' location None, Conn_Close,
        Conn_Request ''POST'' (c_str (''http://'' @ uri_host u @ '':'' @ numerics_format (uri_port u) @ control)) (Some hs)]
    \<and> posted_body s2 = Some (soap_action ''GetGenericPortMappingEntry'' (c_str service_type) (get_gen_params 0))
    \<and> up_callback s2 = On_Get_Mapped_Port 0 \<and> pm_internal_client (up_mapping s2) = ip"
proof -
  define s1 where "s1 = s\<lparr>up_udp := up_udp s @ [Udp_Receive 4096], up_igd_url := location, up_igd_uri := u,
    up_client := async_download_uri_data u (8 * 1024) None (up_client s), up_callback := On_Igd\<rparr>"
  define c where "c = after_download u dr (concat ds) (up_client s1)"
  define s3 where "s3 = s1\<lparr>up_client := c, up_local_ip := ip, up_mapping := (up_mapping s1)\<lparr>pm_internal_client := ip\<rparr>, up_base_url := []\<rparr>"
  have reply: "up_on_socket_receive env (rs_print r @ rest) s = Inr s1"
    unfolding s1_def using assms(1-7) by (rule reply_starts_download)
  have "c_str location = location" unfolding assms(5)[symmetric] by (rule c_str_id[OF c_str_no_null])
  then have igd: "uri_parse (Some (c_str (up_igd_url s3))) uri_init = (True, u)" using assms(6) by (simp add: s3_def s1_def)
  have base: "up_base_url s3 = []" by (simp add: s3_def)
  from service_asked[OF assms(16-18) igd assms(8-10) base] obtain url' t where
    asked: "use_service env service_type control s3 = Inr (request_state (get_gen_params 0) ''GetGenericPortMappingEntry'' (On_Get_Mapped_Port 0)
      (s3\<lparr>up_service_type := service_type, up_control_url := url', up_control_uri := t\<rparr>))"
    and t: "uri_original_string t = c_str (''http://'' @ uri_host u @ '':'' @ numerics_format (uri_port u) @ control)" by blast
  define s2 where "s2 = request_state (get_gen_params 0) ''GetGenericPortMappingEntry'' (On_Get_Mapped_Port 0)
      (s3\<lparr>up_service_type := service_type, up_control_url := url', up_control_uri := t\<rparr>)"
  have "on_igd env lib ip (concat ds) (s1\<lparr>up_client := c\<rparr>) = Some (Inr s2)"
    using assms(14,15) asked
    by (auto simp: on_igd_def parse_device_description_def describes_def te_get_first_child_named_def s3_def s2_def Let_def)
  then have events: "up_client_events env lib ip ([Http_Response dr url] @ map Http_Data ds @ [Http_Complete n]) s1 = Some (Inr s2)"
    using assms(12,13) unfolding c_def by (intro description_arrives[where c = "up_client s"]) (simp_all add: s1_def)
  have url: "c_str (uri_original_string t) = uri_original_string t" unfolding t by (rule c_str_id[OF c_str_no_null])
  have "cl_calls c = cl_calls (up_client s) @ [Conn_Request ''GET'' location None, Conn_Close]"
    using assms(11) uri_original_kept[of location uri_init] assms(6)
    by (simp add: c_def s1_def after_download_def async_download_uri_data_def cl_async_download_def cl_callback_def cl_handle_complete_def
        cl_close_connection_def cl_call_def ch_new_def Let_def)
  then have "\<exists>hs. cl_calls (up_client s2) = cl_calls (up_client s) @ [Conn_Request ''GET'' location None, Conn_Close,
        Conn_Request ''POST'' (uri_original_string t) (Some hs)]"
    using uri_original_kept[of "uri_original_string t" uri_init]
    by (simp add: s2_def s3_def request_state_def post_data_def cl_async_download_def cl_call_def ch_new_def split_beta Let_def url)
  moreover have "posted_body s2 = Some (soap_action ''GetGenericPortMappingEntry'' (c_str service_type) (get_gen_params 0))"
    "up_callback s2 = On_Get_Mapped_Port 0" "pm_internal_client (up_mapping s2) = ip"
    by (simp_all add: s2_def s3_def)
  ultimately show ?thesis using reply events t by auto
qed

lemma sample_boost: "boost_text (he_trim (ue_http sample_upnp_env)) (he_split (ue_http sample_upnp_env))"
  using boost.boost_text_axioms by (simp add: sample_upnp_env_def sample_client_env_def)

definition sample_gateway :: "xml_position tinyxml" where
  "sample_gateway = xml_trees (\<lambda>_. Some sample_description)"

lemma sample_describes: "describes sample_gateway (sample_description, []) service_wanip ''/ctl''"
  by (simp add: describes_def sample_gateway_def parse_device_def parse_device_loop.simps te_get_first_child_named_def te_get_string_def
      xml_trees_def named_from_def position_of_def sample_description_def sample_device_def device_types_def)

lemma sample_reply_facts:
  "length (rs_print sample_reply @ []) \<le> 64 * 1024" "c_str (hm_get_header ''LOCATION'' [] (rs_message sample_reply)) = ''http://192.168.1.1/d''"
proof -
  have "length (rs_print sample_reply) = 51" by code_simp
  then show "length (rs_print sample_reply @ []) \<le> 64 * 1024" by simp
  show "c_str (hm_get_header ''LOCATION'' [] (rs_message sample_reply)) = ''http://192.168.1.1/d''" by code_simp
qed

text \<open>The gateway at 192.168.1.1 is asked at http://192.168.1.1:80/ctl.\<close>

theorem gateway_is_asked_witness:
  "\<exists>s1 s2. up_on_socket_receive sample_upnp_env (rs_print sample_reply @ []) sample_mapping_service = Inr s1
    \<and> up_client_events sample_upnp_env sample_gateway ''192.168.1.7'' ([Http_Response rs_new ''u''] @ map Http_Data [''ab'', ''c''] @ [Http_Complete 3]) s1 = Some (Inr s2)
    \<and> up_callback s2 = On_Get_Mapped_Port 0"
proof -
  have lan: "is_lan_host sample_upnp_env ''192.168.1.1''"
    by (simp add: is_lan_host_def ia_set_address_text_def ia_get_address_def htonl_def convert_dword_def sample_upnp_env_def is_lan_ip_def
        reverse_dword_def split_defs to_dword_def)
  have "\<not> up_finished sample_mapping_service" "\<not> cl_keep_alive (up_client sample_mapping_service)"
    by (simp_all add: sample_service_simps cl_new_def cl_set_keep_alive_def cl_call_def)
  moreover have "get_content_length rs_new \<le> 8 * 1024" by code_simp
  moreover have "\<not> ue_istarts_with sample_upnp_env ''/ctl'' ''http://''" by (simp add: sample_upnp_env_def)
  ultimately show ?thesis
    using gateway_is_asked[OF sample_boost sample_reply_ok sample_reply_facts(1) _ sample_reply_facts(2) sample_location _ _ _ _ _ _ _ _ sample_describes
        , of sample_mapping_service rs_new "[''ab'', ''c'']" "tl ''/ctl''" "''192.168.1.7''" "''u''" 3] lan
    by (auto simp: sample_gateway_def td_parse_def xml_trees_def)
qed

text \<open>The reply of the sample gateway leads to one download, from its own address.\<close>

theorem downloads_stay_private_witness:
  "\<exists>a b c d. ue_inet_addr sample_upnp_env (uri_host (snd (uri_parse (Some ''http://192.168.1.1/d'') uri_init))) =
      to_dword (ue_host sample_upnp_env) [a, b, c, d] \<and> (a = 10 \<or> (a = 172 \<and> 16 \<le> b \<and> b \<le> 31) \<or> (a = 192 \<and> b = 168))"
proof -
  let ?s = "map_port 6000 4000 5000 ''TCP'' 0 up_new" and ?u = "snd (uri_parse (Some ''http://192.168.1.1/d'') uri_init)"
  have ok: "uri_parse (Some ''http://192.168.1.1/d'') uri_init = (True, ?u)" unfolding sample_location by simp
  have host: "uri_host ?u = ''192.168.1.1''" unfolding sample_location by simp
  have "is_lan_host sample_upnp_env (uri_host ?u)" unfolding host
    by (simp add: is_lan_host_def ia_set_address_text_def ia_get_address_def htonl_def convert_dword_def sample_upnp_env_def is_lan_ip_def
        reverse_dword_def split_defs to_dword_def)
  moreover have "\<not> up_finished ?s" by (simp add: sample_service_simps)
  ultimately have reply: "up_on_socket_receive sample_upnp_env (rs_print sample_reply @ []) ?s = Inr (?s\<lparr>up_udp := up_udp ?s @ [Udp_Receive 4096],
      up_igd_url := ''http://192.168.1.1/d'', up_igd_uri := ?u,
      up_client := async_download_uri_data ?u (8 * 1024) None (up_client ?s), up_callback := On_Igd\<rparr>)" (is "_ = Inr ?s'")
    using reply_starts_download[OF sample_boost sample_reply_ok sample_reply_facts(1) _ sample_reply_facts(2) ok] by simp
  have "upnp_reachable sample_upnp_env sample_gateway ?s"
    by (rule upnp_reachable.step[OF upnp_reachable.start upnp_step.map_port])
  from upnp_reachable.step[OF this upnp_step.reply[OF reply]] have "upnp_reachable sample_upnp_env sample_gateway ?s'" .
  moreover have "Conn_Request ''GET'' ''http://192.168.1.1/d'' None \<in> set (cl_calls (up_client ?s'))"
    unfolding sample_location by (simp add: async_download_uri_data_def cl_async_download_def cl_call_def ch_new_def)
  ultimately show ?thesis by (rule downloads_stay_private)
qed

subsection \<open>Where the search goes wrong\<close>

text \<open>
  A reply with the address of a host outside the private networks is not downloaded, but it ends the search:
  the next tick stops the timer, and a new call of \<open>map_port\<close> sends no search request either.
\<close>

theorem foreign_reply_ends_search:
  assumes "up_on_socket_receive env data s = Inr s'" and "\<not> up_finished s"
    and "\<not> is_lan_host env (uri_host (up_igd_uri s'))" and "up_igd_url s' \<noteq> []"
  shows "up_client s' = up_client s \<and> up_udp (up_on_tick now s') = up_udp s' \<and> \<not> ti_started (up_timer (up_on_tick now s'))
    \<and> up_udp (map_port now i e p l s') = up_udp s' @ [Udp_Receive 4096] \<and> \<not> ti_started (up_timer (map_port now i e p l s'))
    \<and> up_client (map_port now i e p l s') = up_client s"
proof -
  have "up_client s' = up_client s"
    using assms(1-3) by (auto simp: up_on_socket_receive_def up_udp_call_def up_async_download_def sbind_Inr_iff Let_def split: if_splits)
  then show ?thesis
    using assms(4) by (simp add: up_on_tick_def search_root_device_def map_port_def up_stop_timer_def ti_stop_def ti_cancel_timer_def up_udp_call_def Let_def)
qed

definition foreign_reply :: http_response where
  "foreign_reply = sample_reply\<lparr>rs_message := (rs_message sample_reply)\<lparr>hm_headers := [(''LOCATION'', ''http://8.8.8.8/d'')]\<rparr>\<rparr>"

theorem foreign_reply_ends_search_witness:
  "\<exists>s'. up_on_socket_receive sample_upnp_env (rs_print foreign_reply) sample_mapping_service = Inr s'
    \<and> up_client s' = up_client sample_mapping_service \<and> \<not> ti_started (up_timer (up_on_tick 20000 s'))"
proof -
  let ?u = "snd (uri_parse (Some ''http://8.8.8.8/d'') uri_init)"
  have ok: "response_ok foreign_reply"
    by (simp add: foreign_reply_def sample_reply_def response_ok_def token_def plain_text_def header_ok_def padded_def rs_new_def rs_clear_def
      hm_clear_def no_cr_def is_space_def code_of_def)
  have "length (rs_print foreign_reply) = 47" by code_simp
  then have facts: "length (rs_print foreign_reply) \<le> 64 * 1024" by simp
  have location: "c_str (hm_get_header ''LOCATION'' [] (rs_message foreign_reply)) = ''http://8.8.8.8/d''" by code_simp
  have host: "uri_host ?u = ''8.8.8.8''" by code_simp
  have far: "\<not> is_lan_host sample_upnp_env ''8.8.8.8''"
    by (simp add: is_lan_host_def ia_set_address_text_def ia_get_address_def htonl_def convert_dword_def sample_upnp_env_def is_lan_ip_def
        reverse_dword_def split_defs to_dword_def)
  have run: "\<not> up_finished sample_mapping_service" by (simp add: sample_service_simps)
  have "(re_new (64 * 1024))\<lparr>re_buffer := []\<rparr> = re_new (64 * 1024)" by (simp add: re_new_def)
  then have "re_feed (he_trim (ue_http sample_upnp_env)) (he_split (ue_http sample_upnp_env)) (rs_print foreign_reply) (re_new (64 * 1024))
      = Inr (int (length (rs_print foreign_reply)), (re_new (64 * 1024))\<lparr>re_response := foreign_reply, re_header_finished := True\<rparr>)"
    using boost_text.extract_header[OF sample_boost ok, of "[]" "rs_print foreign_reply" "[]" "64 * 1024"] facts by simp
  then have "\<exists>s'. up_on_socket_receive sample_upnp_env (rs_print foreign_reply) sample_mapping_service = Inr s'
      \<and> up_igd_url s' = ''http://8.8.8.8/d'' \<and> uri_host (up_igd_uri s') = ''8.8.8.8''"
    using run location host far uri_parse_init[of "Some ''http://8.8.8.8/d''" "up_igd_uri sample_mapping_service"]
    by (simp add: up_on_socket_receive_def up_udp_call_def Let_def)
  then show ?thesis using foreign_reply_ends_search[OF _ run] far by fastforce
qed

text \<open>
  When the description has a base address, the address of the requests is made of three parts that do not
  belong together: the gateway's address and directory, the base address and the service's path.
\<close>

theorem base_address_prefixed:
  assumes "\<not> ue_istarts_with env control ''http://''" and "uri_parse (Some (c_str igd)) uri_init = (True, u)" and "uri_host u \<noteq> []"
    and "base = ''http://'' @ rest"
    and "front = ''http://'' @ uri_host u @ '':'' @ numerics_format (uri_port u) @ get_directory Posix_Paths (uri_path u) @ ''/''"
    and "length front < 8191"
  shows "make_control_url env igd base control = Some (Inr (front @ base @ control))"
  using assms by (simp add: make_control_url_def Let_def)

theorem base_address_prefixed_witness:
  "make_control_url sample_upnp_env ''http://192.168.1.1/d'' ''http://192.168.1.1'' ''/ctl''
    = Some (Inr ''http://192.168.1.1:80//http://192.168.1.1/ctl'')"
proof -
  have p: "''http://'' @ ''192.168.1.1'' @ '':'' @ numerics_format 80 @ get_directory Posix_Paths ''/d'' @ ''/'' = ''http://192.168.1.1:80//''"
    by code_simp
  have c: "c_str ''http://192.168.1.1/d'' = ''http://192.168.1.1/d''" by code_simp
  have parsed: "uri_parse (Some (c_str ''http://192.168.1.1/d'')) uri_init = (True, snd (uri_parse (Some ''http://192.168.1.1/d'') uri_init))"
    unfolding c sample_location by simp
  have parts: "uri_host (snd (uri_parse (Some ''http://192.168.1.1/d'') uri_init)) = ''192.168.1.1''"
    "uri_port (snd (uri_parse (Some ''http://192.168.1.1/d'') uri_init)) = 80"
    "uri_path (snd (uri_parse (Some ''http://192.168.1.1/d'') uri_init)) = ''/d''" unfolding sample_location by simp_all
  have no: "\<not> ue_istarts_with sample_upnp_env ''/ctl'' ''http://''" by (simp add: sample_upnp_env_def)
  show ?thesis
    using base_address_prefixed[OF no parsed _ _ refl, of "''http://192.168.1.1''" "''192.168.1.1''"] unfolding parts p by simp
qed

text \<open>A formatted text of more than 8192 characters is read behind the array it was written to.\<close>

lemma long_format_overruns: "vformat full = Inl e \<longleftrightarrow> e = Out_Of_Bounds \<and> 8192 < length full"
  by (auto simp: vformat_def)

end
