(* ===== verification/Spec2Isabelle.thy ===== *)
theory Spec2Isabelle
  imports Bmf Base64 Big_Number_Division Message_Pipe String_Tokenizer Simple_Uri Flow_Meter Options Tcp_Session Message_Socket Timers Http_Stream Http_Ranges Sha1_Digest Writer_Documents Http_Clients Http_Round_Trip Amf Http_Client Tcp_Server Http_Concurrent Byte_Buffer Logging Socks4 Name_Resolver Small_Types Upnp_Service
begin

text \<open>
  Verification development for xul, a C++ utility library of headers (streams, codecs, text,
  containers, options, network clients and servers). Paths below are under src/include/xul/.

  The parts and how they meet. Data arrives from an asio socket (libs/asio/asio_tcp_socket.hpp),
  a session (xio/net/tcp_session.hpp) feeds it to a message decoder (io/codec/) or an HTTP
  decoder (net/http/), and the decoded text is taken apart by the string, URI, header and number
  routines (std/strings.hpp, net/simple_uri.hpp, data/numerics.hpp). Binary values travel through
  memory streams (io/memory_input_stream.hpp, io/memory_output_stream.hpp), data streams over
  them (io/data_input_stream.hpp) and the BMF value format (io/bmf_reader.hpp). Containers
  (data/tree_map.hpp, data/associative_string_array.hpp), options (util/option.hpp), clocks and
  timers serve all of them.

  Conventions. A class is a record of its members, a method a function from the record to the
  record and its result. Bytes and unsigned machine integers are words of their width, or numbers
  with the wrap-around written out; a signed int or int64_t is an int, cut to its type with c_int
  and c_int64 of Xul_Prelude where the code computes with it (flow meters, packet pipe, chunked
  filter, sessions, server), or bounded in the theorem. The overflow itself is undefined in C++;
  the theorems name the range in which it does not occur. A number in a text beyond the range of
  its type has no defined reading by sscanf; Numerics reads the mathematical number there, and
  no property is about such a text. A fault of the machine (an access outside a buffer, a copy
  between overlapping blocks, an exception, an assertion that counts as one) is an Inl of the
  type fault of Xul_Prelude, so that "no fault" is a statement and not a convention; a handler
  that does not return is None (Upnp_Service, Tinyxml, Xul_Strings). Assertions are read as in a
  release build in Tcp_Socket, Url_Session, Http_Connection, Http_Concurrent, Variant,
  Name_Resolver, Logging, Tinyxml and Upnp_Service; a failed assertion is a fault in Http_Server
  and in the structured writers. Listeners are lists of events, or functions from the state where
  a callback may call back. Code that is not in the repository (boost trim and split, TinyXML,
  inet_addr, zlib, asio) is a parameter, a locale or the environment of a step relation.

  Foundations
    Xul_Prelude       results and faults, the C++ integer types, byte lists, collections of rules
    Bit_Converter     data/bit_converter.hpp, data/byte_order.hpp: integers as bytes, swapping
    Map_Contract      the contract of a finite map, a locale the containers interpret
  Streams and binary formats
    Memory_Streams    io/memory_input_stream.hpp, io/memory_output_stream.hpp; positions, bounds,
                      no access outside the buffer for requests below 2^63
    Data_Streams      io/data_input_stream.hpp, io/data_output_stream.hpp, io/data_encoding.hpp;
                      the locale output_stream is the contract the writer needs of its stream
    Bmf_Integer, Bmf  io/bmf_integer_encoding.hpp, bmf_writer.hpp, bmf_reader.hpp: round trip of
                      the values in range, the reader terminates on every input (its fuel is twice
                      the length of the input) and reads inside its buffer
    Sha1, Sha1_Digest  hash/sha1.hpp, hash/hasher.hpp: the transform that works in place is the
                      compression function of the standard, and the hash does not depend on how
                      the message is cut (the fuel of a call is one more than its whole blocks; the padding takes
                      at most 64 bytes and has 65 steps)
    Byte_Buffer       data/byte_buffer.hpp: the growable buffer refines a byte sequence
    Variant, Amf      data/variant.hpp, detail/variant_impl.hpp, array_list.hpp and io/amf_reader.hpp,
                      amf_writer.hpp: typed values, and what of them survives the AMF0 format
                      (the fuel of the reader is twice the bytes left and a constant)
  Text
    Text_Encodings    text/hex_encoding.hpp, net/url_encoding.hpp, text/xml_escape_sequence.hpp
    Base64            text/base64_encoding.hpp
    Xul_Strings       std/strings.hpp: split, join, trim, comparison
    Numerics          data/numerics.hpp: printing and parsing integers
    Paths             os/paths.hpp with both traits classes
    Simple_Uri        net/simple_uri.hpp: parse, assemble, encode, decode
    Structured_Writer, Writer_Documents  io/structured_writer.hpp, text/structured_text_writer.hpp,
                      json_writer.hpp, xml_writer.hpp: the calls accepted are the well nested ones
                      (locale writer_format, interpreted by both formats), and a tree is written
                      as a recursive printer prints it
    String_Tokenizer  data/detail/string_tokenizer_impl.hpp
  Data
    Big_Number, Big_Number_Division   data/big_number.hpp: every operation is the one on naturals
                      modulo 2^(8 n); the loops run over the n bytes and need no fuel
    Std_Maps          std/maps.hpp, data/tree_map.hpp on sorted association lists
    String_Table      data/associative_string_array.hpp, data/string_table.hpp
    Options           util/data_parser.hpp, util/option.hpp, util/detail/options_impl.hpp
    Flow_Meter        util/flow_meter.hpp: sliding windows over a clock, int counters
    Small_Types       util/handle_map.hpp, random.hpp, random_id_generator.hpp, data/slice.hpp,
                      std/sets.hpp
    Log_File          libs/log/file_log_appender.hpp: what the log and the roll files keep
    Logging           libs/log/ (filters, chain, service, loggers, property files), log/log_levels.hpp,
                      data/enum.hpp: which messages are printed
    Timers            util/time_counter.hpp, tick_count_deadline_timer.hpp, asio_timer.hpp
  Codecs and network
    Buffered_Decoder  io/codec/buffered_message_decoder.hpp, line_message_decoder.hpp: the
                      messages delivered do not depend on how the stream is cut
    Message_Pipe      io/codec/message_packet_pipe.hpp, buffered_data_codec.hpp
    Tcp_Socket        libs/asio/asio_tcp_socket.hpp as a step relation with asio as environment:
                      bytes go out in the order of the sends, and a queue that is not empty is
                      being written
    Tcp_Session       xio/net/tcp_session.hpp, tcp_client.hpp: socket and decoder composed
    Tcp_Server        libs/asio/asio_tcp_acceptor.hpp, net/detail/tcp_server_impl.hpp, xio/net/tcp_server.hpp
    Name_Resolver     libs/asio/asio_name_resolver.hpp, net/inet4_address.hpp,
                      net/inet_socket_address.hpp, net/detail/dns_backup_impl.hpp
    Socks4            net/socks4.hpp
    Message_Socket    libs/asio/asio_message_socket.hpp
    Http_Message      net/http/http_message.hpp, http_response.hpp, http_message_parser.hpp
    Http_Stream       http_response_decoder.hpp, detail/chunked_http_filter.hpp
    Http_Ranges       http_range.hpp, http_content_range.hpp, net/url_messages.hpp
    Url_Session       net/detail/url_session_impl.hpp, net/url_sessions.hpp: responses sent through a
                      TCP socket, plain or in chunks, and read back by the client's decoders
    Http_Request      net/http/http_request.hpp, http_request_parser.hpp
    Http_Server       net/http/detail/http_server_impl.hpp (a client connection) and
                      simple_http_server_router_impl.hpp: pipelined requests reach the handlers;
                      what lies in the header buffer is tracked, so that the copy within it faults
                      when it overlaps
    Http_Clients      http_server_impl.hpp (the collection of clients): what clients can make the
                      server keep, as long as none has ended the process with a fault
    Http_Connection   net/http/detail/http_connection_impl.hpp, http_connection_request_info.hpp,
                      gzip_http_filter.hpp, http_connection_options_impl.hpp: the client
    Http_Exchange     what the listener of the client gets: responses, truncation, redirects
    Http_Round_Trip   a server session composed with a client
    Http_Client       net/http/http_client.hpp: downloads with one callback
    Http_Concurrent   net/http/detail/concurrent_http_connection_impl.hpp: the queue of requests
    Tinyxml           text/tinyxml.hpp over the accessors of TinyXML
    Upnp_Service      net/detail/upnp_service_impl.hpp: from the search for a gateway to the mapping
                      of a port, over datagrams, timer, HTTP client and XML

  Bounds and fuel. A loop whose recursion is structural has no fuel. The decoder loops and the
  chunked filter recurse on the bytes left and terminate by a measure. Loops the code can leave
  unfinished (split with an empty delimiter, the search in a document) are partial functions, and
  that they diverge is proved. Fuel, where it appears, is an argument and the theorems show how
  much is enough: twice the length of the input for the BMF reader, twice the bytes left and a
  constant for the AMF reader, one more than the bytes left
  for the user id of SOCKS4, one more than the whole blocks of the data for SHA-1 and 65 steps
  for its padding, the number of filters for a
  message on its way through a log chain without a cycle.

  Not modelled. Calls of the operating system, of OpenSSL, lua, asio, zlib and TinyXML, and the
  classes that only forward to them (mswin, posix, os, crypto, lua, udp sockets): there is no logic to
  state beyond the call. The loops of io/stdfile.hpp over the C stdio functions. Floating point text,
  wide characters and printf formats. Abstract classes, thin forwarders and listeners that do
  nothing. Classes that cannot be compiled: net/http/stream_url_handler.hpp (its base class
  does not exist), data/sequential_map.hpp, io/codec/message_packet_decoder.hpp,
  io/variant_reader.hpp and io/variant_writer.hpp.
\<close>

end
